(* ===== verification/DPI_Prelude.thy ===== *)
theory DPI_Prelude
  imports Main "HOL-Library.Word" "HOL-Library.While_Combinator"
begin

text \<open>
  The vocabulary every component of the DPI model shares: the error values of the C++ code
  (thrown exceptions, \<open>exit(1)\<close>, undefined behaviour, a loop that spins forever), sequencing of
  fallible operations, \<open>size_t\<close> arithmetic with its wrap-around written out, byte-addressed memory
  with little-endian integers in it, and the loop combinator that stands for the polling loops.
\<close>

unbundle bit_operations_syntax

named_theorems size_t_simps \<open>equations of 64-bit arithmetic that hold where nothing overflows\<close>

named_theorems mem_simps \<open>reads over writes of byte memory\<close>

section \<open>Errors and sequencing\<close>

text \<open>
  \<open>OutOfRange\<close> is \<open>std::out_of_range\<close> (vector \<open>at\<close>, \<open>stoi\<close>), \<open>InvalidArgument\<close> is
  \<open>std::invalid_argument\<close>, \<open>Fatal\<close> is \<open>Logging::fatal\<close> (it calls \<open>exit(1)\<close>), \<open>NullDeref\<close> a null pointer
  that the code follows, \<open>BadIndex\<close> a vector index out of range with \<open>operator[]\<close>, \<open>Spin\<close> a loop
  that never ends and \<open>Terminate\<close> a call of \<open>std::terminate\<close>.
\<close>

datatype dpi_error = OutOfRange | InvalidArgument | Fatal | NullDeref | BadIndex | Spin | Terminate

type_synonym 'a result = "dpi_error + 'a"

definition bindR :: "'a result \<Rightarrow> ('a \<Rightarrow> 'b result) \<Rightarrow> 'b result" where
  "bindR r f = (case r of Inl e \<Rightarrow> Inl e | Inr x \<Rightarrow> f x)"

text \<open>\<open>while (cond) body\<close> over a state: a loop that never ends is \<open>Spin\<close>.\<close>

definition loopR :: "('s \<Rightarrow> bool) \<Rightarrow> ('s \<Rightarrow> 's result) \<Rightarrow> 's \<Rightarrow> 's result" where
  "loopR cond body s =
     (case while_option (\<lambda>r. case r of Inl _ \<Rightarrow> False | Inr t \<Rightarrow> cond t) (\<lambda>r. bindR r body) (Inr s)
      of None \<Rightarrow> Inl Spin | Some r \<Rightarrow> r)"

text \<open>\<open>vec[i]\<close> and \<open>vec.at(i)\<close> of a \<open>std::vector\<close>.\<close>

definition index_op :: "'a list \<Rightarrow> nat \<Rightarrow> 'a result" where
  "index_op xs i = (if i < length xs then Inr (xs ! i) else Inl BadIndex)"

definition index_at :: "'a list \<Rightarrow> nat \<Rightarrow> 'a result" where
  "index_at xs i = (if i < length xs then Inr (xs ! i) else Inl OutOfRange)"

text \<open>\<open>if (vec.size() < i + 1) vec.resize(i + 1); vec[i] = x\<close>, with \<open>d\<close> the default element.\<close>

definition resize_put :: "'a \<Rightarrow> 'a list \<Rightarrow> nat \<Rightarrow> 'a \<Rightarrow> 'a list" where
  "resize_put d xs i x =
     (if length xs < i + 1 then xs @ replicate (i + 1 - length xs) d else xs)[i := x]"

section \<open>Machine integers\<close>

definition u64 :: "nat \<Rightarrow> nat" where
  "u64 n = n mod 2 ^ 64"

definition u32 :: "nat \<Rightarrow> nat" where
  "u32 n = n mod 2 ^ 32"

definition add64 :: "nat \<Rightarrow> nat \<Rightarrow> nat" where
  "add64 a b = (a + b) mod 2 ^ 64"

definition sub64 :: "nat \<Rightarrow> nat \<Rightarrow> nat" where
  "sub64 a b = (a + (2 ^ 64 - b mod 2 ^ 64)) mod 2 ^ 64"

definition mul64 :: "nat \<Rightarrow> nat \<Rightarrow> nat" where
  "mul64 a b = (a * b) mod 2 ^ 64"

text \<open>\<open>(uint64_t) i\<close> of an \<open>int\<close>: sign extension.\<close>

definition u64_of_int :: "int \<Rightarrow> nat" where
  "u64_of_int i = nat (i mod 2 ^ 64)"

text \<open>A \<open>size_t\<close> narrowed to \<open>int\<close>: the low 32 bits, read as a signed number.\<close>

definition int32_of :: "nat \<Rightarrow> int" where
  "int32_of n = sint (word_of_nat n :: 32 word)"

section \<open>Byte memory\<close>

type_synonym byte = "8 word"

type_synonym mem = "nat \<Rightarrow> byte"

definition mem_read :: "mem \<Rightarrow> nat \<Rightarrow> nat \<Rightarrow> byte list" where
  "mem_read m a n = map m [a..<a + n]"

definition mem_write :: "mem \<Rightarrow> nat \<Rightarrow> byte list \<Rightarrow> mem" where
  "mem_write m a bs = (\<lambda>i. if a \<le> i \<and> i < a + length bs then bs ! (i - a) else m i)"

fun le_bytes :: "nat \<Rightarrow> nat \<Rightarrow> byte list" where
  "le_bytes 0 v = []"
| "le_bytes (Suc n) v = word_of_nat (v mod 256) # le_bytes n (v div 256)"

fun le_nat :: "byte list \<Rightarrow> nat" where
  "le_nat [] = 0"
| "le_nat (b # bs) = unat b + 256 * le_nat bs"

text \<open>A \<open>uint64_t\<close> stored at an address of a little-endian host.\<close>

definition load64 :: "mem \<Rightarrow> nat \<Rightarrow> nat" where
  "load64 m a = le_nat (mem_read m a 8)"

definition store64 :: "mem \<Rightarrow> nat \<Rightarrow> nat \<Rightarrow> mem" where
  "store64 m a v = mem_write m a (le_bytes 8 v)"

section \<open>Lemmas on results and loops\<close>

lemma bindR_simps [simp]: "bindR (Inl e) f = Inl e" "bindR (Inr x) f = f x"
  by (simp_all add: bindR_def)

lemma bindR_eq_Inr: "bindR r f = Inr y \<longleftrightarrow> (\<exists>x. r = Inr x \<and> f x = Inr y)"
  by (cases r) auto

text \<open>\<open>P\<close> holds of whatever a computation returns.\<close>

definition okR :: "('a \<Rightarrow> bool) \<Rightarrow> 'a result \<Rightarrow> bool" where
  "okR P r \<longleftrightarrow> (\<forall>x. r = Inr x \<longrightarrow> P x)"

lemma okR_simps [simp]: "okR P (Inl e)" "okR P (Inr x) = P x"
  by (simp_all add: okR_def)

lemma okR_bind: "(\<And>x. r = Inr x \<Longrightarrow> okR P (f x)) \<Longrightarrow> okR P (bindR r f)"
  by (cases r) auto

lemma okRD: "okR P r \<Longrightarrow> r = Inr x \<Longrightarrow> P x"
  by simp

lemma bindR_assoc: "bindR (bindR r f) g = bindR r (\<lambda>x. bindR (f x) g)"
  by (cases r) auto

lemma loopR_unfold: "loopR c b s = (if c s then bindR (b s) (loopR c b) else Inr s)"
proof (cases "b s")
  case (Inl e)
  then show ?thesis
    by (simp add: loopR_def while_option_unfold [of _ _ "Inr s"] while_option_unfold [of _ _ "Inl e"])
next
  case (Inr t)
  then show ?thesis
    by (simp add: loopR_def while_option_unfold [of _ _ "Inr s"])
qed

text \<open>What the body keeps holds of the result, if there is one.\<close>

lemma okR_loop:
  assumes "P s" "\<And>t. P t \<Longrightarrow> c t \<Longrightarrow> okR P (b t)"
  shows "okR P (loopR c b s)"
proof -
  let ?C = "\<lambda>r. case r of Inl _ \<Rightarrow> False | Inr t \<Rightarrow> c t"
  have "okR P r" if "while_option ?C (\<lambda>r. bindR r b) (Inr s) = Some r" for r
  proof (rule while_option_rule [OF _ that])
    fix r assume "okR P r" "?C r"
    then show "okR P (bindR r b)" using assms(2) by (cases r) auto
  qed (use assms(1) in simp)
  then show ?thesis by (auto simp: loopR_def split: option.splits)
qed

text \<open>
  A loop ends where each round that is taken succeeds, keeps an invariant and decreases a rank; its
  result satisfies the invariant and the negated condition.
\<close>

lemma loopR_total:
  assumes "P s"
    and "\<And>t. P t \<Longrightarrow> c t \<Longrightarrow> \<exists>t'. b t = Inr t' \<and> P t' \<and> (rank t' :: nat) < rank t"
  shows "\<exists>t. loopR c b s = Inr t \<and> P t \<and> \<not> c t"
  using assms(1)
proof (induction "rank s" arbitrary: s rule: less_induct)
  case less
  show ?case
  proof (cases "c s")
    case True
    with less.prems obtain s' where s': "b s = Inr s'" "P s'" "rank s' < rank s"
      using assms(2) by blast
    from less.hyps [OF s'(3) s'(2)] s'(1) True show ?thesis
      by (simp add: loopR_unfold [of c b s])
  next
    case False
    with less.prems show ?thesis
      by (simp add: loopR_unfold [of c b s])
  qed
qed

text \<open>Two loops that do the same on states that correspond.\<close>

lemma loopR_map:
  assumes "P s" "\<And>t. P t \<Longrightarrow> c t = d (f t)" "\<And>t. P t \<Longrightarrow> c t \<Longrightarrow> okR P (b t)"
    and "\<And>t. P t \<Longrightarrow> c t \<Longrightarrow> b' (f t) = bindR (b t) (\<lambda>x. Inr (f x))"
  shows "loopR d b' (f s) = bindR (loopR c b s) (\<lambda>x. Inr (f x))"
proof -
  let ?C = "\<lambda>r. case r of Inl _ \<Rightarrow> False | Inr t \<Rightarrow> c t" and ?D = "\<lambda>r. case r of Inl _ \<Rightarrow> False | Inr t \<Rightarrow> d t"
  let ?f = "\<lambda>r. bindR r (\<lambda>x. Inr (f x))"
  have "map_option ?f (while_option ?C (\<lambda>r. bindR r b) (Inr s)) = while_option ?D (\<lambda>r. bindR r b') (?f (Inr s))"
  proof (rule while_option_commute_invariant [where P = "okR P"])
    fix r assume "okR P r" "?C r"
    then show "okR P (bindR r b)" using assms(3) by (cases r) auto
  next
    fix r assume "okR P r"
    then show "?C r = ?D (?f r)" using assms(2) by (cases r) auto
  next
    fix r assume "okR P r" "?C r"
    then show "?f (bindR r b) = bindR (?f r) b'" using assms(4) by (cases r) auto
  qed (use assms(1) in simp)
  then show ?thesis by (auto simp: loopR_def split: option.splits)
qed

lemma loopR_exit: "loopR c b s = Inr t \<Longrightarrow> \<not> c t"
  by (auto simp: loopR_def split: option.splits dest!: while_option_stop)

text \<open>A loop may first run while a stronger condition holds.\<close>

lemma loopR_split:
  assumes "\<And>t. c' t \<Longrightarrow> c t"
  shows "loopR c b s = bindR (loopR c' b s) (loopR c b)"
proof -
  let ?C = "\<lambda>r. case r of Inl _ \<Rightarrow> False | Inr t \<Rightarrow> c t" and ?D = "\<lambda>r. case r of Inl _ \<Rightarrow> False | Inr t \<Rightarrow> c' t"
  let ?B = "\<lambda>r. bindR r b"
  have imp: "?D r \<Longrightarrow> ?C r" for r using assms by (cases r) auto
  show ?thesis
  proof (cases "while_option ?D ?B (Inr s)")
    case None
    then have "?D ((?B ^^ k) (Inr s))" for k by (auto simp: while_option_def split: if_splits)
    with imp have "?C ((?B ^^ k) (Inr s))" for k by blast
    then have "while_option ?C ?B (Inr s) = None" by (simp add: while_option_def)
    with None show ?thesis by (simp add: loopR_def)
  next
    case (Some r)
    have "while_option ?C ?B r = while_option ?C ?B (Inr s)"
    proof (rule while_option_rule [OF _ Some])
      fix t assume t: "while_option ?C ?B t = while_option ?C ?B (Inr s)" "?D t"
      have "while_option ?C ?B t = while_option ?C ?B (?B t)"
        using imp [OF t(2)] by (subst while_option_unfold) simp
      with t(1) show "while_option ?C ?B (?B t) = while_option ?C ?B (Inr s)" by simp
    qed simp
    then have same: "loopR c b s = (case while_option ?C ?B r of None \<Rightarrow> Inl Spin | Some r \<Rightarrow> r)" by (simp add: loopR_def)
    have first: "loopR c' b s = r" using Some by (simp add: loopR_def)
    show ?thesis
    proof (cases r)
      case (Inl e)
      then have "while_option ?C ?B r = Some (Inl e)" by (subst while_option_unfold) simp
      with same first Inl show ?thesis by simp
    next
      case (Inr t)
      with same first show ?thesis by (simp add: loopR_def)
    qed
  qed
qed

lemma index_op_simps [simp]:
  "i < length xs \<Longrightarrow> index_op xs i = Inr (xs ! i)"
  "length xs \<le> i \<Longrightarrow> index_op xs i = Inl BadIndex"
  by (simp_all add: index_op_def)

lemma index_at_simps [simp]:
  "i < length xs \<Longrightarrow> index_at xs i = Inr (xs ! i)"
  "length xs \<le> i \<Longrightarrow> index_at xs i = Inl OutOfRange"
  by (simp_all add: index_at_def)

lemma length_resize_put [simp]: "length (resize_put d xs i x) = max (length xs) (Suc i)"
  by (simp add: resize_put_def)

lemma resize_put_nth [simp]: "resize_put d xs i x ! i = x"
  by (simp add: resize_put_def)

lemma resize_put_nth_other:
  assumes "j \<noteq> i" "j < length xs"
  shows "resize_put d xs i x ! j = xs ! j"
  using assms by (simp add: resize_put_def nth_append)

section \<open>Lemmas on machine integers\<close>

lemma add64_small [size_t_simps]: "a + b < 2 ^ 64 \<Longrightarrow> add64 a b = a + b"
  by (simp add: add64_def)

lemma mul64_small [size_t_simps]: "a * b < 2 ^ 64 \<Longrightarrow> mul64 a b = a * b"
  by (simp add: mul64_def)

lemma sub64_small [size_t_simps]:
  assumes "b \<le> a" "a < 2 ^ 64"
  shows "sub64 a b = a - b"
proof -
  from assms have "a + (2 ^ 64 - b mod 2 ^ 64) = (a - b) + 2 ^ 64" by simp
  then have "sub64 a b = ((a - b) + 2 ^ 64) mod 2 ^ 64" unfolding sub64_def by (rule arg_cong)
  with assms show ?thesis by (simp only: mod_add_self2) simp
qed

lemma u64_small [size_t_simps]: "a < 2 ^ 64 \<Longrightarrow> u64 a = a"
  by (simp add: u64_def)

lemma u32_small [size_t_simps]: "a < 2 ^ 32 \<Longrightarrow> u32 a = a"
  by (simp add: u32_def)

lemma wrap_bounds:
  "u64 a < 2 ^ 64" "u32 a < 2 ^ 32" "add64 a b < 2 ^ 64" "sub64 a b < 2 ^ 64" "mul64 a b < 2 ^ 64"
  by (simp_all add: u64_def u32_def add64_def sub64_def mul64_def)

lemmas wrap_bounds_num [simp] = wrap_bounds [simplified]

section \<open>Lemmas on byte memory\<close>

lemma length_mem_read [simp]: "length (mem_read m a n) = n"
  by (simp add: mem_read_def)

lemma mem_read_0 [simp]: "mem_read m a 0 = []"
  by (simp add: mem_read_def)

lemma nth_mem_read [simp]: "i < n \<Longrightarrow> mem_read m a n ! i = m (a + i)"
  by (simp add: mem_read_def)

lemma mem_write_Nil [simp]: "mem_write m a [] = m"
  by (auto simp: mem_write_def fun_eq_iff)

lemma mem_write_outside [mem_simps]: "i < a \<or> a + length bs \<le> i \<Longrightarrow> mem_write m a bs i = m i"
  by (auto simp: mem_write_def)

lemma mem_write_inside [mem_simps]: "i < length bs \<Longrightarrow> mem_write m a bs (a + i) = bs ! i"
  by (simp add: mem_write_def)

lemma mem_read_cong:
  "(\<And>i. a \<le> i \<Longrightarrow> i < a + n \<Longrightarrow> m i = m' i) \<Longrightarrow> mem_read m a n = mem_read m' a n"
  by (simp add: mem_read_def)

lemma mem_read_write_same [simp]: "length bs = n \<Longrightarrow> mem_read (mem_write m a bs) a n = bs"
  by (intro nth_equalityI) (simp_all add: mem_write_inside)

lemma mem_read_write_disjoint [mem_simps]:
  "a + n \<le> b \<or> b + length bs \<le> a \<Longrightarrow> mem_read (mem_write m b bs) a n = mem_read m a n"
  by (rule mem_read_cong) (auto simp: mem_write_def)

lemma mem_read_append: "mem_read m a (n + k) = mem_read m a n @ mem_read m (a + n) k"
  by (intro nth_equalityI) (auto simp: nth_append)

lemma mem_write_append:
  "mem_write m a (xs @ ys) = mem_write (mem_write m a xs) (a + length xs) ys"
  by (auto simp: mem_write_def nth_append fun_eq_iff)

lemma mem_write_read [simp]: "mem_write m a (mem_read m a n) = m"
  by (auto simp: mem_write_def fun_eq_iff)

lemma mem_write_twice [simp]:
  "length xs = length ys \<Longrightarrow> mem_write (mem_write m a xs) a ys = mem_write m a ys"
  by (auto simp: mem_write_def fun_eq_iff)

lemma length_le_bytes [simp]: "length (le_bytes n v) = n"
  by (induction n arbitrary: v) auto

lemma le_nat_le_bytes: "le_nat (le_bytes n v) = v mod 256 ^ n"
proof (induction n arbitrary: v)
  case (Suc n)
  have "unat (word_of_nat (v mod 256) :: byte) = v mod 256"
    by (simp add: unat_of_nat)
  then show ?case
    by (simp add: Suc.IH mod_mult2_eq)
qed simp

lemma le_nat_bound: "le_nat bs < 256 ^ length bs"
proof (induction bs)
  case (Cons b bs)
  have "unat b < 256" using unsigned_less [of b] by simp
  then show ?case using Cons.IH by simp
qed simp

lemma le_bytes_le_nat: "le_bytes (length bs) (le_nat bs) = bs"
proof (induction bs)
  case (Cons b bs)
  have "unat b < 256" using unsigned_less [of b] by simp
  then have "(unat b + 256 * le_nat bs) mod 256 = unat b"
    and "(unat b + 256 * le_nat bs) div 256 = le_nat bs" by simp_all
  then show ?case using Cons.IH by simp
qed simp

lemma load64_bound: "load64 m a < 2 ^ 64"
  using le_nat_bound [of "mem_read m a 8"] by (simp add: load64_def)

lemmas load64_bound_num [simp] = load64_bound [simplified]

lemma load64_store64_same [simp]: "load64 (store64 m a v) a = u64 v"
  by (simp add: load64_def store64_def le_nat_le_bytes u64_def)

lemma load64_store64_disjoint [mem_simps]:
  "a + 8 \<le> b \<or> b + 8 \<le> a \<Longrightarrow> load64 (store64 m b v) a = load64 m a"
  by (simp add: load64_def store64_def mem_read_write_disjoint)

lemma load64_write_disjoint [mem_simps]:
  "a + 8 \<le> b \<or> b + length bs \<le> a \<Longrightarrow> load64 (mem_write m b bs) a = load64 m a"
  by (simp add: load64_def mem_read_write_disjoint)

lemma mem_read_store64_disjoint [mem_simps]:
  "a + n \<le> b \<or> b + 8 \<le> a \<Longrightarrow> mem_read (store64 m b v) a n = mem_read m a n"
  by (simp add: store64_def mem_read_write_disjoint)

section \<open>Measures of lists\<close>

lemma sum_list_update_less:
  "i < length xs \<Longrightarrow> f y < f (xs ! i) \<Longrightarrow> sum_list (map f (xs[i := y])) < (sum_list (map f xs) :: nat)"
  by (induction xs arbitrary: i) (auto split: nat.splits)

end
