(* ===== verification/Messages.thy ===== *)
theory Messages
  imports DPI_Prelude
begin

text \<open>
  The buffer handle that registry, writers and readers share, and the messages that go over the wire:
  one record per message type with its fields, \<open>any_msg\<close> for \<open>google::protobuf::Any\<close>, the error codes
  and the functions of \<open>MessageTypes\<close> that build requests. The setter of a \<open>uint32\<close> field keeps the low
  32 bits of its argument.
\<close>

section \<open>Buffer handles\<close>

datatype Buffertype = BW | LAT

record BufferSegment =
  seg_offset :: nat
  seg_size :: nat

record BufferHandle =
  bh_name :: string
  bh_node_id :: nat
  bh_entrySegments :: "BufferSegment list"
  bh_segmentsPerWriter :: nat
  bh_numberOfWriters :: nat
  bh_segmentSizes :: nat
  bh_buffertype :: Buffertype

definition newBufferHandle ::
  "string \<Rightarrow> nat \<Rightarrow> nat \<Rightarrow> nat \<Rightarrow> nat \<Rightarrow> Buffertype \<Rightarrow> BufferHandle" where
  "newBufferHandle name node_id segmentsPerWriter numberOfWriters segmentSizes buffertype =
     \<lparr>bh_name = name, bh_node_id = node_id, bh_entrySegments = [], bh_segmentsPerWriter = segmentsPerWriter,
      bh_numberOfWriters = numberOfWriters, bh_segmentSizes = segmentSizes, bh_buffertype = buffertype\<rparr>"

text \<open>
  The enum as an integer and back. A number above 1 is outside the enum; every test in the code
  compares with \<open>LAT\<close>.
\<close>

definition buffertype_code :: "Buffertype \<Rightarrow> nat" where
  "buffertype_code t = (case t of BW \<Rightarrow> 0 | LAT \<Rightarrow> 1)"

definition buffertype_of :: "nat \<Rightarrow> Buffertype" where
  "buffertype_of n = (if n = 1 then LAT else BW)"

section \<open>Error codes\<close>

datatype MessageErrors = NO_ERROR | INVALID_MESSAGE | MEMORY_NOT_AVAILABLE | MEMORY_RELEASE_FAILED
  | DB_LOAD_DATA_FAILED | DB_SN_NODE_NOT_AVAILABLE | SSB_INVALID_COMMAND | DB_CREATE_TABLE_FAILED
  | DB_RESTORE_SNAPSHOT_FAILED | DB_TAKE_SNAPSHOT_FAILED | DB_STORAGE_PARTITIONS_NOTEQUAL
  | DB_CLASSIC_HASH_EXTRA_ATTR | DPI_CREATE_RING_ON_BUF_FAILED | DPI_RTRV_BUFFHANDLE_FAILED
  | DPI_APPEND_BUFFHANDLE_FAILED | DPI_REGISTER_BUFFHANDLE_FAILED | DPI_JOIN_BUFFER_FAILED

definition error_code :: "MessageErrors \<Rightarrow> nat" where
  "error_code e = (case e of NO_ERROR \<Rightarrow> 0 | INVALID_MESSAGE \<Rightarrow> 1 | MEMORY_NOT_AVAILABLE \<Rightarrow> 100
     | MEMORY_RELEASE_FAILED \<Rightarrow> 101 | DB_LOAD_DATA_FAILED \<Rightarrow> 200 | DB_SN_NODE_NOT_AVAILABLE \<Rightarrow> 201
     | SSB_INVALID_COMMAND \<Rightarrow> 300 | DB_CREATE_TABLE_FAILED \<Rightarrow> 400 | DB_RESTORE_SNAPSHOT_FAILED \<Rightarrow> 401
     | DB_TAKE_SNAPSHOT_FAILED \<Rightarrow> 402 | DB_STORAGE_PARTITIONS_NOTEQUAL \<Rightarrow> 403
     | DB_CLASSIC_HASH_EXTRA_ATTR \<Rightarrow> 404 | DPI_CREATE_RING_ON_BUF_FAILED \<Rightarrow> 500
     | DPI_RTRV_BUFFHANDLE_FAILED \<Rightarrow> 501 | DPI_APPEND_BUFFHANDLE_FAILED \<Rightarrow> 502
     | DPI_REGISTER_BUFFHANDLE_FAILED \<Rightarrow> 503 | DPI_JOIN_BUFFER_FAILED \<Rightarrow> 504)"

section \<open>Messages\<close>

record AllocSegmentsRequest =
  asq_name :: string
  asq_segments_count :: nat
  asq_segments_size :: nat
  asq_buffer_type :: nat

record AllocSegmentsResponse =
  asr_offset :: nat
  asr_return :: nat

record AppendBufferRequest =
  abq_name :: string
  abq_node_id :: nat
  abq_segment :: "(nat \<times> nat \<times> nat) list"
  abq_segmentsPerWriter :: nat
  abq_numberAppenders :: nat
  abq_segmentSizes :: nat
  abq_register :: bool
  abq_buffertype :: nat

text \<open>
  \<open>CreateRingOnBufferResponse\<close> and \<open>RetrieveBufferResponse\<close>; an unset field has its default value, an
  unset segment is zero.
\<close>

record BufferResponse =
  br_name :: string
  br_node_id :: nat
  br_segment :: "BufferSegment list"
  br_segmentsPerWriter :: nat
  br_segmentSizes :: nat
  br_buffertype :: nat
  br_return :: nat

definition br_failed :: "MessageErrors \<Rightarrow> BufferResponse" where
  "br_failed e = \<lparr>br_name = [], br_node_id = 0, br_segment = [], br_segmentsPerWriter = 0,
     br_segmentSizes = 0, br_buffertype = 0, br_return = error_code e\<rparr>"

text \<open>\<open>RDMAConnRequest(Mgmt)\<close> and \<open>RDMAConnResponse(Mgmt)\<close> differ only in the server's key.\<close>

record ConnMessage =
  cm_buffer :: nat
  cm_rkey :: nat
  cm_qp_num :: nat
  cm_lid :: nat
  cm_gid :: "nat list"
  cm_psn :: nat
  cm_server_connkey :: nat

definition conn_message_empty :: ConnMessage where
  "conn_message_empty = \<lparr>cm_buffer = 0, cm_rkey = 0, cm_qp_num = 0, cm_lid = 0, cm_gid = [], cm_psn = 0,
     cm_server_connkey = 0\<rparr>"

record MemoryRequest =
  mq_size :: nat
  mq_offset :: nat
  mq_type :: nat
  mq_name :: string
  mq_persistent :: bool

datatype any_msg =
    HelloMessage string
  | RDMAConnRequest ConnMessage
  | RDMAConnResponse ConnMessage
  | RDMAConnRequestMgmt ConnMessage
  | RDMAConnResponseMgmt ConnMessage
  | MemoryResourceRequest MemoryRequest
  | MemoryResourceResponse nat nat
  | DPIAllocSegmentsRequest AllocSegmentsRequest
  | DPIAllocSegmentsResponse AllocSegmentsResponse
  | DPICreateRingOnBufferRequest string
  | DPICreateRingOnBufferResponse BufferResponse
  | DPIRetrieveBufferRequest string bool
  | DPIRetrieveBufferResponse BufferResponse
  | DPIAppendBufferRequest AppendBufferRequest
  | DPIAppendBufferResponse nat
  | ErrorMessage nat
  | AnyEmpty

section \<open>MessageTypes\<close>

text \<open>\<open>MessageTypesEnum\<close>.\<close>

abbreviation (input) MEMORY_RESOURCE_REQUEST :: nat where
  "MEMORY_RESOURCE_REQUEST \<equiv> 0"

abbreviation (input) MEMORY_RESOURCE_RELEASE :: nat where
  "MEMORY_RESOURCE_RELEASE \<equiv> 1"

definition createDPIAllocSegmentsRequest :: "string \<Rightarrow> nat \<Rightarrow> nat \<Rightarrow> Buffertype \<Rightarrow> any_msg" where
  "createDPIAllocSegmentsRequest bufferName segmentsCount segmentsSize buffertype =
     DPIAllocSegmentsRequest \<lparr>asq_name = bufferName, asq_segments_count = u32 segmentsCount,
       asq_segments_size = segmentsSize, asq_buffer_type = buffertype_code buffertype\<rparr>"

definition createDPICreateRingOnBufferRequest :: "string \<Rightarrow> any_msg" where
  "createDPICreateRingOnBufferRequest name = DPICreateRingOnBufferRequest name"

definition createDPIAppendBufferRequest :: "string \<Rightarrow> nat \<Rightarrow> nat \<Rightarrow> nat \<Rightarrow> any_msg" where
  "createDPIAppendBufferRequest name offset sz threshold =
     DPIAppendBufferRequest \<lparr>abq_name = name, abq_node_id = 0, abq_segment = [(offset, sz, threshold)],
       abq_segmentsPerWriter = 0, abq_numberAppenders = 0, abq_segmentSizes = 0, abq_register = False,
       abq_buffertype = 0\<rparr>"

definition createDPIRegisterBufferRequest :: "BufferHandle \<Rightarrow> any_msg" where
  "createDPIRegisterBufferRequest handle =
     DPIAppendBufferRequest \<lparr>abq_name = bh_name handle, abq_node_id = bh_node_id handle, abq_segment = [],
       abq_segmentsPerWriter = bh_segmentsPerWriter handle,
       abq_numberAppenders = bh_numberOfWriters handle, abq_segmentSizes = bh_segmentSizes handle,
       abq_register = True, abq_buffertype = buffertype_code (bh_buffertype handle)\<rparr>"

definition createDPIRetrieveBufferRequest :: "string \<Rightarrow> bool \<Rightarrow> any_msg" where
  "createDPIRetrieveBufferRequest name isAppender = DPIRetrieveBufferRequest name isAppender"

definition createMemoryResourceRequest :: "nat \<Rightarrow> any_msg" where
  "createMemoryResourceRequest sz =
     MemoryResourceRequest \<lparr>mq_size = sz, mq_offset = 0, mq_type = MEMORY_RESOURCE_REQUEST, mq_name = [],
       mq_persistent = False\<rparr>"

definition createMemoryResourceRequest_named :: "nat \<Rightarrow> string \<Rightarrow> bool \<Rightarrow> any_msg" where
  "createMemoryResourceRequest_named sz name persistent =
     MemoryResourceRequest \<lparr>mq_size = sz, mq_offset = 0, mq_type = MEMORY_RESOURCE_REQUEST, mq_name = name,
       mq_persistent = persistent\<rparr>"

definition createMemoryResourceRelease :: "nat \<Rightarrow> nat \<Rightarrow> any_msg" where
  "createMemoryResourceRelease sz offset =
     MemoryResourceRequest \<lparr>mq_size = sz, mq_offset = offset, mq_type = MEMORY_RESOURCE_RELEASE, mq_name = [],
       mq_persistent = False\<rparr>"

lemma buffertype_code_inverse [simp]: "buffertype_of (buffertype_code t) = t"
  by (cases t) (simp_all add: buffertype_of_def buffertype_code_def)

lemma error_code_zero [simp]: "error_code e = 0 \<longleftrightarrow> e = NO_ERROR"
  by (cases e) (simp_all add: error_code_def)

lemma error_code_simps [simp]:
  "error_code NO_ERROR = 0" "error_code MEMORY_NOT_AVAILABLE = 100" "error_code INVALID_MESSAGE = 1"
  by (simp_all add: error_code_def)

end
