(* ===== verification/RDMA_Manager.thy ===== *)
theory RDMA_Manager
  imports DPI_Prelude
begin

text \<open>
  The base class \<open>RDMAManager\<close>: its data (queue pairs, connection data, the free list and the map of
  used regions of the registered buffer), the first-fit allocator with coalescing frees that serves
  both local and remote allocations, and the bookkeeping of connection keys. The verbs objects the
  class points to are handles here; what the device does with them is in \<open>Verbs\<close>.
\<close>

section \<open>Data\<close>

datatype rdma_transport_t = rc | ud

datatype ibv_qp_type = IBV_QPT_RC | IBV_QPT_UD

text \<open>A queue pair as the code sees it through its pointer: the fields it reads.\<close>

record ibv_qp =
  qp_handle :: nat
  qp_qp_num :: nat
  qp_send_cq :: nat

record ibv_mr =
  mr_lkey :: nat
  mr_rkey :: nat

record ib_resource_t =
  res_buffer :: "nat option"
  res_pd :: "nat option"
  res_mr :: "ibv_mr option"
  res_lid :: nat
  res_ib_ctx :: "nat option"

record ib_qp_t =
  qp :: "ibv_qp option"
  send_cq :: nat
  recv_cq :: nat

record ib_conn_t =
  conn_buffer :: nat
  conn_qp_num :: nat
  conn_lid :: nat
  conn_gid :: "nat list"
  conn_rkey :: nat
  conn_psn :: nat
  conn_ah :: "nat option"

record ib_addr_t =
  conn_key :: nat

definition ib_addr_init :: ib_addr_t where
  "ib_addr_init = \<lparr>conn_key = 0\<rparr>"

text \<open>\<open>ib_qp_t()\<close>: null pointers (a null completion queue is handle 0).\<close>

definition ib_qp_init :: ib_qp_t where
  "ib_qp_init = \<lparr>qp = None, send_cq = 0, recv_cq = 0\<rparr>"

text \<open>\<open>std::vector::resize\<close> value-initialises the elements it adds.\<close>

definition ib_conn_zero :: ib_conn_t where
  "ib_conn_zero = \<lparr>conn_buffer = 0, conn_qp_num = 0, conn_lid = 0, conn_gid = replicate 16 0,
     conn_rkey = 0, conn_psn = 0, conn_ah = None\<rparr>"

record rdma_mem_t =
  rm_size :: nat
  rm_free :: bool
  rm_offset :: nat
  rm_isnull :: bool

definition rdma_mem :: "nat \<Rightarrow> bool \<Rightarrow> nat \<Rightarrow> rdma_mem_t" where
  "rdma_mem initSize initFree initOffset =
     \<lparr>rm_size = initSize, rm_free = initFree, rm_offset = initOffset, rm_isnull = False\<rparr>"

definition rdma_mem_null :: rdma_mem_t where
  "rdma_mem_null = \<lparr>rm_size = 0, rm_free = False, rm_offset = 0, rm_isnull = True\<rparr>"

record rdma_manager =
  m_qpType :: ibv_qp_type
  m_memSize :: nat
  m_numaRegion :: nat
  m_rdmaDevice :: nat
  m_ibPort :: nat
  m_gidIdx :: int
  m_res :: ib_resource_t
  m_lastConnKey :: nat
  m_qps :: "ib_qp_t list"
  m_rconns :: "ib_conn_t list"
  m_lconns :: "ib_conn_t list"
  m_connected :: "nat \<rightharpoonup> bool"
  m_qpNum2connKey :: "nat \<rightharpoonup> nat"
  m_rdmaMem :: "rdma_mem_t list"
  m_usedRdmaMem :: "nat \<rightharpoonup> rdma_mem_t"

text \<open>
  The fields as the constructor sets them, with what \<open>createBuffer\<close> obtains from the device in \<open>res\<close> and
  the queue pair type that the subclass sets: the whole buffer is one free region.
\<close>

definition rdma_manager_init ::
  "ibv_qp_type \<Rightarrow> nat \<Rightarrow> nat \<Rightarrow> nat \<Rightarrow> ib_resource_t \<Rightarrow> nat \<Rightarrow> rdma_manager" where
  "rdma_manager_init qpType numaRegion device ibPort res mem_size =
     \<lparr>m_qpType = qpType, m_memSize = mem_size, m_numaRegion = numaRegion, m_rdmaDevice = device,
      m_ibPort = ibPort, m_gidIdx = -1, m_res = res, m_lastConnKey = 0, m_qps = [], m_rconns = [],
      m_lconns = [], m_connected = Map.empty, m_qpNum2connKey = Map.empty,
      m_rdmaMem = [rdma_mem mem_size True 0], m_usedRdmaMem = Map.empty\<rparr>"

section \<open>Memory management\<close>

text \<open>
  The scan of \<open>internalAlloc\<close>: the first free region that is large enough gives up its front, and the
  rest of it, if any, takes its place in the list.
\<close>

fun internalAlloc_scan :: "nat \<Rightarrow> rdma_mem_t list \<Rightarrow> (rdma_mem_t \<times> rdma_mem_t list) option" where
  "internalAlloc_scan sz [] = None"
| "internalAlloc_scan sz (memRes # rest) =
     (if rm_free memRes \<and> sz \<le> rm_size memRes then
        Some (rdma_mem sz False (rm_offset memRes),
              (if sz < rm_size memRes
               then [rdma_mem (rm_size memRes - sz) True (rm_offset memRes + sz)] else []) @ rest)
      else map_option (\<lambda>(used, l). (used, memRes # l)) (internalAlloc_scan sz rest))"

definition internalAlloc ::
  "nat \<Rightarrow> 'm rdma_manager_scheme \<Rightarrow> rdma_mem_t \<times> 'm rdma_manager_scheme" where
  "internalAlloc sz m =
     (case internalAlloc_scan sz (m_rdmaMem m) of
        Some (memResUsed, l) \<Rightarrow>
          (memResUsed, m\<lparr>m_rdmaMem := l, m_usedRdmaMem := (m_usedRdmaMem m)(rm_offset memResUsed \<mapsto> memResUsed)\<rparr>)
      | None \<Rightarrow> (rdma_mem_null, m))"

text \<open>
  \<open>mergeFreeMem\<close> with its iterator as an index into the list: the region handed in grows over the
  previous one when they touch, then over the following one.
\<close>

definition mergeFreeMem :: "nat \<Rightarrow> rdma_mem_t list \<Rightarrow> rdma_mem_t list" where
  "mergeFreeMem iter l =
     (let freeSpace = rm_size (l ! iter); offset = rm_offset (l ! iter); sz = rm_size (l ! iter);
          (l, iter, freeSpace) =
            (if iter \<noteq> 0 then
               let prev = l ! (iter - 1) in
               if rm_offset prev + rm_size prev = offset then
                 let freeSpace = freeSpace + rm_size prev in
                 (take iter (l[iter - 1 := prev\<lparr>rm_size := freeSpace\<rparr>]) @ drop (iter + 1) l,
                  iter - 1, freeSpace)
               else (l, iter, freeSpace)
             else (l, iter, freeSpace))
      in if iter + 1 < length l then
           let following = l ! (iter + 1) in
           if offset + sz = rm_offset following then
             let freeSpace = freeSpace + rm_size following; l = take (iter + 1) l @ drop (iter + 2) l in
             l[iter := (l ! iter)\<lparr>rm_size := freeSpace\<rparr>]
           else l
         else l)"

text \<open>The scan of \<open>internalFree\<close> for the place of a freed offset; \<open>lastOffset\<close> adds up.\<close>

fun internalFree_scan :: "nat \<Rightarrow> nat \<Rightarrow> rdma_mem_t list \<Rightarrow> nat option" where
  "internalFree_scan offset lastOffset [] = None"
| "internalFree_scan offset lastOffset (memRes # rest) =
     (if lastOffset \<le> offset \<and> offset < rm_offset memRes then Some 0
      else map_option Suc (internalFree_scan offset (add64 lastOffset (rm_offset memRes)) rest))"

text \<open>\<open>m_usedRdmaMem[offset]\<close> makes a null entry for an offset that is not in the map.\<close>

definition internalFree :: "nat \<Rightarrow> 'm rdma_manager_scheme \<Rightarrow> bool \<times> 'm rdma_manager_scheme" where
  "internalFree offset m =
     (let memResFree = (case m_usedRdmaMem m offset of Some r \<Rightarrow> r | None \<Rightarrow> rdma_mem_null);
          m = m\<lparr>m_usedRdmaMem := (m_usedRdmaMem m)(offset := None)\<rparr>;
          l = m_rdmaMem m
      in if l \<noteq> [] then
           (case internalFree_scan offset 0 l of
              Some i \<Rightarrow>
                (True, m\<lparr>m_rdmaMem := mergeFreeMem i (take i l @ memResFree\<lparr>rm_free := True\<rparr> # drop i l)\<rparr>)
            | None \<Rightarrow> (False, m))
         else (True, m\<lparr>m_rdmaMem := [memResFree\<lparr>rm_free := True\<rparr>]\<rparr>))"

text \<open>
  \<open>restoreMemStateSnapShot\<close>: the used regions of a snapshot enter the map (an entry already there
  stays, as \<open>unordered_map::insert\<close> does) and the free list is rebuilt from the gaps between the
  sorted offsets; the total is \<open>Config::RDMA_MEMSIZE\<close>. The subtractions are \<open>size_t\<close> ones.
\<close>

fun restore_gaps :: "(nat \<rightharpoonup> rdma_mem_t) \<Rightarrow> nat list \<Rightarrow> rdma_mem_t list result" where
  "restore_gaps used (o1 # o2 # rest) =
     (case used o1 of None \<Rightarrow> Inl OutOfRange
      | Some mem \<Rightarrow>
          let gap = sub64 o2 (add64 o1 (rm_size mem)) in
          bindR (restore_gaps used (o2 # rest)) (\<lambda>l.
            Inr (if 0 < gap then rdma_mem gap True (add64 o1 (rm_size mem)) # l else l)))"
| "restore_gaps used _ = Inr []"

definition restoreMemStateSnapShot ::
  "nat \<Rightarrow> (nat \<rightharpoonup> rdma_mem_t) \<Rightarrow> nat list \<Rightarrow> 'm rdma_manager_scheme \<Rightarrow>
   (bool \<times> 'm rdma_manager_scheme) result" where
  "restoreMemStateSnapShot cfg_memsize usedMemory off m =
     (let used = (\<lambda>k. case m_usedRdmaMem m k of Some r \<Rightarrow> Some r | None \<Rightarrow> usedMemory k) in
      if off = [] then Inl BadIndex
      else
        let first = (if hd off \<noteq> 0 then [rdma_mem (hd off) True 0] else []);
            scanned = (if hd off \<noteq> 0 then tl off else off)
        in bindR (restore_gaps used scanned) (\<lambda>mid.
             case used (last off) of None \<Rightarrow> Inl OutOfRange
             | Some mem \<Rightarrow>
                 let stop = add64 (last off) (rm_size mem);
                     lst = (if stop \<noteq> cfg_memsize then [rdma_mem (sub64 cfg_memsize stop) True stop] else [])
                 in Inr (True, m\<lparr>m_usedRdmaMem := used, m_rdmaMem := first @ mid @ lst\<rparr>)))"

section \<open>Connection bookkeeping\<close>

definition nextConnKey :: "'m rdma_manager_scheme \<Rightarrow> nat \<times> 'm rdma_manager_scheme" where
  "nextConnKey m = (m_lastConnKey m, m\<lparr>m_lastConnKey := add64 (m_lastConnKey m) 1\<rparr>)"

text \<open>\<open>qp.qp->qp_num\<close> follows the queue pair's pointer.\<close>

definition setQP :: "ib_addr_t \<Rightarrow> ib_qp_t \<Rightarrow> 'm rdma_manager_scheme \<Rightarrow> 'm rdma_manager_scheme result"
  where
  "setQP ibAddr q m =
     (let connKey = conn_key ibAddr;
          m = m\<lparr>m_qps := resize_put ib_qp_init (m_qps m) connKey q\<rparr>
      in case qp q of None \<Rightarrow> Inl NullDeref
         | Some p \<Rightarrow> Inr (m\<lparr>m_qpNum2connKey := (m_qpNum2connKey m)(qp_qp_num p \<mapsto> connKey)\<rparr>))"

definition setLocalConnData ::
  "ib_addr_t \<Rightarrow> ib_conn_t \<Rightarrow> 'm rdma_manager_scheme \<Rightarrow> 'm rdma_manager_scheme" where
  "setLocalConnData ibAddr conn m =
     m\<lparr>m_lconns := resize_put ib_conn_zero (m_lconns m) (conn_key ibAddr) conn\<rparr>"

definition setRemoteConnData ::
  "ib_addr_t \<Rightarrow> ib_conn_t \<Rightarrow> 'm rdma_manager_scheme \<Rightarrow> 'm rdma_manager_scheme" where
  "setRemoteConnData ibAddr conn m =
     m\<lparr>m_rconns := resize_put ib_conn_zero (m_rconns m) (conn_key ibAddr) conn\<rparr>"

definition getLocalConnData :: "ib_addr_t \<Rightarrow> 'm rdma_manager_scheme \<Rightarrow> ib_conn_t result" where
  "getLocalConnData ibAddr m = index_op (m_lconns m) (conn_key ibAddr)"

definition getQPNum :: "ib_addr_t \<Rightarrow> 'm rdma_manager_scheme \<Rightarrow> nat result" where
  "getQPNum ibAddr m =
     bindR (index_op (m_qps m) (conn_key ibAddr)) (\<lambda>q.
       case qp q of None \<Rightarrow> Inl NullDeref | Some p \<Rightarrow> Inr (qp_qp_num p))"

text \<open>\<open>m_qpNum2connKey[qp_num]\<close>: an absent key gets 0 and stays in the map.\<close>

definition getConnKey :: "nat \<Rightarrow> 'm rdma_manager_scheme \<Rightarrow> nat \<times> 'm rdma_manager_scheme" where
  "getConnKey n m =
     (case m_qpNum2connKey m n of Some k \<Rightarrow> (k, m)
      | None \<Rightarrow> (0, m\<lparr>m_qpNum2connKey := (m_qpNum2connKey m)(n \<mapsto> 0)\<rparr>))"

end
