(* ===== verification/Verbs.thy ===== *)
theory Verbs
  imports RDMA_Manager
begin

text \<open>
  The InfiniBand verbs, \<open>librdmacm\<close> and \<open>libnuma\<close> calls of the RDMA managers are not part of the
  repository. They are the fields of the record \<open>verbs\<close>, a parameter of every definition that calls
  them: a function of its arguments and of the world, the process memory together with the state of the
  device and the fabric. The work requests and attributes the code fills in are records with the fields
  it sets; a field that \<open>memset\<close> leaves at zero is zero.
\<close>

section \<open>World\<close>

record 'd world =
  lmem :: mem
  dev :: 'd

section \<open>Work requests and attributes\<close>

datatype ibv_wr_opcode = IBV_WR_RDMA_WRITE | IBV_WR_RDMA_READ | IBV_WR_ATOMIC_FETCH_AND_ADD
  | IBV_WR_ATOMIC_CMP_AND_SWP | IBV_WR_SEND | IBV_WR_SEND_WITH_IMM

record send_wr =
  wr_opcode :: ibv_wr_opcode
  wr_signaled :: bool
  wr_addr :: nat
  wr_length :: nat
  wr_lkey :: nat
  wr_remote_addr :: nat
  wr_rkey :: nat
  wr_compare_add :: nat
  wr_swap :: nat
  wr_ah :: "nat option"
  wr_remote_qpn :: nat
  wr_remote_qkey :: nat

text \<open>
  The request every operation starts from: one scatter-gather entry over local memory. The entry's
  length is a \<open>uint32_t\<close>.
\<close>

definition sge_wr :: "ibv_wr_opcode \<Rightarrow> bool \<Rightarrow> nat \<Rightarrow> nat \<Rightarrow> nat \<Rightarrow> send_wr" where
  "sge_wr opcode signaled addr sz lkey =
     \<lparr>wr_opcode = opcode, wr_signaled = signaled, wr_addr = addr, wr_length = u32 sz, wr_lkey = lkey,
      wr_remote_addr = 0, wr_rkey = 0, wr_compare_add = 0, wr_swap = 0, wr_ah = None,
      wr_remote_qpn = 0, wr_remote_qkey = 0\<rparr>"

record recv_wr =
  rwr_addr :: nat
  rwr_length :: nat
  rwr_lkey :: nat

datatype ibv_qp_state = IBV_QPS_INIT | IBV_QPS_RTR | IBV_QPS_RTS

datatype qp_attr_mask = IBV_QP_STATE | IBV_QP_PKEY_INDEX | IBV_QP_PORT | IBV_QP_ACCESS_FLAGS
  | IBV_QP_AV | IBV_QP_PATH_MTU | IBV_QP_DEST_QPN | IBV_QP_RQ_PSN | IBV_QP_MAX_DEST_RD_ATOMIC
  | IBV_QP_MIN_RNR_TIMER | IBV_QP_TIMEOUT | IBV_QP_RETRY_CNT | IBV_QP_RNR_RETRY | IBV_QP_SQ_PSN
  | IBV_QP_MAX_QP_RD_ATOMIC | IBV_QP_QKEY

record ah_attr =
  ah_is_global :: nat
  ah_dlid :: nat
  ah_port_num :: nat
  ah_dgid :: "nat list"
  ah_hop_limit :: nat
  ah_sgid_index :: int

definition ah_zero :: ah_attr where
  "ah_zero = \<lparr>ah_is_global = 0, ah_dlid = 0, ah_port_num = 0, ah_dgid = replicate 16 0,
     ah_hop_limit = 0, ah_sgid_index = 0\<rparr>"

record qp_attr =
  at_qp_state :: ibv_qp_state
  at_port_num :: nat
  at_access_all :: bool
  at_qkey :: nat
  at_path_mtu :: nat
  at_dest_qp_num :: nat
  at_rq_psn :: nat
  at_max_dest_rd_atomic :: nat
  at_min_rnr_timer :: nat
  at_ah_attr :: ah_attr
  at_timeout :: nat
  at_retry_cnt :: nat
  at_rnr_retry :: nat
  at_sq_psn :: nat
  at_max_rd_atomic :: nat

definition qp_attr_zero :: "ibv_qp_state \<Rightarrow> qp_attr" where
  "qp_attr_zero st = \<lparr>at_qp_state = st, at_port_num = 0, at_access_all = False, at_qkey = 0,
     at_path_mtu = 0, at_dest_qp_num = 0, at_rq_psn = 0, at_max_dest_rd_atomic = 0,
     at_min_rnr_timer = 0, at_ah_attr = ah_zero, at_timeout = 0, at_retry_cnt = 0, at_rnr_retry = 0,
     at_sq_psn = 0, at_max_rd_atomic = 0\<rparr>"

record qp_init_attr =
  ia_send_cq :: nat
  ia_recv_cq :: nat
  ia_qp_type :: ibv_qp_type
  ia_max_wr :: nat
  ia_max_sge :: nat
  ia_max_atomic_arg :: nat

section \<open>The external calls\<close>

text \<open>
  \<open>ibv_poll_cq\<close> returns the number of completions and the status of the completion it wrote (0 is
  \<open>IBV_WC_SUCCESS\<close>); \<open>uninit_conn\<close> is what an uninitialised \<open>ib_conn_t\<close> on the stack holds.
\<close>

record 'd verbs =
  ibv_post_send :: "ibv_qp \<Rightarrow> send_wr \<Rightarrow> 'd world \<Rightarrow> int \<times> 'd world"
  ibv_post_recv :: "ibv_qp \<Rightarrow> recv_wr \<Rightarrow> 'd world \<Rightarrow> int \<times> 'd world"
  ibv_poll_cq :: "nat \<Rightarrow> 'd world \<Rightarrow> (int \<times> int) \<times> 'd world"
  ibv_create_cq :: "nat option \<Rightarrow> nat \<Rightarrow> 'd world \<Rightarrow> nat option \<times> 'd world"
  ibv_destroy_cq :: "nat \<Rightarrow> 'd world \<Rightarrow> int \<times> 'd world"
  ibv_create_qp :: "nat option \<Rightarrow> qp_init_attr \<Rightarrow> 'd world \<Rightarrow> ibv_qp option \<times> 'd world"
  ibv_destroy_qp :: "ibv_qp \<Rightarrow> 'd world \<Rightarrow> int \<times> 'd world"
  ibv_modify_qp :: "ibv_qp \<Rightarrow> qp_attr \<Rightarrow> qp_attr_mask list \<Rightarrow> 'd world \<Rightarrow> int \<times> 'd world"
  ibv_exp_query_device :: "nat option \<Rightarrow> 'd world \<Rightarrow> int \<times> 'd world"
  ibv_create_ah :: "nat option \<Rightarrow> ah_attr \<Rightarrow> 'd world \<Rightarrow> nat option \<times> 'd world"
  ibv_get_device_list :: "'d world \<Rightarrow> nat list option \<times> 'd world"
  ibv_open_device :: "nat \<Rightarrow> 'd world \<Rightarrow> nat option \<times> 'd world"
  ibv_query_port :: "nat option \<Rightarrow> nat \<Rightarrow> 'd world \<Rightarrow> (int \<times> nat) \<times> 'd world"
  numa_alloc_onnode :: "nat \<Rightarrow> nat \<Rightarrow> 'd world \<Rightarrow> nat option \<times> 'd world"
  numa_free :: "nat \<Rightarrow> nat \<Rightarrow> 'd world \<Rightarrow> 'd world"
  ibv_alloc_pd :: "nat option \<Rightarrow> 'd world \<Rightarrow> nat option \<times> 'd world"
  ibv_dealloc_pd :: "nat \<Rightarrow> 'd world \<Rightarrow> 'd world"
  ibv_reg_mr :: "nat option \<Rightarrow> nat \<Rightarrow> nat \<Rightarrow> 'd world \<Rightarrow> ibv_mr option \<times> 'd world"
  ibv_dereg_mr :: "ibv_mr \<Rightarrow> 'd world \<Rightarrow> 'd world"
  ibv_close_device :: "nat \<Rightarrow> 'd world \<Rightarrow> 'd world"
  lrand48 :: "'d world \<Rightarrow> nat \<times> 'd world"
  uninit_conn :: ib_conn_t

section \<open>Base class operations that call the device\<close>

text \<open>The parts of \<open>Config\<close> the managers read.\<close>

record rdma_config =
  cfg_RDMA_MEMSIZE :: nat
  cfg_RDMA_NUMAREGION :: nat
  cfg_RDMA_DEVICE :: nat
  cfg_RDMA_IBPORT :: nat
  cfg_RDMA_MAX_WR :: nat
  cfg_RDMA_MAX_SGE :: nat
  cfg_RDMA_UD_OFFSET :: nat

text \<open>
  \<open>RDMAManager::createBuffer\<close>. The buffer is cleared before the test for a failed allocation, so a
  failed allocation is a null pointer the code writes through.
\<close>

definition createBuffer ::
  "('d, 'v) verbs_scheme \<Rightarrow> 'm rdma_manager_scheme \<Rightarrow> 'd world \<Rightarrow> (bool \<times> 'm rdma_manager_scheme \<times> 'd world) result" where
  "createBuffer V m w =
     (case ibv_get_device_list V w of
        (None, w) \<Rightarrow> Inr (False, m, w)
      | (Some devs, w) \<Rightarrow>
     if length devs \<le> m_rdmaDevice m then Inr (False, m, w)
     else case ibv_open_device V (devs ! m_rdmaDevice m) w of
        (None, w) \<Rightarrow> Inr (False, m\<lparr>m_res := (m_res m)\<lparr>res_ib_ctx := None\<rparr>\<rparr>, w)
      | (Some ctx, w) \<Rightarrow>
     let m = m\<lparr>m_res := (m_res m)\<lparr>res_ib_ctx := Some ctx\<rparr>\<rparr> in
     case ibv_query_port V (Some ctx) (m_ibPort m) w of ((err, lid), w) \<Rightarrow>
     if err \<noteq> 0 then Inr (False, m, w)
     else let m = m\<lparr>m_res := (m_res m)\<lparr>res_lid := lid\<rparr>\<rparr> in
     case numa_alloc_onnode V (m_memSize m) (m_numaRegion m) w of
        (None, w) \<Rightarrow> Inl NullDeref
      | (Some buf, w) \<Rightarrow>
     let m = m\<lparr>m_res := (m_res m)\<lparr>res_buffer := Some buf\<rparr>\<rparr>;
         w = w\<lparr>lmem := mem_write (lmem w) buf (replicate (m_memSize m) 0)\<rparr>
     in case ibv_alloc_pd V (Some ctx) w of
        (None, w) \<Rightarrow> Inr (False, m\<lparr>m_res := (m_res m)\<lparr>res_pd := None\<rparr>\<rparr>, w)
      | (Some pd, w) \<Rightarrow>
     let m = m\<lparr>m_res := (m_res m)\<lparr>res_pd := Some pd\<rparr>\<rparr> in
     case ibv_reg_mr V (Some pd) buf (m_memSize m) w of
        (None, w) \<Rightarrow> Inr (False, m\<lparr>m_res := (m_res m)\<lparr>res_mr := None\<rparr>\<rparr>, w)
      | (Some mr, w) \<Rightarrow> Inr (True, m\<lparr>m_res := (m_res m)\<lparr>res_mr := Some mr\<rparr>\<rparr>, w))"

text \<open>The constructor: \<open>invalid_argument\<close> when the buffer cannot be created.\<close>

definition newRDMAManager ::
  "('d, 'v) verbs_scheme \<Rightarrow> 'c rdma_config_scheme \<Rightarrow> ib_resource_t \<Rightarrow> ibv_qp_type \<Rightarrow> nat \<Rightarrow> 'd world \<Rightarrow>
   (rdma_manager \<times> 'd world) result" where
  "newRDMAManager V cfg res0 qpType mem_size w =
     bindR (createBuffer V
       (rdma_manager_init qpType (cfg_RDMA_NUMAREGION cfg) (cfg_RDMA_DEVICE cfg)
          (cfg_RDMA_IBPORT cfg) res0 mem_size) w) (\<lambda>(ok, m, w).
     if ok then Inr (m, w) else Inl InvalidArgument)"

definition createCQ ::
  "('d, 'v) verbs_scheme \<Rightarrow> 'c rdma_config_scheme \<Rightarrow> 'm rdma_manager_scheme \<Rightarrow> ib_qp_t \<Rightarrow> 'd world \<Rightarrow> bool \<times> ib_qp_t \<times> 'd world" where
  "createCQ V cfg m q w =
     (case ibv_create_cq V (res_ib_ctx (m_res m)) (cfg_RDMA_MAX_WR cfg + 1) w of
        (None, w) \<Rightarrow> (False, q\<lparr>send_cq := 0\<rparr>, w)
      | (Some s, w) \<Rightarrow>
     (case ibv_create_cq V (res_ib_ctx (m_res m)) (cfg_RDMA_MAX_WR cfg + 1) w of
        (None, w) \<Rightarrow> (False, q\<lparr>send_cq := s, recv_cq := 0\<rparr>, w)
      | (Some r, w) \<Rightarrow> (True, q\<lparr>send_cq := s, recv_cq := r\<rparr>, w)))"

definition destroyCQ :: "('d, 'v) verbs_scheme \<Rightarrow> nat \<Rightarrow> nat \<Rightarrow> 'd world \<Rightarrow> bool \<times> 'd world" where
  "destroyCQ V scq rcq w =
     (case ibv_destroy_cq V scq w of (e, w) \<Rightarrow>
      if e \<noteq> 0 then (False, w)
      else case ibv_destroy_cq V rcq w of (e, w) \<Rightarrow> (e = 0, w))"

text \<open>
  \<open>destroyManager\<close> after \<open>destroyQPs\<close> (virtual, an argument here): deregister, free, release, close,
  each where the handle is still held.
\<close>

definition destroyManager ::
  "('d, 'v) verbs_scheme \<Rightarrow> ('m rdma_manager_scheme \<Rightarrow> 'd world \<Rightarrow> 'm rdma_manager_scheme \<times> 'd world) \<Rightarrow>
   'm rdma_manager_scheme \<Rightarrow> 'd world \<Rightarrow> 'm rdma_manager_scheme \<times> 'd world" where
  "destroyManager V destroyQPs m w =
     (let (m, w) = destroyQPs m w;
          m = m\<lparr>m_qps := []\<rparr>;
          w = (case res_mr (m_res m) of Some mr \<Rightarrow> ibv_dereg_mr V mr w | None \<Rightarrow> w);
          w = (case res_buffer (m_res m) of Some b \<Rightarrow> numa_free V b (m_memSize m) w | None \<Rightarrow> w);
          w = (case res_pd (m_res m) of Some pd \<Rightarrow> ibv_dealloc_pd V pd w | None \<Rightarrow> w);
          w = (case res_ib_ctx (m_res m) of Some ctx \<Rightarrow> ibv_close_device V ctx w | None \<Rightarrow> w)
      in (m\<lparr>m_res := (m_res m)\<lparr>res_mr := None, res_buffer := None, res_pd := None, res_ib_ctx := None\<rparr>\<rparr>, w))"

section \<open>Polling\<close>

text \<open>
  One round of the polling loops: the status is set to success before the call, and the call writes it
  only with a completion.
\<close>

definition poll_once :: "('d, 'v) verbs_scheme \<Rightarrow> nat \<Rightarrow> 'd world \<Rightarrow> int \<times> int \<times> 'd world" where
  "poll_once V cq w = (case ibv_poll_cq V cq w of ((ne, st), w') \<Rightarrow> (ne, if 0 < ne then st else 0, w'))"

text \<open>
  \<open>do poll while (ne == 0)\<close>: false on a completion with an error status or when polling itself fails.
\<close>

definition wait_completion :: "('d, 'v) verbs_scheme \<Rightarrow> nat \<Rightarrow> 'd world \<Rightarrow> (bool \<times> 'd world) result" where
  "wait_completion V cq w =
     bindR (loopR (\<lambda>(ne, st, w). st = 0 \<and> ne = 0) (\<lambda>(ne, st, w). Inr (poll_once V cq w)) (poll_once V cq w))
       (\<lambda>(ne, st, w). Inr (st = 0 \<and> \<not> ne < 0, w))"

text \<open>\<open>do poll while (ne == 0 && doPoll)\<close> of \<open>pollReceive\<close> and \<open>pollSend\<close>.\<close>

definition poll_cq :: "('d, 'v) verbs_scheme \<Rightarrow> nat \<Rightarrow> bool \<Rightarrow> 'd world \<Rightarrow> (bool \<times> 'd world) result" where
  "poll_cq V cq doPoll w =
     bindR (loopR (\<lambda>(ne, st, w). st = 0 \<and> ne = 0 \<and> doPoll) (\<lambda>(ne, st, w). Inr (poll_once V cq w))
         (poll_once V cq w))
       (\<lambda>(ne, st, w).
         if st \<noteq> 0 then Inr (False, w)
         else if doPoll then Inr (\<not> ne < 0, w)
         else Inr (0 < ne, w))"

text \<open>\<open>ibv_post_send\<close> and, for a signaled request, the wait for its completion.\<close>

definition post_and_wait ::
  "('d, 'v) verbs_scheme \<Rightarrow> ib_qp_t \<Rightarrow> send_wr \<Rightarrow> bool \<Rightarrow> 'd world \<Rightarrow> (bool \<times> 'd world) result" where
  "post_and_wait V localQP sr waits w =
     (case qp localQP of None \<Rightarrow> Inl NullDeref
      | Some p \<Rightarrow>
          (case ibv_post_send V p sr w of (err, w) \<Rightarrow>
           if err \<noteq> 0 then Inr (False, w)
           else if waits then wait_completion V (send_cq localQP) w
           else Inr (True, w)))"

end
