(* ===== verification/String_Utils.thy ===== *)
theory String_Utils
  imports DPI_Prelude
begin

text \<open>
  The string handling of \<open>utils\<close>: \<open>Network\<close> (connection strings), \<open>StringHelper\<close>, \<open>Filehelper\<close> and the
  helpers of \<open>Config.cc\<close>, on the pieces of the C and C++ libraries they call (\<open>stoi\<close>, \<open>strtoul\<close>,
  \<open>strtok\<close>, \<open>find\<close>, \<open>substr\<close>, \<open>getline\<close>, decimal output).
\<close>

section \<open>Library functions\<close>

definition is_space :: "char \<Rightarrow> bool" where
  "is_space c \<longleftrightarrow> c \<in> {CHR '' '', CHR 0x09, CHR 0x0A, CHR 0x0B, CHR 0x0C, CHR 0x0D}"

definition is_digit :: "char \<Rightarrow> bool" where
  "is_digit c \<longleftrightarrow> 48 \<le> (of_char c :: nat) \<and> (of_char c :: nat) \<le> 57"

definition digit_val :: "char \<Rightarrow> nat" where
  "digit_val c = of_char c - 48"

fun show_nat :: "nat \<Rightarrow> string" where
  "show_nat n = (if n < 10 then [char_of (48 + n)] else show_nat (n div 10) @ [char_of (48 + n mod 10)])"

declare show_nat.simps [simp del]

text \<open>\<open>to_string\<close> and \<open>operator<<\<close> of an integer.\<close>

definition show_int :: "int \<Rightarrow> string" where
  "show_int i = (if i < 0 then CHR ''-'' # show_nat (nat (- i)) else show_nat (nat i))"

definition digits_val :: "nat \<Rightarrow> string \<Rightarrow> nat" where
  "digits_val base ds = foldl (\<lambda>v c. base * v + digit_val c) 0 ds"

text \<open>An optional sign in front of a number.\<close>

definition split_sign :: "string \<Rightarrow> bool \<times> string" where
  "split_sign s = (case s of [] \<Rightarrow> (False, [])
     | c # r \<Rightarrow> if c = CHR ''-'' then (True, r) else if c = CHR ''+'' then (False, r) else (False, s))"

text \<open>\<open>std::stoi\<close> in base ten.\<close>

definition stoi :: "string \<Rightarrow> int result" where
  "stoi s =
     (let (neg, r) = split_sign (dropWhile is_space s);
          ds = takeWhile is_digit r;
          v = (if neg then - int (digits_val 10 ds) else int (digits_val 10 ds))
      in if ds = [] then Inl InvalidArgument
         else if v < - (2 ^ 31) \<or> 2 ^ 31 \<le> v then Inl OutOfRange
         else Inr v)"

definition hex_val :: "char \<Rightarrow> nat option" where
  "hex_val c =
     (let n = of_char c :: nat in
      if 48 \<le> n \<and> n \<le> 57 then Some (n - 48)
      else if 97 \<le> n \<and> n \<le> 102 then Some (n - 87)
      else if 65 \<le> n \<and> n \<le> 70 then Some (n - 55)
      else None)"

definition base_digits :: "nat \<Rightarrow> string \<Rightarrow> nat list" where
  "base_digits base s =
     map (\<lambda>c. the (hex_val c)) (takeWhile (\<lambda>c. case hex_val c of None \<Rightarrow> False | Some d \<Rightarrow> d < base) s)"

text \<open>
  \<open>strtoul(s, nullptr, 0)\<close>: the prefix chooses the base, no digits give 0, too large a value saturates
  at \<open>ULONG_MAX\<close> and a minus sign negates modulo \<open>2 ^ 64\<close>.
\<close>

definition strtoul0 :: "string \<Rightarrow> nat" where
  "strtoul0 s =
     (let (neg, r) = split_sign (dropWhile is_space s);
          hex = (case r of z # x # d # _ \<Rightarrow> z = CHR ''0'' \<and> (x = CHR ''x'' \<or> x = CHR ''X'') \<and> hex_val d \<noteq> None
                 | _ \<Rightarrow> False);
          base = (if hex then 16 else if r \<noteq> [] \<and> hd r = CHR ''0'' then 8 else 10);
          v = foldl (\<lambda>v d. base * v + d) 0 (base_digits base (if hex then drop 2 r else r))
      in if 2 ^ 64 \<le> v then 2 ^ 64 - 1 else if neg then sub64 0 v else v)"

text \<open>The tokens that successive calls of \<open>strtok\<close> return; a C string ends at its first NUL.\<close>

definition c_str :: "string \<Rightarrow> string" where
  "c_str s = takeWhile (\<lambda>c. c \<noteq> CHR 0x00) s"

function strtok_all :: "string \<Rightarrow> string \<Rightarrow> string list" where
  "strtok_all sep s =
     (let t = dropWhile (\<lambda>c. c \<in> set sep) s in
      if t = [] then [] else takeWhile (\<lambda>c. c \<notin> set sep) t # strtok_all sep (dropWhile (\<lambda>c. c \<notin> set sep) t))"
  by pat_completeness auto

lemma strtok_shorter:
  assumes "dropWhile P s \<noteq> []"
  shows "length (dropWhile (\<lambda>c. \<not> P c) (dropWhile P s)) < length s"
proof -
  obtain c r where r: "dropWhile P s = c # r" using assms by (cases "dropWhile P s") auto
  have "\<not> P c" using hd_dropWhile [OF assms] r by simp
  then have "length (dropWhile (\<lambda>c. \<not> P c) (dropWhile P s)) \<le> length r"
    by (simp add: r length_dropWhile_le)
  also have "length r < length (dropWhile P s)" by (simp add: r)
  also have "\<dots> \<le> length s" by (rule length_dropWhile_le)
  finally show ?thesis .
qed

termination strtok_all
proof (relation "measure (\<lambda>(sep, s). length s)", goal_cases)
  case (2 sep s x)
  then show ?case using strtok_shorter [of "\<lambda>c. c \<in> set sep" s] by simp
qed simp

declare strtok_all.simps [simp del]

text \<open>\<open>find\<close>, \<open>rfind\<close> and \<open>substr\<close> of \<open>std::string\<close>.\<close>

fun find_char :: "char \<Rightarrow> string \<Rightarrow> nat option" where
  "find_char c [] = None"
| "find_char c (x # xs) = (if x = c then Some 0 else map_option Suc (find_char c xs))"

definition rfind_char :: "char \<Rightarrow> string \<Rightarrow> nat option" where
  "rfind_char c s = map_option (\<lambda>i. length s - 1 - i) (find_char c (rev s))"

fun find_sub :: "string \<Rightarrow> string \<Rightarrow> nat option" where
  "find_sub p [] = (if p = [] then Some 0 else None)"
| "find_sub p (x # xs) =
     (if take (length p) (x # xs) = p then Some 0 else map_option Suc (find_sub p xs))"

definition substr :: "string \<Rightarrow> nat \<Rightarrow> nat \<Rightarrow> string" where
  "substr s pos n = take n (drop pos s)"

section \<open>Config.cc helpers and StringHelper\<close>

definition trim :: "string \<Rightarrow> string" where
  "trim str = rev (dropWhile (\<lambda>c. c = CHR '' '') (rev (dropWhile (\<lambda>c. c = CHR '' '') str)))"

definition init_vector :: "string \<Rightarrow> string list" where
  "init_vector csv_list = strtok_all '','' (c_str csv_list)"

fun mapR :: "('a \<Rightarrow> 'b result) \<Rightarrow> 'a list \<Rightarrow> 'b list result" where
  "mapR f [] = Inr []"
| "mapR f (x # xs) = bindR (f x) (\<lambda>y. bindR (mapR f xs) (\<lambda>ys. Inr (y # ys)))"

definition init_vector_int :: "string \<Rightarrow> int list result" where
  "init_vector_int csv_list = mapR stoi (strtok_all '','' (c_str csv_list))"

definition StringHelper_split :: "string \<Rightarrow> string \<Rightarrow> string list" where
  "StringHelper_split value sep = strtok_all (c_str sep) (c_str value)"

definition splitPerf :: "string \<Rightarrow> string list \<Rightarrow> string \<Rightarrow> string list" where
  "splitPerf value retValues sep = retValues @ strtok_all (c_str sep) (c_str value)"

section \<open>Network\<close>

definition isConnection :: "string \<Rightarrow> bool" where
  "isConnection region \<longleftrightarrow> find_char (CHR '':'') region \<noteq> None"

definition getConnection :: "string \<Rightarrow> int \<Rightarrow> string" where
  "getConnection address port = address @ '':'' @ show_int port"

definition getAddressOfConnection :: "string \<Rightarrow> string result" where
  "getAddressOfConnection conn =
     (case find_char (CHR '':'') conn of Some found \<Rightarrow> Inr (substr conn 0 found)
      | None \<Rightarrow> Inl InvalidArgument)"

definition getPortOfConnection :: "string \<Rightarrow> nat result" where
  "getPortOfConnection conn =
     (case find_char (CHR '':'') conn of
        Some i \<Rightarrow>
          let found = i + 1; len = length conn - found; portStr = substr conn found len
          in bindR (stoi portStr) (\<lambda>p. Inr (u64_of_int p))
      | None \<Rightarrow> Inl InvalidArgument)"

section \<open>Filehelper\<close>

definition ltrim :: "string \<Rightarrow> string" where
  "ltrim s = dropWhile is_space s"

definition getFileName :: "string \<Rightarrow> string" where
  "getFileName s =
     (case rfind_char (CHR ''/'') s of Some i \<Rightarrow> substr s (i + 1) (length s - i) | None \<Rightarrow> [])"

text \<open>\<open>file.erase(i, remove.length())\<close> at the first occurrence.\<close>

definition erase_first :: "string \<Rightarrow> string \<Rightarrow> string" where
  "erase_first rm file =
     (case find_sub rm file of Some i \<Rightarrow> take i file @ drop (i + length rm) file | None \<Rightarrow> file)"

definition createFileSchema :: "string \<Rightarrow> int \<Rightarrow> string list" where
  "createFileSchema file numOfPart =
     (let file = erase_first ''.tbl'' (getFileName file)
      in map (\<lambda>i. file @ ''_'' @ show_int i @ ''.tbl'') [1..numOfPart])"

definition createFileSchemaFullPath :: "string \<Rightarrow> int \<Rightarrow> bool \<Rightarrow> string list" where
  "createFileSchemaFullPath file numOfPart isHash =
     (let file = erase_first ''.tbl'' file
      in map (\<lambda>i. file @ (if isHash then ''_hash_'' else ''_roundR_'') @ show_int i @ ''.tbl'') [1..numOfPart])"

text \<open>
  The loop of \<open>splitLine\<close> over the stream's remaining characters, None once a read has met the end:
  a read after that leaves \<open>value\<close> alone, a read of an empty rest clears it and fails.
\<close>

function splitLine_loop :: "int \<Rightarrow> int \<Rightarrow> string \<Rightarrow> string option \<Rightarrow> string" where
  "splitLine_loop keyPos index value None = value"
| "splitLine_loop keyPos index value (Some []) = []"
| "splitLine_loop keyPos index value (Some (c # cs)) =
     (let field = takeWhile (\<lambda>x. x \<noteq> CHR ''|'') (c # cs);
          rest = dropWhile (\<lambda>x. x \<noteq> CHR ''|'') (c # cs)
      in if keyPos = index then field
         else splitLine_loop keyPos (index + 1) field (if rest = [] then None else Some (tl rest)))"
  by pat_completeness auto

termination splitLine_loop
proof (relation "measure (\<lambda>(k, i, v, s). case s of None \<Rightarrow> 0 | Some r \<Rightarrow> Suc (length r))", goal_cases)
  case (2 k i v c cs field rest)
  have "length rest \<le> Suc (length cs)"
    using 2(2) length_dropWhile_le [of "\<lambda>x. x \<noteq> CHR ''|''" "c # cs"] by simp
  then show ?case by (cases rest) auto
qed simp

definition splitLine :: "int \<Rightarrow> string \<Rightarrow> string" where
  "splitLine keyPos line = splitLine_loop keyPos 0 [] (Some line)"

text \<open>
  \<open>end_position - start_position\<close> is a \<open>size_t\<close> difference: when the closing parenthesis comes first it
  wraps and the substring runs to the end.
\<close>

definition extractVarChar :: "string \<Rightarrow> int result" where
  "extractVarChar type =
     (case find_char (CHR ''('') type of None \<Rightarrow> Inr 0
      | Some i \<Rightarrow>
          let start_position = i + 1 in
          (case find_char (CHR '')'') type of None \<Rightarrow> Inr 0
           | Some end_position \<Rightarrow> stoi (substr type start_position (sub64 end_position start_position))))"

text \<open>\<open>countLineNumbers\<close> on the contents of the file, None when it cannot be opened.\<close>

function countLines_loop :: "int \<Rightarrow> string option \<Rightarrow> int" where
  "countLines_loop index None = index"
| "countLines_loop index (Some s) =
     (let rest = dropWhile (\<lambda>x. x \<noteq> CHR 0x0A) s
      in countLines_loop (index + 1) (if rest = [] then None else Some (tl rest)))"
  by pat_completeness auto

termination countLines_loop
proof (relation "measure (\<lambda>(i, s). case s of None \<Rightarrow> 0 | Some r \<Rightarrow> Suc (length r))", goal_cases)
  case (2 index s rest)
  have "length rest \<le> length s"
    using 2 length_dropWhile_le [of "\<lambda>x. x \<noteq> CHR 0x0A" s] by simp
  then show ?case by (cases rest) auto
qed simp

definition countLineNumbers :: "string option \<Rightarrow> int" where
  "countLineNumbers contents = countLines_loop 0 contents - 1"

section \<open>Lemmas\<close>

fun join_with :: "char \<Rightarrow> string list \<Rightarrow> string" where
  "join_with c [] = []"
| "join_with c [t] = t"
| "join_with c (t # ts) = t @ c # join_with c ts"

lemma digit_of_char: "d < 10 \<Longrightarrow> is_digit (char_of (48 + d)) \<and> digit_val (char_of (48 + d)) = d"
  by (simp add: is_digit_def digit_val_def)

lemma digits_val_snoc: "digits_val b (ds @ [c]) = b * digits_val b ds + digit_val c"
  by (simp add: digits_val_def)

lemma show_nat_digits: "show_nat n \<noteq> [] \<and> (\<forall>c \<in> set (show_nat n). is_digit c) \<and> digits_val 10 (show_nat n) = n"
proof (induction n rule: show_nat.induct)
  case (1 n)
  show ?case
  proof (cases "n < 10")
    case True
    then show ?thesis
      by (subst (1 2 3) show_nat.simps) (simp add: digit_of_char digits_val_def)
  next
    case False
    then show ?thesis
      using 1 digit_of_char [of "n mod 10"]
      by (subst (1 2 3) show_nat.simps) (auto simp: digits_val_snoc)
  qed
qed

lemma digit_not_special:
  "is_digit c \<Longrightarrow> \<not> is_space c \<and> c \<noteq> CHR ''-'' \<and> c \<noteq> CHR ''+'' \<and> c \<noteq> CHR '':''"
  by (auto simp: is_digit_def is_space_def)

lemma takeWhile_all: "\<forall>x \<in> set xs. P x \<Longrightarrow> takeWhile P xs = xs"
  by (simp add: takeWhile_eq_all_conv)

lemma takeWhile_upto: "c \<notin> set t \<Longrightarrow> takeWhile (\<lambda>x. x \<noteq> c) (t @ c # s) = t"
  by (induction t) auto

lemma dropWhile_upto: "c \<notin> set t \<Longrightarrow> dropWhile (\<lambda>x. x \<noteq> c) (t @ c # s) = c # s"
  by (induction t) auto

lemma stoi_digits:
  assumes "ds \<noteq> []" "\<forall>c \<in> set ds. is_digit c" "digits_val 10 ds < 2 ^ 31"
  shows "stoi ds = Inr (int (digits_val 10 ds))"
proof -
  obtain c r where ds: "ds = c # r" using assms(1) by (cases ds) auto
  have c: "\<not> is_space c" "c \<noteq> CHR ''-''" "c \<noteq> CHR ''+''"
    using assms(2) digit_not_special by (auto simp: ds)
  have "dropWhile is_space ds = ds" "split_sign ds = (False, ds)"
    using c by (simp_all add: ds split_sign_def)
  then show ?thesis using assms by (simp add: stoi_def takeWhile_all Let_def)
qed

lemma stoi_negative:
  assumes "ds \<noteq> []" "\<forall>c \<in> set ds. is_digit c" "digits_val 10 ds \<le> 2 ^ 31"
  shows "stoi (CHR ''-'' # ds) = Inr (- int (digits_val 10 ds))"
proof -
  have "\<not> is_space (CHR ''-'')" by (simp add: is_space_def)
  then show ?thesis using assms by (simp add: stoi_def split_sign_def takeWhile_all Let_def)
qed

lemma stoi_show_int:
  assumes "- (2 ^ 31) \<le> p" "p < 2 ^ 31"
  shows "stoi (show_int p) = Inr p"
proof (cases "p < 0")
  case True
  have "digits_val 10 (show_nat (nat (- p))) = nat (- p)" using show_nat_digits by blast
  with True assms(1) show ?thesis
    using stoi_negative [of "show_nat (nat (- p))"] show_nat_digits [of "nat (- p)"]
    by (simp add: show_int_def)
next
  case False
  have "digits_val 10 (show_nat (nat p)) = nat p" using show_nat_digits by blast
  with False assms(2) show ?thesis
    using stoi_digits [of "show_nat (nat p)"] show_nat_digits [of "nat p"] by (simp add: show_int_def)
qed

lemma find_char_append: "c \<notin> set a \<Longrightarrow> find_char c (a @ c # r) = Some (length a)"
  by (induction a) auto

lemma strtok_one:
  assumes "t \<noteq> []" "\<forall>c \<in> set t. c \<notin> set sep"
  shows "strtok_all sep t = [t]"
proof -
  have "dropWhile (\<lambda>c. c \<in> set sep) t = t" using assms by (cases t) auto
  moreover have "takeWhile (\<lambda>c. c \<notin> set sep) t = t" using assms(2) by (intro takeWhile_all) auto
  moreover have "dropWhile (\<lambda>c. c \<notin> set sep) t = []" using assms(2) by (simp add: dropWhile_eq_Nil_conv)
  ultimately have "strtok_all sep t = t # strtok_all sep []"
    using assms(1) by (simp only: strtok_all.simps [of sep t] Let_def if_False)
  then show ?thesis by (simp add: strtok_all.simps [of sep "[]"])
qed

lemma strtok_skip: "c \<in> set sep \<Longrightarrow> strtok_all sep (c # s) = strtok_all sep s"
  by (simp add: strtok_all.simps [of sep "c # s"] strtok_all.simps [of sep s])

lemma strtok_cons:
  assumes "t \<noteq> []" "\<forall>c \<in> set t. c \<notin> set sep" "c \<in> set sep"
  shows "strtok_all sep (t @ c # s) = t # strtok_all sep s"
proof -
  have "dropWhile (\<lambda>c. c \<in> set sep) (t @ c # s) = t @ c # s" using assms by (cases t) auto
  moreover have "takeWhile (\<lambda>c. c \<notin> set sep) (t @ c # s) = t" using assms(2,3) by simp
  moreover have "dropWhile (\<lambda>c. c \<notin> set sep) (t @ c # s) = c # s" using assms(2,3) by simp
  ultimately show ?thesis
    using assms(1,3) by (simp add: strtok_all.simps [of sep "t @ c # s"] strtok_skip)
qed

lemma strtok_join:
  assumes "\<forall>t \<in> set ts. t \<noteq> [] \<and> c \<notin> set t"
  shows "strtok_all [c] (join_with c ts) = ts"
  using assms
proof (induction c ts rule: join_with.induct)
  case (1 c)
  then show ?case by (simp add: strtok_all.simps)
next
  case (2 c t)
  then show ?case by (auto intro!: strtok_one)
next
  case (3 c t u ts)
  have "strtok_all [c] (t @ c # join_with c (u # ts)) = t # strtok_all [c] (join_with c (u # ts))"
    using "3.prems" by (intro strtok_cons) auto
  with 3 show ?case by simp
qed

lemma set_join_with: "set (join_with c ts) \<subseteq> insert c (\<Union>t \<in> set ts. set t)"
  by (induction c ts rule: join_with.induct) auto

lemma c_str_id: "CHR 0x00 \<notin> set s \<Longrightarrow> c_str s = s"
  unfolding c_str_def by (intro takeWhile_all) auto

lemma splitLine_loop_field:
  assumes "k < length fs" "\<forall>f \<in> set fs. CHR ''|'' \<notin> set f"
  shows "splitLine_loop (int (i + k)) (int i) v (Some (join_with (CHR ''|'') fs)) = fs ! k"
  using assms
proof (induction "CHR ''|''" fs arbitrary: i k v rule: join_with.induct)
  case (2 t)
  then have "takeWhile (\<lambda>x. x \<noteq> CHR ''|'') t = t" by (intro takeWhile_all) auto
  with 2 show ?case by (cases t) auto
next
  case (3 t u ts)
  let ?s = "t @ CHR ''|'' # join_with (CHR ''|'') (u # ts)"
  have tw: "takeWhile (\<lambda>x. x \<noteq> CHR ''|'') ?s = t"
    and dw: "dropWhile (\<lambda>x. x \<noteq> CHR ''|'') ?s = CHR ''|'' # join_with (CHR ''|'') (u # ts)"
    using "3.prems"(2) by (auto intro!: takeWhile_upto dropWhile_upto simp del: join_with.simps)
  obtain c cs where s: "?s = c # cs" by (cases ?s) auto
  have step: "splitLine_loop (int (i + k)) (int i) v (Some ?s) =
      (if k = 0 then t
       else splitLine_loop (int (i + k)) (int i + 1) t (Some (join_with (CHR ''|'') (u # ts))))"
    using tw dw by (simp only: s) (simp add: Let_def)
  show ?case
  proof (cases k)
    case 0
    then show ?thesis using step by simp
  next
    case (Suc j)
    have "splitLine_loop (int (Suc i + j)) (int (Suc i)) t (Some (join_with (CHR ''|'') (u # ts))) = (u # ts) ! j"
      using "3.prems" Suc by (intro "3.hyps") auto
    then show ?thesis using step Suc by (simp add: ac_simps)
  qed
qed simp

lemma getConnection_parts:
  assumes "CHR '':'' \<notin> set a" "- (2 ^ 31) \<le> p" "p < 2 ^ 31"
  shows "isConnection (getConnection a p) \<and> getAddressOfConnection (getConnection a p) = Inr a \<and>
    getPortOfConnection (getConnection a p) = Inr (u64_of_int p)"
  using find_char_append [OF assms(1), of "show_int p"] stoi_show_int [OF assms(2,3)]
  by (simp add: isConnection_def getConnection_def getAddressOfConnection_def getPortOfConnection_def
      substr_def Let_def)

section \<open>Properties\<close>

text \<open>
  Connection strings round-trip: for an address without a colon and any \<open>int\<close> port, the
  string \<open>getConnection\<close> builds is a connection, its address part is the address and its port part is the
  port, as the \<open>size_t\<close> it converts to.
\<close>

lemma connection_roundtrip:
  assumes "CHR '':'' \<notin> set a" and "- (2 ^ 31) \<le> p" and "p < 2 ^ 31"
  shows "isConnection (getConnection a p) \<and> getAddressOfConnection (getConnection a p) = Inr a \<and>
    getPortOfConnection (getConnection a p) = Inr (u64_of_int p)"
  by (rule getConnection_parts [OF assms])

lemma connection_roundtrip_instance:
  "getAddressOfConnection (getConnection ''10.116.60.16'' 5400) = Inr ''10.116.60.16'' \<and>
   getPortOfConnection (getConnection ''10.116.60.16'' 5400) = Inr 5400"
  using connection_roundtrip [of "''10.116.60.16''" 5400] by (simp add: u64_of_int_def)

text \<open>
  A comma-separated list of non-empty tokens is read back by \<open>init_vector\<close> token by token, in
  order.
\<close>

lemma init_vector_join:
  assumes "\<forall>t \<in> set ts. t \<noteq> [] \<and> CHR '','' \<notin> set t \<and> CHR 0x00 \<notin> set t"
  shows "init_vector (join_with (CHR '','') ts) = ts"
proof -
  have "CHR 0x00 \<notin> set (join_with (CHR '','') ts)"
    using assms set_join_with [of "CHR '',''" ts] by auto
  then show ?thesis using assms strtok_join [of ts "CHR '',''"] by (simp add: init_vector_def c_str_id)
qed

lemma init_vector_join_instance: "init_vector ''a:1,b:2'' = [''a:1'', ''b:2'']"
  using init_vector_join [of "[''a:1'', ''b:2'']"] by simp

text \<open>
  \<open>splitLine\<close> returns field \<open>k\<close> of a line made of fields separated by a bar, empty fields
  included.
\<close>

lemma splitLine_field:
  assumes "k < length fs" and "\<forall>f \<in> set fs. CHR ''|'' \<notin> set f"
  shows "splitLine (int k) (join_with (CHR ''|'') fs) = fs ! k"
  using splitLine_loop_field [OF assms, of 0] by (simp add: splitLine_def)

lemma splitLine_field_instance: "splitLine 2 ''1|x||y'' = []"
  using splitLine_field [of 2 "[''1'', ''x'', [], ''y'']"] by simp

end
