(* ===== verification/DPI_Config.thy ===== *)
theory DPI_Config
  imports Verbs String_Utils
begin

text \<open>
  \<open>Config\<close>: the settings with their default values, the node list, and loading them from the lines of
  a configuration file. The part of the settings the RDMA managers read is the base record.
\<close>

record dpi_config = rdma_config +
  cfg_HELLO_PORT :: int
  cfg_DPI_REGISTRY_SERVER :: string
  cfg_DPI_REGISTRY_PORT :: nat
  cfg_DPI_NODE_PORT :: nat
  cfg_DPI_NODES :: "string list"
  cfg_DPI_INTERNAL_BUFFER_SIZE :: nat
  cfg_DPI_SEGMENT_SIZE :: nat
  cfg_RDMA_PORT :: nat
  cfg_THREAD_CPUS :: "int list"
  cfg_LOGGING_LEVEL :: int

definition config_default :: dpi_config where
  "config_default =
     \<lparr>cfg_RDMA_MEMSIZE = 1024 * 1024 * 1024 * 5, cfg_RDMA_NUMAREGION = 1, cfg_RDMA_DEVICE = 1,
      cfg_RDMA_IBPORT = 1, cfg_RDMA_MAX_WR = 4096, cfg_RDMA_MAX_SGE = 1, cfg_RDMA_UD_OFFSET = 40,
      cfg_HELLO_PORT = 4001, cfg_DPI_REGISTRY_SERVER = ''10.116.60.16'', cfg_DPI_REGISTRY_PORT = 5300,
      cfg_DPI_NODE_PORT = 5400, cfg_DPI_NODES = [''10.116.60.16:'' @ show_nat 5400],
      cfg_DPI_INTERNAL_BUFFER_SIZE = 1024 * 1024 * 1, cfg_DPI_SEGMENT_SIZE = 1024 * 1024 * 512 + 24,
      cfg_RDMA_PORT = 5200, cfg_THREAD_CPUS = [10, 11, 12, 13, 14, 15, 16, 17, 18, 19,
        30, 31, 32, 33, 34, 35, 36, 37, 38, 39],
      cfg_LOGGING_LEVEL = 0\<rparr>"

text \<open>Node ids start at 1; \<open>node_id - 1\<close> is a \<open>uint64_t\<close> difference.\<close>

definition getIPFromNodeId :: "dpi_config \<Rightarrow> nat \<Rightarrow> string result" where
  "getIPFromNodeId cfg node_id = index_at (cfg_DPI_NODES cfg) (sub64 node_id 1)"

text \<open>\<open>uint32_t = stoi(...)\<close>.\<close>

definition u32_of_int :: "int \<Rightarrow> nat" where
  "u32_of_int i = nat (i mod 2 ^ 32)"

definition config_set :: "string \<Rightarrow> string \<Rightarrow> dpi_config \<Rightarrow> dpi_config result" where
  "config_set key val cfg =
     (if key = ''RDMA_PORT'' then bindR (stoi val) (\<lambda>i. Inr (cfg\<lparr>cfg_RDMA_PORT := u32_of_int i\<rparr>))
      else if key = ''RDMA_MEMSIZE'' then Inr (cfg\<lparr>cfg_RDMA_MEMSIZE := strtoul0 (c_str val)\<rparr>)
      else if key = ''RDMA_NUMAREGION'' then bindR (stoi val) (\<lambda>i. Inr (cfg\<lparr>cfg_RDMA_NUMAREGION := u32_of_int i\<rparr>))
      else if key = ''RDMA_DEVICE'' then bindR (stoi val) (\<lambda>i. Inr (cfg\<lparr>cfg_RDMA_DEVICE := u32_of_int i\<rparr>))
      else if key = ''RDMA_IBPORT'' then bindR (stoi val) (\<lambda>i. Inr (cfg\<lparr>cfg_RDMA_IBPORT := u32_of_int i\<rparr>))
      else if key = ''THREAD_CPUS'' then bindR (init_vector_int val) (\<lambda>l. Inr (cfg\<lparr>cfg_THREAD_CPUS := l\<rparr>))
      else if key = ''DPI_REGISTRY_SERVER'' then Inr (cfg\<lparr>cfg_DPI_REGISTRY_SERVER := c_str val\<rparr>)
      else if key = ''DPI_REGISTRY_PORT'' then bindR (stoi val) (\<lambda>i. Inr (cfg\<lparr>cfg_DPI_REGISTRY_PORT := u32_of_int i\<rparr>))
      else if key = ''DPI_NODES'' then Inr (cfg\<lparr>cfg_DPI_NODES := init_vector val\<rparr>)
      else if key = ''LOGGING_LEVEL'' then bindR (stoi val) (\<lambda>i. Inr (cfg\<lparr>cfg_LOGGING_LEVEL := i\<rparr>))
      else Inr cfg)"

text \<open>
  The path of the configuration file, and the loop over its lines (none when it cannot be opened).
  The position of \<open>=\<close> is kept in an \<open>int\<close>: without one, \<open>find\<close> returns \<open>npos\<close>, which becomes -1, so key and value are
  then the whole line, and \<open>substr\<close> raises \<open>out_of_range\<close> for a position that has become negative otherwise.
\<close>

definition conf_file :: "string \<Rightarrow> string" where
  "conf_file prog_name =
     (case rfind_char (CHR ''/'') prog_name of None \<Rightarrow> ''.'' | Some i \<Rightarrow> substr prog_name 0 i) @ ''/conf/DPI.conf''"

definition substr_from :: "string \<Rightarrow> nat \<Rightarrow> string result" where
  "substr_from s pos = (if pos \<le> length s then Inr (drop pos s) else Inl OutOfRange)"

fun load_lines :: "string list \<Rightarrow> dpi_config \<Rightarrow> dpi_config result" where
  "load_lines [] cfg = Inr cfg"
| "load_lines (line # lines) cfg =
     (if line = [] then load_lines lines cfg
      else if hd line = CHR ''#'' then load_lines lines cfg
      else if hd line = CHR '';'' then load_lines lines cfg
      else
        let posEqual = (case find_char (CHR ''='') line of Some i \<Rightarrow> int32_of i | None \<Rightarrow> - 1);
            key = substr line 0 (u64_of_int posEqual)
        in bindR (substr_from line (u64_of_int (posEqual + 1))) (\<lambda>val.
           bindR (config_set (trim key) (trim val) cfg) (load_lines lines)))"

definition config_load :: "(string \<Rightarrow> string list) \<Rightarrow> string \<Rightarrow> dpi_config \<Rightarrow> dpi_config result" where
  "config_load read_lines prog_name cfg = load_lines (read_lines (conf_file prog_name)) cfg"

section \<open>Lemmas\<close>

lemma getIPFromNodeId_node:
  assumes "0 < n" "n \<le> length (cfg_DPI_NODES cfg)" "n < 2 ^ 64"
  shows "getIPFromNodeId cfg n = Inr (cfg_DPI_NODES cfg ! (n - 1))"
  using assms by (simp add: getIPFromNodeId_def sub64_small)

lemma load_lines_append: "load_lines (xs @ ys) cfg = bindR (load_lines xs cfg) (load_lines ys)"
proof (induction xs arbitrary: cfg)
  case (Cons line xs)
  have "load_lines (xs @ ys) = (\<lambda>c. bindR (load_lines xs c) (load_lines ys))" using Cons.IH by blast
  then show ?case by (simp add: bindR_assoc Let_def split: option.split)
qed simp

text \<open>A setting as it may be written: spaces before and after key and value.\<close>

definition spaces :: "nat \<Rightarrow> string" where
  "spaces n = replicate n (CHR '' '')"

fun conf_line :: "nat \<times> nat \<times> nat \<times> nat \<Rightarrow> string \<times> string \<Rightarrow> string" where
  "conf_line (a, b, c, d) (k, v) = spaces a @ k @ spaces b @ CHR ''='' # spaces c @ v @ spaces d"

lemma drop_spaces: "s = [] \<or> hd s \<noteq> CHR '' '' \<Longrightarrow> dropWhile (\<lambda>c. c = CHR '' '') (spaces n @ s) = s"
proof (induction n)
  case 0
  then show ?case by (cases s) (simp_all add: spaces_def)
qed (simp add: spaces_def)

lemma trim_padded: "s = [] \<or> hd s \<noteq> CHR '' '' \<and> last s \<noteq> CHR '' '' \<Longrightarrow> trim (spaces a @ s @ spaces b) = s"
proof -
  assume s: "s = [] \<or> hd s \<noteq> CHR '' '' \<and> last s \<noteq> CHR '' ''"
  have rev: "rev (spaces n) = spaces n" for n by (simp add: spaces_def)
  show ?thesis
  proof (cases "s = []")
    case True
    have "dropWhile (\<lambda>c. c = CHR '' '') (spaces (a + b) @ []) = []" by (rule drop_spaces) simp
    moreover have "spaces a @ s @ spaces b = spaces (a + b) @ []" using True by (simp add: spaces_def replicate_add)
    ultimately show ?thesis using True by (simp only: trim_def) simp
  next
    case False
    with s have "dropWhile (\<lambda>c. c = CHR '' '') (spaces a @ s @ spaces b) = s @ spaces b" by (intro drop_spaces) simp
    moreover have "dropWhile (\<lambda>c. c = CHR '' '') (spaces b @ rev s) = rev s" using s False by (intro drop_spaces) (simp add: hd_rev)
    ultimately show ?thesis by (simp add: trim_def rev)
  qed
qed

lemma int32_of_small: "n < 2 ^ 31 \<Longrightarrow> int32_of n = int n"
  by (simp add: int32_of_def signed_of_nat signed_take_bit_int_eq_self)

lemma u64_of_int_small: "n < 2 ^ 64 \<Longrightarrow> u64_of_int (int n) = n"
proof -
  assume "n < 2 ^ 64"
  then have "int n < 2 ^ 64" by simp
  then have "int n mod 2 ^ 64 = int n" by (intro mod_pos_pos_trivial) simp_all
  then show ?thesis by (simp add: u64_of_int_def)
qed

text \<open>Such a line reaches \<open>set\<close> with key and value as they are meant.\<close>

lemma load_setting:
  assumes "k \<noteq> []" "hd k \<notin> {CHR '' '', CHR ''#'', CHR '';''}" "last k \<noteq> CHR '' ''" "CHR ''='' \<notin> set k"
    and "v = [] \<or> hd v \<noteq> CHR '' '' \<and> last v \<noteq> CHR '' ''" "a + length k + b < 2 ^ 31 - 1"
  shows "load_lines (conf_line (a, b, c, d) (k, v) # lines) cfg = bindR (config_set k v cfg) (load_lines lines)"
proof -
  let ?front = "spaces a @ k @ spaces b" and ?behind = "spaces c @ v @ spaces d"
  have line: "conf_line (a, b, c, d) (k, v) = ?front @ CHR ''='' # ?behind" by simp
  have "CHR ''='' \<notin> set ?front" using assms(4) by (simp add: spaces_def)
  then have find: "find_char (CHR ''='') (?front @ CHR ''='' # ?behind) = Some (length ?front)" by (rule find_char_append)
  have len: "length ?front < 2 ^ 31" "length ?front + 1 < 2 ^ 64" using assms(6) by (simp_all add: spaces_def)
  have succ: "int (length ?front) + 1 = int (length ?front + 1)" by simp
  have pos: "int32_of (length ?front) = int (length ?front)" "u64_of_int (int (length ?front)) = length ?front"
    "u64_of_int (int (length ?front) + 1) = length ?front + 1"
    unfolding succ using len by (intro int32_of_small u64_of_int_small; linarith)+
  have cut: "substr (?front @ CHR ''='' # ?behind) 0 (length ?front) = ?front"
    "substr_from (?front @ CHR ''='' # ?behind) (length ?front + 1) = Inr ?behind"
    by (simp_all add: substr_def substr_from_def del: append_assoc)
  have trimmed: "trim ?front = k" "trim ?behind = v" using assms(2,3,5) by (intro trim_padded; simp)+
  have start: "hd (?front @ CHR ''='' # ?behind) \<notin> {CHR ''#'', CHR '';''}" "?front @ CHR ''='' # ?behind \<noteq> []"
    using assms(1,2) by (cases a; simp add: spaces_def)+
  show ?thesis
    unfolding line load_lines.simps Let_def find option.case pos cut trimmed using start by (simp add: trimmed(2))
qed

text \<open>A line \<open>key=value\<close>, with neither side starting or ending in a space, reaches \<open>set\<close> as written.\<close>

lemma load_line_set:
  assumes "k \<noteq> []" "hd k \<notin> {CHR '' '', CHR ''#'', CHR '';''}" "last k \<noteq> CHR '' ''" "CHR ''='' \<notin> set k" "length k < 2 ^ 31 - 1"
    and "hd v \<noteq> CHR '' ''" "last v \<noteq> CHR '' ''"
  shows "load_lines [k @ CHR ''='' # v] cfg = config_set k v cfg"
proof -
  have "bindR r (load_lines []) = r" for r by (cases r) auto
  then show ?thesis
    using load_setting [OF assms(1-4), of v 0 0 0 0 "[]" cfg] assms(5-7) by (simp add: spaces_def del: load_lines.simps)
qed

text \<open>The values each static member of \<open>Config\<close> can take: \<open>uint32_t\<close>, \<open>size_t\<close> and \<open>int\<close>.\<close>

definition int_range :: "int \<Rightarrow> bool" where
  "int_range i \<longleftrightarrow> - (2 ^ 31) \<le> i \<and> i < 2 ^ 31"

definition config_typed :: "dpi_config \<Rightarrow> bool" where
  "config_typed cfg \<longleftrightarrow>
     (\<forall>n \<in> {cfg_RDMA_NUMAREGION cfg, cfg_RDMA_DEVICE cfg, cfg_RDMA_IBPORT cfg, cfg_RDMA_PORT cfg, cfg_RDMA_MAX_WR cfg,
        cfg_RDMA_MAX_SGE cfg, cfg_DPI_REGISTRY_PORT cfg, cfg_DPI_NODE_PORT cfg, cfg_DPI_INTERNAL_BUFFER_SIZE cfg,
        cfg_DPI_SEGMENT_SIZE cfg}. n < 2 ^ 32) \<and>
     cfg_RDMA_MEMSIZE cfg < 2 ^ 64 \<and> cfg_RDMA_UD_OFFSET cfg < 2 ^ 31 \<and> int_range (cfg_LOGGING_LEVEL cfg) \<and>
     int_range (cfg_HELLO_PORT cfg) \<and> (\<forall>i \<in> set (cfg_THREAD_CPUS cfg). int_range i)"

text \<open>What a conversion of a string can return: a value of the type, or one of the two exceptions.\<close>

definition converts :: "('a \<Rightarrow> bool) \<Rightarrow> 'a result \<Rightarrow> bool" where
  "converts P r \<longleftrightarrow> (case r of Inl e \<Rightarrow> e = InvalidArgument \<or> e = OutOfRange | Inr x \<Rightarrow> P x)"

lemma converts_simps [simp]:
  "converts P (Inr x) = P x" "converts P (Inl e) \<longleftrightarrow> e = InvalidArgument \<or> e = OutOfRange"
  by (simp_all add: converts_def)

lemma converts_bind: "converts Q r \<Longrightarrow> (\<And>x. Q x \<Longrightarrow> converts P (f x)) \<Longrightarrow> converts P (bindR r f)"
  by (cases r) auto

lemma stoi_converts: "converts int_range (stoi s)"
  by (auto simp: stoi_def int_range_def Let_def split: prod.splits)

lemma mapR_converts: "(\<And>x. converts P (f x)) \<Longrightarrow> converts (\<lambda>ys. \<forall>y \<in> set ys. P y) (mapR f xs)"
proof (induction xs)
  case (Cons x xs)
  have "converts (\<lambda>ys. \<forall>y \<in> set ys. P y) (bindR (mapR f xs) (\<lambda>ys. Inr (y # ys)))" if "P y" for y
    using that by (intro converts_bind [OF Cons.IH [OF Cons.prems]]) simp
  then show ?case unfolding mapR.simps by (rule converts_bind [OF Cons.prems])
qed simp

lemma strtoul0_bound: "strtoul0 s < 2 ^ 64"
  unfolding strtoul0_def Let_def by (auto split: prod.splits simp: sub64_def)

lemma u32_of_int_bound: "u32_of_int i < 2 ^ 32"
  by (simp add: u32_of_int_def nat_less_iff)

lemma config_set_typed:
  assumes "config_typed cfg"
  shows "converts config_typed (config_set key val cfg)"
proof -
  have u32: "converts config_typed (bindR (stoi val) (\<lambda>i. Inr (f (u32_of_int i))))"
    if "\<And>n. n < 2 ^ 32 \<Longrightarrow> config_typed (f n)" for f
    using that u32_of_int_bound by (intro converts_bind [OF stoi_converts]) simp
  have level: "converts config_typed (bindR (stoi val) (\<lambda>i. Inr (cfg\<lparr>cfg_LOGGING_LEVEL := i\<rparr>)))"
    using assms by (intro converts_bind [OF stoi_converts]) (simp add: config_typed_def)
  have cpus: "converts config_typed (bindR (init_vector_int val) (\<lambda>l. Inr (cfg\<lparr>cfg_THREAD_CPUS := l\<rparr>)))"
    unfolding init_vector_int_def using assms
    by (intro converts_bind [OF mapR_converts [OF stoi_converts]]) (simp add: config_typed_def)
  note ports = u32 [of "\<lambda>n. cfg\<lparr>cfg_RDMA_PORT := n\<rparr>"] u32 [of "\<lambda>n. cfg\<lparr>cfg_RDMA_NUMAREGION := n\<rparr>"]
    u32 [of "\<lambda>n. cfg\<lparr>cfg_RDMA_DEVICE := n\<rparr>"] u32 [of "\<lambda>n. cfg\<lparr>cfg_RDMA_IBPORT := n\<rparr>"]
    u32 [of "\<lambda>n. cfg\<lparr>cfg_DPI_REGISTRY_PORT := n\<rparr>"]
  have plain: "config_typed (cfg\<lparr>cfg_RDMA_MEMSIZE := strtoul0 t\<rparr>)" "config_typed (cfg\<lparr>cfg_DPI_REGISTRY_SERVER := t\<rparr>)"
    "config_typed (cfg\<lparr>cfg_DPI_NODES := ts\<rparr>)" for t ts
    using assms strtoul0_bound by (simp_all add: config_typed_def)
  have "config_typed (cfg\<lparr>cfg_RDMA_PORT := n\<rparr>)" "config_typed (cfg\<lparr>cfg_RDMA_NUMAREGION := n\<rparr>)"
    "config_typed (cfg\<lparr>cfg_RDMA_DEVICE := n\<rparr>)" "config_typed (cfg\<lparr>cfg_RDMA_IBPORT := n\<rparr>)"
    "config_typed (cfg\<lparr>cfg_DPI_REGISTRY_PORT := n\<rparr>)" if "n < 2 ^ 32" for n
    using assms that by (simp_all add: config_typed_def)
  with ports level cpus plain assms show ?thesis unfolding config_set_def by simp
qed

lemma load_lines_typed: "config_typed cfg \<Longrightarrow> converts config_typed (load_lines ls cfg)"
proof (induction ls arbitrary: cfg)
  case (Cons l ls)
  have cut: "converts (\<lambda>_. True) (substr_from l n)" for n by (simp add: substr_from_def)
  have "converts config_typed (bindR (substr_from l n) (\<lambda>v. bindR (config_set k (trim v) cfg) (load_lines ls)))" for n k
    by (intro converts_bind [OF cut] converts_bind [OF config_set_typed [OF Cons.prems]] Cons.IH)
  with Cons.prems Cons.IH show ?case by (simp add: Let_def)
qed simp

lemma config_default_typed: "config_typed config_default"
  by (simp add: config_typed_def config_default_def int_range_def)

section \<open>Properties\<close>

text \<open>
  Every configured node is found by its id: after a line \<open>DPI_NODES=n1,...,nk\<close> the address of
  node \<open>i\<close> is the \<open>i\<close>-th entry, counting from one, and id 0 as well as any id above \<open>k\<close> raises
  \<open>out_of_range\<close>.
\<close>

lemma config_nodes:
  assumes "ts \<noteq> []"
    and "\<forall>t \<in> set ts. t \<noteq> [] \<and> CHR '','' \<notin> set t \<and> CHR '' '' \<notin> set t \<and> CHR 0x00 \<notin> set t"
    and "length ts < 2 ^ 63"
  shows "\<exists>cfg'. load_lines [''DPI_NODES='' @ join_with (CHR '','') ts] cfg = Inr cfg' \<and>
    (\<forall>i < 2 ^ 64. getIPFromNodeId cfg' i =
       (if 0 < i \<and> i \<le> length ts then Inr (ts ! (i - 1)) else Inl OutOfRange))"
proof -
  let ?v = "join_with (CHR '','') ts"
  have sub: "set ?v \<subseteq> insert (CHR '','') (\<Union>t \<in> set ts. set t)" by (rule set_join_with)
  have ne: "?v \<noteq> []" using assms(1,2) by (cases ts rule: remdups_adj.cases) auto
  have clean: "CHR '' '' \<notin> set ?v" using sub assms(2) by auto
  have v: "init_vector ?v = ts" using sub assms(2) strtok_join [of ts "CHR '',''"]
    by (subst init_vector_def, subst c_str_id) auto
  have l: "load_lines [''DPI_NODES='' @ ?v] cfg = Inr (cfg\<lparr>cfg_DPI_NODES := ts\<rparr>)"
  proof -
    have "hd ?v \<noteq> CHR '' ''" "last ?v \<noteq> CHR '' ''" using ne clean hd_in_set last_in_set by metis+
    then have "load_lines [''DPI_NODES'' @ CHR ''='' # ?v] cfg = config_set ''DPI_NODES'' ?v cfg"
      by (intro load_line_set) auto
    also have "\<dots> = Inr (cfg\<lparr>cfg_DPI_NODES := ts\<rparr>)" using v by (simp add: config_set_def)
    finally show ?thesis by (simp del: load_lines.simps)
  qed
  have zero: "sub64 0 1 = 2 ^ 64 - 1" by (simp add: sub64_def)
  have "getIPFromNodeId (cfg\<lparr>cfg_DPI_NODES := ts\<rparr>) i =
      (if 0 < i \<and> i \<le> length ts then Inr (ts ! (i - 1)) else Inl OutOfRange)" if i: "i < 2 ^ 64" for i
  proof (cases "i = 0")
    case True
    then show ?thesis using zero assms(3) by (simp add: getIPFromNodeId_def)
  next
    case False
    then have "sub64 i 1 = i - 1" using i by (simp add: sub64_small)
    with False show ?thesis by (auto simp: getIPFromNodeId_def index_at_def)
  qed
  with l show ?thesis by blast
qed

lemma config_nodes_instance:
  "\<exists>cfg'. load_lines [''DPI_NODES=a:1,b:2''] config_default = Inr cfg' \<and>
     getIPFromNodeId cfg' 2 = Inr ''b:2'' \<and> getIPFromNodeId cfg' 0 = Inl OutOfRange"
proof -
  obtain cfg' where "load_lines [''DPI_NODES='' @ join_with (CHR '','') [''a:1'', ''b:2'']] config_default = Inr cfg'"
    and "\<forall>i < 2 ^ 64. getIPFromNodeId cfg' i = (if 0 < i \<and> i \<le> length [''a:1'', ''b:2''] then
           Inr ([''a:1'', ''b:2''] ! (i - 1)) else Inl OutOfRange)"
    using config_nodes [of "[''a:1'', ''b:2'']" config_default] by auto
  then show ?thesis by (intro exI [of _ cfg']) (auto simp del: load_lines.simps)
qed

section \<open>The operating system\<close>

text \<open>
  \<open>getIP\<close> asks for the address of the interface \<open>em1\<close>, four bytes in network order, and does not look whether it got one.
  \<open>unload\<close> shuts protobuf down.
\<close>

definition inet_ntoa :: "byte list \<Rightarrow> string" where
  "inet_ntoa a = join_with (CHR ''.'') (map (\<lambda>b. show_nat (unat b)) a)"

definition getIP :: "(string \<Rightarrow> byte list) \<Rightarrow> string" where
  "getIP siocgifaddr = inet_ntoa (take 4 (siocgifaddr ''em1''))"

definition config_unload :: "('w \<Rightarrow> 'w) \<Rightarrow> 'w \<Rightarrow> 'w" where
  "config_unload ShutdownProtobufLibrary w = ShutdownProtobufLibrary w"

text \<open>The address can be read back from the text.\<close>

lemma getIP_octets: "map (digits_val 10) (strtok_all ''.'' (getIP siocgifaddr)) = map unat (take 4 (siocgifaddr ''em1''))"
proof -
  let ?ts = "map (\<lambda>b. show_nat (unat b)) (take 4 (siocgifaddr ''em1''))"
  have "t \<noteq> [] \<and> CHR ''.'' \<notin> set t" if t: "t \<in> set ?ts" for t
  proof -
    obtain n where "t = show_nat n" using t by auto
    moreover have "\<not> is_digit (CHR ''.'')" by (simp add: is_digit_def)
    ultimately show ?thesis using show_nat_digits [of n] by auto
  qed
  then have "strtok_all ''.'' (getIP siocgifaddr) = ?ts"
    unfolding getIP_def inet_ntoa_def by (intro strtok_join) blast
  then show ?thesis using show_nat_digits by simp
qed

section \<open>Writing settings down and loading them\<close>

text \<open>The ten settings a file can hold, as text.\<close>

definition settings_of :: "dpi_config \<Rightarrow> (string \<times> string) list" where
  "settings_of c =
     [(''RDMA_PORT'', show_nat (cfg_RDMA_PORT c)), (''RDMA_MEMSIZE'', show_nat (cfg_RDMA_MEMSIZE c)),
      (''RDMA_NUMAREGION'', show_nat (cfg_RDMA_NUMAREGION c)), (''RDMA_DEVICE'', show_nat (cfg_RDMA_DEVICE c)),
      (''RDMA_IBPORT'', show_nat (cfg_RDMA_IBPORT c)), (''THREAD_CPUS'', join_with (CHR '','') (map show_int (cfg_THREAD_CPUS c))),
      (''DPI_REGISTRY_SERVER'', cfg_DPI_REGISTRY_SERVER c), (''DPI_REGISTRY_PORT'', show_nat (cfg_DPI_REGISTRY_PORT c)),
      (''DPI_NODES'', join_with (CHR '','') (cfg_DPI_NODES c)), (''LOGGING_LEVEL'', show_int (cfg_LOGGING_LEVEL c))]"

text \<open>The settings of \<open>c\<close> with a key in \<open>K\<close>, all others as in \<open>b\<close>.\<close>

definition settings_from :: "string set \<Rightarrow> dpi_config \<Rightarrow> dpi_config \<Rightarrow> dpi_config" where
  "settings_from K c b = b\<lparr>
     cfg_RDMA_PORT := if ''RDMA_PORT'' \<in> K then cfg_RDMA_PORT c else cfg_RDMA_PORT b,
     cfg_RDMA_MEMSIZE := if ''RDMA_MEMSIZE'' \<in> K then cfg_RDMA_MEMSIZE c else cfg_RDMA_MEMSIZE b,
     cfg_RDMA_NUMAREGION := if ''RDMA_NUMAREGION'' \<in> K then cfg_RDMA_NUMAREGION c else cfg_RDMA_NUMAREGION b,
     cfg_RDMA_DEVICE := if ''RDMA_DEVICE'' \<in> K then cfg_RDMA_DEVICE c else cfg_RDMA_DEVICE b,
     cfg_RDMA_IBPORT := if ''RDMA_IBPORT'' \<in> K then cfg_RDMA_IBPORT c else cfg_RDMA_IBPORT b,
     cfg_THREAD_CPUS := if ''THREAD_CPUS'' \<in> K then cfg_THREAD_CPUS c else cfg_THREAD_CPUS b,
     cfg_DPI_REGISTRY_SERVER := if ''DPI_REGISTRY_SERVER'' \<in> K then cfg_DPI_REGISTRY_SERVER c else cfg_DPI_REGISTRY_SERVER b,
     cfg_DPI_REGISTRY_PORT := if ''DPI_REGISTRY_PORT'' \<in> K then cfg_DPI_REGISTRY_PORT c else cfg_DPI_REGISTRY_PORT b,
     cfg_DPI_NODES := if ''DPI_NODES'' \<in> K then cfg_DPI_NODES c else cfg_DPI_NODES b,
     cfg_LOGGING_LEVEL := if ''LOGGING_LEVEL'' \<in> K then cfg_LOGGING_LEVEL c else cfg_LOGGING_LEVEL b\<rparr>"

text \<open>Values the conversions of \<open>set\<close> can read: numbers in their ranges and names without spaces and commas.\<close>

definition settings_ok :: "dpi_config \<Rightarrow> bool" where
  "settings_ok c \<longleftrightarrow>
     (\<forall>n \<in> {cfg_RDMA_PORT c, cfg_RDMA_NUMAREGION c, cfg_RDMA_DEVICE c, cfg_RDMA_IBPORT c, cfg_DPI_REGISTRY_PORT c}. n < 2 ^ 31) \<and>
     cfg_RDMA_MEMSIZE c < 2 ^ 64 \<and> int_range (cfg_LOGGING_LEVEL c) \<and> (\<forall>i \<in> set (cfg_THREAD_CPUS c). int_range i) \<and>
     set (cfg_DPI_REGISTRY_SERVER c) \<inter> {CHR '' '', CHR 0x00} = {} \<and>
     (\<forall>t \<in> set (cfg_DPI_NODES c). t \<noteq> [] \<and> set t \<inter> {CHR '' '', CHR '','', CHR 0x00} = {})"

text \<open>Numbers.\<close>

lemma stoi_show_nat: "n < 2 ^ 31 \<Longrightarrow> stoi (show_nat n) = Inr (int n)"
  using stoi_show_int [of "int n"] by (simp add: show_int_def)

lemma show_nat_clean: "c \<in> {CHR 0x00, CHR '','', CHR '' ''} \<Longrightarrow> c \<notin> set (show_nat n)"
proof
  assume "c \<in> {CHR 0x00, CHR '','', CHR '' ''}" "c \<in> set (show_nat n)"
  then have "is_digit c" "\<not> is_digit c" using show_nat_digits [of n] by (blast, auto simp: is_digit_def)
  then show False by blast
qed

lemma u32_of_int_small: "n < 2 ^ 31 \<Longrightarrow> u32_of_int (int n) = n"
proof -
  assume "n < 2 ^ 31"
  then have "int n < 2 ^ 32" by simp
  then have "int n mod 2 ^ 32 = int n" by (intro mod_pos_pos_trivial) simp_all
  then show ?thesis by (simp add: u32_of_int_def)
qed

lemma hex_val_digit: "is_digit c \<Longrightarrow> hex_val c = Some (digit_val c) \<and> digit_val c < 10"
  by (auto simp: hex_val_def is_digit_def digit_val_def Let_def)

lemma base_digits_all:
  assumes "\<forall>c \<in> set ds. is_digit c"
  shows "base_digits 10 ds = map digit_val ds"
proof -
  have "takeWhile (\<lambda>c. case hex_val c of None \<Rightarrow> False | Some d \<Rightarrow> d < 10) ds = ds"
    using assms hex_val_digit by (intro takeWhile_all) auto
  then have "base_digits 10 ds = map (\<lambda>c. the (hex_val c)) ds" by (simp only: base_digits_def)
  then show ?thesis using assms hex_val_digit by auto
qed

lemma show_nat_head: "0 < n \<Longrightarrow> hd (show_nat n) \<noteq> CHR ''0''"
proof (induction n rule: show_nat.induct)
  case (1 n)
  show ?case
  proof (cases "n < 10")
    case True
    then have "n \<in> {1, 2, 3, 4, 5, 6, 7, 8, 9}" using 1(2) by auto
    then show ?thesis by (subst show_nat.simps) (auto simp: char_of_def)
  next
    case False
    then show ?thesis using 1(1) show_nat_digits [of "n div 10"] by (subst show_nat.simps) (simp add: hd_append)
  qed
qed

lemma strtoul0_show: "n < 2 ^ 64 \<Longrightarrow> strtoul0 (show_nat n) = n"
proof (cases "n = 0")
  case True
  have "show_nat 0 = ''0''" by (subst show_nat.simps) (simp add: char_of_def bit_0)
  then show ?thesis unfolding True by (simp add: strtoul0_def is_space_def split_sign_def base_digits_def hex_val_def Let_def)
next
  case False
  assume n: "n < 2 ^ 64"
  note d = show_nat_digits [of n]
  obtain c r where cr: "show_nat n = c # r" using d by (cases "show_nat n") auto
  have c: "\<not> is_space c" "c \<noteq> CHR ''-''" "c \<noteq> CHR ''+''" "c \<noteq> CHR ''0''"
    using d cr digit_not_special [of c] show_nat_head [of n] False by auto
  have "dropWhile is_space (show_nat n) = show_nat n" "split_sign (show_nat n) = (False, show_nat n)"
    using c by (simp_all add: cr split_sign_def)
  moreover have "base_digits 10 (show_nat n) = map digit_val (show_nat n)" using d by (intro base_digits_all) blast
  moreover have "foldl (\<lambda>v d. 10 * v + d) 0 (map digit_val (show_nat n)) = n"
    using d by (simp add: digits_val_def foldl_map)
  moreover have "(case show_nat n of z # x # d # _ \<Rightarrow> z = CHR ''0'' \<and> (x = CHR ''x'' \<or> x = CHR ''X'') \<and> hex_val d \<noteq> None
      | _ \<Rightarrow> False) = False" "hd (show_nat n) \<noteq> CHR ''0''"
    using c(4) by (auto simp: cr split: list.split)
  ultimately show ?thesis using n by (simp only: strtoul0_def prod.case Let_def if_False HOL.simp_thms) simp
qed

text \<open>\<open>set\<close> reads back what was written.\<close>

lemma set_setting:
  assumes "settings_ok c" "kv \<in> set (settings_of c)"
  shows "config_set (fst kv) (snd kv) b = Inr (settings_from {fst kv} c b)"
proof -
  have num: "stoi (show_nat n) = Inr (int n)" "u32_of_int (int n) = n"
    if "n \<in> {cfg_RDMA_PORT c, cfg_RDMA_NUMAREGION c, cfg_RDMA_DEVICE c, cfg_RDMA_IBPORT c, cfg_DPI_REGISTRY_PORT c}" for n
  proof -
    have "n < 2 ^ 31" using assms(1) that by (auto simp: settings_ok_def)
    then show "stoi (show_nat n) = Inr (int n)" "u32_of_int (int n) = n" by (rule stoi_show_nat, rule u32_of_int_small)
  qed
  have level: "stoi (show_int i) = Inr i" if "int_range i" for i using that by (intro stoi_show_int) (simp_all add: int_range_def)
  have digits: "CHR 0x00 \<notin> set (show_int i)" "CHR '','' \<notin> set (show_int i)" "show_int i \<noteq> []" for i
  proof -
    have "show_nat n \<noteq> []" for n using show_nat_digits by blast
    then show "CHR 0x00 \<notin> set (show_int i)" "CHR '','' \<notin> set (show_int i)" "show_int i \<noteq> []"
      by (simp_all add: show_int_def show_nat_clean)
  qed
  have "CHR 0x00 \<notin> set (show_nat n)" for n by (rule show_nat_clean) simp
  then have mem: "strtoul0 (c_str (show_nat (cfg_RDMA_MEMSIZE c))) = cfg_RDMA_MEMSIZE c"
    using assms(1) strtoul0_show by (simp add: c_str_id settings_ok_def)
  have cpus: "init_vector_int (join_with (CHR '','') (map show_int (cfg_THREAD_CPUS c))) = Inr (cfg_THREAD_CPUS c)"
  proof -
    have "init_vector (join_with (CHR '','') (map show_int (cfg_THREAD_CPUS c))) = map show_int (cfg_THREAD_CPUS c)"
      using digits by (intro init_vector_join) auto
    moreover have "mapR stoi (map show_int is) = Inr is" if "\<forall>i \<in> set is. int_range i" for "is"
      using that level by (induction "is") auto
    ultimately show ?thesis using assms(1) by (simp add: init_vector_int_def init_vector_def settings_ok_def)
  qed
  have nodes: "init_vector (join_with (CHR '','') (cfg_DPI_NODES c)) = cfg_DPI_NODES c"
    using assms(1) by (intro init_vector_join) (auto simp: settings_ok_def)
  have server: "c_str (cfg_DPI_REGISTRY_SERVER c) = cfg_DPI_REGISTRY_SERVER c"
    using assms(1) by (intro c_str_id) (auto simp: settings_ok_def)
  have port: "config_set k (show_nat n) b = Inr (f n)"
    if "config_set k (show_nat n) b = bindR (stoi (show_nat n)) (\<lambda>i. Inr (f (u32_of_int i)))"
      "n \<in> {cfg_RDMA_PORT c, cfg_RDMA_NUMAREGION c, cfg_RDMA_DEVICE c, cfg_RDMA_IBPORT c, cfg_DPI_REGISTRY_PORT c}" for k n f
    using that num [OF that(2)] by simp
  note keys = config_set_def settings_from_def
  have "config_set ''RDMA_PORT'' (show_nat (cfg_RDMA_PORT c)) b = Inr (settings_from {''RDMA_PORT''} c b)"
    using port [of "''RDMA_PORT''" "cfg_RDMA_PORT c" "\<lambda>n. b\<lparr>cfg_RDMA_PORT := n\<rparr>"] by (simp add: keys)
  moreover have "config_set ''RDMA_NUMAREGION'' (show_nat (cfg_RDMA_NUMAREGION c)) b = Inr (settings_from {''RDMA_NUMAREGION''} c b)"
    using port [of "''RDMA_NUMAREGION''" "cfg_RDMA_NUMAREGION c" "\<lambda>n. b\<lparr>cfg_RDMA_NUMAREGION := n\<rparr>"] by (simp add: keys)
  moreover have "config_set ''RDMA_DEVICE'' (show_nat (cfg_RDMA_DEVICE c)) b = Inr (settings_from {''RDMA_DEVICE''} c b)"
    using port [of "''RDMA_DEVICE''" "cfg_RDMA_DEVICE c" "\<lambda>n. b\<lparr>cfg_RDMA_DEVICE := n\<rparr>"] by (simp add: keys)
  moreover have "config_set ''RDMA_IBPORT'' (show_nat (cfg_RDMA_IBPORT c)) b = Inr (settings_from {''RDMA_IBPORT''} c b)"
    using port [of "''RDMA_IBPORT''" "cfg_RDMA_IBPORT c" "\<lambda>n. b\<lparr>cfg_RDMA_IBPORT := n\<rparr>"] by (simp add: keys)
  moreover have "config_set ''DPI_REGISTRY_PORT'' (show_nat (cfg_DPI_REGISTRY_PORT c)) b = Inr (settings_from {''DPI_REGISTRY_PORT''} c b)"
    using port [of "''DPI_REGISTRY_PORT''" "cfg_DPI_REGISTRY_PORT c" "\<lambda>n. b\<lparr>cfg_DPI_REGISTRY_PORT := n\<rparr>"] by (simp add: keys)
  moreover have "config_set ''RDMA_MEMSIZE'' (show_nat (cfg_RDMA_MEMSIZE c)) b = Inr (settings_from {''RDMA_MEMSIZE''} c b)"
    by (simp add: keys mem)
  moreover have "config_set ''THREAD_CPUS'' (join_with (CHR '','') (map show_int (cfg_THREAD_CPUS c))) b =
      Inr (settings_from {''THREAD_CPUS''} c b)"
    by (simp add: keys cpus)
  moreover have "config_set ''DPI_REGISTRY_SERVER'' (cfg_DPI_REGISTRY_SERVER c) b = Inr (settings_from {''DPI_REGISTRY_SERVER''} c b)"
    by (simp add: keys server)
  moreover have "config_set ''DPI_NODES'' (join_with (CHR '','') (cfg_DPI_NODES c)) b = Inr (settings_from {''DPI_NODES''} c b)"
    by (simp add: keys nodes)
  moreover have "int_range (cfg_LOGGING_LEVEL c)" using assms(1) by (simp add: settings_ok_def)
  then have "config_set ''LOGGING_LEVEL'' (show_int (cfg_LOGGING_LEVEL c)) b = Inr (settings_from {''LOGGING_LEVEL''} c b)"
    by (simp add: keys level)
  ultimately show ?thesis using assms(2) unfolding settings_of_def list.set insert_iff empty_iff
    by (elim disjE) (simp_all only: fst_conv snd_conv)
qed

lemma settings_from_again: "settings_from K c (settings_from L c b) = settings_from (K \<union> L) c b"
  by (simp add: settings_from_def)

lemma settings_from_none: "settings_from {} c b = b"
  by (simp add: settings_from_def)

lemma setting_text:
  assumes "settings_ok c" "(k, v) \<in> set (settings_of c)"
  shows "k \<noteq> []" "hd k \<notin> {CHR '' '', CHR ''#'', CHR '';''}" "last k \<noteq> CHR '' ''" "CHR ''='' \<notin> set k" "length k \<le> 19"
    "CHR '' '' \<notin> set v"
proof -
  have digits: "CHR '' '' \<notin> set (show_nat n)" for n by (rule show_nat_clean) simp
  then have "CHR '' '' \<notin> set (show_int i)" for i by (simp add: show_int_def)
  then have "CHR '' '' \<notin> set (join_with (CHR '','') (map show_int (cfg_THREAD_CPUS c)))"
    using set_join_with [of "CHR '',''" "map show_int (cfg_THREAD_CPUS c)"] by auto
  moreover have "CHR '' '' \<notin> set (join_with (CHR '','') (cfg_DPI_NODES c))"
    using assms(1) set_join_with [of "CHR '',''" "cfg_DPI_NODES c"] by (auto simp: settings_ok_def)
  ultimately show "CHR '' '' \<notin> set v"
    using assms digits \<open>CHR '' '' \<notin> set (show_int _)\<close> by (auto simp: settings_of_def settings_ok_def)
  show "k \<noteq> []" "hd k \<notin> {CHR '' '', CHR ''#'', CHR '';''}" "last k \<noteq> CHR '' ''" "CHR ''='' \<notin> set k" "length k \<le> 19"
    using assms(2) by (auto simp: settings_of_def)
qed

lemma load_settings:
  assumes "settings_ok c" "filter (\<lambda>l. l \<noteq> [] \<and> hd l \<notin> {CHR ''#'', CHR '';''}) lines = map2 conf_line pads kvs"
    and "length pads = length kvs" "\<forall>(x, y, _) \<in> set pads. x + y < 2 ^ 30" "set kvs \<subseteq> set (settings_of c)"
  shows "load_lines lines b = Inr (settings_from (fst ` set kvs) c b)"
  using assms(2-)
proof (induction lines arbitrary: pads kvs b)
  case Nil
  then show ?case by (cases kvs) (auto simp: settings_from_none)
next
  case (Cons line lines)
  show ?case
  proof (cases "line \<noteq> [] \<and> hd line \<notin> {CHR ''#'', CHR '';''}")
    case False
    then show ?thesis using Cons.IH [of pads kvs b] Cons.prems by (auto simp del: conf_line.simps)
  next
    case True
    then obtain p ps kv kvs' where pk: "pads = p # ps" "kvs = kv # kvs'" "line = conf_line p kv"
      "filter (\<lambda>l. l \<noteq> [] \<and> hd l \<notin> {CHR ''#'', CHR '';''}) lines = map2 conf_line ps kvs'"
      using Cons.prems(1,2) by (cases pads; cases kvs) (auto simp del: conf_line.simps)
    obtain w x y z where p: "p = (w, x, y, z)" by (cases p)
    obtain k v where kv: "kv = (k, v)" by (cases kv)
    have at: "(k, v) \<in> set (settings_of c)" "w + x < 2 ^ 30" using Cons.prems(3,4) by (simp_all add: pk p kv)
    note t = setting_text [OF assms(1) at(1)]
    have "v = [] \<or> hd v \<noteq> CHR '' '' \<and> last v \<noteq> CHR '' ''" using t(6) by (cases v) (auto dest: last_in_set)
    then have "load_lines (line # lines) b = bindR (config_set k v b) (load_lines lines)"
      unfolding pk p kv using t at(2) by (intro load_setting) auto
    also have "\<dots> = load_lines lines (settings_from {k} c b)" using set_setting [OF assms(1) at(1)] by simp
    also have "\<dots> = Inr (settings_from (fst ` set kvs') c (settings_from {k} c b))"
    proof (rule Cons.IH [OF pk(4)])
      show "length ps = length kvs'" "set kvs' \<subseteq> set (settings_of c)" using Cons.prems(2,4) by (simp_all add: pk)
      show "\<forall>(x, y, _) \<in> set ps. x + y < 2 ^ 30" using Cons.prems(3) unfolding pk(1) by (metis list.set_intros(2))
    qed
    finally show ?thesis by (simp add: pk kv settings_from_again)
  qed
qed

text \<open>
  Loading keeps every setting in its C++ type, whatever the file holds, or raises one of the two exceptions of the
  conversions.
\<close>

lemma config_load_typed:
  "case config_load read_lines prog_name config_default of
     Inl e \<Rightarrow> e = InvalidArgument \<or> e = OutOfRange | Inr cfg \<Rightarrow> config_typed cfg"
  using load_lines_typed [OF config_default_typed] unfolding config_load_def converts_def by blast

section \<open>Properties\<close>

text \<open>
  Claim C31. A configuration file is read as it is written. Take any settings whose numbers lie in the ranges the conversions
  accept (the ports, the device, its port and the memory region below \<open>2 ^ 31\<close>, \<open>RDMA_MEMSIZE\<close> below \<open>2 ^ 64\<close>, the logging level
  and the CPU numbers in the range of \<open>int\<close>) and whose names hold no space, comma (in a node) or NUL. If the lines of the file
  found beside the program are, apart from empty lines and those that begin with \<open>#\<close> or \<open>;\<close>, some of the ten
  settings written down as \<open>key = value\<close>, in any order, repeated or not, and with any number of spaces (fewer than \<open>2 ^ 30\<close> before
  the equals sign) round key and value, then loading it sets exactly the settings that are in the file to exactly these
  values and leaves every other member as it was.
\<close>

theorem config_file_roundtrip:
  assumes "settings_ok c" and "set kvs \<subseteq> set (settings_of c)"
    and "filter (\<lambda>l. l \<noteq> [] \<and> hd l \<notin> {CHR ''#'', CHR '';''}) (read_lines (conf_file prog_name)) = map2 conf_line pads kvs"
    and "length pads = length kvs" and "\<forall>(x, y, _) \<in> set pads. x + y < 2 ^ 30"
  shows "config_load read_lines prog_name b = Inr (settings_from (fst ` set kvs) c b)"
  unfolding config_load_def by (rule load_settings [OF assms(1,3,4,5,2)])

theorem config_file_roundtrip_witness:
  "config_load (\<lambda>path. if path = ''bin/conf/DPI.conf''
       then [''# ports'', '' RDMA_PORT = 5201 '', [], ''DPI_NODES=a:1,b:2'', ''; end''] else []) ''bin/dpi'' config_default =
    Inr (config_default\<lparr>cfg_DPI_NODES := [''a:1'', ''b:2''], cfg_RDMA_PORT := 5201\<rparr>)"
proof -
  let ?c = "config_default\<lparr>cfg_DPI_NODES := [''a:1'', ''b:2''], cfg_RDMA_PORT := 5201\<rparr>"
  let ?read = "\<lambda>path. if path = ''bin/conf/DPI.conf''
       then [''# ports'', '' RDMA_PORT = 5201 '', [], ''DPI_NODES=a:1,b:2'', ''; end''] else []"
  have port: "show_nat 5201 = ''5201''"
    by (simp add: show_nat.simps [of 5201] show_nat.simps [of 520] show_nat.simps [of 52] show_nat.simps [of 5] char_of_def bit_0)
  have path: "conf_file ''bin/dpi'' = ''bin/conf/DPI.conf''" by (simp add: conf_file_def rfind_char_def substr_def)
  have ok: "settings_ok ?c" by (simp add: settings_ok_def config_default_def int_range_def)
  have "config_load ?read ''bin/dpi'' config_default =
      Inr (settings_from (fst ` set [(''RDMA_PORT'', ''5201''), (''DPI_NODES'', ''a:1,b:2'')]) ?c config_default)"
  proof (rule config_file_roundtrip [OF ok, where pads = "[(1, 1, 1, 1), (0, 0, 0, 0)]"])
    have "(''RDMA_PORT'', show_nat (cfg_RDMA_PORT ?c)) \<in> set (settings_of ?c)"
      "(''DPI_NODES'', join_with (CHR '','') (cfg_DPI_NODES ?c)) \<in> set (settings_of ?c)"
      by (simp_all only: settings_of_def list.set insert_iff HOL.simp_thms)
    then show "set [(''RDMA_PORT'', ''5201''), (''DPI_NODES'', ''a:1,b:2'')] \<subseteq> set (settings_of ?c)" by (simp add: port)
    show "filter (\<lambda>l. l \<noteq> [] \<and> hd l \<notin> {CHR ''#'', CHR '';''}) (?read (conf_file ''bin/dpi'')) =
        map2 conf_line [(1, 1, 1, 1), (0, 0, 0, 0)] [(''RDMA_PORT'', ''5201''), (''DPI_NODES'', ''a:1,b:2'')]"
      by (simp add: path spaces_def)
  qed simp_all
  also have "settings_from (fst ` set [(''RDMA_PORT'', ''5201''), (''DPI_NODES'', ''a:1,b:2'')]) ?c config_default = ?c"
    by (simp add: settings_from_def)
  finally show ?thesis .
qed

end
