(* ===== verification/Region_Interface.thy ===== *)
theory Region_Interface
  imports DPI_Prelude
begin

text \<open>
  The contract between an allocator of regions of one registered buffer and its clients (the node
  server that carves rings out of the buffer, the writers that allocate headers and internal buffers):
  \<open>live\<close> maps the offset of every region handed out to its size.
\<close>

definition disjoint_regions :: "nat \<Rightarrow> nat \<Rightarrow> nat \<Rightarrow> nat \<Rightarrow> bool" where
  "disjoint_regions a n b k \<longleftrightarrow> a + n \<le> b \<or> b + k \<le> a"

lemma disjoint_regions_sym: "disjoint_regions a n b k = disjoint_regions b k a n"
  by (auto simp: disjoint_regions_def)

text \<open>A run of allocations; a request that fails leaves no region.\<close>

fun alloc_run :: "(nat \<Rightarrow> 's \<Rightarrow> nat option \<times> 's) \<Rightarrow> nat list \<Rightarrow> 's \<Rightarrow> (nat \<times> nat) list \<times> 's" where
  "alloc_run alloc [] s = ([], s)"
| "alloc_run alloc (n # ns) s =
     (case alloc n s of
        (None, s') \<Rightarrow> alloc_run alloc ns s'
      | (Some a, s') \<Rightarrow> (let (rs, s'') = alloc_run alloc ns s' in ((a, n) # rs, s'')))"

locale region_alloc =
  fixes alloc :: "nat \<Rightarrow> 's \<Rightarrow> nat option \<times> 's"
    and live :: "'s \<Rightarrow> nat \<rightharpoonup> nat"
    and inv :: "'s \<Rightarrow> bool"
    and cap :: "'s \<Rightarrow> nat"
  assumes alloc_inv: "inv s \<Longrightarrow> 0 < n \<Longrightarrow> alloc n s = (r, s') \<Longrightarrow> inv s'"
    and alloc_cap: "alloc n s = (r, s') \<Longrightarrow> cap s' = cap s"
    and alloc_none: "alloc n s = (None, s') \<Longrightarrow> s' = s"
    and alloc_fresh: "inv s \<Longrightarrow> 0 < n \<Longrightarrow> alloc n s = (Some a, s') \<Longrightarrow>
          live s b = Some k \<Longrightarrow> disjoint_regions a n b k"
    and alloc_live: "inv s \<Longrightarrow> 0 < n \<Longrightarrow> alloc n s = (Some a, s') \<Longrightarrow> live s' = (live s)(a \<mapsto> n)"
    and alloc_bound: "inv s \<Longrightarrow> 0 < n \<Longrightarrow> alloc n s = (Some a, s') \<Longrightarrow> a + n \<le> cap s"
    and live_size: "inv s \<Longrightarrow> live s a = Some n \<Longrightarrow> 0 < n"
begin

lemma live_kept:
  assumes "inv s" "0 < n" "alloc n s = (r, s')" "live s b = Some k"
  shows "live s' b = Some k"
proof (cases r)
  case None
  with assms show ?thesis using alloc_none by metis
next
  case (Some a)
  with assms have "disjoint_regions a n b k" "live s' = (live s)(a \<mapsto> n)"
    using alloc_fresh alloc_live by blast+
  with assms(2) live_size [OF assms(1) assms(4)] assms(4) show ?thesis
    by (auto simp: disjoint_regions_def)
qed

lemma run_inv: "inv s \<Longrightarrow> \<forall>n \<in> set ns. 0 < n \<Longrightarrow> alloc_run alloc ns s = (rs, s') \<Longrightarrow> inv s'"
proof (induction ns arbitrary: s rs)
  case (Cons n ns)
  obtain r t where a: "alloc n s = (r, t)" by force
  from Cons.prems a have t: "inv t" using alloc_inv [OF Cons.prems(1) _ a] by simp
  obtain rs' where "alloc_run alloc ns t = (rs', s')"
    using Cons.prems(3) a by (cases r) (auto simp: Let_def split: prod.splits)
  with Cons.IH [OF t] Cons.prems(2) show ?case by auto
qed simp

lemma run_live:
  assumes "inv s" "\<forall>n \<in> set ns. 0 < n" "alloc_run alloc ns s = (rs, s')" "live s b = Some k"
  shows "live s' b = Some k"
  using assms
proof (induction ns arbitrary: s rs)
  case (Cons n ns)
  obtain r t where a: "alloc n s = (r, t)" by force
  have n: "0 < n" using Cons.prems(2) by simp
  have t: "inv t" "live t b = Some k"
    using alloc_inv [OF Cons.prems(1) n a] live_kept [OF Cons.prems(1) n a Cons.prems(4)] by auto
  obtain rs' where "alloc_run alloc ns t = (rs', s')"
    using Cons.prems(3) a by (cases r) (auto simp: Let_def split: prod.splits)
  with Cons.IH [OF t(1) _ _ t(2)] Cons.prems(2) show ?case by auto
qed simp

text \<open>The regions of a run lie apart from what was live before and from each other.\<close>

lemma run_apart:
  assumes "inv s" "\<forall>n \<in> set ns. 0 < n" "alloc_run alloc ns s = (rs, s')"
  shows "(\<forall>(a, n) \<in> set rs. a + n \<le> cap s \<and>
            (\<forall>b k. live s b = Some k \<longrightarrow> disjoint_regions a n b k)) \<and>
         sorted_wrt (\<lambda>(a, n) (b, k). disjoint_regions a n b k) rs"
  using assms
proof (induction ns arbitrary: s rs)
  case (Cons n ns)
  obtain r t where a: "alloc n s = (r, t)" by force
  have n: "0 < n" using Cons.prems(2) by simp
  have t: "inv t" "cap t = cap s" using alloc_inv [OF Cons.prems(1) n a] alloc_cap [OF a] by auto
  obtain rs' where rs': "alloc_run alloc ns t = (rs', s')"
    using Cons.prems(3) a by (cases r) (auto simp: Let_def split: prod.splits)
  note IH = Cons.IH [OF t(1) _ rs']
  have kept: "live s b = Some k \<Longrightarrow> live t b = Some k" for b k
    using live_kept [OF Cons.prems(1) n a] .
  show ?case
  proof (cases r)
    case None
    with Cons.prems(3) a rs' have "rs = rs'" by simp
    with IH Cons.prems(2) t(2) kept show ?thesis by fastforce
  next
    case (Some x)
    with Cons.prems(3) a rs' have rs: "rs = (x, n) # rs'" by simp
    have x: "x + n \<le> cap s" "live t x = Some n"
      using alloc_bound [OF Cons.prems(1) n a [unfolded Some]] alloc_live [OF Cons.prems(1) n a [unfolded Some]]
      by simp_all
    have fresh: "live s b = Some k \<Longrightarrow> disjoint_regions x n b k" for b k
      using alloc_fresh [OF Cons.prems(1) n a [unfolded Some]] .
    from IH Cons.prems(2) x(2) have "\<forall>(a, k) \<in> set rs'. disjoint_regions a k x n" by fastforce
    with IH Cons.prems(2) t(2) kept x(1) fresh show ?thesis
      by (fastforce simp: rs disjoint_regions_sym)
  qed
qed simp

end

text \<open>The same interface with deallocation; \<open>tame\<close> is the state's condition for it.\<close>

locale region_heap = region_alloc +
  fixes dealloc :: "nat \<Rightarrow> 's \<Rightarrow> bool \<times> 's"
    and tame :: "'s \<Rightarrow> bool"
  assumes dealloc_inv: "inv s \<Longrightarrow> tame s \<Longrightarrow> live s a = Some n \<Longrightarrow> dealloc a s = (b, s') \<Longrightarrow> inv s'"
    and dealloc_live: "dealloc a s = (b, s') \<Longrightarrow> live s' = (live s)(a := None)"
begin

text \<open>A freed region no longer stands in the way, and every other region stays as it was.\<close>

lemma dealloc_others:
  assumes "inv s" "tame s" "live s a = Some n" "dealloc a s = (b, s')" "c \<noteq> a"
  shows "inv s' \<and> live s' a = None \<and> live s' c = live s c"
  using dealloc_inv [OF assms(1-4)] dealloc_live [OF assms(4)] assms(5) by simp

end

end
