(* ===== verification/Mem_Allocator.thy ===== *)
theory Mem_Allocator
  imports RDMA_Manager Region_Interface
begin

text \<open>
  Correctness of the allocator of \<open>RDMAManager\<close>: the invariant of the free list and the map of used
  regions, that allocation and release keep it, which bytes each operation moves between free and
  used, when a release loses its region, and the interpretation of the allocator interface.
\<close>

section \<open>Invariant\<close>

definition rm_region :: "rdma_mem_t \<Rightarrow> nat set" where
  "rm_region r = {rm_offset r..<rm_offset r + rm_size r}"

definition before_region :: "rdma_mem_t \<Rightarrow> rdma_mem_t \<Rightarrow> bool" where
  "before_region x y \<longleftrightarrow> rm_offset x + rm_size x \<le> rm_offset y"

definition apart :: "rdma_mem_t \<Rightarrow> rdma_mem_t \<Rightarrow> bool" where
  "apart x y \<longleftrightarrow> before_region x y \<or> before_region y x"

definition region_ok :: "nat \<Rightarrow> bool \<Rightarrow> rdma_mem_t \<Rightarrow> bool" where
  "region_ok tot fr r \<longleftrightarrow> rm_free r = fr \<and> \<not> rm_isnull r \<and> 0 < rm_size r \<and>
     rm_offset r + rm_size r \<le> tot"

definition mem_inv :: "'m rdma_manager_scheme \<Rightarrow> bool" where
  "mem_inv m \<longleftrightarrow> m_memSize m < 2 ^ 64 \<and>
     (\<forall>x \<in> set (m_rdmaMem m). region_ok (m_memSize m) True x) \<and>
     sorted_wrt before_region (m_rdmaMem m) \<and>
     (\<forall>k u. m_usedRdmaMem m k = Some u \<longrightarrow> rm_offset u = k \<and> region_ok (m_memSize m) False u \<and>
        (\<forall>x \<in> set (m_rdmaMem m). apart u x)) \<and>
     (\<forall>k u k' u'. m_usedRdmaMem m k = Some u \<longrightarrow> m_usedRdmaMem m k' = Some u' \<longrightarrow> k \<noteq> k' \<longrightarrow> apart u u')"

definition free_bytes :: "'m rdma_manager_scheme \<Rightarrow> nat set" where
  "free_bytes m = (\<Union>x \<in> set (m_rdmaMem m). rm_region x)"

definition used_bytes :: "'m rdma_manager_scheme \<Rightarrow> nat set" where
  "used_bytes m = (\<Union>u \<in> ran (m_usedRdmaMem m). rm_region u)"

text \<open>The sum of the free offsets, which \<open>internalFree\<close> accumulates, fits a \<open>size_t\<close>.\<close>

definition sum_fits :: "'m rdma_manager_scheme \<Rightarrow> bool" where
  "sum_fits m \<longleftrightarrow> sum_list (map rm_offset (m_rdmaMem m)) < 2 ^ 64"

text \<open>The interface of the clients: the offset of an allocation, and the sizes of live regions.\<close>

definition alloc_offset ::
  "nat \<Rightarrow> 'm rdma_manager_scheme \<Rightarrow> nat option \<times> 'm rdma_manager_scheme" where
  "alloc_offset n m = (let (r, m') = internalAlloc n m in
     (if rm_isnull r then None else Some (rm_offset r), m'))"

definition live_regions :: "'m rdma_manager_scheme \<Rightarrow> nat \<rightharpoonup> nat" where
  "live_regions m = (\<lambda>k. map_option rm_size (m_usedRdmaMem m k))"

text \<open>What remains of a free region whose front is handed out.\<close>

definition front_rest :: "nat \<Rightarrow> rdma_mem_t \<Rightarrow> rdma_mem_t list" where
  "front_rest n x = (if n < rm_size x then [rdma_mem (rm_size x - n) True (rm_offset x + n)] else [])"

section \<open>Generic lemmas on regions\<close>

lemma apart_sym: "apart x y = apart y x"
  by (auto simp: apart_def)

lemma apart_disjoint: "0 < rm_size x \<Longrightarrow> 0 < rm_size y \<Longrightarrow> apart x y \<longleftrightarrow> rm_region x \<inter> rm_region y = {}"
proof
  assume "0 < rm_size x" "0 < rm_size y" "rm_region x \<inter> rm_region y = {}"
  moreover from this(1,2) have "rm_offset x \<in> rm_region x" "rm_offset y \<in> rm_region y"
    by (auto simp: rm_region_def)
  ultimately have "rm_offset x \<notin> rm_region y" "rm_offset y \<notin> rm_region x" by auto
  with \<open>0 < rm_size x\<close> \<open>0 < rm_size y\<close> show "apart x y"
    by (auto simp: apart_def before_region_def rm_region_def)
qed (auto simp: apart_def before_region_def rm_region_def)

lemma rdma_mem_sel [simp]:
  "rm_size (rdma_mem n f a) = n" "rm_free (rdma_mem n f a) = f" "rm_offset (rdma_mem n f a) = a"
  "\<not> rm_isnull (rdma_mem n f a)" "rm_isnull rdma_mem_null" "rm_size rdma_mem_null = 0"
  "rm_offset rdma_mem_null = 0"
  by (simp_all add: rdma_mem_def rdma_mem_null_def)

lemma region_okD:
  "region_ok t f r \<Longrightarrow> 0 < rm_size r" "region_ok t f r \<Longrightarrow> rm_offset r + rm_size r \<le> t"
  "region_ok t f r \<Longrightarrow> \<not> rm_isnull r" "region_ok t f r \<Longrightarrow> rm_free r = f"
  by (simp_all add: region_ok_def)

lemma mem_inv_usedD:
  assumes "mem_inv m" "m_usedRdmaMem m k = Some u"
  shows "rm_offset u = k" "region_ok (m_memSize m) False u" "x \<in> set (m_rdmaMem m) \<Longrightarrow> apart u x"
    "m_usedRdmaMem m k' = Some u' \<Longrightarrow> k \<noteq> k' \<Longrightarrow> apart u u'"
  using assms unfolding mem_inv_def by blast+

lemma mem_inv_freeD:
  assumes "mem_inv m"
  shows "x \<in> set (m_rdmaMem m) \<Longrightarrow> region_ok (m_memSize m) True x"
    "sorted_wrt before_region (m_rdmaMem m)" "m_memSize m < 2 ^ 64"
  using assms unfolding mem_inv_def by blast+

lemma apart_regions: "apart x y \<Longrightarrow> rm_region x \<inter> rm_region y = {}"
  by (auto simp: apart_def before_region_def rm_region_def)

lemma used_free_disjoint:
  "mem_inv m \<Longrightarrow> m_usedRdmaMem m k = Some u \<Longrightarrow> rm_region u \<inter> free_bytes m = {}"
  using mem_inv_usedD(3) apart_regions by (fastforce simp: free_bytes_def)

lemma used_free_bytes: "mem_inv m \<Longrightarrow> used_bytes m \<inter> free_bytes m = {}"
  using used_free_disjoint by (fastforce simp: used_bytes_def ran_def)

section \<open>Allocation\<close>

lemma front_rest_cases:
  assumes "n \<le> rm_size x"
  obtains "front_rest n x = []" "rm_size x = n"
  | "front_rest n x = [rdma_mem (rm_size x - n) True (rm_offset x + n)]" "n < rm_size x"
proof (cases "n < rm_size x")
  case True
  then show ?thesis by (intro that(2)) (simp_all add: front_rest_def)
next
  case False
  with assms show ?thesis by (intro that(1)) (simp_all add: front_rest_def)
qed

lemma alloc_scan_None: "internalAlloc_scan n l = None \<longleftrightarrow> (\<forall>x \<in> set l. \<not> (rm_free x \<and> n \<le> rm_size x))"
  by (induction l) auto

lemma alloc_scan_Some:
  "internalAlloc_scan n l = Some (u, l') \<Longrightarrow>
   \<exists>xs x ys. l = xs @ x # ys \<and> rm_free x \<and> n \<le> rm_size x \<and>
     (\<forall>y \<in> set xs. \<not> (rm_free y \<and> n \<le> rm_size y)) \<and>
     u = rdma_mem n False (rm_offset x) \<and>
     l' = xs @ front_rest n x @ ys"
proof (induction l arbitrary: u l')
  case (Cons z l)
  show ?case
  proof (cases "rm_free z \<and> n \<le> rm_size z")
    case True
    with Cons.prems show ?thesis
      by (intro exI [of _ "[]"] exI [of _ z] exI [of _ l]) (auto simp: front_rest_def)
  next
    case False
    with Cons.prems obtain l0 where l0: "internalAlloc_scan n l = Some (u, l0)" "l' = z # l0"
      by (auto split: if_splits)
    from Cons.IH [OF l0(1)] obtain xs x ys where *: "l = xs @ x # ys" "rm_free x" "n \<le> rm_size x"
      "\<forall>y \<in> set xs. \<not> (rm_free y \<and> n \<le> rm_size y)" "u = rdma_mem n False (rm_offset x)"
      "l0 = xs @ front_rest n x @ ys"
      by blast
    from * False l0(2) show ?thesis by (intro exI [of _ "z # xs"] exI [of _ x] exI [of _ ys]) auto
  qed
qed simp

lemma internalAlloc_cases:
  obtains (fail) "internalAlloc n m = (rdma_mem_null, m)"
      "\<forall>x \<in> set (m_rdmaMem m). \<not> (rm_free x \<and> n \<le> rm_size x)"
  | (ok) xs x ys where "m_rdmaMem m = xs @ x # ys" "rm_free x" "n \<le> rm_size x"
      "internalAlloc n m = (rdma_mem n False (rm_offset x),
         m\<lparr>m_rdmaMem := xs @ front_rest n x @ ys,
           m_usedRdmaMem := (m_usedRdmaMem m)(rm_offset x \<mapsto> rdma_mem n False (rm_offset x))\<rparr>)"
proof (cases "internalAlloc_scan n (m_rdmaMem m)")
  case None
  with that(1) show ?thesis by (simp add: internalAlloc_def alloc_scan_None)
next
  case (Some p)
  obtain u l' where p: "p = (u, l')" by force
  from alloc_scan_Some [OF Some [unfolded p]] obtain xs x ys where
    *: "m_rdmaMem m = xs @ x # ys" "rm_free x" "n \<le> rm_size x" "u = rdma_mem n False (rm_offset x)"
    "l' = xs @ front_rest n x @ ys"
    by blast
  show ?thesis using that(2) [OF *(1-3)] *(4,5) Some p by (simp add: internalAlloc_def)
qed

text \<open>What taking the front of a free region does to its neighbours.\<close>

lemma sorted_shrink:
  assumes "sorted_wrt before_region (xs @ x # ys)" "n \<le> rm_size x"
  shows "sorted_wrt before_region
    (xs @ front_rest n x @ ys)"
  using assms(2)
proof (cases rule: front_rest_cases)
  case 1
  with assms(1) show ?thesis by (simp add: sorted_wrt_append)
next
  case 2
  with assms show ?thesis by (fastforce simp: sorted_wrt_append before_region_def)
qed

lemma free_apart:
  assumes "sorted_wrt before_region (xs @ x # ys)" "y \<in> set (xs @ ys)"
  shows "apart x y"
  using assms by (auto simp: sorted_wrt_append apart_def)

lemma internalAlloc_inv:
  assumes "mem_inv m" "0 < n"
  shows "mem_inv (snd (internalAlloc n m))"
proof (cases rule: internalAlloc_cases [of n m])
  case fail
  with assms show ?thesis by simp
next
  case (ok xs x ys)
  let ?u = "rdma_mem n False (rm_offset x)"
  let ?r = "front_rest n x"
  note inv = assms(1) [unfolded mem_inv_def]
  have srt: "sorted_wrt before_region (xs @ x # ys)" and xok: "region_ok (m_memSize m) True x"
    using inv ok(1) by auto
  have used: "rm_offset u = k \<and> region_ok (m_memSize m) False u \<and> apart u x \<and>
      (\<forall>y \<in> set (xs @ ys). apart u y)" if "m_usedRdmaMem m k = Some u" for k u
    using inv ok(1) that by auto
  have shrunk: "apart w ?u \<and> (\<forall>y \<in> set ?r. apart w y)" if "apart w x" for w
    using ok(3) that by (cases rule: front_rest_cases) (auto simp: apart_def before_region_def)
  have rest: "apart ?u y" if "y \<in> set (xs @ ?r @ ys)" for y
  proof (cases "y \<in> set ?r")
    case True
    then show ?thesis by (auto simp: front_rest_def apart_def before_region_def split: if_splits)
  next
    case False
    with that have "y \<in> set (xs @ ys)" by auto
    from free_apart [OF srt this] have "apart y x" by (simp add: apart_sym)
    from shrunk [OF this] show ?thesis by (simp add: apart_sym)
  qed
  have rok: "region_ok (m_memSize m) True y" if "y \<in> set (xs @ ?r @ ys)" for y
  proof (cases "y \<in> set ?r")
    case True
    with xok ok(3) show ?thesis by (auto simp: front_rest_def region_ok_def split: if_splits)
  next
    case False
    with that inv ok(1) show ?thesis by auto
  qed
  have uok: "region_ok (m_memSize m) False ?u" using xok ok(3) assms(2) by (auto simp: region_ok_def)
  have olds: "\<forall>y \<in> set (xs @ ?r @ ys). apart u y" if "m_usedRdmaMem m k = Some u" for k u
    using used [OF that] shrunk [of u] by auto
  have news: "apart u ?u" if "m_usedRdmaMem m k = Some u" for k u
    using used [OF that] shrunk [of u] by auto
  have pairs: "apart u u'" if "m_usedRdmaMem m k = Some u" "m_usedRdmaMem m k' = Some u'" "k \<noteq> k'"
    for k u k' u' using inv that by blast
  have "mem_inv (m\<lparr>m_rdmaMem := xs @ ?r @ ys, m_usedRdmaMem := (m_usedRdmaMem m)(rm_offset x \<mapsto> ?u)\<rparr>)"
    unfolding mem_inv_def
    using inv rok sorted_shrink [OF srt ok(3)] rest uok olds used news pairs
    by (simp add: apart_sym [of ?u])
  with ok(4) show ?thesis by simp
qed

text \<open>The region handed out was free, and only it changes hands.\<close>

lemma internalAlloc_bytes:
  assumes "mem_inv m" "0 < n" "internalAlloc n m = (r, m')" "\<not> rm_isnull r"
  shows "rm_size r = n" "rm_region r \<subseteq> free_bytes m" "free_bytes m' = free_bytes m - rm_region r"
    "used_bytes m' = used_bytes m \<union> rm_region r" "rm_offset r + n \<le> m_memSize m"
    "m_usedRdmaMem m (rm_offset r) = None"
proof -
  from assms(3,4) obtain xs x ys where ok: "m_rdmaMem m = xs @ x # ys" "n \<le> rm_size x"
    "r = rdma_mem n False (rm_offset x)"
    "m' = m\<lparr>m_rdmaMem := xs @ front_rest n x @ ys,
           m_usedRdmaMem := (m_usedRdmaMem m)(rm_offset x \<mapsto> rdma_mem n False (rm_offset x))\<rparr>"
  proof (cases rule: internalAlloc_cases [of n m])
    case fail
    with assms(3,4) show ?thesis by auto
  next
    case (ok xs x ys)
    with assms(3) show ?thesis by (intro that [OF ok(1,3)]) auto
  qed
  note inv = assms(1) [unfolded mem_inv_def]
  have srt: "sorted_wrt before_region (xs @ x # ys)" and xok: "region_ok (m_memSize m) True x"
    using inv ok(1) by auto
  show "rm_size r = n" using ok(3) by simp
  show "rm_offset r + n \<le> m_memSize m" using xok ok(2,3) by (auto simp: region_ok_def)
  have others: "rm_region y \<inter> rm_region x = {}" if "y \<in> set (xs @ ys)" for y
  proof -
    have "0 < rm_size y" using inv ok(1) that by (auto dest: region_okD)
    moreover have "0 < rm_size x" using xok by (rule region_okD)
    moreover have "apart y x" using free_apart [OF srt that] by (simp add: apart_sym)
    ultimately show ?thesis by (simp add: apart_disjoint)
  qed
  have sub: "rm_region r \<subseteq> rm_region x" using ok(2,3) by (auto simp: rm_region_def)
  then show "rm_region r \<subseteq> free_bytes m" using ok(1) by (auto simp: free_bytes_def)
  have outside: "(\<Union>y \<in> set (xs @ ys). rm_region y) - rm_region r = (\<Union>y \<in> set (xs @ ys). rm_region y)"
    using others sub by blast
  have split: "rm_region x - rm_region r =
      (\<Union>y \<in> set (front_rest n x). rm_region y)"
    using ok(2,3) by (auto simp: front_rest_def rm_region_def)
  have "free_bytes m - rm_region r = ((\<Union>y \<in> set (xs @ ys). rm_region y) - rm_region r) \<union> (rm_region x - rm_region r)"
    using ok(1) by (auto simp: free_bytes_def)
  also have "\<dots> = free_bytes m'" unfolding outside split using ok(4) by (auto simp: free_bytes_def)
  finally show "free_bytes m' = free_bytes m - rm_region r" by simp
  have none: "m_usedRdmaMem m (rm_offset x) = None"
  proof (rule ccontr)
    assume "m_usedRdmaMem m (rm_offset x) \<noteq> None"
    then obtain u where u: "m_usedRdmaMem m (rm_offset x) = Some u" by auto
    note D = mem_inv_usedD [OF assms(1) u]
    have "rm_offset u = rm_offset x" "0 < rm_size u" "apart u x"
      using D(1) region_okD(1) [OF D(2)] D(3) [of x] ok(1) by simp_all
    with region_okD(1) [OF xok] show False by (auto simp: apart_def before_region_def)
  qed
  then show "m_usedRdmaMem m (rm_offset r) = None" using ok(3) by simp
  show "used_bytes m' = used_bytes m \<union> rm_region r"
    using none ok(3,4) by (auto simp: used_bytes_def ran_map_upd)
qed

lemma internalAlloc_memSize [simp]: "m_memSize (snd (internalAlloc n m)) = m_memSize m"
  by (cases rule: internalAlloc_cases [of n m]) auto

lemma internalAlloc_res [simp]: "m_res (snd (internalAlloc n m)) = m_res m"
  by (cases rule: internalAlloc_cases [of n m]) auto

lemma internalAlloc_null_iff:
  assumes "mem_inv m"
  shows "rm_isnull (fst (internalAlloc n m)) \<longleftrightarrow> (\<forall>x \<in> set (m_rdmaMem m). rm_size x < n)"
  using assms by (cases rule: internalAlloc_cases [of n m]) (force simp: mem_inv_def region_ok_def)+

section \<open>Release\<close>

text \<open>
  The two merges of \<open>mergeFreeMem\<close> on a list split at the region handed in.
\<close>

definition touches :: "rdma_mem_t \<Rightarrow> rdma_mem_t \<Rightarrow> bool" where
  "touches x y \<longleftrightarrow> rm_offset x + rm_size x = rm_offset y"

definition grow :: "rdma_mem_t \<Rightarrow> rdma_mem_t \<Rightarrow> rdma_mem_t" where
  "grow x y = x\<lparr>rm_size := rm_size x + rm_size y\<rparr>"

lemma grow_sel [simp]:
  "rm_size (grow x y) = rm_size x + rm_size y" "rm_offset (grow x y) = rm_offset x"
  "rm_free (grow x y) = rm_free x" "rm_isnull (grow x y) = rm_isnull x"
  by (simp_all add: grow_def)

lemma mergeFreeMem_first:
  "mergeFreeMem 0 (r # ys) =
     (case ys of y # ys' \<Rightarrow> if touches r y then grow r y # ys' else r # ys | [] \<Rightarrow> [r])"
  by (cases ys) (auto simp: mergeFreeMem_def touches_def grow_def Let_def)

lemma mergeFreeMem_later:
  "mergeFreeMem (Suc (length xs)) (xs @ p # r # ys) =
     (if touches p r then
        (case ys of y # ys' \<Rightarrow> if touches r y then xs @ grow (grow p r) y # ys' else xs @ grow p r # ys
         | [] \<Rightarrow> xs @ [grow p r])
      else
        (case ys of y # ys' \<Rightarrow> if touches r y then xs @ p # grow r y # ys' else xs @ p # r # ys
         | [] \<Rightarrow> xs @ [p, r]))"
proof -
  have a: "(xs @ p # r # ys) ! Suc (length xs) = r" "(xs @ p # r # ys) ! length xs = p"
    by (simp_all add: nth_append)
  have b: "(xs @ q # ys) ! Suc (length xs) = hd ys" if "ys \<noteq> []" for q
    using that by (cases ys) (simp_all add: nth_append)
  have c: "(xs @ p # r # ys) ! Suc (Suc (length xs)) = hd ys" if "ys \<noteq> []"
    using that by (cases ys) (simp_all add: nth_append)
  show ?thesis
    by (cases ys)
      (auto simp: mergeFreeMem_def Let_def a b c touches_def grow_def list_update_append nth_append
        add.commute add.left_commute)
qed

text \<open>Growing a region over the one it touches keeps order, bounds and the bytes covered.\<close>

lemma grow_merge:
  assumes "sorted_wrt before_region (xs @ x # y # ys)" "touches x y"
    and "\<forall>z \<in> set (xs @ x # y # ys). region_ok tot True z"
  shows "sorted_wrt before_region (xs @ grow x y # ys)"
    "\<forall>z \<in> set (xs @ grow x y # ys). region_ok tot True z"
    "(\<Union>z \<in> set (xs @ grow x y # ys). rm_region z) = (\<Union>z \<in> set (xs @ x # y # ys). rm_region z)"
proof -
  have reg: "rm_region (grow x y) = rm_region x \<union> rm_region y"
    using assms(2) by (auto simp: rm_region_def touches_def)
  show "sorted_wrt before_region (xs @ grow x y # ys)"
    using assms(1,2) by (auto simp: sorted_wrt_append before_region_def touches_def)
  show "\<forall>z \<in> set (xs @ grow x y # ys). region_ok tot True z"
    using assms(2,3) by (auto simp: region_ok_def touches_def)
  show "(\<Union>z \<in> set (xs @ grow x y # ys). rm_region z) = (\<Union>z \<in> set (xs @ x # y # ys). rm_region z)"
    by (auto simp: reg)
qed

lemma grow_following:
  assumes "sorted_wrt before_region (xs @ r # ys)" "\<forall>z \<in> set (xs @ r # ys). region_ok tot True z"
    and "l = (case ys of y # ys' \<Rightarrow> if touches r y then xs @ grow r y # ys' else xs @ r # ys | [] \<Rightarrow> xs @ [r])"
  shows "sorted_wrt before_region l \<and> (\<forall>z \<in> set l. region_ok tot True z) \<and>
     (\<Union>z \<in> set l. rm_region z) = (\<Union>z \<in> set (xs @ r # ys). rm_region z)"
proof (cases "ys \<noteq> [] \<and> touches r (hd ys)")
  case True
  then obtain y ys' where ys: "ys = y # ys'" "touches r y" by (cases ys) auto
  note g = grow_merge [OF assms(1) [unfolded ys(1)] ys(2) assms(2) [unfolded ys(1)]]
  have "l = xs @ grow r y # ys'" using assms(3) ys by simp
  with g ys(1) show ?thesis by simp
next
  case False
  with assms(3) have "l = xs @ r # ys" by (cases ys) auto
  with assms(1,2) show ?thesis by simp
qed

lemma touches_grow: "touches p r \<Longrightarrow> touches (grow p r) y = touches r y"
  by (auto simp: touches_def)

lemma mergeFreeMem_ok:
  assumes "sorted_wrt before_region (xs @ r # ys)" "\<forall>z \<in> set (xs @ r # ys). region_ok tot True z"
  shows "sorted_wrt before_region (mergeFreeMem (length xs) (xs @ r # ys)) \<and>
    (\<forall>z \<in> set (mergeFreeMem (length xs) (xs @ r # ys)). region_ok tot True z) \<and>
    (\<Union>z \<in> set (mergeFreeMem (length xs) (xs @ r # ys)). rm_region z) = (\<Union>z \<in> set (xs @ r # ys). rm_region z)"
proof (cases xs rule: rev_cases)
  case Nil
  have "mergeFreeMem (length xs) (xs @ r # ys) =
      (case ys of y # ys' \<Rightarrow> if touches r y then xs @ grow r y # ys' else xs @ r # ys | [] \<Rightarrow> xs @ [r])"
    by (cases ys) (simp_all add: Nil mergeFreeMem_first)
  from grow_following [OF assms this] show ?thesis .
next
  case (snoc xs' p)
  have srt: "sorted_wrt before_region (xs' @ p # r # ys)" and ok: "\<forall>z \<in> set (xs' @ p # r # ys). region_ok tot True z"
    using assms by (simp_all add: snoc)
  show ?thesis
  proof (cases "touches p r")
    case True
    note g = grow_merge [OF srt True ok]
    have "mergeFreeMem (length xs) (xs @ r # ys) =
        (case ys of y # ys' \<Rightarrow> if touches (grow p r) y then xs' @ grow (grow p r) y # ys'
           else xs' @ grow p r # ys | [] \<Rightarrow> xs' @ [grow p r])"
      using True by (cases ys) (simp_all add: snoc mergeFreeMem_later touches_grow)
    from grow_following [OF g(1,2) this] g(3) show ?thesis by (simp add: snoc)
  next
    case False
    have "mergeFreeMem (length xs) (xs @ r # ys) =
        (case ys of y # ys' \<Rightarrow> if touches r y then xs @ grow r y # ys' else xs @ r # ys | [] \<Rightarrow> xs @ [r])"
      using False by (cases ys) (simp_all add: snoc mergeFreeMem_later)
    from grow_following [OF assms this] show ?thesis .
  qed
qed

text \<open>
  Where the sum of offsets does not wrap, the scan of \<open>internalFree\<close> finds a place only between the
  regions in front of and behind the freed offset.
\<close>

lemma free_scan_Some:
  assumes "internalFree_scan off lo l = Some i" "lo + sum_list (map rm_offset l) < 2 ^ 64"
  shows "i < length l \<and> off < rm_offset (l ! i) \<and> lo + sum_list (map rm_offset (take i l)) \<le> off"
  using assms
proof (induction l arbitrary: lo i)
  case (Cons x l)
  show ?case
  proof (cases "lo \<le> off \<and> off < rm_offset x")
    case True
    with Cons.prems show ?thesis by simp
  next
    case False
    with Cons.prems(1) obtain j where j: "i = Suc j"
      "internalFree_scan off (add64 lo (rm_offset x)) l = Some j"
      by (auto split: if_splits)
    have "add64 lo (rm_offset x) = lo + rm_offset x"
      using Cons.prems(2) by (intro add64_small) simp
    with Cons.IH [OF j(2)] Cons.prems(2) j(1) show ?thesis by (simp add: add.assoc)
  qed
qed simp

lemma free_scan_place:
  assumes "internalFree_scan off 0 l = Some i" "sum_list (map rm_offset l) < 2 ^ 64"
  shows "i < length l" "off < rm_offset (l ! i)" "x \<in> set (take i l) \<Longrightarrow> rm_offset x \<le> off"
proof -
  note * = free_scan_Some [OF assms(1)]
  show "i < length l" "off < rm_offset (l ! i)" using * assms(2) by auto
  assume "x \<in> set (take i l)"
  then have "rm_offset x \<le> sum_list (map rm_offset (take i l))"
    by (intro member_le_sum_list) auto
  with * assms(2) show "rm_offset x \<le> off" by auto
qed

text \<open>
  When the scan finds a place: there must be a free region behind the freed offset, and the offsets of the free regions in
  front of the first such region, added up, must not exceed the freed offset.
\<close>

definition release_place :: "nat \<Rightarrow> rdma_mem_t list \<Rightarrow> bool" where
  "release_place off l \<longleftrightarrow> l = [] \<or> (\<exists>x \<in> set l. off < rm_offset x) \<and>
     sum_list (map rm_offset (takeWhile (\<lambda>x. rm_offset x \<le> off) l)) \<le> off"

lemma free_scan_beyond: "off < lo \<Longrightarrow> lo + sum_list (map rm_offset l) < 2 ^ 64 \<Longrightarrow> internalFree_scan off lo l = None"
  by (induction l arbitrary: lo) (simp_all add: add64_small)

lemma free_scan_iff:
  assumes "lo + sum_list (map rm_offset l) < 2 ^ 64"
  shows "(\<exists>i. internalFree_scan off lo l = Some i) \<longleftrightarrow>
    (\<exists>x \<in> set l. off < rm_offset x) \<and> lo + sum_list (map rm_offset (takeWhile (\<lambda>x. rm_offset x \<le> off) l)) \<le> off"
  using assms
proof (induction l arbitrary: lo)
  case (Cons x l)
  have sum: "add64 lo (rm_offset x) = lo + rm_offset x" using Cons.prems by (intro add64_small) simp
  show ?case
  proof (cases "off < rm_offset x")
    case True
    have "lo + rm_offset x + sum_list (map rm_offset l) < 2 ^ 64" using Cons.prems by simp
    with True free_scan_beyond [of off "lo + rm_offset x" l] sum show ?thesis by auto
  next
    case False
    have "lo + rm_offset x + sum_list (map rm_offset l) < 2 ^ 64" using Cons.prems by simp
    from Cons.IH [OF this] False sum show ?thesis by (auto simp: add.assoc)
  qed
qed simp

text \<open>The region put back in its place: in order, and apart from the regions that stay used.\<close>

lemma free_insert_sorted:
  assumes "sorted_wrt before_region l" "\<forall>x \<in> set l. region_ok tot True x \<and> apart r x" "0 < rm_size r"
    and "i < length l" "rm_offset r < rm_offset (l ! i)" "\<And>x. x \<in> set (take i l) \<Longrightarrow> rm_offset x \<le> rm_offset r"
  shows "sorted_wrt before_region (take i l @ r # drop i l)"
proof -
  have split: "sorted_wrt before_region (take i l @ drop i l)" using assms(1) by simp
  have left: "before_region x r" if "x \<in> set (take i l)" for x
  proof -
    have "apart r x" using assms(2) that by (auto dest: in_set_takeD)
    with assms(3) assms(6) [OF that] show ?thesis by (auto simp: apart_def before_region_def)
  qed
  have right: "before_region r y" if "y \<in> set (drop i l)" for y
  proof -
    have d: "drop i l = l ! i # drop (Suc i) l" using assms(4) by (rule Cons_nth_drop_Suc [symmetric])
    have "y = l ! i \<or> before_region (l ! i) y"
      using that split unfolding d by (auto simp: sorted_wrt_append)
    then have "rm_offset (l ! i) \<le> rm_offset y" by (auto simp: before_region_def)
    moreover have y: "y \<in> set l" using that by (rule in_set_dropD)
    with assms(2) have "apart r y" "0 < rm_size y" by (auto dest: region_okD)
    ultimately show ?thesis using assms(5) by (auto simp: apart_def before_region_def)
  qed
  show ?thesis using split [unfolded sorted_wrt_append] left right by (simp add: sorted_wrt_append)
qed

lemma mem_inv_drop_used:
  assumes "mem_inv m"
  shows "mem_inv (m\<lparr>m_usedRdmaMem := (m_usedRdmaMem m)(k := None)\<rparr>)"
  using assms unfolding mem_inv_def by auto

text \<open>A free list that covers the old free bytes and a freed region keeps the invariant.\<close>

lemma mem_inv_new_free:
  assumes "mem_inv m" "m_usedRdmaMem m k = Some u"
    and "sorted_wrt before_region l" "\<forall>x \<in> set l. region_ok (m_memSize m) True x"
    and "(\<Union>x \<in> set l. rm_region x) = free_bytes m \<union> rm_region u"
  shows "mem_inv (m\<lparr>m_usedRdmaMem := (m_usedRdmaMem m)(k := None), m_rdmaMem := l\<rparr>)"
proof -
  have "apart v x" if v: "m_usedRdmaMem m j = Some v" "j \<noteq> k" and x: "x \<in> set l" for j v x
  proof -
    note D = mem_inv_usedD [OF assms(1) v(1)]
    have "rm_region v \<inter> rm_region y = {}" if "y \<in> set (m_rdmaMem m)" for y
      using D(3) [OF that] region_okD(1) [OF D(2)] region_okD(1) [OF mem_inv_freeD(1) [OF assms(1) that]]
      by (simp add: apart_disjoint)
    moreover have "rm_region v \<inter> rm_region u = {}"
      using D(4) [OF assms(2)] v(2) region_okD(1) [OF D(2)]
        region_okD(1) [OF mem_inv_usedD(2) [OF assms(1,2)]] by (simp add: apart_disjoint)
    ultimately have "rm_region v \<inter> (free_bytes m \<union> rm_region u) = {}" by (auto simp: free_bytes_def)
    with x assms(5) have "rm_region v \<inter> rm_region x = {}" by blast
    moreover have "0 < rm_size x" using x assms(4) by (auto dest: region_okD)
    ultimately show ?thesis using region_okD(1) [OF D(2)] by (simp add: apart_disjoint)
  qed
  with assms(1,3,4) show ?thesis unfolding mem_inv_def by simp
qed

lemma used_bytes_release:
  assumes "mem_inv m" "m_usedRdmaMem m k = Some u"
  shows "used_bytes (m\<lparr>m_usedRdmaMem := (m_usedRdmaMem m)(k := None), m_rdmaMem := l\<rparr>) = used_bytes m - rm_region u"
proof -
  have "rm_region v \<inter> rm_region u = {}" if "m_usedRdmaMem m j = Some v" "j \<noteq> k" for j v
    using mem_inv_usedD [OF assms(1) that(1)] mem_inv_usedD [OF assms] that(2) assms(2)
    by (meson apart_disjoint region_okD(1))
  then have "rm_region v \<subseteq> used_bytes m - rm_region u" if "m_usedRdmaMem m j = Some v" "j \<noteq> k" for j v
    using that by (fastforce simp: used_bytes_def ran_def)
  moreover have "used_bytes m - rm_region u \<subseteq> \<Union> (rm_region ` {v. \<exists>j. j \<noteq> k \<and> m_usedRdmaMem m j = Some v})"
  proof
    fix b assume "b \<in> used_bytes m - rm_region u"
    then obtain v j where v: "m_usedRdmaMem m j = Some v" "b \<in> rm_region v" "b \<notin> rm_region u"
      by (auto simp: used_bytes_def ran_def)
    with assms(2) have "j \<noteq> k" by auto
    with v show "b \<in> \<Union> (rm_region ` {v. \<exists>j. j \<noteq> k \<and> m_usedRdmaMem m j = Some v})" by auto
  qed
  moreover have "used_bytes (m\<lparr>m_usedRdmaMem := (m_usedRdmaMem m)(k := None), m_rdmaMem := l\<rparr>) =
      \<Union> (rm_region ` {v. \<exists>j. j \<noteq> k \<and> m_usedRdmaMem m j = Some v})"
    by (auto simp: used_bytes_def ran_def split: if_splits)
  ultimately show ?thesis by blast
qed

text \<open>
  Releasing a live region keeps the invariant whatever the scan finds. The region's bytes become free
  where the scan finds a place; otherwise they are neither free nor used.
\<close>

lemma internalFree_cases:
  assumes "mem_inv m" "sum_fits m" "m_usedRdmaMem m off = Some u"
  obtains (kept) m' where "internalFree off m = (True, m')" "mem_inv m'"
      "free_bytes m' = free_bytes m \<union> rm_region u" "used_bytes m' = used_bytes m - rm_region u"
      "m_usedRdmaMem m' = (m_usedRdmaMem m)(off := None)" "m_memSize m' = m_memSize m"
  | (lost) m' where "internalFree off m = (False, m')" "mem_inv m'"
      "free_bytes m' = free_bytes m" "used_bytes m' = used_bytes m - rm_region u"
      "m_usedRdmaMem m' = (m_usedRdmaMem m)(off := None)" "m_memSize m' = m_memSize m"
      "m_rdmaMem m \<noteq> []" "internalFree_scan off 0 (m_rdmaMem m) = None"
proof -
  let ?l = "m_rdmaMem m" and ?r = "u\<lparr>rm_free := True\<rparr>"
  let ?upd = "\<lambda>l. m\<lparr>m_usedRdmaMem := (m_usedRdmaMem m)(off := None), m_rdmaMem := l\<rparr>"
  note D = mem_inv_usedD [OF assms(1,3)]
  have r: "rm_region ?r = rm_region u" "region_ok (m_memSize m) True ?r" "0 < rm_size ?r"
    using D(2) by (auto simp: rm_region_def region_ok_def)
  have good: thesis if "sorted_wrt before_region l" "\<forall>x \<in> set l. region_ok (m_memSize m) True x"
    "(\<Union>x \<in> set l. rm_region x) = free_bytes m \<union> rm_region u" "internalFree off m = (True, ?upd l)" for l
    using kept [OF that(4)] mem_inv_new_free [OF assms(1,3) that(1-3)] used_bytes_release [OF assms(1,3)] that(3)
    by (simp add: free_bytes_def)
  show thesis
  proof (cases "?l = []")
    case True
    then have "internalFree off m = (True, ?upd [?r])" using assms(3) by (simp add: internalFree_def)
    then show thesis using good [of "[?r]"] r True by (simp add: free_bytes_def)
  next
    case False
    show thesis
    proof (cases "internalFree_scan off 0 ?l")
      case None
      with False assms(3) have "internalFree off m = (False, ?upd ?l)"
        by (simp add: internalFree_def)
      then show thesis
        using lost [of "?upd ?l"] False None mem_inv_drop_used [OF assms(1), of off]
          used_bytes_release [OF assms(1,3), of ?l] by (simp add: free_bytes_def)
    next
      case (Some i)
      note pl = free_scan_place [OF Some assms(2) [unfolded sum_fits_def]]
      have off: "rm_offset ?r = off" using D(1) by simp
      have ap: "\<forall>x \<in> set ?l. region_ok (m_memSize m) True x \<and> apart ?r x"
        using D(3) mem_inv_freeD(1) [OF assms(1)] by (simp add: apart_def before_region_def)
      let ?m = "mergeFreeMem i (take i ?l @ ?r # drop i ?l)"
      have srt: "sorted_wrt before_region (take i ?l @ ?r # drop i ?l)"
        using free_insert_sorted [OF mem_inv_freeD(2) [OF assms(1)] ap r(3) pl(1)] pl(2,3) off by simp
      have oks: "\<forall>z \<in> set (take i ?l @ ?r # drop i ?l). region_ok (m_memSize m) True z"
        using ap r(2) by (auto dest: in_set_takeD in_set_dropD)
      have len: "length (take i ?l) = i" using pl(1) by simp
      have un: "(\<Union>z \<in> set (take i ?l @ ?r # drop i ?l). rm_region z) = free_bytes m \<union> rm_region u"
      proof -
        have "set (take i ?l) \<union> set (drop i ?l) = set ?l" by (metis append_take_drop_id set_append)
        then show ?thesis using r(1) by (auto simp: free_bytes_def)
      qed
      have "internalFree off m = (True, ?upd ?m)"
        using False Some assms(3) by (simp add: internalFree_def Let_def)
      then show thesis using good [of ?m] mergeFreeMem_ok [OF srt oks] len un by simp
    qed
  qed
qed

lemma internalFree_returns: "sum_fits m \<Longrightarrow> fst (internalFree off m) \<longleftrightarrow> release_place off (m_rdmaMem m)"
  using free_scan_iff [of 0 "m_rdmaMem m" off]
  by (auto simp: internalFree_def sum_fits_def release_place_def Let_def split: option.splits)

lemma free_scan_behind:
  "\<forall>x \<in> set l. rm_offset x \<le> off \<Longrightarrow> internalFree_scan off lo l = None"
  by (induction l arbitrary: lo) auto

lemma internalFree_live:
  "internalFree off m = (b, m') \<Longrightarrow> live_regions m' = (live_regions m)(off := None)"
  by (auto simp: internalFree_def live_regions_def Let_def split: if_splits option.splits)

section \<open>The allocator interface\<close>

interpretation rdma_heap: region_heap
  "alloc_offset :: nat \<Rightarrow> 'm rdma_manager_scheme \<Rightarrow> nat option \<times> 'm rdma_manager_scheme"
  live_regions mem_inv m_memSize internalFree sum_fits
proof (unfold_locales, goal_cases)
  case (1 s n r s')
  then show ?case using internalAlloc_inv [of s n] by (auto simp: alloc_offset_def split: prod.splits)
next
  case (2 n s r s')
  then obtain x where "internalAlloc n s = (x, s')" by (auto simp: alloc_offset_def split: prod.splits)
  then show ?case using internalAlloc_memSize [of n s] by (simp del: internalAlloc_memSize)
next
  case (3 n s s')
  then show ?case
    by (cases rule: internalAlloc_cases [of n s]) (auto simp: alloc_offset_def)
next
  case (4 s n a s' b k)
  then obtain r where r: "internalAlloc n s = (r, s')" "\<not> rm_isnull r" "rm_offset r = a"
    by (auto simp: alloc_offset_def split: prod.splits if_splits)
  obtain u where u: "m_usedRdmaMem s b = Some u" "rm_size u = k"
    using 4(4) by (auto simp: live_regions_def)
  note A = internalAlloc_bytes [OF 4(1,2) r(1,2)] and D = mem_inv_usedD [OF 4(1) u(1)]
  from used_free_disjoint [OF 4(1) u(1)] A(2) have "rm_region u \<inter> rm_region r = {}" by auto
  then have "apart r u"
    using A(1) 4(2) region_okD(1) [OF D(2)] by (simp add: apart_disjoint Int_commute)
  with A(1) D(1) u(2) r(3) show ?case by (simp add: apart_def before_region_def disjoint_regions_def)
next
  case (5 s n a s')
  then obtain r where r: "internalAlloc n s = (r, s')" "\<not> rm_isnull r" "rm_offset r = a"
    by (auto simp: alloc_offset_def split: prod.splits if_splits)
  then show ?case
    by (cases rule: internalAlloc_cases [of n s]) (auto simp: live_regions_def)
next
  case (6 s n a s')
  then show ?case
    using internalAlloc_bytes(5) [OF 6(1,2)] by (auto simp: alloc_offset_def split: prod.splits if_splits)
next
  case (7 s a n)
  then show ?case using mem_inv_usedD(2) by (auto simp: live_regions_def region_ok_def)
next
  case (8 s a n b s')
  then obtain u where u: "m_usedRdmaMem s a = Some u" by (auto simp: live_regions_def)
  from 8 show ?case by (cases rule: internalFree_cases [OF 8(1,2) u]) auto
next
  case (9 a s b s')
  then show ?case by (rule internalFree_live)
qed

section \<open>Properties\<close>

lemma mem_inv_init:
  assumes "0 < n" "n < 2 ^ 64" "m_rdmaMem m = [rdma_mem n True 0]" "m_usedRdmaMem m = Map.empty" "m_memSize m = n"
  shows "mem_inv m"
  using assms by (simp add: mem_inv_def region_ok_def)

text \<open>Freeing what was just cut from the first free region.\<close>

lemma internalFree_undoes:
  assumes "mem_inv m" "m_rdmaMem m = x # ys" "0 < n" "n < rm_size x"
    and "internalAlloc n m = (r, m')"
  shows "internalFree (rm_offset r) m' = (True, m)"
proof -
  let ?off = "rm_offset x"
  have x: "x = rdma_mem (rm_size x) True ?off"
    using mem_inv_freeD(1) [OF assms(1), of x] assms(2) by (simp add: region_ok_def rdma_mem_def)
  have r: "r = rdma_mem n False ?off"
    and m': "m' = m\<lparr>m_rdmaMem := rdma_mem (rm_size x - n) True (?off + n) # ys,
        m_usedRdmaMem := (m_usedRdmaMem m)(?off \<mapsto> rdma_mem n False ?off)\<rparr>"
    using assms(2,4,5) region_okD(4) [OF mem_inv_freeD(1) [OF assms(1), of x]]
    by (auto simp: internalAlloc_def)
  have none: "m_usedRdmaMem m ?off = None"
    using internalAlloc_bytes(6) [OF assms(1,3,5)] r by simp
  have grown: "grow (rdma_mem n True ?off) (rdma_mem (rm_size x - n) True (?off + n)) = x"
    using assms(4) by (subst (3) x) (simp add: grow_def rdma_mem_def)
  have freed: "(rdma_mem n False ?off)\<lparr>rm_free := True\<rparr> = rdma_mem n True ?off"
    by (simp add: rdma_mem_def)
  have "internalFree ?off m' = (True, m'\<lparr>m_usedRdmaMem := (m_usedRdmaMem m')(?off := None),
      m_rdmaMem := mergeFreeMem 0 (rdma_mem n True ?off # m_rdmaMem m')\<rparr>)"
    using assms(3) by (simp add: internalFree_def m' Let_def freed)
  moreover have "mergeFreeMem 0 (rdma_mem n True ?off # m_rdmaMem m') = x # ys"
    by (simp add: m' mergeFreeMem_first touches_def grown)
  moreover have "(m_usedRdmaMem m')(?off := None) = m_usedRdmaMem m" using none by (simp add: m' fun_upd_idem)
  moreover have "m'\<lparr>m_usedRdmaMem := m_usedRdmaMem m, m_rdmaMem := x # ys\<rparr> = m"
    using assms(2) [symmetric] by (simp add: m')
  ultimately show ?thesis by (simp add: r)
qed

text \<open>A manager of a buffer of 100 bytes, with which the properties below are exercised.\<close>

definition small_manager :: rdma_manager where
  "small_manager = rdma_manager_init IBV_QPT_RC 1 1 1
     \<lparr>res_buffer = Some 4096, res_pd = Some 1, res_mr = Some \<lparr>mr_lkey = 1, mr_rkey = 2\<rparr>, res_lid = 7,
      res_ib_ctx = Some 1\<rparr> 100"

lemma small_manager_sel [simp]:
  "m_rdmaMem small_manager = [rdma_mem 100 True 0]" "m_usedRdmaMem small_manager = Map.empty"
  "m_memSize small_manager = 100"
  by (simp_all add: small_manager_def rdma_manager_init_def)

lemma small_manager_inv [simp]: "mem_inv small_manager"
  by (rule mem_inv_init [of 100]) simp_all

text \<open>
  Claim C19. \<open>internalAlloc\<close> keeps the invariant of the allocator. A region it hands out has the size
  asked for, lies in the buffer, consists of bytes that were free and that no live region holds, and
  exactly these bytes move from free to used. It returns the null region only when no free region is
  large enough, and then nothing changes.
\<close>

theorem internalAlloc_correct:
  assumes "mem_inv m" and "0 < n" and "internalAlloc n m = (r, m')"
  shows "mem_inv m' \<and>
    (if rm_isnull r then m' = m \<and> (\<forall>x \<in> set (m_rdmaMem m). rm_size x < n)
     else rm_size r = n \<and> rm_offset r + n \<le> m_memSize m \<and>
       rm_region r \<subseteq> free_bytes m \<and> rm_region r \<inter> used_bytes m = {} \<and>
       free_bytes m' = free_bytes m - rm_region r \<and> used_bytes m' = used_bytes m \<union> rm_region r)"
proof (cases "rm_isnull r")
  case True
  have "m' = m" using assms(3) True by (cases rule: internalAlloc_cases [of n m]) auto
  moreover have "\<forall>x \<in> set (m_rdmaMem m). rm_size x < n"
    using internalAlloc_null_iff [OF assms(1), of n] assms(3) True by simp
  ultimately show ?thesis using True assms(1) by simp
next
  case False
  note B = internalAlloc_bytes [OF assms False]
  have "rm_region r \<inter> used_bytes m = {}" using B(2) used_free_bytes [OF assms(1)] by blast
  then show ?thesis using False B internalAlloc_inv [OF assms(1,2)] assms(3) by simp
qed

theorem internalAlloc_correct_witness:
  "mem_inv (snd (internalAlloc 40 small_manager)) \<and>
   rm_offset (fst (internalAlloc 40 small_manager)) = 0 \<and>
   free_bytes (snd (internalAlloc 40 small_manager)) = {0..<100} - {0..<40}"
proof -
  have a: "internalAlloc 40 small_manager =
      (fst (internalAlloc 40 small_manager), snd (internalAlloc 40 small_manager))" by simp
  have r: "fst (internalAlloc 40 small_manager) = rdma_mem 40 False 0" by (simp add: internalAlloc_def)
  show ?thesis
    using internalAlloc_correct [OF small_manager_inv _ a] r by (simp add: free_bytes_def rm_region_def)
qed

text \<open>
  Along any run of allocations, whatever succeeds and whatever fails, the regions handed out
  lie within the buffer, apart from every region that was live before and apart from each other.
\<close>

lemma alloc_run_disjoint:
  assumes "mem_inv m" and "\<forall>n \<in> set ns. 0 < n" and "alloc_run alloc_offset ns m = (rs, m')"
  shows "mem_inv m' \<and>
    (\<forall>(a, n) \<in> set rs. a + n \<le> m_memSize m \<and>
       (\<forall>b k. live_regions m b = Some k \<longrightarrow> disjoint_regions a n b k)) \<and>
    sorted_wrt (\<lambda>(a, n) (b, k). disjoint_regions a n b k) rs"
  using rdma_heap.run_inv [OF assms] rdma_heap.run_apart [OF assms] by blast

lemma alloc_run_disjoint_instance:
  "fst (alloc_run alloc_offset [30, 90, 20] small_manager) = [(0, 30), (30, 20)] \<and>
   mem_inv (snd (alloc_run alloc_offset [30, 90, 20] small_manager)) \<and>
   disjoint_regions 0 30 30 20"
proof -
  have run: "alloc_run alloc_offset [30, 90, 20] small_manager =
      ([(0, 30), (30, 20)], snd (alloc_run alloc_offset [30, 90, 20] small_manager))"
    by (simp add: alloc_offset_def internalAlloc_def Let_def)
  from run have "fst (alloc_run alloc_offset [30, 90, 20] small_manager) = [(0, 30), (30, 20)]"
    by (metis fst_conv)
  then show ?thesis
    using alloc_run_disjoint [OF small_manager_inv _ run] by (simp del: alloc_run.simps)
qed

text \<open>
  Claim C20. As long as the offsets of the free regions can be added up in a \<open>size_t\<close>, \<open>internalFree\<close> of a live region
  keeps the invariant and removes exactly that region from the used ones. It
  returns true and makes exactly the region's bytes free if and only if the free list is empty, or some free region lies behind
  the released one and the offsets of the free regions in front of that place, which the code adds up, do not exceed the released
  offset. Otherwise it returns false, the free bytes are as before, and the bytes of the region are neither free nor used.
\<close>

theorem internalFree_correct:
  assumes "mem_inv m" and "sum_fits m" and "m_usedRdmaMem m off = Some u"
    and "internalFree off m = (b, m')"
  shows "mem_inv m' \<and> m_usedRdmaMem m' = (m_usedRdmaMem m)(off := None) \<and>
    used_bytes m' = used_bytes m - rm_region u \<and>
    (b \<longleftrightarrow> m_rdmaMem m = [] \<or> (\<exists>x \<in> set (m_rdmaMem m). off < rm_offset x) \<and>
       sum_list (map rm_offset (takeWhile (\<lambda>x. rm_offset x \<le> off) (m_rdmaMem m))) \<le> off) \<and>
    free_bytes m' = (if b then free_bytes m \<union> rm_region u else free_bytes m) \<and>
    (\<not> b \<longrightarrow> rm_region u \<inter> (free_bytes m' \<union> used_bytes m') = {})"
proof -
  have "b \<longleftrightarrow> release_place off (m_rdmaMem m)" using internalFree_returns [OF assms(2), of off] assms(4) by simp
  with assms(4) used_free_disjoint [OF assms(1,3)] show ?thesis
    by (cases rule: internalFree_cases [OF assms(1-3)]) (auto simp: release_place_def)
qed

theorem internalFree_correct_witness:
  "fst (internalFree 0 (snd (internalAlloc 40 small_manager))) = True \<and>
   free_bytes (snd (internalFree 0 (snd (internalAlloc 40 small_manager)))) = {0..<100}"
proof -
  let ?m = "snd (internalAlloc 40 small_manager)"
  have inv: "mem_inv ?m" by (rule internalAlloc_inv) simp_all
  have l: "m_rdmaMem ?m = [rdma_mem 60 True 40]" and u: "m_usedRdmaMem ?m 0 = Some (rdma_mem 40 False 0)"
    by (simp_all add: internalAlloc_def)
  have fits: "sum_fits ?m" by (simp add: sum_fits_def l)
  have t: "internalFree 0 ?m = (True, snd (internalFree 0 ?m))"
    by (simp add: internalFree_def l u Let_def)
  have "free_bytes (snd (internalFree 0 ?m)) = free_bytes ?m \<union> rm_region (rdma_mem 40 False 0)"
    using internalFree_correct [OF inv fits u t] by simp
  also have "\<dots> = {0..<100}" by (auto simp: free_bytes_def l rm_region_def)
  finally show ?thesis by (subst t) simp
qed

text \<open>
  Claim C34. A region at or behind the offset of the last free region is never put back: with any free
  region in the list, \<open>internalFree\<close> of an offset that no free region lies behind returns false and
  the memory is lost for good.
\<close>

theorem internalFree_leaks:
  assumes "mem_inv m" and "m_usedRdmaMem m off = Some u" and "m_rdmaMem m \<noteq> []"
    and "\<forall>x \<in> set (m_rdmaMem m). rm_offset x \<le> off"
  shows "\<exists>m'. internalFree off m = (False, m') \<and>
    rm_region u \<noteq> {} \<and> rm_region u \<inter> (free_bytes m' \<union> used_bytes m') = {}"
proof -
  let ?m = "m\<lparr>m_usedRdmaMem := (m_usedRdmaMem m)(off := None)\<rparr>"
  have "internalFree off m = (False, ?m)"
    using assms(2,3) free_scan_behind [OF assms(4)] by (simp add: internalFree_def)
  moreover have "rm_region u \<noteq> {}"
    using mem_inv_usedD(2) [OF assms(1,2)] by (auto simp: region_ok_def rm_region_def)
  moreover have "free_bytes ?m = free_bytes m" by (simp add: free_bytes_def)
  moreover have "used_bytes ?m = used_bytes m - rm_region u"
    using used_bytes_release [OF assms(1,2), of "m_rdmaMem m"] by simp
  ultimately show ?thesis using used_free_disjoint [OF assms(1,2)] by auto
qed

theorem internalFree_leaks_witness:
  "\<exists>(m :: rdma_manager) m'. mem_inv m \<and> m_usedRdmaMem m 40 = Some (rdma_mem 60 False 40) \<and>
     internalFree 40 m = (False, m') \<and> {40..<100} \<inter> (free_bytes m' \<union> used_bytes m') = {}"
proof -
  let ?m1 = "snd (internalAlloc 60 (snd (internalAlloc 40 small_manager)))"
  let ?m = "snd (internalFree 0 ?m1)"
  have i1: "mem_inv ?m1" by (intro internalAlloc_inv) simp_all
  have l1: "m_rdmaMem ?m1 = []" and u1: "m_usedRdmaMem ?m1 0 = Some (rdma_mem 40 False 0)"
    "m_usedRdmaMem ?m1 40 = Some (rdma_mem 60 False 40)"
    by (simp_all add: internalAlloc_def)
  have fits: "sum_fits ?m1" by (simp add: sum_fits_def l1)
  have inv: "mem_inv ?m" by (cases rule: internalFree_cases [OF i1 fits u1(1)]) simp_all
  have l: "m_rdmaMem ?m = [(rdma_mem 40 False 0)\<lparr>rm_free := True\<rparr>]"
    and u: "m_usedRdmaMem ?m 40 = Some (rdma_mem 60 False 40)"
    by (simp_all add: internalFree_def l1 u1 Let_def)
  from internalFree_leaks [OF inv u] l obtain m' where "internalFree 40 ?m = (False, m')"
    "rm_region (rdma_mem 60 False 40) \<inter> (free_bytes m' \<union> used_bytes m') = {}" by auto
  with inv u show ?thesis by (intro exI [of _ ?m] exI [of _ m']) (simp add: rm_region_def)
qed

text \<open>
  Allocating from the first free region and releasing the result at once restores the
  manager exactly: the rest that allocation split off is merged back.
\<close>

lemma alloc_free_roundtrip:
  assumes "mem_inv m" and "m_rdmaMem m = x # ys" and "0 < n" and "n < rm_size x"
    and "internalAlloc n m = (r, m')"
  shows "internalFree (rm_offset r) m' = (True, m)"
  by (rule internalFree_undoes [OF assms])

lemma alloc_free_roundtrip_instance:
  "internalFree 0 (snd (internalAlloc 40 small_manager)) = (True, small_manager)"
proof -
  have a: "internalAlloc 40 small_manager = (rdma_mem 40 False 0, snd (internalAlloc 40 small_manager))"
    by (simp add: internalAlloc_def)
  show ?thesis using alloc_free_roundtrip [OF small_manager_inv small_manager_sel(1) _ _ a] by simp
qed

end
