(* ===== verification/RDMA_RC.thy ===== *)
theory RDMA_RC
  imports Verbs Mem_Allocator
begin

text \<open>
  \<open>RDMAManagerRC\<close>: reliable connections. Setting up and connecting queue pairs, the one-sided and
  two-sided operations as the work requests they post, polling, and memory management on the allocator
  of the base class. The multicast operations are not supported and only report failure.
\<close>

section \<open>Memory\<close>

definition rc_remoteAlloc :: "nat \<Rightarrow> rdma_manager \<Rightarrow> rdma_mem_t \<times> rdma_manager" where
  "rc_remoteAlloc sz m = internalAlloc sz m"

text \<open>A pointer into the registered buffer, or null; \<open>res_buffer\<close> is set by the constructor.\<close>

definition buffer_base :: "'m rdma_manager_scheme \<Rightarrow> nat" where
  "buffer_base m = (case res_buffer (m_res m) of Some b \<Rightarrow> b | None \<Rightarrow> 0)"

definition rc_localAlloc :: "nat \<Rightarrow> rdma_manager \<Rightarrow> nat option \<times> rdma_manager" where
  "rc_localAlloc sz m =
     (let (memRes, m') = internalAlloc sz m in
      (if \<not> rm_isnull memRes then Some (buffer_base m + rm_offset memRes) else None, m'))"

definition rc_remoteFree :: "nat \<Rightarrow> rdma_manager \<Rightarrow> bool \<times> rdma_manager" where
  "rc_remoteFree off m = internalFree off m"

definition rc_localFree_offset :: "nat \<Rightarrow> rdma_manager \<Rightarrow> bool \<times> rdma_manager" where
  "rc_localFree_offset off m = internalFree off m"

definition rc_localFree :: "nat \<Rightarrow> rdma_manager \<Rightarrow> bool \<times> rdma_manager" where
  "rc_localFree ptr m = internalFree (sub64 ptr (buffer_base m)) m"

section \<open>Queue pairs\<close>

definition rc_createQP ::
  "('d, 'v) verbs_scheme \<Rightarrow> 'c rdma_config_scheme \<Rightarrow> rdma_manager \<Rightarrow> ib_qp_t \<Rightarrow> 'd world \<Rightarrow> bool \<times> ib_qp_t \<times> 'd world" where
  "rc_createQP V cfg m q w =
     (case ibv_exp_query_device V (res_ib_ctx (m_res m)) w of (e, w) \<Rightarrow>
      if e \<noteq> 0 then (False, q, w)
      else
        let attr = \<lparr>ia_send_cq = send_cq q, ia_recv_cq = recv_cq q, ia_qp_type = m_qpType m,
              ia_max_wr = cfg_RDMA_MAX_WR cfg, ia_max_sge = cfg_RDMA_MAX_SGE cfg, ia_max_atomic_arg = 32\<rparr>
        in case ibv_create_qp V (res_pd (m_res m)) attr w of (p, w) \<Rightarrow> (p \<noteq> None, q\<lparr>qp := p\<rparr>, w))"

definition rc_modifyQPToInit ::
  "('d, 'v) verbs_scheme \<Rightarrow> rdma_manager \<Rightarrow> ibv_qp \<Rightarrow> 'd world \<Rightarrow> bool \<times> 'd world" where
  "rc_modifyQPToInit V m p w =
     (let attr = (qp_attr_zero IBV_QPS_INIT)\<lparr>at_port_num := m_ibPort m, at_access_all := True\<rparr>
      in case ibv_modify_qp V p attr [IBV_QP_STATE, IBV_QP_PKEY_INDEX, IBV_QP_PORT, IBV_QP_ACCESS_FLAGS] w
         of (e, w) \<Rightarrow> (\<not> 0 < e, w))"

text \<open>The enumerator \<open>IBV_MTU_4096\<close> of \<open>enum ibv_mtu\<close>.\<close>

abbreviation (input) IBV_MTU_4096 :: nat where
  "IBV_MTU_4096 \<equiv> 5"

definition rc_modifyQPToRTR ::
  "('d, 'v) verbs_scheme \<Rightarrow> rdma_manager \<Rightarrow> ibv_qp \<Rightarrow> nat \<Rightarrow> nat \<Rightarrow> nat list \<Rightarrow> 'd world \<Rightarrow> bool \<times> 'd world" where
  "rc_modifyQPToRTR V m p remote_qpn dlid dgid w =
     (let ah = ah_zero\<lparr>ah_dlid := dlid, ah_port_num := m_ibPort m\<rparr>;
          ah = (if m_gidIdx m \<noteq> -1
                then ah\<lparr>ah_is_global := 1, ah_port_num := 1, ah_dgid := dgid, ah_hop_limit := 1,
                       ah_sgid_index := m_gidIdx m\<rparr>
                else ah);
          attr = (qp_attr_zero IBV_QPS_RTR)\<lparr>at_path_mtu := IBV_MTU_4096, at_dest_qp_num := u32 remote_qpn,
             at_max_dest_rd_atomic := 16, at_min_rnr_timer := 18, at_ah_attr := ah\<rparr>
      in case ibv_modify_qp V p attr
           [IBV_QP_STATE, IBV_QP_AV, IBV_QP_PATH_MTU, IBV_QP_DEST_QPN, IBV_QP_RQ_PSN,
            IBV_QP_MAX_DEST_RD_ATOMIC, IBV_QP_MIN_RNR_TIMER] w
         of (e, w) \<Rightarrow> (\<not> 0 < e, w))"

definition rc_modifyQPToRTS :: "('d, 'v) verbs_scheme \<Rightarrow> ibv_qp \<Rightarrow> 'd world \<Rightarrow> bool \<times> 'd world" where
  "rc_modifyQPToRTS V p w =
     (let attr = (qp_attr_zero IBV_QPS_RTS)\<lparr>at_timeout := 18, at_retry_cnt := 6, at_max_rd_atomic := 16\<rparr>
      in case ibv_modify_qp V p attr
           [IBV_QP_STATE, IBV_QP_TIMEOUT, IBV_QP_RETRY_CNT, IBV_QP_RNR_RETRY, IBV_QP_SQ_PSN,
            IBV_QP_MAX_QP_RD_ATOMIC] w
         of (e, w) \<Rightarrow> (\<not> 0 < e, w))"

text \<open>
  \<open>initQP\<close> returns the new address in its reference argument, here beside the truth value. The local
  connection data starts from an uninitialised struct: \<open>psn\<close> and \<open>ah\<close> are never set for RC.
\<close>

definition rc_initQP ::
  "('d, 'v) verbs_scheme \<Rightarrow> 'c rdma_config_scheme \<Rightarrow> ib_addr_t \<Rightarrow> bool \<Rightarrow> rdma_manager \<Rightarrow> 'd world \<Rightarrow>
   (bool \<times> ib_addr_t \<times> rdma_manager \<times> 'd world) result" where
  "rc_initQP V cfg retIbAddr isMgmtQP m w =
     (case createCQ V cfg m ib_qp_init w of (ok, q, w) \<Rightarrow>
      if \<not> ok then Inr (False, retIbAddr, m, w)
      else case rc_createQP V cfg m q w of (ok, q, w) \<Rightarrow>
      if \<not> ok then Inr (False, retIbAddr, m, w)
      else let (connKey, m) = nextConnKey m; retIbAddr = retIbAddr\<lparr>conn_key := connKey\<rparr> in
      case (res_mr (m_res m), qp q) of
        (Some mr, Some p) \<Rightarrow>
          let localConn = (uninit_conn V)\<lparr>conn_buffer := buffer_base m, conn_rkey := mr_rkey mr,
                conn_qp_num := qp_qp_num p, conn_lid := res_lid (m_res m), conn_gid := replicate 16 0\<rparr>
          in case rc_modifyQPToInit V m p w of (ok, w) \<Rightarrow>
             if \<not> ok then Inr (False, retIbAddr, m, w)
             else bindR (setQP retIbAddr q m) (\<lambda>m.
               Inr (True, retIbAddr, setLocalConnData retIbAddr localConn m, w))
      | _ \<Rightarrow> Inl NullDeref)"

definition rc_connectQP ::
  "('d, 'v) verbs_scheme \<Rightarrow> ib_addr_t \<Rightarrow> rdma_manager \<Rightarrow> 'd world \<Rightarrow> (bool \<times> rdma_manager \<times> 'd world) result" where
  "rc_connectQP V ibAddr m w =
     (let connKey = conn_key ibAddr in
      if m_connected m connKey \<noteq> None then Inr (True, m, w)
      else bindR (index_op (m_qps m) connKey) (\<lambda>q.
           bindR (index_op (m_rconns m) connKey) (\<lambda>remoteConn.
           case qp q of None \<Rightarrow> Inl NullDeref
           | Some p \<Rightarrow>
             (case rc_modifyQPToRTR V m p (conn_qp_num remoteConn) (conn_lid remoteConn) (conn_gid remoteConn) w
              of (ok, w) \<Rightarrow>
              if \<not> ok then Inr (False, m, w)
              else case rc_modifyQPToRTS V p w of (ok, w) \<Rightarrow>
              if \<not> ok then Inr (False, m, w)
              else Inr (True, m\<lparr>m_connected := (m_connected m)(connKey \<mapsto> True)\<rparr>, w)))))"

text \<open>\<open>destroyQPs\<close> goes on after an error, which it only logs.\<close>

fun rc_destroyQPs_loop :: "('d, 'v) verbs_scheme \<Rightarrow> ib_qp_t list \<Rightarrow> 'd world \<Rightarrow> 'd world" where
  "rc_destroyQPs_loop V [] w = w"
| "rc_destroyQPs_loop V (q # qs) w =
     rc_destroyQPs_loop V qs
       (case qp q of None \<Rightarrow> w
        | Some p \<Rightarrow> snd (destroyCQ V (send_cq q) (recv_cq q) (snd (ibv_destroy_qp V p w))))"

definition rc_destroyQPs :: "('d, 'v) verbs_scheme \<Rightarrow> rdma_manager \<Rightarrow> 'd world \<Rightarrow> rdma_manager \<times> 'd world" where
  "rc_destroyQPs V m w = (m, rc_destroyQPs_loop V (m_qps m) w)"

section \<open>One-sided operations\<close>

text \<open>The memory region's key is read through a pointer that \<open>createBuffer\<close> has set.\<close>

definition local_key :: "'m rdma_manager_scheme \<Rightarrow> nat result" where
  "local_key m = (case res_mr (m_res m) of None \<Rightarrow> Inl NullDeref | Some mr \<Rightarrow> Inr (mr_lkey mr))"

definition rc_remoteAccess ::
  "('d, 'v) verbs_scheme \<Rightarrow> ib_addr_t \<Rightarrow> nat \<Rightarrow> nat \<Rightarrow> nat \<Rightarrow> bool \<Rightarrow> bool \<Rightarrow> ibv_wr_opcode \<Rightarrow> rdma_manager \<Rightarrow> 'd world \<Rightarrow>
   (bool \<times> 'd world) result" where
  "rc_remoteAccess V ibAddr offset memAddr sz signaled wait verb m w =
     bindR (index_op (m_qps m) (conn_key ibAddr)) (\<lambda>localQP.
     bindR (index_op (m_rconns m) (conn_key ibAddr)) (\<lambda>remoteConn.
     bindR (local_key m) (\<lambda>lkey.
       let sr = (sge_wr verb signaled memAddr sz lkey)\<lparr>wr_remote_addr := add64 (conn_buffer remoteConn) offset,
              wr_rkey := conn_rkey remoteConn\<rparr>
       in post_and_wait V localQP sr (signaled \<and> wait) w)))"

definition rc_remoteWrite where
  "rc_remoteWrite V ibAddr offset memAddr sz signaled m w =
     rc_remoteAccess V ibAddr offset memAddr sz signaled True IBV_WR_RDMA_WRITE m w"

definition rc_remoteRead where
  "rc_remoteRead V ibAddr offset memAddr sz signaled m w =
     rc_remoteAccess V ibAddr offset memAddr sz signaled True IBV_WR_RDMA_READ m w"

definition rc_requestRead where
  "rc_requestRead V ibAddr offset memAddr sz m w =
     rc_remoteAccess V ibAddr offset memAddr sz True False IBV_WR_RDMA_READ m w"

text \<open>The atomic operations; the first fetch-and-add adds one.\<close>

definition rc_remoteFetchAndAdd_value ::
  "('d, 'v) verbs_scheme \<Rightarrow> ib_addr_t \<Rightarrow> nat \<Rightarrow> nat \<Rightarrow> nat \<Rightarrow> nat \<Rightarrow> bool \<Rightarrow> rdma_manager \<Rightarrow> 'd world \<Rightarrow>
   (bool \<times> 'd world) result" where
  "rc_remoteFetchAndAdd_value V ibAddr offset memAddr value_to_add sz signaled m w =
     bindR (index_op (m_qps m) (conn_key ibAddr)) (\<lambda>localQP.
     bindR (index_op (m_rconns m) (conn_key ibAddr)) (\<lambda>remoteConn.
     bindR (local_key m) (\<lambda>lkey.
       let sr = (sge_wr IBV_WR_ATOMIC_FETCH_AND_ADD signaled memAddr sz lkey)
              \<lparr>wr_remote_addr := add64 (conn_buffer remoteConn) offset, wr_rkey := conn_rkey remoteConn,
               wr_compare_add := value_to_add\<rparr>
       in post_and_wait V localQP sr signaled w)))"

definition rc_remoteFetchAndAdd ::
  "('d, 'v) verbs_scheme \<Rightarrow> ib_addr_t \<Rightarrow> nat \<Rightarrow> nat \<Rightarrow> nat \<Rightarrow> bool \<Rightarrow> rdma_manager \<Rightarrow> 'd world \<Rightarrow> (bool \<times> 'd world) result" where
  "rc_remoteFetchAndAdd V ibAddr offset memAddr sz signaled m w =
     bindR (index_op (m_qps m) (conn_key ibAddr)) (\<lambda>localQP.
     bindR (index_op (m_rconns m) (conn_key ibAddr)) (\<lambda>remoteConn.
     bindR (local_key m) (\<lambda>lkey.
       let sr = (sge_wr IBV_WR_ATOMIC_FETCH_AND_ADD signaled memAddr sz lkey)
              \<lparr>wr_remote_addr := add64 (conn_buffer remoteConn) offset, wr_rkey := conn_rkey remoteConn,
               wr_compare_add := 1\<rparr>
       in post_and_wait V localQP sr signaled w)))"

definition rc_remoteCompareAndSwap ::
  "('d, 'v) verbs_scheme \<Rightarrow> ib_addr_t \<Rightarrow> nat \<Rightarrow> nat \<Rightarrow> int \<Rightarrow> int \<Rightarrow> nat \<Rightarrow> bool \<Rightarrow> rdma_manager \<Rightarrow> 'd world \<Rightarrow>
   (bool \<times> 'd world) result" where
  "rc_remoteCompareAndSwap V ibAddr offset memAddr toCompare toSwap sz signaled m w =
     bindR (index_op (m_qps m) (conn_key ibAddr)) (\<lambda>localQP.
     bindR (index_op (m_rconns m) (conn_key ibAddr)) (\<lambda>remoteConn.
     bindR (local_key m) (\<lambda>lkey.
       let sr = (sge_wr IBV_WR_ATOMIC_CMP_AND_SWP signaled memAddr sz lkey)
              \<lparr>wr_remote_addr := add64 (conn_buffer remoteConn) offset, wr_rkey := conn_rkey remoteConn,
               wr_compare_add := u64_of_int toCompare, wr_swap := u64_of_int toSwap\<rparr>
       in case qp localQP of None \<Rightarrow> Inl NullDeref
          | Some p \<Rightarrow> post_and_wait V (localQP\<lparr>send_cq := qp_send_cq p\<rparr>) sr signaled w)))"

section \<open>Two-sided operations\<close>

definition rc_send ::
  "('d, 'v) verbs_scheme \<Rightarrow> ib_addr_t \<Rightarrow> nat \<Rightarrow> nat \<Rightarrow> bool \<Rightarrow> rdma_manager \<Rightarrow> 'd world \<Rightarrow> (bool \<times> 'd world) result" where
  "rc_send V ibAddr memAddr sz signaled m w =
     bindR (index_op (m_qps m) (conn_key ibAddr)) (\<lambda>localQP.
     bindR (local_key m) (\<lambda>lkey.
       post_and_wait V localQP (sge_wr IBV_WR_SEND signaled memAddr sz lkey) signaled w))"

definition rc_receive ::
  "('d, 'v) verbs_scheme \<Rightarrow> ib_addr_t \<Rightarrow> nat \<Rightarrow> nat \<Rightarrow> rdma_manager \<Rightarrow> 'd world \<Rightarrow> (bool \<times> 'd world) result" where
  "rc_receive V ibAddr memAddr sz m w =
     bindR (index_op (m_qps m) (conn_key ibAddr)) (\<lambda>localQP.
     bindR (local_key m) (\<lambda>lkey.
       case qp localQP of None \<Rightarrow> Inl NullDeref
       | Some p \<Rightarrow>
           (case ibv_post_recv V p \<lparr>rwr_addr = memAddr, rwr_length = u32 sz, rwr_lkey = lkey\<rparr> w of
              (e, w) \<Rightarrow> Inr (e = 0, w))))"

definition rc_pollReceive ::
  "('d, 'v) verbs_scheme \<Rightarrow> ib_addr_t \<Rightarrow> bool \<Rightarrow> rdma_manager \<Rightarrow> 'd world \<Rightarrow> (bool \<times> 'd world) result" where
  "rc_pollReceive V ibAddr doPoll m w =
     bindR (index_op (m_qps m) (conn_key ibAddr)) (\<lambda>localQP. poll_cq V (recv_cq localQP) doPoll w)"

definition rc_pollSend ::
  "('d, 'v) verbs_scheme \<Rightarrow> ib_addr_t \<Rightarrow> bool \<Rightarrow> rdma_manager \<Rightarrow> 'd world \<Rightarrow> (bool \<times> 'd world) result" where
  "rc_pollSend V ibAddr doPoll m w =
     bindR (index_op (m_qps m) (conn_key ibAddr)) (\<lambda>localQP. poll_cq V (send_cq localQP) doPoll w)"

section \<open>Multicast\<close>

definition rc_joinMCastGroup :: "string \<Rightarrow> ib_addr_t \<Rightarrow> bool \<times> ib_addr_t" where
  "rc_joinMCastGroup mCastAddress retIbAddr = (False, retIbAddr)"

definition rc_leaveMCastGroup :: "ib_addr_t \<Rightarrow> bool" where
  "rc_leaveMCastGroup ibAddr = False"

definition rc_sendMCast :: "ib_addr_t \<Rightarrow> nat \<Rightarrow> nat \<Rightarrow> bool \<Rightarrow> bool" where
  "rc_sendMCast ibAddr memAddr sz signaled = False"

definition rc_receiveMCast :: "ib_addr_t \<Rightarrow> nat \<Rightarrow> nat \<Rightarrow> bool" where
  "rc_receiveMCast ibAddr memAddr sz = False"

definition rc_pollReceiveMCast :: "ib_addr_t \<Rightarrow> bool" where
  "rc_pollReceiveMCast ibAddr = False"

section \<open>Properties\<close>

text \<open>
  A successful \<open>initQP\<close> opens a connection under a key no other connection has: the key is the
  next one, the queue pair and completion queues obtained from the device and the connection data for the
  peer (the buffer's address and key, the port's identifier, the queue pair's number) are stored under it,
  and whatever was stored under other keys stays.
\<close>

lemma rc_initQP_opens:
  assumes "rc_initQP V cfg a isMgmtQP m w = Inr (True, a', m', w')"
    and "length (m_qps m) \<le> m_lastConnKey m" and "length (m_lconns m) \<le> m_lastConnKey m"
    and "m_lastConnKey m + 1 < 2 ^ 64"
  shows "conn_key a' = m_lastConnKey m \<and> m_lastConnKey m' = m_lastConnKey m + 1 \<and>
    length (m_qps m') \<le> m_lastConnKey m' \<and> length (m_lconns m') \<le> m_lastConnKey m' \<and>
    (\<exists>p mr. qp (m_qps m' ! conn_key a') = Some p \<and> res_mr (m_res m) = Some mr \<and>
       m_qpNum2connKey m' = (m_qpNum2connKey m)(qp_qp_num p \<mapsto> conn_key a') \<and>
       conn_buffer (m_lconns m' ! conn_key a') = buffer_base m \<and> conn_rkey (m_lconns m' ! conn_key a') = mr_rkey mr \<and>
       conn_lid (m_lconns m' ! conn_key a') = res_lid (m_res m) \<and> conn_qp_num (m_lconns m' ! conn_key a') = qp_qp_num p) \<and>
    (\<forall>k < length (m_qps m). m_qps m' ! k = m_qps m ! k) \<and> (\<forall>k < length (m_lconns m). m_lconns m' ! k = m_lconns m ! k) \<and>
    m_rconns m' = m_rconns m \<and> m_connected m' = m_connected m \<and> m_rdmaMem m' = m_rdmaMem m \<and> m_usedRdmaMem m' = m_usedRdmaMem m"
proof -
  obtain q w1 ok1 where c: "createCQ V cfg m ib_qp_init w = (ok1, q, w1)" by (metis prod_cases3)
  obtain q2 w2 ok2 where d: "rc_createQP V cfg m q w1 = (ok2, q2, w2)" by (metis prod_cases3)
  from assms(1) have ok: "ok1" "ok2" by (auto simp: rc_initQP_def c d split: if_splits)
  obtain mr p where mr: "res_mr (m_res m) = Some mr" "qp q2 = Some p"
    using assms(1) ok by (auto simp: rc_initQP_def c d nextConnKey_def Let_def split: option.splits)
  have add: "add64 (m_lastConnKey m) (Suc 0) = Suc (m_lastConnKey m)" using assms(4) by (simp add: add64_small)
  obtain ok3 w3 where e: "rc_modifyQPToInit V (m\<lparr>m_lastConnKey := Suc (m_lastConnKey m)\<rparr>) p w2 = (ok3, w3)" by force
  have ok3 using assms(1) ok mr by (auto simp: rc_initQP_def c d e add nextConnKey_def Let_def split: if_splits)
  show ?thesis
    using assms(1-3) ok mr \<open>ok3\<close>
    by (auto simp: rc_initQP_def c d e nextConnKey_def setQP_def setLocalConnData_def add buffer_base_def Let_def
        resize_put_nth_other)
qed

text \<open>
  \<open>connectQP\<close> takes an initialised queue pair through ready-to-receive to ready-to-send, each step
  only after the one before has succeeded, and records the connection exactly when both have; connecting a
  second time is successful and asks nothing of the device.
\<close>

lemma rc_connectQP_steps:
  assumes "conn_key a < length (m_qps m)" and "conn_key a < length (m_rconns m)" and "qp (m_qps m ! conn_key a) = Some p"
    and "m_connected m (conn_key a) = None"
    and "rc_modifyQPToRTR V m p (conn_qp_num (m_rconns m ! conn_key a)) (conn_lid (m_rconns m ! conn_key a))
      (conn_gid (m_rconns m ! conn_key a)) w = (rtr, w1)"
    and "rc_modifyQPToRTS V p w1 = (rts, w2)"
  shows "\<exists>m'. rc_connectQP V a m w = Inr (rtr \<and> rts, m', if rtr then w2 else w1) \<and>
    m_connected m' = (if rtr \<and> rts then (m_connected m)(conn_key a \<mapsto> True) else m_connected m) \<and>
    m'\<lparr>m_connected := m_connected m\<rparr> = m \<and>
    (if rtr \<and> rts then rc_connectQP V a m' w' = Inr (True, m', w') else m' = m)"
  using assms by (auto simp: rc_connectQP_def Let_def)

text \<open>A device that accepts every call but hands out one queue pair.\<close>

definition ready_verbs :: "nat verbs" where
  "ready_verbs =
     \<lparr>ibv_post_send = (\<lambda>_ _ w. (0, w)), ibv_post_recv = (\<lambda>_ _ w. (0, w)), ibv_poll_cq = (\<lambda>_ w. ((1, 0), w)),
      ibv_create_cq = (\<lambda>_ _ w. (Some 3, w)), ibv_destroy_cq = (\<lambda>_ w. (0, w)),
      ibv_create_qp = (\<lambda>_ _ w. (Some \<lparr>qp_handle = 1, qp_qp_num = 17, qp_send_cq = 3\<rparr>, w)),
      ibv_destroy_qp = (\<lambda>_ w. (0, w)), ibv_modify_qp = (\<lambda>_ _ _ w. (0, w\<lparr>dev := Suc (dev w)\<rparr>)),
      ibv_exp_query_device = (\<lambda>_ w. (0, w)),
      ibv_create_ah = (\<lambda>_ _ w. (Some 1, w)), ibv_get_device_list = (\<lambda>w. (None, w)),
      ibv_open_device = (\<lambda>_ w. (Some 1, w)), ibv_query_port = (\<lambda>_ _ w. ((0, 7), w)),
      numa_alloc_onnode = (\<lambda>_ _ w. (Some 4096, w)), numa_free = (\<lambda>_ _ w. w), ibv_alloc_pd = (\<lambda>_ w. (Some 1, w)),
      ibv_dealloc_pd = (\<lambda>_ w. w), ibv_reg_mr = (\<lambda>_ _ _ w. (Some \<lparr>mr_lkey = 1, mr_rkey = 2\<rparr>, w)), ibv_dereg_mr = (\<lambda>_ w. w),
      ibv_close_device = (\<lambda>_ w. w), lrand48 = (\<lambda>w. (0, w)), uninit_conn = ib_conn_zero\<rparr>"

definition idle_world :: "nat world" where
  "idle_world = \<lparr>lmem = (\<lambda>_. 0), dev = 0\<rparr>"

definition rc_config :: rdma_config where
  "rc_config = \<lparr>cfg_RDMA_MEMSIZE = 100, cfg_RDMA_NUMAREGION = 1, cfg_RDMA_DEVICE = 1, cfg_RDMA_IBPORT = 1,
     cfg_RDMA_MAX_WR = 4, cfg_RDMA_MAX_SGE = 1, cfg_RDMA_UD_OFFSET = 40\<rparr>"

definition open_result :: "(bool \<times> ib_addr_t \<times> rdma_manager \<times> nat world) result" where
  "open_result = rc_initQP ready_verbs rc_config ib_addr_init False small_manager idle_world"

lemma open_result_ok:
  "\<exists>m' w'. open_result = Inr (True, \<lparr>conn_key = 0\<rparr>, m', w') \<and> w' = idle_world\<lparr>dev := 1\<rparr> \<and> m_connected m' = Map.empty \<and>
     m_rconns m' = []"
  by (simp add: open_result_def rc_initQP_def createCQ_def rc_createQP_def rc_modifyQPToInit_def nextConnKey_def setQP_def
      setLocalConnData_def ready_verbs_def idle_world_def small_manager_def rdma_manager_init_def ib_addr_init_def Let_def)

lemma small_manager_conns [simp]:
  "m_qps small_manager = []" "m_lconns small_manager = []" "m_lastConnKey small_manager = 0"
  by (simp_all add: small_manager_def rdma_manager_init_def)

lemma rc_initQP_opens_instance:
  "\<exists>m' w' p. rc_initQP ready_verbs rc_config ib_addr_init False small_manager idle_world = Inr (True, \<lparr>conn_key = 0\<rparr>, m', w') \<and>
     m_lastConnKey m' = 1 \<and> qp (m_qps m' ! 0) = Some p \<and> m_qpNum2connKey m' (qp_qp_num p) = Some 0"
proof -
  obtain m' w' where r: "rc_initQP ready_verbs rc_config ib_addr_init False small_manager idle_world = Inr (True, \<lparr>conn_key = 0\<rparr>, m', w')"
    using open_result_ok by (auto simp: open_result_def)
  from rc_initQP_opens [OF r] have "m_lastConnKey m' = 1 \<and> (\<exists>p. qp (m_qps m' ! 0) = Some p \<and> m_qpNum2connKey m' (qp_qp_num p) = Some 0)"
    by auto
  with r show ?thesis by blast
qed

definition half_open :: rdma_manager where
  "half_open = small_manager\<lparr>m_qps := [\<lparr>qp = Some \<lparr>qp_handle = 1, qp_qp_num = 17, qp_send_cq = 3\<rparr>, send_cq = 3, recv_cq = 3\<rparr>],
     m_rconns := [ib_conn_zero]\<rparr>"

lemma rc_connectQP_steps_instance:
  "\<exists>m'. rc_connectQP ready_verbs \<lparr>conn_key = 0\<rparr> half_open idle_world = Inr (True, m', idle_world\<lparr>dev := 2\<rparr>) \<and>
     m_connected m' 0 = Some True \<and> rc_connectQP ready_verbs \<lparr>conn_key = 0\<rparr> m' idle_world = Inr (True, m', idle_world)"
proof -
  let ?p = "\<lparr>qp_handle = 1, qp_qp_num = 17, qp_send_cq = 3\<rparr> :: ibv_qp"
  have "rc_modifyQPToRTR ready_verbs half_open ?p (conn_qp_num ib_conn_zero) (conn_lid ib_conn_zero) (conn_gid ib_conn_zero) idle_world =
      (True, idle_world\<lparr>dev := 1\<rparr>)" "rc_modifyQPToRTS ready_verbs ?p (idle_world\<lparr>dev := 1\<rparr>) = (True, idle_world\<lparr>dev := 2\<rparr>)"
    by (simp_all add: rc_modifyQPToRTR_def rc_modifyQPToRTS_def ready_verbs_def idle_world_def Let_def)
  moreover have "m_connected half_open 0 = None"
    by (simp add: half_open_def small_manager_def rdma_manager_init_def)
  ultimately show ?thesis
    using rc_connectQP_steps [of "\<lparr>conn_key = 0\<rparr>" half_open ?p ready_verbs idle_world True "idle_world\<lparr>dev := 1\<rparr>" True
        "idle_world\<lparr>dev := 2\<rparr>" idle_world]
    by (auto simp: half_open_def)
qed

end
