(* ===== verification/RDMA_UD.thy ===== *)
theory RDMA_UD
  imports RDMA_RC
begin

text \<open>
  \<open>RDMAManagerUD\<close>: unreliable datagrams. All connections share one data queue pair and one management
  queue pair; every local allocation reserves 40 bytes in front of the data for the global routing
  header; the one-sided operations and remote memory are not supported; multicast goes through
  \<open>librdmacm\<close>, whose calls extend the record of external calls.
\<close>

section \<open>Data\<close>

text \<open>\<open>rdma_cm_id\<close> as the code reads it: the device context and the queue pair.\<close>

record rdma_mcast_conn_t =
  mc_addr :: string
  mc_sockaddr :: nat
  mc_id :: "nat option"
  mc_qp :: "ibv_qp option"
  mc_channel :: nat
  mc_scq :: "nat option"
  mc_rcq :: "nat option"
  mc_ah :: "nat option"
  mc_pd :: "nat option"
  mc_mr :: "ibv_mr option"
  mc_remote_qpn :: nat
  mc_remote_qkey :: nat

record rdma_manager_ud = rdma_manager +
  m_udqp :: ib_qp_t
  m_udqpConn :: ib_conn_t
  m_udqpMgmt :: ib_qp_t
  m_udqpMgmtConn :: ib_conn_t
  m_lastMCastConnKey :: nat
  m_udpMcastConns :: "rdma_mcast_conn_t list"

definition mcast_conn_zero :: rdma_mcast_conn_t where
  "mcast_conn_zero = \<lparr>mc_addr = [], mc_sockaddr = 0, mc_id = None, mc_qp = None, mc_channel = 0,
     mc_scq = None, mc_rcq = None, mc_ah = None, mc_pd = None, mc_mr = None, mc_remote_qpn = 0,
     mc_remote_qkey = 0\<rparr>"

datatype cm_event_type = RDMA_CM_EVENT_ADDR_RESOLVED | RDMA_CM_EVENT_MULTICAST_JOIN | RDMA_CM_EVENT_OTHER

record cm_event =
  ev_event :: cm_event_type
  ev_qp_num :: nat
  ev_qkey :: nat
  ev_ah_attr :: ah_attr

record 'd verbs_cm = "'d verbs" +
  rdma_create_event_channel :: "'d world \<Rightarrow> nat option \<times> 'd world"
  rdma_create_id :: "nat \<Rightarrow> 'd world \<Rightarrow> (int \<times> nat) \<times> 'd world"
  rdma_getaddrinfo :: "string \<Rightarrow> 'd world \<Rightarrow> (int \<times> nat) \<times> 'd world"
  rdma_resolve_addr :: "nat \<Rightarrow> nat \<Rightarrow> 'd world \<Rightarrow> int \<times> 'd world"
  rdma_get_cm_event :: "nat \<Rightarrow> 'd world \<Rightarrow> (int \<times> cm_event) \<times> 'd world"
  rdma_ack_cm_event :: "cm_event \<Rightarrow> 'd world \<Rightarrow> 'd world"
  cm_id_verbs :: "nat \<Rightarrow> nat option"
  rdma_create_qp :: "nat \<Rightarrow> nat option \<Rightarrow> qp_init_attr \<Rightarrow> 'd world \<Rightarrow> (int \<times> ibv_qp) \<times> 'd world"
  rdma_join_multicast :: "nat \<Rightarrow> nat \<Rightarrow> 'd world \<Rightarrow> int \<times> 'd world"
  rdma_leave_multicast :: "nat option \<Rightarrow> nat \<Rightarrow> 'd world \<Rightarrow> int \<times> 'd world"
  ibv_destroy_ah :: "nat \<Rightarrow> 'd world \<Rightarrow> 'd world"
  rdma_destroy_qp :: "nat \<Rightarrow> 'd world \<Rightarrow> 'd world"
  rdma_destroy_id :: "nat \<Rightarrow> 'd world \<Rightarrow> 'd world"
  rdma_post_recv :: "nat option \<Rightarrow> nat \<Rightarrow> nat \<Rightarrow> ibv_mr option \<Rightarrow> 'd world \<Rightarrow> int \<times> 'd world"
  uninit_mcast :: rdma_mcast_conn_t

section \<open>Memory\<close>

definition ud_remoteAlloc :: "nat \<Rightarrow> rdma_manager_ud \<Rightarrow> rdma_mem_t \<times> rdma_manager_ud" where
  "ud_remoteAlloc sz m = (rdma_mem_null, m)"

definition ud_localAlloc :: "'c rdma_config_scheme \<Rightarrow> nat \<Rightarrow> rdma_manager_ud \<Rightarrow> nat option \<times> rdma_manager_ud" where
  "ud_localAlloc cfg sz m =
     (let (memRes, m') = internalAlloc (add64 sz (cfg_RDMA_UD_OFFSET cfg)) m in
      (if \<not> rm_isnull memRes then Some (buffer_base m + rm_offset memRes + cfg_RDMA_UD_OFFSET cfg) else None, m'))"

definition ud_remoteFree :: "nat \<Rightarrow> rdma_manager_ud \<Rightarrow> bool \<times> rdma_manager_ud" where
  "ud_remoteFree off m = (False, m)"

definition ud_localFree_offset :: "nat \<Rightarrow> rdma_manager_ud \<Rightarrow> bool \<times> rdma_manager_ud" where
  "ud_localFree_offset off m = internalFree off m"

definition ud_localFree :: "'c rdma_config_scheme \<Rightarrow> nat \<Rightarrow> rdma_manager_ud \<Rightarrow> bool \<times> rdma_manager_ud" where
  "ud_localFree cfg ptr m = internalFree (sub64 (sub64 ptr (buffer_base m)) (cfg_RDMA_UD_OFFSET cfg)) m"

section \<open>Queue pairs\<close>

definition ud_createQP ::
  "('d, 'v) verbs_scheme \<Rightarrow> 'c rdma_config_scheme \<Rightarrow> rdma_manager_ud \<Rightarrow> ib_qp_t \<Rightarrow> 'd world \<Rightarrow> bool \<times> ib_qp_t \<times> 'd world" where
  "ud_createQP V cfg m q w =
     (let attr = \<lparr>ia_send_cq = send_cq q, ia_recv_cq = recv_cq q, ia_qp_type = m_qpType m,
            ia_max_wr = cfg_RDMA_MAX_WR cfg, ia_max_sge = cfg_RDMA_MAX_SGE cfg, ia_max_atomic_arg = 0\<rparr>
      in case ibv_create_qp V (res_pd (m_res m)) attr w of (p, w) \<Rightarrow> (p \<noteq> None, q\<lparr>qp := p\<rparr>, w))"

definition ud_modifyQPToInit ::
  "('d, 'v) verbs_scheme \<Rightarrow> rdma_manager_ud \<Rightarrow> ibv_qp \<Rightarrow> 'd world \<Rightarrow> bool \<times> 'd world" where
  "ud_modifyQPToInit V m p w =
     (let attr = (qp_attr_zero IBV_QPS_INIT)\<lparr>at_port_num := m_ibPort m, at_qkey := 0x11111111\<rparr>
      in case ibv_modify_qp V p attr [IBV_QP_STATE, IBV_QP_PKEY_INDEX, IBV_QP_PORT, IBV_QP_QKEY] w
         of (e, w) \<Rightarrow> (\<not> 0 < e, w))"

definition ud_modifyQPToRTR :: "('d, 'v) verbs_scheme \<Rightarrow> ibv_qp \<Rightarrow> 'd world \<Rightarrow> bool \<times> 'd world" where
  "ud_modifyQPToRTR V p w =
     (case ibv_modify_qp V p (qp_attr_zero IBV_QPS_RTR) [IBV_QP_STATE] w of (e, w) \<Rightarrow> (\<not> 0 < e, w))"

definition ud_modifyQPToRTS :: "('d, 'v) verbs_scheme \<Rightarrow> ibv_qp \<Rightarrow> nat \<Rightarrow> 'd world \<Rightarrow> bool \<times> 'd world" where
  "ud_modifyQPToRTS V p psn w =
     (case ibv_modify_qp V p ((qp_attr_zero IBV_QPS_RTS)\<lparr>at_sq_psn := psn\<rparr>) [IBV_QP_STATE, IBV_QP_SQ_PSN] w
      of (e, w) \<Rightarrow> (\<not> 0 < e, w))"

text \<open>
  \<open>initQP\<close> fills the member queue pair of its kind on first use and shares it afterwards. \<open>qp\<close> and
  \<open>qpConn\<close> point at the members, so every assignment goes to the manager. The queue pair number of the
  connection data is that of the data queue pair in both cases.
\<close>

definition ud_slot :: "bool \<Rightarrow> rdma_manager_ud \<Rightarrow> ib_qp_t \<times> ib_conn_t" where
  "ud_slot isMgmtQP m =
     (if isMgmtQP then (m_udqpMgmt m, m_udqpMgmtConn m) else (m_udqp m, m_udqpConn m))"

definition set_ud_slot :: "bool \<Rightarrow> ib_qp_t \<Rightarrow> ib_conn_t \<Rightarrow> rdma_manager_ud \<Rightarrow> rdma_manager_ud" where
  "set_ud_slot isMgmtQP q c m =
     (if isMgmtQP then m\<lparr>m_udqpMgmt := q, m_udqpMgmtConn := c\<rparr> else m\<lparr>m_udqp := q, m_udqpConn := c\<rparr>)"

definition ud_initQP ::
  "('d, 'v) verbs_scheme \<Rightarrow> 'c rdma_config_scheme \<Rightarrow> ib_addr_t \<Rightarrow> bool \<Rightarrow> rdma_manager_ud \<Rightarrow> 'd world \<Rightarrow>
   (bool \<times> ib_addr_t \<times> rdma_manager_ud \<times> 'd world) result" where
  "ud_initQP V cfg retIbAddr isMgmtQP m w =
     (let (connKey, m) = nextConnKey m; retIbAddr = retIbAddr\<lparr>conn_key := connKey\<rparr>;
          (q, c) = ud_slot isMgmtQP m
      in if qp q \<noteq> None then
           bindR (setQP retIbAddr q m) (\<lambda>m. Inr (True, retIbAddr, setLocalConnData retIbAddr c m, w))
         else
      case createCQ V cfg m q w of (ok, q, w) \<Rightarrow>
      let m = set_ud_slot isMgmtQP q c m in
      if \<not> ok then Inr (False, retIbAddr, m, w)
      else case ud_createQP V cfg m q w of (ok, q, w) \<Rightarrow>
      let m = set_ud_slot isMgmtQP q c m in
      if \<not> ok then Inr (False, retIbAddr, m, w)
      else case (qp (m_udqp m), qp q) of
        (Some data_qp, Some p) \<Rightarrow>
          (case lrand48 V w of (rnd, w) \<Rightarrow>
           let c = c\<lparr>conn_buffer := buffer_base m, conn_qp_num := qp_qp_num data_qp,
                 conn_lid := res_lid (m_res m), conn_gid := replicate 16 0,
                 conn_psn := rnd mod 2 ^ 24, conn_ah := None\<rparr>;
               m = set_ud_slot isMgmtQP q c m
           in case ud_modifyQPToInit V m p w of (ok, w) \<Rightarrow>
              if \<not> ok then Inr (False, retIbAddr, m, w)
              else case ud_modifyQPToRTR V p w of (ok, w) \<Rightarrow>
              if \<not> ok then Inr (False, retIbAddr, m, w)
              else case ud_modifyQPToRTS V p (conn_psn c) w of (ok, w) \<Rightarrow>
              if \<not> ok then Inr (False, retIbAddr, m, w)
              else bindR (setQP retIbAddr q m) (\<lambda>m.
                Inr (True, retIbAddr, setLocalConnData retIbAddr c m, w)))
      | _ \<Rightarrow> Inl NullDeref)"

definition ud_connectQP ::
  "('d, 'v) verbs_scheme \<Rightarrow> ib_addr_t \<Rightarrow> rdma_manager_ud \<Rightarrow> 'd world \<Rightarrow> (bool \<times> rdma_manager_ud \<times> 'd world) result" where
  "ud_connectQP V ibAddr m w =
     (let connKey = conn_key ibAddr in
      if m_connected m connKey \<noteq> None then Inr (True, m, w)
      else bindR (index_op (m_rconns m) connKey) (\<lambda>rconn.
        case ibv_create_ah V (res_pd (m_res m)) (ah_zero\<lparr>ah_dlid := conn_lid rconn, ah_port_num := m_ibPort m\<rparr>) w of
          (ah, w) \<Rightarrow>
            Inr (True, m\<lparr>m_rconns := (m_rconns m)[connKey := rconn\<lparr>conn_ah := ah\<rparr>],
                         m_connected := (m_connected m)(connKey \<mapsto> True)\<rparr>, w)))"

text \<open>The management queue pair's completion queues are not destroyed.\<close>

definition ud_destroyQPs :: "('d, 'v) verbs_scheme \<Rightarrow> rdma_manager_ud \<Rightarrow> 'd world \<Rightarrow> rdma_manager_ud \<times> 'd world" where
  "ud_destroyQPs V m w =
     (let (m, w) = (case qp (m_udqp m) of None \<Rightarrow> (m, w)
            | Some p \<Rightarrow> (m\<lparr>m_udqp := (m_udqp m)\<lparr>qp := None\<rparr>\<rparr>,
                 snd (destroyCQ V (send_cq (m_udqp m)) (recv_cq (m_udqp m)) (snd (ibv_destroy_qp V p w)))))
      in case qp (m_udqpMgmt m) of None \<Rightarrow> (m, w)
         | Some p \<Rightarrow> (m\<lparr>m_udqpMgmt := (m_udqpMgmt m)\<lparr>qp := None\<rparr>\<rparr>, snd (ibv_destroy_qp V p w)))"

section \<open>One-sided operations are not supported\<close>

definition ud_remoteWrite :: "ib_addr_t \<Rightarrow> nat \<Rightarrow> nat \<Rightarrow> nat \<Rightarrow> bool \<Rightarrow> bool" where
  "ud_remoteWrite ibAddr offset memAddr sz signaled = False"

definition ud_remoteRead :: "ib_addr_t \<Rightarrow> nat \<Rightarrow> nat \<Rightarrow> nat \<Rightarrow> bool \<Rightarrow> bool" where
  "ud_remoteRead ibAddr offset memAddr sz signaled = False"

definition ud_requestRead :: "ib_addr_t \<Rightarrow> nat \<Rightarrow> nat \<Rightarrow> nat \<Rightarrow> bool" where
  "ud_requestRead ibAddr offset memAddr sz = False"

definition ud_remoteFetchAndAdd :: "ib_addr_t \<Rightarrow> nat \<Rightarrow> nat \<Rightarrow> nat \<Rightarrow> bool \<Rightarrow> bool" where
  "ud_remoteFetchAndAdd ibAddr offset memAddr sz signaled = False"

definition ud_remoteFetchAndAdd_value :: "ib_addr_t \<Rightarrow> nat \<Rightarrow> nat \<Rightarrow> nat \<Rightarrow> nat \<Rightarrow> bool \<Rightarrow> bool" where
  "ud_remoteFetchAndAdd_value ibAddr offset memAddr value_to_add sz signaled = False"

definition ud_remoteCompareAndSwap ::
  "ib_addr_t \<Rightarrow> nat \<Rightarrow> nat \<Rightarrow> int \<Rightarrow> int \<Rightarrow> nat \<Rightarrow> bool \<Rightarrow> bool" where
  "ud_remoteCompareAndSwap ibAddr offset memAddr toCompare toSwap sz signaled = False"

section \<open>Two-sided operations\<close>

definition ud_send ::
  "('d, 'v) verbs_scheme \<Rightarrow> ib_addr_t \<Rightarrow> nat \<Rightarrow> nat \<Rightarrow> bool \<Rightarrow> rdma_manager_ud \<Rightarrow> 'd world \<Rightarrow> (bool \<times> 'd world) result" where
  "ud_send V ibAddr memAddr sz signaled m w =
     bindR (index_op (m_qps m) (conn_key ibAddr)) (\<lambda>localQP.
     bindR (index_op (m_rconns m) (conn_key ibAddr)) (\<lambda>remoteConn.
     bindR (local_key m) (\<lambda>lkey.
       let sr = (sge_wr IBV_WR_SEND signaled memAddr sz lkey)\<lparr>wr_ah := conn_ah remoteConn,
              wr_remote_qpn := u32 (conn_qp_num remoteConn), wr_remote_qkey := 0x11111111\<rparr>
       in post_and_wait V localQP sr signaled w)))"

text \<open>The receive buffer starts in front of the data, where the routing header goes.\<close>

definition ud_receive ::
  "('d, 'v) verbs_scheme \<Rightarrow> 'c rdma_config_scheme \<Rightarrow> ib_addr_t \<Rightarrow> nat \<Rightarrow> nat \<Rightarrow> rdma_manager_ud \<Rightarrow> 'd world \<Rightarrow> (bool \<times> 'd world) result" where
  "ud_receive V cfg ibAddr memAddr sz m w =
     bindR (index_op (m_qps m) (conn_key ibAddr)) (\<lambda>localQP.
     bindR (local_key m) (\<lambda>lkey.
       case qp localQP of None \<Rightarrow> Inl NullDeref
       | Some p \<Rightarrow>
           (case ibv_post_recv V p \<lparr>rwr_addr = sub64 memAddr (cfg_RDMA_UD_OFFSET cfg),
                rwr_length = u32 (sz + cfg_RDMA_UD_OFFSET cfg), rwr_lkey = lkey\<rparr> w of
              (e, w) \<Rightarrow> Inr (e = 0, w))))"

definition ud_pollReceive ::
  "('d, 'v) verbs_scheme \<Rightarrow> ib_addr_t \<Rightarrow> bool \<Rightarrow> rdma_manager_ud \<Rightarrow> 'd world \<Rightarrow> (bool \<times> 'd world) result" where
  "ud_pollReceive V ibAddr doPoll m w =
     bindR (index_op (m_qps m) (conn_key ibAddr)) (\<lambda>localQP. poll_cq V (recv_cq localQP) doPoll w)"

definition ud_pollSend ::
  "('d, 'v) verbs_scheme \<Rightarrow> ib_addr_t \<Rightarrow> bool \<Rightarrow> rdma_manager_ud \<Rightarrow> 'd world \<Rightarrow> (bool \<times> 'd world) result" where
  "ud_pollSend V ibAddr doPoll m w =
     bindR (index_op (m_qps m) (conn_key ibAddr)) (\<lambda>localQP. poll_cq V (send_cq localQP) doPoll w)"

section \<open>Multicast\<close>

definition nextMCastConnKey :: "rdma_manager_ud \<Rightarrow> nat \<times> rdma_manager_ud" where
  "nextMCastConnKey m = (m_lastMCastConnKey m, m\<lparr>m_lastMCastConnKey := add64 (m_lastMCastConnKey m) 1\<rparr>)"

definition setMCastConn :: "ib_addr_t \<Rightarrow> rdma_mcast_conn_t \<Rightarrow> rdma_manager_ud \<Rightarrow> rdma_manager_ud" where
  "setMCastConn ibAddr conn m =
     m\<lparr>m_udpMcastConns := resize_put mcast_conn_zero (m_udpMcastConns m) (conn_key ibAddr) conn\<rparr>"

text \<open>\<open>getCmEvent\<close>: the event is acknowledged unless the caller asks for it.\<close>

definition getCmEvent ::
  "('d, 'v) verbs_cm_scheme \<Rightarrow> nat \<Rightarrow> cm_event_type \<Rightarrow> bool \<Rightarrow> 'd world \<Rightarrow> cm_event option \<times> 'd world" where
  "getCmEvent V channel type keep w =
     (case rdma_get_cm_event V channel w of ((e, ev), w) \<Rightarrow>
      if e \<noteq> 0 then (None, w)
      else if ev_event ev \<noteq> type then (None, w)
      else (Some ev, if keep then w else rdma_ack_cm_event V ev w))"

text \<open>The first half of \<open>joinMCastGroup\<close>: channel, identifier, address, protection domain, memory.\<close>

definition ud_join_open ::
  "('d, 'v) verbs_cm_scheme \<Rightarrow> string \<Rightarrow> rdma_manager_ud \<Rightarrow> 'd world \<Rightarrow> rdma_mcast_conn_t option \<times> 'd world" where
  "ud_join_open V mCastAddress m w =
     (let c = (uninit_mcast V)\<lparr>mc_addr := mCastAddress\<rparr> in
      case rdma_create_event_channel V w of (None, w) \<Rightarrow> (None, w)
      | (Some ch, w) \<Rightarrow>
      (case rdma_create_id V ch w of ((e, cid), w) \<Rightarrow>
       if e \<noteq> 0 then (None, w)
       else case rdma_getaddrinfo V mCastAddress w of ((e, dst), w) \<Rightarrow>
       if e \<noteq> 0 then (None, w)
       else case rdma_resolve_addr V cid dst w of (e, w) \<Rightarrow>
       if e \<noteq> 0 then (None, w)
       else case getCmEvent V ch RDMA_CM_EVENT_ADDR_RESOLVED False w of
         (None, w) \<Rightarrow> (None, w)
       | (Some _, w) \<Rightarrow>
       (case ibv_alloc_pd V (cm_id_verbs V cid) w of
          (None, w) \<Rightarrow> (None, w)
        | (Some pd, w) \<Rightarrow>
        (case ibv_reg_mr V (Some pd) (buffer_base m) (m_memSize m) w of
           (None, w) \<Rightarrow> (None, w)
         | (Some mr, w) \<Rightarrow>
           (Some (c\<lparr>mc_channel := ch, mc_id := Some cid, mc_sockaddr := dst, mc_pd := Some pd, mc_mr := Some mr\<rparr>), w)))))"

text \<open>The second half: completion queues, queue pair, joining, the address handle.\<close>

definition ud_join_queues ::
  "('d, 'v) verbs_cm_scheme \<Rightarrow> 'c rdma_config_scheme \<Rightarrow> rdma_mcast_conn_t \<Rightarrow> rdma_manager_ud \<Rightarrow> 'd world \<Rightarrow>
   (rdma_mcast_conn_t option \<times> 'd world) result" where
  "ud_join_queues V cfg c m w =
     (case mc_id c of None \<Rightarrow> Inl NullDeref
      | Some cid \<Rightarrow>
      (case ibv_create_cq V (cm_id_verbs V cid) (cfg_RDMA_MAX_WR cfg + 1) w of (scq, w) \<Rightarrow>
       case ibv_create_cq V (cm_id_verbs V cid) (cfg_RDMA_MAX_WR cfg + 1) w of (rcq, w) \<Rightarrow>
       case (scq, rcq) of
         (Some s, Some r) \<Rightarrow>
           (let attr = \<lparr>ia_send_cq = s, ia_recv_cq = r, ia_qp_type = IBV_QPT_UD,
                  ia_max_wr = cfg_RDMA_MAX_WR cfg, ia_max_sge = cfg_RDMA_MAX_SGE cfg, ia_max_atomic_arg = 0\<rparr>
            in case rdma_create_qp V cid (mc_pd c) attr w of ((e, p), w) \<Rightarrow>
            if e \<noteq> 0 then Inr (None, w)
            else case rdma_join_multicast V cid (mc_sockaddr c) w of (e, w) \<Rightarrow>
            if e \<noteq> 0 then Inr (None, w)
            else case getCmEvent V (mc_channel c) RDMA_CM_EVENT_MULTICAST_JOIN True w of
              (None, w) \<Rightarrow> Inr (None, w)
            | (Some ev, w) \<Rightarrow>
              (case ibv_create_ah V (res_pd (m_res m)) (ev_ah_attr ev) w of
                 (None, w) \<Rightarrow> Inr (None, w)
               | (Some ah, w) \<Rightarrow>
                 Inr (Some (c\<lparr>mc_scq := scq, mc_rcq := rcq, mc_qp := Some p, mc_remote_qpn := ev_qp_num ev,
                        mc_remote_qkey := ev_qkey ev, mc_ah := Some ah\<rparr>), rdma_ack_cm_event V ev w)))
       | _ \<Rightarrow> Inr (None, w)))"

definition ud_joinMCastGroup ::
  "('d, 'v) verbs_cm_scheme \<Rightarrow> 'c rdma_config_scheme \<Rightarrow> string \<Rightarrow> ib_addr_t \<Rightarrow> rdma_manager_ud \<Rightarrow> 'd world \<Rightarrow>
   (bool \<times> ib_addr_t \<times> rdma_manager_ud \<times> 'd world) result" where
  "ud_joinMCastGroup V cfg mCastAddress retIbAddr m w =
     (let (connKey, m) = nextMCastConnKey m; retIbAddr = retIbAddr\<lparr>conn_key := connKey\<rparr> in
      case ud_join_open V mCastAddress m w of
        (None, w) \<Rightarrow> Inr (False, retIbAddr, m, w)
      | (Some c, w) \<Rightarrow>
        bindR (ud_join_queues V cfg c m w) (\<lambda>(done, w).
          case done of None \<Rightarrow> Inr (False, retIbAddr, m, w)
          | Some c \<Rightarrow> Inr (True, retIbAddr, setMCastConn retIbAddr c m, w)))"

definition ud_leaveMCastGroup ::
  "('d, 'v) verbs_cm_scheme \<Rightarrow> ib_addr_t \<Rightarrow> rdma_manager_ud \<Rightarrow> 'd world \<Rightarrow> (bool \<times> 'd world) result" where
  "ud_leaveMCastGroup V ibAddr m w =
     bindR (index_op (m_udpMcastConns m) (conn_key ibAddr)) (\<lambda>c.
       case rdma_leave_multicast V (mc_id c) (mc_sockaddr c) w of (e, w) \<Rightarrow>
       if e \<noteq> 0 then Inr (False, w)
       else
         let w = (case mc_ah c of Some ah \<Rightarrow> ibv_destroy_ah V ah w | None \<Rightarrow> w);
             w = (case (mc_id c, mc_qp c) of (Some i, Some _) \<Rightarrow> rdma_destroy_qp V i w | _ \<Rightarrow> w);
             w = (case mc_scq c of Some q \<Rightarrow> snd (ibv_destroy_cq V q w) | None \<Rightarrow> w);
             w = (case mc_rcq c of Some q \<Rightarrow> snd (ibv_destroy_cq V q w) | None \<Rightarrow> w);
             w = (case mc_mr c of Some mr \<Rightarrow> ibv_dereg_mr V mr w | None \<Rightarrow> w);
             w = (case mc_pd c of Some pd \<Rightarrow> ibv_dealloc_pd V pd w | None \<Rightarrow> w);
             w = (case mc_id c of Some i \<Rightarrow> rdma_destroy_id V i w | None \<Rightarrow> w)
         in Inr (True, w))"

text \<open>The immediate data of the datagram is the number of the local queue pair.\<close>

definition ud_sendMCast ::
  "('d, 'v) verbs_cm_scheme \<Rightarrow> ib_addr_t \<Rightarrow> nat \<Rightarrow> nat \<Rightarrow> bool \<Rightarrow> rdma_manager_ud \<Rightarrow> 'd world \<Rightarrow> (bool \<times> 'd world) result" where
  "ud_sendMCast V ibAddr memAddr sz signaled m w =
     bindR (index_op (m_udpMcastConns m) (conn_key ibAddr)) (\<lambda>c.
       case (mc_mr c, mc_qp c, mc_scq c) of
         (Some mr, Some p, Some scq) \<Rightarrow>
           let sr = (sge_wr IBV_WR_SEND_WITH_IMM signaled memAddr sz (mr_lkey mr))
                  \<lparr>wr_ah := mc_ah c, wr_remote_qpn := mc_remote_qpn c, wr_remote_qkey := mc_remote_qkey c\<rparr>
           in post_and_wait V \<lparr>qp = Some p, send_cq = scq, recv_cq = 0\<rparr> sr signaled w
       | _ \<Rightarrow> Inl NullDeref)"

definition ud_receiveMCast ::
  "('d, 'v) verbs_cm_scheme \<Rightarrow> 'c rdma_config_scheme \<Rightarrow> ib_addr_t \<Rightarrow> nat \<Rightarrow> nat \<Rightarrow> rdma_manager_ud \<Rightarrow> 'd world \<Rightarrow> (bool \<times> 'd world) result" where
  "ud_receiveMCast V cfg ibAddr memAddr sz m w =
     bindR (index_op (m_udpMcastConns m) (conn_key ibAddr)) (\<lambda>c.
       case rdma_post_recv V (mc_id c) (sub64 memAddr (cfg_RDMA_UD_OFFSET cfg))
              (add64 sz (cfg_RDMA_UD_OFFSET cfg)) (mc_mr c) w of
         (e, w) \<Rightarrow> Inr (e = 0, w))"

definition ud_pollReceiveMCast ::
  "('d, 'v) verbs_cm_scheme \<Rightarrow> ib_addr_t \<Rightarrow> rdma_manager_ud \<Rightarrow> 'd world \<Rightarrow> (bool \<times> 'd world) result" where
  "ud_pollReceiveMCast V ibAddr m w =
     bindR (index_op (m_udpMcastConns m) (conn_key ibAddr)) (\<lambda>c.
       case mc_rcq c of None \<Rightarrow> Inl NullDeref
       | Some rcq \<Rightarrow> wait_completion V rcq w)"

section \<open>Properties\<close>

text \<open>
  A datagram manager reserves the space of the global routing header in front of local memory:
  the pointer \<open>localAlloc\<close> returns has the requested number of bytes behind it and \<open>RDMA_UD_OFFSET\<close> bytes
  before it within the buffer, all of them free before, and \<open>localFree\<close> of that pointer finds the region again
  and restores the manager exactly.
\<close>

lemma ud_local_alloc_free:
  assumes "mem_inv m" and "m_rdmaMem m = x # ys" and "0 < n"
    and "n + cfg_RDMA_UD_OFFSET cfg < rm_size x" and "buffer_base m + m_memSize m < 2 ^ 64"
    and "ud_localAlloc cfg n m = (res, m')"
  shows "\<exists>p. res = Some p \<and> buffer_base m + cfg_RDMA_UD_OFFSET cfg \<le> p \<and> p + n \<le> buffer_base m + m_memSize m \<and>
    {p - buffer_base m - cfg_RDMA_UD_OFFSET cfg..<p - buffer_base m + n} \<subseteq> free_bytes m \<and>
    ud_localFree cfg p m' = (True, m)"
proof -
  let ?k = "cfg_RDMA_UD_OFFSET cfg"
  have x: "x \<in> set (m_rdmaMem m)" using assms(2) by simp
  have "rm_size x \<le> m_memSize m" using region_okD [OF mem_inv_freeD(1) [OF assms(1) x]] by auto
  then have sz: "add64 n ?k = n + ?k" using assms(4,5) by (intro add64_small) simp
  obtain r m1 where a: "internalAlloc (n + ?k) m = (r, m1)" by force
  have nz: "\<not> rm_isnull r"
    using internalAlloc_null_iff [OF assms(1), of "n + ?k"] a assms(2,4) by auto
  note B = internalAlloc_bytes [OF assms(1) _ a nz]
  have le: "rm_offset r + (n + ?k) \<le> m_memSize m" using B(5) assms(3) by simp
  have res: "res = Some (buffer_base m + rm_offset r + ?k)" "m' = m1"
    using assms(6) a nz by (auto simp: ud_localAlloc_def sz)
  have base: "buffer_base m1 = buffer_base m"
    using internalAlloc_res [of "n + ?k" m] a by (simp add: buffer_base_def)
  have "sub64 (sub64 (buffer_base m + rm_offset r + ?k) (buffer_base m)) ?k = rm_offset r"
    using le assms(5) by (simp add: sub64_small)
  moreover have "internalFree (rm_offset r) m1 = (True, m)"
    by (rule internalFree_undoes [OF assms(1,2) _ assms(4) a]) (use assms(3) in simp)
  ultimately have "ud_localFree cfg (buffer_base m + rm_offset r + ?k) m' = (True, m)"
    by (simp add: ud_localFree_def base res(2))
  moreover have "{rm_offset r..<rm_offset r + (n + ?k)} \<subseteq> free_bytes m" using B(1,2) assms(3) by (simp add: rm_region_def)
  ultimately show ?thesis using res(1) le by (simp add: add.assoc add.commute [of ?k])
qed

definition small_manager_ud :: rdma_manager_ud where
  "small_manager_ud = rdma_manager.extend small_manager
     (rdma_manager_ud.fields ib_qp_init ib_conn_zero ib_qp_init ib_conn_zero 0 [])"

definition ud_config :: rdma_config where
  "ud_config = \<lparr>cfg_RDMA_MEMSIZE = 100, cfg_RDMA_NUMAREGION = 1, cfg_RDMA_DEVICE = 1, cfg_RDMA_IBPORT = 1,
     cfg_RDMA_MAX_WR = 4, cfg_RDMA_MAX_SGE = 1, cfg_RDMA_UD_OFFSET = 40\<rparr>"

lemma small_manager_ud_sel [simp]:
  "m_rdmaMem small_manager_ud = [rdma_mem 100 True 0]" "m_usedRdmaMem small_manager_ud = Map.empty"
  "m_memSize small_manager_ud = 100" "buffer_base small_manager_ud = 4096" "cfg_RDMA_UD_OFFSET ud_config = 40"
  by (simp_all add: small_manager_ud_def small_manager_def rdma_manager_init_def rdma_manager.defs rdma_manager_ud.defs
      buffer_base_def ud_config_def)

lemma ud_local_alloc_free_instance:
  "fst (ud_localAlloc ud_config 30 small_manager_ud) = Some 4136 \<and>
   ud_localFree ud_config 4136 (snd (ud_localAlloc ud_config 30 small_manager_ud)) = (True, small_manager_ud)"
proof -
  have inv: "mem_inv small_manager_ud" by (rule mem_inv_init [of 100]) simp_all
  have f: "fst (ud_localAlloc ud_config 30 small_manager_ud) = Some 4136"
    by (simp add: ud_localAlloc_def internalAlloc_def add64_small)
  then have a: "ud_localAlloc ud_config 30 small_manager_ud = (Some 4136, snd (ud_localAlloc ud_config 30 small_manager_ud))"
    by (metis prod.collapse)
  have "\<exists>p. Some 4136 = Some p \<and> buffer_base small_manager_ud + cfg_RDMA_UD_OFFSET ud_config \<le> p \<and>
      p + 30 \<le> buffer_base small_manager_ud + m_memSize small_manager_ud \<and>
      {p - buffer_base small_manager_ud - cfg_RDMA_UD_OFFSET ud_config..<p - buffer_base small_manager_ud + 30} \<subseteq>
        free_bytes small_manager_ud \<and>
      ud_localFree ud_config p (snd (ud_localAlloc ud_config 30 small_manager_ud)) = (True, small_manager_ud)"
    by (rule ud_local_alloc_free [OF inv small_manager_ud_sel(1) _ _ _ a]) (simp_all add: rdma_mem_def)
  with f show ?thesis by auto
qed

end
