(* ===== verification/Proto.thy ===== *)
theory Proto
  imports Messages DPI_Config RDMA_UD
begin

text \<open>
  The request/reply layer: \<open>ProtoSocket\<close> on ZeroMQ sockets, \<open>ProtoClient\<close> and the handler loop of
  \<open>ProtoServer\<close>. ZeroMQ and the protobuf encoding are external: they are the fields of \<open>net\<close>, which
  extends the record of external calls, so that one world holds memory, device and network.
\<close>

section \<open>External calls\<close>

text \<open>
  A ZeroMQ call returns a value or throws \<open>zmq::error_t\<close>, here with its number; \<open>ZmqEscaped\<close> is an exception outside
  of the \<open>try\<close> block around the call, as from the constructor of a \<open>message_t\<close>. \<open>zmq_socket\<close> makes context and socket
  and sets the socket's options, \<open>zmq_send\<close> sends bytes as one part of a message, with more parts to come or
  not, and \<open>zmq_msg_object\<close> are the bytes of the \<open>message_t\<close> object itself that holds the given data.
\<close>

datatype 'a zmq_result = ZmqOk 'a | ZmqError nat | ZmqEscaped

abbreviation (input) ETERM :: nat where
  "ETERM \<equiv> 156384765"

abbreviation (input) ZMQ_SNDMORE :: nat where
  "ZMQ_SNDMORE \<equiv> 2"

record 'd net = "'d verbs_cm" +
  zmq_socket :: "nat \<Rightarrow> 'd world \<Rightarrow> nat zmq_result \<times> 'd world"
  zmq_bind :: "nat \<Rightarrow> string \<Rightarrow> 'd world \<Rightarrow> unit zmq_result \<times> 'd world"
  zmq_connect :: "nat \<Rightarrow> string \<Rightarrow> 'd world \<Rightarrow> bool zmq_result \<times> 'd world"
  zmq_send :: "nat \<Rightarrow> byte list \<Rightarrow> bool \<Rightarrow> 'd world \<Rightarrow> bool zmq_result \<times> 'd world"
  zmq_recv :: "nat \<Rightarrow> 'd world \<Rightarrow> byte list option zmq_result \<times> 'd world"
  zmq_msg_object :: "byte list \<Rightarrow> 'd world \<Rightarrow> byte list"
  pb_serialize :: "any_msg \<Rightarrow> byte list option"
  pb_parse :: "byte list \<Rightarrow> any_msg option"

section \<open>ProtoSocket\<close>

datatype zmq_sockType = ZMQ_REQ | ZMQ_REP | ZMQ_SUB

text \<open>\<open>m_pSock\<close> is null after \<open>close\<close>.\<close>

record proto_socket =
  ps_conn :: string
  ps_sockType :: zmq_sockType
  ps_isOpen :: bool
  ps_sock :: "nat option"

text \<open>Nobody catches what the constructor throws.\<close>

definition newProtoSocket ::
  "('d, 'n) net_scheme \<Rightarrow> string \<Rightarrow> int \<Rightarrow> zmq_sockType \<Rightarrow> 'd world \<Rightarrow> (proto_socket \<times> 'd world) result" where
  "newProtoSocket N addr port sockType w =
     (case zmq_socket N (case sockType of ZMQ_SUB \<Rightarrow> 2 | ZMQ_REQ \<Rightarrow> 3 | ZMQ_REP \<Rightarrow> 4) w of
        (ZmqError _, w) \<Rightarrow> Inl Terminate
      | (ZmqEscaped, w) \<Rightarrow> Inl Terminate
      | (ZmqOk h, w) \<Rightarrow>
          Inr (\<lparr>ps_conn = ''tcp://'' @ addr @ '':'' @ show_int port, ps_sockType = sockType, ps_isOpen = False,
            ps_sock = Some h\<rparr>, w))"

definition ProtoSocket_bind ::
  "('d, 'n) net_scheme \<Rightarrow> proto_socket \<Rightarrow> 'd world \<Rightarrow> (bool \<times> proto_socket \<times> 'd world) result" where
  "ProtoSocket_bind N s w =
     (case ps_sock s of None \<Rightarrow> Inl NullDeref
      | Some h \<Rightarrow>
          (case zmq_bind N h (ps_conn s) w of
             (ZmqOk _, w) \<Rightarrow> Inr (True, s\<lparr>ps_isOpen := True\<rparr>, w)
           | (ZmqError _, w) \<Rightarrow> Inr (False, s\<lparr>ps_isOpen := False\<rparr>, w)
           | (ZmqEscaped, w) \<Rightarrow> Inl Terminate))"

definition ProtoSocket_connect ::
  "('d, 'n) net_scheme \<Rightarrow> proto_socket \<Rightarrow> 'd world \<Rightarrow> (bool \<times> proto_socket \<times> 'd world) result" where
  "ProtoSocket_connect N s w =
     (case ps_sock s of None \<Rightarrow> Inl NullDeref
      | Some h \<Rightarrow>
          (case zmq_connect N h (ps_conn s) w of
             (ZmqOk b, w) \<Rightarrow> Inr (b, s\<lparr>ps_isOpen := b\<rparr>, w)
           | (ZmqError _, w) \<Rightarrow> Inr (False, s\<lparr>ps_isOpen := False\<rparr>, w)
           | (ZmqEscaped, w) \<Rightarrow> Inl Terminate))"

definition ProtoSocket_send ::
  "('d, 'n) net_scheme \<Rightarrow> proto_socket \<Rightarrow> any_msg \<Rightarrow> 'd world \<Rightarrow> (bool \<times> 'd world) result" where
  "ProtoSocket_send N s msg w =
     (case pb_serialize N msg of None \<Rightarrow> Inr (False, w)
      | Some data \<Rightarrow>
          (case ps_sock s of None \<Rightarrow> Inl NullDeref
           | Some h \<Rightarrow>
               (case zmq_send N h data False w of
                  (ZmqOk b, w) \<Rightarrow> Inr (b, w)
                | (ZmqError _, w) \<Rightarrow> Inr (False, w)
                | (ZmqEscaped, w) \<Rightarrow> Inl Terminate)))"

text \<open>
  \<open>sendMore\<close> calls \<open>send(&zmsg, ZMQ_SNDMORE)\<close>, which is the overload for a buffer and its size: the buffer is the
  message object, the size the number of the flag, and no flag is given. It does not catch the exception.
\<close>

definition ProtoSocket_sendMore ::
  "('d, 'n) net_scheme \<Rightarrow> proto_socket \<Rightarrow> any_msg \<Rightarrow> 'd world \<Rightarrow> (bool \<times> 'd world) result" where
  "ProtoSocket_sendMore N s msg w =
     (case pb_serialize N msg of None \<Rightarrow> Inr (False, w)
      | Some data \<Rightarrow>
          (case ps_sock s of None \<Rightarrow> Inl NullDeref
           | Some h \<Rightarrow>
               (case zmq_send N h (take ZMQ_SNDMORE (zmq_msg_object N data w)) False w of
                  (ZmqOk b, w) \<Rightarrow> Inr (b, w)
                | (ZmqError _, w) \<Rightarrow> Inl Terminate
                | (ZmqEscaped, w) \<Rightarrow> Inl Terminate)))"

lemma sendMore_ignores_message:
  assumes "pb_serialize N m1 = Some d1" "pb_serialize N m2 = Some d2"
    and "take 2 (zmq_msg_object N d1 w) = take 2 (zmq_msg_object N d2 w)"
  shows "ProtoSocket_sendMore N s m1 w = ProtoSocket_sendMore N s m2 w"
  using assms by (cases "ps_sock s") (simp_all add: ProtoSocket_sendMore_def)

definition ProtoSocket_receive ::
  "('d, 'n) net_scheme \<Rightarrow> proto_socket \<Rightarrow> 'd world \<Rightarrow> (any_msg option \<times> proto_socket \<times> 'd world) result" where
  "ProtoSocket_receive N s w =
     (case ps_sock s of None \<Rightarrow> Inl NullDeref
      | Some h \<Rightarrow>
          (case zmq_recv N h w of
             (ZmqOk None, w) \<Rightarrow> Inr (None, s, w)
           | (ZmqOk (Some data), w) \<Rightarrow> Inr (pb_parse N data, s, w)
           | (ZmqError e, w) \<Rightarrow>
               if e \<noteq> ETERM then Inl Fatal
               else Inr (None, if ps_isOpen s then s\<lparr>ps_sock := None, ps_isOpen := False\<rparr> else s, w)
           | (ZmqEscaped, w) \<Rightarrow> Inl Terminate))"

section \<open>ProtoClient\<close>

record proto_client =
  pc_address :: string
  pc_port :: int
  pc_socket :: "proto_socket option"
  pc_isConnected :: bool

definition newProtoClient :: "string \<Rightarrow> int \<Rightarrow> proto_client" where
  "newProtoClient address port =
     \<lparr>pc_address = address, pc_port = port, pc_socket = None, pc_isConnected = False\<rparr>"

text \<open>A refused connection is \<open>Logging::fatal\<close>, which exits.\<close>

definition ProtoClient_connect ::
  "('d, 'n) net_scheme \<Rightarrow> proto_client \<Rightarrow> 'd world \<Rightarrow> (proto_client \<times> 'd world) result" where
  "ProtoClient_connect N c w =
     bindR (newProtoSocket N (pc_address c) (pc_port c) ZMQ_REQ w) (\<lambda>(s, w).
      bindR (ProtoSocket_connect N s w) (\<lambda>(ok, s, w).
      if \<not> ok then Inl Fatal
      else Inr (c\<lparr>pc_socket := Some s, pc_isConnected := True\<rparr>, w)))"

text \<open>
  \<open>send\<close> returns whether a reply arrived that is not an error message, and the reply.
\<close>

definition ProtoClient_send ::
  "('d, 'n) net_scheme \<Rightarrow> proto_client \<Rightarrow> any_msg \<Rightarrow> 'd world \<Rightarrow>
   (bool \<times> any_msg \<times> proto_client \<times> 'd world) result" where
  "ProtoClient_send N c sendMsg w =
     (if \<not> pc_isConnected c then Inl Fatal
      else case pc_socket c of None \<Rightarrow> Inl NullDeref
      | Some s \<Rightarrow>
        bindR (ProtoSocket_send N s sendMsg w) (\<lambda>(ok, w).
        if \<not> ok then Inl Fatal
        else bindR (ProtoSocket_receive N s w) (\<lambda>(rec, s, w).
        case rec of None \<Rightarrow> Inl Fatal
        | Some recMsg \<Rightarrow>
            Inr ((case recMsg of ErrorMessage e \<Rightarrow> e = 0 | _ \<Rightarrow> True), recMsg, c\<lparr>pc_socket := Some s\<rparr>, w))))"

section \<open>ProtoServer\<close>

text \<open>
  The loop of \<open>run\<close> over the messages that arrive before the thread is killed or the socket stops
  delivering: each is handled and answered before the next one is received. The server's state is
  whatever \<open>handle\<close> changes.
\<close>

fun serve ::
  "('d, 'n) net_scheme \<Rightarrow> proto_socket \<Rightarrow> (any_msg \<Rightarrow> 's \<Rightarrow> 'd world \<Rightarrow> (any_msg \<times> 's \<times> 'd world) result) \<Rightarrow>
   nat \<Rightarrow> 's \<Rightarrow> 'd world \<Rightarrow> ('s \<times> 'd world) result" where
  "serve N sock handle 0 s w = Inr (s, w)"
| "serve N sock handle (Suc n) s w =
     bindR (ProtoSocket_receive N sock w) (\<lambda>(rcvMsg, sock, w).
     case rcvMsg of None \<Rightarrow> Inr (s, w)
     | Some msg \<Rightarrow>
         bindR (handle msg s w) (\<lambda>(respMsg, s, w).
         bindR (ProtoSocket_send N sock respMsg w) (\<lambda>(_, w). serve N sock handle n s w)))"

section \<open>A canned network\<close>

text \<open>
  A network on which every connection is accepted and every request gets the same reply, over the device
  that accepts every call: with it the properties that depend on a peer are exercised.
\<close>

definition canned_net :: "any_msg \<Rightarrow> nat net" where
  "canned_net reply = verbs_cm.extend
     (verbs.extend ready_verbs
       (verbs_cm.fields (\<lambda>w. (None, w)) (\<lambda>_ w. ((1, 0), w)) (\<lambda>_ w. ((1, 0), w)) (\<lambda>_ _ w. (1, w))
         (\<lambda>_ w. ((1, \<lparr>ev_event = RDMA_CM_EVENT_OTHER, ev_qp_num = 0, ev_qkey = 0, ev_ah_attr = ah_zero\<rparr>), w)) (\<lambda>_ w. w)
         (\<lambda>_. None) (\<lambda>_ _ _ w. ((1, \<lparr>qp_handle = 0, qp_qp_num = 0, qp_send_cq = 0\<rparr>), w)) (\<lambda>_ _ w. (1, w)) (\<lambda>_ _ w. (1, w))
         (\<lambda>_ w. w) (\<lambda>_ w. w) (\<lambda>_ w. w) (\<lambda>_ _ _ _ w. (1, w)) mcast_conn_zero))
     (net.fields (\<lambda>_ w. (ZmqOk 1, w)) (\<lambda>_ _ w. (ZmqOk (), w)) (\<lambda>_ _ w. (ZmqOk True, w)) (\<lambda>_ _ _ w. (ZmqOk True, w))
       (\<lambda>_ w. (ZmqOk (Some []), w)) (\<lambda>_ _. replicate 64 0) (\<lambda>_. Some []) (\<lambda>_. Some reply))"

lemmas canned_defs = canned_net_def verbs_cm.defs verbs.defs net.defs

lemma canned_connect:
  "ProtoClient_connect (canned_net reply) (newProtoClient ip port) w =
     Inr ((newProtoClient ip port)\<lparr>pc_isConnected := True, pc_socket := Some \<lparr>ps_conn = ''tcp://'' @ ip @ '':'' @ show_int port,
       ps_sockType = ZMQ_REQ, ps_isOpen = True, ps_sock = Some 1\<rparr>\<rparr>, w)"
  by (simp add: ProtoClient_connect_def newProtoSocket_def ProtoSocket_connect_def newProtoClient_def canned_defs)

lemma canned_send:
  assumes "pc_isConnected c" "pc_socket c = Some s" "ps_sock s = Some h"
  shows "ProtoClient_send (canned_net reply) c msg w =
    Inr ((case reply of ErrorMessage e \<Rightarrow> e = 0 | _ \<Rightarrow> True), reply, c, w)"
  using assms by (cases c) (simp add: ProtoClient_send_def ProtoSocket_send_def ProtoSocket_receive_def canned_defs)

end
