(* ===== verification/Managers.thy ===== *)
theory Managers
  imports Proto
begin

text \<open>
  The pointer \<open>RDMAManager* m_rdmaManager\<close> that servers and clients hold, and the virtual calls through
  it: each goes to the RC or the UD implementation.
\<close>

datatype manager = ManagerRC rdma_manager | ManagerUD rdma_manager_ud

definition newRDMAManagerRC ::
  "('d, 'v) verbs_scheme \<Rightarrow> 'c rdma_config_scheme \<Rightarrow> ib_resource_t \<Rightarrow> nat \<Rightarrow> 'd world \<Rightarrow> (manager \<times> 'd world) result" where
  "newRDMAManagerRC V cfg res0 mem_size w =
     bindR (newRDMAManager V cfg res0 IBV_QPT_RC mem_size w) (\<lambda>(m, w). Inr (ManagerRC m, w))"

text \<open>The connection data of the two shared queue pairs start uninitialised.\<close>

definition newRDMAManagerUD ::
  "('d, 'v) verbs_scheme \<Rightarrow> 'c rdma_config_scheme \<Rightarrow> ib_resource_t \<Rightarrow> nat \<Rightarrow> 'd world \<Rightarrow> (manager \<times> 'd world) result" where
  "newRDMAManagerUD V cfg res0 mem_size w =
     bindR (newRDMAManager V cfg res0 IBV_QPT_UD mem_size w) (\<lambda>(m, w).
       Inr (ManagerUD (rdma_manager.extend m
         \<lparr>m_udqp = ib_qp_init, m_udqpConn = uninit_conn V, m_udqpMgmt = ib_qp_init,
          m_udqpMgmtConn = uninit_conn V, m_lastMCastConnKey = 0, m_udpMcastConns = []\<rparr>), w))"

definition newManager ::
  "('d, 'v) verbs_scheme \<Rightarrow> 'c rdma_config_scheme \<Rightarrow> ib_resource_t \<Rightarrow> nat \<Rightarrow> rdma_transport_t \<Rightarrow> 'd world \<Rightarrow>
   (manager \<times> 'd world) result" where
  "newManager V cfg res0 mem_size transport w =
     (case transport of
        rc \<Rightarrow> newRDMAManagerRC V cfg res0 mem_size w
      | ud \<Rightarrow> newRDMAManagerUD V cfg res0 (cfg_RDMA_MEMSIZE cfg) w)"

section \<open>Memory\<close>

definition mgr_buffer :: "manager \<Rightarrow> nat" where
  "mgr_buffer mgr = (case mgr of ManagerRC m \<Rightarrow> buffer_base m | ManagerUD m \<Rightarrow> buffer_base m)"

definition mgr_localAlloc :: "'c rdma_config_scheme \<Rightarrow> nat \<Rightarrow> manager \<Rightarrow> nat option \<times> manager" where
  "mgr_localAlloc cfg sz mgr =
     (case mgr of ManagerRC m \<Rightarrow> map_prod id ManagerRC (rc_localAlloc sz m)
      | ManagerUD m \<Rightarrow> map_prod id ManagerUD (ud_localAlloc cfg sz m))"

definition mgr_localFree :: "'c rdma_config_scheme \<Rightarrow> nat \<Rightarrow> manager \<Rightarrow> bool \<times> manager" where
  "mgr_localFree cfg ptr mgr =
     (case mgr of ManagerRC m \<Rightarrow> map_prod id ManagerRC (rc_localFree ptr m)
      | ManagerUD m \<Rightarrow> map_prod id ManagerUD (ud_localFree cfg ptr m))"

definition mgr_localFree_offset :: "nat \<Rightarrow> manager \<Rightarrow> bool \<times> manager" where
  "mgr_localFree_offset off mgr =
     (case mgr of ManagerRC m \<Rightarrow> map_prod id ManagerRC (rc_localFree_offset off m)
      | ManagerUD m \<Rightarrow> map_prod id ManagerUD (ud_localFree_offset off m))"

definition mgr_remoteAlloc :: "nat \<Rightarrow> manager \<Rightarrow> rdma_mem_t \<times> manager" where
  "mgr_remoteAlloc sz mgr =
     (case mgr of ManagerRC m \<Rightarrow> map_prod id ManagerRC (rc_remoteAlloc sz m)
      | ManagerUD m \<Rightarrow> map_prod id ManagerUD (ud_remoteAlloc sz m))"

definition mgr_remoteFree :: "nat \<Rightarrow> manager \<Rightarrow> bool \<times> manager" where
  "mgr_remoteFree off mgr =
     (case mgr of ManagerRC m \<Rightarrow> map_prod id ManagerRC (rc_remoteFree off m)
      | ManagerUD m \<Rightarrow> map_prod id ManagerUD (ud_remoteFree off m))"

section \<open>Connections\<close>

definition mgr_initQP ::
  "('d, 'v) verbs_scheme \<Rightarrow> 'c rdma_config_scheme \<Rightarrow> ib_addr_t \<Rightarrow> bool \<Rightarrow> manager \<Rightarrow> 'd world \<Rightarrow>
   (bool \<times> ib_addr_t \<times> manager \<times> 'd world) result" where
  "mgr_initQP V cfg addr isMgmtQP mgr w =
     (case mgr of
        ManagerRC m \<Rightarrow> bindR (rc_initQP V cfg addr isMgmtQP m w) (\<lambda>(ok, a, m, w). Inr (ok, a, ManagerRC m, w))
      | ManagerUD m \<Rightarrow> bindR (ud_initQP V cfg addr isMgmtQP m w) (\<lambda>(ok, a, m, w). Inr (ok, a, ManagerUD m, w)))"

definition mgr_connectQP ::
  "('d, 'v) verbs_scheme \<Rightarrow> ib_addr_t \<Rightarrow> manager \<Rightarrow> 'd world \<Rightarrow> (bool \<times> manager \<times> 'd world) result" where
  "mgr_connectQP V addr mgr w =
     (case mgr of
        ManagerRC m \<Rightarrow> bindR (rc_connectQP V addr m w) (\<lambda>(ok, m, w). Inr (ok, ManagerRC m, w))
      | ManagerUD m \<Rightarrow> bindR (ud_connectQP V addr m w) (\<lambda>(ok, m, w). Inr (ok, ManagerUD m, w)))"

definition mgr_getLocalConnData :: "ib_addr_t \<Rightarrow> manager \<Rightarrow> ib_conn_t result" where
  "mgr_getLocalConnData addr mgr =
     (case mgr of ManagerRC m \<Rightarrow> getLocalConnData addr m | ManagerUD m \<Rightarrow> getLocalConnData addr m)"

definition mgr_setRemoteConnData :: "ib_addr_t \<Rightarrow> ib_conn_t \<Rightarrow> manager \<Rightarrow> manager" where
  "mgr_setRemoteConnData addr conn mgr =
     (case mgr of ManagerRC m \<Rightarrow> ManagerRC (setRemoteConnData addr conn m)
      | ManagerUD m \<Rightarrow> ManagerUD (setRemoteConnData addr conn m))"

definition mgr_getQPNum :: "ib_addr_t \<Rightarrow> manager \<Rightarrow> nat result" where
  "mgr_getQPNum addr mgr = (case mgr of ManagerRC m \<Rightarrow> getQPNum addr m | ManagerUD m \<Rightarrow> getQPNum addr m)"

section \<open>Transfers\<close>

definition mgr_remoteWrite where
  "mgr_remoteWrite V addr off memAddr sz signaled mgr w =
     (case mgr of ManagerRC m \<Rightarrow> rc_remoteWrite V addr off memAddr sz signaled m w
      | ManagerUD m \<Rightarrow> Inr (ud_remoteWrite addr off memAddr sz signaled, w))"

definition mgr_remoteRead where
  "mgr_remoteRead V addr off memAddr sz signaled mgr w =
     (case mgr of ManagerRC m \<Rightarrow> rc_remoteRead V addr off memAddr sz signaled m w
      | ManagerUD m \<Rightarrow> Inr (ud_remoteRead addr off memAddr sz signaled, w))"

definition mgr_requestRead where
  "mgr_requestRead V addr off memAddr sz mgr w =
     (case mgr of ManagerRC m \<Rightarrow> rc_requestRead V addr off memAddr sz m w
      | ManagerUD m \<Rightarrow> Inr (ud_requestRead addr off memAddr sz, w))"

definition mgr_remoteFetchAndAdd where
  "mgr_remoteFetchAndAdd V addr off memAddr sz signaled mgr w =
     (case mgr of ManagerRC m \<Rightarrow> rc_remoteFetchAndAdd V addr off memAddr sz signaled m w
      | ManagerUD m \<Rightarrow> Inr (ud_remoteFetchAndAdd addr off memAddr sz signaled, w))"

definition mgr_remoteFetchAndAdd_value where
  "mgr_remoteFetchAndAdd_value V addr off memAddr v sz signaled mgr w =
     (case mgr of ManagerRC m \<Rightarrow> rc_remoteFetchAndAdd_value V addr off memAddr v sz signaled m w
      | ManagerUD m \<Rightarrow> Inr (ud_remoteFetchAndAdd_value addr off memAddr v sz signaled, w))"

definition mgr_remoteCompareAndSwap where
  "mgr_remoteCompareAndSwap V addr off memAddr toCompare toSwap sz signaled mgr w =
     (case mgr of ManagerRC m \<Rightarrow> rc_remoteCompareAndSwap V addr off memAddr toCompare toSwap sz signaled m w
      | ManagerUD m \<Rightarrow> Inr (ud_remoteCompareAndSwap addr off memAddr toCompare toSwap sz signaled, w))"

definition mgr_send where
  "mgr_send V addr memAddr sz signaled mgr w =
     (case mgr of ManagerRC m \<Rightarrow> rc_send V addr memAddr sz signaled m w
      | ManagerUD m \<Rightarrow> ud_send V addr memAddr sz signaled m w)"

definition mgr_receive where
  "mgr_receive V cfg addr memAddr sz mgr w =
     (case mgr of ManagerRC m \<Rightarrow> rc_receive V addr memAddr sz m w
      | ManagerUD m \<Rightarrow> ud_receive V cfg addr memAddr sz m w)"

definition mgr_pollReceive where
  "mgr_pollReceive V addr doPoll mgr w =
     (case mgr of ManagerRC m \<Rightarrow> rc_pollReceive V addr doPoll m w
      | ManagerUD m \<Rightarrow> ud_pollReceive V addr doPoll m w)"

text \<open>The overload that returns the queue pair number is implemented by no manager.\<close>

definition mgr_pollReceive_qp :: "ib_addr_t \<Rightarrow> nat \<Rightarrow> bool \<times> nat" where
  "mgr_pollReceive_qp addr ret_qp_num = (False, ret_qp_num)"

definition mgr_pollSend where
  "mgr_pollSend V addr doPoll mgr w =
     (case mgr of ManagerRC m \<Rightarrow> rc_pollSend V addr doPoll m w
      | ManagerUD m \<Rightarrow> ud_pollSend V addr doPoll m w)"

section \<open>Multicast\<close>

definition mgr_joinMCastGroup ::
  "('d, 'v) verbs_cm_scheme \<Rightarrow> 'c rdma_config_scheme \<Rightarrow> string \<Rightarrow> ib_addr_t \<Rightarrow> manager \<Rightarrow> 'd world \<Rightarrow>
   (bool \<times> ib_addr_t \<times> manager \<times> 'd world) result" where
  "mgr_joinMCastGroup V cfg mCastAddress addr mgr w =
     (case mgr of
        ManagerRC m \<Rightarrow> (case rc_joinMCastGroup mCastAddress addr of (ok, a) \<Rightarrow> Inr (ok, a, mgr, w))
      | ManagerUD m \<Rightarrow>
          bindR (ud_joinMCastGroup V cfg mCastAddress addr m w) (\<lambda>(ok, a, m, w). Inr (ok, a, ManagerUD m, w)))"

definition mgr_leaveMCastGroup where
  "mgr_leaveMCastGroup V addr mgr w =
     (case mgr of ManagerRC m \<Rightarrow> Inr (rc_leaveMCastGroup addr, w) | ManagerUD m \<Rightarrow> ud_leaveMCastGroup V addr m w)"

definition mgr_sendMCast where
  "mgr_sendMCast V addr memAddr sz signaled mgr w =
     (case mgr of ManagerRC m \<Rightarrow> Inr (rc_sendMCast addr memAddr sz signaled, w)
      | ManagerUD m \<Rightarrow> ud_sendMCast V addr memAddr sz signaled m w)"

definition mgr_receiveMCast where
  "mgr_receiveMCast V cfg addr memAddr sz mgr w =
     (case mgr of ManagerRC m \<Rightarrow> Inr (rc_receiveMCast addr memAddr sz, w)
      | ManagerUD m \<Rightarrow> ud_receiveMCast V cfg addr memAddr sz m w)"

definition mgr_pollReceiveMCast where
  "mgr_pollReceiveMCast V addr mgr w =
     (case mgr of ManagerRC m \<Rightarrow> Inr (rc_pollReceiveMCast addr, w) | ManagerUD m \<Rightarrow> ud_pollReceiveMCast V addr m w)"

section \<open>Connection data on the wire\<close>

text \<open>
  The fields of \<open>ib_conn_t\<close> as the handlers copy them into a message (\<open>qp_num\<close> becomes a \<open>uint32\<close>) and
  back. Reading an entry of a \<open>gid\<close> that is too short ends in a protobuf check; the rest of the array is
  left as it is. \<open>ah\<close> is not sent.
\<close>

definition conn_message :: "ib_conn_t \<Rightarrow> nat \<Rightarrow> nat \<Rightarrow> ConnMessage" where
  "conn_message c qpn key =
     \<lparr>cm_buffer = conn_buffer c, cm_rkey = conn_rkey c, cm_qp_num = u32 qpn, cm_lid = conn_lid c,
      cm_gid = conn_gid c, cm_psn = conn_psn c, cm_server_connkey = key\<rparr>"

definition conn_of_message :: "('d, 'v) verbs_scheme \<Rightarrow> ConnMessage \<Rightarrow> ib_conn_t result" where
  "conn_of_message V c =
     (if length (cm_gid c) < 16 then Inl Fatal
      else Inr ((uninit_conn V)\<lparr>conn_buffer := cm_buffer c, conn_rkey := cm_rkey c, conn_qp_num := cm_qp_num c,
        conn_lid := cm_lid c mod 2 ^ 16, conn_gid := map (\<lambda>g. g mod 256) (take 16 (cm_gid c)), conn_psn := cm_psn c\<rparr>))"

end
