(* ===== verification/RDMA_Client.thy ===== *)
theory RDMA_Client
  imports Managers
begin

text \<open>
  \<open>RDMAClient\<close>: connecting to servers over the request/reply layer, remote memory, and the one-sided,
  two-sided and multicast transfers in their three forms (by address, by connection string, by node id).
\<close>

record rdma_client =
  cl_manager :: manager
  cl_clients :: "string \<rightharpoonup> proto_client"
  cl_addr :: "string \<rightharpoonup> ib_addr_t"
  cl_mgmt_addr :: "string \<rightharpoonup> ib_addr_t"
  cl_mcast_addr :: "string \<rightharpoonup> ib_addr_t"
  cl_countWR :: nat
  cl_nodeIDsIBaddr :: "ib_addr_t list"

definition newRDMAClient ::
  "('d, 'v) verbs_scheme \<Rightarrow> 'c rdma_config_scheme \<Rightarrow> ib_resource_t \<Rightarrow> nat \<Rightarrow> rdma_transport_t \<Rightarrow> 'd world \<Rightarrow>
   (rdma_client \<times> 'd world) result" where
  "newRDMAClient V cfg res0 mem_size transport w =
     bindR (newManager V cfg res0 mem_size transport w) (\<lambda>(mgr, w).
       Inr (\<lparr>cl_manager = mgr, cl_clients = Map.empty, cl_addr = Map.empty, cl_mgmt_addr = Map.empty,
             cl_mcast_addr = Map.empty, cl_countWR = 0, cl_nodeIDsIBaddr = []\<rparr>, w))"

section \<open>Helpers\<close>

text \<open>
  \<open>checkSignaled\<close>: every \<open>RDMA_MAX_WR\<close>-th work request is signaled, whatever the caller asked for.
\<close>

definition checkSignaled :: "'c rdma_config_scheme \<Rightarrow> bool \<Rightarrow> rdma_client \<Rightarrow> bool \<times> rdma_client" where
  "checkSignaled cfg signaled c =
     (let n = add64 (cl_countWR c) 1 in
      if n = cfg_RDMA_MAX_WR cfg then (True, c\<lparr>cl_countWR := 0\<rparr>)
      else (signaled, c\<lparr>cl_countWR := n\<rparr>))"

definition isConnected :: "string \<Rightarrow> rdma_client \<Rightarrow> bool" where
  "isConnected connection c \<longleftrightarrow> cl_clients c connection \<noteq> None"

text \<open>\<open>m_addr[connection]\<close> makes a default entry for an unknown connection.\<close>

definition addr_of :: "string \<Rightarrow> rdma_client \<Rightarrow> ib_addr_t \<times> rdma_client" where
  "addr_of connection c =
     (case cl_addr c connection of Some a \<Rightarrow> (a, c)
      | None \<Rightarrow> (ib_addr_init, c\<lparr>cl_addr := (cl_addr c)(connection \<mapsto> ib_addr_init)\<rparr>))"

text \<open>\<open>m_clients[connection]\<close> of a connection without client is a null pointer.\<close>

definition client_send_rpc ::
  "('d, 'n) net_scheme \<Rightarrow> string \<Rightarrow> any_msg \<Rightarrow> rdma_client \<Rightarrow> 'd world \<Rightarrow>
   (bool \<times> any_msg \<times> rdma_client \<times> 'd world) result" where
  "client_send_rpc N connection msg c w =
     (case cl_clients c connection of None \<Rightarrow> Inl NullDeref
      | Some pc \<Rightarrow>
          bindR (ProtoClient_send N pc msg w) (\<lambda>(ok, rcv, pc, w).
            Inr (ok, rcv, c\<lparr>cl_clients := (cl_clients c)(connection \<mapsto> pc)\<rparr>, w)))"

section \<open>Connecting\<close>

definition createManagementQueue ::
  "('d, 'n) net_scheme \<Rightarrow> 'c rdma_config_scheme \<Rightarrow> string \<Rightarrow> nat \<Rightarrow> rdma_client \<Rightarrow> 'd world \<Rightarrow>
   (bool \<times> rdma_client \<times> 'd world) result" where
  "createManagementQueue N cfg connection connKeyServer c w =
     bindR (mgr_initQP N cfg ib_addr_init True (cl_manager c) w) (\<lambda>(ok, clientAddr, mgr, w).
     let c = c\<lparr>cl_manager := mgr\<rparr> in
     if \<not> ok then Inr (False, c, w)
     else
       let c = c\<lparr>cl_mgmt_addr := (cl_mgmt_addr c)(connection \<mapsto> clientAddr)\<rparr> in
       bindR (mgr_getQPNum clientAddr mgr) (\<lambda>mgmtQPNum.
       bindR (mgr_getLocalConnData clientAddr mgr) (\<lambda>localConn.
       bindR (client_send_rpc N connection (RDMAConnRequestMgmt (conn_message localConn mgmtQPNum connKeyServer)) c w)
         (\<lambda>(ok, rcvAny, c, w).
       if \<not> ok then Inr (False, c, w)
       else case rcvAny of
         RDMAConnResponseMgmt connResponse \<Rightarrow>
           bindR (conn_of_message N connResponse) (\<lambda>remoteConn.
           bindR (mgr_connectQP N clientAddr (mgr_setRemoteConnData clientAddr remoteConn (cl_manager c)) w)
             (\<lambda>(ok, mgr, w). Inr (ok, c\<lparr>cl_manager := mgr\<rparr>, w)))
       | _ \<Rightarrow> Inr (False, c, w)))))"

text \<open>The exchange of connection data and the connection of the queue pair.\<close>

definition connect_exchange ::
  "('d, 'n) net_scheme \<Rightarrow> 'c rdma_config_scheme \<Rightarrow> string \<Rightarrow> ib_addr_t \<Rightarrow> bool \<Rightarrow> rdma_client \<Rightarrow> 'd world \<Rightarrow>
   (bool \<times> rdma_client \<times> 'd world) result" where
  "connect_exchange N cfg connection ibAddr managementQueue c w =
     bindR (mgr_getLocalConnData ibAddr (cl_manager c)) (\<lambda>localConn.
     bindR (client_send_rpc N connection (RDMAConnRequest (conn_message localConn (conn_qp_num localConn) 0)) c w)
       (\<lambda>(ok, rcvAny, c, w).
     if \<not> ok then Inr (False, c, w)
     else case rcvAny of
       RDMAConnResponse connResponse \<Rightarrow>
         bindR (conn_of_message N connResponse) (\<lambda>remoteConn.
         bindR (mgr_connectQP N ibAddr (mgr_setRemoteConnData ibAddr remoteConn (cl_manager c)) w) (\<lambda>(ok, mgr, w).
         let c = c\<lparr>cl_manager := mgr\<rparr> in
         if \<not> ok then Inr (False, c, w)
         else if managementQueue then createManagementQueue N cfg connection (cm_server_connkey connResponse) c w
         else Inr (True, c, w)))
     | _ \<Rightarrow> Inr (False, c, w)))"

definition connect_addr ::
  "('d, 'n) net_scheme \<Rightarrow> 'c rdma_config_scheme \<Rightarrow> string \<Rightarrow> ib_addr_t \<Rightarrow> bool \<Rightarrow> rdma_client \<Rightarrow> 'd world \<Rightarrow>
   (bool \<times> ib_addr_t \<times> rdma_client \<times> 'd world) result" where
  "connect_addr N cfg connection ibAddr managementQueue c w =
     (if isConnected connection c then
        (case addr_of connection c of (a, c) \<Rightarrow> Inr (True, a, c, w))
      else
        bindR (mgr_initQP N cfg ibAddr False (cl_manager c) w) (\<lambda>(ok, ibAddr, mgr, w).
        let c = c\<lparr>cl_manager := mgr\<rparr> in
        if \<not> ok then Inr (False, ibAddr, c, w)
        else
          let c = c\<lparr>cl_addr := (cl_addr c)(connection \<mapsto> ibAddr)\<rparr> in
          bindR (getAddressOfConnection connection) (\<lambda>ipAddr.
          bindR (getPortOfConnection connection) (\<lambda>ipPort.
          bindR (ProtoClient_connect N (newProtoClient ipAddr (int32_of ipPort)) w) (\<lambda>(client, w).
          bindR (connect_exchange N cfg connection ibAddr managementQueue
                   (c\<lparr>cl_clients := (cl_clients c)(connection \<mapsto> client)\<rparr>) w)
            (\<lambda>(ok, c, w). Inr (ok, ibAddr, c, w)))))))"

definition client_connect ::
  "('d, 'n) net_scheme \<Rightarrow> 'c rdma_config_scheme \<Rightarrow> string \<Rightarrow> bool \<Rightarrow> rdma_client \<Rightarrow> 'd world \<Rightarrow>
   (bool \<times> rdma_client \<times> 'd world) result" where
  "client_connect N cfg connection managementQueue c w =
     bindR (connect_addr N cfg connection ib_addr_init managementQueue c w) (\<lambda>(ok, _, c, w). Inr (ok, c, w))"

definition connect_node ::
  "('d, 'n) net_scheme \<Rightarrow> 'c rdma_config_scheme \<Rightarrow> string \<Rightarrow> nat \<Rightarrow> bool \<Rightarrow> rdma_client \<Rightarrow> 'd world \<Rightarrow>
   (bool \<times> rdma_client \<times> 'd world) result" where
  "connect_node N cfg connection nodeID managementQueue c w =
     bindR (connect_addr N cfg connection ib_addr_init managementQueue c w) (\<lambda>(ok, a, c, w).
       Inr (ok, if ok then c\<lparr>cl_nodeIDsIBaddr := resize_put ib_addr_init (cl_nodeIDsIBaddr c) nodeID a\<rparr> else c, w))"

definition client_getMgmtQueue :: "string \<Rightarrow> rdma_client \<Rightarrow> ib_addr_t result" where
  "client_getMgmtQueue connection c =
     (case cl_mgmt_addr c connection of Some a \<Rightarrow> Inr a | None \<Rightarrow> Inl OutOfRange)"

section \<open>Memory\<close>

definition client_localAlloc :: "'c rdma_config_scheme \<Rightarrow> nat \<Rightarrow> rdma_client \<Rightarrow> nat option \<times> rdma_client" where
  "client_localAlloc cfg sz c =
     (case mgr_localAlloc cfg sz (cl_manager c) of (p, mgr) \<Rightarrow> (p, c\<lparr>cl_manager := mgr\<rparr>))"

definition client_localFree :: "'c rdma_config_scheme \<Rightarrow> nat \<Rightarrow> rdma_client \<Rightarrow> bool \<times> rdma_client" where
  "client_localFree cfg ptr c =
     (case mgr_localFree cfg ptr (cl_manager c) of (b, mgr) \<Rightarrow> (b, c\<lparr>cl_manager := mgr\<rparr>))"

definition client_getBuffer :: "nat \<Rightarrow> rdma_client \<Rightarrow> nat" where
  "client_getBuffer off c = mgr_buffer (cl_manager c) + off"

text \<open>The remote operations return the offset through a reference, which a failure leaves as it was.\<close>

definition remoteAllocSegments ::
  "('d, 'n) net_scheme \<Rightarrow> 'c rdma_config_scheme \<Rightarrow> string \<Rightarrow> string \<Rightarrow> nat \<Rightarrow> nat \<Rightarrow> nat \<Rightarrow> Buffertype \<Rightarrow>
   rdma_client \<Rightarrow> 'd world \<Rightarrow> (bool \<times> nat \<times> rdma_client \<times> 'd world) result" where
  "remoteAllocSegments N cfg connection bufferName segmentsCount segmentsSize offset buffertype c w =
     bindR (client_connect N cfg connection False c w) (\<lambda>(ok, c, w).
     if \<not> ok then Inr (False, offset, c, w)
     else bindR (client_send_rpc N connection
            (createDPIAllocSegmentsRequest bufferName segmentsCount segmentsSize buffertype) c w)
       (\<lambda>(ok, rcvAny, c, w).
     if \<not> ok then Inr (False, offset, c, w)
     else case rcvAny of
       DPIAllocSegmentsResponse resResp \<Rightarrow>
         if asr_return resResp = error_code NO_ERROR then Inr (True, asr_offset resResp, c, w)
         else Inr (False, offset, c, w)
     | _ \<Rightarrow> Inr (False, offset, c, w)))"

definition client_remoteAlloc ::
  "('d, 'n) net_scheme \<Rightarrow> 'c rdma_config_scheme \<Rightarrow> string \<Rightarrow> nat \<Rightarrow> nat \<Rightarrow> rdma_client \<Rightarrow> 'd world \<Rightarrow>
   (bool \<times> nat \<times> rdma_client \<times> 'd world) result" where
  "client_remoteAlloc N cfg connection sz offset c w =
     bindR (client_connect N cfg connection False c w) (\<lambda>(ok, c, w).
     if \<not> ok then Inr (False, offset, c, w)
     else bindR (client_send_rpc N connection (createMemoryResourceRequest sz) c w) (\<lambda>(ok, rcvAny, c, w).
     if \<not> ok then Inr (False, offset, c, w)
     else case rcvAny of
       MemoryResourceResponse off ret \<Rightarrow>
         if ret = error_code NO_ERROR then Inr (True, off, c, w) else Inr (False, offset, c, w)
     | _ \<Rightarrow> Inr (False, offset, c, w)))"

definition client_remoteFree ::
  "('d, 'n) net_scheme \<Rightarrow> 'c rdma_config_scheme \<Rightarrow> string \<Rightarrow> nat \<Rightarrow> nat \<Rightarrow> rdma_client \<Rightarrow> 'd world \<Rightarrow>
   (bool \<times> rdma_client \<times> 'd world) result" where
  "client_remoteFree N cfg connection sz offset c w =
     bindR (client_connect N cfg connection False c w) (\<lambda>(ok, c, w).
     if \<not> ok then Inr (False, c, w)
     else bindR (client_send_rpc N connection (createMemoryResourceRelease sz offset) c w) (\<lambda>(ok, rcvAny, c, w).
     if \<not> ok then Inr (False, c, w)
     else case rcvAny of
       MemoryResourceResponse off ret \<Rightarrow> Inr (ret = error_code NO_ERROR, c, w)
     | _ \<Rightarrow> Inr (False, c, w)))"

section \<open>One-sided transfers\<close>

text \<open>A transfer of the manager leaves the client's own state alone.\<close>

definition run_op ::
  "(bool \<times> 'd world) result \<Rightarrow> rdma_client \<Rightarrow> (bool \<times> rdma_client \<times> 'd world) result" where
  "run_op r c = bindR r (\<lambda>(ok, w). Inr (ok, c, w))"

definition client_write_addr where
  "client_write_addr V cfg a off p sz signaled c w =
     (case checkSignaled cfg signaled c of (signaled, c) \<Rightarrow>
      run_op (mgr_remoteWrite V a off p sz signaled (cl_manager c) w) c)"

definition client_write_conn where
  "client_write_conn V cfg conn off p sz signaled c w =
     (case checkSignaled cfg signaled c of (signaled, c) \<Rightarrow> case addr_of conn c of (a, c) \<Rightarrow>
      run_op (mgr_remoteWrite V a off p sz signaled (cl_manager c) w) c)"

definition client_write where
  "client_write V cfg nid off p sz signaled c w =
     (case checkSignaled cfg signaled c of (signaled, c) \<Rightarrow>
      bindR (index_op (cl_nodeIDsIBaddr c) nid) (\<lambda>a.
        run_op (mgr_remoteWrite V a off p sz signaled (cl_manager c) w) c))"

text \<open>\<open>writeRC\<close> is the same call; the cast applies to its result.\<close>

definition writeRC where
  "writeRC V cfg nid off p sz signaled c w =
     (case checkSignaled cfg signaled c of (signaled, c) \<Rightarrow>
      bindR (index_op (cl_nodeIDsIBaddr c) nid) (\<lambda>a.
        run_op (mgr_remoteWrite V a off p sz signaled (cl_manager c) w) c))"

definition client_read_addr where
  "client_read_addr V cfg a off p sz signaled c w =
     (case checkSignaled cfg signaled c of (signaled, c) \<Rightarrow>
      run_op (mgr_remoteRead V a off p sz signaled (cl_manager c) w) c)"

definition client_read_conn where
  "client_read_conn V cfg conn off p sz signaled c w =
     (case checkSignaled cfg signaled c of (signaled, c) \<Rightarrow> case addr_of conn c of (a, c) \<Rightarrow>
      run_op (mgr_remoteRead V a off p sz signaled (cl_manager c) w) c)"

definition client_read where
  "client_read V cfg nid off p sz signaled c w =
     (case checkSignaled cfg signaled c of (signaled, c) \<Rightarrow>
      bindR (index_at (cl_nodeIDsIBaddr c) nid) (\<lambda>a.
        run_op (mgr_remoteRead V a off p sz signaled (cl_manager c) w) c))"

definition client_requestRead_addr where
  "client_requestRead_addr V a off p sz c w = run_op (mgr_requestRead V a off p sz (cl_manager c) w) c"

definition client_requestRead_conn where
  "client_requestRead_conn V conn off p sz c w =
     (case addr_of conn c of (a, c) \<Rightarrow> run_op (mgr_requestRead V a off p sz (cl_manager c) w) c)"

definition client_requestRead where
  "client_requestRead V nid off p sz c w =
     bindR (index_op (cl_nodeIDsIBaddr c) nid) (\<lambda>a. run_op (mgr_requestRead V a off p sz (cl_manager c) w) c)"

definition client_fetchAndAdd_addr where
  "client_fetchAndAdd_addr V cfg a off p sz signaled c w =
     (case checkSignaled cfg signaled c of (signaled, c) \<Rightarrow>
      run_op (mgr_remoteFetchAndAdd V a off p sz signaled (cl_manager c) w) c)"

definition client_fetchAndAdd_conn where
  "client_fetchAndAdd_conn V cfg conn off p sz signaled c w =
     (case checkSignaled cfg signaled c of (signaled, c) \<Rightarrow> case addr_of conn c of (a, c) \<Rightarrow>
      run_op (mgr_remoteFetchAndAdd V a off p sz signaled (cl_manager c) w) c)"

definition client_fetchAndAdd where
  "client_fetchAndAdd V cfg nid off p sz signaled c w =
     (case checkSignaled cfg signaled c of (signaled, c) \<Rightarrow>
      bindR (index_at (cl_nodeIDsIBaddr c) nid) (\<lambda>a.
        run_op (mgr_remoteFetchAndAdd V a off p sz signaled (cl_manager c) w) c))"

definition client_fetchAndAdd_value_conn where
  "client_fetchAndAdd_value_conn V cfg conn off p v sz signaled c w =
     (case checkSignaled cfg signaled c of (signaled, c) \<Rightarrow> case addr_of conn c of (a, c) \<Rightarrow>
      run_op (mgr_remoteFetchAndAdd_value V a off p v sz signaled (cl_manager c) w) c)"

definition client_fetchAndAdd_value where
  "client_fetchAndAdd_value V cfg nid off p v sz signaled c w =
     (case checkSignaled cfg signaled c of (signaled, c) \<Rightarrow>
      bindR (index_op (cl_nodeIDsIBaddr c) nid) (\<lambda>a.
        run_op (mgr_remoteFetchAndAdd_value V a off p v sz signaled (cl_manager c) w) c))"

definition client_compareAndSwap_addr where
  "client_compareAndSwap_addr V cfg a off p toCompare toSwap sz signaled c w =
     (case checkSignaled cfg signaled c of (signaled, c) \<Rightarrow>
      run_op (mgr_remoteCompareAndSwap V a off p toCompare toSwap sz signaled (cl_manager c) w) c)"

definition client_compareAndSwap_conn where
  "client_compareAndSwap_conn V cfg conn off p toCompare toSwap sz signaled c w =
     (case checkSignaled cfg signaled c of (signaled, c) \<Rightarrow> case addr_of conn c of (a, c) \<Rightarrow>
      run_op (mgr_remoteCompareAndSwap V a off p toCompare toSwap sz signaled (cl_manager c) w) c)"

definition client_compareAndSwap where
  "client_compareAndSwap V cfg nid off p toCompare toSwap sz signaled c w =
     (case checkSignaled cfg signaled c of (signaled, c) \<Rightarrow>
      bindR (index_at (cl_nodeIDsIBaddr c) nid) (\<lambda>a.
        run_op (mgr_remoteCompareAndSwap V a off p toCompare toSwap sz signaled (cl_manager c) w) c))"

section \<open>Two-sided transfers\<close>

definition client_receive_addr where
  "client_receive_addr V cfg a p sz c w = run_op (mgr_receive V cfg a p sz (cl_manager c) w) c"

definition client_receive_conn where
  "client_receive_conn V cfg conn p sz c w =
     (case addr_of conn c of (a, c) \<Rightarrow> run_op (mgr_receive V cfg a p sz (cl_manager c) w) c)"

definition client_receive where
  "client_receive V cfg nid p sz c w =
     bindR (index_at (cl_nodeIDsIBaddr c) nid) (\<lambda>a. run_op (mgr_receive V cfg a p sz (cl_manager c) w) c)"

definition client_send_addr where
  "client_send_addr V cfg a p sz signaled c w =
     (case checkSignaled cfg signaled c of (signaled, c) \<Rightarrow>
      run_op (mgr_send V a p sz signaled (cl_manager c) w) c)"

definition client_send_conn where
  "client_send_conn V cfg conn p sz signaled c w =
     (case checkSignaled cfg signaled c of (signaled, c) \<Rightarrow> case addr_of conn c of (a, c) \<Rightarrow>
      run_op (mgr_send V a p sz signaled (cl_manager c) w) c)"

definition client_send where
  "client_send V cfg nid p sz signaled c w =
     (case checkSignaled cfg signaled c of (signaled, c) \<Rightarrow>
      bindR (index_at (cl_nodeIDsIBaddr c) nid) (\<lambda>a. run_op (mgr_send V a p sz signaled (cl_manager c) w) c))"

definition client_pollReceive_addr where
  "client_pollReceive_addr V a c w = run_op (mgr_pollReceive V a True (cl_manager c) w) c"

definition client_pollReceive_conn where
  "client_pollReceive_conn V conn c w =
     (case addr_of conn c of (a, c) \<Rightarrow> run_op (mgr_pollReceive V a True (cl_manager c) w) c)"

definition client_pollReceive where
  "client_pollReceive V nid c w =
     bindR (index_at (cl_nodeIDsIBaddr c) nid) (\<lambda>a. run_op (mgr_pollReceive V a True (cl_manager c) w) c)"

definition client_pollSend_addr where
  "client_pollSend_addr V a c w = run_op (mgr_pollSend V a True (cl_manager c) w) c"

definition client_pollSend_conn where
  "client_pollSend_conn V conn c w =
     (case addr_of conn c of (a, c) \<Rightarrow> run_op (mgr_pollSend V a True (cl_manager c) w) c)"

definition client_pollSend where
  "client_pollSend V nid c w =
     bindR (index_op (cl_nodeIDsIBaddr c) nid) (\<lambda>a. run_op (mgr_pollSend V a True (cl_manager c) w) c)"

section \<open>Multicast\<close>

definition client_joinMCastGroup ::
  "('d, 'v) verbs_cm_scheme \<Rightarrow> 'c rdma_config_scheme \<Rightarrow> string \<Rightarrow> ib_addr_t \<Rightarrow> rdma_client \<Rightarrow> 'd world \<Rightarrow>
   (bool \<times> ib_addr_t \<times> rdma_client \<times> 'd world) result" where
  "client_joinMCastGroup V cfg mCastAddress retIbAddr c w =
     (if cl_mcast_addr c mCastAddress \<noteq> None then Inr (False, retIbAddr, c, w)
      else bindR (mgr_joinMCastGroup V cfg mCastAddress retIbAddr (cl_manager c) w) (\<lambda>(ok, a, mgr, w).
        let c = c\<lparr>cl_manager := mgr\<rparr> in
        Inr (ok, a, if ok then c\<lparr>cl_mcast_addr := (cl_mcast_addr c)(mCastAddress \<mapsto> a)\<rparr> else c, w)))"

text \<open>A group that was not joined makes each of the following fail.\<close>

definition client_leaveMCastGroup where
  "client_leaveMCastGroup V name c w =
     (case cl_mcast_addr c name of None \<Rightarrow> Inr (False, c, w)
      | Some a \<Rightarrow> run_op (mgr_leaveMCastGroup V a (cl_manager c) w) c)"

definition client_sendMCast where
  "client_sendMCast V name p sz signaled c w =
     (case cl_mcast_addr c name of None \<Rightarrow> Inr (False, c, w)
      | Some a \<Rightarrow> run_op (mgr_sendMCast V a p sz signaled (cl_manager c) w) c)"

definition client_receiveMCast where
  "client_receiveMCast V cfg name p sz c w =
     (case cl_mcast_addr c name of None \<Rightarrow> Inr (False, c, w)
      | Some a \<Rightarrow> run_op (mgr_receiveMCast V cfg a p sz (cl_manager c) w) c)"

definition client_pollReceiveMCast where
  "client_pollReceiveMCast V name c w =
     (case cl_mcast_addr c name of None \<Rightarrow> Inr (False, c, w)
      | Some a \<Rightarrow> run_op (mgr_pollReceiveMCast V a (cl_manager c) w) c)"

section \<open>Properties\<close>

lemma isConnected_upd [simp]:
  "isConnected connection (c\<lparr>cl_manager := m\<rparr>) = isConnected connection c"
  "isConnected connection (c\<lparr>cl_mgmt_addr := f\<rparr>) = isConnected connection c"
  by (simp_all add: isConnected_def)

lemma client_send_rpc_keeps:
  assumes "client_send_rpc N connection msg c w = Inr (ok, rcv, c', w')"
  shows "isConnected connection c' \<and> cl_addr c' = cl_addr c"
  using assms by (auto simp: client_send_rpc_def isConnected_def bindR_eq_Inr split: option.splits)

lemma createManagementQueue_keeps:
  "isConnected connection c \<Longrightarrow>
     okR (\<lambda>(ok, c', w'). isConnected connection c' \<and> cl_addr c' = cl_addr c) (createManagementQueue N cfg connection k c w)"
  unfolding createManagementQueue_def Let_def
  by (intro okR_bind) (auto split: any_msg.splits intro!: okR_bind dest!: client_send_rpc_keeps)

lemma connect_exchange_keeps:
  assumes "isConnected connection c"
  shows "okR (\<lambda>(ok, c', w'). isConnected connection c' \<and> cl_addr c' = cl_addr c) (connect_exchange N cfg connection a mq c w)"
proof -
  have "okR (\<lambda>(ok, c', w'). isConnected connection c' \<and> cl_addr c' = cl_addr c)
      (createManagementQueue N cfg connection k (c1\<lparr>cl_manager := m\<rparr>) w1)"
    if "isConnected connection c1" "cl_addr c1 = cl_addr c" for k c1 m w1
    using createManagementQueue_keeps [of connection "c1\<lparr>cl_manager := m\<rparr>" N cfg k w1] that by simp
  then show ?thesis
    unfolding connect_exchange_def Let_def
    by (intro okR_bind) (auto split: any_msg.splits intro!: okR_bind dest!: client_send_rpc_keeps)
qed

text \<open>
  Claim C37. \<open>connect\<close> registers its RPC client before it exchanges connection data. So when the exchange
  fails (the server refuses, answers something else, or the queue pair cannot be connected), the first call
  reports the failure, but every later call for the same connection reports success without doing anything.
\<close>

theorem connect_retry_reports_success:
  assumes "\<not> isConnected connection c"
    and "mgr_initQP N cfg ib_addr_init False (cl_manager c) w = Inr (True, a, mgr, w1)"
    and "getAddressOfConnection connection = Inr ip" and "getPortOfConnection connection = Inr port"
    and "ProtoClient_connect N (newProtoClient ip (int32_of port)) w1 = Inr (pc, w2)"
    and "connect_exchange N cfg connection a mq
      (c\<lparr>cl_manager := mgr, cl_addr := (cl_addr c)(connection \<mapsto> a), cl_clients := (cl_clients c)(connection \<mapsto> pc)\<rparr>) w2 =
      Inr (False, c', w')"
  shows "client_connect N cfg connection mq c w = Inr (False, c', w') \<and>
    (\<forall>w. client_connect N cfg connection mq c' w = Inr (True, c', w))"
proof -
  have k: "isConnected connection c'" "cl_addr c' connection = Some a"
    using okRD [OF connect_exchange_keeps assms(6)] by (auto simp: isConnected_def)
  have "client_connect N cfg connection mq c w = Inr (False, c', w')"
    using assms by (simp add: client_connect_def connect_addr_def Let_def)
  moreover have "client_connect N cfg connection mq c' v = Inr (True, c', v)" for v
    using k by (simp add: client_connect_def connect_addr_def addr_of_def)
  ultimately show ?thesis by blast
qed

definition plain_client :: rdma_client where
  "plain_client = \<lparr>cl_manager = ManagerRC small_manager, cl_clients = Map.empty, cl_addr = Map.empty,
     cl_mgmt_addr = Map.empty, cl_mcast_addr = Map.empty, cl_countWR = 0, cl_nodeIDsIBaddr = []\<rparr>"

theorem connect_retry_reports_success_witness:
  "\<exists>c' w'. client_connect (canned_net (ErrorMessage 1)) rc_config (getConnection ''a'' 5) False plain_client idle_world = Inr (False, c', w') \<and>
     client_connect (canned_net (ErrorMessage 1)) rc_config (getConnection ''a'' 5) False c' w' = Inr (True, c', w')"
proof -
  let ?N = "canned_net (ErrorMessage 1)"
  have "\<exists>m w1. mgr_initQP ?N rc_config ib_addr_init False (ManagerRC small_manager) idle_world =
      Inr (True, \<lparr>conn_key = 0\<rparr>, ManagerRC m, w1) \<and> length (m_lconns m) = 1"
    by (simp add: mgr_initQP_def rc_initQP_def createCQ_def rc_createQP_def rc_modifyQPToInit_def nextConnKey_def setQP_def
        setLocalConnData_def ready_verbs_def canned_defs idle_world_def small_manager_def rdma_manager_init_def ib_addr_init_def
        Let_def)
  then obtain m w1 where i: "mgr_initQP ?N rc_config ib_addr_init False (cl_manager plain_client) idle_world =
      Inr (True, \<lparr>conn_key = 0\<rparr>, ManagerRC m, w1)" "length (m_lconns m) = 1"
    by (auto simp: plain_client_def)
  have n: "\<not> isConnected (getConnection ''a'' 5) plain_client" by (simp add: isConnected_def plain_client_def)
  obtain port where ap: "getAddressOfConnection (getConnection ''a'' 5) = Inr ''a''"
    and port: "getPortOfConnection (getConnection ''a'' 5) = Inr port"
    using getConnection_parts [of "''a''" 5] by auto
  note pc = canned_connect [of "ErrorMessage 1" "''a''" "int32_of port" w1]
  show ?thesis
    using connect_retry_reports_success [OF n i(1) ap port pc] i(2)
    by (fastforce simp: connect_exchange_def mgr_getLocalConnData_def getLocalConnData_def client_send_rpc_def canned_send)
qed

end
