(* ===== verification/RC_Fabric.thy ===== *)
theory RC_Fabric
  imports RDMA_Client
begin

text \<open>
  What the code relies on from a connected reliable queue pair, as a locale: requests execute in order,
  a write takes effect with the bytes the local memory holds when it is posted as long as these bytes are
  left alone until a later signaled request completes, a signaled read has put the peer's bytes into local
  memory when its completion is polled, and polling for an outstanding completion ends. The transfers of
  the manager and of the client are proved against it once. A fabric that defers every request until
  the completion is polled is an instance.
\<close>

section \<open>The contract\<close>

text \<open>
  \<open>rmem\<close> is the peer's memory once all posted requests are executed, \<open>due\<close> the local memory at that
  moment, \<open>busy\<close> the local bytes that posted requests still access, \<open>posted\<close> the occupied slots of the
  send queue, \<open>pend\<close> whether a completion is outstanding, \<open>rank\<close> how long polling for it can take. The peer
  is quiescent: only this queue pair changes its memory.
\<close>

locale rc_fabric =
  fixes V :: "('d, 'v) verbs_scheme" and p :: ibv_qp and cq :: nat
    and lkey :: nat and rkey :: nat and lreg :: "nat set" and rreg :: "nat set" and slots :: nat
    and up :: "'d world \<Rightarrow> bool" and rmem :: "'d world \<Rightarrow> mem" and due :: "'d world \<Rightarrow> mem"
    and busy :: "'d world \<Rightarrow> nat set" and posted :: "'d world \<Rightarrow> nat" and pend :: "'d world \<Rightarrow> bool"
    and rank :: "'d world \<Rightarrow> nat"
  assumes store: "up w \<Longrightarrow> \<not> pend w \<Longrightarrow> \<forall>a \<in> busy w. m a = lmem w a \<Longrightarrow>
      up (w\<lparr>lmem := m\<rparr>) \<and> rmem (w\<lparr>lmem := m\<rparr>) = rmem w \<and> busy (w\<lparr>lmem := m\<rparr>) = busy w \<and>
      posted (w\<lparr>lmem := m\<rparr>) = posted w \<and> \<not> pend (w\<lparr>lmem := m\<rparr>)"
    and post_write: "up w \<Longrightarrow> \<not> pend w \<Longrightarrow> posted w < slots \<Longrightarrow>
      wr_opcode wr = IBV_WR_RDMA_WRITE \<Longrightarrow> wr_lkey wr = lkey \<Longrightarrow> wr_rkey wr = rkey \<Longrightarrow>
      {wr_addr wr..<wr_addr wr + wr_length wr} \<subseteq> lreg \<Longrightarrow>
      {wr_remote_addr wr..<wr_remote_addr wr + wr_length wr} \<subseteq> rreg \<Longrightarrow>
      \<exists>w'. ibv_post_send V p wr w = (0, w') \<and> up w' \<and> lmem w' = lmem w \<and> due w' = lmem w \<and>
        rmem w' = mem_write (rmem w) (wr_remote_addr wr) (mem_read (lmem w) (wr_addr wr) (wr_length wr)) \<and>
        busy w' = busy w \<union> {wr_addr wr..<wr_addr wr + wr_length wr} \<and>
        posted w' = Suc (posted w) \<and> pend w' = wr_signaled wr"
    and post_read: "up w \<Longrightarrow> \<not> pend w \<Longrightarrow> posted w < slots \<Longrightarrow>
      wr_opcode wr = IBV_WR_RDMA_READ \<Longrightarrow> wr_signaled wr \<Longrightarrow> wr_lkey wr = lkey \<Longrightarrow> wr_rkey wr = rkey \<Longrightarrow>
      {wr_addr wr..<wr_addr wr + wr_length wr} \<subseteq> lreg \<Longrightarrow>
      {wr_remote_addr wr..<wr_remote_addr wr + wr_length wr} \<subseteq> rreg \<Longrightarrow>
      \<exists>w'. ibv_post_send V p wr w = (0, w') \<and> up w' \<and> rmem w' = rmem w \<and> pend w' \<and>
        due w' = mem_write (lmem w) (wr_addr wr) (mem_read (rmem w) (wr_remote_addr wr) (wr_length wr))"
    and poll: "up w \<Longrightarrow> pend w \<Longrightarrow>
      \<exists>ne st w'. ibv_poll_cq V cq w = ((ne, st), w') \<and> up w' \<and> rmem w' = rmem w \<and>
        (ne = 0 \<and> pend w' \<and> due w' = due w \<and> rank w' < rank w \<or>
         ne = 1 \<and> st = 0 \<and> \<not> pend w' \<and> lmem w' = due w \<and> busy w' = {} \<and> posted w' = 0)"
begin

lemma poll_once_cases:
  assumes "up w" "pend w"
  obtains (later) w' where "poll_once V cq w = (0, 0, w')" "up w'" "pend w'" "rmem w' = rmem w"
      "due w' = due w" "rank w' < rank w"
    | (now) w' where "poll_once V cq w = (1, 0, w')" "up w'" "\<not> pend w'" "rmem w' = rmem w"
      "lmem w' = due w" "busy w' = {}" "posted w' = 0"
  using poll [OF assms] by (auto simp: poll_once_def)

text \<open>Waiting for an outstanding completion ends, successfully.\<close>

lemma wait_ends:
  assumes "up w" "pend w"
  shows "\<exists>w'. wait_completion V cq w = Inr (True, w') \<and> up w' \<and> \<not> pend w' \<and> rmem w' = rmem w \<and>
    lmem w' = due w \<and> busy w' = {} \<and> posted w' = 0"
proof -
  let ?c = "\<lambda>(ne :: int, st :: int, w :: 'd world). st = 0 \<and> ne = 0"
  let ?b = "\<lambda>(ne :: int, st :: int, w :: 'd world). Inr (poll_once V cq w) :: (int \<times> int \<times> 'd world) result"
  let ?P = "\<lambda>(ne :: int, st :: int, t). up t \<and> rmem t = rmem w \<and> st = 0 \<and>
      (ne = 0 \<and> pend t \<and> due t = due w \<or> ne = 1 \<and> \<not> pend t \<and> lmem t = due w \<and> busy t = {} \<and> posted t = 0)"
  have start: "?P (poll_once V cq w)"
    using assms by (cases rule: poll_once_cases [OF assms]) auto
  have "\<exists>t. loopR ?c ?b (poll_once V cq w) = Inr t \<and> ?P t \<and> \<not> ?c t"
  proof (rule loopR_total [where rank = "\<lambda>(ne, st, t). (if ne = 0 then Suc (rank t) else 0)"])
    show "?P (poll_once V cq w)" by (rule start)
  next
    fix t assume P: "?P t" and c: "?c t"
    obtain ne st u where t: "t = (ne, st, u)" by (cases t) auto
    from P c have u: "ne = 0" "up u" "pend u" "rmem u = rmem w" "due u = due w" by (auto simp: t)
    show "\<exists>t'. ?b t = Inr t' \<and> ?P t' \<and>
        (case t' of (ne, st, t) \<Rightarrow> if ne = 0 then Suc (rank t) else 0) < (case t of (ne, st, t) \<Rightarrow> if ne = 0 then Suc (rank t) else 0)"
      using u by (cases rule: poll_once_cases [OF u(2,3)]) (auto simp: t)
  qed
  then show ?thesis by (fastforce simp: wait_completion_def)
qed

end

section \<open>The manager's and the client's transfers\<close>

text \<open>
  The connection a client reaches under an address: its queue pair, completion queue and keys, and the
  peer's buffer starting at \<open>rb\<close>.
\<close>

definition linked :: "rdma_manager \<Rightarrow> ib_addr_t \<Rightarrow> ibv_qp \<Rightarrow> nat \<Rightarrow> nat \<Rightarrow> nat \<Rightarrow> nat \<Rightarrow> bool" where
  "linked m a p cq lkey rkey rb \<longleftrightarrow>
     conn_key a < length (m_qps m) \<and> conn_key a < length (m_rconns m) \<and>
     qp (m_qps m ! conn_key a) = Some p \<and> send_cq (m_qps m ! conn_key a) = cq \<and>
     conn_buffer (m_rconns m ! conn_key a) = rb \<and> conn_rkey (m_rconns m ! conn_key a) = rkey \<and>
     map_option mr_lkey (res_mr (m_res m)) = Some lkey"

text \<open>A client that reaches node \<open>nid\<close> over the queue pair, with its request counter below the limit.\<close>

definition client_on ::
  "nat \<Rightarrow> nat \<Rightarrow> ibv_qp \<Rightarrow> nat \<Rightarrow> nat \<Rightarrow> nat \<Rightarrow> nat \<Rightarrow> rdma_client \<Rightarrow> bool" where
  "client_on limit nid p cq lkey rkey rb c \<longleftrightarrow>
     nid < length (cl_nodeIDsIBaddr c) \<and> cl_countWR c < limit \<and> limit < 2 ^ 64 \<and>
     (\<exists>m. cl_manager c = ManagerRC m \<and> linked m (cl_nodeIDsIBaddr c ! nid) p cq lkey rkey rb)"

lemma checkSignaled_count:
  assumes "cl_countWR c < cfg_RDMA_MAX_WR cfg" "cfg_RDMA_MAX_WR cfg < 2 ^ 64"
  obtains s' n where "checkSignaled cfg s c = (s', c\<lparr>cl_countWR := n\<rparr>)" "n < cfg_RDMA_MAX_WR cfg"
    "s \<Longrightarrow> s'" "s' \<or> n = Suc (cl_countWR c)"
proof -
  have "add64 (cl_countWR c) 1 = Suc (cl_countWR c)" using assms(1,2) by (simp add: add64_small)
  then show ?thesis
    using that [of "s \<or> Suc (cl_countWR c) = cfg_RDMA_MAX_WR cfg"
        "if Suc (cl_countWR c) = cfg_RDMA_MAX_WR cfg then 0 else Suc (cl_countWR c)"] assms(1)
    by (auto simp: checkSignaled_def Let_def)
qed

lemma client_on_count [simp]:
  "client_on limit nid p cq lkey rkey rb (c\<lparr>cl_countWR := n\<rparr>) \<longleftrightarrow>
     n < limit \<and> nid < length (cl_nodeIDsIBaddr c) \<and> limit < 2 ^ 64 \<and>
     (\<exists>m. cl_manager c = ManagerRC m \<and> linked m (cl_nodeIDsIBaddr c ! nid) p cq lkey rkey rb)"
  by (auto simp: client_on_def)

context rc_fabric
begin

text \<open>The state between two transfers: nothing to wait for, and the counter bounds the occupied slots.\<close>

definition ready :: "rdma_client \<Rightarrow> 'd world \<Rightarrow> bool" where
  "ready c w \<longleftrightarrow> up w \<and> \<not> pend w \<and> posted w \<le> cl_countWR c"

lemma remoteAccess_post:
  assumes "linked m a p cq lkey rkey rb"
  shows "rc_remoteAccess V a off la sz sig wait verb m w =
    post_and_wait V (m_qps m ! conn_key a)
      ((sge_wr verb sig la sz lkey)\<lparr>wr_remote_addr := add64 rb off, wr_rkey := rkey\<rparr>) (sig \<and> wait) w"
  using assms by (auto simp: rc_remoteAccess_def linked_def local_key_def split: option.splits)

lemma remoteWrite_ok:
  assumes "linked m a p cq lkey rkey rb" "up w" "\<not> pend w" "posted w < slots"
    "sz < 2 ^ 32" "rb + off < 2 ^ 64" "{la..<la + sz} \<subseteq> lreg" "{rb + off..<rb + off + sz} \<subseteq> rreg"
  shows "\<exists>w'. rc_remoteWrite V a off la sz sig m w = Inr (True, w') \<and> up w' \<and> \<not> pend w' \<and> lmem w' = lmem w \<and>
    rmem w' = mem_write (rmem w) (rb + off) (mem_read (lmem w) la sz) \<and>
    (if sig then busy w' = {} \<and> posted w' = 0
     else busy w' = busy w \<union> {la..<la + sz} \<and> posted w' = Suc (posted w))"
proof -
  let ?wr = "(sge_wr IBV_WR_RDMA_WRITE sig la sz lkey)\<lparr>wr_remote_addr := add64 rb off, wr_rkey := rkey\<rparr>"
  have wr: "wr_opcode ?wr = IBV_WR_RDMA_WRITE" "wr_lkey ?wr = lkey" "wr_rkey ?wr = rkey" "wr_addr ?wr = la"
    "wr_length ?wr = sz" "wr_remote_addr ?wr = rb + off" "wr_signaled ?wr = sig"
    using assms(5,6) by (simp_all add: sge_wr_def u32_small add64_small)
  obtain w1 where w1: "ibv_post_send V p ?wr w = (0, w1)" "up w1" "lmem w1 = lmem w" "due w1 = lmem w"
    "rmem w1 = mem_write (rmem w) (rb + off) (mem_read (lmem w) la sz)"
    "busy w1 = busy w \<union> {la..<la + sz}" "posted w1 = Suc (posted w)" "pend w1 = sig"
    using post_write [OF assms(2-4) wr(1-3)] assms(7,8) wr by auto
  have q: "qp (m_qps m ! conn_key a) = Some p" "send_cq (m_qps m ! conn_key a) = cq"
    using assms(1) by (auto simp: linked_def)
  have step: "rc_remoteWrite V a off la sz sig m w = (if sig then wait_completion V cq w1 else Inr (True, w1))"
    using w1(1) q by (simp add: rc_remoteWrite_def remoteAccess_post [OF assms(1)] post_and_wait_def)
  show ?thesis
  proof (cases sig)
    case True
    then have "rc_remoteWrite V a off la sz sig m w = wait_completion V cq w1" "pend w1"
      using step w1(8) by simp_all
    with wait_ends [OF w1(2)] w1(4,5) True show ?thesis by metis
  next
    case False
    then have "rc_remoteWrite V a off la sz sig m w = Inr (True, w1)" using step by simp
    with w1 False show ?thesis by auto
  qed
qed

lemma remoteRead_ok:
  assumes "linked m a p cq lkey rkey rb" "up w" "\<not> pend w" "posted w < slots"
    "sz < 2 ^ 32" "rb + off < 2 ^ 64" "{la..<la + sz} \<subseteq> lreg" "{rb + off..<rb + off + sz} \<subseteq> rreg"
  shows "\<exists>w'. rc_remoteRead V a off la sz True m w = Inr (True, w') \<and> up w' \<and> \<not> pend w' \<and>
    lmem w' = mem_write (lmem w) la (mem_read (rmem w) (rb + off) sz) \<and> rmem w' = rmem w \<and>
    busy w' = {} \<and> posted w' = 0"
proof -
  let ?wr = "(sge_wr IBV_WR_RDMA_READ True la sz lkey)\<lparr>wr_remote_addr := add64 rb off, wr_rkey := rkey\<rparr>"
  have wr: "wr_opcode ?wr = IBV_WR_RDMA_READ" "wr_signaled ?wr" "wr_lkey ?wr = lkey" "wr_rkey ?wr = rkey"
    "wr_addr ?wr = la" "wr_length ?wr = sz" "wr_remote_addr ?wr = rb + off"
    using assms(5,6) by (simp_all add: sge_wr_def u32_small add64_small)
  obtain w1 where w1: "ibv_post_send V p ?wr w = (0, w1)" "up w1" "pend w1" "rmem w1 = rmem w"
    "due w1 = mem_write (lmem w) la (mem_read (rmem w) (rb + off) sz)"
    using post_read [OF assms(2-4) wr(1-4)] assms(7,8) wr by auto
  have q: "qp (m_qps m ! conn_key a) = Some p" "send_cq (m_qps m ! conn_key a) = cq"
    using assms(1) by (auto simp: linked_def)
  have "rc_remoteRead V a off la sz True m w = wait_completion V cq w1"
    using w1(1) q by (simp add: rc_remoteRead_def remoteAccess_post [OF assms(1)] post_and_wait_def)
  with wait_ends [OF w1(2,3)] w1 show ?thesis by auto
qed

text \<open>
  \<open>writeRC\<close> and \<open>read\<close> of the client: they succeed, the send queue never overflows, a signaled write frees
  every local byte.
\<close>

lemma writeRC_ok:
  assumes "client_on (cfg_RDMA_MAX_WR cfg) nid p cq lkey rkey rb c" "ready c w" "cfg_RDMA_MAX_WR cfg \<le> slots"
    "sz < 2 ^ 32" "rb + off < 2 ^ 64" "{la..<la + sz} \<subseteq> lreg" "{rb + off..<rb + off + sz} \<subseteq> rreg"
  shows "\<exists>n w'. writeRC V cfg nid off la sz sig c w = Inr (True, c\<lparr>cl_countWR := n\<rparr>, w') \<and>
    n < cfg_RDMA_MAX_WR cfg \<and> ready (c\<lparr>cl_countWR := n\<rparr>) w' \<and> lmem w' = lmem w \<and>
    rmem w' = mem_write (rmem w) (rb + off) (mem_read (lmem w) la sz) \<and>
    busy w' \<subseteq> busy w \<union> {la..<la + sz} \<and> (sig \<longrightarrow> busy w' = {})"
proof -
  obtain m where c: "cl_manager c = ManagerRC m" "linked m (cl_nodeIDsIBaddr c ! nid) p cq lkey rkey rb"
    "nid < length (cl_nodeIDsIBaddr c)" "cl_countWR c < cfg_RDMA_MAX_WR cfg" "cfg_RDMA_MAX_WR cfg < 2 ^ 64"
    using assms(1) by (auto simp: client_on_def)
  obtain s n where C: "checkSignaled cfg sig c = (s, c\<lparr>cl_countWR := n\<rparr>)" "n < cfg_RDMA_MAX_WR cfg"
    "sig \<Longrightarrow> s" "s \<or> n = Suc (cl_countWR c)"
    using checkSignaled_count [OF c(4,5)] by metis
  have w: "up w" "\<not> pend w" "posted w \<le> cl_countWR c" using assms(2) by (auto simp: ready_def)
  have room: "posted w < slots" using w(3) c(4) assms(3) by simp
  obtain w' where w': "rc_remoteWrite V (cl_nodeIDsIBaddr c ! nid) off la sz s m w = Inr (True, w')" "up w'"
    "\<not> pend w'" "lmem w' = lmem w" "rmem w' = mem_write (rmem w) (rb + off) (mem_read (lmem w) la sz)"
    "if s then busy w' = {} \<and> posted w' = 0 else busy w' = busy w \<union> {la..<la + sz} \<and> posted w' = Suc (posted w)"
    using remoteWrite_ok [OF c(2) w(1,2) room assms(4-7), of s] by blast
  have "writeRC V cfg nid off la sz sig c w = Inr (True, c\<lparr>cl_countWR := n\<rparr>, w')"
    using C(1) c(1,3) w'(1) by (simp add: writeRC_def mgr_remoteWrite_def run_op_def)
  moreover have "ready (c\<lparr>cl_countWR := n\<rparr>) w'" using w' w(3) C(4) by (auto simp: ready_def split: if_splits)
  moreover have "busy w' \<subseteq> busy w \<union> {la..<la + sz} \<and> (sig \<longrightarrow> busy w' = {})"
    using w'(6) C(3) by (auto split: if_splits)
  ultimately show ?thesis using C(2) w'(4,5) by blast
qed

lemma client_read_ok:
  assumes "client_on (cfg_RDMA_MAX_WR cfg) nid p cq lkey rkey rb c" "ready c w" "cfg_RDMA_MAX_WR cfg \<le> slots"
    "sz < 2 ^ 32" "rb + off < 2 ^ 64" "{la..<la + sz} \<subseteq> lreg" "{rb + off..<rb + off + sz} \<subseteq> rreg"
  shows "\<exists>n w'. client_read V cfg nid off la sz True c w = Inr (True, c\<lparr>cl_countWR := n\<rparr>, w') \<and>
    n < cfg_RDMA_MAX_WR cfg \<and> ready (c\<lparr>cl_countWR := n\<rparr>) w' \<and>
    lmem w' = mem_write (lmem w) la (mem_read (rmem w) (rb + off) sz) \<and> rmem w' = rmem w \<and> busy w' = {}"
proof -
  obtain m where c: "cl_manager c = ManagerRC m" "linked m (cl_nodeIDsIBaddr c ! nid) p cq lkey rkey rb"
    "nid < length (cl_nodeIDsIBaddr c)" "cl_countWR c < cfg_RDMA_MAX_WR cfg" "cfg_RDMA_MAX_WR cfg < 2 ^ 64"
    using assms(1) by (auto simp: client_on_def)
  obtain s n where C: "checkSignaled cfg True c = (s, c\<lparr>cl_countWR := n\<rparr>)" "n < cfg_RDMA_MAX_WR cfg"
    "True \<Longrightarrow> s" "s \<or> n = Suc (cl_countWR c)"
    using checkSignaled_count [OF c(4,5)] by metis
  have w: "up w" "\<not> pend w" "posted w \<le> cl_countWR c" using assms(2) by (auto simp: ready_def)
  have room: "posted w < slots" using w(3) c(4) assms(3) by simp
  obtain w' where w': "rc_remoteRead V (cl_nodeIDsIBaddr c ! nid) off la sz True m w = Inr (True, w')" "up w'"
    "\<not> pend w'" "lmem w' = mem_write (lmem w) la (mem_read (rmem w) (rb + off) sz)" "rmem w' = rmem w"
    "busy w' = {}" "posted w' = 0"
    using remoteRead_ok [OF c(2) w(1,2) room assms(4-7)] by blast
  have "client_read V cfg nid off la sz True c w = Inr (True, c\<lparr>cl_countWR := n\<rparr>, w')"
    using C(1,3) c(1,3) w'(1) by (simp add: client_read_def mgr_remoteRead_def run_op_def)
  moreover have "ready (c\<lparr>cl_countWR := n\<rparr>) w'" using w' by (simp add: ready_def)
  ultimately show ?thesis using C(2) w'(4-6) by blast
qed

end

section \<open>A deferred fabric\<close>

text \<open>
  A device that only queues what is posted, reports nothing for \<open>fab_delay\<close> polls, and then executes the
  whole queue on the memories as they are at that moment.
\<close>

record fab =
  fab_mem :: mem
  fab_queue :: "send_wr list"
  fab_delay :: nat

definition fab_lreg :: "nat set" where
  "fab_lreg = {4096..<4096 + 4096}"

definition fab_rreg :: "nat set" where
  "fab_rreg = {65536..<65536 + 4096}"

definition fab_wr_ok :: "send_wr \<Rightarrow> bool" where
  "fab_wr_ok wr \<longleftrightarrow> wr_lkey wr = 1 \<and> wr_rkey wr = 2 \<and>
     4096 \<le> wr_addr wr \<and> wr_addr wr + wr_length wr \<le> 8192 \<and>
     65536 \<le> wr_remote_addr wr \<and> wr_remote_addr wr + wr_length wr \<le> 69632 \<and>
     wr_opcode wr \<in> {IBV_WR_RDMA_WRITE, IBV_WR_RDMA_READ}"

text \<open>One request on local and remote memory.\<close>

definition fab_exec :: "send_wr \<Rightarrow> mem \<times> mem \<Rightarrow> mem \<times> mem" where
  "fab_exec wr lr =
     (if wr_opcode wr = IBV_WR_RDMA_WRITE
      then (fst lr, mem_write (snd lr) (wr_remote_addr wr) (mem_read (fst lr) (wr_addr wr) (wr_length wr)))
      else (mem_write (fst lr) (wr_addr wr) (mem_read (snd lr) (wr_remote_addr wr) (wr_length wr)), snd lr))"

definition fab_slots :: nat where
  "fab_slots = 8"

definition fab_post_send :: "ibv_qp \<Rightarrow> send_wr \<Rightarrow> fab world \<Rightarrow> int \<times> fab world" where
  "fab_post_send q wr w =
     (if length (fab_queue (dev w)) < fab_slots \<and> (wr_length wr = 0 \<or> fab_wr_ok wr)
      then (0, w\<lparr>dev := (dev w)\<lparr>fab_queue := fab_queue (dev w) @ [wr], fab_delay := 2\<rparr>\<rparr>)
      else (12, w))"

definition fab_flush :: "fab world \<Rightarrow> mem \<times> mem" where
  "fab_flush w = fold fab_exec (fab_queue (dev w)) (lmem w, fab_mem (dev w))"

definition fab_pend :: "fab world \<Rightarrow> bool" where
  "fab_pend w \<longleftrightarrow> (\<exists>wr \<in> set (fab_queue (dev w)). wr_signaled wr)"

definition fab_poll_cq :: "nat \<Rightarrow> fab world \<Rightarrow> (int \<times> int) \<times> fab world" where
  "fab_poll_cq cq w =
     (if \<not> fab_pend w then ((0, 0), w)
      else if 0 < fab_delay (dev w) then ((0, 0), w\<lparr>dev := (dev w)\<lparr>fab_delay := fab_delay (dev w) - 1\<rparr>\<rparr>)
      else ((1, 0), w\<lparr>lmem := fst (fab_flush w),
                      dev := (dev w)\<lparr>fab_mem := snd (fab_flush w), fab_queue := []\<rparr>\<rparr>))"

text \<open>Device calls that are not exercised fail.\<close>

definition fab_verbs :: "fab verbs" where
  "fab_verbs =
     \<lparr>ibv_post_send = fab_post_send, ibv_post_recv = (\<lambda>_ _ w. (1, w)), ibv_poll_cq = fab_poll_cq,
      ibv_create_cq = (\<lambda>_ _ w. (None, w)), ibv_destroy_cq = (\<lambda>_ w. (1, w)), ibv_create_qp = (\<lambda>_ _ w. (None, w)),
      ibv_destroy_qp = (\<lambda>_ w. (1, w)), ibv_modify_qp = (\<lambda>_ _ _ w. (1, w)), ibv_exp_query_device = (\<lambda>_ w. (1, w)),
      ibv_create_ah = (\<lambda>_ _ w. (None, w)), ibv_get_device_list = (\<lambda>w. (None, w)),
      ibv_open_device = (\<lambda>_ w. (None, w)), ibv_query_port = (\<lambda>_ _ w. ((1, 0), w)),
      numa_alloc_onnode = (\<lambda>_ _ w. (None, w)), numa_free = (\<lambda>_ _ w. w), ibv_alloc_pd = (\<lambda>_ w. (None, w)),
      ibv_dealloc_pd = (\<lambda>_ w. w), ibv_reg_mr = (\<lambda>_ _ _ w. (None, w)), ibv_dereg_mr = (\<lambda>_ w. w),
      ibv_close_device = (\<lambda>_ w. w), lrand48 = (\<lambda>w. (0, w)), uninit_conn = ib_conn_zero\<rparr>"

definition fab_qp :: ibv_qp where
  "fab_qp = \<lparr>qp_handle = 1, qp_qp_num = 17, qp_send_cq = 3\<rparr>"

text \<open>Only the last queued request may be signaled or a read.\<close>

definition fab_up :: "fab world \<Rightarrow> bool" where
  "fab_up w \<longleftrightarrow> (\<forall>wr \<in> set (butlast (fab_queue (dev w))). wr_opcode wr = IBV_WR_RDMA_WRITE \<and> \<not> wr_signaled wr) \<and>
     (fab_queue (dev w) \<noteq> [] \<longrightarrow> wr_opcode (last (fab_queue (dev w))) = IBV_WR_RDMA_WRITE \<or>
        wr_signaled (last (fab_queue (dev w))))"

definition fab_rmem :: "fab world \<Rightarrow> mem" where
  "fab_rmem w = snd (fab_flush w)"

definition fab_due :: "fab world \<Rightarrow> mem" where
  "fab_due w = fst (fab_flush w)"

definition fab_busy :: "fab world \<Rightarrow> nat set" where
  "fab_busy w = (\<Union>wr \<in> set (fab_queue (dev w)). {wr_addr wr..<wr_addr wr + wr_length wr})"

definition fab_posted :: "fab world \<Rightarrow> nat" where
  "fab_posted w = length (fab_queue (dev w))"

lemma fab_exec_write:
  "wr_opcode wr = IBV_WR_RDMA_WRITE \<Longrightarrow>
     fab_exec wr (l, r) = (l, mem_write r (wr_remote_addr wr) (mem_read l (wr_addr wr) (wr_length wr)))"
  by (simp add: fab_exec_def)

lemma fab_writes_only:
  "\<forall>wr \<in> set q. wr_opcode wr = IBV_WR_RDMA_WRITE \<Longrightarrow> fst (fold fab_exec q (l, r)) = l"
  by (induction q arbitrary: r) (simp_all add: fab_exec_write)

lemma fab_writes_cong:
  assumes "\<forall>wr \<in> set q. wr_opcode wr = IBV_WR_RDMA_WRITE"
    and "\<And>wr a. wr \<in> set q \<Longrightarrow> a \<in> {wr_addr wr..<wr_addr wr + wr_length wr} \<Longrightarrow> l a = l' a"
  shows "snd (fold fab_exec q (l, r)) = snd (fold fab_exec q (l', r))"
  using assms
proof (induction q arbitrary: r)
  case (Cons wr q)
  have "mem_read l (wr_addr wr) (wr_length wr) = mem_read l' (wr_addr wr) (wr_length wr)"
    using Cons.prems(2) by (intro mem_read_cong) auto
  moreover have "snd (fold fab_exec q (l, r')) = snd (fold fab_exec q (l', r'))" for r'
    using Cons.prems by (intro Cons.IH) auto
  ultimately show ?case using Cons.prems(1) by (simp add: fab_exec_write)
qed simp

text \<open>Without an outstanding completion the queue holds unsignaled writes only.\<close>

lemma fab_idle_writes:
  assumes "fab_up w" "\<not> fab_pend w"
  shows "\<forall>wr \<in> set (fab_queue (dev w)). wr_opcode wr = IBV_WR_RDMA_WRITE \<and> \<not> wr_signaled wr"
  using assms by (cases "fab_queue (dev w)" rule: rev_cases) (auto simp: fab_up_def fab_pend_def)

interpretation fab_link: rc_fabric fab_verbs fab_qp 3 1 2 fab_lreg fab_rreg fab_slots
  fab_up fab_rmem fab_due fab_busy fab_posted fab_pend "\<lambda>w. fab_delay (dev w)"
proof
  fix w :: "fab world" and m :: mem
  assume w: "fab_up w" "\<not> fab_pend w" "\<forall>a \<in> fab_busy w. m a = lmem w a"
  have "fab_rmem (w\<lparr>lmem := m\<rparr>) = fab_rmem w"
    using fab_idle_writes [OF w(1,2)] w(3)
    unfolding fab_rmem_def fab_flush_def by (auto intro!: fab_writes_cong simp: fab_busy_def)
  then show "fab_up (w\<lparr>lmem := m\<rparr>) \<and> fab_rmem (w\<lparr>lmem := m\<rparr>) = fab_rmem w \<and>
      fab_busy (w\<lparr>lmem := m\<rparr>) = fab_busy w \<and> fab_posted (w\<lparr>lmem := m\<rparr>) = fab_posted w \<and>
      \<not> fab_pend (w\<lparr>lmem := m\<rparr>)"
    using w(1,2) by (simp add: fab_up_def fab_busy_def fab_posted_def fab_pend_def)
next
  fix w :: "fab world" and wr :: send_wr
  assume w: "fab_up w" "\<not> fab_pend w" "fab_posted w < fab_slots"
    and wr: "wr_opcode wr = IBV_WR_RDMA_WRITE" "wr_lkey wr = 1" "wr_rkey wr = 2"
      "{wr_addr wr..<wr_addr wr + wr_length wr} \<subseteq> fab_lreg"
      "{wr_remote_addr wr..<wr_remote_addr wr + wr_length wr} \<subseteq> fab_rreg"
  have ok: "wr_length wr = 0 \<or> fab_wr_ok wr"
    using wr by (auto simp: fab_wr_ok_def fab_lreg_def fab_rreg_def atLeastLessThan_subset_iff)
  let ?w = "w\<lparr>dev := (dev w)\<lparr>fab_queue := fab_queue (dev w) @ [wr], fab_delay := 2\<rparr>\<rparr>"
  note idle = fab_idle_writes [OF w(1,2)]
  have l: "fst (fab_flush w) = lmem w" unfolding fab_flush_def using idle by (intro fab_writes_only) auto
  have "fab_flush ?w = fab_exec wr (fab_flush w)" by (simp add: fab_flush_def)
  then have "fab_flush ?w = (lmem w, mem_write (fab_rmem w) (wr_remote_addr wr) (mem_read (lmem w) (wr_addr wr) (wr_length wr)))"
    using wr(1) l by (simp add: fab_exec_def fab_rmem_def)
  moreover have "fab_up ?w" using idle wr(1) by (auto simp: fab_up_def)
  ultimately show "\<exists>w'. ibv_post_send fab_verbs fab_qp wr w = (0, w') \<and> fab_up w' \<and> lmem w' = lmem w \<and>
      fab_due w' = lmem w \<and>
      fab_rmem w' = mem_write (fab_rmem w) (wr_remote_addr wr) (mem_read (lmem w) (wr_addr wr) (wr_length wr)) \<and>
      fab_busy w' = fab_busy w \<union> {wr_addr wr..<wr_addr wr + wr_length wr} \<and>
      fab_posted w' = Suc (fab_posted w) \<and> fab_pend w' = wr_signaled wr"
    using ok w(3) idle
    by (intro exI [of _ ?w]) (auto simp: fab_verbs_def fab_post_send_def fab_posted_def fab_due_def
        fab_rmem_def fab_busy_def fab_pend_def)
next
  fix w :: "fab world" and wr :: send_wr
  assume w: "fab_up w" "\<not> fab_pend w" "fab_posted w < fab_slots"
    and wr: "wr_opcode wr = IBV_WR_RDMA_READ" "wr_signaled wr" "wr_lkey wr = 1" "wr_rkey wr = 2"
      "{wr_addr wr..<wr_addr wr + wr_length wr} \<subseteq> fab_lreg"
      "{wr_remote_addr wr..<wr_remote_addr wr + wr_length wr} \<subseteq> fab_rreg"
  have ok: "wr_length wr = 0 \<or> fab_wr_ok wr"
    using wr by (auto simp: fab_wr_ok_def fab_lreg_def fab_rreg_def atLeastLessThan_subset_iff)
  let ?w = "w\<lparr>dev := (dev w)\<lparr>fab_queue := fab_queue (dev w) @ [wr], fab_delay := 2\<rparr>\<rparr>"
  note idle = fab_idle_writes [OF w(1,2)]
  have l: "fst (fab_flush w) = lmem w" unfolding fab_flush_def using idle by (intro fab_writes_only) auto
  have "fab_flush ?w = fab_exec wr (fab_flush w)" by (simp add: fab_flush_def)
  then have "fab_flush ?w = (mem_write (lmem w) (wr_addr wr) (mem_read (fab_rmem w) (wr_remote_addr wr) (wr_length wr)), fab_rmem w)"
    using wr(1) l by (simp add: fab_exec_def fab_rmem_def)
  moreover have "fab_up ?w" using idle wr(1,2) by (auto simp: fab_up_def)
  ultimately show "\<exists>w'. ibv_post_send fab_verbs fab_qp wr w = (0, w') \<and> fab_up w' \<and> fab_rmem w' = fab_rmem w \<and>
      fab_pend w' \<and>
      fab_due w' = mem_write (lmem w) (wr_addr wr) (mem_read (fab_rmem w) (wr_remote_addr wr) (wr_length wr))"
    using ok w(3) wr(2)
    by (intro exI [of _ ?w]) (auto simp: fab_verbs_def fab_post_send_def fab_posted_def fab_due_def
        fab_rmem_def fab_pend_def)
next
  fix w :: "fab world"
  assume w: "fab_up w" "fab_pend w"
  then show "\<exists>ne st w'. ibv_poll_cq fab_verbs 3 w = ((ne, st), w') \<and> fab_up w' \<and> fab_rmem w' = fab_rmem w \<and>
      (ne = 0 \<and> fab_pend w' \<and> fab_due w' = fab_due w \<and> fab_delay (dev w') < fab_delay (dev w) \<or>
       ne = 1 \<and> st = 0 \<and> \<not> fab_pend w' \<and> lmem w' = fab_due w \<and> fab_busy w' = {} \<and> fab_posted w' = 0)"
    by (auto simp: fab_verbs_def fab_poll_cq_def fab_up_def fab_rmem_def fab_due_def fab_flush_def fab_pend_def
        fab_busy_def fab_posted_def)
qed

section \<open>Sequences of writes\<close>

text \<open>A program that issues one \<open>writeRC\<close> after the other: offset, local address, size, signaled.\<close>

fun write_all ::
  "('d, 'v) verbs_scheme \<Rightarrow> 'c rdma_config_scheme \<Rightarrow> nat \<Rightarrow> (nat \<times> nat \<times> nat \<times> bool) list \<Rightarrow> rdma_client \<Rightarrow> 'd world \<Rightarrow>
   (bool \<times> rdma_client \<times> 'd world) result" where
  "write_all V cfg nid [] c w = Inr (True, c, w)"
| "write_all V cfg nid ((off, la, sz, sig) # reqs) c w =
     bindR (writeRC V cfg nid off la sz sig c w) (\<lambda>(ok, c, w). if ok then write_all V cfg nid reqs c w else Inr (False, c, w))"

text \<open>The peer's memory after the writes, one after the other.\<close>

definition writes_effect :: "nat \<Rightarrow> mem \<Rightarrow> (nat \<times> nat \<times> nat \<times> bool) list \<Rightarrow> mem \<Rightarrow> mem" where
  "writes_effect rb l reqs r = fold (\<lambda>(off, la, sz, sig) r. mem_write r (rb + off) (mem_read l la sz)) reqs r"

definition write_fits :: "nat \<Rightarrow> nat set \<Rightarrow> nat set \<Rightarrow> nat \<times> nat \<times> nat \<times> bool \<Rightarrow> bool" where
  "write_fits rb lreg rreg = (\<lambda>(off, la, sz, sig). sz < 2 ^ 32 \<and> rb + off < 2 ^ 64 \<and> {la..<la + sz} \<subseteq> lreg \<and>
     {rb + off..<rb + off + sz} \<subseteq> rreg)"

context rc_fabric
begin

lemma write_all_ok:
  assumes "client_on (cfg_RDMA_MAX_WR cfg) nid p cq lkey rkey rb c" "ready c w" "cfg_RDMA_MAX_WR cfg \<le> slots"
    and "\<forall>q \<in> set reqs. write_fits rb lreg rreg q"
  shows "\<exists>n w'. write_all V cfg nid reqs c w = Inr (True, c\<lparr>cl_countWR := n\<rparr>, w') \<and> n < cfg_RDMA_MAX_WR cfg \<and>
    ready (c\<lparr>cl_countWR := n\<rparr>) w' \<and> lmem w' = lmem w \<and> rmem w' = writes_effect rb (lmem w) reqs (rmem w)"
  using assms
proof (induction reqs arbitrary: c w)
  case Nil
  then show ?case by (auto simp: client_on_def writes_effect_def intro!: exI [of _ "cl_countWR c"])
next
  case (Cons q reqs)
  obtain off la sz sig where q: "q = (off, la, sz, sig)" by (cases q) auto
  have fit: "sz < 2 ^ 32" "rb + off < 2 ^ 64" "{la..<la + sz} \<subseteq> lreg" "{rb + off..<rb + off + sz} \<subseteq> rreg"
    using Cons.prems(4) by (auto simp: q write_fits_def)
  obtain n w1 where w1: "writeRC V cfg nid off la sz sig c w = Inr (True, c\<lparr>cl_countWR := n\<rparr>, w1)" "n < cfg_RDMA_MAX_WR cfg"
    "ready (c\<lparr>cl_countWR := n\<rparr>) w1" "lmem w1 = lmem w" "rmem w1 = mem_write (rmem w) (rb + off) (mem_read (lmem w) la sz)"
    using writeRC_ok [OF Cons.prems(1-3) fit, of sig] by blast
  have "client_on (cfg_RDMA_MAX_WR cfg) nid p cq lkey rkey rb (c\<lparr>cl_countWR := n\<rparr>)"
    using Cons.prems(1) w1(2) by (auto simp: client_on_def)
  from Cons.IH [OF this w1(3) Cons.prems(3)] Cons.prems(4)
  obtain k w2 where "write_all V cfg nid reqs (c\<lparr>cl_countWR := n\<rparr>) w1 = Inr (True, c\<lparr>cl_countWR := k\<rparr>, w2)"
    "k < cfg_RDMA_MAX_WR cfg" "ready (c\<lparr>cl_countWR := k\<rparr>) w2" "lmem w2 = lmem w1"
    "rmem w2 = writes_effect rb (lmem w1) reqs (rmem w1)"
    by auto
  then show ?case using w1(1,4,5) by (auto simp: q writes_effect_def)
qed

end

section \<open>Properties\<close>

text \<open>
  Claim C23. The client never overruns the send queue. Over a reliable connection whose send queue takes
  \<open>RDMA_MAX_WR\<close> requests, any number of writes, signaled or not in any pattern, all succeed: the counter of
  \<open>checkSignaled\<close> stays below the limit and bounds the number of requests in the queue, because every
  \<open>RDMA_MAX_WR\<close>-th one is made to wait for its completion; and the writes reach the peer in the order they were
  issued with the bytes the local memory holds.
\<close>

theorem client_writes_in_order:
  assumes "rc_fabric V p cq lkey rkey lreg rreg slots up rmem due busy posted pend rank"
    and "client_on (cfg_RDMA_MAX_WR cfg) nid p cq lkey rkey rb c" and "cfg_RDMA_MAX_WR cfg \<le> slots"
    and "up w" and "\<not> pend w" and "posted w \<le> cl_countWR c" and "\<forall>q \<in> set reqs. write_fits rb lreg rreg q"
  shows "\<exists>n w'. write_all V cfg nid reqs c w = Inr (True, c\<lparr>cl_countWR := n\<rparr>, w') \<and>
    posted w' \<le> n \<and> n < cfg_RDMA_MAX_WR cfg \<and> \<not> pend w' \<and>
    lmem w' = lmem w \<and> rmem w' = writes_effect rb (lmem w) reqs (rmem w)"
proof -
  have "rc_fabric.ready up posted pend c w" using assms(4-6) by (simp add: rc_fabric.ready_def [OF assms(1)])
  from rc_fabric.write_all_ok [OF assms(1,2) this assms(3,7)] show ?thesis
    by (auto simp: rc_fabric.ready_def [OF assms(1)])
qed

section \<open>A client on the deferred fabric\<close>

abbreviation (input) fab_config :: dpi_config where
  "fab_config \<equiv> config_default\<lparr>cfg_RDMA_MAX_WR := 8\<rparr>"

definition fab_manager :: rdma_manager where
  "fab_manager = (rdma_manager_init IBV_QPT_RC 1 1 1
     \<lparr>res_buffer = Some 4096, res_pd = Some 1, res_mr = Some \<lparr>mr_lkey = 1, mr_rkey = 2\<rparr>, res_lid = 7,
      res_ib_ctx = Some 1\<rparr> 4096)
     \<lparr>m_qps := [\<lparr>qp = Some fab_qp, send_cq = 3, recv_cq = 3\<rparr>],
      m_rconns := [ib_conn_zero\<lparr>conn_buffer := 65536, conn_rkey := 2\<rparr>]\<rparr>"

definition fab_client :: rdma_client where
  "fab_client = \<lparr>cl_manager = ManagerRC fab_manager, cl_clients = Map.empty, cl_addr = Map.empty,
     cl_mgmt_addr = Map.empty, cl_mcast_addr = Map.empty, cl_countWR = 0,
     cl_nodeIDsIBaddr = [ib_addr_init, ib_addr_init]\<rparr>"

lemma fab_client_on: "client_on 8 1 fab_qp 3 1 2 65536 fab_client"
  by (simp add: client_on_def linked_def fab_client_def fab_manager_def rdma_manager_init_def ib_addr_init_def)

definition fab_idle :: "fab world" where
  "fab_idle = \<lparr>lmem = (\<lambda>_. 0), dev = \<lparr>fab_mem = (\<lambda>_. 1), fab_queue = [], fab_delay = 0\<rparr>\<rparr>"

theorem client_writes_in_order_witness:
  "\<exists>n w'. write_all fab_verbs fab_config 1 (replicate 30 (16, 4096, 8, False)) fab_client fab_idle =
      Inr (True, fab_client\<lparr>cl_countWR := n\<rparr>, w') \<and> fab_posted w' \<le> n \<and> n < 8 \<and>
    fab_rmem w' = writes_effect 65536 (\<lambda>_. 0) (replicate 30 (16, 4096, 8, False)) (\<lambda>_. 1)"
proof -
  have w: "fab_up fab_idle" "\<not> fab_pend fab_idle" "fab_posted fab_idle = 0" "fab_rmem fab_idle = (\<lambda>_. 1)" "lmem fab_idle = (\<lambda>_. 0)"
    by (simp_all add: fab_idle_def fab_up_def fab_pend_def fab_posted_def fab_rmem_def fab_flush_def)
  show ?thesis
    using client_writes_in_order [OF fab_link.rc_fabric_axioms, of fab_config 1 65536 fab_client fab_idle
        "replicate 30 (16, 4096, 8, False)"] fab_client_on w
    by (auto simp: fab_slots_def write_fits_def fab_lreg_def fab_rreg_def)
qed

end
