(* ===== verification/Registry.thy ===== *)
theory Registry
  imports RDMA_Client
begin

text \<open>
  The registry: \<open>RegistryServer\<close>, which keeps the buffer handles, has rings created on the nodes and hands
  them out to writers one by one, and \<open>RegistryClient\<close>, through which readers and writers reach it.
\<close>

section \<open>RegistryServer\<close>

record registry =
  reg_client :: rdma_client
  reg_bufferHandles :: "string \<rightharpoonup> BufferHandle"
  reg_appendersJoined :: "string \<rightharpoonup> nat"
  reg_counterRdmaBuf :: "nat option"

text \<open>The constructor connects to every configured node under its id and ignores what came of it.\<close>

fun connect_nodes ::
  "('d, 'n) net_scheme \<Rightarrow> 'c rdma_config_scheme \<Rightarrow> nat \<Rightarrow> string list \<Rightarrow> rdma_client \<Rightarrow> 'd world \<Rightarrow>
   (rdma_client \<times> 'd world) result" where
  "connect_nodes N cfg i [] c w = Inr (c, w)"
| "connect_nodes N cfg i (node # nodes) c w =
     bindR (connect_node N cfg node (i + 1) False c w) (\<lambda>(_, c, w). connect_nodes N cfg (i + 1) nodes c w)"

definition newRegistryServer ::
  "('d, 'n) net_scheme \<Rightarrow> dpi_config \<Rightarrow> ib_resource_t \<Rightarrow> 'd world \<Rightarrow> (registry \<times> 'd world) result" where
  "newRegistryServer N cfg res0 w =
     bindR (newRDMAClient N cfg res0 (cfg_RDMA_MEMSIZE cfg) rc w) (\<lambda>(c, w).
     bindR (connect_nodes N cfg 0 (cfg_DPI_NODES cfg) c w) (\<lambda>(c, w).
     case client_localAlloc cfg 8 c of (buf, c) \<Rightarrow>
       Inr (\<lparr>reg_client = c, reg_bufferHandles = Map.empty, reg_appendersJoined = Map.empty,
             reg_counterRdmaBuf = buf\<rparr>, w)))"

definition registerBuffer :: "BufferHandle \<Rightarrow> registry \<Rightarrow> bool \<times> registry" where
  "registerBuffer handle r =
     (if reg_bufferHandles r (bh_name handle) \<noteq> None then (False, r)
      else (True, r\<lparr>reg_bufferHandles := (reg_bufferHandles r)(bh_name handle \<mapsto> handle)\<rparr>))"

definition retrieveBuffer :: "string \<Rightarrow> registry \<Rightarrow> BufferHandle option" where
  "retrieveBuffer name r = reg_bufferHandles r name"

text \<open>Pushing a segment onto the handle a pointer leads to.\<close>

definition push_segment :: "string \<Rightarrow> BufferSegment \<Rightarrow> registry \<Rightarrow> registry" where
  "push_segment name seg r =
     (case reg_bufferHandles r name of None \<Rightarrow> r
      | Some h \<Rightarrow> r\<lparr>reg_bufferHandles := (reg_bufferHandles r)(name \<mapsto>
                      h\<lparr>bh_entrySegments := bh_entrySegments h @ [seg]\<rparr>)\<rparr>)"

definition appendSegment :: "string \<Rightarrow> BufferSegment \<Rightarrow> registry \<Rightarrow> bool \<times> registry" where
  "appendSegment name seg r =
     (if reg_bufferHandles r name = None then (False, r) else (True, push_segment name seg r))"

definition createRingOnBuffer ::
  "('d, 'n) net_scheme \<Rightarrow> dpi_config \<Rightarrow> BufferHandle \<Rightarrow> registry \<Rightarrow> 'd world \<Rightarrow>
   (BufferSegment option \<times> registry \<times> 'd world) result" where
  "createRingOnBuffer N cfg handle r w =
     (if length (cfg_DPI_NODES cfg) < bh_node_id handle then Inr (None, r, w)
      else bindR (getIPFromNodeId cfg (bh_node_id handle)) (\<lambda>connection.
        let fullSegmentSize = add64 (bh_segmentSizes handle) 24 in
        bindR (remoteAllocSegments N cfg connection (bh_name handle) (bh_segmentsPerWriter handle) fullSegmentSize 0
                 (bh_buffertype handle) (reg_client r) w) (\<lambda>(ok, offset, c, w).
        let r = r\<lparr>reg_client := c\<rparr> in
        if \<not> ok then Inr (None, r, w)
        else Inr (Some \<lparr>seg_offset = offset, seg_size = bh_segmentSizes handle\<rparr>, r, w))))"

text \<open>The loop that creates as many rings as appenders and stops at the first failure.\<close>

fun create_rings ::
  "('d, 'n) net_scheme \<Rightarrow> dpi_config \<Rightarrow> string \<Rightarrow> nat \<Rightarrow> registry \<Rightarrow> 'd world \<Rightarrow> (bool \<times> registry \<times> 'd world) result" where
  "create_rings N cfg name 0 r w = Inr (True, r, w)"
| "create_rings N cfg name (Suc n) r w =
     (case retrieveBuffer name r of None \<Rightarrow> Inl NullDeref
      | Some h \<Rightarrow>
        bindR (createRingOnBuffer N cfg h r w) (\<lambda>(seg, r, w).
        case seg of None \<Rightarrow> Inr (False, r, w)
        | Some seg \<Rightarrow> create_rings N cfg name n (push_segment name seg r) w))"

text \<open>A buffer's description in a response.\<close>

definition buffer_response :: "BufferHandle \<Rightarrow> BufferSegment list \<Rightarrow> nat \<Rightarrow> BufferResponse" where
  "buffer_response h segs ty =
     \<lparr>br_name = bh_name h, br_node_id = bh_node_id h, br_segment = segs,
      br_segmentsPerWriter = bh_segmentsPerWriter h, br_segmentSizes = bh_segmentSizes h,
      br_buffertype = ty, br_return = error_code NO_ERROR\<rparr>"

text \<open>The response carries the requested name, which is the handle's.\<close>

definition handle_createRing ::
  "('d, 'n) net_scheme \<Rightarrow> dpi_config \<Rightarrow> string \<Rightarrow> registry \<Rightarrow> 'd world \<Rightarrow> (any_msg \<times> registry \<times> 'd world) result" where
  "handle_createRing N cfg name r w =
     (case retrieveBuffer name r of
        None \<Rightarrow> Inr (DPICreateRingOnBufferResponse (br_failed DPI_CREATE_RING_ON_BUF_FAILED), r, w)
      | Some h \<Rightarrow>
          bindR (createRingOnBuffer N cfg h r w) (\<lambda>(seg, r, w).
          case seg of None \<Rightarrow> Inl NullDeref
          | Some seg \<Rightarrow>
              Inr (DPICreateRingOnBufferResponse ((buffer_response h [seg] 0)\<lparr>br_name := name\<rparr>),
                   push_segment name seg r, w)))"

text \<open>An appender gets the first ring that no appender has taken; \<open>m_appendersJoinedBuffer[name]\<close> starts at 0.\<close>

definition handle_retrieve :: "string \<Rightarrow> bool \<Rightarrow> registry \<Rightarrow> (any_msg \<times> registry) result" where
  "handle_retrieve name isAppender r =
     (case retrieveBuffer name r of
        None \<Rightarrow> Inr (DPIRetrieveBufferResponse (br_failed DPI_RTRV_BUFFHANDLE_FAILED), r)
      | Some h \<Rightarrow>
          let ty = buffertype_code (bh_buffertype h) in
          if isAppender then
            let n = (case reg_appendersJoined r name of Some n \<Rightarrow> n | None \<Rightarrow> 0);
                r = r\<lparr>reg_appendersJoined := (reg_appendersJoined r)(name \<mapsto> n)\<rparr> in
            if n = length (bh_entrySegments h)
            then Inr (DPIRetrieveBufferResponse (br_failed DPI_JOIN_BUFFER_FAILED), r)
            else bindR (index_op (bh_entrySegments h) n) (\<lambda>seg.
              Inr (DPIRetrieveBufferResponse ((buffer_response h [seg] ty)\<lparr>br_name := name\<rparr>),
                   r\<lparr>reg_appendersJoined := (reg_appendersJoined r)(name \<mapsto> add64 n 1)\<rparr>))
          else Inr (DPIRetrieveBufferResponse ((buffer_response h (bh_entrySegments h) ty)\<lparr>br_name := name\<rparr>), r))"

text \<open>
  A register request: the count of joined appenders is reset whether or not the registration succeeded.
\<close>

definition handle_register ::
  "('d, 'n) net_scheme \<Rightarrow> dpi_config \<Rightarrow> AppendBufferRequest \<Rightarrow> registry \<Rightarrow> 'd world \<Rightarrow>
   (any_msg \<times> registry \<times> 'd world) result" where
  "handle_register N cfg req r w =
     (let name = abq_name req;
          handle = newBufferHandle name (abq_node_id req) (abq_segmentsPerWriter req) (abq_numberAppenders req)
                     (abq_segmentSizes req) (buffertype_of (abq_buffertype req));
          (registerSuccess, r) = registerBuffer handle r
      in bindR (if registerSuccess then create_rings N cfg name (abq_numberAppenders req) r w else Inr (False, r, w))
         (\<lambda>(registerSuccess, r, w).
            Inr (DPIAppendBufferResponse
                   (error_code (if registerSuccess then NO_ERROR else DPI_REGISTER_BUFFHANDLE_FAILED)),
                 r\<lparr>reg_appendersJoined := (reg_appendersJoined r)(name \<mapsto> 0)\<rparr>, w)))"

fun append_segments :: "string \<Rightarrow> (nat \<times> nat \<times> nat) list \<Rightarrow> registry \<Rightarrow> bool \<times> registry" where
  "append_segments name [] r = (True, r)"
| "append_segments name ((off, sz, _) # segs) r =
     (case appendSegment name \<lparr>seg_offset = off, seg_size = sz\<rparr> r of
        (False, r) \<Rightarrow> (False, r)
      | (True, r) \<Rightarrow> append_segments name segs r)"

definition registry_handle ::
  "('d, 'n) net_scheme \<Rightarrow> dpi_config \<Rightarrow> any_msg \<Rightarrow> registry \<Rightarrow> 'd world \<Rightarrow> (any_msg \<times> registry \<times> 'd world) result" where
  "registry_handle N cfg anyReq r w =
     (case anyReq of
        DPICreateRingOnBufferRequest name \<Rightarrow> handle_createRing N cfg name r w
      | DPIRetrieveBufferRequest name isAppender \<Rightarrow>
          bindR (handle_retrieve name isAppender r) (\<lambda>(resp, r). Inr (resp, r, w))
      | DPIAppendBufferRequest req \<Rightarrow>
          if abq_register req then handle_register N cfg req r w
          else
            (case append_segments (abq_name req) (abq_segment req) r of (ok, r) \<Rightarrow>
               Inr (DPIAppendBufferResponse (error_code (if ok then NO_ERROR else DPI_APPEND_BUFFHANDLE_FAILED)), r, w))
      | _ \<Rightarrow> Inr (ErrorMessage (error_code INVALID_MESSAGE), r, w))"

section \<open>RegistryClient\<close>

text \<open>The constructor: a refused connection exits before the exception is thrown.\<close>

definition newRegistryClient ::
  "('d, 'n) net_scheme \<Rightarrow> dpi_config \<Rightarrow> 'd world \<Rightarrow> (proto_client \<times> 'd world) result" where
  "newRegistryClient N cfg w =
     ProtoClient_connect N (newProtoClient (cfg_DPI_REGISTRY_SERVER cfg) (int32_of (cfg_DPI_REGISTRY_PORT cfg))) w"

definition handle_of_response :: "string \<Rightarrow> BufferResponse \<Rightarrow> BufferHandle" where
  "handle_of_response name resp =
     (newBufferHandle name (br_node_id resp) (br_segmentsPerWriter resp) (length (br_segment resp))
        (br_segmentSizes resp) (buffertype_of (br_buffertype resp)))\<lparr>bh_entrySegments := br_segment resp\<rparr>"

definition retrieveOrJoinBuffer ::
  "('d, 'n) net_scheme \<Rightarrow> any_msg \<Rightarrow> string \<Rightarrow> proto_client \<Rightarrow> 'd world \<Rightarrow>
   (BufferHandle option \<times> proto_client \<times> 'd world) result" where
  "retrieveOrJoinBuffer N sendAny name rcl w =
     bindR (ProtoClient_send N rcl sendAny w) (\<lambda>(ok, rcvAny, rcl, w).
     if \<not> ok then Inr (None, rcl, w)
     else case rcvAny of
       DPIRetrieveBufferResponse resp \<Rightarrow>
         if br_return resp \<noteq> error_code NO_ERROR then Inr (None, rcl, w)
         else Inr (Some (handle_of_response name resp), rcl, w)
     | _ \<Rightarrow> Inr (None, rcl, w))"

definition client_retrieveBuffer where
  "client_retrieveBuffer N name rcl w = retrieveOrJoinBuffer N (createDPIRetrieveBufferRequest name False) name rcl w"

definition joinBuffer where
  "joinBuffer N name rcl w = retrieveOrJoinBuffer N (createDPIRetrieveBufferRequest name True) name rcl w"

definition appendOrRetrieveSegment ::
  "('d, 'n) net_scheme \<Rightarrow> any_msg \<Rightarrow> proto_client \<Rightarrow> 'd world \<Rightarrow> (bool \<times> proto_client \<times> 'd world) result" where
  "appendOrRetrieveSegment N sendAny rcl w =
     bindR (ProtoClient_send N rcl sendAny w) (\<lambda>(ok, rcvAny, rcl, w).
     if \<not> ok then Inr (False, rcl, w)
     else case rcvAny of
       DPIAppendBufferResponse ret \<Rightarrow> Inr (ret = error_code NO_ERROR, rcl, w)
     | _ \<Rightarrow> Inr (False, rcl, w))"

definition client_registerBuffer where
  "client_registerBuffer N handle rcl w = appendOrRetrieveSegment N (createDPIRegisterBufferRequest handle) rcl w"

text \<open>Every failure here is \<open>Logging::fatal\<close>.\<close>

definition createSegmentRingOnBuffer ::
  "('d, 'n) net_scheme \<Rightarrow> string \<Rightarrow> proto_client \<Rightarrow> 'd world \<Rightarrow> (BufferHandle \<times> proto_client \<times> 'd world) result" where
  "createSegmentRingOnBuffer N name rcl w =
     bindR (ProtoClient_send N rcl (createDPICreateRingOnBufferRequest name) w) (\<lambda>(ok, rcvAny, rcl, w).
     if \<not> ok then Inl Fatal
     else case rcvAny of
       DPICreateRingOnBufferResponse resp \<Rightarrow>
         if br_return resp \<noteq> error_code NO_ERROR then Inl Fatal
         else
           let seg = (case br_segment resp of [] \<Rightarrow> \<lparr>seg_offset = 0, seg_size = 0\<rparr> | s # _ \<Rightarrow> s) in
           Inr ((newBufferHandle name (br_node_id resp) (br_segmentsPerWriter resp) 0 (br_segmentSizes resp) BW)
                  \<lparr>bh_entrySegments := [seg]\<rparr>, rcl, w)
     | _ \<Rightarrow> Inl Fatal)"

section \<open>Lemmas\<close>

text \<open>Requests handled one after the other, with their responses.\<close>

fun handle_all ::
  "('d, 'n) net_scheme \<Rightarrow> dpi_config \<Rightarrow> any_msg list \<Rightarrow> registry \<Rightarrow> 'd world \<Rightarrow> (any_msg list \<times> registry \<times> 'd world) result" where
  "handle_all N cfg [] r w = Inr ([], r, w)"
| "handle_all N cfg (req # reqs) r w =
     bindR (registry_handle N cfg req r w) (\<lambda>(resp, r, w).
     bindR (handle_all N cfg reqs r w) (\<lambda>(resps, r, w). Inr (resp # resps, r, w)))"

text \<open>What an appender that is the \<open>i\<close>-th to join a buffer is answered.\<close>

definition join_answer :: "string \<Rightarrow> BufferHandle \<Rightarrow> nat \<Rightarrow> any_msg" where
  "join_answer name h i =
     DPIRetrieveBufferResponse
       (if i < length (bh_entrySegments h)
        then (buffer_response h [bh_entrySegments h ! i] (buffertype_code (bh_buffertype h)))\<lparr>br_name := name\<rparr>
        else br_failed DPI_JOIN_BUFFER_FAILED)"

definition joined :: "string \<Rightarrow> registry \<Rightarrow> nat" where
  "joined name r = (case reg_appendersJoined r name of Some n \<Rightarrow> n | None \<Rightarrow> 0)"

lemma join_step:
  assumes "reg_bufferHandles r name = Some h" "joined name r \<le> length (bh_entrySegments h)"
    "length (bh_entrySegments h) < 2 ^ 64"
  shows "\<exists>r'. registry_handle N cfg (DPIRetrieveBufferRequest name True) r w =
      Inr (join_answer name h (joined name r), r', w) \<and>
    reg_bufferHandles r' = reg_bufferHandles r \<and> reg_client r' = reg_client r \<and>
    joined name r' = min (Suc (joined name r)) (length (bh_entrySegments h))"
proof (cases "joined name r = length (bh_entrySegments h)")
  case True
  then show ?thesis using assms(1)
    by (auto simp: registry_handle_def handle_retrieve_def retrieveBuffer_def join_answer_def joined_def Let_def)
next
  case False
  then have lt: "joined name r < length (bh_entrySegments h)" using assms(2) by simp
  then have "add64 (joined name r) 1 = Suc (joined name r)" using assms(3) by (simp add: add64_small)
  with lt assms(1) show ?thesis
    by (auto simp: registry_handle_def handle_retrieve_def retrieveBuffer_def join_answer_def joined_def Let_def)
qed

lemma join_all:
  assumes "reg_bufferHandles r name = Some h" "joined name r \<le> length (bh_entrySegments h)"
    "length (bh_entrySegments h) < 2 ^ 64"
  shows "\<exists>r'. handle_all N cfg (replicate k (DPIRetrieveBufferRequest name True)) r w =
      Inr (map (\<lambda>i. join_answer name h (min (joined name r + i) (length (bh_entrySegments h)))) [0..<k], r', w) \<and>
    reg_bufferHandles r' = reg_bufferHandles r"
  using assms
proof (induction k arbitrary: r)
  case (Suc k)
  let ?n = "length (bh_entrySegments h)"
  obtain r1 where r1: "registry_handle N cfg (DPIRetrieveBufferRequest name True) r w =
      Inr (join_answer name h (joined name r), r1, w)"
    "reg_bufferHandles r1 = reg_bufferHandles r" "joined name r1 = min (Suc (joined name r)) ?n"
    using join_step [OF Suc.prems] by blast
  obtain r' where r': "handle_all N cfg (replicate k (DPIRetrieveBufferRequest name True)) r1 w =
      Inr (map (\<lambda>i. join_answer name h (min (joined name r1 + i) ?n)) [0..<k], r', w)"
    "reg_bufferHandles r' = reg_bufferHandles r1"
    using Suc.IH [of r1] Suc.prems r1(2,3) by auto
  have shift: "map (\<lambda>i. join_answer name h (min (joined name r + i) ?n)) [0..<Suc k] =
      join_answer name h (joined name r) # map (\<lambda>i. join_answer name h (min (joined name r1 + i) ?n)) [0..<k]"
    using Suc.prems(2) r1(3)
    by (simp add: upt_conv_Cons map_Suc_upt [symmetric] min_def del: upt_Suc)
  show ?case using r1 r' by (simp only: shift) (simp add: r1(1))
qed simp

lemma push_segment_handles:
  "reg_bufferHandles r name = Some h \<Longrightarrow>
     reg_bufferHandles (push_segment name seg r) = (reg_bufferHandles r)(name \<mapsto> h\<lparr>bh_entrySegments := bh_entrySegments h @ [seg]\<rparr>)"
  by (simp add: push_segment_def)

lemma createRingOnBuffer_handles:
  assumes "createRingOnBuffer N cfg h r w = Inr (seg, r', w')"
  shows "reg_bufferHandles r' = reg_bufferHandles r \<and> reg_appendersJoined r' = reg_appendersJoined r \<and>
    (\<forall>s. seg = Some s \<longrightarrow> seg_size s = bh_segmentSizes h)"
  using assms
  by (auto simp: createRingOnBuffer_def bindR_eq_Inr Let_def split: if_splits)

text \<open>Every ring that is created is appended to the handle; nothing else of the registry changes.\<close>

lemma create_rings_handles:
  assumes "create_rings N cfg name n r w = Inr (ok, r', w')" "reg_bufferHandles r name = Some h"
  shows "reg_appendersJoined r' = reg_appendersJoined r \<and>
    (\<exists>segs. length segs \<le> n \<and> (ok \<longrightarrow> length segs = n) \<and> (\<forall>s \<in> set segs. seg_size s = bh_segmentSizes h) \<and>
      reg_bufferHandles r' = (reg_bufferHandles r)(name \<mapsto> h\<lparr>bh_entrySegments := bh_entrySegments h @ segs\<rparr>))"
  using assms
proof (induction n arbitrary: r h w)
  case 0
  then show ?case by (auto intro!: exI [of _ "[]"])
next
  case (Suc n)
  from Suc.prems obtain seg r1 w1 where c: "createRingOnBuffer N cfg h r w = Inr (seg, r1, w1)"
    and rest: "(case seg of None \<Rightarrow> Inr (False, r1, w1) | Some s \<Rightarrow> create_rings N cfg name n (push_segment name s r1) w1) =
      Inr (ok, r', w')"
    by (auto simp: retrieveBuffer_def bindR_eq_Inr)
  note R = createRingOnBuffer_handles [OF c]
  show ?case
  proof (cases seg)
    case None
    with rest R Suc.prems(2) show ?thesis by (auto intro!: exI [of _ "[]"] simp: fun_upd_idem)
  next
    case (Some s)
    let ?h = "h\<lparr>bh_entrySegments := bh_entrySegments h @ [s]\<rparr>"
    have h1: "reg_bufferHandles (push_segment name s r1) = (reg_bufferHandles r)(name \<mapsto> ?h)"
      "reg_appendersJoined (push_segment name s r1) = reg_appendersJoined r"
      using R Suc.prems(2) by (simp_all add: push_segment_def)
    have "create_rings N cfg name n (push_segment name s r1) w1 = Inr (ok, r', w')" using rest Some by simp
    moreover have "reg_bufferHandles (push_segment name s r1) name = Some ?h" by (simp add: h1)
    ultimately obtain segs where segs:
      "reg_appendersJoined r' = reg_appendersJoined (push_segment name s r1)"
      "length segs \<le> n" "ok \<longrightarrow> length segs = n" "\<forall>x \<in> set segs. seg_size x = bh_segmentSizes ?h"
      "reg_bufferHandles r' = (reg_bufferHandles (push_segment name s r1))(name \<mapsto>
         ?h\<lparr>bh_entrySegments := bh_entrySegments ?h @ segs\<rparr>)"
      using Suc.IH by blast
    have "reg_bufferHandles r' = (reg_bufferHandles r)(name \<mapsto> h\<lparr>bh_entrySegments := bh_entrySegments h @ s # segs\<rparr>)"
      using segs(5) by (simp add: h1(1))
    with R Some segs(1-4) h1(2) show ?thesis by (intro conjI exI [of _ "s # segs"]) auto
  qed
qed

text \<open>No request takes a name back, and a name that is taken cannot be registered.\<close>

lemma push_segment_keeps: "reg_bufferHandles r x \<noteq> None \<Longrightarrow> reg_bufferHandles (push_segment name seg r) x \<noteq> None"
  by (auto simp: push_segment_def split: option.split)

lemma create_rings_keep:
  "reg_bufferHandles r x \<noteq> None \<Longrightarrow> okR (\<lambda>(ok, r', w'). reg_bufferHandles r' x \<noteq> None) (create_rings N cfg name n r w)"
proof (induction n arbitrary: r w)
  case (Suc n)
  show ?case
  proof (cases "retrieveBuffer name r")
    case (Some h)
    have "okR (\<lambda>(ok, r', w'). reg_bufferHandles r' x \<noteq> None) (case seg of None \<Rightarrow> Inr (False, r1, w1)
        | Some seg \<Rightarrow> create_rings N cfg name n (push_segment name seg r1) w1)"
      if "createRingOnBuffer N cfg h r w = Inr (seg, r1, w1)" for seg r1 w1
      using createRingOnBuffer_handles [OF that] Suc.prems Suc.IH push_segment_keeps by (auto split: option.split)
    with Some show ?thesis by (auto intro!: okR_bind)
  qed simp
qed simp

lemma append_segments_keep:
  "reg_bufferHandles r x \<noteq> None \<Longrightarrow> append_segments name segs r = (ok, r') \<Longrightarrow> reg_bufferHandles r' x \<noteq> None"
proof (induction name segs r rule: append_segments.induct)
  case (2 name off sz ty segs r)
  show ?case
  proof (cases "reg_bufferHandles r name")
    case None
    with 2(2,3) show ?thesis by (simp add: appendSegment_def)
  next
    case (Some h)
    with 2 push_segment_keeps show ?thesis by (simp add: appendSegment_def)
  qed
qed simp

lemma handle_retrieve_keeps: "okR (\<lambda>(resp, r'). reg_bufferHandles r' = reg_bufferHandles r) (handle_retrieve name b r)"
  by (auto simp: handle_retrieve_def Let_def intro!: okR_bind split: option.split)

lemma registry_keeps_names:
  assumes "registry_handle N cfg req r w = Inr (resp, r', w')" "reg_bufferHandles r x \<noteq> None"
  shows "reg_bufferHandles r' x \<noteq> None"
proof -
  have reg: "okR (\<lambda>(resp, r', w'). reg_bufferHandles r' x \<noteq> None) (handle_register N cfg areq r w)" for areq
  proof -
    let ?h = "newBufferHandle (abq_name areq) (abq_node_id areq) (abq_segmentsPerWriter areq) (abq_numberAppenders areq)
      (abq_segmentSizes areq) (buffertype_of (abq_buffertype areq))"
    obtain ok r1 where r1: "registerBuffer ?h r = (ok, r1)" by force
    then have "reg_bufferHandles r1 x \<noteq> None" using assms(2) by (auto simp: registerBuffer_def split: if_splits)
    from create_rings_keep [OF this, of N cfg "abq_name areq" "abq_numberAppenders areq" w] this r1 show ?thesis
      by (auto simp: handle_register_def Let_def okR_def bindR_eq_Inr split: if_splits)
  qed
  have ring: "okR (\<lambda>(resp, r', w'). reg_bufferHandles r' x \<noteq> None) (handle_createRing N cfg name r w)" for name
  proof (cases "retrieveBuffer name r")
    case (Some h)
    have "okR (\<lambda>(resp, r', w'). reg_bufferHandles r' x \<noteq> None) (case seg of None \<Rightarrow> Inl NullDeref
        | Some seg \<Rightarrow> Inr (DPICreateRingOnBufferResponse ((buffer_response h [seg] 0)\<lparr>br_name := name\<rparr>),
                   push_segment name seg r1, w1))"
      if "createRingOnBuffer N cfg h r w = Inr (seg, r1, w1)" for seg r1 w1
    proof -
      have "reg_bufferHandles r1 x \<noteq> None" using createRingOnBuffer_handles [OF that] assms(2) by simp
      then show ?thesis using push_segment_keeps by (cases seg) simp_all
    qed
    with Some show ?thesis unfolding handle_createRing_def by (auto intro!: okR_bind)
  qed (use assms(2) in \<open>simp add: handle_createRing_def\<close>)
  have get: "reg_bufferHandles r1 x \<noteq> None" if "handle_retrieve name b r = Inr (resp1, r1)" for name b resp1 r1
    using okRD [OF handle_retrieve_keeps that] assms(2) by simp
  have "okR (\<lambda>(resp, r', w'). reg_bufferHandles r' x \<noteq> None) (registry_handle N cfg req r w)"
  proof (cases req)
    case (DPICreateRingOnBufferRequest name)
    with ring show ?thesis by (simp add: registry_handle_def)
  next
    case (DPIRetrieveBufferRequest name b)
    with get show ?thesis by (auto simp: registry_handle_def intro!: okR_bind)
  next
    case (DPIAppendBufferRequest areq)
    obtain ok r1 where "append_segments (abq_name areq) (abq_segment areq) r = (ok, r1)" by force
    with DPIAppendBufferRequest reg append_segments_keep [OF assms(2)] show ?thesis by (simp add: registry_handle_def)
  qed (simp_all add: registry_handle_def assms(2) [simplified])
  from okRD [OF this assms(1)] show ?thesis by simp
qed

lemma taken_name_refused:
  assumes "reg_bufferHandles r (bh_name bh) \<noteq> None"
  shows "registry_handle N cfg (createDPIRegisterBufferRequest bh) r w =
    Inr (DPIAppendBufferResponse 503, r\<lparr>reg_appendersJoined := (reg_appendersJoined r)(bh_name bh \<mapsto> 0)\<rparr>, w)"
  using assms
  by (simp add: registry_handle_def handle_register_def createDPIRegisterBufferRequest_def registerBuffer_def
      newBufferHandle_def error_code_def)

text \<open>A registry that holds one buffer of two rings, and one that holds nothing.\<close>

definition demo_client :: rdma_client where
  "demo_client = \<lparr>cl_manager = ManagerRC small_manager, cl_clients = Map.empty, cl_addr = Map.empty,
     cl_mgmt_addr = Map.empty, cl_mcast_addr = Map.empty, cl_countWR = 0, cl_nodeIDsIBaddr = []\<rparr>"

definition demo_handle :: BufferHandle where
  "demo_handle = (newBufferHandle ''b'' 1 4 2 16 BW)\<lparr>bh_entrySegments :=
     [\<lparr>seg_offset = 0, seg_size = 16\<rparr>, \<lparr>seg_offset = 160, seg_size = 16\<rparr>]\<rparr>"

definition demo_registry :: "(string \<rightharpoonup> BufferHandle) \<Rightarrow> registry" where
  "demo_registry hs = \<lparr>reg_client = demo_client, reg_bufferHandles = hs, reg_appendersJoined = Map.empty,
     reg_counterRdmaBuf = None\<rparr>"

definition demo_register :: "nat \<Rightarrow> AppendBufferRequest" where
  "demo_register n = \<lparr>abq_name = ''b'', abq_node_id = 1, abq_segment = [], abq_segmentsPerWriter = 4,
     abq_numberAppenders = n, abq_segmentSizes = 16, abq_register = True, abq_buffertype = 0\<rparr>"

section \<open>Properties\<close>

text \<open>
  Appenders never share a ring: the first appenders that join a buffer are given its rings one
  after the other, each exactly once, and every further one is refused.
\<close>

lemma joins_get_distinct_rings:
  assumes "reg_bufferHandles r name = Some h" and "joined name r = 0" and "length (bh_entrySegments h) < 2 ^ 64"
  shows "\<exists>r'. handle_all N cfg (replicate k (DPIRetrieveBufferRequest name True)) r w =
    Inr (map (join_answer name h) [0..<k], r', w)"
proof -
  have "map (\<lambda>i. join_answer name h (min i (length (bh_entrySegments h)))) [0..<k] = map (join_answer name h) [0..<k]"
    by (auto simp: join_answer_def min_def)
  then show ?thesis using join_all [OF assms(1) _ assms(3), of N cfg k w] assms(2) by auto
qed

lemma joins_get_distinct_rings_instance:
  "\<forall>(N :: unit net) w. \<exists>r' h. reg_bufferHandles (demo_registry [''b'' \<mapsto> demo_handle]) ''b'' = Some h \<and>
     handle_all N config_default (replicate 3 (DPIRetrieveBufferRequest ''b'' True))
       (demo_registry [''b'' \<mapsto> demo_handle]) w =
     Inr ([join_answer ''b'' h 0, join_answer ''b'' h 1,
           DPIRetrieveBufferResponse (br_failed DPI_JOIN_BUFFER_FAILED)], r', w)"
proof (intro allI)
  fix N :: "unit net" and w
  have h: "reg_bufferHandles (demo_registry [''b'' \<mapsto> demo_handle]) ''b'' = Some demo_handle"
    "joined ''b'' (demo_registry [''b'' \<mapsto> demo_handle]) = 0"
    by (simp_all add: demo_registry_def joined_def)
  have j: "map (join_answer ''b'' demo_handle) [0..<3] = [join_answer ''b'' demo_handle 0,
      join_answer ''b'' demo_handle 1, DPIRetrieveBufferResponse (br_failed DPI_JOIN_BUFFER_FAILED)]"
    by (simp add: upt_rec join_answer_def demo_handle_def)
  have "length (bh_entrySegments demo_handle) < 2 ^ 64" by (simp add: demo_handle_def)
  from joins_get_distinct_rings [OF h this, of N config_default 3 w]
  show "\<exists>r' h. reg_bufferHandles (demo_registry [''b'' \<mapsto> demo_handle]) ''b'' = Some h \<and>
     handle_all N config_default (replicate 3 (DPIRetrieveBufferRequest ''b'' True))
       (demo_registry [''b'' \<mapsto> demo_handle]) w =
     Inr ([join_answer ''b'' h 0, join_answer ''b'' h 1,
           DPIRetrieveBufferResponse (br_failed DPI_JOIN_BUFFER_FAILED)], r', w)"
    unfolding j using h(1) by blast
qed

text \<open>
  A successful registration of a new buffer stores a handle with exactly as many rings as
  appenders were announced, each with the announced segment size, no appender joined, and leaves every
  other buffer alone.
\<close>

lemma register_creates_rings:
  assumes "reg_bufferHandles r (abq_name req) = None" and "abq_register req"
    and "registry_handle N cfg (DPIAppendBufferRequest req) r w = Inr (DPIAppendBufferResponse 0, r', w')"
  shows "\<exists>h. reg_bufferHandles r' = (reg_bufferHandles r)(abq_name req \<mapsto> h) \<and>
    bh_node_id h = abq_node_id req \<and> bh_segmentsPerWriter h = abq_segmentsPerWriter req \<and>
    length (bh_entrySegments h) = abq_numberAppenders req \<and>
    (\<forall>s \<in> set (bh_entrySegments h). seg_size s = abq_segmentSizes req) \<and> joined (abq_name req) r' = 0"
proof -
  let ?h = "newBufferHandle (abq_name req) (abq_node_id req) (abq_segmentsPerWriter req) (abq_numberAppenders req)
      (abq_segmentSizes req) (buffertype_of (abq_buffertype req))"
  let ?r = "r\<lparr>reg_bufferHandles := (reg_bufferHandles r)(abq_name req \<mapsto> ?h)\<rparr>"
  have "registerBuffer ?h r = (True, ?r)"
    using assms(1) by (simp add: registerBuffer_def newBufferHandle_def)
  with assms(2,3) obtain ok r1 where c: "create_rings N cfg (abq_name req) (abq_numberAppenders req) ?r w = Inr (ok, r1, w')"
    and e: "error_code (if ok then NO_ERROR else DPI_REGISTER_BUFFHANDLE_FAILED) = 0"
      "r' = r1\<lparr>reg_appendersJoined := (reg_appendersJoined r1)(abq_name req \<mapsto> 0)\<rparr>"
    by (auto simp: registry_handle_def handle_register_def bindR_eq_Inr Let_def)
  from e(1) have ok by (cases ok) simp_all
  from create_rings_handles [OF c, of ?h] obtain segs where
    "length segs = abq_numberAppenders req" "\<forall>s \<in> set segs. seg_size s = abq_segmentSizes req"
    "reg_bufferHandles r1 = (reg_bufferHandles r)(abq_name req \<mapsto> ?h\<lparr>bh_entrySegments := segs\<rparr>)"
    using \<open>ok\<close> by (auto simp: newBufferHandle_def)
  then show ?thesis
    by (intro exI [of _ "?h\<lparr>bh_entrySegments := segs\<rparr>"]) (simp add: e(2) newBufferHandle_def joined_def)
qed

definition wired_registry :: registry where
  "wired_registry = (demo_registry Map.empty)\<lparr>reg_client := demo_client\<lparr>
     cl_clients := [''n:1'' \<mapsto> (newProtoClient ''n'' 1)\<lparr>pc_isConnected := True, pc_socket := Some \<lparr>ps_conn = ''tcp://n:1'',
       ps_sockType = ZMQ_REQ, ps_isOpen = True, ps_sock = Some 1\<rparr>\<rparr>],
     cl_addr := [''n:1'' \<mapsto> ib_addr_init]\<rparr>\<rparr>"

lemma register_creates_rings_instance:
  "\<exists>r' h. registry_handle (canned_net (DPIAllocSegmentsResponse \<lparr>asr_offset = 64, asr_return = 0\<rparr>))
     (config_default\<lparr>cfg_DPI_NODES := [''n:1'']\<rparr>) (DPIAppendBufferRequest (demo_register 2)) wired_registry idle_world =
     Inr (DPIAppendBufferResponse 0, r', idle_world) \<and>
   reg_bufferHandles r' = [''b'' \<mapsto> h] \<and> length (bh_entrySegments h) = 2 \<and> bh_segmentsPerWriter h = 4 \<and> joined ''b'' r' = 0"
proof -
  let ?N = "canned_net (DPIAllocSegmentsResponse \<lparr>asr_offset = 64, asr_return = 0\<rparr>)"
  let ?cfg = "config_default\<lparr>cfg_DPI_NODES := [''n:1'']\<rparr>"
  have "\<exists>r'. registry_handle ?N ?cfg (DPIAppendBufferRequest (demo_register 2)) wired_registry idle_world =
      Inr (DPIAppendBufferResponse 0, r', idle_world)"
    by (simp add: registry_handle_def handle_register_def demo_register_def demo_registry_def wired_registry_def registerBuffer_def
        newBufferHandle_def numeral_2_eq_2 retrieveBuffer_def createRingOnBuffer_def getIPFromNodeId_def index_at_def sub64_def
        remoteAllocSegments_def client_connect_def connect_addr_def isConnected_def addr_of_def client_send_rpc_def canned_send
        push_segment_def Let_def)
  then obtain r' where run: "registry_handle ?N ?cfg (DPIAppendBufferRequest (demo_register 2)) wired_registry idle_world =
      Inr (DPIAppendBufferResponse 0, r', idle_world)"
    by blast
  have "reg_bufferHandles wired_registry (abq_name (demo_register 2)) = None" "abq_register (demo_register 2)"
    by (simp_all add: wired_registry_def demo_registry_def demo_register_def)
  from register_creates_rings [OF this run] obtain h where
    "reg_bufferHandles r' = [''b'' \<mapsto> h]" "bh_segmentsPerWriter h = 4" "length (bh_entrySegments h) = 2" "joined ''b'' r' = 0"
    by (auto simp: wired_registry_def demo_registry_def demo_register_def)
  with run show ?thesis by auto
qed

text \<open>
  Claim C36. A second registration under a taken name is refused and changes no handle, but it forgets
  who has joined: the next appender is given the first ring again, although another one writes to it.
\<close>

theorem reregister_reuses_rings:
  assumes "reg_bufferHandles r (abq_name req) = Some h" and "abq_register req"
    and "0 < length (bh_entrySegments h)" and "length (bh_entrySegments h) < 2 ^ 64"
  shows "\<exists>r'. handle_all N cfg [DPIAppendBufferRequest req, DPIRetrieveBufferRequest (abq_name req) True] r w =
      Inr ([DPIAppendBufferResponse 503, join_answer (abq_name req) h 0], r', w) \<and>
    reg_bufferHandles r' = reg_bufferHandles r"
proof -
  let ?r = "r\<lparr>reg_appendersJoined := (reg_appendersJoined r)(abq_name req \<mapsto> 0)\<rparr>"
  have "registry_handle N cfg (DPIAppendBufferRequest req) r w = Inr (DPIAppendBufferResponse 503, ?r, w)"
    using assms(1,2)
    by (simp add: registry_handle_def handle_register_def registerBuffer_def newBufferHandle_def error_code_def)
  moreover have "\<exists>r'. registry_handle N cfg (DPIRetrieveBufferRequest (abq_name req) True) ?r w =
      Inr (join_answer (abq_name req) h 0, r', w) \<and> reg_bufferHandles r' = reg_bufferHandles r"
    using join_step [of ?r "abq_name req" h N cfg w] assms(1,4) by (auto simp: joined_def)
  ultimately show ?thesis by auto
qed

theorem reregister_reuses_rings_witness:
  "\<forall>(N :: unit net) w. \<exists>r'. handle_all N config_default
     [DPIAppendBufferRequest (demo_register 2), DPIRetrieveBufferRequest ''b'' True]
     (demo_registry [''b'' \<mapsto> demo_handle]) w =
     Inr ([DPIAppendBufferResponse 503, join_answer ''b'' demo_handle 0], r', w)"
proof (intro allI)
  fix N :: "unit net" and w
  have "reg_bufferHandles (demo_registry [''b'' \<mapsto> demo_handle]) (abq_name (demo_register 2)) = Some demo_handle"
    "abq_register (demo_register 2)" "0 < length (bh_entrySegments demo_handle)"
    "length (bh_entrySegments demo_handle) < 2 ^ 64"
    by (simp_all add: demo_registry_def demo_register_def demo_handle_def)
  from reregister_reuses_rings [OF this, of N config_default w]
  show "\<exists>r'. handle_all N config_default
     [DPIAppendBufferRequest (demo_register 2), DPIRetrieveBufferRequest ''b'' True]
     (demo_registry [''b'' \<mapsto> demo_handle]) w =
     Inr ([DPIAppendBufferResponse 503, join_answer ''b'' demo_handle 0], r', w)"
    by (auto simp: demo_register_def simp del: handle_all.simps)
qed

text \<open>
  Claim C27. What a reader retrieves is what the registry holds, except that the number of writers it sees is the number of
  rings there are. The handle the client builds from the registry's response has the node, segment counts and sizes, type and
  all entry segments of the stored one, the name asked for, and as many writers as entry segments; it is the stored one
  exactly when that is stored under its own name and has one ring per writer, which it has not after a registration that failed half-way
  or when a segment has been appended. A name that is not registered is refused. The registry does not change.
\<close>

theorem retrieve_roundtrip:
  "registry_handle N cfg (createDPIRetrieveBufferRequest name False) r w =
     (case reg_bufferHandles r name of
        None \<Rightarrow> Inr (DPIRetrieveBufferResponse (br_failed DPI_RTRV_BUFFHANDLE_FAILED), r, w)
      | Some h \<Rightarrow> Inr (DPIRetrieveBufferResponse
            ((buffer_response h (bh_entrySegments h) (buffertype_code (bh_buffertype h)))\<lparr>br_name := name\<rparr>), r, w)) \<and>
   (reg_bufferHandles r name = Some h \<longrightarrow>
      (let retrieved = handle_of_response name
         ((buffer_response h (bh_entrySegments h) (buffertype_code (bh_buffertype h)))\<lparr>br_name := name\<rparr>) in
       retrieved = h\<lparr>bh_name := name, bh_numberOfWriters := length (bh_entrySegments h)\<rparr> \<and>
       (retrieved = h \<longleftrightarrow> bh_name h = name \<and> bh_numberOfWriters h = length (bh_entrySegments h))))"
  by (cases "reg_bufferHandles r name"; cases h)
    (auto simp: registry_handle_def createDPIRetrieveBufferRequest_def handle_retrieve_def retrieveBuffer_def
      handle_of_response_def buffer_response_def newBufferHandle_def)

theorem retrieve_roundtrip_witness:
  "\<forall>(N :: unit net) w. registry_handle N config_default (createDPIRetrieveBufferRequest ''b'' False)
     (demo_registry [''b'' \<mapsto> demo_handle]) w =
     Inr (DPIRetrieveBufferResponse ((buffer_response demo_handle (bh_entrySegments demo_handle) 0)\<lparr>br_name := ''b''\<rparr>),
          demo_registry [''b'' \<mapsto> demo_handle], w) \<and>
   handle_of_response ''b'' ((buffer_response demo_handle (bh_entrySegments demo_handle) 0)\<lparr>br_name := ''b''\<rparr>) = demo_handle"
proof (intro allI)
  fix N :: "unit net" and w
  have h: "reg_bufferHandles (demo_registry [''b'' \<mapsto> demo_handle]) ''b'' = Some demo_handle"
    by (simp add: demo_registry_def)
  have d: "buffertype_code (bh_buffertype demo_handle) = 0"
    "demo_handle\<lparr>bh_name := ''b'', bh_numberOfWriters := length (bh_entrySegments demo_handle)\<rparr> = demo_handle"
    by (simp_all add: demo_handle_def newBufferHandle_def buffertype_code_def)
  show "registry_handle N config_default (createDPIRetrieveBufferRequest ''b'' False)
     (demo_registry [''b'' \<mapsto> demo_handle]) w =
     Inr (DPIRetrieveBufferResponse ((buffer_response demo_handle (bh_entrySegments demo_handle) 0)\<lparr>br_name := ''b''\<rparr>),
          demo_registry [''b'' \<mapsto> demo_handle], w) \<and>
   handle_of_response ''b'' ((buffer_response demo_handle (bh_entrySegments demo_handle) 0)\<lparr>br_name := ''b''\<rparr>) = demo_handle"
    using retrieve_roundtrip [of N config_default "''b''" "demo_registry [''b'' \<mapsto> demo_handle]" w demo_handle] h d by (simp add: Let_def)
qed

end
