(* ===== verification/Segment_Header.thy ===== *)
theory Segment_Header
  imports DPI_Prelude
begin

text \<open>
  \<open>Config::DPI_SEGMENT_HEADER_t\<close>, the 24-byte header in front of every segment of a ring: three
  \<open>uint64_t\<close> fields, the flag operations on the last of them, and the header as it lies in byte memory,
  where the writer (over RDMA), the node server and the iterators read and write it.
\<close>

section \<open>The header and its flags\<close>

record DPI_SEGMENT_HEADER_t =
  counter :: nat
  nextSegmentOffset :: nat
  segmentFlags :: "64 word"

definition header_init :: DPI_SEGMENT_HEADER_t where
  "header_init = \<lparr>counter = 0, nextSegmentOffset = 0, segmentFlags = 0\<rparr>"

definition isWriteable :: "DPI_SEGMENT_HEADER_t \<Rightarrow> bool" where
  "isWriteable h \<longleftrightarrow> segmentFlags h AND 1 \<noteq> 0"

definition setWriteable :: "bool \<Rightarrow> DPI_SEGMENT_HEADER_t \<Rightarrow> DPI_SEGMENT_HEADER_t" where
  "setWriteable writeable h =
     h\<lparr>segmentFlags := (if writeable then segmentFlags h OR 1 else segmentFlags h AND 14)\<rparr>"

definition isConsumable :: "DPI_SEGMENT_HEADER_t \<Rightarrow> bool" where
  "isConsumable h \<longleftrightarrow> segmentFlags h AND 2 \<noteq> 0"

definition setConsumable :: "bool \<Rightarrow> DPI_SEGMENT_HEADER_t \<Rightarrow> DPI_SEGMENT_HEADER_t" where
  "setConsumable consumable h =
     h\<lparr>segmentFlags := (if consumable then segmentFlags h OR 2 else segmentFlags h AND 13)\<rparr>"

definition isEndSegment :: "DPI_SEGMENT_HEADER_t \<Rightarrow> bool" where
  "isEndSegment h \<longleftrightarrow> segmentFlags h AND 4 \<noteq> 0"

definition markEndSegment :: "bool \<Rightarrow> DPI_SEGMENT_HEADER_t \<Rightarrow> DPI_SEGMENT_HEADER_t" where
  "markEndSegment endSegment h =
     h\<lparr>segmentFlags := (if endSegment then segmentFlags h OR 4 else segmentFlags h AND 11)\<rparr>"

section \<open>The header in memory\<close>

text \<open>\<open>sizeof(Config::DPI_SEGMENT_HEADER_t)\<close>: three 8-byte fields, no padding.\<close>

abbreviation (input) sizeof_header :: nat where
  "sizeof_header \<equiv> 24"

definition header_bytes :: "DPI_SEGMENT_HEADER_t \<Rightarrow> byte list" where
  "header_bytes h =
     le_bytes 8 (counter h) @ le_bytes 8 (nextSegmentOffset h) @ le_bytes 8 (unat (segmentFlags h))"

definition get_header :: "mem \<Rightarrow> nat \<Rightarrow> DPI_SEGMENT_HEADER_t" where
  "get_header m a = \<lparr>counter = load64 m a, nextSegmentOffset = load64 m (a + 8),
     segmentFlags = word_of_nat (load64 m (a + 16))\<rparr>"

definition put_header :: "mem \<Rightarrow> nat \<Rightarrow> DPI_SEGMENT_HEADER_t \<Rightarrow> mem" where
  "put_header m a h = mem_write m a (header_bytes h)"

text \<open>An update of header fields through a pointer to the header.\<close>

definition upd_header :: "(DPI_SEGMENT_HEADER_t \<Rightarrow> DPI_SEGMENT_HEADER_t) \<Rightarrow> mem \<Rightarrow> nat \<Rightarrow> mem" where
  "upd_header f m a = put_header m a (f (get_header m a))"

text \<open>The two counters of a header are \<open>uint64_t\<close> values.\<close>

definition header_ok :: "DPI_SEGMENT_HEADER_t \<Rightarrow> bool" where
  "header_ok h \<longleftrightarrow> counter h < 2 ^ 64 \<and> nextSegmentOffset h < 2 ^ 64"

section \<open>Lemmas on the flags\<close>

named_theorems flag_simps \<open>what each flag operation does to each flag and field\<close>

lemma and_one_bit: "(w AND 1 \<noteq> (0 :: 64 word)) = bit w 0"
  using bit_iff_and_push_bit_not_eq_0 [of w 0] by simp

lemma and_two_bit: "(w AND 2 \<noteq> (0 :: 64 word)) = bit w 1"
  using bit_iff_and_push_bit_not_eq_0 [of w 1] by simp

lemma and_four_bit: "(w AND 4 \<noteq> (0 :: 64 word)) = bit w 2"
  using bit_iff_and_push_bit_not_eq_0 [of w 2] by simp

lemmas flag_bits = isWriteable_def isConsumable_def isEndSegment_def
  and_one_bit and_two_bit and_four_bit

lemma setWriteable_flags [flag_simps, simp]:
  "isWriteable (setWriteable b h) = b"
  "isConsumable (setWriteable b h) = isConsumable h"
  "isEndSegment (setWriteable b h) = isEndSegment h"
  unfolding flag_bits setWriteable_def by (auto simp: bit_simps)

lemma setConsumable_flags [flag_simps, simp]:
  "isWriteable (setConsumable b h) = isWriteable h"
  "isConsumable (setConsumable b h) = b"
  "isEndSegment (setConsumable b h) = isEndSegment h"
  unfolding flag_bits setConsumable_def by (auto simp: bit_simps)

lemma markEndSegment_flags [flag_simps, simp]:
  "isWriteable (markEndSegment b h) = isWriteable h"
  "isConsumable (markEndSegment b h) = isConsumable h"
  "isEndSegment (markEndSegment b h) = b"
  unfolding flag_bits markEndSegment_def by (auto simp: bit_simps)

lemma flag_ops_fields [flag_simps, simp]:
  "counter (setWriteable b h) = counter h"
  "nextSegmentOffset (setWriteable b h) = nextSegmentOffset h"
  "counter (setConsumable b h) = counter h"
  "nextSegmentOffset (setConsumable b h) = nextSegmentOffset h"
  "counter (markEndSegment b h) = counter h"
  "nextSegmentOffset (markEndSegment b h) = nextSegmentOffset h"
  by (simp_all add: setWriteable_def setConsumable_def markEndSegment_def)

lemma flags_of_counter_update [flag_simps, simp]:
  "isWriteable (h\<lparr>counter := c\<rparr>) = isWriteable h"
  "isConsumable (h\<lparr>counter := c\<rparr>) = isConsumable h"
  "isEndSegment (h\<lparr>counter := c\<rparr>) = isEndSegment h"
  "isWriteable (h\<lparr>nextSegmentOffset := c\<rparr>) = isWriteable h"
  "isConsumable (h\<lparr>nextSegmentOffset := c\<rparr>) = isConsumable h"
  "isEndSegment (h\<lparr>nextSegmentOffset := c\<rparr>) = isEndSegment h"
  by (simp_all add: isWriteable_def isConsumable_def isEndSegment_def)

lemma header_init_flags [flag_simps, simp]:
  "\<not> isWriteable header_init" "\<not> isConsumable header_init" "\<not> isEndSegment header_init"
  "counter header_init = 0" "nextSegmentOffset header_init = 0"
  by (simp_all add: header_init_def isWriteable_def isConsumable_def isEndSegment_def)

section \<open>Lemmas on headers in memory\<close>

lemma length_header_bytes [simp]: "length (header_bytes h) = sizeof_header"
  by (simp add: header_bytes_def)

lemma header_ok_get [simp]: "header_ok (get_header m a)"
  by (simp add: header_ok_def get_header_def)

lemma header_ok_ops [simp]:
  "header_ok (setWriteable b h) = header_ok h"
  "header_ok (setConsumable b h) = header_ok h"
  "header_ok (markEndSegment b h) = header_ok h"
  by (simp_all add: header_ok_def)

lemma header_bytes_get: "header_bytes (get_header m a) = mem_read m a sizeof_header"
proof -
  have field: "le_bytes 8 (load64 m b) = mem_read m b 8" for b
    using le_bytes_le_nat [of "mem_read m b 8"] by (simp add: load64_def)
  have flags: "unat (word_of_nat (load64 m (a + 16)) :: 64 word) = load64 m (a + 16)"
    using load64_bound [of m "a + 16"] by (simp add: unat_of_nat)
  have "mem_read m a (8 + (8 + 8)) = mem_read m a 8 @ mem_read m (a + 8) 8 @ mem_read m (a + 16) 8"
    by (simp only: mem_read_append add.assoc) simp
  then show ?thesis
    by (simp add: header_bytes_def get_header_def field flags)
qed

lemma put_get_header [simp]: "put_header m a (get_header m a) = m"
  by (simp add: put_header_def header_bytes_get)

lemma load64_of_bytes: "mem_read m a 8 = le_bytes 8 v \<Longrightarrow> load64 m a = u64 v"
  by (simp add: load64_def le_nat_le_bytes u64_def)

text \<open>Whatever the rest of memory holds, 24 bytes that encode a header decode to it.\<close>

lemma get_header_of_bytes:
  assumes "mem_read m a sizeof_header = header_bytes h" "header_ok h"
  shows "get_header m a = h"
proof -
  have "mem_read m a (8 + (8 + 8)) = mem_read m a 8 @ mem_read m (a + 8) 8 @ mem_read m (a + 16) 8"
    by (simp only: mem_read_append add.assoc) simp
  with assms(1) have
    "mem_read m a 8 @ mem_read m (a + 8) 8 @ mem_read m (a + 16) 8 =
       le_bytes 8 (counter h) @ le_bytes 8 (nextSegmentOffset h) @ le_bytes 8 (unat (segmentFlags h))"
    by (simp add: header_bytes_def)
  then have "mem_read m a 8 = le_bytes 8 (counter h)"
    and "mem_read m (a + 8) 8 = le_bytes 8 (nextSegmentOffset h)"
    and "mem_read m (a + 16) 8 = le_bytes 8 (unat (segmentFlags h))"
    by simp_all
  moreover have "unat (segmentFlags h) < 2 ^ 64"
    using unsigned_less [of "segmentFlags h"] by simp
  ultimately show ?thesis
    using assms(2) by (simp add: get_header_def load64_of_bytes u64_small header_ok_def)
qed

lemma get_put_header [simp]: "header_ok h \<Longrightarrow> get_header (put_header m a h) a = h"
  by (rule get_header_of_bytes) (simp_all add: put_header_def)

lemma get_header_cong:
  "(\<And>i. a \<le> i \<Longrightarrow> i < a + sizeof_header \<Longrightarrow> m i = m' i) \<Longrightarrow> get_header m a = get_header m' a"
  by (rule get_header_of_bytes) (simp_all add: header_bytes_get mem_read_cong [of a 24 m m'])

lemma get_header_write_disjoint [mem_simps]:
  "a + sizeof_header \<le> b \<or> b + length bs \<le> a \<Longrightarrow> get_header (mem_write m b bs) a = get_header m a"
  by (rule get_header_cong) (auto simp: mem_write_outside)

lemma get_header_put_disjoint [mem_simps]:
  "a + sizeof_header \<le> b \<or> b + sizeof_header \<le> a \<Longrightarrow>
     get_header (put_header m b h) a = get_header m a"
  by (simp add: put_header_def get_header_write_disjoint)

lemma mem_read_put_disjoint [mem_simps]:
  "a + n \<le> b \<or> b + sizeof_header \<le> a \<Longrightarrow> mem_read (put_header m b h) a n = mem_read m a n"
  by (simp add: put_header_def mem_read_write_disjoint)

lemma put_header_outside [mem_simps]:
  "i < a \<or> a + sizeof_header \<le> i \<Longrightarrow> put_header m a h i = m i"
  by (simp add: put_header_def mem_write_outside)

lemma upd_header_outside [mem_simps]:
  "i < a \<or> a + sizeof_header \<le> i \<Longrightarrow> upd_header f m a i = m i"
  by (simp add: upd_header_def put_header_outside)

section \<open>Properties\<close>

text \<open>
  A flag is set through a pointer into memory without disturbing anything else: after
  \<open>setWriteable\<close>, \<open>setConsumable\<close> or \<open>markEndSegment\<close> on the header at an address, that flag of the header
  read back has the value given, the other two flags, the byte counter and the link are as before, every
  header that does not overlap it reads as before, and so does every byte outside its 24 bytes.
\<close>

lemma header_flag_stores:
  "(let h = get_header m a; h' = get_header (upd_header (setWriteable b) m a) a in
      isWriteable h' = b \<and> isConsumable h' = isConsumable h \<and> isEndSegment h' = isEndSegment h \<and>
      counter h' = counter h \<and> nextSegmentOffset h' = nextSegmentOffset h) \<and>
   (let h = get_header m a; h' = get_header (upd_header (setConsumable b) m a) a in
      isWriteable h' = isWriteable h \<and> isConsumable h' = b \<and> isEndSegment h' = isEndSegment h \<and>
      counter h' = counter h \<and> nextSegmentOffset h' = nextSegmentOffset h) \<and>
   (let h = get_header m a; h' = get_header (upd_header (markEndSegment b) m a) a in
      isWriteable h' = isWriteable h \<and> isConsumable h' = isConsumable h \<and> isEndSegment h' = b \<and>
      counter h' = counter h \<and> nextSegmentOffset h' = nextSegmentOffset h) \<and>
   {i. upd_header f m a i \<noteq> m i} \<subseteq> {a..<a + sizeof_header} \<and>
   {c. get_header (upd_header f m a) c \<noteq> get_header m c} \<subseteq> {c. a < c + sizeof_header \<and> c < a + sizeof_header}"
proof (intro conjI)
  show "{i. upd_header f m a i \<noteq> m i} \<subseteq> {a..<a + sizeof_header}"
    using upd_header_outside [of _ a f m] by (force simp: not_less not_le)
  show "{c. get_header (upd_header f m a) c \<noteq> get_header m c} \<subseteq> {c. a < c + sizeof_header \<and> c < a + sizeof_header}"
    using get_header_put_disjoint [of _ a m] by (force simp: upd_header_def not_less not_le)
qed (simp_all add: upd_header_def Let_def)

end
