(* ===== verification/Buffer_Writer.thy ===== *)
theory Buffer_Writer
  imports Registry Segment_Header
begin

text \<open>
  The writers: \<open>BufferWriterBW\<close>, which fills the segments of its ring byte by byte through an internal
  send buffer, and \<open>BufferWriterLat\<close>, which sends every message as one segment and counts the free
  segments. Pointers (data, internal buffer, header) are addresses of the local memory.
\<close>

record InternalBuffer =
  ib_bufferPtr :: nat
  ib_size :: nat
  ib_offset :: nat

section \<open>BufferWriterBW\<close>

text \<open>
  \<open>m_localBufferSegment\<close> points at the front of the handle's entry segments: it is None where the pointer is
  null, and \<open>getNextSegment\<close> moves the offset stored there. \<open>m_segmentHeader\<close> is the address of the header in
  registered memory.
\<close>

record writer_bw =
  bw_localBufferSegment :: "BufferSegment option"
  bw_sizeUsed :: nat
  bw_internalBuffer :: "InternalBuffer option"
  bw_handle :: BufferHandle
  bw_client :: rdma_client
  bw_segmentHeader :: "nat option"
  bw_deleteRdmaClient :: bool

text \<open>\<open>memcpy(dst, src, n)\<close>.\<close>

definition memcpy :: "nat \<Rightarrow> nat \<Rightarrow> nat \<Rightarrow> mem \<Rightarrow> mem" where
  "memcpy dst src n m = mem_write m dst (mem_read m src n)"

text \<open>\<open>m_segmentHeader->...\<close>, which needs the pointer.\<close>

definition bw_header :: "writer_bw \<Rightarrow> 'd world \<Rightarrow> (nat \<times> DPI_SEGMENT_HEADER_t) result" where
  "bw_header s w = (case bw_segmentHeader s of None \<Rightarrow> Inl NullDeref | Some h \<Rightarrow> Inr (h, get_header (lmem w) h))"

definition bw_writeHeaderToRemote ::
  "('d, 'v) verbs_scheme \<Rightarrow> 'c rdma_config_scheme \<Rightarrow> nat \<Rightarrow> writer_bw \<Rightarrow> 'd world \<Rightarrow> (bool \<times> writer_bw \<times> 'd world) result" where
  "bw_writeHeaderToRemote V cfg remoteSegOffset s w =
     (case bw_segmentHeader s of None \<Rightarrow> Inl NullDeref
      | Some h \<Rightarrow>
          bindR (writeRC V cfg (bh_node_id (bw_handle s)) remoteSegOffset h 24 True (bw_client s) w)
            (\<lambda>(ok, c, w). Inr (ok, s\<lparr>bw_client := c\<rparr>, w)))"

text \<open>Reading does not follow the pointer: a null pointer is handed to the device as address 0.\<close>

definition bw_readHeaderFromRemote ::
  "('d, 'v) verbs_scheme \<Rightarrow> 'c rdma_config_scheme \<Rightarrow> nat \<Rightarrow> writer_bw \<Rightarrow> 'd world \<Rightarrow> (bool \<times> writer_bw \<times> 'd world) result" where
  "bw_readHeaderFromRemote V cfg remoteSegOffset s w =
     (let h = (case bw_segmentHeader s of Some a \<Rightarrow> a | None \<Rightarrow> 0) in
      bindR (client_read V cfg (bh_node_id (bw_handle s)) remoteSegOffset h 24 True (bw_client s) w)
        (\<lambda>(ok, c, w). Inr (ok, s\<lparr>bw_client := c\<rparr>, w)))"

text \<open>The result of the header write that flushes the internal buffer is ignored.\<close>

definition bw_writeToSegment ::
  "('d, 'v) verbs_scheme \<Rightarrow> 'c rdma_config_scheme \<Rightarrow> BufferSegment \<Rightarrow> nat \<Rightarrow> nat \<Rightarrow> nat \<Rightarrow> writer_bw \<Rightarrow> 'd world \<Rightarrow>
   (bool \<times> writer_bw \<times> 'd world) result" where
  "bw_writeToSegment V cfg segment insideSegOffset sz data s w =
     (case bw_internalBuffer s of None \<Rightarrow> Inl NullDeref
      | Some ib \<Rightarrow>
          bindR
            (if add64 sz (ib_offset ib) \<le> ib_size ib
             then Inr (s, w\<lparr>lmem := memcpy (ib_bufferPtr ib + ib_offset ib) data sz (lmem w)\<rparr>, ib_offset ib)
             else bindR (bw_writeHeaderToRemote V cfg (seg_offset segment) s w) (\<lambda>(_, s, w).
               Inr (s, w\<lparr>lmem := memcpy (ib_bufferPtr ib) data sz (lmem w)\<rparr>, 0)))
            (\<lambda>(s, w, offset).
               let bufferTmp = ib_bufferPtr ib + offset;
                   s = s\<lparr>bw_internalBuffer := Some (ib\<lparr>ib_offset := add64 offset sz\<rparr>)\<rparr>
               in bindR (writeRC V cfg (bh_node_id (bw_handle s))
                     (add64 (add64 (seg_offset segment) insideSegOffset) 24) bufferTmp sz False (bw_client s) w)
                  (\<lambda>(ok, c, w). Inr (ok, s\<lparr>bw_client := c\<rparr>, w))))"

text \<open>
  \<open>getNextSegment\<close> publishes the current segment, reads the header of the next one and spins until that
  one is writeable. The results of the transfers are ignored.
\<close>

definition bw_getNextSegment ::
  "('d, 'v) verbs_scheme \<Rightarrow> 'c rdma_config_scheme \<Rightarrow> writer_bw \<Rightarrow> 'd world \<Rightarrow> (writer_bw \<times> 'd world) result" where
  "bw_getNextSegment V cfg s w =
     bindR (bw_header s w) (\<lambda>(h, hdr).
     let nextSegmentOffset = nextSegmentOffset hdr;
         hdr = (setWriteable False (setConsumable True hdr))\<lparr>counter := bw_sizeUsed s\<rparr>;
         w = w\<lparr>lmem := put_header (lmem w) h hdr\<rparr>
     in case bw_localBufferSegment s of None \<Rightarrow> Inl NullDeref
        | Some seg \<Rightarrow>
          bindR (bw_writeHeaderToRemote V cfg (seg_offset seg) s w) (\<lambda>(_, s, w).
          bindR (bw_readHeaderFromRemote V cfg nextSegmentOffset s w) (\<lambda>(_, s, w).
          bindR (loopR (\<lambda>(s, w). \<not> isWriteable (get_header (lmem w) h))
                   (\<lambda>(s, w). bindR (bw_readHeaderFromRemote V cfg nextSegmentOffset s w) (\<lambda>(_, s, w). Inr (s, w)))
                   (s, w)) (\<lambda>(s, w).
          let seg = seg\<lparr>seg_offset := nextSegmentOffset\<rparr> in
          Inr (s\<lparr>bw_localBufferSegment := Some seg,
                 bw_handle := (bw_handle s)\<lparr>bh_entrySegments := (bh_entrySegments (bw_handle s))[0 := seg]\<rparr>\<rparr>, w)))))"

text \<open>
  \<open>super_append\<close> calls itself in tail position for the part that does not fit: the recursion is a loop
  over the data still to be written. Its state is whether all writes succeeded, the data pointer and the size.
\<close>

definition bw_splits :: "writer_bw \<Rightarrow> nat \<Rightarrow> bool" where
  "bw_splits s sz = (case bw_localBufferSegment s of None \<Rightarrow> False
     | Some seg \<Rightarrow> seg_size seg < add64 (bw_sizeUsed s) sz)"

definition bw_split_step ::
  "('d, 'v) verbs_scheme \<Rightarrow> 'c rdma_config_scheme \<Rightarrow> nat \<Rightarrow> nat \<Rightarrow> writer_bw \<Rightarrow> 'd world \<Rightarrow>
   (bool \<times> nat \<times> nat \<times> writer_bw \<times> 'd world) result" where
  "bw_split_step V cfg data sz s w =
     (case bw_localBufferSegment s of None \<Rightarrow> Inl NullDeref
      | Some seg \<Rightarrow>
        let firstPartSize = sub64 (seg_size seg) (bw_sizeUsed s) in
        bindR (if 0 < firstPartSize then bw_writeToSegment V cfg seg (bw_sizeUsed s) firstPartSize data s w
               else Inr (True, s, w)) (\<lambda>(ok, s, w).
        if \<not> ok then Inr (False, data, sz, s, w)
        else
          bindR (bw_getNextSegment V cfg (s\<lparr>bw_sizeUsed := add64 (bw_sizeUsed s) firstPartSize\<rparr>) w) (\<lambda>(s, w).
          Inr (True, data + firstPartSize, sub64 sz firstPartSize, s\<lparr>bw_sizeUsed := 0\<rparr>, w))))"

definition bw_super_append ::
  "('d, 'v) verbs_scheme \<Rightarrow> 'c rdma_config_scheme \<Rightarrow> nat \<Rightarrow> nat \<Rightarrow> writer_bw \<Rightarrow> 'd world \<Rightarrow>
   (bool \<times> writer_bw \<times> 'd world) result" where
  "bw_super_append V cfg data sz s w =
     bindR (loopR (\<lambda>(ok, data, sz, s, w). ok \<and> bw_splits s sz)
              (\<lambda>(ok, data, sz, s, w). bw_split_step V cfg data sz s w) (True, data, sz, s, w))
       (\<lambda>(ok, data, sz, s, w).
          if \<not> ok then Inr (False, s, w)
          else case bw_localBufferSegment s of None \<Rightarrow> Inl NullDeref
          | Some seg \<Rightarrow>
              bindR (bw_writeToSegment V cfg seg (bw_sizeUsed s) sz data s w) (\<lambda>(ok, s, w).
              if \<not> ok then Inr (False, s, w)
              else Inr (True, s\<lparr>bw_sizeUsed := add64 (bw_sizeUsed s) sz\<rparr>, w)))"

text \<open>\<open>append\<close> hands the data on in pieces of at most the internal buffer's size.\<close>

definition bw_append ::
  "('d, 'v) verbs_scheme \<Rightarrow> 'c rdma_config_scheme \<Rightarrow> nat \<Rightarrow> nat \<Rightarrow> writer_bw \<Rightarrow> 'd world \<Rightarrow>
   (bool \<times> writer_bw \<times> 'd world) result" where
  "bw_append V cfg data sz s w =
     bindR (loopR (\<lambda>(ok, data, sz, s, w). ok \<and> (case bw_internalBuffer s of None \<Rightarrow> True | Some ib \<Rightarrow> ib_size ib < sz))
              (\<lambda>(ok, data, sz, s, w).
                 case bw_internalBuffer s of None \<Rightarrow> Inl NullDeref
                 | Some ib \<Rightarrow>
                     bindR (bw_super_append V cfg data (ib_size ib) s w) (\<lambda>(ok, s, w).
                     Inr (ok, data + ib_size ib, sz - ib_size ib, s, w)))
              (True, data, sz, s, w))
       (\<lambda>(ok, data, sz, s, w). if \<not> ok then Inr (False, s, w) else bw_super_append V cfg data sz s w)"

definition bw_close ::
  "('d, 'v) verbs_scheme \<Rightarrow> 'c rdma_config_scheme \<Rightarrow> writer_bw \<Rightarrow> 'd world \<Rightarrow> (bool \<times> writer_bw \<times> 'd world) result" where
  "bw_close V cfg s w =
     bindR (bw_header s w) (\<lambda>(h, hdr).
     let hdr = markEndSegment True (setConsumable True (setWriteable False (hdr\<lparr>counter := bw_sizeUsed s\<rparr>)));
         w = w\<lparr>lmem := put_header (lmem w) h hdr\<rparr>
     in case bw_localBufferSegment s of None \<Rightarrow> Inr (True, s, w)
        | Some seg \<Rightarrow> bw_writeHeaderToRemote V cfg (seg_offset seg) s w)"

text \<open>
  The constructor. A buffer that cannot be joined is a null handle the code follows; a handle without
  exactly one ring leaves the writer without segment and client set up. A client is made and connected
  unless one is passed in.
\<close>

definition writer_client ::
  "('d, 'n) net_scheme \<Rightarrow> dpi_config \<Rightarrow> ib_resource_t \<Rightarrow> nat \<Rightarrow> nat \<Rightarrow> rdma_client option \<Rightarrow> 'd world \<Rightarrow>
   (rdma_client \<times> 'd world) result" where
  "writer_client N cfg res0 mem_size node_id rdmaClient w =
     (case rdmaClient of Some c \<Rightarrow> Inr (c, w)
      | None \<Rightarrow>
          bindR (newRDMAClient N cfg res0 mem_size rc w) (\<lambda>(c, w).
          bindR (getIPFromNodeId cfg node_id) (\<lambda>ip.
          bindR (connect_node N cfg ip node_id False c w) (\<lambda>(_, c, w). Inr (c, w)))))"

definition newBufferWriterBW ::
  "('d, 'n) net_scheme \<Rightarrow> dpi_config \<Rightarrow> ib_resource_t \<Rightarrow> rdma_client \<Rightarrow> string \<Rightarrow> proto_client \<Rightarrow> nat \<Rightarrow>
   rdma_client option \<Rightarrow> 'd world \<Rightarrow> (writer_bw \<times> proto_client \<times> 'd world) result" where
  "newBufferWriterBW N cfg res0 no_client bufferName regClient internalBufferSize rdmaClient w =
     bindR (joinBuffer N bufferName regClient w) (\<lambda>(handle, regClient, w).
     case handle of None \<Rightarrow> Inl NullDeref
     | Some h \<Rightarrow>
       let s = \<lparr>bw_localBufferSegment = None, bw_sizeUsed = 0, bw_internalBuffer = None, bw_handle = h,
                bw_client = (case rdmaClient of Some c \<Rightarrow> c | None \<Rightarrow> no_client), bw_segmentHeader = None,
                bw_deleteRdmaClient = False\<rparr> in
       if length (bh_entrySegments h) \<noteq> 1 then Inr (s, regClient, w)
       else
         bindR (writer_client N cfg res0 (add64 internalBufferSize 24) (bh_node_id h) rdmaClient w) (\<lambda>(c, w).
         case client_localAlloc cfg 24 c of (hp, c) \<Rightarrow>
         let s = s\<lparr>bw_localBufferSegment := Some (hd (bh_entrySegments h)), bw_client := c, bw_segmentHeader := hp,
                   bw_deleteRdmaClient := (rdmaClient = None)\<rparr> in
         bindR (bw_readHeaderFromRemote N cfg (seg_offset (hd (bh_entrySegments h))) s w) (\<lambda>(_, s, w).
         case client_localAlloc cfg internalBufferSize (bw_client s) of (ip, c) \<Rightarrow>
         Inr (s\<lparr>bw_client := c,
                bw_internalBuffer := Some \<lparr>ib_bufferPtr = (case ip of Some a \<Rightarrow> a | None \<Rightarrow> 0),
                  ib_size = internalBufferSize, ib_offset = 0\<rparr>\<rparr>, regClient, w))))"

text \<open>The destructor gives the internal buffer back.\<close>

definition bw_destroy :: "'c rdma_config_scheme \<Rightarrow> writer_bw \<Rightarrow> writer_bw" where
  "bw_destroy cfg s =
     (case bw_internalBuffer s of None \<Rightarrow> s
      | Some ib \<Rightarrow> if ib_bufferPtr ib = 0 then s
          else s\<lparr>bw_client := snd (client_localFree cfg (ib_bufferPtr ib) (bw_client s))\<rparr>)"

section \<open>BufferWriterLat\<close>

record writer_lat =
  la_internalBuffer :: "InternalBuffer option"
  la_handle :: BufferHandle
  la_client :: rdma_client
  la_segmentHeader :: "nat option"
  la_deleteRdmaClient :: bool
  la_lastSegmentOffset :: nat
  la_currentSegmentOffset :: nat
  la_nextSegmentOffset :: nat
  la_segmentIndex :: nat
  la_consumedCnt :: "nat option"
  la_writeableFreeSegments :: nat

definition la_read ::
  "('d, 'v) verbs_scheme \<Rightarrow> 'c rdma_config_scheme \<Rightarrow> nat \<Rightarrow> nat option \<Rightarrow> nat \<Rightarrow> writer_lat \<Rightarrow> 'd world \<Rightarrow>
   (bool \<times> writer_lat \<times> 'd world) result" where
  "la_read V cfg off ptr sz s w =
     (let a = (case ptr of Some a \<Rightarrow> a | None \<Rightarrow> 0) in
      bindR (client_read V cfg (bh_node_id (la_handle s)) off a sz True (la_client s) w)
        (\<lambda>(ok, c, w). Inr (ok, s\<lparr>la_client := c\<rparr>, w)))"

definition la_readHeaderFromRemote where
  "la_readHeaderFromRemote V cfg s w = la_read V cfg (la_currentSegmentOffset s) (la_segmentHeader s) 24 s w"

text \<open>The counter lies just before the entry segment.\<close>

definition la_readCounterFromRemote ::
  "('d, 'v) verbs_scheme \<Rightarrow> 'c rdma_config_scheme \<Rightarrow> writer_lat \<Rightarrow> 'd world \<Rightarrow> (bool \<times> writer_lat \<times> 'd world) result" where
  "la_readCounterFromRemote V cfg s w =
     bindR (index_op (bh_entrySegments (la_handle s)) 0) (\<lambda>seg.
       la_read V cfg (sub64 (seg_offset seg) 8) (la_consumedCnt s) 8 s w)"

definition la_writeHeaderToRemote ::
  "('d, 'v) verbs_scheme \<Rightarrow> 'c rdma_config_scheme \<Rightarrow> nat \<Rightarrow> writer_lat \<Rightarrow> 'd world \<Rightarrow> (bool \<times> writer_lat \<times> 'd world) result" where
  "la_writeHeaderToRemote V cfg offset s w =
     (case la_segmentHeader s of None \<Rightarrow> Inl NullDeref
      | Some h \<Rightarrow>
          bindR (writeRC V cfg (bh_node_id (la_handle s)) offset h 24 True (la_client s) w)
            (\<lambda>(ok, c, w). Inr (ok, s\<lparr>la_client := c\<rparr>, w)))"

text \<open>
  The header's fields are set, then header and data are copied into the internal buffer and sent in one
  write. The second copy takes the size that already includes the header.
\<close>

definition la_writeToSegment ::
  "('d, 'v) verbs_scheme \<Rightarrow> 'c rdma_config_scheme \<Rightarrow> nat \<Rightarrow> nat \<Rightarrow> bool \<Rightarrow> writer_lat \<Rightarrow> 'd world \<Rightarrow>
   (bool \<times> writer_lat \<times> 'd world) result" where
  "la_writeToSegment V cfg sz data signaled s w =
     (case (la_segmentHeader s, la_internalBuffer s) of
        (Some h, Some ib) \<Rightarrow>
          let hdr = (setConsumable True ((get_header (lmem w) h)\<lparr>counter := sz\<rparr>))\<lparr>nextSegmentOffset := la_nextSegmentOffset s\<rparr>;
              m = put_header (lmem w) h hdr;
              sz = add64 sz 24;
              offset = (if ib_size ib < add64 sz (ib_offset ib) then 0 else ib_offset ib);
              m = memcpy (ib_bufferPtr ib + offset) h 24 m;
              m = memcpy (ib_bufferPtr ib + offset + 24) data sz m;
              bufferTmp = ib_bufferPtr ib + offset;
              s = s\<lparr>la_internalBuffer := Some (ib\<lparr>ib_offset := add64 offset sz\<rparr>)\<rparr>
          in bindR (writeRC V cfg (bh_node_id (la_handle s)) (la_currentSegmentOffset s) bufferTmp sz signaled
                (la_client s) (w\<lparr>lmem := m\<rparr>)) (\<lambda>(ok, c, w). Inr (ok, s\<lparr>la_client := c\<rparr>, w))
      | _ \<Rightarrow> Inl NullDeref)"

text \<open>
  Waiting for the consumer when no segment is free: the counter is read until it differs from the value
  seen before. A counter below that value is taken to have rolled over.
\<close>

definition la_refill ::
  "('d, 'v) verbs_scheme \<Rightarrow> 'c rdma_config_scheme \<Rightarrow> writer_lat \<Rightarrow> 'd world \<Rightarrow> (writer_lat \<times> 'd world) result" where
  "la_refill V cfg s w =
     (if la_writeableFreeSegments s \<noteq> 0 then Inr (s, w)
      else case la_consumedCnt s of None \<Rightarrow> Inl NullDeref
      | Some cnt \<Rightarrow>
        let consumedCntOld = load64 (lmem w) cnt in
        bindR (loopR (\<lambda>(s, w). consumedCntOld = load64 (lmem w) cnt)
                 (\<lambda>(s, w). bindR (la_readCounterFromRemote V cfg s w) (\<lambda>(_, s, w). Inr (s, w))) (s, w)) (\<lambda>(s, w).
        let now = load64 (lmem w) cnt;
            freed = (if now < consumedCntOld then add64 now (sub64 (2 ^ 64 - 1) consumedCntOld)
                     else sub64 now consumedCntOld)
        in Inr (s\<lparr>la_writeableFreeSegments := add64 (la_writeableFreeSegments s) freed\<rparr>, w)))"

text \<open>The offset of the segment after the current one.\<close>

definition la_advance :: "writer_lat \<Rightarrow> writer_lat result" where
  "la_advance s =
     (if la_segmentIndex s = sub64 (bh_segmentsPerWriter (la_handle s)) 1 then
        bindR (index_op (bh_entrySegments (la_handle s)) 0) (\<lambda>seg.
          Inr (s\<lparr>la_nextSegmentOffset := seg_offset seg, la_segmentIndex := 0\<rparr>))
      else Inr (s\<lparr>la_nextSegmentOffset :=
                    add64 (add64 (la_currentSegmentOffset s) (bh_segmentSizes (la_handle s))) 24,
                  la_segmentIndex := add64 (la_segmentIndex s) 1\<rparr>))"

definition la_append ::
  "('d, 'v) verbs_scheme \<Rightarrow> 'c rdma_config_scheme \<Rightarrow> nat \<Rightarrow> nat \<Rightarrow> bool \<Rightarrow> writer_lat \<Rightarrow> 'd world \<Rightarrow>
   (bool \<times> writer_lat \<times> 'd world) result" where
  "la_append V cfg data sz signaled s w =
     bindR (la_refill V cfg s w) (\<lambda>(s, w).
     bindR (la_advance s) (\<lambda>s.
     bindR (la_writeToSegment V cfg sz data (la_writeableFreeSegments s = 1 \<or> signaled) s w) (\<lambda>(ok, s, w).
     if \<not> ok then Inr (False, s, w)
     else Inr (True, s\<lparr>la_writeableFreeSegments := sub64 (la_writeableFreeSegments s) 1,
                        la_lastSegmentOffset := la_currentSegmentOffset s,
                        la_currentSegmentOffset := la_nextSegmentOffset s\<rparr>, w))))"

definition la_close ::
  "('d, 'v) verbs_scheme \<Rightarrow> 'c rdma_config_scheme \<Rightarrow> writer_lat \<Rightarrow> 'd world \<Rightarrow> (bool \<times> writer_lat \<times> 'd world) result" where
  "la_close V cfg s w =
     (case la_segmentHeader s of None \<Rightarrow> Inl NullDeref
      | Some h \<Rightarrow>
          let hdr = markEndSegment True (setConsumable True (setWriteable False
                ((get_header (lmem w) h)\<lparr>counter := bh_segmentSizes (la_handle s)\<rparr>)))
          in la_writeHeaderToRemote V cfg (la_lastSegmentOffset s) s (w\<lparr>lmem := put_header (lmem w) h hdr\<rparr>))"

definition newBufferWriterLat ::
  "('d, 'n) net_scheme \<Rightarrow> dpi_config \<Rightarrow> ib_resource_t \<Rightarrow> rdma_client \<Rightarrow> string \<Rightarrow> proto_client \<Rightarrow> nat \<Rightarrow>
   rdma_client option \<Rightarrow> 'd world \<Rightarrow> (writer_lat \<times> proto_client \<times> 'd world) result" where
  "newBufferWriterLat N cfg res0 no_client bufferName regClient internalBufferSize rdmaClient w =
     bindR (joinBuffer N bufferName regClient w) (\<lambda>(handle, regClient, w).
     case handle of None \<Rightarrow> Inl NullDeref
     | Some h \<Rightarrow>
       let s = \<lparr>la_internalBuffer = None, la_handle = h,
                la_client = (case rdmaClient of Some c \<Rightarrow> c | None \<Rightarrow> no_client), la_segmentHeader = None,
                la_deleteRdmaClient = False, la_lastSegmentOffset = 0, la_currentSegmentOffset = 0,
                la_nextSegmentOffset = 0, la_segmentIndex = 0, la_consumedCnt = None,
                la_writeableFreeSegments = 0\<rparr> in
       if bh_buffertype h \<noteq> LAT \<or> length (bh_entrySegments h) \<noteq> 1 \<or> internalBufferSize \<le> bh_segmentSizes h
       then Inr (s, regClient, w)
       else
         let cur = seg_offset (hd (bh_entrySegments h)) in
         bindR (writer_client N cfg res0 (add64 internalBufferSize 32) (bh_node_id h) rdmaClient w) (\<lambda>(c, w).
         case client_localAlloc cfg 24 c of (hp, c) \<Rightarrow>
         case client_localAlloc cfg 8 c of (cp, c) \<Rightarrow>
         case client_localAlloc cfg internalBufferSize c of (ip, c) \<Rightarrow>
         let s = s\<lparr>la_currentSegmentOffset := cur, la_nextSegmentOffset := add64 (add64 cur (bh_segmentSizes h)) 24,
                   la_client := c, la_deleteRdmaClient := (rdmaClient = None), la_segmentHeader := hp,
                   la_consumedCnt := cp,
                   la_internalBuffer := Some \<lparr>ib_bufferPtr = (case ip of Some a \<Rightarrow> a | None \<Rightarrow> 0),
                     ib_size = internalBufferSize, ib_offset = 0\<rparr>\<rparr> in
         bindR (la_readHeaderFromRemote N cfg s w) (\<lambda>(_, s, w).
         bindR (la_readCounterFromRemote N cfg s w) (\<lambda>(_, s, w).
         case la_consumedCnt s of None \<Rightarrow> Inl NullDeref
         | Some a \<Rightarrow> Inr (s\<lparr>la_writeableFreeSegments := load64 (lmem w) a\<rparr>, regClient, w)))))"

end
