(* ===== verification/RDMA_Server.thy ===== *)
theory RDMA_Server
  imports Managers
begin

text \<open>
  \<open>RDMAServer\<close>: the server side of connection set-up and of remote memory, behind the request/reply
  loop, and its own two-sided and multicast transfers. The locks of the class serialise its handlers;
  each operation here is one critical section.
\<close>

record rdma_server =
  srv_manager :: manager
  srv_countWR :: nat
  srv_addr :: "ib_addr_t list"
  srv_addr2mgmtAddr :: "nat \<rightharpoonup> ib_addr_t"
  srv_mcastAddr :: "string \<rightharpoonup> ib_addr_t"

definition newRDMAServer ::
  "('d, 'v) verbs_scheme \<Rightarrow> 'c rdma_config_scheme \<Rightarrow> ib_resource_t \<Rightarrow> rdma_transport_t \<Rightarrow> 'd world \<Rightarrow>
   (rdma_server \<times> 'd world) result" where
  "newRDMAServer V cfg res0 transport w =
     bindR (newManager V cfg res0 (cfg_RDMA_MEMSIZE cfg) transport w) (\<lambda>(mgr, w).
       Inr (\<lparr>srv_manager = mgr, srv_countWR = 0, srv_addr = [], srv_addr2mgmtAddr = Map.empty,
             srv_mcastAddr = Map.empty\<rparr>, w))"

section \<open>Memory\<close>

definition server_localAlloc :: "'c rdma_config_scheme \<Rightarrow> nat \<Rightarrow> rdma_server \<Rightarrow> nat option \<times> rdma_server" where
  "server_localAlloc cfg sz s =
     (case mgr_localAlloc cfg sz (srv_manager s) of (p, mgr) \<Rightarrow> (p, s\<lparr>srv_manager := mgr\<rparr>))"

definition server_remoteAlloc :: "nat \<Rightarrow> rdma_server \<Rightarrow> rdma_mem_t \<times> rdma_server" where
  "server_remoteAlloc sz s =
     (case mgr_remoteAlloc sz (srv_manager s) of (r, mgr) \<Rightarrow> (r, s\<lparr>srv_manager := mgr\<rparr>))"

definition server_localFree :: "'c rdma_config_scheme \<Rightarrow> nat \<Rightarrow> rdma_server \<Rightarrow> bool \<times> rdma_server" where
  "server_localFree cfg ptr s =
     (case mgr_localFree cfg ptr (srv_manager s) of (b, mgr) \<Rightarrow> (b, s\<lparr>srv_manager := mgr\<rparr>))"

definition server_localFree_offset :: "nat \<Rightarrow> rdma_server \<Rightarrow> bool \<times> rdma_server" where
  "server_localFree_offset off s =
     (case mgr_localFree_offset off (srv_manager s) of (b, mgr) \<Rightarrow> (b, s\<lparr>srv_manager := mgr\<rparr>))"

definition server_getBuffer :: "nat \<Rightarrow> rdma_server \<Rightarrow> nat" where
  "server_getBuffer off s = mgr_buffer (srv_manager s) + off"

text \<open>The offset of the null region, 0, is returned with the error.\<close>

definition requestMemoryResource :: "nat \<Rightarrow> rdma_server \<Rightarrow> MessageErrors \<times> nat \<times> rdma_server" where
  "requestMemoryResource sz s =
     (case mgr_remoteAlloc sz (srv_manager s) of (memRes, mgr) \<Rightarrow>
      (if \<not> rm_isnull memRes then NO_ERROR else MEMORY_NOT_AVAILABLE, rm_offset memRes, s\<lparr>srv_manager := mgr\<rparr>))"

definition releaseMemoryResource :: "nat \<Rightarrow> rdma_server \<Rightarrow> MessageErrors \<times> rdma_server" where
  "releaseMemoryResource off s =
     (case mgr_remoteFree off (srv_manager s) of (ok, mgr) \<Rightarrow>
      (if \<not> ok then MEMORY_RELEASE_FAILED else NO_ERROR, s\<lparr>srv_manager := mgr\<rparr>))"

section \<open>Connections\<close>

text \<open>
  The response message is filled only on success; the caller packs it either way, so the client sees
  an empty response after a failure.
\<close>

definition connectQueue ::
  "('d, 'v) verbs_scheme \<Rightarrow> 'c rdma_config_scheme \<Rightarrow> ConnMessage \<Rightarrow> rdma_server \<Rightarrow> 'd world \<Rightarrow>
   (bool \<times> ConnMessage \<times> rdma_server \<times> 'd world) result" where
  "connectQueue V cfg connRequest s w =
     bindR (mgr_initQP V cfg ib_addr_init False (srv_manager s) w) (\<lambda>(ok, ibAddr, mgr, w).
     let s = s\<lparr>srv_manager := mgr\<rparr> in
     if \<not> ok then Inr (False, conn_message_empty, s, w)
     else
       let s = s\<lparr>srv_addr := srv_addr s @ [ibAddr]\<rparr> in
       bindR (conn_of_message V connRequest) (\<lambda>remoteConn.
       bindR (mgr_connectQP V ibAddr (mgr_setRemoteConnData ibAddr remoteConn mgr) w) (\<lambda>(ok, mgr, w).
       let s = s\<lparr>srv_manager := mgr\<rparr> in
       if \<not> ok then Inr (False, conn_message_empty, s, w)
       else bindR (mgr_getLocalConnData ibAddr mgr) (\<lambda>localConn.
         Inr (True, conn_message localConn (conn_qp_num localConn) (conn_key ibAddr), s, w)))))"

definition connectMgmtQueue ::
  "('d, 'v) verbs_scheme \<Rightarrow> 'c rdma_config_scheme \<Rightarrow> ConnMessage \<Rightarrow> rdma_server \<Rightarrow> 'd world \<Rightarrow>
   (bool \<times> ConnMessage \<times> rdma_server \<times> 'd world) result" where
  "connectMgmtQueue V cfg connRequest s w =
     bindR (mgr_initQP V cfg ib_addr_init True (srv_manager s) w) (\<lambda>(ok, serverMgmtAddr, mgr, w).
     let s = s\<lparr>srv_manager := mgr\<rparr> in
     if \<not> ok then Inr (False, conn_message_empty, s, w)
     else bindR (mgr_getLocalConnData serverMgmtAddr mgr) (\<lambda>localConn.
       let s = s\<lparr>srv_addr2mgmtAddr := (srv_addr2mgmtAddr s)(cm_server_connkey connRequest \<mapsto> serverMgmtAddr)\<rparr> in
       bindR (conn_of_message V connRequest) (\<lambda>remoteConn.
       bindR (mgr_connectQP V serverMgmtAddr (mgr_setRemoteConnData serverMgmtAddr remoteConn mgr) w) (\<lambda>(ok, mgr, w).
       let s = s\<lparr>srv_manager := mgr\<rparr> in
       if \<not> ok then Inr (False, conn_message_empty, s, w)
       else Inr (True, conn_message localConn (conn_qp_num localConn) 0, s, w)))))"

definition server_getMgmtQueue :: "ib_addr_t \<Rightarrow> rdma_server \<Rightarrow> ib_addr_t result" where
  "server_getMgmtQueue serverQueue s =
     (case srv_addr2mgmtAddr s (conn_key serverQueue) of Some a \<Rightarrow> Inr a | None \<Rightarrow> Inl OutOfRange)"

definition getQueues :: "rdma_server \<Rightarrow> ib_addr_t list" where
  "getQueues s = srv_addr s"

section \<open>Requests\<close>

definition server_handle ::
  "('d, 'v) verbs_scheme \<Rightarrow> 'c rdma_config_scheme \<Rightarrow> any_msg \<Rightarrow> rdma_server \<Rightarrow> 'd world \<Rightarrow>
   (any_msg \<times> rdma_server \<times> 'd world) result" where
  "server_handle V cfg anyReq s w =
     (case anyReq of
        RDMAConnRequest connReq \<Rightarrow>
          bindR (connectQueue V cfg connReq s w) (\<lambda>(_, connResp, s, w). Inr (RDMAConnResponse connResp, s, w))
      | RDMAConnRequestMgmt connReq \<Rightarrow>
          bindR (connectMgmtQueue V cfg connReq s w) (\<lambda>(_, connResp, s, w). Inr (RDMAConnResponseMgmt connResp, s, w))
      | MemoryResourceRequest reqMsg \<Rightarrow>
          if mq_type reqMsg = MEMORY_RESOURCE_RELEASE then
            case releaseMemoryResource (mq_offset reqMsg) s of (e, s) \<Rightarrow>
              Inr (MemoryResourceResponse (mq_offset reqMsg) (error_code e), s, w)
          else if mq_type reqMsg = MEMORY_RESOURCE_REQUEST then
            case requestMemoryResource (mq_size reqMsg) s of (e, off, s) \<Rightarrow>
              Inr (MemoryResourceResponse off (error_code e), s, w)
          else Inr (MemoryResourceResponse 0 0, s, w)
      | _ \<Rightarrow> Inr (ErrorMessage (error_code INVALID_MESSAGE), s, w))"

section \<open>Transfers\<close>

text \<open>\<open>checkSignaled\<close>: every \<open>RDMA_MAX_WR\<close>-th request is signaled; a signaled one restarts the count.\<close>

definition server_checkSignaled :: "'c rdma_config_scheme \<Rightarrow> bool \<Rightarrow> rdma_server \<Rightarrow> bool \<times> rdma_server" where
  "server_checkSignaled cfg signaled s =
     (let n = add64 (srv_countWR s) 1;
          signaled = (signaled \<or> n mod cfg_RDMA_MAX_WR cfg = 0)
      in (signaled, s\<lparr>srv_countWR := (if signaled then 0 else n)\<rparr>))"

definition server_receive where
  "server_receive V cfg ibAddr localAddr sz s w = mgr_receive V cfg ibAddr localAddr sz (srv_manager s) w"

definition server_send ::
  "('d, 'v) verbs_scheme \<Rightarrow> 'c rdma_config_scheme \<Rightarrow> ib_addr_t \<Rightarrow> nat \<Rightarrow> nat \<Rightarrow> bool \<Rightarrow> rdma_server \<Rightarrow> 'd world \<Rightarrow>
   (bool \<times> rdma_server \<times> 'd world) result" where
  "server_send V cfg ibAddr localAddr sz signaled s w =
     (case server_checkSignaled cfg signaled s of (signaled, s) \<Rightarrow>
      bindR (mgr_send V ibAddr localAddr sz signaled (srv_manager s) w) (\<lambda>(ok, w). Inr (ok, s, w)))"

definition server_pollReceive where
  "server_pollReceive V ibAddr doPoll s w = mgr_pollReceive V ibAddr doPoll (srv_manager s) w"

definition server_pollReceive_qp :: "ib_addr_t \<Rightarrow> nat \<Rightarrow> bool \<times> nat" where
  "server_pollReceive_qp ibAddr ret_qp_num = mgr_pollReceive_qp ibAddr ret_qp_num"

section \<open>Multicast\<close>

definition server_joinMCastGroup ::
  "('d, 'v) verbs_cm_scheme \<Rightarrow> 'c rdma_config_scheme \<Rightarrow> string \<Rightarrow> ib_addr_t \<Rightarrow> rdma_server \<Rightarrow> 'd world \<Rightarrow>
   (bool \<times> ib_addr_t \<times> rdma_server \<times> 'd world) result" where
  "server_joinMCastGroup V cfg mCastAddress retIbAddr s w =
     bindR (mgr_joinMCastGroup V cfg mCastAddress retIbAddr (srv_manager s) w) (\<lambda>(ok, a, mgr, w).
       let s = s\<lparr>srv_manager := mgr\<rparr> in
       Inr (ok, a, if ok then s\<lparr>srv_mcastAddr := (srv_mcastAddr s)(mCastAddress \<mapsto> a)\<rparr> else s, w))"

text \<open>\<open>m_mcastAddr[name]\<close> makes a default entry for a group that was never joined.\<close>

definition server_mcast :: "string \<Rightarrow> rdma_server \<Rightarrow> ib_addr_t \<times> rdma_server" where
  "server_mcast name s =
     (case srv_mcastAddr s name of Some a \<Rightarrow> (a, s)
      | None \<Rightarrow> (ib_addr_init, s\<lparr>srv_mcastAddr := (srv_mcastAddr s)(name \<mapsto> ib_addr_init)\<rparr>))"

definition server_leaveMCastGroup where
  "server_leaveMCastGroup V name s w =
     (case server_mcast name s of (a, s) \<Rightarrow>
      bindR (mgr_leaveMCastGroup V a (srv_manager s) w) (\<lambda>(ok, w). Inr (ok, s, w)))"

definition server_sendMCast where
  "server_sendMCast V name memAddr sz signaled s w =
     (case server_mcast name s of (a, s) \<Rightarrow>
      bindR (mgr_sendMCast V a memAddr sz signaled (srv_manager s) w) (\<lambda>(ok, w). Inr (ok, s, w)))"

definition server_receiveMCast where
  "server_receiveMCast V cfg name memAddr sz s w =
     (case server_mcast name s of (a, s) \<Rightarrow>
      bindR (mgr_receiveMCast V cfg a memAddr sz (srv_manager s) w) (\<lambda>(ok, w). Inr (ok, s, w)))"

definition server_pollReceiveMCast where
  "server_pollReceiveMCast V name s w =
     (case server_mcast name s of (a, s) \<Rightarrow>
      bindR (mgr_pollReceiveMCast V a (srv_manager s) w) (\<lambda>(ok, w). Inr (ok, s, w)))"

end
