(* ===== verification/Node_Server.thy ===== *)
theory Node_Server
  imports RDMA_Server Segment_Header
begin

text \<open>
  \<open>NodeServer\<close>: the RDMA server that also carves rings of segments out of its registered buffer. A ring
  is a block of \<open>segmentsCount\<close> segments of \<open>segmentsSize\<close> bytes, each starting with a header whose
  \<open>nextSegmentOffset\<close> leads to the next segment and from the last back to the first; a ring for
  low-latency writers has an 8-byte counter of free segments in front.
\<close>

section \<open>The handler\<close>

definition segment_header :: "nat \<Rightarrow> nat \<Rightarrow> nat \<Rightarrow> nat \<Rightarrow> DPI_SEGMENT_HEADER_t" where
  "segment_header offset segmentsCount segmentsSize i =
     (let lastSegment = (i = segmentsCount - 1);
          nextSegOffset = (if lastSegment then offset else add64 offset (mul64 (i + 1) segmentsSize))
      in setWriteable True (header_init\<lparr>counter := 0, nextSegmentOffset := nextSegOffset\<rparr>))"

definition write_ring :: "nat \<Rightarrow> nat \<Rightarrow> nat \<Rightarrow> nat \<Rightarrow> mem \<Rightarrow> mem" where
  "write_ring base offset segmentsCount segmentsSize m =
     fold (\<lambda>i m. put_header m (base + offset + mul64 i segmentsSize)
            (segment_header offset segmentsCount segmentsSize i)) [0..<segmentsCount] m"

definition node_allocSegments ::
  "AllocSegmentsRequest \<Rightarrow> rdma_server \<Rightarrow> 'd world \<Rightarrow> any_msg \<times> rdma_server \<times> 'd world" where
  "node_allocSegments req s w =
     (let segmentsCount = asq_segments_count req;
          segmentsSize = asq_segments_size req;
          bufferType = buffertype_of (asq_buffer_type req);
          allocateMemorySize = mul64 segmentsCount segmentsSize;
          allocateMemorySize = (if bufferType = LAT then add64 allocateMemorySize 8 else allocateMemorySize);
          (e, offset, s) = requestMemoryResource allocateMemorySize s;
          base = server_getBuffer 0 s;
          m = (if bufferType = LAT then store64 (lmem w) (base + offset) segmentsCount else lmem w);
          offset = (if bufferType = LAT then add64 offset 8 else offset);
          m = write_ring base offset segmentsCount segmentsSize m
      in (DPIAllocSegmentsResponse \<lparr>asr_offset = offset, asr_return = error_code e\<rparr>, s, w\<lparr>lmem := m\<rparr>))"

definition node_handle ::
  "('d, 'v) verbs_scheme \<Rightarrow> 'c rdma_config_scheme \<Rightarrow> any_msg \<Rightarrow> rdma_server \<Rightarrow> 'd world \<Rightarrow>
   (any_msg \<times> rdma_server \<times> 'd world) result" where
  "node_handle V cfg sendMsg s w =
     (case sendMsg of
        DPIAllocSegmentsRequest req \<Rightarrow> Inr (node_allocSegments req s w)
      | _ \<Rightarrow> server_handle V cfg sendMsg s w)"

section \<open>Rings\<close>

definition seg_at :: "nat \<Rightarrow> nat \<Rightarrow> nat \<Rightarrow> nat" where
  "seg_at entry sz i = entry + i * sz"

definition ring_linked :: "mem \<Rightarrow> nat \<Rightarrow> nat \<Rightarrow> nat \<Rightarrow> nat \<Rightarrow> bool" where
  "ring_linked m base entry cnt sz \<longleftrightarrow>
     (\<forall>i < cnt. nextSegmentOffset (get_header m (base + seg_at entry sz i)) = seg_at entry sz (Suc i mod cnt))"

definition fresh_header :: "DPI_SEGMENT_HEADER_t \<Rightarrow> bool" where
  "fresh_header h \<longleftrightarrow> counter h = 0 \<and> isWriteable h \<and> \<not> isConsumable h \<and> \<not> isEndSegment h"

definition ring_fresh :: "mem \<Rightarrow> nat \<Rightarrow> nat \<Rightarrow> nat \<Rightarrow> nat \<Rightarrow> bool" where
  "ring_fresh m base entry cnt sz \<longleftrightarrow>
     ring_linked m base entry cnt sz \<and> (\<forall>i < cnt. fresh_header (get_header m (base + seg_at entry sz i)))"

text \<open>The segment reached from the entry by following \<open>n\<close> links.\<close>

fun follow :: "mem \<Rightarrow> nat \<Rightarrow> nat \<Rightarrow> nat \<Rightarrow> nat" where
  "follow m base off 0 = off"
| "follow m base off (Suc n) = follow m base (nextSegmentOffset (get_header m (base + off))) n"

lemma seg_disjoint:
  assumes "i \<noteq> j" "h \<le> sz"
  shows "seg_at entry sz i + h \<le> seg_at entry sz j \<or> seg_at entry sz j + h \<le> seg_at entry sz i"
proof -
  have "seg_at entry sz i + h \<le> seg_at entry sz j" if "i < j" for i j
  proof -
    have "i * sz + sz \<le> j * sz" using mult_le_mono1 [of "Suc i" j sz] that by simp
    with assms(2) show ?thesis by (simp add: seg_at_def)
  qed
  then show ?thesis using assms(1) by (meson linorder_neqE_nat)
qed

lemma follow_Suc: "follow m base off (Suc n) = nextSegmentOffset (get_header m (base + follow m base off n))"
  by (induction n arbitrary: off) auto

lemma follow_linked:
  assumes "ring_linked m base entry cnt sz" "0 < cnt"
  shows "follow m base entry n = seg_at entry sz (n mod cnt)"
proof (induction n)
  case 0
  then show ?case by (simp add: seg_at_def)
next
  case (Suc n)
  have "nextSegmentOffset (get_header m (base + seg_at entry sz (n mod cnt))) = seg_at entry sz (Suc (n mod cnt) mod cnt)"
    using assms by (simp add: ring_linked_def)
  then show ?case by (simp only: follow_Suc Suc.IH mod_Suc_eq)
qed

lemma segment_header_ok:
  assumes "i < cnt" "seg_at entry sz cnt < 2 ^ 64"
  shows "header_ok (segment_header entry cnt sz i)" "fresh_header (segment_header entry cnt sz i)"
    "nextSegmentOffset (segment_header entry cnt sz i) = seg_at entry sz (Suc i mod cnt)"
proof -
  have le: "Suc i * sz \<le> cnt * sz" using assms(1) by (intro mult_le_mono1) simp
  have next_off: "add64 entry (mul64 (Suc i) sz) = seg_at entry sz (Suc i)" if "Suc i < cnt"
  proof -
    have "mul64 (Suc i) sz = Suc i * sz" using le assms(2) by (intro mul64_small) (simp add: seg_at_def)
    moreover have "entry + Suc i * sz < 2 ^ 64" using le assms(2) by (simp add: seg_at_def)
    ultimately show ?thesis by (simp add: add64_small seg_at_def)
  qed
  show n: "nextSegmentOffset (segment_header entry cnt sz i) = seg_at entry sz (Suc i mod cnt)"
  proof (cases "Suc i = cnt")
    case True
    then show ?thesis by (auto simp: segment_header_def seg_at_def)
  next
    case False
    then have "Suc i < cnt" using assms(1) by simp
    then show ?thesis using next_off by (auto simp: segment_header_def)
  qed
  have "Suc i mod cnt * sz \<le> cnt * sz" using assms(1) by (intro mult_le_mono1) simp
  then have "seg_at entry sz (Suc i mod cnt) < 2 ^ 64"
    using assms(2) unfolding seg_at_def by linarith
  then show "header_ok (segment_header entry cnt sz i)"
    using n by (simp add: header_ok_def segment_header_def)
  show "fresh_header (segment_header entry cnt sz i)"
    by (simp add: fresh_header_def segment_header_def Let_def)
qed

lemma fold_put_headers:
  assumes "distinct is" "sizeof_header \<le> sz"
    and "\<And>i. i \<in> set is \<Longrightarrow> header_ok (h i)"
  shows "(\<forall>i \<in> set is. get_header (fold (\<lambda>i m. put_header m (base + seg_at entry sz i) (h i)) is m)
            (base + seg_at entry sz i) = h i) \<and>
    (\<forall>a. (\<forall>i \<in> set is. a < base + seg_at entry sz i \<or> base + seg_at entry sz i + sizeof_header \<le> a) \<longrightarrow>
       fold (\<lambda>i m. put_header m (base + seg_at entry sz i) (h i)) is m a = m a)"
  using assms
proof (induction "is" arbitrary: m)
  case (Cons j js)
  let ?f = "fold (\<lambda>i m. put_header m (base + seg_at entry sz i) (h i)) js"
  let ?m = "put_header m (base + seg_at entry sz j) (h j)"
  have IH: "(\<forall>i \<in> set js. get_header (?f ?m) (base + seg_at entry sz i) = h i) \<and>
      (\<forall>a. (\<forall>i \<in> set js. a < base + seg_at entry sz i \<or> base + seg_at entry sz i + sizeof_header \<le> a) \<longrightarrow> ?f ?m a = ?m a)"
    using Cons.prems by (intro Cons.IH) auto
  have "get_header (?f ?m) (base + seg_at entry sz j) = get_header ?m (base + seg_at entry sz j)"
  proof (rule get_header_cong)
    fix a assume a: "base + seg_at entry sz j \<le> a" "a < base + seg_at entry sz j + sizeof_header"
    have "a < base + seg_at entry sz i \<or> base + seg_at entry sz i + sizeof_header \<le> a" if "i \<in> set js" for i
    proof -
      have "i \<noteq> j" using Cons.prems(1) that by auto
      from seg_disjoint [OF this Cons.prems(2), of entry] a show ?thesis by linarith
    qed
    with IH show "?f ?m a = ?m a" by simp
  qed
  also have "\<dots> = h j" using Cons.prems(3) by simp
  finally have j: "get_header (?f ?m) (base + seg_at entry sz j) = h j" .
  have "?f ?m a = m a"
    if "\<forall>i \<in> set (j # js). a < base + seg_at entry sz i \<or> base + seg_at entry sz i + sizeof_header \<le> a" for a
  proof -
    have "?m a = m a" using that by (intro put_header_outside) simp
    moreover have "?f ?m a = ?m a" using IH that by simp
    ultimately show ?thesis by simp
  qed
  with IH j show ?case by simp
qed simp

text \<open>The ring that the handler writes, and what it leaves alone.\<close>

lemma write_ring_correct:
  assumes "0 < cnt" "sizeof_header \<le> sz" "seg_at entry sz cnt < 2 ^ 64"
  shows "ring_fresh (write_ring base entry cnt sz m) base entry cnt sz"
    and "a < base + entry \<or> base + seg_at entry sz cnt \<le> a \<Longrightarrow> write_ring base entry cnt sz m a = m a"
proof -
  let ?h = "segment_header entry cnt sz"
  have le: "i * sz + sz \<le> cnt * sz" if "i < cnt" for i
    using mult_le_mono1 [of "Suc i" cnt sz] that by simp
  have pos: "base + entry + mul64 i sz = base + seg_at entry sz i" if "i < cnt" for i
    using le [OF that] assms(3) by (simp add: mul64_small seg_at_def)
  have eq: "write_ring base entry cnt sz m =
      fold (\<lambda>i m. put_header m (base + seg_at entry sz i) (?h i)) [0..<cnt] m"
    unfolding write_ring_def by (intro fold_cong) (auto simp: pos)
  note F = fold_put_headers [of "[0..<cnt]" sz ?h base entry m, OF distinct_upt assms(2)]
  have ok: "i \<in> set [0..<cnt] \<Longrightarrow> header_ok (?h i)" for i
    using segment_header_ok(1) [of i cnt] assms(3) by simp
  have "get_header (write_ring base entry cnt sz m) (base + seg_at entry sz i) = ?h i" if "i < cnt" for i
    using F [OF ok] that by (simp add: eq)
  then show "ring_fresh (write_ring base entry cnt sz m) base entry cnt sz"
    using segment_header_ok(2,3) assms(3) by (simp add: ring_fresh_def ring_linked_def)
  show "write_ring base entry cnt sz m a = m a"
    if out: "a < base + entry \<or> base + seg_at entry sz cnt \<le> a"
  proof -
    have "a < base + seg_at entry sz i \<or> base + seg_at entry sz i + sizeof_header \<le> a" if "i < cnt" for i
      using le [OF that] out assms(2) by (auto simp: seg_at_def)
    then show ?thesis using F [OF ok] by (simp add: eq)
  qed
qed

section \<open>The handler on a reliable-connection server\<close>

text \<open>The bytes in front of the entry segment: the counter of a low-latency ring.\<close>

definition ring_front :: "AllocSegmentsRequest \<Rightarrow> nat" where
  "ring_front req = (if buffertype_of (asq_buffer_type req) = LAT then 8 else 0)"

definition ring_bytes :: "AllocSegmentsRequest \<Rightarrow> nat" where
  "ring_bytes req = ring_front req + asq_segments_count req * asq_segments_size req"

text \<open>A request whose size does not overflow and whose segments hold a header.\<close>

definition ring_request_ok :: "AllocSegmentsRequest \<Rightarrow> bool" where
  "ring_request_ok req \<longleftrightarrow> 0 < asq_segments_count req \<and> asq_segments_count req < 2 ^ 32 \<and>
     sizeof_header \<le> asq_segments_size req \<and> ring_bytes req < 2 ^ 64"

lemma ring_request_pos: "ring_request_ok req \<Longrightarrow> 0 < ring_bytes req"
  by (auto simp: ring_request_ok_def ring_bytes_def)

lemma node_allocSegments_rc:
  assumes "srv_manager s = ManagerRC m" "ring_request_ok req" "internalAlloc (ring_bytes req) m = (r, m')"
    "rm_offset r + ring_front req < 2 ^ 64"
  shows "node_allocSegments req s w =
    (DPIAllocSegmentsResponse \<lparr>asr_offset = rm_offset r + ring_front req,
       asr_return = error_code (if rm_isnull r then MEMORY_NOT_AVAILABLE else NO_ERROR)\<rparr>,
     s\<lparr>srv_manager := ManagerRC m'\<rparr>,
     w\<lparr>lmem := write_ring (buffer_base m) (rm_offset r + ring_front req) (asq_segments_count req)
         (asq_segments_size req)
         (if ring_front req = 8 then store64 (lmem w) (buffer_base m + rm_offset r) (asq_segments_count req)
          else lmem w)\<rparr>)"
proof -
  have base: "buffer_base m' = buffer_base m"
    using internalAlloc_res [of "ring_bytes req" m] assms(3) by (simp add: buffer_base_def)
  have mul: "mul64 (asq_segments_count req) (asq_segments_size req) = asq_segments_count req * asq_segments_size req"
    using assms(2) by (intro mul64_small) (simp add: ring_request_ok_def ring_bytes_def)
  have total: "(if buffertype_of (asq_buffer_type req) = LAT
       then add64 (mul64 (asq_segments_count req) (asq_segments_size req)) 8
       else mul64 (asq_segments_count req) (asq_segments_size req)) = ring_bytes req"
    using assms(2) by (auto simp: mul ring_request_ok_def ring_bytes_def ring_front_def add64_def)
  have req: "requestMemoryResource (ring_bytes req) s =
      (if \<not> rm_isnull r then NO_ERROR else MEMORY_NOT_AVAILABLE, rm_offset r, s\<lparr>srv_manager := ManagerRC m'\<rparr>)"
    using assms(1,3) by (simp add: requestMemoryResource_def mgr_remoteAlloc_def rc_remoteAlloc_def)
  have off: "(if buffertype_of (asq_buffer_type req) = LAT then add64 (rm_offset r) 8 else rm_offset r) =
      rm_offset r + ring_front req"
    using assms(4) by (auto simp: ring_front_def add64_def)
  show ?thesis
    unfolding node_allocSegments_def Let_def total req prod.case off
    by (auto simp: server_getBuffer_def mgr_buffer_def base ring_front_def)
qed

lemma node_alloc_success:
  assumes "srv_manager s = ManagerRC m" "ring_request_ok req" "internalAlloc (ring_bytes req) m = (r, m')"
    and "node_handle V cfg (DPIAllocSegmentsRequest req) s w = Inr (DPIAllocSegmentsResponse resp, s', w')"
    and "asr_return resp = 0"
  shows "\<not> rm_isnull r"
proof
  assume null: "rm_isnull r"
  then have "rm_offset r = 0"
    using assms(3) by (cases rule: internalAlloc_cases [of "ring_bytes req" m]) (auto simp: rdma_mem_null_def)
  then have "rm_offset r + ring_front req < 2 ^ 64" by (simp add: ring_front_def)
  from node_allocSegments_rc [OF assms(1-3) this, of w] null assms(4,5) show False
    by (auto simp: node_handle_def)
qed

lemma load64_write_ring:
  assumes "0 < cnt" "sizeof_header \<le> sz" "seg_at entry sz cnt < 2 ^ 64" "a + 8 \<le> base + entry"
  shows "load64 (write_ring base entry cnt sz m) a = load64 m a"
  unfolding load64_def
  using write_ring_correct(2) [OF assms(1-3)] assms(4) by (intro arg_cong [where f = le_nat] mem_read_cong) auto

text \<open>Where a successful request puts its ring, and that the ring is fresh.\<close>

lemma node_ring_fresh:
  assumes "srv_manager s = ManagerRC m" "mem_inv m" "ring_request_ok req"
    and "node_handle V cfg (DPIAllocSegmentsRequest req) s w = Inr (DPIAllocSegmentsResponse resp, s', w')"
    and "asr_return resp = 0"
  shows "seg_at (asr_offset resp) (asq_segments_size req) (asq_segments_count req) \<le> m_memSize m"
    "ring_fresh (lmem w') (buffer_base m) (asr_offset resp) (asq_segments_count req) (asq_segments_size req)"
    "ring_front req = 8 \<Longrightarrow> 8 \<le> asr_offset resp \<and>
       load64 (lmem w') (buffer_base m + asr_offset resp - 8) = asq_segments_count req"
proof -
  let ?cnt = "asq_segments_count req" and ?sz = "asq_segments_size req"
  obtain r m' where a: "internalAlloc (ring_bytes req) m = (r, m')" by force
  have req: "0 < ?cnt" "?cnt < 2 ^ 32" "sizeof_header \<le> ?sz" using assms(3) by (auto simp: ring_request_ok_def)
  have mem: "m_memSize m < 2 ^ 64" using assms(2) by (simp add: mem_inv_def)
  have r: "rm_offset r + ring_bytes req \<le> m_memSize m"
    using internalAlloc_bytes(5) [OF assms(2) ring_request_pos [OF assms(3)] a
        node_alloc_success [OF assms(1,3) a assms(4,5)]] .
  let ?e = "rm_offset r + ring_front req"
  have fit: "seg_at ?e ?sz ?cnt \<le> m_memSize m" using r by (simp add: seg_at_def ring_bytes_def)
  have small: "?e < 2 ^ 64" "seg_at ?e ?sz ?cnt < 2 ^ 64"
    using fit mem by (auto simp: seg_at_def)
  let ?m0 = "if ring_front req = 8 then store64 (lmem w) (buffer_base m + rm_offset r) ?cnt else lmem w"
  have out: "asr_offset resp = ?e" "lmem w' = write_ring (buffer_base m) ?e ?cnt ?sz ?m0"
    using assms(4) node_allocSegments_rc [OF assms(1,3) a small(1), of w]
    by (auto simp: node_handle_def)
  show "seg_at (asr_offset resp) ?sz ?cnt \<le> m_memSize m" using fit by (simp add: out(1))
  show "ring_fresh (lmem w') (buffer_base m) (asr_offset resp) ?cnt ?sz"
    unfolding out by (rule write_ring_correct(1) [OF req(1,3) small(2)])
  show "8 \<le> asr_offset resp \<and> load64 (lmem w') (buffer_base m + asr_offset resp - 8) = ?cnt" if "ring_front req = 8"
    using load64_write_ring [OF req(1,3) small(2)] that req(2) by (simp add: out u64_small)
qed

text \<open>Which bytes a successful request takes and changes, and what a refused one leaves.\<close>

lemma node_ring_bytes:
  assumes "srv_manager s = ManagerRC m" and "mem_inv m" and "ring_request_ok req"
    and "node_handle V cfg (DPIAllocSegmentsRequest req) s w = Inr (DPIAllocSegmentsResponse resp, s', w')"
    and "asr_return resp = 0"
  shows "\<exists>m' lo. srv_manager s' = ManagerRC m' \<and> mem_inv m' \<and> lo + ring_front req = asr_offset resp \<and>
    {lo..<lo + ring_bytes req} \<subseteq> free_bytes m \<and>
    used_bytes m' = used_bytes m \<union> {lo..<lo + ring_bytes req} \<and>
    (\<forall>a. a \<notin> {lo..<lo + ring_bytes req} \<longrightarrow> lmem w' (buffer_base m + a) = lmem w (buffer_base m + a)) \<and>
    (\<forall>a \<in> used_bytes m. lmem w' (buffer_base m + a) = lmem w (buffer_base m + a))"
proof -
  let ?cnt = "asq_segments_count req" and ?sz = "asq_segments_size req"
  obtain r m' where a: "internalAlloc (ring_bytes req) m = (r, m')" by force
  have req: "0 < ?cnt" "sizeof_header \<le> ?sz" using assms(3) by (auto simp: ring_request_ok_def)
  have nz: "\<not> rm_isnull r" by (rule node_alloc_success [OF assms(1,3) a assms(4,5)])
  note B = internalAlloc_bytes [OF assms(2) ring_request_pos [OF assms(3)] a nz]
  let ?lo = "rm_offset r"
  let ?e = "?lo + ring_front req"
  have reg: "rm_region r = {?lo..<?lo + ring_bytes req}" using B(1) by (simp add: rm_region_def)
  have "seg_at ?e ?sz ?cnt \<le> m_memSize m" using B(5) by (simp add: seg_at_def ring_bytes_def)
  then have small: "?e < 2 ^ 64" "seg_at ?e ?sz ?cnt < 2 ^ 64"
    using assms(2) by (auto simp: mem_inv_def seg_at_def)
  let ?m0 = "if ring_front req = 8 then store64 (lmem w) (buffer_base m + ?lo) ?cnt else lmem w"
  have out: "asr_offset resp = ?e" "s' = s\<lparr>srv_manager := ManagerRC m'\<rparr>"
    "lmem w' = write_ring (buffer_base m) ?e ?cnt ?sz ?m0"
    using assms(4) node_allocSegments_rc [OF assms(1,3) a small(1), of w] by (auto simp: node_handle_def)
  have frame: "lmem w' (buffer_base m + x) = lmem w (buffer_base m + x)" if x: "x \<notin> {?lo..<?lo + ring_bytes req}" for x
  proof -
    have "lmem w' (buffer_base m + x) = ?m0 (buffer_base m + x)"
      unfolding out(3) using x by (intro write_ring_correct(2) [OF req small(2)]) (auto simp: seg_at_def ring_bytes_def)
    also have "\<dots> = lmem w (buffer_base m + x)"
      using x by (auto simp: store64_def mem_write_outside ring_bytes_def)
    finally show ?thesis .
  qed
  have "x \<notin> {?lo..<?lo + ring_bytes req}" if "x \<in> used_bytes m" for x
    using that B(2) used_free_bytes [OF assms(2)] by (auto simp: reg)
  then show ?thesis
    using out(1,2) B(2,4) internalAlloc_inv [OF assms(2) ring_request_pos [OF assms(3)]] a frame
    by (intro exI [of _ m'] exI [of _ ?lo]) (auto simp: reg)
qed

lemma node_alloc_failed:
  assumes "srv_manager s = ManagerRC m" and "mem_inv m" and "ring_request_ok req"
    and "\<forall>x \<in> set (m_rdmaMem m). rm_size x < ring_bytes req"
  shows "\<exists>w'. node_handle V cfg (DPIAllocSegmentsRequest req) s w =
      Inr (DPIAllocSegmentsResponse \<lparr>asr_offset = ring_front req, asr_return = 100\<rparr>, s, w') \<and>
    ring_fresh (lmem w') (buffer_base m) (ring_front req) (asq_segments_count req) (asq_segments_size req)"
proof -
  obtain r m' where a: "internalAlloc (ring_bytes req) m = (r, m')" by force
  have "rm_isnull r" using internalAlloc_null_iff [OF assms(2), of "ring_bytes req"] assms(4) a by simp
  then have "internalAlloc (ring_bytes req) m = (rdma_mem_null, m)"
    using a by (cases rule: internalAlloc_cases [of "ring_bytes req" m]) auto
  with a have r: "r = rdma_mem_null" "m' = m" by simp_all
  have req: "0 < asq_segments_count req" "sizeof_header \<le> asq_segments_size req"
    "seg_at (ring_front req) (asq_segments_size req) (asq_segments_count req) < 2 ^ 64"
    using assms(3) by (auto simp: ring_request_ok_def ring_bytes_def seg_at_def)
  have off: "rm_offset r + ring_front req < 2 ^ 64" by (simp add: r rdma_mem_null_def ring_front_def)
  have same: "s\<lparr>srv_manager := ManagerRC m\<rparr> = s" using assms(1) by simp
  show ?thesis
    unfolding node_handle_def any_msg.case node_allocSegments_rc [OF assms(1,3) a off] unfolding r
    using write_ring_correct(1) [OF req] by (simp add: same rdma_mem_null_def)
qed

section \<open>Properties\<close>

text \<open>
  A successful allocation request leaves a ring in the node's buffer: the segments lie one
  behind the other from the offset in the response, following the links \<open>n\<close> times from the entry ends at
  segment \<open>n\<close> modulo the number of segments, every header is fresh (writeable, not consumable, not an end,
  no data), and a low-latency ring is preceded by the number of its segments.
\<close>

lemma node_ring_created:
  assumes "srv_manager s = ManagerRC m" and "mem_inv m" and "ring_request_ok req"
    and "node_handle V cfg (DPIAllocSegmentsRequest req) s w = Inr (DPIAllocSegmentsResponse resp, s', w')"
    and "asr_return resp = 0"
  shows "asr_offset resp + asq_segments_count req * asq_segments_size req \<le> m_memSize m \<and>
    (\<forall>i < asq_segments_count req.
       fresh_header (get_header (lmem w') (buffer_base m + seg_at (asr_offset resp) (asq_segments_size req) i))) \<and>
    (\<forall>n. follow (lmem w') (buffer_base m) (asr_offset resp) n =
       seg_at (asr_offset resp) (asq_segments_size req) (n mod asq_segments_count req)) \<and>
    (buffertype_of (asq_buffer_type req) = LAT \<longrightarrow> 8 \<le> asr_offset resp \<and>
       load64 (lmem w') (buffer_base m + asr_offset resp - 8) = asq_segments_count req)"
proof -
  have pos: "0 < asq_segments_count req" using assms(3) by (simp add: ring_request_ok_def)
  note F = node_ring_fresh [OF assms]
  show ?thesis
    using F(1,2) F(3) follow_linked [OF _ pos] by (auto simp: ring_fresh_def seg_at_def ring_front_def)
qed

text \<open>
  Claim C25. Whatever else the node's buffer holds stays as it is: on success the allocator's invariant
  is kept, the ring is made of bytes that were free, it is used afterwards, and no byte of a live region
  and no byte outside the new ring changes.
\<close>

theorem node_ring_isolated:
  assumes "srv_manager s = ManagerRC m" and "mem_inv m" and "ring_request_ok req"
    and "node_handle V cfg (DPIAllocSegmentsRequest req) s w = Inr (DPIAllocSegmentsResponse resp, s', w')"
    and "asr_return resp = 0"
  shows "\<exists>m' lo. srv_manager s' = ManagerRC m' \<and> mem_inv m' \<and> lo + ring_front req = asr_offset resp \<and>
    {lo..<lo + ring_bytes req} \<subseteq> free_bytes m \<and>
    used_bytes m' = used_bytes m \<union> {lo..<lo + ring_bytes req} \<and>
    (\<forall>a. a \<notin> {lo..<lo + ring_bytes req} \<longrightarrow> lmem w' (buffer_base m + a) = lmem w (buffer_base m + a)) \<and>
    (\<forall>a \<in> used_bytes m. lmem w' (buffer_base m + a) = lmem w (buffer_base m + a))"
  by (rule node_ring_bytes [OF assms])

text \<open>
  Claim C33. When no free region is large enough the response says so, with offset 0 (8 for a
  low-latency ring) and the allocator unchanged; nevertheless the handler writes the headers of the whole
  ring from there on, over whatever the first bytes of the buffer hold.
\<close>

theorem node_alloc_failure:
  assumes "srv_manager s = ManagerRC m" and "mem_inv m" and "ring_request_ok req"
    and "\<forall>x \<in> set (m_rdmaMem m). rm_size x < ring_bytes req"
  shows "\<exists>w'. node_handle V cfg (DPIAllocSegmentsRequest req) s w =
      Inr (DPIAllocSegmentsResponse \<lparr>asr_offset = ring_front req, asr_return = 100\<rparr>, s, w') \<and>
    ring_fresh (lmem w') (buffer_base m) (ring_front req) (asq_segments_count req) (asq_segments_size req)"
  by (rule node_alloc_failed [OF assms])

section \<open>A small server\<close>

definition small_server :: rdma_server where
  "small_server = \<lparr>srv_manager = ManagerRC small_manager, srv_countWR = 0, srv_addr = [],
     srv_addr2mgmtAddr = Map.empty, srv_mcastAddr = Map.empty\<rparr>"

definition blank_world :: "unit world" where
  "blank_world = \<lparr>lmem = (\<lambda>_. 0), dev = ()\<rparr>"

definition small_request :: "nat \<Rightarrow> Buffertype \<Rightarrow> AllocSegmentsRequest" where
  "small_request cnt t =
     \<lparr>asq_name = ''b'', asq_segments_count = cnt, asq_segments_size = 40, asq_buffer_type = buffertype_code t\<rparr>"

lemma small_base [simp]: "buffer_base small_manager = 4096"
  by (simp add: buffer_base_def small_manager_def rdma_manager_init_def)

lemma small_request_sel [simp]:
  "asq_segments_count (small_request n t) = n" "asq_segments_size (small_request n t) = 40"
  "buffertype_of (asq_buffer_type (small_request n t)) = t"
  by (simp_all add: small_request_def)

lemma small_request_ok [simp]:
  "ring_request_ok (small_request 2 LAT)" "ring_bytes (small_request 2 LAT) = 88"
  "ring_front (small_request 2 LAT) = 8"
  "ring_request_ok (small_request 3 BW)" "ring_bytes (small_request 3 BW) = 120"
  "ring_front (small_request 3 BW) = 0"
  by (simp_all add: ring_request_ok_def ring_bytes_def ring_front_def small_request_def)

lemma small_alloc:
  "internalAlloc 88 small_manager = (rdma_mem 88 False 0, snd (internalAlloc 88 small_manager))"
  by (simp add: internalAlloc_def)

lemma small_run:
  "\<exists>s' w'. node_handle V cfg (DPIAllocSegmentsRequest (small_request 2 LAT)) small_server blank_world =
     Inr (DPIAllocSegmentsResponse \<lparr>asr_offset = 8, asr_return = 0\<rparr>, s', w')"
proof -
  have m: "srv_manager small_server = ManagerRC small_manager" by (simp add: small_server_def)
  have a: "internalAlloc (ring_bytes (small_request 2 LAT)) small_manager =
      (rdma_mem 88 False 0, snd (internalAlloc 88 small_manager))"
    using small_alloc by simp
  have "rm_offset (rdma_mem 88 False 0) + ring_front (small_request 2 LAT) < 2 ^ 64" by simp
  from node_allocSegments_rc [OF m small_request_ok(1) a this, of blank_world] show ?thesis
    by (simp add: node_handle_def)
qed

lemma node_ring_created_instance:
  "\<forall>V :: unit verbs. \<exists>s' w'.
     node_handle V config_default (DPIAllocSegmentsRequest (small_request 2 LAT)) small_server blank_world =
       Inr (DPIAllocSegmentsResponse \<lparr>asr_offset = 8, asr_return = 0\<rparr>, s', w') \<and>
     follow (lmem w') 4096 8 3 = 48 \<and> load64 (lmem w') 4096 = 2"
proof
  fix V :: "unit verbs"
  obtain s' w' where run: "node_handle V config_default (DPIAllocSegmentsRequest (small_request 2 LAT))
      small_server blank_world = Inr (DPIAllocSegmentsResponse \<lparr>asr_offset = 8, asr_return = 0\<rparr>, s', w')"
    using small_run by blast
  have m: "srv_manager small_server = ManagerRC small_manager" by (simp add: small_server_def)
  have "(\<forall>n. follow (lmem w') 4096 8 n = seg_at 8 40 (n mod 2)) \<and> load64 (lmem w') 4096 = 2"
    using node_ring_created [OF m small_manager_inv small_request_ok(1) run]
    by simp
  then show "\<exists>s' w'. node_handle V config_default (DPIAllocSegmentsRequest (small_request 2 LAT)) small_server blank_world =
       Inr (DPIAllocSegmentsResponse \<lparr>asr_offset = 8, asr_return = 0\<rparr>, s', w') \<and>
     follow (lmem w') 4096 8 3 = 48 \<and> load64 (lmem w') 4096 = 2"
    using run by (intro exI conjI) (auto simp: seg_at_def simp del: follow.simps)
qed

theorem node_ring_isolated_witness:
  "\<forall>V :: unit verbs. \<exists>s' w'.
     node_handle V config_default (DPIAllocSegmentsRequest (small_request 2 LAT)) small_server blank_world =
       Inr (DPIAllocSegmentsResponse \<lparr>asr_offset = 8, asr_return = 0\<rparr>, s', w') \<and>
     lmem w' (4096 + 88) = 0"
proof
  fix V :: "unit verbs"
  obtain s' w' where run: "node_handle V config_default (DPIAllocSegmentsRequest (small_request 2 LAT))
      small_server blank_world = Inr (DPIAllocSegmentsResponse \<lparr>asr_offset = 8, asr_return = 0\<rparr>, s', w')"
    using small_run by blast
  have m: "srv_manager small_server = ManagerRC small_manager" by (simp add: small_server_def)
  obtain lo where "lo + 8 = (8 :: nat)"
    "\<forall>a. a \<notin> {lo..<lo + 88} \<longrightarrow> lmem w' (4096 + a) = lmem blank_world (4096 + a)"
    using node_ring_isolated [OF m small_manager_inv small_request_ok(1) run] by auto
  then have "lmem w' (4096 + 88) = lmem blank_world (4096 + 88)" by (metis add.commute add_right_imp_eq add_0 atLeastLessThan_iff less_irrefl)
  then show "\<exists>s' w'. node_handle V config_default (DPIAllocSegmentsRequest (small_request 2 LAT)) small_server blank_world =
       Inr (DPIAllocSegmentsResponse \<lparr>asr_offset = 8, asr_return = 0\<rparr>, s', w') \<and> lmem w' (4096 + 88) = 0"
    using run by (intro exI conjI) (auto simp: blank_world_def)
qed

theorem node_alloc_failure_witness:
  "\<forall>V :: unit verbs. \<exists>w'.
     node_handle V config_default (DPIAllocSegmentsRequest (small_request 3 BW)) small_server blank_world =
       Inr (DPIAllocSegmentsResponse \<lparr>asr_offset = 0, asr_return = 100\<rparr>, small_server, w') \<and>
     ring_fresh (lmem w') 4096 0 3 40"
proof
  fix V :: "unit verbs"
  have m: "srv_manager small_server = ManagerRC small_manager" by (simp add: small_server_def)
  show "\<exists>w'. node_handle V config_default (DPIAllocSegmentsRequest (small_request 3 BW)) small_server blank_world =
       Inr (DPIAllocSegmentsResponse \<lparr>asr_offset = 0, asr_return = 100\<rparr>, small_server, w') \<and>
     ring_fresh (lmem w') 4096 0 3 40"
    using node_alloc_failure [OF m small_manager_inv small_request_ok(4), of V config_default blank_world]
    by auto
qed

end
