(* ===== verification/Stream_Writer.thy ===== *)
theory Stream_Writer
  imports RC_Fabric Buffer_Writer Node_Server
begin

text \<open>
  \<open>BufferWriterBW\<close> on a reliable connection: appending puts the bytes of the stream, in order, into the
  payloads of consecutive segments of the writer's ring in the peer's memory, publishes every segment it
  fills and never touches local bytes a posted write still needs.
\<close>

section \<open>The stream in a ring\<close>

text \<open>
  The ring of \<open>cnt\<close> segments with \<open>S\<close> bytes of payload each whose first \<open>k\<close> segments are full and
  published, whose segment \<open>k\<close> holds \<open>u\<close> bytes under a header that is still fresh, and which holds the
  stream \<open>D\<close> so far. The remaining segments are fresh.
\<close>

definition full_header :: "nat \<Rightarrow> DPI_SEGMENT_HEADER_t \<Rightarrow> bool" where
  "full_header n hdr \<longleftrightarrow> counter hdr = n \<and> isConsumable hdr \<and> \<not> isWriteable hdr \<and> \<not> isEndSegment hdr"

definition last_header :: "nat \<Rightarrow> DPI_SEGMENT_HEADER_t \<Rightarrow> bool" where
  "last_header n hdr \<longleftrightarrow> counter hdr = n \<and> isConsumable hdr \<and> \<not> isWriteable hdr \<and> isEndSegment hdr"

definition payload :: "mem \<Rightarrow> nat \<Rightarrow> nat \<Rightarrow> nat \<Rightarrow> nat \<Rightarrow> nat \<Rightarrow> byte list" where
  "payload r rb e S j n = mem_read r (rb + seg_at e (S + 24) j + 24) n"

definition ring_data :: "mem \<Rightarrow> nat \<Rightarrow> nat \<Rightarrow> nat \<Rightarrow> nat \<Rightarrow> nat \<Rightarrow> nat \<Rightarrow> byte list \<Rightarrow> bool" where
  "ring_data r rb e cnt S k u D \<longleftrightarrow>
     ring_linked r rb e cnt (S + 24) \<and> k < cnt \<and> u \<le> S \<and>
     (\<forall>j < k. full_header S (get_header r (rb + seg_at e (S + 24) j))) \<and>
     concat (map (\<lambda>j. payload r rb e S j S) [0..<k]) @ payload r rb e S k u = D"

definition ring_open :: "mem \<Rightarrow> nat \<Rightarrow> nat \<Rightarrow> nat \<Rightarrow> nat \<Rightarrow> nat \<Rightarrow> nat \<Rightarrow> byte list \<Rightarrow> bool" where
  "ring_open r rb e cnt S k u D \<longleftrightarrow>
     ring_data r rb e cnt S k u D \<and>
     (\<forall>j. k \<le> j \<and> j < cnt \<longrightarrow> fresh_header (get_header r (rb + seg_at e (S + 24) j)))"

definition ring_closed :: "mem \<Rightarrow> nat \<Rightarrow> nat \<Rightarrow> nat \<Rightarrow> nat \<Rightarrow> nat \<Rightarrow> nat \<Rightarrow> byte list \<Rightarrow> bool" where
  "ring_closed r rb e cnt S k u D \<longleftrightarrow>
     ring_data r rb e cnt S k u D \<and> last_header u (get_header r (rb + seg_at e (S + 24) k))"

lemma length_payload [simp]: "length (payload r rb e S j n) = n"
  by (simp add: payload_def)

lemma ring_data_length: "ring_data r rb e cnt S k u D \<Longrightarrow> length D = k * S + u"
  by (auto simp: ring_data_def length_concat comp_def sum_list_triv)

text \<open>A fresh ring holds the empty stream.\<close>

lemma fresh_ring_open:
  "ring_fresh r rb e cnt (S + 24) \<Longrightarrow> 0 < cnt \<Longrightarrow> ring_open r rb e cnt S 0 0 []"
  by (simp add: ring_open_def ring_data_def ring_fresh_def payload_def)

lemma mem_read_write_grow: "mem_read (mem_write r (a + u) bs) a (u + length bs) = mem_read r a u @ bs"
  by (simp add: mem_read_append mem_read_write_disjoint)

text \<open>Where the segments lie.\<close>

lemma seg_at_mono: "i < j \<Longrightarrow> seg_at e sz i + sz \<le> seg_at e sz j"
  using mult_le_mono1 [of "Suc i" j sz] by (simp add: seg_at_def)

lemma payload_write_other:
  assumes "j \<noteq> k" "n \<le> S" "u + length bs \<le> S"
  shows "payload (mem_write r (rb + seg_at e (S + 24) k + 24 + u) bs) rb e S j n = payload r rb e S j n"
proof -
  have "seg_at e (S + 24) j + (S + 24) \<le> seg_at e (S + 24) k \<or> seg_at e (S + 24) k + (S + 24) \<le> seg_at e (S + 24) j"
    using assms(1) seg_at_mono by (meson linorder_neqE_nat)
  then show ?thesis
    unfolding payload_def using assms(2,3) by (intro mem_read_write_disjoint) linarith
qed

lemma header_write_payload:
  assumes "u + length bs \<le> S"
  shows "get_header (mem_write r (rb + seg_at e (S + 24) k + 24 + u) bs) (rb + seg_at e (S + 24) j) =
    get_header r (rb + seg_at e (S + 24) j)"
proof -
  consider "j = k" | "seg_at e (S + 24) j + (S + 24) \<le> seg_at e (S + 24) k"
    | "seg_at e (S + 24) k + (S + 24) \<le> seg_at e (S + 24) j"
    using seg_at_mono by (meson linorder_neqE_nat)
  then show ?thesis using assms by cases (auto intro!: get_header_write_disjoint)
qed

lemma header_put_other:
  assumes "j \<noteq> k"
  shows "get_header (put_header r (rb + seg_at e (S + 24) k) hdr) (rb + seg_at e (S + 24) j) =
    get_header r (rb + seg_at e (S + 24) j)"
  using assms seg_disjoint [OF assms, of 24 "S + 24" e] by (intro get_header_put_disjoint) linarith

lemma payload_put:
  assumes "n \<le> S"
  shows "payload (put_header r (rb + seg_at e (S + 24) k) hdr) rb e S j n = payload r rb e S j n"
proof -
  consider "j = k" | "seg_at e (S + 24) j + (S + 24) \<le> seg_at e (S + 24) k"
    | "seg_at e (S + 24) k + (S + 24) \<le> seg_at e (S + 24) j"
    using seg_at_mono by (meson linorder_neqE_nat)
  then show ?thesis unfolding payload_def using assms by cases (auto intro!: mem_read_put_disjoint)
qed

text \<open>Writing the next bytes of the stream behind the last ones extends the stream by them.\<close>

lemma ring_open_write:
  assumes "ring_open r rb e cnt S k u D" "u + length bs \<le> S"
  shows "ring_open (mem_write r (rb + seg_at e (S + 24) k + 24 + u) bs) rb e cnt S k (u + length bs) (D @ bs)"
proof -
  have grow: "payload (mem_write r (rb + seg_at e (S + 24) k + 24 + u) bs) rb e S k (u + length bs) =
      payload r rb e S k u @ bs"
    unfolding payload_def by (rule mem_read_write_grow)
  have same: "map (\<lambda>j. payload (mem_write r (rb + seg_at e (S + 24) k + 24 + u) bs) rb e S j S) [0..<k] =
      map (\<lambda>j. payload r rb e S j S) [0..<k]"
    using assms(2) by (intro map_cong) (auto intro!: payload_write_other)
  show ?thesis
    using assms by (auto simp: ring_open_def ring_data_def ring_linked_def header_write_payload grow same)
qed

text \<open>Publishing a full segment moves on to the next one.\<close>

lemma ring_open_publish:
  assumes "ring_open r rb e cnt S k S D" "Suc k < cnt" "header_ok hdr" "full_header S hdr"
    "nextSegmentOffset hdr = nextSegmentOffset (get_header r (rb + seg_at e (S + 24) k))"
  shows "ring_open (put_header r (rb + seg_at e (S + 24) k) hdr) rb e cnt S (Suc k) 0 D"
proof -
  let ?r = "put_header r (rb + seg_at e (S + 24) k) hdr"
  have at: "get_header ?r (rb + seg_at e (S + 24) j) = (if j = k then hdr else get_header r (rb + seg_at e (S + 24) j))" for j
    using assms(3) header_put_other [of j k] by simp
  have pay: "payload ?r rb e S j n = payload r rb e S j n" if "n \<le> S" for j n using that by (rule payload_put)
  show ?thesis
    using assms(1,2,4,5)
    by (auto simp: ring_open_def ring_data_def ring_linked_def at pay less_Suc_eq payload_def [of _ _ _ _ _ 0])
qed

lemma ring_open_close:
  assumes "ring_open r rb e cnt S k u D" "header_ok hdr" "last_header u hdr"
    "nextSegmentOffset hdr = nextSegmentOffset (get_header r (rb + seg_at e (S + 24) k))"
  shows "ring_closed (put_header r (rb + seg_at e (S + 24) k) hdr) rb e cnt S k u D"
proof -
  let ?r = "put_header r (rb + seg_at e (S + 24) k) hdr"
  have at: "get_header ?r (rb + seg_at e (S + 24) j) = (if j = k then hdr else get_header r (rb + seg_at e (S + 24) j))" for j
    using assms(2) header_put_other [of j k] by simp
  have pay: "payload ?r rb e S j n = payload r rb e S j n" if "n \<le> S" for j n using that by (rule payload_put)
  show ?thesis
    using assms(1,3,4) by (auto simp: ring_closed_def ring_open_def ring_data_def ring_linked_def at pay)
qed

section \<open>The writer on its connection\<close>

text \<open>
  The fixed surroundings of a writer or reader of a ring: its place in the peer's buffer (which starts at
  \<open>rb\<close>) and the address \<open>h\<close> of the header it keeps in registered memory.
\<close>

locale ring_link = rc_fabric V p cq lkey rkey lreg rreg slots up rmem due busy posted pend rank
  for V :: "('d, 'v) verbs_scheme" and p :: ibv_qp and cq lkey rkey :: nat and lreg rreg :: "nat set"
    and slots :: nat and up :: "'d world \<Rightarrow> bool" and rmem due :: "'d world \<Rightarrow> mem"
    and busy :: "'d world \<Rightarrow> nat set" and posted :: "'d world \<Rightarrow> nat" and pend :: "'d world \<Rightarrow> bool"
    and rank :: "'d world \<Rightarrow> nat" +
  fixes cfg :: "'c rdma_config_scheme" and rb e cnt S h :: nat
  assumes wr_limit: "cfg_RDMA_MAX_WR cfg \<le> slots"
    and ring_mem: "{rb + e..<rb + e + cnt * (S + 24)} \<subseteq> rreg"
    and ring_fits: "rb + e + cnt * (S + 24) < 2 ^ 64"
    and S_pos: "0 < S"
    and hdr_mem: "{h..<h + 24} \<subseteq> lreg"
begin

lemma seg_region:
  assumes "k < cnt" "x + n \<le> S + 24"
  shows "rb + (seg_at e (S + 24) k + x) < 2 ^ 64 \<or> n = 0 \<and> x = S + 24"
    "{rb + (seg_at e (S + 24) k + x)..<rb + (seg_at e (S + 24) k + x) + n} \<subseteq> rreg"
    "seg_at e (S + 24) k + x < 2 ^ 64"
proof -
  have "k * (S + 24) + (S + 24) \<le> cnt * (S + 24)"
    using mult_le_mono1 [of "Suc k" cnt "S + 24"] assms(1) by simp
  then have le: "rb + (seg_at e (S + 24) k + x) + n \<le> rb + e + cnt * (S + 24)" "rb + e \<le> rb + (seg_at e (S + 24) k + x)"
    using assms(2) by (simp_all add: seg_at_def)
  with ring_fits show "rb + (seg_at e (S + 24) k + x) < 2 ^ 64 \<or> n = 0 \<and> x = S + 24" "seg_at e (S + 24) k + x < 2 ^ 64"
    by linarith+
  have "{rb + (seg_at e (S + 24) k + x)..<rb + (seg_at e (S + 24) k + x) + n} \<subseteq> {rb + e..<rb + e + cnt * (S + 24)}"
    using le by auto
  with ring_mem show "{rb + (seg_at e (S + 24) k + x)..<rb + (seg_at e (S + 24) k + x) + n} \<subseteq> rreg" by blast
qed

lemma seg_fits: "k < cnt \<Longrightarrow> x \<le> S + 24 \<Longrightarrow> rb + (seg_at e (S + 24) k + x) < 2 ^ 64"
proof -
  assume k: "k < cnt" and x: "x \<le> S + 24"
  have "k * (S + 24) + (S + 24) \<le> cnt * (S + 24)"
    using mult_le_mono1 [of "Suc k" cnt "S + 24"] k by simp
  with ring_fits x show ?thesis unfolding seg_at_def by linarith
qed

end

text \<open>The writer also has its internal buffer of \<open>cap\<close> bytes at \<open>ptr\<close>.\<close>

locale ring_stream = ring_link V p cq lkey rkey lreg rreg slots up rmem due busy posted pend rank cfg rb e cnt S h
  for V :: "('d, 'v) verbs_scheme" and p :: ibv_qp and cq lkey rkey :: nat and lreg rreg :: "nat set"
    and slots :: nat and up :: "'d world \<Rightarrow> bool" and rmem due :: "'d world \<Rightarrow> mem"
    and busy :: "'d world \<Rightarrow> nat set" and posted :: "'d world \<Rightarrow> nat" and pend :: "'d world \<Rightarrow> bool"
    and rank :: "'d world \<Rightarrow> nat" and cfg :: "'c rdma_config_scheme" and rb e cnt S h :: nat +
  fixes ptr cap :: nat
  assumes buf_mem: "{ptr..<ptr + cap} \<subseteq> lreg"
    and cap_ok: "0 < cap" "cap < 2 ^ 32"
    and hdr_buf: "h + 24 \<le> ptr \<or> ptr + cap \<le> h"
begin

text \<open>
  Between two operations: connected, the internal buffer used up to \<open>off\<close>, and only that part of local
  memory still needed by posted writes.
\<close>

definition conn_ok :: "nat \<Rightarrow> writer_bw \<Rightarrow> 'd world \<Rightarrow> bool" where
  "conn_ok off s w \<longleftrightarrow>
     client_on (cfg_RDMA_MAX_WR cfg) (bh_node_id (bw_handle s)) p cq lkey rkey rb (bw_client s) \<and>
     ready (bw_client s) w \<and> bw_segmentHeader s = Some h \<and>
     bw_internalBuffer s = Some \<lparr>ib_bufferPtr = ptr, ib_size = cap, ib_offset = off\<rparr> \<and> off \<le> cap \<and>
     busy w \<subseteq> {ptr..<ptr + off}"

text \<open>Writing and reading the header of segment \<open>k\<close>.\<close>

lemma write_header_ok:
  assumes "conn_ok off s w" "k < cnt"
  shows "\<exists>c w'. bw_writeHeaderToRemote V cfg (seg_at e (S + 24) k) s w = Inr (True, s\<lparr>bw_client := c\<rparr>, w') \<and>
    conn_ok off (s\<lparr>bw_client := c\<rparr>) w' \<and> busy w' = {} \<and> lmem w' = lmem w \<and>
    rmem w' = put_header (rmem w) (rb + seg_at e (S + 24) k) (get_header (lmem w) h)"
proof -
  have c: "client_on (cfg_RDMA_MAX_WR cfg) (bh_node_id (bw_handle s)) p cq lkey rkey rb (bw_client s)"
    "ready (bw_client s) w" "bw_segmentHeader s = Some h"
    using assms(1) by (auto simp: conn_ok_def)
  obtain n w' where w': "writeRC V cfg (bh_node_id (bw_handle s)) (seg_at e (S + 24) k) h 24 True (bw_client s) w =
      Inr (True, (bw_client s)\<lparr>cl_countWR := n\<rparr>, w')" "n < cfg_RDMA_MAX_WR cfg"
    "ready ((bw_client s)\<lparr>cl_countWR := n\<rparr>) w'" "lmem w' = lmem w"
    "rmem w' = mem_write (rmem w) (rb + seg_at e (S + 24) k) (mem_read (lmem w) h 24)" "busy w' = {}"
    using writeRC_ok [OF c(1,2) wr_limit, of 24 "seg_at e (S + 24) k" h True]
      seg_region(2) [OF assms(2), of 0 24] seg_fits [OF assms(2), of 0] hdr_mem by auto
  then show ?thesis
    using assms(1) c(3)
    by (intro exI [of _ "(bw_client s)\<lparr>cl_countWR := n\<rparr>"] exI [of _ w'])
      (auto simp: bw_writeHeaderToRemote_def conn_ok_def client_on_def put_header_def header_bytes_get)
qed

lemma read_header_ok:
  assumes "conn_ok off s w" "k < cnt"
  shows "\<exists>c w'. bw_readHeaderFromRemote V cfg (seg_at e (S + 24) k) s w = Inr (True, s\<lparr>bw_client := c\<rparr>, w') \<and>
    conn_ok off (s\<lparr>bw_client := c\<rparr>) w' \<and> busy w' = {} \<and> rmem w' = rmem w \<and>
    lmem w' = put_header (lmem w) h (get_header (rmem w) (rb + seg_at e (S + 24) k))"
proof -
  have c: "client_on (cfg_RDMA_MAX_WR cfg) (bh_node_id (bw_handle s)) p cq lkey rkey rb (bw_client s)"
    "ready (bw_client s) w" "bw_segmentHeader s = Some h"
    using assms(1) by (auto simp: conn_ok_def)
  obtain n w' where w': "client_read V cfg (bh_node_id (bw_handle s)) (seg_at e (S + 24) k) h 24 True (bw_client s) w =
      Inr (True, (bw_client s)\<lparr>cl_countWR := n\<rparr>, w')" "n < cfg_RDMA_MAX_WR cfg"
    "ready ((bw_client s)\<lparr>cl_countWR := n\<rparr>) w'" "rmem w' = rmem w"
    "lmem w' = mem_write (lmem w) h (mem_read (rmem w) (rb + seg_at e (S + 24) k) 24)" "busy w' = {}"
    using client_read_ok [OF c(1,2) wr_limit, of 24 "seg_at e (S + 24) k" h]
      seg_region(2) [OF assms(2), of 0 24] seg_fits [OF assms(2), of 0] hdr_mem by auto
  then show ?thesis
    using assms(1) c(3)
    by (intro exI [of _ "(bw_client s)\<lparr>cl_countWR := n\<rparr>"] exI [of _ w'])
      (auto simp: bw_readHeaderFromRemote_def conn_ok_def client_on_def put_header_def header_bytes_get)
qed

text \<open>A store into local memory that no posted write needs.\<close>

lemma conn_ok_store:
  assumes "conn_ok off s w" "\<forall>a \<in> busy w. m a = lmem w a"
  shows "conn_ok off s (w\<lparr>lmem := m\<rparr>)" "rmem (w\<lparr>lmem := m\<rparr>) = rmem w" "busy (w\<lparr>lmem := m\<rparr>) = busy w"
proof -
  have "up w" "\<not> pend w" using assms(1) by (auto simp: conn_ok_def ready_def)
  from store [OF this assms(2)] assms(1)
  show "conn_ok off s (w\<lparr>lmem := m\<rparr>)" "rmem (w\<lparr>lmem := m\<rparr>) = rmem w" "busy (w\<lparr>lmem := m\<rparr>) = busy w"
    by (auto simp: conn_ok_def ready_def)
qed

text \<open>Copying data into the internal buffer and sending it from there.\<close>

lemma copy_send_ok:
  assumes "conn_ok off s w" "busy w \<subseteq> {ptr..<ptr + i}" "i + n \<le> cap" "k < cnt" "u + n \<le> S"
    and "{d..<d + n} \<inter> lreg = {}"
  shows "\<exists>c w'. writeRC V cfg (bh_node_id (bw_handle s)) (add64 (add64 (seg_at e (S + 24) k) u) 24) (ptr + i) n
      False (bw_client s) (w\<lparr>lmem := memcpy (ptr + i) d n (lmem w)\<rparr>) = Inr (True, c, w') \<and>
    conn_ok (i + n) (s\<lparr>bw_internalBuffer := Some \<lparr>ib_bufferPtr = ptr, ib_size = cap, ib_offset = i + n\<rparr>, bw_client := c\<rparr>) w' \<and>
    rmem w' = mem_write (rmem w) (rb + seg_at e (S + 24) k + 24 + u) (mem_read (lmem w) d n) \<and>
    get_header (lmem w') h = get_header (lmem w) h \<and> (\<forall>a. a \<notin> lreg \<longrightarrow> lmem w' a = lmem w a)"
proof -
  let ?m = "memcpy (ptr + i) d n (lmem w)"
  let ?w = "w\<lparr>lmem := ?m\<rparr>"
  let ?off = "seg_at e (S + 24) k + (u + 24)"
  have "\<forall>a \<in> busy w. ?m a = lmem w a" using assms(2) by (auto simp: memcpy_def mem_write_outside)
  note st = conn_ok_store [OF assms(1) this]
  have c: "client_on (cfg_RDMA_MAX_WR cfg) (bh_node_id (bw_handle s)) p cq lkey rkey rb (bw_client s)"
    "ready (bw_client s) ?w" using st(1) by (auto simp: conn_ok_def)
  have off: "add64 (add64 (seg_at e (S + 24) k) u) 24 = ?off"
    using seg_fits [OF assms(4), of "u + 24"] assms(5) by (simp add: add64_small)
  have sub: "{ptr + i..<ptr + i + n} \<subseteq> {ptr..<ptr + cap}" using assms(3) by auto
  obtain q w' where w': "writeRC V cfg (bh_node_id (bw_handle s)) ?off (ptr + i) n False (bw_client s) ?w =
      Inr (True, (bw_client s)\<lparr>cl_countWR := q\<rparr>, w')" "q < cfg_RDMA_MAX_WR cfg"
    "ready ((bw_client s)\<lparr>cl_countWR := q\<rparr>) w'" "lmem w' = lmem ?w"
    "rmem w' = mem_write (rmem ?w) (rb + ?off) (mem_read (lmem ?w) (ptr + i) n)"
    "busy w' \<subseteq> busy ?w \<union> {ptr + i..<ptr + i + n}"
    using writeRC_ok [OF c wr_limit, of n ?off "ptr + i" False]
      seg_region(2) [OF assms(4), of "u + 24" n] seg_fits [OF assms(4), of "u + 24"]
      assms(3,5) cap_ok(2) sub buf_mem by fastforce
  have read: "mem_read ?m (ptr + i) n = mem_read (lmem w) d n" by (simp add: memcpy_def)
  have hdr: "get_header ?m h = get_header (lmem w) h"
    unfolding memcpy_def using hdr_buf assms(3) by (intro get_header_write_disjoint) auto
  have frame: "?m a = lmem w a" if "a \<notin> lreg" for a
  proof -
    have "a \<notin> {ptr + i..<ptr + i + n}" using that sub buf_mem by blast
    then show ?thesis unfolding memcpy_def by (intro mem_write_outside) auto
  qed
  have "busy w' \<subseteq> {ptr..<ptr + i} \<union> {ptr + i..<ptr + i + n}" using w'(6) st(3) assms(2) by blast
  also have "\<dots> \<subseteq> {ptr..<ptr + (i + n)}" by auto
  finally have bw': "busy w' \<subseteq> {ptr..<ptr + (i + n)}" .
  have "conn_ok (i + n) (s\<lparr>bw_internalBuffer := Some \<lparr>ib_bufferPtr = ptr, ib_size = cap, ib_offset = i + n\<rparr>,
      bw_client := (bw_client s)\<lparr>cl_countWR := q\<rparr>\<rparr>) w'"
    using st(1) w'(2,3) bw' assms(3) by (simp add: conn_ok_def client_on_def)
  moreover have "rmem w' = mem_write (rmem w) (rb + seg_at e (S + 24) k + 24 + u) (mem_read (lmem w) d n)"
    using w'(5) read st(2) by (simp add: ac_simps)
  ultimately show ?thesis using w'(1,4) hdr frame by (auto simp: off)
qed

text \<open>\<open>writeToSegment\<close>, with and without the flush of the internal buffer.\<close>

lemma write_segment_ok:
  assumes "conn_ok off s w" "k < cnt" "u + n \<le> S" "n \<le> cap" "{d..<d + n} \<inter> lreg = {}"
    and "get_header (lmem w) h = get_header (rmem w) (rb + seg_at e (S + 24) k)"
    and "seg_offset seg = seg_at e (S + 24) k"
  shows "\<exists>c i w'. bw_writeToSegment V cfg seg u n d s w =
      Inr (True, s\<lparr>bw_internalBuffer := Some \<lparr>ib_bufferPtr = ptr, ib_size = cap, ib_offset = i\<rparr>, bw_client := c\<rparr>, w') \<and>
    conn_ok i (s\<lparr>bw_internalBuffer := Some \<lparr>ib_bufferPtr = ptr, ib_size = cap, ib_offset = i\<rparr>, bw_client := c\<rparr>) w' \<and>
    rmem w' = mem_write (rmem w) (rb + seg_at e (S + 24) k + 24 + u) (mem_read (lmem w) d n) \<and>
    get_header (lmem w') h = get_header (lmem w) h \<and> (\<forall>a. a \<notin> lreg \<longrightarrow> lmem w' a = lmem w a)"
proof -
  have ib: "bw_internalBuffer s = Some \<lparr>ib_bufferPtr = ptr, ib_size = cap, ib_offset = off\<rparr>" "off \<le> cap"
    "busy w \<subseteq> {ptr..<ptr + off}" using assms(1) by (auto simp: conn_ok_def)
  have sum: "add64 n off = n + off" using assms(4) ib(2) cap_ok(2) by (intro add64_small) simp
  show ?thesis
  proof (cases "n + off \<le> cap")
    case True
    then have "off + n \<le> cap" by simp
    note C = copy_send_ok [OF assms(1) ib(3) this assms(2,3,5)]
    have "add64 off n = off + n" using sum by (simp add: add64_def ac_simps)
    then show ?thesis
      using C True ib(1) by (fastforce simp: bw_writeToSegment_def sum assms(7))
  next
    case False
    obtain c w1 where w1: "bw_writeHeaderToRemote V cfg (seg_at e (S + 24) k) s w = Inr (True, s\<lparr>bw_client := c\<rparr>, w1)"
      "conn_ok off (s\<lparr>bw_client := c\<rparr>) w1" "busy w1 = {}" "lmem w1 = lmem w"
      "rmem w1 = put_header (rmem w) (rb + seg_at e (S + 24) k) (get_header (lmem w) h)"
      using write_header_ok [OF assms(1,2)] by blast
    have same: "rmem w1 = rmem w" using w1(5) assms(6) by simp
    have "busy w1 \<subseteq> {ptr..<ptr + 0}" "0 + n \<le> cap" using w1(3) assms(4) by simp_all
    note C = copy_send_ok [OF w1(2) this assms(2,3,5)]
    have "add64 0 n = n" using assms(4) cap_ok(2) by (simp add: add64_small)
    then show ?thesis
      using C False ib(1) w1(1,4) same by (fastforce simp: bw_writeToSegment_def sum assms(7))
  qed
qed

text \<open>Stores into the local header leave everything outside registered memory alone.\<close>

lemma put_header_frame: "a \<notin> lreg \<Longrightarrow> put_header m h hdr a = m a"
proof -
  assume "a \<notin> lreg"
  then have "a \<notin> {h..<h + 24}" using hdr_mem by blast
  then show ?thesis by (intro put_header_outside) auto
qed

lemma conn_ok_put_header:
  assumes "conn_ok off s w"
  shows "conn_ok off s (w\<lparr>lmem := put_header (lmem w) h hdr\<rparr>)" "rmem (w\<lparr>lmem := put_header (lmem w) h hdr\<rparr>) = rmem w"
proof -
  have "busy w \<subseteq> {ptr..<ptr + off}" "off \<le> cap" using assms by (auto simp: conn_ok_def)
  then have "\<forall>a \<in> busy w. put_header (lmem w) h hdr a = lmem w a"
    using hdr_buf by (auto intro!: put_header_outside)
  from conn_ok_store [OF assms this]
  show "conn_ok off s (w\<lparr>lmem := put_header (lmem w) h hdr\<rparr>)" "rmem (w\<lparr>lmem := put_header (lmem w) h hdr\<rparr>) = rmem w"
    by simp_all
qed

lemma get_next_ok:
  assumes "conn_ok off s w" "Suc k < cnt" "bw_localBufferSegment s = Some seg" "seg_offset seg = seg_at e (S + 24) k"
    and "bw_sizeUsed s = S" "ring_open (rmem w) rb e cnt S k S D"
    and "get_header (lmem w) h = get_header (rmem w) (rb + seg_at e (S + 24) k)"
  shows "\<exists>s' w'. bw_getNextSegment V cfg s w = Inr (s', w') \<and> conn_ok off s' w' \<and>
    ring_open (rmem w') rb e cnt S (Suc k) 0 D \<and>
    get_header (lmem w') h = get_header (rmem w') (rb + seg_at e (S + 24) (Suc k)) \<and>
    bw_localBufferSegment s' = Some (seg\<lparr>seg_offset := seg_at e (S + 24) (Suc k)\<rparr>) \<and>
    (\<forall>a. a \<notin> lreg \<longrightarrow> lmem w' a = lmem w a)"
proof -
  let ?hd = "get_header (lmem w) h"
  let ?pub = "(setWriteable False (setConsumable True ?hd))\<lparr>counter := S\<rparr>"
  let ?w = "w\<lparr>lmem := put_header (lmem w) h ?pub\<rparr>"
  have k: "k < cnt" using assms(2) by simp
  have S: "S < 2 ^ 64" using seg_fits [OF k, of S] by simp
  have nxt: "nextSegmentOffset ?hd = seg_at e (S + 24) (Suc k)"
    using assms(2,6,7) k by (simp add: ring_open_def ring_data_def ring_linked_def)
  have fresh: "fresh_header ?hd" using assms(6,7) k by (simp add: ring_open_def)
  have ok: "header_ok ?pub" using S header_ok_get [of "lmem w" h] by (simp add: header_ok_def)
  have pub: "full_header S ?pub" using fresh by (simp add: full_header_def fresh_header_def)
  note st = conn_ok_put_header [OF assms(1), of ?pub]
  obtain c1 w1 where w1: "bw_writeHeaderToRemote V cfg (seg_at e (S + 24) k) s ?w = Inr (True, s\<lparr>bw_client := c1\<rparr>, w1)"
    "conn_ok off (s\<lparr>bw_client := c1\<rparr>) w1" "lmem w1 = lmem ?w"
    "rmem w1 = put_header (rmem ?w) (rb + seg_at e (S + 24) k) (get_header (lmem ?w) h)"
    using write_header_ok [OF st(1) k] by blast
  have r1: "rmem w1 = put_header (rmem w) (rb + seg_at e (S + 24) k) ?pub" using w1(4) st(2) ok by simp
  have open1: "ring_open (rmem w1) rb e cnt S (Suc k) 0 D"
    unfolding r1 using assms(7) by (intro ring_open_publish [OF assms(6,2) ok pub]) simp
  obtain c2 w2 where w2: "bw_readHeaderFromRemote V cfg (seg_at e (S + 24) (Suc k)) (s\<lparr>bw_client := c1\<rparr>) w1 =
      Inr (True, s\<lparr>bw_client := c2\<rparr>, w2)" "conn_ok off (s\<lparr>bw_client := c2\<rparr>) w2" "rmem w2 = rmem w1"
    "lmem w2 = put_header (lmem w1) h (get_header (rmem w1) (rb + seg_at e (S + 24) (Suc k)))"
    using read_header_ok [OF w1(2) assms(2)] by auto
  have hdr2: "get_header (lmem w2) h = get_header (rmem w2) (rb + seg_at e (S + 24) (Suc k))" using w2(3,4) by simp
  have "isWriteable (get_header (lmem w2) h)"
    using open1 assms(2) hdr2 w2(3) by (simp add: ring_open_def fresh_header_def)
  then have run: "bw_getNextSegment V cfg s w = Inr (s\<lparr>bw_client := c2,
      bw_localBufferSegment := Some (seg\<lparr>seg_offset := seg_at e (S + 24) (Suc k)\<rparr>),
      bw_handle := (bw_handle s)\<lparr>bh_entrySegments := (bh_entrySegments (bw_handle s))[0 := seg\<lparr>seg_offset := seg_at e (S + 24) (Suc k)\<rparr>]\<rparr>\<rparr>, w2)"
    using assms(1,3,4,5) w1(1) w2(1) nxt
    by (simp add: bw_getNextSegment_def bw_header_def conn_ok_def Let_def loopR_unfold)
  have "lmem w2 a = lmem w a" if "a \<notin> lreg" for a
    using that w2(4) w1(3) by (simp add: put_header_frame)
  then show ?thesis
    using run w2(2,3) open1 hdr2 by (auto simp: conn_ok_def)
qed

text \<open>\<open>close\<close> publishes the current segment as the last one.\<close>

lemma close_ok:
  assumes "conn_ok off s w" "bw_localBufferSegment s = Some seg" "seg_offset seg = seg_at e (S + 24) k"
    and "ring_open (rmem w) rb e cnt S k (bw_sizeUsed s) D"
    and "get_header (lmem w) h = get_header (rmem w) (rb + seg_at e (S + 24) k)"
  shows "\<exists>s' w'. bw_close V cfg s w = Inr (True, s', w') \<and> ring_closed (rmem w') rb e cnt S k (bw_sizeUsed s) D \<and>
    busy w' = {} \<and> conn_ok off s' w'"
proof -
  let ?hd = "get_header (lmem w) h"
  let ?u = "bw_sizeUsed s"
  let ?pub = "markEndSegment True (setConsumable True (setWriteable False (?hd\<lparr>counter := ?u\<rparr>)))"
  have k: "k < cnt" "?u \<le> S" using assms(4) by (auto simp: ring_open_def ring_data_def)
  have "?u < 2 ^ 64" using seg_fits [OF k(1), of ?u] k(2) by simp
  then have ok: "header_ok ?pub" using header_ok_get [of "lmem w" h] by (simp add: header_ok_def)
  have pub: "last_header ?u ?pub" by (simp add: last_header_def)
  note st = conn_ok_put_header [OF assms(1), of ?pub]
  let ?w = "w\<lparr>lmem := put_header (lmem w) h ?pub\<rparr>"
  obtain c w1 where w1: "bw_writeHeaderToRemote V cfg (seg_at e (S + 24) k) s ?w = Inr (True, s\<lparr>bw_client := c\<rparr>, w1)"
    "conn_ok off (s\<lparr>bw_client := c\<rparr>) w1" "busy w1 = {}"
    "rmem w1 = put_header (rmem ?w) (rb + seg_at e (S + 24) k) (get_header (lmem ?w) h)"
    using write_header_ok [OF st(1) k(1)] by blast
  have "rmem w1 = put_header (rmem w) (rb + seg_at e (S + 24) k) ?pub" using w1(4) st(2) ok by simp
  then have "ring_closed (rmem w1) rb e cnt S k ?u D"
    using ring_open_close [OF assms(4) ok pub] assms(5) by simp
  moreover have "bw_close V cfg s w = Inr (True, s\<lparr>bw_client := c\<rparr>, w1)"
    using assms(1-3) w1(1) by (simp add: bw_close_def bw_header_def conn_ok_def Let_def)
  ultimately show ?thesis using w1(2,3) by blast
qed

section \<open>Appending\<close>

text \<open>The writer stands in segment \<open>k\<close> of a ring that holds the stream \<open>D\<close>; its header is the remote one.\<close>

definition streams_at :: "nat \<Rightarrow> byte list \<Rightarrow> writer_bw \<Rightarrow> 'd world \<Rightarrow> bool" where
  "streams_at k D s w \<longleftrightarrow> (\<exists>off. conn_ok off s w) \<and>
     bw_localBufferSegment s = Some \<lparr>seg_offset = seg_at e (S + 24) k, seg_size = S\<rparr> \<and>
     ring_open (rmem w) rb e cnt S k (bw_sizeUsed s) D \<and>
     get_header (lmem w) h = get_header (rmem w) (rb + seg_at e (S + 24) k)"

definition streams :: "byte list \<Rightarrow> writer_bw \<Rightarrow> 'd world \<Rightarrow> bool" where
  "streams D s w \<longleftrightarrow> (\<exists>k. streams_at k D s w)"

definition same_outside :: "'d world \<Rightarrow> 'd world \<Rightarrow> bool" where
  "same_outside w w' \<longleftrightarrow> (\<forall>a. a \<notin> lreg \<longrightarrow> lmem w' a = lmem w a)"

lemma streams_atD:
  assumes "streams_at k D s w"
  shows "k < cnt" "bw_sizeUsed s \<le> S" "length D = k * S + bw_sizeUsed s" "S < 2 ^ 64"
proof -
  show k: "k < cnt" and "bw_sizeUsed s \<le> S" using assms by (auto simp: streams_at_def ring_open_def ring_data_def)
  show "length D = k * S + bw_sizeUsed s"
    using assms ring_data_length by (auto simp: streams_at_def ring_open_def)
  show "S < 2 ^ 64" using seg_fits [OF k, of S] by simp
qed

lemma mem_read_outside:
  assumes "same_outside w w'" "{d..<d + n} \<inter> lreg = {}" "{a..<a + m} \<subseteq> {d..<d + n}"
  shows "mem_read (lmem w') a m = mem_read (lmem w) a m"
proof (rule mem_read_cong)
  fix i assume "a \<le> i" "i < a + m"
  then have "i \<in> {a..<a + m}" by simp
  with assms(2,3) have "i \<notin> lreg" by blast
  with assms(1) show "lmem w' i = lmem w i" by (simp add: same_outside_def)
qed

lemma source_part: "{d..<d + n} \<inter> lreg = {} \<Longrightarrow> c + f \<le> n \<Longrightarrow> {d + c..<d + c + f} \<inter> lreg = {}"
proof -
  assume src: "{d..<d + n} \<inter> lreg = {}" and "c + f \<le> n"
  then have "{d + c..<d + c + f} \<subseteq> {d..<d + n}" by auto
  with src show ?thesis by blast
qed

text \<open>The source data can be read piece by piece while appending goes on.\<close>

lemma read_cut:
  assumes "same_outside w w'" "{d..<d + n} \<inter> lreg = {}" "c + f \<le> n"
  shows "take c (mem_read (lmem w) d n) @ mem_read (lmem w') (d + c) f = take (c + f) (mem_read (lmem w) d n)"
proof -
  have "mem_read (lmem w') (d + c) f = mem_read (lmem w) (d + c) f"
    using assms(3) by (intro mem_read_outside [OF assms(1,2)]) auto
  moreover have "mem_read (lmem w) d n =
      mem_read (lmem w) d c @ mem_read (lmem w) (d + c) f @ mem_read (lmem w) (d + c + f) (n - (c + f))"
    using assms(3) mem_read_append [of "lmem w" d c "f + (n - (c + f))"]
      mem_read_append [of "lmem w" "d + c" f "n - (c + f)"] by simp
  ultimately show ?thesis by simp
qed

text \<open>One write into the current segment.\<close>

lemma append_part_ok:
  assumes "streams_at k D s w" "bw_localBufferSegment s = Some seg" "bw_sizeUsed s + n \<le> S" "n \<le> cap"
    and "{d..<d + n} \<inter> lreg = {}"
  shows "\<exists>s' w'. bw_writeToSegment V cfg seg (bw_sizeUsed s) n d s w = Inr (True, s', w') \<and>
    bw_sizeUsed s' = bw_sizeUsed s \<and> (\<forall>u. u = bw_sizeUsed s + n \<longrightarrow>
      streams_at k (D @ mem_read (lmem w) d n) (s'\<lparr>bw_sizeUsed := u\<rparr>) w') \<and> same_outside w w'"
proof -
  obtain off where off: "conn_ok off s w" using assms(1) by (auto simp: streams_at_def)
  have seg: "seg = \<lparr>seg_offset = seg_at e (S + 24) k, seg_size = S\<rparr>"
    and hdr: "get_header (lmem w) h = get_header (rmem w) (rb + seg_at e (S + 24) k)"
    and opn: "ring_open (rmem w) rb e cnt S k (bw_sizeUsed s) D"
    using assms(1,2) by (auto simp: streams_at_def)
  have "seg_offset seg = seg_at e (S + 24) k" by (simp add: seg)
  from write_segment_ok [OF off streams_atD(1) [OF assms(1)] assms(3-5) hdr this]
  obtain c i w' where run: "bw_writeToSegment V cfg seg (bw_sizeUsed s) n d s w =
      Inr (True, s\<lparr>bw_internalBuffer := Some \<lparr>ib_bufferPtr = ptr, ib_size = cap, ib_offset = i\<rparr>, bw_client := c\<rparr>, w')"
    and ok: "conn_ok i (s\<lparr>bw_internalBuffer := Some \<lparr>ib_bufferPtr = ptr, ib_size = cap, ib_offset = i\<rparr>, bw_client := c\<rparr>) w'"
    and r: "rmem w' = mem_write (rmem w) (rb + seg_at e (S + 24) k + 24 + bw_sizeUsed s) (mem_read (lmem w) d n)"
    and l: "get_header (lmem w') h = get_header (lmem w) h" "\<forall>a. a \<notin> lreg \<longrightarrow> lmem w' a = lmem w a"
    by blast
  have opn': "ring_open (rmem w') rb e cnt S k (bw_sizeUsed s + n) (D @ mem_read (lmem w) d n)"
    using ring_open_write [OF opn, of "mem_read (lmem w) d n"] assms(3) by (simp add: r)
  have "get_header (rmem w') (rb + seg_at e (S + 24) k) = get_header (rmem w) (rb + seg_at e (S + 24) k)"
    using header_write_payload [of "bw_sizeUsed s" "mem_read (lmem w) d n" S "rmem w" rb e k k] assms(3) by (simp add: r)
  with opn' ok hdr l assms(2) seg run show ?thesis
    by (intro exI [of _ "s\<lparr>bw_internalBuffer := Some \<lparr>ib_bufferPtr = ptr, ib_size = cap, ib_offset = i\<rparr>, bw_client := c\<rparr>"]
        exI [of _ w']) (auto simp: streams_at_def conn_ok_def same_outside_def)
qed

text \<open>Filling up the current segment and moving to the next.\<close>

lemma split_step_ok:
  assumes "streams D s w" "S < bw_sizeUsed s + n" "length D + n \<le> cnt * S" "n \<le> cap" "{d..<d + n} \<inter> lreg = {}"
  shows "\<exists>f s' w'. bw_split_step V cfg d n s w = Inr (True, d + f, n - f, s', w') \<and> f = S - bw_sizeUsed s \<and> f \<le> n \<and>
    streams (D @ mem_read (lmem w) d f) s' w' \<and> bw_sizeUsed s' = 0 \<and> same_outside w w'"
proof -
  obtain k where k: "streams_at k D s w" using assms(1) by (auto simp: streams_def)
  note K = streams_atD [OF k]
  define f where "f = S - bw_sizeUsed s"
  have f: "f \<le> n" "bw_sizeUsed s + f = S" using assms(2) K(2) by (auto simp: f_def)
  have more: "Suc k < cnt"
  proof -
    have "Suc k * S < cnt * S" using assms(2,3) K(3) by simp
    then show ?thesis by (simp only: mult_less_cancel2)
  qed
  let ?seg = "\<lparr>seg_offset = seg_at e (S + 24) k, seg_size = S\<rparr>"
  have seg: "bw_localBufferSegment s = Some ?seg" using k by (simp add: streams_at_def)
  have sub: "sub64 (seg_size ?seg) (bw_sizeUsed s) = f" using K(2,4) by (simp add: sub64_small f_def)
  have src: "{d..<d + f} \<inter> lreg = {}" using source_part [OF assms(5), of 0 f] f(1) by simp
  obtain s1 w1 where w1: "(if 0 < f then bw_writeToSegment V cfg ?seg (bw_sizeUsed s) f d s w else Inr (True, s, w)) =
      Inr (True, s1, w1)" "bw_sizeUsed s1 = bw_sizeUsed s"
    "streams_at k (D @ mem_read (lmem w) d f) (s1\<lparr>bw_sizeUsed := S\<rparr>) w1" "same_outside w w1"
  proof (cases "0 < f")
    case True
    from append_part_ok [OF k seg _ _ src] f assms(4) True that show ?thesis by fastforce
  next
    case False
    moreover have "s\<lparr>bw_sizeUsed := S\<rparr> = s" using False f(2) by (cases s) simp
    ultimately show ?thesis using k that [of s w] by (simp add: same_outside_def)
  qed
  obtain off where off: "conn_ok off (s1\<lparr>bw_sizeUsed := S\<rparr>) w1" using w1(3) by (auto simp: streams_at_def)
  from w1(3) have seg1: "bw_localBufferSegment (s1\<lparr>bw_sizeUsed := S\<rparr>) = Some ?seg"
    and opn: "ring_open (rmem w1) rb e cnt S k S (D @ mem_read (lmem w) d f)"
    and hdr: "get_header (lmem w1) h = get_header (rmem w1) (rb + seg_at e (S + 24) k)"
    by (simp_all add: streams_at_def)
  have used: "bw_sizeUsed (s1\<lparr>bw_sizeUsed := S\<rparr>) = S" and at: "seg_offset ?seg = seg_at e (S + 24) k" by simp_all
  obtain s2 w2 where w2: "bw_getNextSegment V cfg (s1\<lparr>bw_sizeUsed := S\<rparr>) w1 = Inr (s2, w2)" "conn_ok off s2 w2"
    "ring_open (rmem w2) rb e cnt S (Suc k) 0 (D @ mem_read (lmem w) d f)"
    "get_header (lmem w2) h = get_header (rmem w2) (rb + seg_at e (S + 24) (Suc k))"
    "bw_localBufferSegment s2 = Some (?seg\<lparr>seg_offset := seg_at e (S + 24) (Suc k)\<rparr>)"
    "\<forall>a. a \<notin> lreg \<longrightarrow> lmem w2 a = lmem w1 a"
    using get_next_ok [OF off more seg1 at used opn hdr] by blast
  have "bw_split_step V cfg d n s w = Inr (True, d + f, n - f, s2\<lparr>bw_sizeUsed := 0\<rparr>, w2)"
  proof -
    have "add64 (bw_sizeUsed s1) f = S" using w1(2) f(2) K(4) by (simp add: add64_small)
    moreover have "sub64 n f = n - f" using f(1) assms(4) cap_ok(2) by (simp add: sub64_small)
    ultimately show ?thesis
      unfolding bw_split_step_def seg option.case Let_def sub w1(1) by (simp add: w2(1))
  qed
  moreover have "streams_at (Suc k) (D @ mem_read (lmem w) d f) (s2\<lparr>bw_sizeUsed := 0\<rparr>) w2"
    using w2(2-5) by (auto simp: streams_at_def conn_ok_def)
  moreover have "same_outside w w2" using w1(4) w2(6) by (simp add: same_outside_def)
  ultimately show ?thesis using f(1) f_def by (fastforce simp: streams_def)
qed

text \<open>
  \<open>super_append\<close>: the loop ends because every round either consumes data or leaves a full segment, and
  whatever it has consumed is in the ring.
\<close>

lemma super_append_ok:
  assumes "streams D s w" "length D + n \<le> cnt * S" "n \<le> cap" "{d..<d + n} \<inter> lreg = {}"
  shows "\<exists>s' w'. bw_super_append V cfg d n s w = Inr (True, s', w') \<and>
    streams (D @ mem_read (lmem w) d n) s' w' \<and> same_outside w w'"
proof -
  let ?B = "mem_read (lmem w) d n"
  let ?P = "\<lambda>(ok, d', n', s', w'). ok \<and> (\<exists>c \<le> n. d' = d + c \<and> n' = n - c \<and> streams (D @ take c ?B) s' w' \<and> same_outside w w')"
  let ?c = "\<lambda>(ok, d' :: nat, n', s', w' :: 'd world). ok \<and> bw_splits s' n'"
  let ?b = "\<lambda>(ok :: bool, d', n', s', w'). bw_split_step V cfg d' n' s' w'"
  let ?rank = "\<lambda>(ok :: bool, d' :: nat, n', s', w' :: 'd world). 2 * n' + (if bw_sizeUsed s' = S then 1 else 0)"
  note cut = read_cut [OF _ assms(4)]
  have splits: "bw_splits s' n' = (S < bw_sizeUsed s' + n')" if "streams D' s' w'" "length D' + n' \<le> cnt * S" for D' s' w' n'
  proof -
    from that(1) obtain k where k: "streams_at k D' s' w'" unfolding streams_def by blast
    have "bw_sizeUsed s' + n' \<le> cnt * S" using that(2) streams_atD(3) [OF k] by simp
    also have "\<dots> \<le> cnt * (S + 24)" by simp
    finally have "bw_sizeUsed s' + n' < 2 ^ 64" using ring_fits by simp
    then show ?thesis using k by (simp add: bw_splits_def streams_at_def add64_small)
  qed
  have left: "length (D @ take i ?B) + (n - i) \<le> cnt * S" if "i \<le> n" for i using assms(2) that by simp
  have "\<exists>t. loopR ?c ?b (True, d, n, s, w) = Inr t \<and> ?P t \<and> \<not> ?c t"
  proof (rule loopR_total [where rank = ?rank])
    show "?P (True, d, n, s, w)" using assms(1) by (auto simp: same_outside_def intro!: exI [of _ 0])
  next
    fix t assume P: "?P t" and c: "?c t"
    obtain ok d' n' s' w' where t: "t = (ok, d', n', s', w')" by (cases t) auto
    from P obtain i where i: "ok" "i \<le> n" "d' = d + i" "n' = n - i" "streams (D @ take i ?B) s' w'" "same_outside w w'"
      by (auto simp: t)
    have over: "S < bw_sizeUsed s' + n'" using c splits [OF i(5), of n'] left [OF i(2)] i(4) by (simp add: t)
    have "length (D @ take i ?B) + n' \<le> cnt * S" using left [OF i(2)] i(4) by simp
    moreover have "n' \<le> cap" "{d'..<d' + n'} \<inter> lreg = {}"
      using assms(3) i(2-4) source_part [OF assms(4), of i "n - i"] by simp_all
    ultimately obtain f s2 w2 where r: "bw_split_step V cfg d' n' s' w' = Inr (True, d' + f, n' - f, s2, w2)"
      "f = S - bw_sizeUsed s'" "f \<le> n'" "streams ((D @ take i ?B) @ mem_read (lmem w') d' f) s2 w2" "bw_sizeUsed s2 = 0"
      "same_outside w' w2"
      using split_step_ok [OF i(5) over] by blast
    have "streams (D @ take (i + f) ?B) s2 w2" using r(3,4) cut [OF i(6), of i f] i(2,3,4) by simp
    moreover have "same_outside w w2" using i(6) r(6) by (simp add: same_outside_def)
    moreover have "bw_sizeUsed s' \<le> S" using i(5) streams_atD(2) by (auto simp: streams_def)
    ultimately show "\<exists>t'. ?b t = Inr t' \<and> ?P t' \<and> ?rank t' < ?rank t"
      using r i S_pos
      by (intro exI [of _ "(True, d' + f, n' - f, s2, w2)"]) (auto simp: t intro!: exI [of _ "i + f"])
  qed
  then obtain i s' w' where l: "loopR ?c ?b (True, d, n, s, w) = Inr (True, d + i, n - i, s', w')" "i \<le> n"
    "streams (D @ take i ?B) s' w'" "same_outside w w'" "\<not> bw_splits s' (n - i)"
    by auto
  obtain k where k: "streams_at k (D @ take i ?B) s' w'" using l(3) by (auto simp: streams_def)
  let ?seg = "\<lparr>seg_offset = seg_at e (S + 24) k, seg_size = S\<rparr>"
  have seg: "bw_localBufferSegment s' = Some ?seg" using k by (simp add: streams_at_def)
  have fits: "bw_sizeUsed s' + (n - i) \<le> S" using l(5) splits [OF l(3) left [OF l(2)]] by simp
  have "n - i \<le> cap" "{d + i..<d + i + (n - i)} \<inter> lreg = {}"
    using assms(3) l(2) source_part [OF assms(4), of i "n - i"] by simp_all
  from append_part_ok [OF k seg fits this] obtain s2 w2 where
    w2: "bw_writeToSegment V cfg ?seg (bw_sizeUsed s') (n - i) (d + i) s' w' = Inr (True, s2, w2)"
    "bw_sizeUsed s2 = bw_sizeUsed s'"
    "streams_at k ((D @ take i ?B) @ mem_read (lmem w') (d + i) (n - i)) (s2\<lparr>bw_sizeUsed := bw_sizeUsed s' + (n - i)\<rparr>) w2"
    "same_outside w' w2"
    by blast
  have "add64 (bw_sizeUsed s2) (n - i) = bw_sizeUsed s' + (n - i)"
    using w2(2) fits streams_atD(4) [OF k] by (simp add: add64_small)
  then have "bw_super_append V cfg d n s w = Inr (True, s2\<lparr>bw_sizeUsed := bw_sizeUsed s' + (n - i)\<rparr>, w2)"
    using l(1) seg w2(1) by (simp add: bw_super_append_def)
  moreover have "(D @ take i ?B) @ mem_read (lmem w') (d + i) (n - i) = D @ ?B"
    using cut [OF l(4), of i "n - i"] l(2) by simp
  moreover have "same_outside w w2" using l(4) w2(4) by (simp add: same_outside_def)
  ultimately show ?thesis using w2(3) by (auto simp: streams_def)
qed

text \<open>\<open>append\<close> of any size that the ring still has room for.\<close>

lemma append_ok:
  assumes "streams D s w" "length D + n \<le> cnt * S" "{d..<d + n} \<inter> lreg = {}"
  shows "\<exists>s' w'. bw_append V cfg d n s w = Inr (True, s', w') \<and>
    streams (D @ mem_read (lmem w) d n) s' w' \<and> same_outside w w'"
proof -
  let ?B = "mem_read (lmem w) d n"
  let ?P = "\<lambda>(ok, d', n', s', w'). ok \<and> (\<exists>c \<le> n. d' = d + c \<and> n' = n - c \<and> streams (D @ take c ?B) s' w' \<and> same_outside w w')"
  let ?c = "\<lambda>(ok, d' :: nat, n', s', w' :: 'd world).
      ok \<and> (case bw_internalBuffer s' of None \<Rightarrow> True | Some ib \<Rightarrow> ib_size ib < n')"
  let ?b = "\<lambda>(ok :: bool, d', n', s', w').
      case bw_internalBuffer s' of None \<Rightarrow> Inl NullDeref
      | Some ib \<Rightarrow> bindR (bw_super_append V cfg d' (ib_size ib) s' w') (\<lambda>(ok, s'', w'').
          Inr (ok, d' + ib_size ib, n' - ib_size ib, s'', w''))"
  let ?rank = "\<lambda>(ok :: bool, d' :: nat, n' :: nat, s' :: writer_bw, w' :: 'd world). n'"
  have ib: "\<exists>i. bw_internalBuffer s' = Some \<lparr>ib_bufferPtr = ptr, ib_size = cap, ib_offset = i\<rparr>" if "streams D' s' w'" for D' s' w'
    using that by (auto simp: streams_def streams_at_def conn_ok_def)
  note cut = read_cut [OF _ assms(3)]
  have part: "\<exists>s2 w2. bw_super_append V cfg (d + i) f s' w' = Inr (True, s2, w2) \<and>
      streams (D @ take (i + f) ?B) s2 w2 \<and> same_outside w w2"
    if "streams (D @ take i ?B) s' w'" "same_outside w w'" "i + f \<le> n" "f \<le> cap" for i f s' w'
  proof -
    have "length (D @ take i ?B) + f \<le> cnt * S" "{d + i..<d + i + f} \<inter> lreg = {}"
      using assms(2) that(3) source_part [OF assms(3) that(3)] by simp_all
    from super_append_ok [OF that(1) this(1) that(4) this(2)] cut [OF that(2,3)] that(2) show ?thesis
      by (fastforce simp: same_outside_def)
  qed
  have "\<exists>t. loopR ?c ?b (True, d, n, s, w) = Inr t \<and> ?P t \<and> \<not> ?c t"
  proof (rule loopR_total [where rank = ?rank])
    show "?P (True, d, n, s, w)" using assms(1) by (auto simp: same_outside_def intro!: exI [of _ 0])
  next
    fix t assume P: "?P t" and c: "?c t"
    obtain ok d' n' s' w' where t: "t = (ok, d', n', s', w')" by (cases t) auto
    from P obtain i where i: "ok" "i \<le> n" "d' = d + i" "n' = n - i" "streams (D @ take i ?B) s' w'" "same_outside w w'"
      by (auto simp: t)
    obtain j where j: "bw_internalBuffer s' = Some \<lparr>ib_bufferPtr = ptr, ib_size = cap, ib_offset = j\<rparr>" using ib [OF i(5)] by blast
    have lt: "cap < n - i" using c j i(4) by (simp add: t)
    then have "i + cap \<le> n" by simp
    from part [OF i(5,6) this] obtain s2 w2 where r: "bw_super_append V cfg (d + i) cap s' w' = Inr (True, s2, w2)"
      "streams (D @ take (i + cap) ?B) s2 w2" "same_outside w w2"
      by blast
    then show "\<exists>t'. ?b t = Inr t' \<and> ?P t' \<and> ?rank t' < ?rank t"
      using i j lt cap_ok(1)
      by (intro exI [of _ "(True, d + i + cap, n - i - cap, s2, w2)"]) (auto simp: t intro!: exI [of _ "i + cap"])
  qed
  then obtain i s' w' where l: "loopR ?c ?b (True, d, n, s, w) = Inr (True, d + i, n - i, s', w')" "i \<le> n"
    "streams (D @ take i ?B) s' w'" "same_outside w w'" "\<not> ?c (True, d + i, n - i, s', w')"
    by auto
  have "n - i \<le> cap" using l(5) ib [OF l(3)] by auto
  with part [OF l(3,4), of "n - i"] l(2) obtain s2 w2 where
    "bw_super_append V cfg (d + i) (n - i) s' w' = Inr (True, s2, w2)" "streams (D @ ?B) s2 w2" "same_outside w w2"
    by auto
  then show ?thesis using l(1) by (simp add: bw_append_def)
qed

end

section \<open>Whole streams\<close>

text \<open>A program that appends the \<open>n\<close> bytes at \<open>d\<close> for each pair in a list, giving up at the first failure.\<close>

fun bw_appends ::
  "('d, 'v) verbs_scheme \<Rightarrow> 'c rdma_config_scheme \<Rightarrow> (nat \<times> nat) list \<Rightarrow> writer_bw \<Rightarrow> 'd world \<Rightarrow>
   (bool \<times> writer_bw \<times> 'd world) result" where
  "bw_appends V cfg [] s w = Inr (True, s, w)"
| "bw_appends V cfg ((d, n) # chunks) s w =
     bindR (bw_append V cfg d n s w) (\<lambda>(ok, s, w). if ok then bw_appends V cfg chunks s w else Inr (False, s, w))"

definition stream_of :: "mem \<Rightarrow> (nat \<times> nat) list \<Rightarrow> byte list" where
  "stream_of m chunks = concat (map (\<lambda>(d, n). mem_read m d n) chunks)"

text \<open>A writer as its constructor leaves it.\<close>

definition bw_fresh ::
  "nat \<Rightarrow> ibv_qp \<Rightarrow> nat \<Rightarrow> nat \<Rightarrow> nat \<Rightarrow> nat \<Rightarrow> nat \<Rightarrow> nat \<Rightarrow> nat \<Rightarrow> nat \<Rightarrow> nat \<Rightarrow> writer_bw \<Rightarrow> bool" where
  "bw_fresh limit p cq lkey rkey rb e S h ptr cap s \<longleftrightarrow>
     client_on limit (bh_node_id (bw_handle s)) p cq lkey rkey rb (bw_client s) \<and>
     bw_segmentHeader s = Some h \<and> bw_localBufferSegment s = Some \<lparr>seg_offset = e, seg_size = S\<rparr> \<and>
     bw_internalBuffer s = Some \<lparr>ib_bufferPtr = ptr, ib_size = cap, ib_offset = 0\<rparr> \<and> bw_sizeUsed s = 0"

context ring_stream
begin

lemma appends_ok:
  assumes "streams D s w" "length D + sum_list (map snd chunks) \<le> cnt * S" "\<forall>(d, n) \<in> set chunks. {d..<d + n} \<inter> lreg = {}"
  shows "\<exists>s' w'. bw_appends V cfg chunks s w = Inr (True, s', w') \<and> streams (D @ stream_of (lmem w) chunks) s' w' \<and>
    same_outside w w'"
  using assms
proof (induction chunks arbitrary: D s w)
  case Nil
  then show ?case by (simp add: stream_of_def same_outside_def)
next
  case (Cons c chunks)
  obtain d n where c: "c = (d, n)" by (cases c)
  have src: "{d..<d + n} \<inter> lreg = {}" "\<forall>(d, n) \<in> set chunks. {d..<d + n} \<inter> lreg = {}" using Cons.prems(3) c by auto
  obtain s1 w1 where w1: "bw_append V cfg d n s w = Inr (True, s1, w1)" "streams (D @ mem_read (lmem w) d n) s1 w1"
    "same_outside w w1"
    using append_ok [OF Cons.prems(1) _ src(1)] Cons.prems(2) c by auto
  have "mem_read (lmem w1) d' n' = mem_read (lmem w) d' n'" if "(d', n') \<in> set chunks" for d' n'
    using w1(3) src(2) that by (intro mem_read_cong) (fastforce simp: same_outside_def)
  then have same: "stream_of (lmem w1) chunks = stream_of (lmem w) chunks"
    unfolding stream_of_def by (intro arg_cong [of _ _ concat] map_cong) auto
  have room: "length (D @ mem_read (lmem w) d n) + sum_list (map snd chunks) \<le> cnt * S" using Cons.prems(2) c by simp
  obtain s2 w2 where "bw_appends V cfg chunks s1 w1 = Inr (True, s2, w2)"
    "streams ((D @ mem_read (lmem w) d n) @ stream_of (lmem w) chunks) s2 w2" "same_outside w1 w2"
    using Cons.IH [OF w1(2) room src(2)] same by auto
  then show ?case using w1(1,3) c by (auto simp: stream_of_def same_outside_def)
qed

lemma streams_fresh:
  assumes "bw_fresh (cfg_RDMA_MAX_WR cfg) p cq lkey rkey rb e S h ptr cap s" "ready (bw_client s) w" "busy w = {}"
    and "ring_fresh (rmem w) rb e cnt (S + 24)" "0 < cnt" "get_header (lmem w) h = get_header (rmem w) (rb + e)"
  shows "streams [] s w"
  using assms fresh_ring_open [OF assms(4,5)]
  by (auto simp: streams_def streams_at_def conn_ok_def bw_fresh_def seg_at_def intro!: exI [of _ 0])

lemma streams_close:
  assumes "streams D s w"
  shows "\<exists>s' w' k u. bw_close V cfg s w = Inr (True, s', w') \<and> ring_closed (rmem w') rb e cnt S k u D"
proof -
  obtain k off where k: "streams_at k D s w" "conn_ok off s w" using assms by (auto simp: streams_def streams_at_def)
  then have "bw_localBufferSegment s = Some \<lparr>seg_offset = seg_at e (S + 24) k, seg_size = S\<rparr>"
    "ring_open (rmem w) rb e cnt S k (bw_sizeUsed s) D"
    "get_header (lmem w) h = get_header (rmem w) (rb + seg_at e (S + 24) k)"
    by (auto simp: streams_at_def)
  from close_ok [OF k(2) this(1) _ this(2,3)] show ?thesis by fastforce
qed

end

section \<open>A concrete writer\<close>

text \<open>
  On the deferred fabric: a ring of four segments of 16 bytes at offset 64 of the peer's buffer, an internal
  buffer of 10 bytes and room for eight requests.
\<close>

definition fab_writer :: writer_bw where
  "fab_writer = \<lparr>bw_localBufferSegment = Some \<lparr>seg_offset = 64, seg_size = 16\<rparr>, bw_sizeUsed = 0,
     bw_internalBuffer = Some \<lparr>ib_bufferPtr = 4120, ib_size = 10, ib_offset = 0\<rparr>,
     bw_handle = (newBufferHandle ''b'' 1 4 1 16 BW)\<lparr>bh_entrySegments := [\<lparr>seg_offset = 64, seg_size = 16\<rparr>]\<rparr>,
     bw_client = fab_client, bw_segmentHeader = Some 4096, bw_deleteRdmaClient = False\<rparr>"

definition fab_world :: "fab world" where
  "fab_world =
     (let r = write_ring 65536 64 4 40 (\<lambda>_. 0) in
      \<lparr>lmem = put_header (\<lambda>a. word_of_nat a) 4096 (get_header r (65536 + 64)),
       dev = \<lparr>fab_mem = r, fab_queue = [], fab_delay = 0\<rparr>\<rparr>)"

interpretation fab_stream: ring_stream fab_verbs fab_qp 3 1 2 fab_lreg fab_rreg fab_slots
  fab_up fab_rmem fab_due fab_busy fab_posted fab_pend "\<lambda>w. fab_delay (dev w)" fab_config 65536 64 4 16 4096 4120 10
  by unfold_locales (auto simp: fab_slots_def fab_rreg_def fab_lreg_def)

lemma fab_writer_fresh: "bw_fresh 8 fab_qp 3 1 2 65536 64 16 4096 4120 10 fab_writer"
  using fab_client_on by (simp add: bw_fresh_def fab_writer_def newBufferHandle_def)

lemma fab_world_start:
  "fab_up fab_world" "\<not> fab_pend fab_world" "fab_posted fab_world = 0" "fab_busy fab_world = {}"
  "ring_fresh (fab_rmem fab_world) 65536 64 4 40"
  "get_header (lmem fab_world) 4096 = get_header (fab_rmem fab_world) (65536 + 64)"
proof -
  show "fab_up fab_world" "\<not> fab_pend fab_world" "fab_posted fab_world = 0" "fab_busy fab_world = {}"
    "get_header (lmem fab_world) 4096 = get_header (fab_rmem fab_world) (65536 + 64)"
    by (simp_all add: fab_world_def fab_up_def fab_pend_def fab_posted_def fab_busy_def fab_rmem_def fab_flush_def Let_def)
  show "ring_fresh (fab_rmem fab_world) 65536 64 4 40"
    using write_ring_correct(1) [of 4 40 64 65536 "\<lambda>_. 0"]
    by (simp add: fab_world_def fab_rmem_def fab_flush_def Let_def seg_at_def)
qed

lemma stream_written:
  assumes "ring_stream V p cq lkey rkey lreg rreg slots up rmem due busy posted pend rank cfg rb e cnt S h ptr cap"
    and "bw_fresh (cfg_RDMA_MAX_WR cfg) p cq lkey rkey rb e S h ptr cap s"
    and "up w" "\<not> pend w" "posted w \<le> cl_countWR (bw_client s)" "busy w = {}"
    and "ring_fresh (rmem w) rb e cnt (S + 24)" "0 < cnt"
    and "get_header (lmem w) h = get_header (rmem w) (rb + e)"
    and "sum_list (map snd chunks) \<le> cnt * S" "\<forall>(d, n) \<in> set chunks. {d..<d + n} \<inter> lreg = {}"
  shows "\<exists>s1 w1 s2 w2 k u. bw_appends V cfg chunks s w = Inr (True, s1, w1) \<and>
    bw_close V cfg s1 w1 = Inr (True, s2, w2) \<and>
    ring_closed (rmem w2) rb e cnt S k u (stream_of (lmem w) chunks)"
proof -
  note R = assms(1)
  have "rc_fabric.ready up posted pend (bw_client s) w"
    using assms(3-5) rc_fabric.ready_def [OF ring_link.axioms(1) [OF ring_stream.axioms(1) [OF R]]] by blast
  from ring_stream.streams_fresh [OF R assms(2) this assms(6-9)]
  obtain s1 w1 where "bw_appends V cfg chunks s w = Inr (True, s1, w1)"
    "ring_stream.streams p cq lkey rkey up rmem busy posted pend cfg rb e cnt S h ptr cap (stream_of (lmem w) chunks) s1 w1"
    using ring_stream.appends_ok [OF R, of "[]" s w chunks] assms(10,11) by auto
  with ring_stream.streams_close [OF R] show ?thesis by blast
qed

section \<open>Properties\<close>

text \<open>
  Claim C12. \<open>BufferWriterBW\<close> writes exactly the stream it is given. Started on a fresh ring over a reliable
  connection, a program that appends any chunks that fit into the ring and then closes ends without error,
  for whatever sizes of chunks, segments and internal buffer: the ring in the peer's memory then consists of
  full published segments followed by one end segment, linked in order, and their payloads spell the
  concatenation of the chunks.
\<close>

theorem bw_stream_written:
  assumes "ring_stream V p cq lkey rkey lreg rreg slots up rmem due busy posted pend rank cfg rb e cnt S h ptr cap"
    and "bw_fresh (cfg_RDMA_MAX_WR cfg) p cq lkey rkey rb e S h ptr cap s"
    and "up w" and "\<not> pend w" and "posted w \<le> cl_countWR (bw_client s)" and "busy w = {}"
    and "ring_fresh (rmem w) rb e cnt (S + 24)" and "0 < cnt"
    and "get_header (lmem w) h = get_header (rmem w) (rb + e)"
    and "sum_list (map snd chunks) \<le> cnt * S" and "\<forall>(d, n) \<in> set chunks. {d..<d + n} \<inter> lreg = {}"
  shows "\<exists>s1 w1 s2 w2 k u. bw_appends V cfg chunks s w = Inr (True, s1, w1) \<and>
    bw_close V cfg s1 w1 = Inr (True, s2, w2) \<and>
    ring_closed (rmem w2) rb e cnt S k u (stream_of (lmem w) chunks)"
  by (rule stream_written [OF assms])

theorem bw_stream_written_witness:
  "\<exists>s1 w1 s2 w2 k u. bw_appends fab_verbs fab_config [(0, 20), (100, 30)] fab_writer fab_world = Inr (True, s1, w1) \<and>
    bw_close fab_verbs fab_config s1 w1 = Inr (True, s2, w2) \<and>
    ring_closed (fab_rmem w2) 65536 64 4 16 k u (mem_read (lmem fab_world) 0 20 @ mem_read (lmem fab_world) 100 30)"
proof -
  have "stream_of (lmem fab_world) [(0, 20), (100, 30)] = mem_read (lmem fab_world) 0 20 @ mem_read (lmem fab_world) 100 30"
    by (simp add: stream_of_def)
  then show ?thesis
    using bw_stream_written [OF fab_stream.ring_stream_axioms, of fab_writer fab_world "[(0, 20), (100, 30)]"]
      fab_world_start fab_writer_fresh by (simp add: fab_lreg_def)
qed

end
