(* ===== verification/Buffer_Reader.thy ===== *)
theory Buffer_Reader
  imports Buffer_Writer
begin

text \<open>
  \<open>BufferReader\<close>, which fetches all rings of a buffer with one-sided reads, and the thin interfaces on top
  of writers and readers: \<open>NodeClient\<close> and the C-style functions of \<open>memory-api\<close>.
\<close>

section \<open>BufferReader\<close>

record buffer_reader =
  rd_handle :: BufferHandle
  rd_client :: rdma_client

definition newBufferReader ::
  "('d, 'n) net_scheme \<Rightarrow> dpi_config \<Rightarrow> ib_resource_t \<Rightarrow> BufferHandle \<Rightarrow> 'd world \<Rightarrow> (buffer_reader \<times> 'd world) result" where
  "newBufferReader N cfg res0 handle w =
     bindR (newRDMAClient N cfg res0 (cfg_RDMA_MEMSIZE cfg) rc w) (\<lambda>(c, w).
     bindR (getIPFromNodeId cfg (bh_node_id handle)) (\<lambda>ip.
     bindR (connect_node N cfg ip (bh_node_id handle) False c w) (\<lambda>(_, c, w).
     Inr (\<lparr>rd_handle = handle, rd_client = c\<rparr>, w))))"

definition rd_read ::
  "('d, 'v) verbs_scheme \<Rightarrow> 'c rdma_config_scheme \<Rightarrow> nat \<Rightarrow> nat \<Rightarrow> nat \<Rightarrow> buffer_reader \<Rightarrow> 'd world \<Rightarrow>
   (buffer_reader \<times> 'd world) result" where
  "rd_read V cfg off ptr sz s w =
     bindR (client_read V cfg (bh_node_id (rd_handle s)) off ptr sz True (rd_client s) w)
       (\<lambda>(_, c, w). Inr (s\<lparr>rd_client := c\<rparr>, w))"

text \<open>
  One round of the loop over a ring: the header, then the data it announces (with the header in front if
  asked for). The state is the next segment's offset, how much has been written, and whether the segment
  was the last.
\<close>

definition reader_step ::
  "('d, 'v) verbs_scheme \<Rightarrow> 'c rdma_config_scheme \<Rightarrow> bool \<Rightarrow> nat \<Rightarrow> nat \<Rightarrow>
   bool \<times> nat \<times> nat \<times> buffer_reader \<times> 'd world \<Rightarrow> (bool \<times> nat \<times> nat \<times> buffer_reader \<times> 'd world) result" where
  "reader_step V cfg withHeader data header = (\<lambda>(_, cur, writeoffset, s, w).
     bindR (rd_read V cfg cur header 24 s w) (\<lambda>(s, w).
     let segmentDataSize = counter (get_header (lmem w) header) in
     bindR (if \<not> withHeader
            then rd_read V cfg (add64 cur 24) (data + writeoffset) segmentDataSize s w
            else rd_read V cfg cur (data + writeoffset) (add64 segmentDataSize 24) s w) (\<lambda>(s, w).
     let writeoffset = (if \<not> withHeader then add64 writeoffset segmentDataSize
                        else add64 writeoffset (add64 segmentDataSize 24));
         h = get_header (lmem w) header
     in Inr (isEndSegment h, nextSegmentOffset h, writeoffset, s, w))))"

text \<open>\<open>do ... while (!header->isEndSegment())\<close> over one ring.\<close>

definition reader_ring ::
  "('d, 'v) verbs_scheme \<Rightarrow> 'c rdma_config_scheme \<Rightarrow> bool \<Rightarrow> nat \<Rightarrow> nat \<Rightarrow> nat \<Rightarrow> nat \<Rightarrow> buffer_reader \<Rightarrow> 'd world \<Rightarrow>
   (nat \<times> buffer_reader \<times> 'd world) result" where
  "reader_ring V cfg withHeader data header entry writeoffset s w =
     bindR (reader_step V cfg withHeader data header (False, entry, writeoffset, s, w)) (\<lambda>st.
     bindR (loopR (\<lambda>(fin, _). \<not> fin) (reader_step V cfg withHeader data header) st)
       (\<lambda>(_, _, writeoffset, s, w). Inr (writeoffset, s, w)))"

fun reader_rings ::
  "('d, 'v) verbs_scheme \<Rightarrow> 'c rdma_config_scheme \<Rightarrow> bool \<Rightarrow> nat \<Rightarrow> nat \<Rightarrow> BufferSegment list \<Rightarrow> nat \<Rightarrow> buffer_reader \<Rightarrow>
   'd world \<Rightarrow> (nat \<times> buffer_reader \<times> 'd world) result" where
  "reader_rings V cfg withHeader data header [] writeoffset s w = Inr (writeoffset, s, w)"
| "reader_rings V cfg withHeader data header (seg # segs) writeoffset s w =
     bindR (reader_ring V cfg withHeader data header (seg_offset seg) writeoffset s w)
       (\<lambda>(writeoffset, s, w). reader_rings V cfg withHeader data header segs writeoffset s w)"

definition reader_dataSize :: "bool \<Rightarrow> BufferHandle \<Rightarrow> nat" where
  "reader_dataSize withHeader h =
     fold (\<lambda>seg n. add64 n (mul64 (add64 (seg_size seg) (if withHeader then 24 else 0)) (bh_segmentsPerWriter h)))
       (bh_entrySegments h) 0"

text \<open>
  \<open>read\<close> returns the address of the data (0 for null) and the number of bytes, None where it returns null
  early. A failed allocation of the header is a null pointer that the code follows; one of the data is not
  noticed.
\<close>

definition reader_read ::
  "('d, 'n) net_scheme \<Rightarrow> 'c rdma_config_scheme \<Rightarrow> bool \<Rightarrow> buffer_reader \<Rightarrow> proto_client \<Rightarrow> 'd world \<Rightarrow>
   ((nat \<times> nat) option \<times> buffer_reader \<times> proto_client \<times> 'd world) result" where
  "reader_read N cfg withHeader s regClient w =
     bindR (client_retrieveBuffer N (bh_name (rd_handle s)) regClient w) (\<lambda>(handle, regClient, w).
     case handle of None \<Rightarrow> Inl NullDeref
     | Some h \<Rightarrow>
       let s = s\<lparr>rd_handle := h\<rparr> in
       if bh_entrySegments h = [] then Inr (None, s, regClient, w)
       else
         case client_localAlloc cfg (reader_dataSize withHeader h) (rd_client s) of (dp, c) \<Rightarrow>
         case client_localAlloc cfg 24 c of (hp, c) \<Rightarrow>
         let data = (case dp of Some a \<Rightarrow> a | None \<Rightarrow> 0) in
         case hp of None \<Rightarrow> Inl NullDeref
         | Some header \<Rightarrow>
           bindR (reader_rings N cfg withHeader data header (bh_entrySegments h) 0 (s\<lparr>rd_client := c\<rparr>) w)
             (\<lambda>(sizeRead, s, w). Inr (Some (data, sizeRead), s, regClient, w)))"

section \<open>NodeClient\<close>

definition dpi_append where
  "dpi_append V cfg writer data sz w = bw_append V cfg data sz writer w"

definition dpi_read_buffer where
  "dpi_read_buffer N cfg reader regClient w = reader_read N cfg False reader regClient w"

section \<open>memory-api\<close>

record DPI_Context =
  ctx_buffer_writers :: "string \<rightharpoonup> writer_bw"
  ctx_buffer_readers :: "string \<rightharpoonup> buffer_reader"
  ctx_registry_client :: "proto_client option"

abbreviation (input) DPI_SUCCESS :: nat where
  "DPI_SUCCESS \<equiv> 0"

abbreviation (input) DPI_FAILURE :: nat where
  "DPI_FAILURE \<equiv> 1"

abbreviation (input) DPI_NOT_INITIALIZED :: nat where
  "DPI_NOT_INITIALIZED \<equiv> 2"

definition DPI_Init ::
  "('d, 'n) net_scheme \<Rightarrow> dpi_config \<Rightarrow> DPI_Context \<Rightarrow> 'd world \<Rightarrow> (nat \<times> DPI_Context \<times> 'd world) result" where
  "DPI_Init N cfg ctx w =
     bindR (newRegistryClient N cfg w) (\<lambda>(rcl, w). Inr (DPI_SUCCESS, ctx\<lparr>ctx_registry_client := Some rcl\<rparr>, w))"

text \<open>
  A writer or reader that is not in its map is a null pointer the code follows. The handle retrieved for
  the reader is null when the buffer is unknown.
\<close>

definition DPI_Create_buffer ::
  "('d, 'n) net_scheme \<Rightarrow> dpi_config \<Rightarrow> ib_resource_t \<Rightarrow> rdma_client \<Rightarrow> string \<Rightarrow> nat \<Rightarrow> nat \<Rightarrow> nat \<Rightarrow> DPI_Context \<Rightarrow>
   'd world \<Rightarrow> (nat \<times> DPI_Context \<times> 'd world) result" where
  "DPI_Create_buffer N cfg res0 no_client name node_id segmentsPerAppender participatingAppenders ctx w =
     (case ctx_registry_client ctx of None \<Rightarrow> Inr (DPI_NOT_INITIALIZED, ctx, w)
      | Some rcl \<Rightarrow>
          bindR (client_registerBuffer N (newBufferHandle name node_id segmentsPerAppender participatingAppenders
                   (sub64 (cfg_DPI_SEGMENT_SIZE cfg) 24) BW) rcl w) (\<lambda>(_, rcl, w).
          bindR (client_retrieveBuffer N name rcl w) (\<lambda>(buffHandle, rcl, w).
          bindR (newBufferWriterBW N cfg res0 no_client name rcl (cfg_DPI_INTERNAL_BUFFER_SIZE cfg) None w)
            (\<lambda>(writer, rcl, w).
          case buffHandle of None \<Rightarrow> Inl NullDeref
          | Some h \<Rightarrow>
            bindR (newBufferReader N cfg res0 h w) (\<lambda>(reader, w).
            Inr (DPI_SUCCESS, ctx\<lparr>ctx_registry_client := Some rcl,
                   ctx_buffer_writers := (ctx_buffer_writers ctx)(name \<mapsto> writer),
                   ctx_buffer_readers := (ctx_buffer_readers ctx)(name \<mapsto> reader)\<rparr>, w))))))"

definition DPI_Append ::
  "('d, 'v) verbs_scheme \<Rightarrow> 'c rdma_config_scheme \<Rightarrow> string \<Rightarrow> nat \<Rightarrow> nat \<Rightarrow> DPI_Context \<Rightarrow> 'd world \<Rightarrow>
   (nat \<times> DPI_Context \<times> 'd world) result" where
  "DPI_Append V cfg name data sz ctx w =
     (if ctx_registry_client ctx = None then Inr (DPI_NOT_INITIALIZED, ctx, w)
      else case ctx_buffer_writers ctx name of None \<Rightarrow> Inl NullDeref
      | Some writer \<Rightarrow>
          bindR (bw_append V cfg data sz writer w) (\<lambda>(ok, writer, w).
          Inr (if ok then DPI_SUCCESS else DPI_FAILURE,
               ctx\<lparr>ctx_buffer_writers := (ctx_buffer_writers ctx)(name \<mapsto> writer)\<rparr>, w)))"

definition DPI_Get_buffer ::
  "('d, 'n) net_scheme \<Rightarrow> 'c rdma_config_scheme \<Rightarrow> string \<Rightarrow> DPI_Context \<Rightarrow> 'd world \<Rightarrow>
   (nat \<times> (nat \<times> nat) option \<times> DPI_Context \<times> 'd world) result" where
  "DPI_Get_buffer N cfg name ctx w =
     (case ctx_registry_client ctx of None \<Rightarrow> Inr (DPI_NOT_INITIALIZED, None, ctx, w)
      | Some rcl \<Rightarrow>
          (case ctx_buffer_readers ctx name of None \<Rightarrow> Inl NullDeref
           | Some reader \<Rightarrow>
               bindR (reader_read N cfg False reader rcl w) (\<lambda>(ret, reader, rcl, w).
               Inr (case ret of Some (a, _) \<Rightarrow> if a \<noteq> 0 then DPI_SUCCESS else DPI_FAILURE | None \<Rightarrow> DPI_FAILURE,
                    ret,
                    ctx\<lparr>ctx_registry_client := Some rcl, ctx_buffer_readers := (ctx_buffer_readers ctx)(name \<mapsto> reader)\<rparr>,
                    w))))"

definition DPI_Close_buffer ::
  "('d, 'v) verbs_scheme \<Rightarrow> 'c rdma_config_scheme \<Rightarrow> string \<Rightarrow> DPI_Context \<Rightarrow> 'd world \<Rightarrow>
   (nat \<times> DPI_Context \<times> 'd world) result" where
  "DPI_Close_buffer V cfg name ctx w =
     (if ctx_registry_client ctx = None then Inr (DPI_NOT_INITIALIZED, ctx, w)
      else case ctx_buffer_writers ctx name of None \<Rightarrow> Inl NullDeref
      | Some writer \<Rightarrow>
          bindR (bw_close V cfg writer w) (\<lambda>(_, writer, w).
          Inr (DPI_SUCCESS, ctx\<lparr>ctx_buffer_writers := (ctx_buffer_writers ctx)(name \<mapsto> writer)\<rparr>, w)))"

text \<open>\<open>DPI_Finalize\<close> closes every writer; \<open>names\<close> lists the keys of the map in its iteration order.\<close>

fun close_writers ::
  "('d, 'v) verbs_scheme \<Rightarrow> 'c rdma_config_scheme \<Rightarrow> string list \<Rightarrow> DPI_Context \<Rightarrow> 'd world \<Rightarrow> (DPI_Context \<times> 'd world) result" where
  "close_writers V cfg [] ctx w = Inr (ctx, w)"
| "close_writers V cfg (name # names) ctx w =
     (case ctx_buffer_writers ctx name of None \<Rightarrow> Inl NullDeref
      | Some writer \<Rightarrow>
          bindR (bw_close V cfg writer w) (\<lambda>(_, writer, w).
          close_writers V cfg names (ctx\<lparr>ctx_buffer_writers := (ctx_buffer_writers ctx)(name \<mapsto> writer)\<rparr>) w))"

definition DPI_Finalize ::
  "('d, 'v) verbs_scheme \<Rightarrow> 'c rdma_config_scheme \<Rightarrow> string list \<Rightarrow> DPI_Context \<Rightarrow> 'd world \<Rightarrow>
   (nat \<times> DPI_Context \<times> 'd world) result" where
  "DPI_Finalize V cfg names ctx w =
     (if ctx_registry_client ctx = None then Inr (DPI_NOT_INITIALIZED, ctx, w)
      else bindR (close_writers V cfg names ctx w) (\<lambda>(ctx, w). Inr (DPI_SUCCESS, ctx, w)))"

end
