(* ===== verification/Iterators.thy ===== *)
theory Iterators
  imports Node_Server
begin

text \<open>
  The consumer's side on the node: \<open>SegmentIterator\<close> walks one ring, \<open>BufferIterator\<close> and
  \<open>BufferIteratorLat\<close> go round the rings of a buffer, hand out consumable segments and give the previous
  one of a ring back to its writer. They work on the node's own memory.
\<close>

section \<open>SegmentIterator\<close>

text \<open>A header is in the registered buffer or one that \<open>getEndSegmentIterator\<close> made with \<open>new\<close>.\<close>

datatype header_ptr = InBuffer nat | OnHeap nat

record SegmentIterator =
  si_position :: nat
  si_prevIsEndSegment :: bool
  si_header :: header_ptr
  si_rdmaBuffer :: nat

text \<open>Memory and the headers on the heap.\<close>

record iter_mem =
  im_mem :: mem
  im_heap :: "DPI_SEGMENT_HEADER_t list"

definition deref :: "header_ptr \<Rightarrow> iter_mem \<Rightarrow> DPI_SEGMENT_HEADER_t" where
  "deref p im = (case p of InBuffer a \<Rightarrow> get_header (im_mem im) a | OnHeap i \<Rightarrow> im_heap im ! i)"

definition assign :: "header_ptr \<Rightarrow> DPI_SEGMENT_HEADER_t \<Rightarrow> iter_mem \<Rightarrow> iter_mem" where
  "assign p h im = (case p of InBuffer a \<Rightarrow> im\<lparr>im_mem := put_header (im_mem im) a h\<rparr>
     | OnHeap i \<Rightarrow> im\<lparr>im_heap := (im_heap im)[i := h]\<rparr>)"

definition newSegmentIterator :: "nat \<Rightarrow> nat \<Rightarrow> SegmentIterator" where
  "newSegmentIterator offset rdmaBuffer =
     \<lparr>si_position = offset, si_prevIsEndSegment = False, si_header = InBuffer (rdmaBuffer + offset),
      si_rdmaBuffer = rdmaBuffer\<rparr>"

definition getEndSegmentIterator :: "iter_mem \<Rightarrow> SegmentIterator \<times> iter_mem" where
  "getEndSegmentIterator im =
     (\<lparr>si_position = 0, si_prevIsEndSegment = True, si_header = OnHeap (length (im_heap im)), si_rdmaBuffer = 0\<rparr>,
      im\<lparr>im_heap := im_heap im @ [markEndSegment True header_init]\<rparr>)"

text \<open>\<open>operator++\<close>, \<open>operator==\<close> and \<open>getRawData\<close>.\<close>

definition si_next :: "SegmentIterator \<Rightarrow> iter_mem \<Rightarrow> SegmentIterator" where
  "si_next it im =
     (let h = deref (si_header it) im in
      it\<lparr>si_position := nextSegmentOffset h, si_prevIsEndSegment := isEndSegment h,
         si_header := InBuffer (si_rdmaBuffer it + nextSegmentOffset h)\<rparr>)"

definition si_equal :: "SegmentIterator \<Rightarrow> SegmentIterator \<Rightarrow> bool" where
  "si_equal a b \<longleftrightarrow> si_prevIsEndSegment a = si_prevIsEndSegment b"

definition getRawData :: "SegmentIterator \<Rightarrow> iter_mem \<Rightarrow> header_ptr \<times> nat" where
  "getRawData it im = (si_header it, counter (deref (si_header it) im))"

section \<open>BufferIterator\<close>

record IterHelper =
  ih_iter :: SegmentIterator
  ih_end :: SegmentIterator
  ih_prev :: SegmentIterator
  ih_counterOffset :: nat

text \<open>
  \<open>pointer_to_iter\<close> as an index into the list, its length standing for \<open>end()\<close>. \<open>bi_lat\<close> tells
  \<open>BufferIteratorLat\<close> from its base class, \<open>bi_rdmaBuffer\<close> is the pointer it keeps.
\<close>

record BufferIterator =
  bi_iters :: "IterHelper list"
  bi_pointer :: nat
  bi_name :: string
  bi_lat :: bool
  bi_rdmaBuffer :: nat

text \<open>The helper of a ring starts with its own end iterator as previous segment, no longer marked as end.\<close>

fun new_helpers :: "nat \<Rightarrow> BufferSegment list \<Rightarrow> iter_mem \<Rightarrow> IterHelper list \<times> iter_mem" where
  "new_helpers rdmaBuffer [] im = ([], im)"
| "new_helpers rdmaBuffer (seg # segs) im =
     (let (e, im) = getEndSegmentIterator im;
          im = assign (si_header e) (markEndSegment False (deref (si_header e) im)) im;
          h = \<lparr>ih_iter = newSegmentIterator (seg_offset seg) rdmaBuffer, ih_end = e, ih_prev = e,
               ih_counterOffset = sub64 (seg_offset seg) 8\<rparr>;
          (hs, im) = new_helpers rdmaBuffer segs im
      in (h # hs, im))"

definition newBufferIterator :: "bool \<Rightarrow> nat \<Rightarrow> BufferSegment list \<Rightarrow> string \<Rightarrow> mem \<Rightarrow> BufferIterator \<times> iter_mem" where
  "newBufferIterator lat rdmaBuffer entrySegments bufferName m =
     (case new_helpers rdmaBuffer entrySegments \<lparr>im_mem = m, im_heap = []\<rparr> of (hs, im) \<Rightarrow>
      (\<lparr>bi_iters = hs, bi_pointer = 0, bi_name = bufferName, bi_lat = lat, bi_rdmaBuffer = rdmaBuffer\<rparr>, im))"

definition getIterator :: "BufferHandle \<Rightarrow> nat \<Rightarrow> mem \<Rightarrow> BufferIterator \<times> iter_mem" where
  "getIterator h rdmaBuffer m = newBufferIterator False rdmaBuffer (bh_entrySegments h) (bh_name h) m"

definition getIteratorLat :: "BufferHandle \<Rightarrow> nat \<Rightarrow> mem \<Rightarrow> BufferIterator \<times> iter_mem" where
  "getIteratorLat h rdmaBuffer m = newBufferIterator True rdmaBuffer (bh_entrySegments h) (bh_name h) m"

text \<open>
  \<open>mark_prev_segment\<close>: the previous segment is given back unless it is an end segment; the low-latency
  version does so only for a segment that is marked writeable and counts it.
\<close>

definition released :: "DPI_SEGMENT_HEADER_t \<Rightarrow> DPI_SEGMENT_HEADER_t" where
  "released h = setWriteable True (setConsumable False (h\<lparr>counter := 0\<rparr>))"

definition mark_prev_segment :: "BufferIterator \<Rightarrow> iter_mem \<Rightarrow> iter_mem result" where
  "mark_prev_segment b im =
     bindR (index_op (bi_iters b) (bi_pointer b)) (\<lambda>ih.
     let p = si_header (ih_prev ih); h = deref p im in
     if bi_lat b then
       if \<not> isEndSegment h \<and> isWriteable h then
         let im = assign p (released h) im; a = bi_rdmaBuffer b + ih_counterOffset ih in
         Inr (im\<lparr>im_mem := store64 (im_mem im) a (add64 (load64 (im_mem im) a) 1)\<rparr>)
       else Inr im
     else if \<not> isEndSegment h then Inr (assign p (released h) im)
     else Inr im)"

text \<open>One round of the loop of \<open>has_next\<close>; the flag says whether a consumable segment was found.\<close>

definition has_next_step :: "BufferIterator \<times> iter_mem \<Rightarrow> (bool \<times> BufferIterator \<times> iter_mem) result" where
  "has_next_step = (\<lambda>(b, im).
     let b = (if bi_pointer b = length (bi_iters b) then b\<lparr>bi_pointer := 0\<rparr> else b) in
     bindR (index_op (bi_iters b) (bi_pointer b)) (\<lambda>ih.
     if \<not> isEndSegment (deref (si_header (ih_prev ih)) im) then
       if \<not> isConsumable (deref (si_header (ih_iter ih)) im)
       then Inr (False, b\<lparr>bi_pointer := bi_pointer b + 1\<rparr>, im)
       else Inr (True, b, im)
     else
       bindR (mark_prev_segment b im) (\<lambda>im.
         Inr (False, b\<lparr>bi_iters := take (bi_pointer b) (bi_iters b) @ drop (bi_pointer b + 1) (bi_iters b)\<rparr>, im))))"

definition has_next :: "BufferIterator \<Rightarrow> iter_mem \<Rightarrow> (bool \<times> BufferIterator \<times> iter_mem) result" where
  "has_next b im =
     loopR (\<lambda>(found, b, im). \<not> found \<and> bi_iters b \<noteq> []) (\<lambda>(found, b, im). has_next_step (b, im)) (False, b, im)"

text \<open>\<open>next\<close> returns the segment's header pointer, behind which the data lies, and the size of the data.\<close>

definition next_segment ::
  "BufferIterator \<Rightarrow> iter_mem \<Rightarrow> ((header_ptr \<times> nat) \<times> BufferIterator \<times> iter_mem) result" where
  "next_segment b im =
     bindR (mark_prev_segment b im) (\<lambda>im.
     bindR (index_op (bi_iters b) (bi_pointer b)) (\<lambda>ih.
     let ret = getRawData (ih_iter ih) im;
         ih = ih\<lparr>ih_prev := ih_iter ih, ih_iter := si_next (ih_iter ih) im\<rparr>
     in Inr (ret, b\<lparr>bi_iters := (bi_iters b)[bi_pointer b := ih], bi_pointer := bi_pointer b + 1\<rparr>, im)))"

definition wait_for_next ::
  "BufferIterator \<Rightarrow> iter_mem \<Rightarrow> ((header_ptr \<times> nat) option \<times> BufferIterator \<times> iter_mem) result" where
  "wait_for_next b im =
     bindR (has_next b im) (\<lambda>(found, b, im).
     if found then bindR (next_segment b im) (\<lambda>(ret, b, im). Inr (Some ret, b, im))
     else Inr (None, b, im))"

end
