(* ===== verification/Stream_Reader.thy ===== *)
theory Stream_Reader
  imports Stream_Writer Buffer_Reader Iterators
begin

text \<open>
  Both ways of reading a closed ring return the stream that was written to it: the consumer on the node
  walks it with \<open>BufferIterator\<close> and gives the segments back one by one, a remote reader fetches it with
  \<open>BufferReader\<close>.
\<close>

section \<open>The consumer on the node\<close>

text \<open>Calling \<open>wait_for_next\<close> until it reports the end, with the bytes of each segment when it is handed out.\<close>

fun drain :: "nat \<Rightarrow> BufferIterator \<Rightarrow> iter_mem \<Rightarrow> (byte list list \<times> BufferIterator \<times> iter_mem) result" where
  "drain 0 b im = Inl Spin"
| "drain (Suc n) b im =
     bindR (wait_for_next b im) (\<lambda>(ret, b, im).
     case ret of None \<Rightarrow> Inr ([], b, im)
     | Some (InBuffer a, sz) \<Rightarrow>
         bindR (drain n b im) (\<lambda>(parts, b, im'). Inr (mem_read (im_mem im) (a + 24) sz # parts, b, im'))
     | Some (OnHeap _, _) \<Rightarrow> Inl BadIndex)"

text \<open>
  The memory when \<open>j\<close> segments have been handed out: from the last of these on the headers are as they were,
  the ones before have been given back.
\<close>

definition unread :: "mem \<Rightarrow> nat \<Rightarrow> nat \<Rightarrow> nat \<Rightarrow> nat \<Rightarrow> nat \<Rightarrow> nat \<Rightarrow> mem \<Rightarrow> bool" where
  "unread m rb e S cnt k j m' \<longleftrightarrow>
     (\<forall>i. j \<le> Suc i \<and> i \<le> k \<longrightarrow>
        get_header m' (rb + seg_at e (S + 24) i) = get_header m (rb + seg_at e (S + 24) i)) \<and>
     (\<forall>i. Suc i < j \<and> i \<le> k \<longrightarrow>
        get_header m' (rb + seg_at e (S + 24) i) = released (get_header m (rb + seg_at e (S + 24) i))) \<and>
     (\<forall>i n. n \<le> S \<longrightarrow> payload m' rb e S i n = payload m rb e S i n)"

definition iter_at :: "nat \<Rightarrow> nat \<Rightarrow> nat \<Rightarrow> nat \<Rightarrow> nat \<Rightarrow> BufferIterator \<Rightarrow> iter_mem \<Rightarrow> bool" where
  "iter_at rb e S cnt j b im \<longleftrightarrow> \<not> bi_lat b \<and> bi_pointer b \<le> 1 \<and>
     (\<exists>ih. bi_iters b = [ih] \<and> si_rdmaBuffer (ih_iter ih) = rb \<and>
        si_header (ih_iter ih) = InBuffer (rb + seg_at e (S + 24) (j mod cnt)) \<and>
        (if j = 0 then \<exists>i < length (im_heap im). si_header (ih_prev ih) = OnHeap i \<and> \<not> isEndSegment (im_heap im ! i)
         else si_header (ih_prev ih) = InBuffer (rb + seg_at e (S + 24) (j - 1))))"

lemma unread_start: "unread m rb e S cnt k 0 m"
  by (simp add: unread_def)

lemma released_sel [simp]:
  "isEndSegment (released h) = isEndSegment h" "isWriteable (released h)" "\<not> isConsumable (released h)"
  "counter (released h) = 0" "nextSegmentOffset (released h) = nextSegmentOffset h"
  by (simp_all add: released_def)

lemma header_ok_released [simp]: "header_ok h \<Longrightarrow> header_ok (released h)"
  by (simp add: released_def header_ok_def)

text \<open>One round of \<open>has_next\<close> when the buffer has a single ring left.\<close>

lemma has_next_step_single:
  assumes "bi_iters b = [ih]" "bi_pointer b \<le> 1"
  shows "has_next_step (b, im) =
    (if \<not> isEndSegment (deref (si_header (ih_prev ih)) im) then
       if \<not> isConsumable (deref (si_header (ih_iter ih)) im) then Inr (False, b\<lparr>bi_pointer := 1\<rparr>, im)
       else Inr (True, b\<lparr>bi_pointer := 0\<rparr>, im)
     else bindR (mark_prev_segment (b\<lparr>bi_pointer := 0\<rparr>) im) (\<lambda>im. Inr (False, b\<lparr>bi_pointer := 0, bi_iters := []\<rparr>, im)))"
proof (cases "bi_pointer b = 0")
  case True
  then show ?thesis using assms(1) by (cases b) (simp add: has_next_step_def)
next
  case False
  then have "bi_pointer b = 1" using assms(2) by simp
  then show ?thesis using assms(1) by (simp add: has_next_step_def Let_def)
qed

text \<open>One segment: it is found, handed out whole, and the one before it is given back.\<close>

lemma wait_for_next_some:
  assumes "iter_at rb e S cnt j b im" "unread m rb e S cnt k j (im_mem im)" "ring_data m rb e cnt S k u D" "j \<le> k"
    and "last_header u (get_header m (rb + seg_at e (S + 24) k))"
  shows "\<exists>b' im'. wait_for_next b im =
      Inr (Some (InBuffer (rb + seg_at e (S + 24) j), if j = k then u else S), b', im') \<and>
    iter_at rb e S cnt (Suc j) b' im' \<and> unread m rb e S cnt k (Suc j) (im_mem im')"
proof -
  let ?at = "\<lambda>i. rb + seg_at e (S + 24) i"
  have k: "k < cnt" "u \<le> S" "\<forall>i < k. full_header S (get_header m (?at i))" "ring_linked m rb e cnt (S + 24)"
    using assms(3) by (auto simp: ring_data_def)
  have jc: "j mod cnt = j" using assms(4) k(1) by simp
  from assms(1) obtain ih where ih: "bi_iters b = [ih]" "si_rdmaBuffer (ih_iter ih) = rb"
    "si_header (ih_iter ih) = InBuffer (?at j)" "\<not> bi_lat b" "bi_pointer b \<le> 1"
    and prev: "if j = 0 then \<exists>i < length (im_heap im). si_header (ih_prev ih) = OnHeap i \<and> \<not> isEndSegment (im_heap im ! i)
         else si_header (ih_prev ih) = InBuffer (?at (j - 1))"
    by (auto simp: iter_at_def jc)
  have hdr: "get_header (im_mem im) (?at i) = get_header m (?at i)" if "j \<le> Suc i" "i \<le> k" for i
    using assms(2) that by (simp add: unread_def)
  let ?cur = "get_header m (?at j)"
  have cur: "isConsumable ?cur" "counter ?cur = (if j = k then u else S)"
    using assms(4,5) k(3) by (cases "j = k"; simp add: full_header_def last_header_def)+
  have prev_open: "\<not> isEndSegment (deref (si_header (ih_prev ih)) im)"
    using prev k(3) hdr [of "j - 1"] assms(4) by (auto simp: deref_def full_header_def split: if_splits)
  let ?p = "si_header (ih_prev ih)"
  let ?im = "assign ?p (released (deref ?p im)) im"
  let ?b = "b\<lparr>bi_pointer := 0\<rparr>"
  have "has_next_step (b, im) = Inr (True, ?b, im)"
    using has_next_step_single [OF ih(1,5)] prev_open cur(1) hdr [of j] assms(4) ih(3) by (simp add: deref_def)
  then have found: "has_next b im = Inr (True, ?b, im)"
    using ih(1) by (simp add: has_next_def loopR_unfold)
  have mem: "get_header (im_mem ?im) (?at i) = get_header (im_mem im) (?at i)" if "Suc i \<noteq> j" for i
  proof (cases "j = 0")
    case True
    then show ?thesis using prev by (auto simp: assign_def)
  next
    case False
    then have "i \<noteq> j - 1" using that by simp
    then show ?thesis using prev False header_put_other by (auto simp: assign_def)
  qed
  have pay: "payload (im_mem ?im) rb e S i n = payload (im_mem im) rb e S i n" if "n \<le> S" for i n
    using prev that by (auto simp: assign_def payload_put split: if_splits)
  have next_off: "nextSegmentOffset ?cur = seg_at e (S + 24) (Suc j mod cnt)"
    using k(1,4) assms(4) by (simp add: ring_linked_def)
  let ?ih = "ih\<lparr>ih_prev := ih_iter ih, ih_iter := si_next (ih_iter ih) ?im\<rparr>"
  have run: "wait_for_next b im = Inr (Some (InBuffer (?at j), if j = k then u else S),
      ?b\<lparr>bi_iters := [?ih], bi_pointer := 1\<rparr>, ?im)"
    using found ih prev_open cur(2) mem [of j] hdr [of j] assms(4)
    by (simp add: wait_for_next_def next_segment_def mark_prev_segment_def getRawData_def deref_def [of "InBuffer _"] Let_def)
  have "iter_at rb e S cnt (Suc j) (?b\<lparr>bi_iters := [?ih], bi_pointer := 1\<rparr>) ?im"
    using ih next_off mem [of j] hdr [of j] assms(4) by (simp add: iter_at_def si_next_def deref_def [of "InBuffer _"])
  moreover have "unread m rb e S cnt k (Suc j) (im_mem ?im)"
    unfolding unread_def
  proof (intro conjI allI impI)
    fix i assume i: "Suc i < Suc j \<and> i \<le> k"
    show "get_header (im_mem ?im) (?at i) = released (get_header m (?at i))"
    proof (cases "Suc i = j")
      case True
      then have "?p = InBuffer (?at i)" using prev by auto
      then show ?thesis using hdr [of i] i True by (simp add: assign_def deref_def)
    next
      case False
      then show ?thesis using mem [of i] assms(2) i by (simp add: unread_def)
    qed
  qed (use assms(2) mem pay in \<open>auto simp: unread_def\<close>)
  ultimately show ?thesis using run by blast
qed

lemma wait_for_next_none:
  assumes "iter_at rb e S cnt (Suc k) b im" "unread m rb e S cnt k (Suc k) (im_mem im)"
    and "last_header u (get_header m (rb + seg_at e (S + 24) k))"
  shows "\<exists>b'. wait_for_next b im = Inr (None, b', im) \<and> bi_iters b' = []"
proof -
  from assms(1) obtain ih where ih: "bi_iters b = [ih]" "si_header (ih_prev ih) = InBuffer (rb + seg_at e (S + 24) k)"
    "\<not> bi_lat b" "bi_pointer b \<le> 1"
    by (auto simp: iter_at_def)
  have "get_header (im_mem im) (rb + seg_at e (S + 24) k) = get_header m (rb + seg_at e (S + 24) k)"
    using assms(2) by (simp add: unread_def)
  then have fin: "isEndSegment (deref (si_header (ih_prev ih)) im)"
    using assms(3) ih(2) by (simp add: deref_def last_header_def)
  have "has_next_step (b, im) = Inr (False, b\<lparr>bi_pointer := 0, bi_iters := []\<rparr>, im)"
    using has_next_step_single [OF ih(1,4)] fin ih(1,3) by (simp add: mark_prev_segment_def Let_def)
  then have "has_next b im = Inr (False, b\<lparr>bi_pointer := 0, bi_iters := []\<rparr>, im)"
    using ih(1) by (simp add: has_next_def loopR_unfold)
  then show ?thesis by (simp add: wait_for_next_def)
qed

lemma drain_ring:
  assumes "iter_at rb e S cnt j b im" "unread m rb e S cnt k j (im_mem im)" "ring_data m rb e cnt S k u D" "j \<le> k"
    and "last_header u (get_header m (rb + seg_at e (S + 24) k))" "n = k - j"
  shows "\<exists>b' im'. drain (Suc (Suc n)) b im =
      Inr (map (\<lambda>i. payload m rb e S i S) [j..<k] @ [payload m rb e S k u], b', im') \<and>
    bi_iters b' = [] \<and> unread m rb e S cnt k (Suc k) (im_mem im')"
  using assms
proof (induction n arbitrary: j b im)
  case 0
  then have j: "j = k" by simp
  obtain b1 im1 where s: "wait_for_next b im = Inr (Some (InBuffer (rb + seg_at e (S + 24) k), u), b1, im1)"
    "iter_at rb e S cnt (Suc k) b1 im1" "unread m rb e S cnt k (Suc k) (im_mem im1)"
    using wait_for_next_some [OF 0(1-5)] j by auto
  obtain b2 where t: "wait_for_next b1 im1 = Inr (None, b2, im1)" "bi_iters b2 = []"
    using wait_for_next_none [OF s(2,3) 0(5)] by blast
  have "u \<le> S" using 0(3) by (simp add: ring_data_def)
  then have "payload (im_mem im1) rb e S k u = payload m rb e S k u" using s(3) by (simp add: unread_def)
  then show ?case using s(1,3) t j by (simp add: payload_def)
next
  case (Suc n)
  then have j: "j < k" by simp
  obtain b1 im1 where s: "wait_for_next b im = Inr (Some (InBuffer (rb + seg_at e (S + 24) j), S), b1, im1)"
    "iter_at rb e S cnt (Suc j) b1 im1" "unread m rb e S cnt k (Suc j) (im_mem im1)"
    using wait_for_next_some [OF Suc.prems(1-5)] j by auto
  have n: "Suc j \<le> k" "n = k - Suc j" using j Suc.prems(6) by auto
  obtain b' im' where d: "drain (Suc (Suc n)) b1 im1 =
      Inr (map (\<lambda>i. payload m rb e S i S) [Suc j..<k] @ [payload m rb e S k u], b', im')" "bi_iters b' = []"
    "unread m rb e S cnt k (Suc k) (im_mem im')"
    using Suc.IH [OF s(2,3) Suc.prems(3) n(1) Suc.prems(5) n(2)] by blast
  have "payload (im_mem im1) rb e S j S = payload m rb e S j S" using s(3) by (simp add: unread_def)
  then show ?case using s(1) d j
    by (simp add: drain.simps(2) [of "Suc (Suc n)"] payload_def upt_conv_Cons del: drain.simps)
qed

lemma iter_start:
  assumes "getIterator hdl rb m = (b, im)" "bh_entrySegments hdl = [seg]" "seg_offset seg = e" "0 < cnt"
  shows "iter_at rb e S cnt 0 b im" "im_mem im = m"
proof -
  have "im = \<lparr>im_mem = m, im_heap = [markEndSegment False (markEndSegment True header_init)]\<rparr>" "\<not> bi_lat b"
    "bi_pointer b = 0"
    "bi_iters b = [\<lparr>ih_iter = newSegmentIterator e rb, ih_end = fst (getEndSegmentIterator \<lparr>im_mem = m, im_heap = []\<rparr>),
       ih_prev = fst (getEndSegmentIterator \<lparr>im_mem = m, im_heap = []\<rparr>), ih_counterOffset = sub64 e 8\<rparr>]"
    using assms(1-3)
    by (auto simp: getIterator_def newBufferIterator_def getEndSegmentIterator_def assign_def deref_def Let_def)
  then show "iter_at rb e S cnt 0 b im" "im_mem im = m"
    using assms(4) by (auto simp: iter_at_def newSegmentIterator_def getEndSegmentIterator_def seg_at_def)
qed

lemma drain_closed_ring:
  assumes "bh_entrySegments hdl = [seg]" "ring_closed m rb (seg_offset seg) cnt S k u D"
  shows "\<exists>parts b im. (case getIterator hdl rb m of (b0, im0) \<Rightarrow> drain (k + 2) b0 im0) = Inr (parts, b, im) \<and>
    length parts = k + 1 \<and> concat parts = D \<and> bi_iters b = [] \<and>
    (\<forall>i < k. fresh_header (get_header (im_mem im) (rb + seg_at (seg_offset seg) (S + 24) i))) \<and>
    (\<forall>i \<le> k. nextSegmentOffset (get_header (im_mem im) (rb + seg_at (seg_offset seg) (S + 24) i)) =
       seg_at (seg_offset seg) (S + 24) (Suc i mod cnt))"
proof -
  let ?e = "seg_offset seg"
  obtain b0 im0 where it: "getIterator hdl rb m = (b0, im0)" by force
  have ring: "ring_data m rb ?e cnt S k u D" "last_header u (get_header m (rb + seg_at ?e (S + 24) k))" "0 < cnt"
    using assms(2) by (auto simp: ring_closed_def ring_data_def)
  note start = iter_start [OF it assms(1) refl ring(3)]
  have "unread m rb ?e S cnt k 0 (im_mem im0)" by (simp add: start(2) unread_start)
  from drain_ring [OF start(1) this ring(1) le0 ring(2) refl]
  obtain b im where d: "drain (k + 2) b0 im0 = Inr (map (\<lambda>i. payload m rb ?e S i S) [0..<k] @ [payload m rb ?e S k u], b, im)"
    "bi_iters b = []" "unread m rb ?e S cnt k (Suc k) (im_mem im)"
    by (auto simp del: drain.simps)
  have hdr: "get_header (im_mem im) (rb + seg_at ?e (S + 24) i) =
      (if i < k then released (get_header m (rb + seg_at ?e (S + 24) i)) else get_header m (rb + seg_at ?e (S + 24) i))"
    if "i \<le> k" for i using d(3) that by (auto simp: unread_def)
  have "fresh_header (released (get_header m (rb + seg_at ?e (S + 24) i)))" if "i < k" for i
    using ring(1) that by (auto simp: fresh_header_def ring_data_def full_header_def)
  then show ?thesis
    using d(1,2) it ring(1) hdr by (auto simp: ring_data_def ring_linked_def simp del: drain.simps)
qed

section \<open>The remote reader\<close>

definition reader_on ::
  "nat \<Rightarrow> ibv_qp \<Rightarrow> nat \<Rightarrow> nat \<Rightarrow> nat \<Rightarrow> nat \<Rightarrow> buffer_reader \<Rightarrow> bool" where
  "reader_on limit p cq lkey rkey rb s \<longleftrightarrow> client_on limit (bh_node_id (rd_handle s)) p cq lkey rkey rb (rd_client s)"

context ring_link
begin

text \<open>One transfer into local memory.\<close>

lemma rd_read_ok:
  assumes "reader_on (cfg_RDMA_MAX_WR cfg) p cq lkey rkey rb s" "ready (rd_client s) w" "n < 2 ^ 32" "rb + x < 2 ^ 64"
    "{la..<la + n} \<subseteq> lreg" "{rb + x..<rb + x + n} \<subseteq> rreg"
  shows "\<exists>s' w'. rd_read V cfg x la n s w = Inr (s', w') \<and> reader_on (cfg_RDMA_MAX_WR cfg) p cq lkey rkey rb s' \<and>
    ready (rd_client s') w' \<and> rmem w' = rmem w \<and> lmem w' = mem_write (lmem w) la (mem_read (rmem w) (rb + x) n)"
  using client_read_ok [OF assms(1) [unfolded reader_on_def] assms(2) wr_limit assms(3-6)] assms(1)
  by (fastforce simp: rd_read_def reader_on_def client_on_def)

text \<open>The bytes of segment \<open>j\<close> arrive at the write offset, the rest of the data area stays.\<close>

lemma reader_step_ok:
  assumes "reader_on (cfg_RDMA_MAX_WR cfg) p cq lkey rkey rb s" "ready (rd_client s) w"
    and "ring_closed (rmem w) rb e cnt S k u D" "j \<le> k" "S < 2 ^ 32" "n = (if j = k then u else S)"
    and "{data + x..<data + x + n} \<subseteq> lreg" "h + 24 \<le> data \<or> data + x + n \<le> h" "data + x + n < 2 ^ 64"
  shows "\<exists>s' w'. reader_step V cfg False data h (fin, seg_at e (S + 24) j, x, s, w) =
      Inr (j = k, seg_at e (S + 24) (Suc j mod cnt), x + n, s', w') \<and>
    reader_on (cfg_RDMA_MAX_WR cfg) p cq lkey rkey rb s' \<and> ready (rd_client s') w' \<and> rmem w' = rmem w \<and>
    lmem w' = mem_write (put_header (lmem w) h (get_header (rmem w) (rb + seg_at e (S + 24) j)))
      (data + x) (payload (rmem w) rb e S j n)"
proof -
  let ?at = "seg_at e (S + 24) j"
  let ?hd = "get_header (rmem w) (rb + ?at)"
  have k: "j < cnt" "k < cnt" "u \<le> S" using assms(3,4) by (auto simp: ring_closed_def ring_data_def)
  have hd: "counter ?hd = n" "isEndSegment ?hd \<longleftrightarrow> j = k" "nextSegmentOffset ?hd = seg_at e (S + 24) (Suc j mod cnt)"
    using assms(3,4,6) k(1)
    by (cases "j = k"; simp add: ring_closed_def ring_data_def ring_linked_def last_header_def full_header_def)+
  have n: "n \<le> S" using assms(6) k(3) by simp
  have r1: "rb + ?at < 2 ^ 64" "{rb + ?at..<rb + ?at + 24} \<subseteq> rreg"
    using seg_fits [OF k(1), of 0] seg_region(2) [OF k(1), of 0 24] by simp_all
  obtain s1 w1 where w1: "rd_read V cfg ?at h 24 s w = Inr (s1, w1)" "reader_on (cfg_RDMA_MAX_WR cfg) p cq lkey rkey rb s1"
    "ready (rd_client s1) w1" "rmem w1 = rmem w" "lmem w1 = mem_write (lmem w) h (mem_read (rmem w) (rb + ?at) 24)"
    using rd_read_ok [OF assms(1,2) _ r1(1) hdr_mem r1(2)] by auto
  have l1: "lmem w1 = put_header (lmem w) h ?hd" using w1(5) by (simp add: put_header_def header_bytes_get)
  have at: "add64 ?at 24 = ?at + 24" using seg_fits [OF k(1), of 24] by (simp add: add64_small)
  have r2: "rb + (?at + 24) < 2 ^ 64" "{rb + (?at + 24)..<rb + (?at + 24) + n} \<subseteq> rreg" "n < 2 ^ 32"
    using seg_fits [OF k(1), of 24] seg_region(2) [OF k(1), of 24 n] n assms(5) by simp_all
  obtain s2 w2 where w2: "rd_read V cfg (?at + 24) (data + x) n s1 w1 = Inr (s2, w2)"
    "reader_on (cfg_RDMA_MAX_WR cfg) p cq lkey rkey rb s2" "ready (rd_client s2) w2" "rmem w2 = rmem w1"
    "lmem w2 = mem_write (lmem w1) (data + x) (mem_read (rmem w1) (rb + (?at + 24)) n)"
    using rd_read_ok [OF w1(2,3) r2(3) r2(1) assms(7)] r2(2) w1(4) by auto
  have h2: "get_header (lmem w2) h = ?hd"
    using assms(8) l1 by (auto simp: w2(5) get_header_write_disjoint)
  have "add64 x n = x + n" using assms(9) by (simp add: add64_small)
  then have "reader_step V cfg False data h (fin, ?at, x, s, w) = Inr (j = k, seg_at e (S + 24) (Suc j mod cnt), x + n, s2, w2)"
    using w1(1) w2(1) h2 hd l1 at by (simp add: reader_step_def Let_def)
  then show ?thesis using w1(4) w2 l1 by (auto simp: payload_def ac_simps)
qed

text \<open>A whole ring: the loop stops at the end segment and the data area holds the stream.\<close>

lemma reader_loop_ok:
  assumes "reader_on (cfg_RDMA_MAX_WR cfg) p cq lkey rkey rb s" "ready (rd_client s) w"
    and "ring_closed (rmem w) rb e cnt S k u D" "j \<le> k" "S < 2 ^ 32" "x = off + j * S"
    and "{data + off..<data + off + length D} \<subseteq> lreg" "h + 24 \<le> data \<or> data + off + length D \<le> h"
    and "data + off + length D < 2 ^ 64"
  shows "\<exists>s' w' c. bindR (reader_step V cfg False data h (fin, seg_at e (S + 24) j, x, s, w))
        (loopR (\<lambda>(fin, _). \<not> fin) (reader_step V cfg False data h)) = Inr (True, c, off + length D, s', w') \<and>
    reader_on (cfg_RDMA_MAX_WR cfg) p cq lkey rkey rb s' \<and> ready (rd_client s') w' \<and> rmem w' = rmem w \<and>
    mem_read (lmem w') (data + x) (length D - j * S) =
      concat (map (\<lambda>i. payload (rmem w) rb e S i S) [j..<k]) @ payload (rmem w) rb e S k u \<and>
    (\<forall>a. a \<notin> {h..<h + 24} \<and> a \<notin> {data + x..<data + off + length D} \<longrightarrow> lmem w' a = lmem w a)"
  using assms(1-6)
proof (induction "k - j" arbitrary: j x fin s w)
  case 0
  then have j: "j = k" by simp
  have D: "length D = k * S + u" using 0(4) ring_data_length by (auto simp: ring_closed_def)
  have reg: "{data + x..<data + x + u} \<subseteq> {data + off..<data + off + length D}" using 0(7) j D by auto
  have "\<exists>s' w'. reader_step V cfg False data h (fin, seg_at e (S + 24) j, x, s, w) =
      Inr (j = k, seg_at e (S + 24) (Suc j mod cnt), x + u, s', w') \<and>
    reader_on (cfg_RDMA_MAX_WR cfg) p cq lkey rkey rb s' \<and> ready (rd_client s') w' \<and> rmem w' = rmem w \<and>
    lmem w' = mem_write (put_header (lmem w) h (get_header (rmem w) (rb + seg_at e (S + 24) j)))
      (data + x) (payload (rmem w) rb e S j u)"
    using 0 j D reg assms(7-9) by (intro reader_step_ok) auto
  then obtain s1 w1 where w1: "reader_step V cfg False data h (fin, seg_at e (S + 24) j, x, s, w) =
      Inr (True, seg_at e (S + 24) (Suc j mod cnt), off + length D, s1, w1)"
    "reader_on (cfg_RDMA_MAX_WR cfg) p cq lkey rkey rb s1" "ready (rd_client s1) w1" "rmem w1 = rmem w"
    "lmem w1 = mem_write (put_header (lmem w) h (get_header (rmem w) (rb + seg_at e (S + 24) j))) (data + x) (payload (rmem w) rb e S j u)"
    using 0(7) j D by auto
  show ?case using w1 j D 0(7) by (auto simp: loopR_unfold mem_write_outside put_header_outside)
next
  case (Suc n)
  then have j: "j < k" by simp
  have D: "length D = k * S + u" using Suc(5) ring_data_length by (auto simp: ring_closed_def)
  have jk: "j * S + S \<le> k * S" using mult_le_mono1 [of "Suc j" k S] j by simp
  have "\<exists>s' w'. reader_step V cfg False data h (fin, seg_at e (S + 24) j, x, s, w) =
      Inr (j = k, seg_at e (S + 24) (Suc j mod cnt), x + S, s', w') \<and>
    reader_on (cfg_RDMA_MAX_WR cfg) p cq lkey rkey rb s' \<and> ready (rd_client s') w' \<and> rmem w' = rmem w \<and>
    lmem w' = mem_write (put_header (lmem w) h (get_header (rmem w) (rb + seg_at e (S + 24) j)))
      (data + x) (payload (rmem w) rb e S j S)"
  proof (rule reader_step_ok [OF Suc.prems(1-5)])
    have "{data + x..<data + x + S} \<subseteq> {data + off..<data + off + length D}" using Suc.prems(6) jk D by auto
    then show "{data + x..<data + x + S} \<subseteq> lreg" using assms(7) by blast
  qed (use j jk D Suc.prems(6) assms(8,9) in auto)
  moreover have "Suc j mod cnt = Suc j" using j Suc.prems(3) by (auto simp: ring_closed_def ring_data_def)
  ultimately obtain s1 w1 where w1: "reader_step V cfg False data h (fin, seg_at e (S + 24) j, x, s, w) =
      Inr (False, seg_at e (S + 24) (Suc j), x + S, s1, w1)"
    "reader_on (cfg_RDMA_MAX_WR cfg) p cq lkey rkey rb s1" "ready (rd_client s1) w1" "rmem w1 = rmem w"
    "lmem w1 = mem_write (put_header (lmem w) h (get_header (rmem w) (rb + seg_at e (S + 24) j))) (data + x) (payload (rmem w) rb e S j S)"
    using j by auto
  have "n = k - Suc j" "Suc j \<le> k" "x + S = off + Suc j * S" "ring_closed (rmem w1) rb e cnt S k u D"
    using Suc(2) j Suc.prems(3,6) w1(4) by auto
  note IH = Suc.hyps(1) [OF this(1) w1(2,3) this(4,2) Suc.prems(5) this(3), of False, unfolded w1(4)]
  from IH obtain s2 w2 c where w2: "bindR (reader_step V cfg False data h (False, seg_at e (S + 24) (Suc j), x + S, s1, w1))
        (loopR (\<lambda>(fin, _). \<not> fin) (reader_step V cfg False data h)) = Inr (True, c, off + length D, s2, w2)"
    "reader_on (cfg_RDMA_MAX_WR cfg) p cq lkey rkey rb s2" "ready (rd_client s2) w2" "rmem w2 = rmem w"
    "mem_read (lmem w2) (data + (x + S)) (length D - Suc j * S) =
      concat (map (\<lambda>i. payload (rmem w) rb e S i S) [Suc j..<k]) @ payload (rmem w) rb e S k u"
    "\<forall>a. a \<notin> {h..<h + 24} \<and> a \<notin> {data + (x + S)..<data + off + length D} \<longrightarrow> lmem w2 a = lmem w1 a"
    by blast
  have out: "a \<notin> {h..<h + 24}" if "a \<in> {data + x..<data + x + S}" for a
    using that assms(8) D jk Suc.prems(6) by auto
  have "mem_read (lmem w2) (data + x) S = mem_read (lmem w1) (data + x) S"
    using w2(6) out by (intro mem_read_cong) auto
  also have "\<dots> = payload (rmem w) rb e S j S" by (simp add: w1(5))
  finally have first: "mem_read (lmem w2) (data + x) S = payload (rmem w) rb e S j S" .
  have len: "length D - j * S = S + (length D - Suc j * S)" using D jk by simp
  have whole: "mem_read (lmem w2) (data + x) (length D - j * S) =
      concat (map (\<lambda>i. payload (rmem w) rb e S i S) [j..<k]) @ payload (rmem w) rb e S k u"
    unfolding len mem_read_append first using w2(5) j by (simp add: upt_conv_Cons add.assoc)
  have frame: "lmem w2 a = lmem w a" if "a \<notin> {h..<h + 24}" "a \<notin> {data + x..<data + off + length D}" for a
  proof -
    have "lmem w2 a = lmem w1 a" using w2(6) that by auto
    also have "\<dots> = lmem w a"
      using that Suc.prems(6) D jk by (auto simp: w1(5) mem_write_outside put_header_outside)
    finally show ?thesis .
  qed
  have "loopR (\<lambda>(fin, _). \<not> fin) (reader_step V cfg False data h) (False, seg_at e (S + 24) (Suc j), x + S, s1, w1) =
      Inr (True, c, off + length D, s2, w2)"
    using w2(1) by (subst loopR_unfold) simp
  then show ?case using w1(1) w2(2-4) whole frame by auto
qed

lemma reader_ring_ok:
  assumes "reader_on (cfg_RDMA_MAX_WR cfg) p cq lkey rkey rb s" "ready (rd_client s) w"
    and "ring_closed (rmem w) rb e cnt S k u D" "S < 2 ^ 32"
    and "{data + off..<data + off + length D} \<subseteq> lreg" "h + 24 \<le> data \<or> data + off + length D \<le> h"
    and "data + off + length D < 2 ^ 64"
  shows "\<exists>s' w'. reader_ring V cfg False data h e off s w = Inr (off + length D, s', w') \<and>
    reader_on (cfg_RDMA_MAX_WR cfg) p cq lkey rkey rb s' \<and> ready (rd_client s') w' \<and> rmem w' = rmem w \<and>
    mem_read (lmem w') (data + off) (length D) = D \<and>
    (\<forall>a. a \<notin> {h..<h + 24} \<and> a \<notin> {data + off..<data + off + length D} \<longrightarrow> lmem w' a = lmem w a)"
proof -
  have D: "concat (map (\<lambda>i. payload (rmem w) rb e S i S) [0..<k]) @ payload (rmem w) rb e S k u = D"
    using assms(3) by (simp add: ring_closed_def ring_data_def)
  have start: "off = off + 0 * S" "seg_at e (S + 24) 0 = e" by (simp_all add: seg_at_def)
  note L = reader_loop_ok [OF assms(1-3) le0 assms(4) start(1) assms(5-7), of False, unfolded start(2) D]
  then obtain s' w' c where r: "bindR (reader_step V cfg False data h (False, e, off, s, w))
        (loopR (\<lambda>(fin, _). \<not> fin) (reader_step V cfg False data h)) = Inr (True, c, off + length D, s', w')"
    "reader_on (cfg_RDMA_MAX_WR cfg) p cq lkey rkey rb s'" "ready (rd_client s') w'" "rmem w' = rmem w"
    "mem_read (lmem w') (data + off) (length D - 0 * S) = D"
    "\<forall>a. a \<notin> {h..<h + 24} \<and> a \<notin> {data + off..<data + off + length D} \<longrightarrow> lmem w' a = lmem w a"
    by blast
  have "reader_ring V cfg False data h e off s w = Inr (off + length D, s', w')"
    using r(1) unfolding reader_ring_def bindR_assoc [symmetric] by simp
  then show ?thesis using r(2-6) by auto
qed

end

text \<open>All rings of a buffer, one after the other.\<close>

lemma reader_rings_ok:
  assumes "\<forall>(seg, D) \<in> set rs. ring_link V p cq lkey rkey lreg rreg slots up rmem due busy posted pend rank cfg rb (seg_offset seg) cnt S h \<and>
      (\<exists>k u. ring_closed (rmem w) rb (seg_offset seg) cnt S k u D)"
    and "reader_on (cfg_RDMA_MAX_WR cfg) p cq lkey rkey rb s" "up w" "\<not> pend w" "posted w \<le> cl_countWR (rd_client s)"
    and "S < 2 ^ 32" "{data + off..<data + off + length (concat (map snd rs))} \<subseteq> lreg"
    and "h + 24 \<le> data \<or> data + off + length (concat (map snd rs)) \<le> h"
    and "data + off + length (concat (map snd rs)) < 2 ^ 64"
  shows "\<exists>s' w'. reader_rings V cfg False data h (map fst rs) off s w = Inr (off + length (concat (map snd rs)), s', w') \<and>
    rmem w' = rmem w \<and> mem_read (lmem w') (data + off) (length (concat (map snd rs))) = concat (map snd rs) \<and>
    (\<forall>a. a \<notin> {h..<h + 24} \<and> a \<notin> {data + off..<data + off + length (concat (map snd rs))} \<longrightarrow> lmem w' a = lmem w a)"
  using assms
proof (induction rs arbitrary: off s w)
  case (Cons r rs)
  obtain seg D where r: "r = (seg, D)" by (cases r)
  let ?E = "concat (map snd rs)"
  have R: "ring_link V p cq lkey rkey lreg rreg slots up rmem due busy posted pend rank cfg rb (seg_offset seg) cnt S h"
    using Cons.prems(1) by (simp add: r)
  have ready: "rc_fabric.ready up posted pend c t \<longleftrightarrow> up t \<and> \<not> pend t \<and> posted t \<le> cl_countWR c" for c t
    by (rule rc_fabric.ready_def [OF ring_link.axioms(1) [OF R]])
  obtain k u where ring: "ring_closed (rmem w) rb (seg_offset seg) cnt S k u D" using Cons.prems(1) by (auto simp: r)
  have reg: "{data + off..<data + off + length D} \<subseteq> lreg"
    "{data + (off + length D)..<data + (off + length D) + length ?E} \<subseteq> lreg"
    using Cons.prems(7) by (auto simp: r subset_eq)
  have fit: "h + 24 \<le> data \<or> data + off + length D \<le> h" "data + off + length D < 2 ^ 64"
    "h + 24 \<le> data \<or> data + (off + length D) + length ?E \<le> h" "data + (off + length D) + length ?E < 2 ^ 64"
    using Cons.prems(8,9) by (auto simp: r)
  have "rc_fabric.ready up posted pend (rd_client s) w" using Cons.prems(3-5) by (simp add: ready)
  from ring_link.reader_ring_ok [OF R Cons.prems(2) this ring Cons.prems(6) reg(1) fit(1,2)]
  obtain s1 w1 where w1: "reader_ring V cfg False data h (seg_offset seg) off s w = Inr (off + length D, s1, w1)"
    "reader_on (cfg_RDMA_MAX_WR cfg) p cq lkey rkey rb s1" "rc_fabric.ready up posted pend (rd_client s1) w1"
    "rmem w1 = rmem w" "mem_read (lmem w1) (data + off) (length D) = D"
    "\<forall>a. a \<notin> {h..<h + 24} \<and> a \<notin> {data + off..<data + off + length D} \<longrightarrow> lmem w1 a = lmem w a"
    by blast
  have rest: "\<forall>(seg, D) \<in> set rs. ring_link V p cq lkey rkey lreg rreg slots up rmem due busy posted pend rank cfg rb (seg_offset seg) cnt S h \<and>
      (\<exists>k u. ring_closed (rmem w1) rb (seg_offset seg) cnt S k u D)"
    using Cons.prems(1) w1(4) by simp
  have w1r: "up w1" "\<not> pend w1" "posted w1 \<le> cl_countWR (rd_client s1)" using w1(3) by (simp_all add: ready)
  obtain s2 w2 where w2: "reader_rings V cfg False data h (map fst rs) (off + length D) s1 w1 =
      Inr (off + length D + length ?E, s2, w2)" "rmem w2 = rmem w1"
    "mem_read (lmem w2) (data + (off + length D)) (length ?E) = ?E"
    "\<forall>a. a \<notin> {h..<h + 24} \<and> a \<notin> {data + (off + length D)..<data + (off + length D) + length ?E} \<longrightarrow> lmem w2 a = lmem w1 a"
    using Cons.IH [OF rest w1(2) w1r Cons.prems(6) reg(2) fit(3,4)] by blast
  have "mem_read (lmem w2) (data + off) (length D) = mem_read (lmem w1) (data + off) (length D)"
    using w2(4) fit(1) by (intro mem_read_cong) auto
  then have "mem_read (lmem w2) (data + off) (length D + length ?E) = D @ ?E"
    using w1(5) w2(3) by (simp add: mem_read_append add.assoc)
  moreover have "lmem w2 a = lmem w a"
    if "a \<notin> {h..<h + 24}" "a \<notin> {data + off..<data + off + (length D + length ?E)}" for a
    using w1(6) w2(4) that by auto
  ultimately show ?case using w1(1,4) w2(1,2) by (auto simp: r add.assoc)
qed simp

section \<open>Properties\<close>

text \<open>
  Claim C16. \<open>BufferReader\<close> returns the contents of the buffer: over a reliable connection, the loops over all
  rings of a buffer, each closed by its writer, end without error, report the total length of the streams and
  leave exactly the concatenation of the streams, in the order of the rings, in the data area; no other local
  byte except the header changes.
\<close>

theorem reader_returns_streams:
  assumes "\<forall>(seg, D) \<in> set rs. ring_link V p cq lkey rkey lreg rreg slots up rmem due busy posted pend rank cfg rb (seg_offset seg) cnt S h \<and>
      (\<exists>k u. ring_closed (rmem w) rb (seg_offset seg) cnt S k u D)"
    and "client_on (cfg_RDMA_MAX_WR cfg) (bh_node_id (rd_handle s)) p cq lkey rkey rb (rd_client s)"
    and "up w" and "\<not> pend w" and "posted w \<le> cl_countWR (rd_client s)"
    and "S < 2 ^ 32" and "tot = length (concat (map snd rs))" and "{data..<data + tot} \<subseteq> lreg"
    and "h + 24 \<le> data \<or> data + tot \<le> h" and "data + tot < 2 ^ 64"
  shows "\<exists>s' w'. reader_rings V cfg False data h (map fst rs) 0 s w = Inr (tot, s', w') \<and> rmem w' = rmem w \<and>
    mem_read (lmem w') data tot = concat (map snd rs) \<and>
    (\<forall>a. a \<notin> {h..<h + 24} \<and> a \<notin> {data..<data + tot} \<longrightarrow> lmem w' a = lmem w a)"
  using reader_rings_ok [of rs V p cq lkey rkey lreg rreg slots up rmem due busy posted pend rank cfg rb cnt S h w s data 0]
    assms by (simp add: reader_on_def)

section \<open>A closed ring\<close>

text \<open>One full segment and three bytes in the last one.\<close>

definition sample_ring :: mem where
  "sample_ring =
     (let r1 = mem_write (write_ring 65536 64 4 40 (\<lambda>_. 0)) (65536 + seg_at 64 40 0 + 24) (replicate 16 1);
          h1 = get_header r1 (65536 + seg_at 64 40 0);
          r2 = put_header r1 (65536 + seg_at 64 40 0) ((setWriteable False (setConsumable True h1))\<lparr>counter := 16\<rparr>);
          r3 = mem_write r2 (65536 + seg_at 64 40 1 + 24) [2, 3, 4];
          h3 = get_header r3 (65536 + seg_at 64 40 1)
      in put_header r3 (65536 + seg_at 64 40 1)
           (markEndSegment True (setConsumable True (setWriteable False (h3\<lparr>counter := 3\<rparr>)))))"

lemma sample_ring_closed: "ring_closed sample_ring 65536 64 4 16 1 3 (replicate 16 1 @ [2, 3, 4])"
proof -
  let ?r0 = "write_ring 65536 64 4 40 (\<lambda>_. 0)"
  let ?r1 = "mem_write ?r0 (65536 + seg_at 64 40 0 + 24) (replicate 16 1)"
  let ?h1 = "get_header ?r1 (65536 + seg_at 64 40 0)"
  let ?p1 = "(setWriteable False (setConsumable True ?h1))\<lparr>counter := 16\<rparr>"
  let ?r2 = "put_header ?r1 (65536 + seg_at 64 40 0) ?p1"
  let ?r3 = "mem_write ?r2 (65536 + seg_at 64 40 1 + 24) [2, 3, 4]"
  let ?h3 = "get_header ?r3 (65536 + seg_at 64 40 1)"
  let ?p3 = "markEndSegment True (setConsumable True (setWriteable False (?h3\<lparr>counter := 3\<rparr>)))"
  have ok: "header_ok (h\<lparr>counter := n\<rparr>)" if "header_ok h" "n < 100" for h n using that by (simp add: header_ok_def)
  have "ring_open ?r0 65536 64 4 16 0 0 []"
    using write_ring_correct(1) [of 4 40 64 65536 "\<lambda>_. 0"] by (intro fresh_ring_open) (simp_all add: seg_at_def)
  from ring_open_write [OF this, of "replicate 16 1"] have o1: "ring_open ?r1 65536 64 4 16 0 16 (replicate 16 1)" by simp
  then have f1: "fresh_header ?h1" by (simp add: ring_open_def)
  have "header_ok ?p1" by (simp add: ok)
  moreover have "full_header 16 ?p1" using f1 by (simp add: full_header_def fresh_header_def)
  ultimately have "ring_open ?r2 65536 64 4 16 (Suc 0) 0 (replicate 16 1)"
    using ring_open_publish [OF o1, of ?p1] by simp
  from ring_open_write [OF this, of "[2, 3, 4]"] have o3: "ring_open ?r3 65536 64 4 16 1 3 (replicate 16 1 @ [2, 3, 4])" by (simp add: numeral_3_eq_3)
  have "header_ok ?p3" by (simp add: ok)
  moreover have "last_header 3 ?p3" by (simp add: last_header_def)
  ultimately have "ring_closed (put_header ?r3 (65536 + seg_at 64 40 1) ?p3) 65536 64 4 16 1 3 (replicate 16 1 @ [2, 3, 4])"
    using ring_open_close [OF o3, of ?p3] by simp
  then show ?thesis by (simp add: sample_ring_def Let_def)
qed

definition sample_world :: "fab world" where
  "sample_world = \<lparr>lmem = (\<lambda>_. 0), dev = \<lparr>fab_mem = sample_ring, fab_queue = [], fab_delay = 0\<rparr>\<rparr>"

definition sample_reader :: buffer_reader where
  "sample_reader = \<lparr>rd_handle = newBufferHandle ''b'' 1 4 1 16 BW, rd_client = fab_client\<rparr>"

theorem reader_returns_streams_witness:
  "\<exists>s' w'. reader_rings fab_verbs fab_config False 5000 4096 [\<lparr>seg_offset = 64, seg_size = 16\<rparr>] 0 sample_reader sample_world =
      Inr (19, s', w') \<and> mem_read (lmem w') 5000 19 = replicate 16 1 @ [2, 3, 4]"
proof -
  have w: "fab_up sample_world" "\<not> fab_pend sample_world" "fab_posted sample_world = 0" "fab_rmem sample_world = sample_ring"
    by (simp_all add: sample_world_def fab_up_def fab_pend_def fab_posted_def fab_rmem_def fab_flush_def)
  have s: "client_on (cfg_RDMA_MAX_WR fab_config) (bh_node_id (rd_handle sample_reader)) fab_qp 3 1 2 65536 (rd_client sample_reader)"
    using fab_client_on by (simp add: sample_reader_def newBufferHandle_def)
  have "\<forall>(seg, D) \<in> set [(\<lparr>seg_offset = 64, seg_size = 16\<rparr>, replicate 16 1 @ [2, 3, 4])].
      ring_link fab_verbs fab_qp 3 1 2 fab_lreg fab_rreg fab_slots fab_up fab_rmem fab_due fab_busy fab_posted fab_pend
        (\<lambda>w. fab_delay (dev w)) fab_config 65536 (seg_offset seg) 4 16 4096 \<and>
      (\<exists>k u. ring_closed (fab_rmem sample_world) 65536 (seg_offset seg) 4 16 k u D)"
    using fab_stream.ring_link_axioms sample_ring_closed w(4) by auto
  from reader_returns_streams [OF this s w(1,2), of 19 5000] w(3) show ?thesis
    by (auto simp: fab_lreg_def)
qed

end
