(* ===== verification/Channel_Spec.thy ===== *)
theory Channel_Spec
  imports DPI_Prelude "HOL-Library.Sublist"
begin

text \<open>
  What a ring of segments promises: a bounded first-in first-out channel of byte blocks between one writer
  and one consumer. The abstract machine has one turn for either side; its lemmas say that nothing is lost,
  duplicated or reordered, that a turn which changes nothing leaves the other side able to go on, and that a
  schedule which lets both sides run delivers everything. The locale is the interface an implementation
  has to meet.
\<close>

section \<open>The channel\<close>

datatype writer_phase = Filling | Waiting | Done

text \<open>
  \<open>ff_cur\<close> is the block being filled, \<open>ff_queue\<close> the blocks published and not yet handed out, \<open>ff_held\<close> the one
  in the consumer's hands and \<open>ff_out\<close> what the consumer has finished with.
\<close>

record fifo =
  ff_phase :: writer_phase
  ff_todo :: "byte list list"
  ff_cur :: "byte list"
  ff_queue :: "byte list list"
  ff_held :: "byte list option"
  ff_out :: "byte list"
  ff_over :: bool

definition blocks :: "fifo \<Rightarrow> byte list list" where
  "blocks f = (case ff_held f of None \<Rightarrow> [] | Some x \<Rightarrow> [x]) @ ff_queue f"

definition fifo_start :: "byte list list \<Rightarrow> fifo" where
  "fifo_start chunks = \<lparr>ff_phase = Filling, ff_todo = chunks, ff_cur = [], ff_queue = [], ff_held = None,
     ff_out = [], ff_over = False\<rparr>"

text \<open>The writer fills blocks of \<open>S\<close> bytes and waits while all \<open>cnt\<close> places are taken.\<close>

definition fifo_writer :: "nat \<Rightarrow> nat \<Rightarrow> fifo \<Rightarrow> fifo" where
  "fifo_writer cnt S f =
     (case ff_phase f of Done \<Rightarrow> f
      | Waiting \<Rightarrow> if length (blocks f) < cnt then f\<lparr>ff_phase := Filling\<rparr> else f
      | Filling \<Rightarrow>
          (case ff_todo f of
             [] \<Rightarrow> f\<lparr>ff_phase := Done, ff_queue := ff_queue f @ [ff_cur f], ff_cur := []\<rparr>
           | ch # rest \<Rightarrow>
               if length (ff_cur f) + length ch \<le> S then f\<lparr>ff_cur := ff_cur f @ ch, ff_todo := rest\<rparr>
               else if length (ff_cur f) < S
               then let n = S - length (ff_cur f) in
                 f\<lparr>ff_cur := ff_cur f @ take n ch, ff_todo := drop n ch # rest\<rparr>
               else f\<lparr>ff_phase := Waiting, ff_queue := ff_queue f @ [ff_cur f], ff_cur := []\<rparr>))"

text \<open>The consumer takes the next block, which ends its use of the one before.\<close>

definition fifo_consumer :: "fifo \<Rightarrow> fifo" where
  "fifo_consumer f =
     (if ff_over f then f
      else let used = (case ff_held f of None \<Rightarrow> [] | Some x \<Rightarrow> x) in
        case ff_queue f of
          x # xs \<Rightarrow> f\<lparr>ff_out := ff_out f @ used, ff_held := Some x, ff_queue := xs\<rparr>
        | [] \<Rightarrow> if ff_phase f = Done then f\<lparr>ff_out := ff_out f @ used, ff_held := None, ff_over := True\<rparr> else f)"

definition fifo_turn :: "nat \<Rightarrow> nat \<Rightarrow> bool \<Rightarrow> fifo \<Rightarrow> fifo" where
  "fifo_turn cnt S writer f = (if writer then fifo_writer cnt S f else fifo_consumer f)"

fun fifo_run :: "nat \<Rightarrow> nat \<Rightarrow> (nat \<Rightarrow> bool) \<Rightarrow> nat \<Rightarrow> fifo \<Rightarrow> fifo" where
  "fifo_run cnt S sched 0 f = f"
| "fifo_run cnt S sched (Suc n) f = fifo_turn cnt S (sched n) (fifo_run cnt S sched n f)"

text \<open>A schedule that lets both sides run again and again.\<close>

definition fair :: "(nat \<Rightarrow> bool) \<Rightarrow> bool" where
  "fair sched \<longleftrightarrow> (\<forall>n side. \<exists>m \<ge> n. sched m = side)"

section \<open>Nothing is lost\<close>

definition fifo_stream :: "fifo \<Rightarrow> byte list" where
  "fifo_stream f = ff_out f @ concat (blocks f) @ ff_cur f @ concat (ff_todo f)"

definition fifo_ok :: "nat \<Rightarrow> nat \<Rightarrow> fifo \<Rightarrow> bool" where
  "fifo_ok cnt S f \<longleftrightarrow>
     length (ff_cur f) \<le> S \<and> length (blocks f) \<le> cnt \<and>
     (ff_phase f = Filling \<longrightarrow> length (blocks f) < cnt) \<and> (ff_phase f \<noteq> Filling \<longrightarrow> ff_cur f = []) \<and>
     (ff_phase f = Waiting \<longrightarrow> concat (ff_todo f) \<noteq> []) \<and>
     (ff_phase f = Done \<longrightarrow> ff_todo f = [] \<and> (blocks f \<noteq> [] \<or> ff_over f)) \<and>
     (ff_over f \<longrightarrow> ff_phase f = Done \<and> blocks f = [])"

lemmas fifo_defs = fifo_writer_def fifo_consumer_def blocks_def

lemma fifo_start_ok: "0 < cnt \<Longrightarrow> fifo_ok cnt S (fifo_start chunks)"
  by (simp add: fifo_ok_def fifo_start_def blocks_def)

lemma fifo_start_stream [simp]: "fifo_stream (fifo_start chunks) = concat chunks"
  by (simp add: fifo_stream_def fifo_start_def blocks_def)

text \<open>What a turn of the writer can be.\<close>

lemma fifo_writer_cases [consumes 1, case_names idle resume finish whole part publish]:
  assumes "fifo_ok cnt S f"
  obtains (idle) "fifo_writer cnt S f = f"
  | (resume) "fifo_writer cnt S f = f\<lparr>ff_phase := Filling\<rparr>" "ff_phase f = Waiting" "length (blocks f) < cnt"
  | (finish) "fifo_writer cnt S f = f\<lparr>ff_phase := Done, ff_queue := ff_queue f @ [ff_cur f], ff_cur := []\<rparr>"
      "ff_phase f = Filling" "ff_todo f = []"
  | (whole) ch rest where "fifo_writer cnt S f = f\<lparr>ff_cur := ff_cur f @ ch, ff_todo := rest\<rparr>"
      "ff_phase f = Filling" "ff_todo f = ch # rest" "length (ff_cur f) + length ch \<le> S"
  | (part) ch rest n where "fifo_writer cnt S f = f\<lparr>ff_cur := ff_cur f @ take n ch, ff_todo := drop n ch # rest\<rparr>"
      "ff_phase f = Filling" "ff_todo f = ch # rest" "0 < n" "n < length ch" "length (ff_cur f) + n = S"
  | (publish) "fifo_writer cnt S f = f\<lparr>ff_phase := Waiting, ff_queue := ff_queue f @ [ff_cur f], ff_cur := []\<rparr>"
      "ff_phase f = Filling" "concat (ff_todo f) \<noteq> []" "S \<le> length (ff_cur f)"
proof (cases "ff_phase f")
  case Filling
  show thesis
  proof (cases "ff_todo f")
    case Nil
    then show thesis using Filling by (intro finish) (simp_all add: fifo_writer_def)
  next
    case (Cons ch rest)
    consider "length (ff_cur f) + length ch \<le> S"
      | "S < length (ff_cur f) + length ch" "length (ff_cur f) < S"
      | "S < length (ff_cur f) + length ch" "S \<le> length (ff_cur f)" by linarith
    then show thesis
    proof cases
      case 1
      then show thesis using Filling Cons by (intro whole) (simp_all add: fifo_writer_def)
    next
      case 2
      then show thesis using Filling Cons
        by (intro part [of "S - length (ff_cur f)" ch rest]) (auto simp: fifo_writer_def Let_def)
    next
      case 3
      then have "ch \<noteq> []" using assms by (auto simp: fifo_ok_def)
      with 3 show thesis using Filling Cons by (intro publish) (simp_all add: fifo_writer_def)
    qed
  qed
next
  case Waiting
  then show thesis using idle resume by (cases "length (blocks f) < cnt") (simp_all add: fifo_writer_def)
next
  case Done
  then show thesis by (intro idle) (simp add: fifo_writer_def)
qed

lemma blocks_upd [simp]:
  "blocks (f\<lparr>ff_phase := p\<rparr>) = blocks f" "blocks (f\<lparr>ff_cur := c\<rparr>) = blocks f" "blocks (f\<lparr>ff_todo := t\<rparr>) = blocks f"
  "blocks (f\<lparr>ff_queue := ff_queue f @ q\<rparr>) = blocks f @ q"
  "blocks (f\<lparr>ff_phase := p, ff_queue := ff_queue f @ q\<rparr>) = blocks f @ q"
  by (simp_all add: blocks_def)

lemma fifo_writer_ok:
  assumes "fifo_ok cnt S f"
  shows "fifo_ok cnt S (fifo_writer cnt S f)" "fifo_stream (fifo_writer cnt S f) = fifo_stream f"
proof -
  have "fifo_ok cnt S (fifo_writer cnt S f) \<and> fifo_stream (fifo_writer cnt S f) = fifo_stream f"
    using assms
  proof (cases rule: fifo_writer_cases)
    case idle
    with assms show ?thesis by simp
  next
    case resume
    then show ?thesis using assms unfolding resume(1) by (simp add: fifo_ok_def fifo_stream_def)
  next
    case finish
    then show ?thesis using assms unfolding finish(1) by (auto simp add: fifo_ok_def fifo_stream_def)
  next
    case whole
    then show ?thesis using assms unfolding whole(1) by (simp add: fifo_ok_def fifo_stream_def)
  next
    case part
    then show ?thesis using assms unfolding part(1) by (simp add: fifo_ok_def fifo_stream_def)
  next
    case publish
    then show ?thesis using assms unfolding publish(1) by (simp add: fifo_ok_def fifo_stream_def)
  qed
  then show "fifo_ok cnt S (fifo_writer cnt S f)" "fifo_stream (fifo_writer cnt S f) = fifo_stream f" by blast+
qed

text \<open>What a turn of the consumer can be.\<close>

lemma fifo_consumer_cases:
  obtains (idle) "fifo_consumer f = f" "ff_over f \<or> ff_queue f = [] \<and> ff_phase f \<noteq> Done"
  | (first) x xs where "fifo_consumer f = f\<lparr>ff_held := Some x, ff_queue := xs\<rparr>"
      "\<not> ff_over f" "ff_held f = None" "ff_queue f = x # xs"
  | (further) y x xs where "fifo_consumer f = f\<lparr>ff_out := ff_out f @ y, ff_held := Some x, ff_queue := xs\<rparr>"
      "\<not> ff_over f" "ff_held f = Some y" "ff_queue f = x # xs"
  | (finish) "fifo_consumer f = f\<lparr>ff_out := ff_out f @ concat (blocks f), ff_held := None, ff_over := True\<rparr>"
      "\<not> ff_over f" "ff_phase f = Done" "ff_queue f = []"
proof (cases "ff_over f \<or> ff_queue f = [] \<and> ff_phase f \<noteq> Done")
  case True
  then show thesis by (intro idle) (auto simp: fifo_consumer_def)
next
  case False
  show thesis
  proof (cases "ff_queue f")
    case Nil
    with False show thesis
      by (intro finish) (cases "ff_held f"; simp add: fifo_consumer_def blocks_def)+
  next
    case (Cons x xs)
    show thesis
    proof (cases "ff_held f")
      case None
      then show thesis using False Cons by (intro first) (simp_all add: fifo_consumer_def)
    next
      case (Some y)
      then show thesis using False Cons by (intro further) (simp_all add: fifo_consumer_def)
    qed
  qed
qed

lemma fifo_consumer_ok:
  assumes "fifo_ok cnt S f"
  shows "fifo_ok cnt S (fifo_consumer f)" "fifo_stream (fifo_consumer f) = fifo_stream f"
proof -
  have "fifo_ok cnt S (fifo_consumer f) \<and> fifo_stream (fifo_consumer f) = fifo_stream f"
  proof (cases rule: fifo_consumer_cases [of f])
    case idle
    with assms show ?thesis by simp
  next
    case first
    then show ?thesis using assms unfolding first(1) by (auto simp: fifo_ok_def fifo_stream_def blocks_def)
  next
    case further
    then show ?thesis using assms unfolding further(1) by (auto simp: fifo_ok_def fifo_stream_def blocks_def)
  next
    case finish
    then show ?thesis using assms unfolding finish(1)
      by (cases "ff_held f") (auto simp: fifo_ok_def fifo_stream_def blocks_def)
  qed
  then show "fifo_ok cnt S (fifo_consumer f)" "fifo_stream (fifo_consumer f) = fifo_stream f" by blast+
qed

lemma fifo_turn_ok:
  assumes "fifo_ok cnt S f"
  shows "fifo_ok cnt S (fifo_turn cnt S side f)" "fifo_stream (fifo_turn cnt S side f) = fifo_stream f"
  using fifo_writer_ok [OF assms] fifo_consumer_ok [OF assms] by (auto simp: fifo_turn_def)

lemma fifo_run_ok:
  assumes "fifo_ok cnt S f"
  shows "fifo_ok cnt S (fifo_run cnt S sched n f) \<and> fifo_stream (fifo_run cnt S sched n f) = fifo_stream f"
  by (induction n) (use assms fifo_turn_ok in auto)

lemma fifo_over_stream: "fifo_ok cnt S f \<Longrightarrow> ff_over f \<Longrightarrow> ff_out f = fifo_stream f"
  by (auto simp: fifo_ok_def fifo_stream_def)

section \<open>Every useful turn brings the end nearer\<close>

definition fifo_rank :: "nat \<Rightarrow> fifo \<Rightarrow> nat" where
  "fifo_rank S f =
     2 * (3 * length (concat (ff_todo f)) + length (ff_todo f) +
          (case ff_phase f of Filling \<Rightarrow> if length (ff_cur f) < S then 1 else 3 | Waiting \<Rightarrow> 2 | Done \<Rightarrow> 0)) +
     length (ff_queue f) + (if ff_over f then 0 else 1)"

lemma fifo_rank_start: "fifo_rank S (fifo_start chunks) \<le> 6 * length (concat chunks) + 2 * length chunks + 7"
  by (simp add: fifo_rank_def fifo_start_def)

lemma fifo_writer_rank:
  assumes "0 < S" "fifo_ok cnt S f" "fifo_writer cnt S f \<noteq> f"
  shows "fifo_rank S (fifo_writer cnt S f) < fifo_rank S f"
  using assms(2) by (cases rule: fifo_writer_cases) (use assms in \<open>auto simp: fifo_rank_def fifo_ok_def\<close>)

lemma fifo_consumer_rank: "fifo_consumer f \<noteq> f \<Longrightarrow> fifo_rank S (fifo_consumer f) < fifo_rank S f"
  by (cases rule: fifo_consumer_cases [of f]) (auto simp: fifo_rank_def)

lemma fifo_turn_rank:
  "0 < S \<Longrightarrow> fifo_ok cnt S f \<Longrightarrow> fifo_turn cnt S side f \<noteq> f \<Longrightarrow>
     fifo_rank S (fifo_turn cnt S side f) < fifo_rank S f"
  using fifo_writer_rank fifo_consumer_rank by (auto simp: fifo_turn_def)

text \<open>With at least two places the two sides never wait for each other.\<close>

lemma fifo_no_deadlock:
  assumes "fifo_ok cnt S f" "2 \<le> cnt" "0 < S" "\<not> ff_over f"
  shows "\<exists>side. fifo_turn cnt S side f \<noteq> f"
proof (cases "ff_queue f")
  case (Cons x xs)
  then have "ff_queue (fifo_consumer f) \<noteq> ff_queue f" using assms(4) by (simp add: fifo_consumer_def Let_def)
  then show ?thesis by (intro exI [of _ False]) (auto simp: fifo_turn_def)
next
  case Nil
  show ?thesis
  proof (cases "ff_phase f")
    case Done
    then have "ff_over (fifo_consumer f)" using Nil by (simp add: fifo_consumer_def Let_def)
    then show ?thesis using assms(4) by (intro exI [of _ False]) (auto simp: fifo_turn_def)
  next
    case Waiting
    then have "ff_phase (fifo_writer cnt S f) = Filling"
      using Nil assms(2) by (auto simp: fifo_writer_def blocks_def split: option.splits)
    then show ?thesis using Waiting by (intro exI [of _ True]) (auto simp: fifo_turn_def)
  next
    case Filling
    have "fifo_rank S (fifo_writer cnt S f) \<noteq> fifo_rank S f"
      using assms(1)
    proof (cases rule: fifo_writer_cases)
      case idle
      have "fifo_writer cnt S f \<noteq> f"
      proof (cases "ff_todo f")
        case Nil
        then have "ff_phase (fifo_writer cnt S f) = Done" using Filling by (simp add: fifo_writer_def)
        with Filling show ?thesis by auto
      next
        case (Cons ch rest)
        then have "length (concat (ff_todo (fifo_writer cnt S f))) < length (concat (ff_todo f)) \<or>
            length (ff_todo (fifo_writer cnt S f)) < length (ff_todo f) \<or> ff_phase (fifo_writer cnt S f) = Waiting"
          using Filling by (auto simp: fifo_writer_def Let_def)
        with Filling show ?thesis by auto
      qed
      with idle show ?thesis by simp
    qed (use assms(1,3) in \<open>auto simp: fifo_rank_def fifo_ok_def\<close>)
    then show ?thesis by (intro exI [of _ True]) (auto simp: fifo_turn_def)
  qed
qed

section \<open>Every fair schedule delivers everything\<close>

lemma fifo_run_add:
  "fifo_run cnt S sched (n + k) f = fifo_run cnt S (\<lambda>i. sched (n + i)) k (fifo_run cnt S sched n f)"
  by (induction k) auto

lemma fair_shift: "fair sched \<Longrightarrow> fair (\<lambda>i. sched (n + i))"
  unfolding fair_def
proof (intro allI)
  fix m side
  assume "\<forall>n side. \<exists>m\<ge>n. sched m = side"
  then obtain k where "n + m \<le> k" "sched k = side" by blast
  then show "\<exists>k\<ge>m. sched (n + k) = side" by (intro exI [of _ "k - n"]) auto
qed

lemma fifo_progress:
  assumes "fifo_ok cnt S f" "2 \<le> cnt" "0 < S" "\<not> ff_over f" "fair sched"
  shows "\<exists>n. fifo_rank S (fifo_run cnt S sched n f) < fifo_rank S f"
proof (rule ccontr)
  assume none: "\<not> ?thesis"
  have same: "fifo_run cnt S sched n f = f" for n
  proof (induction n)
    case (Suc n)
    show ?case
    proof (rule ccontr)
      assume "fifo_run cnt S sched (Suc n) f \<noteq> f"
      then have "fifo_rank S (fifo_run cnt S sched (Suc n) f) < fifo_rank S f"
        using Suc fifo_turn_rank [OF assms(3,1)] by simp
      with none show False by blast
    qed
  qed simp
  obtain side where "fifo_turn cnt S side f \<noteq> f" using fifo_no_deadlock [OF assms(1-4)] by blast
  moreover obtain m where "sched m = side" using assms(5) unfolding fair_def by blast
  ultimately show False using same [of m] same [of "Suc m"] by simp
qed

lemma fifo_delivers:
  assumes "fifo_ok cnt S f" "2 \<le> cnt" "0 < S" "fair sched"
  shows "\<exists>n. ff_over (fifo_run cnt S sched n f)"
  using assms
proof (induction "fifo_rank S f" arbitrary: f sched rule: less_induct)
  case less
  show ?case
  proof (cases "ff_over f")
    case True
    then show ?thesis by (intro exI [of _ 0]) simp
  next
    case False
    then obtain n where n: "fifo_rank S (fifo_run cnt S sched n f) < fifo_rank S f"
      using fifo_progress less.prems by blast
    have "fifo_ok cnt S (fifo_run cnt S sched n f)" using fifo_run_ok [OF less.prems(1)] by blast
    then obtain k where "ff_over (fifo_run cnt S (\<lambda>i. sched (n + i)) k (fifo_run cnt S sched n f))"
      using less.hyps [OF n _ less.prems(2,3) fair_shift [OF less.prems(4)]] by blast
    then show ?thesis unfolding fifo_run_add [symmetric] by blast
  qed
qed

text \<open>Taking turns, every two turns bring the end nearer.\<close>

lemma fifo_over_stays: "ff_over f \<Longrightarrow> fifo_ok cnt S f \<Longrightarrow> fifo_turn cnt S side f = f"
  by (auto simp: fifo_turn_def fifo_consumer_def fifo_writer_def fifo_ok_def)

lemma fifo_run_over: "ff_over f \<Longrightarrow> fifo_ok cnt S f \<Longrightarrow> fifo_run cnt S sched n f = f"
  by (induction n) (simp_all add: fifo_over_stays)

lemma fifo_two_turns:
  assumes "fifo_ok cnt S f" "2 \<le> cnt" "0 < S" "\<not> ff_over f"
  shows "fifo_rank S (fifo_turn cnt S False (fifo_turn cnt S True f)) < fifo_rank S f"
proof (cases "fifo_turn cnt S True f = f")
  case True
  then have "fifo_turn cnt S False f \<noteq> f" using fifo_no_deadlock [OF assms] by (metis (full_types))
  with True fifo_turn_rank [OF assms(3,1)] show ?thesis by simp
next
  case False
  then have "fifo_rank S (fifo_turn cnt S True f) < fifo_rank S f" by (rule fifo_turn_rank [OF assms(3,1)])
  with fifo_turn_rank [OF assms(3) fifo_turn_ok(1) [OF assms(1)], of False True] show ?thesis
    by (cases "fifo_turn cnt S False (fifo_turn cnt S True f) = fifo_turn cnt S True f") auto
qed

lemma fifo_alternate:
  assumes "fifo_ok cnt S f" "2 \<le> cnt" "0 < S" "fifo_rank S f \<le> k"
  shows "ff_over (fifo_run cnt S even (2 * k) f)"
  using assms
proof (induction k arbitrary: f)
  case 0
  then show ?case by (auto simp: fifo_rank_def split: if_splits)
next
  case (Suc k)
  let ?g = "fifo_turn cnt S False (fifo_turn cnt S True f)"
  have two: "fifo_run cnt S even 2 f = ?g" by (simp add: numeral_2_eq_2)
  have "2 * Suc k = 2 + 2 * k" by simp
  then have split: "fifo_run cnt S even (2 * Suc k) f = fifo_run cnt S even (2 * k) ?g"
    using fifo_run_add [of cnt S even 2 "2 * k" f] unfolding two by (simp add: even_add)
  show ?case
  proof (cases "ff_over f")
    case True
    with Suc.prems(1) show ?thesis by (simp only: fifo_run_over)
  next
    case False
    with fifo_two_turns [OF Suc.prems(1-3)] Suc.prems(4) have "fifo_rank S ?g \<le> k" by simp
    with Suc.IH Suc.prems fifo_turn_ok split show ?thesis by simp
  qed
qed

section \<open>The interface of an implementation\<close>

text \<open>
  A state with a writer's turn, a consumer's turn that may fail, and what can be seen of it: the bytes the
  consumer is done with, the bytes it can read now, and whether its iterator has come to the end.
\<close>

definition side_turn :: "('s \<Rightarrow> 's) \<Rightarrow> ('s \<Rightarrow> 's result) \<Rightarrow> bool \<Rightarrow> 's \<Rightarrow> 's result" where
  "side_turn wturn cturn writer s = (if writer then Inr (wturn s) else cturn s)"

fun sched_run :: "('s \<Rightarrow> 's) \<Rightarrow> ('s \<Rightarrow> 's result) \<Rightarrow> (nat \<Rightarrow> bool) \<Rightarrow> nat \<Rightarrow> 's \<Rightarrow> 's result" where
  "sched_run wturn cturn sched 0 s = Inr s"
| "sched_run wturn cturn sched (Suc n) s = bindR (sched_run wturn cturn sched n s) (side_turn wturn cturn (sched n))"

text \<open>The states that some interleaving of the two sides leads to.\<close>

inductive reaches :: "('s \<Rightarrow> 's) \<Rightarrow> ('s \<Rightarrow> 's result) \<Rightarrow> 's \<Rightarrow> 's \<Rightarrow> bool"
  for wturn :: "'s \<Rightarrow> 's" and cturn :: "'s \<Rightarrow> 's result" and s :: 's where
  here: "reaches wturn cturn s s"
| writes: "reaches wturn cturn s t \<Longrightarrow> reaches wturn cturn s (wturn t)"
| consumes: "reaches wturn cturn s t \<Longrightarrow> cturn t = Inr u \<Longrightarrow> reaches wturn cturn s u"

locale channel =
  fixes cnt S :: nat and sim :: "'s \<Rightarrow> fifo \<Rightarrow> bool" and wturn :: "'s \<Rightarrow> 's" and cturn :: "'s \<Rightarrow> 's result"
    and out held :: "'s \<Rightarrow> byte list" and over :: "'s \<Rightarrow> bool"
  assumes places: "2 \<le> cnt" "0 < S"
    and sim_writer: "sim s f \<Longrightarrow> fifo_ok cnt S f \<Longrightarrow> sim (wturn s) (fifo_writer cnt S f)"
    and sim_consumer: "sim s f \<Longrightarrow> fifo_ok cnt S f \<Longrightarrow> \<exists>t. cturn s = Inr t \<and> sim t (fifo_consumer f)"
    and sim_view: "sim s f \<Longrightarrow> fifo_ok cnt S f \<Longrightarrow> out s = ff_out f \<and> held s = (case ff_held f of None \<Rightarrow> [] | Some x \<Rightarrow> x) \<and> over s = ff_over f"
begin

lemma run_refines:
  assumes "sim s f" "fifo_ok cnt S f"
  shows "\<exists>t. sched_run wturn cturn sched n s = Inr t \<and> sim t (fifo_run cnt S sched n f)"
proof (induction n)
  case 0
  with assms(1) show ?case by simp
next
  case (Suc n)
  then obtain t where t: "sched_run wturn cturn sched n s = Inr t" "sim t (fifo_run cnt S sched n f)" by blast
  have ok: "fifo_ok cnt S (fifo_run cnt S sched n f)" using fifo_run_ok [OF assms(2)] by blast
  show ?case
    using sim_writer [OF t(2) ok] sim_consumer [OF t(2) ok] t(1) by (auto simp: side_turn_def fifo_turn_def)
qed

lemma run_delivers:
  assumes "sim s f" "fifo_ok cnt S f" "fair sched"
  shows "\<exists>n t. sched_run wturn cturn sched n s = Inr t \<and> over t \<and> out t = fifo_stream f"
proof -
  obtain n where n: "ff_over (fifo_run cnt S sched n f)" using fifo_delivers [OF assms(2) places assms(3)] by blast
  obtain t where "sched_run wturn cturn sched n s = Inr t" "sim t (fifo_run cnt S sched n f)"
    using run_refines [OF assms(1,2)] by blast
  with n sim_view fifo_over_stream fifo_run_ok [OF assms(2)] show ?thesis by metis
qed

lemma run_bound:
  assumes "sim s f" "fifo_ok cnt S f" "fifo_rank S f \<le> k"
  shows "\<exists>t. sched_run wturn cturn even (2 * k) s = Inr t \<and> over t \<and> out t = fifo_stream f"
proof -
  obtain t where "sched_run wturn cturn even (2 * k) s = Inr t" "sim t (fifo_run cnt S even (2 * k) f)"
    using run_refines [OF assms(1,2)] by blast
  with fifo_alternate [OF assms(2) places assms(3)] sim_view fifo_over_stream fifo_run_ok [OF assms(2)]
  show ?thesis by metis
qed

lemma reaches_sim:
  assumes "reaches wturn cturn s t" "sim s f" "fifo_ok cnt S f"
  shows "\<exists>g. sim t g \<and> fifo_ok cnt S g \<and> fifo_stream g = fifo_stream f"
  using assms(1)
proof induction
  case here
  with assms(2,3) show ?case by blast
next
  case (writes t)
  with sim_writer fifo_writer_ok show ?case by metis
next
  case (consumes t u)
  then obtain g where g: "sim t g" "fifo_ok cnt S g" "fifo_stream g = fifo_stream f" by blast
  with sim_consumer [OF g(1,2)] consumes.hyps(2) have "sim u (fifo_consumer g)" by auto
  with g fifo_consumer_ok [OF g(2)] show ?case by auto
qed

lemma reaches_safe:
  assumes "reaches wturn cturn s t" "sim s f" "fifo_ok cnt S f"
  shows "prefix (out t @ held t) (fifo_stream f)" "over t \<Longrightarrow> out t = fifo_stream f"
    "\<exists>u. cturn t = Inr u"
proof -
  obtain g where g: "sim t g" "fifo_ok cnt S g" "fifo_stream g = fifo_stream f"
    using reaches_sim [OF assms] by blast
  have "fifo_stream g = (out t @ held t) @ concat (ff_queue g) @ ff_cur g @ concat (ff_todo g)"
    using sim_view [OF g(1,2)] by (auto simp: fifo_stream_def blocks_def split: option.splits)
  then show "prefix (out t @ held t) (fifo_stream f)" unfolding g(3) by (metis prefixI)
  show "over t \<Longrightarrow> out t = fifo_stream f" using sim_view [OF g(1,2)] fifo_over_stream [OF g(2)] g(3) by simp
  show "\<exists>u. cturn t = Inr u" using sim_consumer [OF g(1,2)] by blast
qed

end

end
