(* ===== verification/Ring_Protocol.thy ===== *)
theory Ring_Protocol
  imports Stream_Reader Channel_Spec
begin

text \<open>
  A writer and the consumer working on one ring at the same time. The writer's side is what
  \<open>BufferWriterBW\<close> does to the node's memory, one transfer per turn; the consumer's side is the model of
  \<open>BufferIterator\<close> itself, one round of \<open>has_next\<close> and \<open>next\<close> per turn. Any interleaving of the two implements the
  bounded channel of \<open>Channel_Spec\<close>, laps round the ring included.
\<close>

section \<open>The two sides\<close>

text \<open>
  The writer: \<open>rw_offset\<close> is the current segment's offset, \<open>rw_used\<close> is \<open>m_sizeUsed\<close>, \<open>rw_header\<close> the local copy of
  the header, \<open>rw_next\<close> the local variable of \<open>getNextSegment\<close>, and \<open>rw_todo\<close> the chunks the program has yet to
  append before it closes.
\<close>

record ring_writer =
  rw_phase :: writer_phase
  rw_offset :: nat
  rw_next :: nat
  rw_used :: nat
  rw_header :: DPI_SEGMENT_HEADER_t
  rw_todo :: "byte list list"

definition published :: "nat \<Rightarrow> DPI_SEGMENT_HEADER_t \<Rightarrow> DPI_SEGMENT_HEADER_t" where
  "published n hdr = (setWriteable False (setConsumable True hdr))\<lparr>counter := n\<rparr>"

definition ended :: "nat \<Rightarrow> DPI_SEGMENT_HEADER_t \<Rightarrow> DPI_SEGMENT_HEADER_t" where
  "ended n hdr = markEndSegment True (setConsumable True (setWriteable False (hdr\<lparr>counter := n\<rparr>)))"

text \<open>
  One transfer: the data that still fits into the segment, the header that publishes a full one, one poll of
  the next one's header, or the header that closes the ring.
\<close>

definition writer_turn :: "nat \<Rightarrow> nat \<Rightarrow> ring_writer \<Rightarrow> mem \<Rightarrow> ring_writer \<times> mem" where
  "writer_turn rb S s m =
     (case rw_phase s of Done \<Rightarrow> (s, m)
      | Waiting \<Rightarrow>
          let hdr = get_header m (rb + rw_next s) in
          if isWriteable hdr
          then (s\<lparr>rw_phase := Filling, rw_offset := rw_next s, rw_used := 0, rw_header := hdr\<rparr>, m)
          else (s\<lparr>rw_header := hdr\<rparr>, m)
      | Filling \<Rightarrow>
          (case rw_todo s of
             [] \<Rightarrow> let hdr = ended (rw_used s) (rw_header s) in
               (s\<lparr>rw_phase := Done, rw_header := hdr\<rparr>, put_header m (rb + rw_offset s) hdr)
           | ch # rest \<Rightarrow>
               if rw_used s + length ch \<le> S
               then (s\<lparr>rw_used := rw_used s + length ch, rw_todo := rest\<rparr>,
                     mem_write m (rb + rw_offset s + 24 + rw_used s) ch)
               else if rw_used s < S
               then let n = S - rw_used s in
                 (s\<lparr>rw_used := S, rw_todo := drop n ch # rest\<rparr>,
                  mem_write m (rb + rw_offset s + 24 + rw_used s) (take n ch))
               else let hdr = published (rw_used s) (rw_header s) in
                 (s\<lparr>rw_phase := Waiting, rw_next := nextSegmentOffset (rw_header s), rw_header := hdr\<rparr>,
                  put_header m (rb + rw_offset s) hdr)))"

text \<open>
  Writer and consumer on the node's memory. The consumer uses the segment it was given until it asks for
  the next one: only then are its bytes read, as late as the program may read them.
\<close>

record session =
  ss_writer :: ring_writer
  ss_iter :: BufferIterator
  ss_im :: iter_mem
  ss_held :: "(header_ptr \<times> nat) option"
  ss_out :: "byte list"

definition held_bytes :: "session \<Rightarrow> byte list" where
  "held_bytes s = (case ss_held s of Some (InBuffer a, n) \<Rightarrow> mem_read (im_mem (ss_im s)) (a + 24) n | _ \<Rightarrow> [])"

definition session_writer :: "nat \<Rightarrow> nat \<Rightarrow> session \<Rightarrow> session" where
  "session_writer rb S s =
     (case writer_turn rb S (ss_writer s) (im_mem (ss_im s)) of (wr, m) \<Rightarrow>
      s\<lparr>ss_writer := wr, ss_im := (ss_im s)\<lparr>im_mem := m\<rparr>\<rparr>)"

definition session_consumer :: "session \<Rightarrow> session result" where
  "session_consumer s =
     (if bi_iters (ss_iter s) = [] then Inr s
      else bindR (has_next_step (ss_iter s, ss_im s)) (\<lambda>(found, b, im).
        if found then
          bindR (next_segment b im) (\<lambda>(ret, b, im).
            Inr (s\<lparr>ss_iter := b, ss_im := im, ss_held := Some ret, ss_out := ss_out s @ held_bytes s\<rparr>))
        else if bi_iters b = []
        then Inr (s\<lparr>ss_iter := b, ss_im := im, ss_held := None, ss_out := ss_out s @ held_bytes s\<rparr>)
        else Inr (s\<lparr>ss_iter := b, ss_im := im\<rparr>)))"

definition session_over :: "session \<Rightarrow> bool" where
  "session_over s \<longleftrightarrow> bi_iters (ss_iter s) = []"

text \<open>The start: the writer has joined and read the entry segment's header, the consumer has its iterator.\<close>

definition session_start :: "BufferHandle \<Rightarrow> nat \<Rightarrow> mem \<Rightarrow> byte list list \<Rightarrow> session" where
  "session_start hdl rb m chunks =
     (case getIterator hdl rb m of (b, im) \<Rightarrow>
      let e = seg_offset (hd (bh_entrySegments hdl)) in
      \<lparr>ss_writer = \<lparr>rw_phase = Filling, rw_offset = e, rw_next = 0, rw_used = 0, rw_header = get_header m (rb + e),
         rw_todo = chunks\<rparr>,
       ss_iter = b, ss_im = im, ss_held = None, ss_out = []\<rparr>)"

section \<open>The ring as a window of blocks\<close>

definition ring_pos :: "nat \<Rightarrow> nat \<Rightarrow> nat \<Rightarrow> nat \<Rightarrow> nat \<Rightarrow> nat" where
  "ring_pos rb e cnt S i = rb + seg_at e (S + 24) (i mod cnt)"

definition seg_holds :: "mem \<Rightarrow> nat \<Rightarrow> byte list \<Rightarrow> bool \<Rightarrow> bool" where
  "seg_holds m a xs fin \<longleftrightarrow>
     counter (get_header m a) = length xs \<and> isConsumable (get_header m a) \<and>
     \<not> isWriteable (get_header m a) \<and> isEndSegment (get_header m a) = fin \<and> mem_read m (a + 24) (length xs) = xs"

text \<open>From segment \<open>b\<close> on the ring holds the blocks \<open>bs\<close>, and the segments behind them are fresh.\<close>

definition ring_window :: "mem \<Rightarrow> nat \<Rightarrow> nat \<Rightarrow> nat \<Rightarrow> nat \<Rightarrow> nat \<Rightarrow> byte list list \<Rightarrow> bool \<Rightarrow> bool" where
  "ring_window m rb e cnt S b bs fin \<longleftrightarrow>
     ring_linked m rb e cnt (S + 24) \<and> length bs \<le> cnt \<and>
     (\<forall>i < length bs. length (bs ! i) \<le> S \<and>
        seg_holds m (ring_pos rb e cnt S (b + i)) (bs ! i) (fin \<and> Suc i = length bs)) \<and>
     (\<forall>i. length bs \<le> i \<and> i < cnt \<longrightarrow> fresh_header (get_header m (ring_pos rb e cnt S (b + i))))"

lemma window_mod_neq:
  fixes b cnt i j :: nat
  assumes "i < cnt" "j < cnt" "i \<noteq> j"
  shows "(b + i) mod cnt \<noteq> (b + j) mod cnt"
proof -
  have less: "(b + j) mod cnt \<noteq> (b + i) mod cnt" if "i < j" "j < cnt" for i j
    using that mod_eq_dvd_iff_nat [of "b + i" "b + j" cnt] by (auto dest: dvd_imp_le)
  show ?thesis using less [of i j] less [of j i] assms by (cases "i < j") auto
qed

lemma published_sel [simp]:
  "counter (published n h) = n" "isConsumable (published n h)" "\<not> isWriteable (published n h)"
  "isEndSegment (published n h) = isEndSegment h" "nextSegmentOffset (published n h) = nextSegmentOffset h"
  by (simp_all add: published_def)

lemma ended_sel [simp]:
  "counter (ended n h) = n" "isConsumable (ended n h)" "\<not> isWriteable (ended n h)"
  "isEndSegment (ended n h)" "nextSegmentOffset (ended n h) = nextSegmentOffset h"
  by (simp_all add: ended_def)

lemma header_ok_published [simp]:
  "header_ok h \<Longrightarrow> n < 2 ^ 64 \<Longrightarrow> header_ok (published n h)" "header_ok h \<Longrightarrow> n < 2 ^ 64 \<Longrightarrow> header_ok (ended n h)"
  by (simp_all add: header_ok_def)

text \<open>What a store into one segment leaves alone.\<close>

lemma seg_holds_payload:
  assumes "i mod cnt \<noteq> k mod cnt" "u + length bs \<le> S" "length xs \<le> S"
  shows "seg_holds (mem_write m (ring_pos rb e cnt S k + 24 + u) bs) (ring_pos rb e cnt S i) xs fin =
    seg_holds m (ring_pos rb e cnt S i) xs fin"
  using header_write_payload [OF assms(2), of m rb e "k mod cnt" "i mod cnt"]
    payload_write_other [OF assms(1,3,2), of m rb e]
  by (simp add: seg_holds_def ring_pos_def payload_def)

lemma seg_holds_put:
  assumes "i mod cnt \<noteq> k mod cnt" "length xs \<le> S"
  shows "seg_holds (put_header m (ring_pos rb e cnt S k) hdr) (ring_pos rb e cnt S i) xs fin =
    seg_holds m (ring_pos rb e cnt S i) xs fin"
  using header_put_other [OF assms(1), of m rb e S hdr] payload_put [OF assms(2), of m rb e "k mod cnt" hdr "i mod cnt"]
  by (simp add: seg_holds_def ring_pos_def payload_def)

lemma header_pos_put:
  "header_ok hdr \<Longrightarrow> get_header (put_header m (ring_pos rb e cnt S k) hdr) (ring_pos rb e cnt S i) =
    (if i mod cnt = k mod cnt then hdr else get_header m (ring_pos rb e cnt S i))"
  using header_put_other [of "i mod cnt" "k mod cnt" m rb e S hdr] by (simp add: ring_pos_def)

lemma linked_put:
  assumes "ring_linked m rb e cnt (S + 24)" "0 < cnt" "header_ok hdr"
    "nextSegmentOffset hdr = nextSegmentOffset (get_header m (ring_pos rb e cnt S k))"
  shows "ring_linked (put_header m (ring_pos rb e cnt S k) hdr) rb e cnt (S + 24)"
  unfolding ring_linked_def
proof (intro allI impI)
  fix i assume i: "i < cnt"
  have "get_header (put_header m (ring_pos rb e cnt S k) hdr) (rb + seg_at e (S + 24) i) =
      (if i = k mod cnt then hdr else get_header m (rb + seg_at e (S + 24) i))"
    using header_pos_put [OF assms(3), of m rb e cnt S k i] i by (simp add: ring_pos_def)
  then show "nextSegmentOffset (get_header (put_header m (ring_pos rb e cnt S k) hdr) (rb + seg_at e (S + 24) i)) =
      seg_at e (S + 24) (Suc i mod cnt)"
    using assms(1,4) i by (auto simp: ring_linked_def ring_pos_def)
qed

lemma linked_next:
  assumes "ring_linked m rb e cnt (S + 24)" "0 < cnt"
  shows "nextSegmentOffset (get_header m (ring_pos rb e cnt S i)) = seg_at e (S + 24) (Suc i mod cnt)"
  using assms by (simp add: ring_linked_def ring_pos_def mod_Suc_eq)

text \<open>Filling the segment behind the blocks, publishing it, and giving the first one back.\<close>

lemma window_fill:
  assumes "ring_window m rb e cnt S b bs fin" "length bs < cnt" "u + length xs \<le> S"
  shows "ring_window (mem_write m (ring_pos rb e cnt S (b + length bs) + 24 + u) xs) rb e cnt S b bs fin"
proof -
  let ?m = "mem_write m (ring_pos rb e cnt S (b + length bs) + 24 + u) xs"
  have hdr: "get_header ?m (rb + seg_at e (S + 24) i) = get_header m (rb + seg_at e (S + 24) i)" for i
    unfolding ring_pos_def by (rule header_write_payload [OF assms(3)])
  then have pos: "get_header ?m (ring_pos rb e cnt S i) = get_header m (ring_pos rb e cnt S i)" for i
    by (simp add: ring_pos_def)
  have "seg_holds ?m (ring_pos rb e cnt S (b + i)) ys f = seg_holds m (ring_pos rb e cnt S (b + i)) ys f"
    if "i < length bs" "length ys \<le> S" for i ys f
    using that assms(2) window_mod_neq [of i cnt "length bs" b] by (intro seg_holds_payload [OF _ assms(3)]) auto
  then show ?thesis using assms(1) by (simp add: ring_window_def ring_linked_def hdr pos)
qed

lemma window_publish:
  assumes "ring_window m rb e cnt S b bs False" "length bs < cnt" "length xs \<le> S" "header_ok hdr"
    "counter hdr = length xs" "isConsumable hdr" "\<not> isWriteable hdr" "isEndSegment hdr = fin"
    "nextSegmentOffset hdr = nextSegmentOffset (get_header m (ring_pos rb e cnt S (b + length bs)))"
    "mem_read m (ring_pos rb e cnt S (b + length bs) + 24) (length xs) = xs"
  shows "ring_window (put_header m (ring_pos rb e cnt S (b + length bs)) hdr) rb e cnt S b (bs @ [xs]) fin"
proof -
  let ?p = "ring_pos rb e cnt S (b + length bs)"
  let ?m = "put_header m ?p hdr"
  have new: "seg_holds ?m ?p xs fin"
    using assms(4-8,10) by (simp add: seg_holds_def mem_read_put_disjoint)
  have old: "seg_holds ?m (ring_pos rb e cnt S (b + i)) ys f = seg_holds m (ring_pos rb e cnt S (b + i)) ys f"
    if "i < length bs" "length ys \<le> S" for i ys f
    using that assms(2) window_mod_neq [of i cnt "length bs" b] by (intro seg_holds_put) auto
  have free: "get_header ?m (ring_pos rb e cnt S (b + i)) = get_header m (ring_pos rb e cnt S (b + i))"
    if "length bs < i" "i < cnt" for i
    using that window_mod_neq [of i cnt "length bs" b] by (simp add: header_pos_put [OF assms(4)])
  have "ring_linked ?m rb e cnt (S + 24)"
    using assms(1,2,9) by (intro linked_put [OF _ _ assms(4)]) (auto simp: ring_window_def)
  with assms(1-3) new old free show ?thesis
    by (auto simp: ring_window_def nth_append less_Suc_eq)
qed

lemma window_release:
  assumes "ring_window m rb e cnt S b (x # xs) fin" "xs \<noteq> [] \<or> \<not> fin"
  shows "ring_window (put_header m (ring_pos rb e cnt S b) (released (get_header m (ring_pos rb e cnt S b))))
    rb e cnt S (Suc b) xs fin"
proof -
  let ?hdr = "released (get_header m (ring_pos rb e cnt S b))"
  let ?m = "put_header m (ring_pos rb e cnt S b) ?hdr"
  have w: "ring_linked m rb e cnt (S + 24)" "Suc (length xs) \<le> cnt"
    "\<forall>i \<le> length xs. length ((x # xs) ! i) \<le> S \<and>
       seg_holds m (ring_pos rb e cnt S (b + i)) ((x # xs) ! i) (fin \<and> i = length xs)"
    "\<forall>i. length xs < i \<and> i < cnt \<longrightarrow> fresh_header (get_header m (ring_pos rb e cnt S (b + i)))"
    using assms(1) by (auto simp: ring_window_def less_Suc_eq_le Suc_le_eq)
  have hdr: "get_header ?m (ring_pos rb e cnt S i) =
      (if i mod cnt = b mod cnt then ?hdr else get_header m (ring_pos rb e cnt S i))" for i
    by (rule header_pos_put) simp
  have "ring_linked ?m rb e cnt (S + 24)" using w(1,2) by (intro linked_put) auto
  moreover have "length (xs ! i) \<le> S \<and> seg_holds ?m (ring_pos rb e cnt S (Suc b + i)) (xs ! i) (fin \<and> Suc i = length xs)"
    if "i < length xs" for i
  proof -
    have "(b + Suc i) mod cnt \<noteq> b mod cnt" using window_mod_neq [of "Suc i" cnt 0 b] that w(2) by simp
    moreover have "length (xs ! i) \<le> S" "seg_holds m (ring_pos rb e cnt S (b + Suc i)) (xs ! i) (fin \<and> Suc i = length xs)"
      using w(3) [rule_format, of "Suc i"] that by simp_all
    ultimately show ?thesis using seg_holds_put [of "b + Suc i" cnt b "xs ! i" S m rb e ?hdr] by simp
  qed
  moreover have "fresh_header (get_header ?m (ring_pos rb e cnt S (Suc b + i)))" if "length xs \<le> i" "i < cnt" for i
  proof (cases "Suc i = cnt")
    case True
    then have "(Suc b + i) mod cnt = b mod cnt" by (metis add_Suc add_Suc_right mod_add_self2)
    moreover have "\<not> isEndSegment (get_header m (ring_pos rb e cnt S b))"
      using w(3) assms(2) by (auto simp: seg_holds_def)
    ultimately show ?thesis by (simp add: hdr fresh_header_def)
  next
    case False
    then have "(b + Suc i) mod cnt \<noteq> b mod cnt" using window_mod_neq [of "Suc i" cnt 0 b] that w(2) by simp
    then show ?thesis using hdr [of "b + Suc i"] w(4) [rule_format, of "Suc i"] False that by simp
  qed
  ultimately show ?thesis using w(2) by (simp add: ring_window_def)
qed

section \<open>The simulation\<close>

definition writer_at :: "nat \<Rightarrow> nat \<Rightarrow> nat \<Rightarrow> nat \<Rightarrow> nat \<Rightarrow> session \<Rightarrow> fifo \<Rightarrow> bool" where
  "writer_at rb e cnt S b s f \<longleftrightarrow>
     (let pos = ring_pos rb e cnt S (b + length (blocks f)); wr = ss_writer s; m = im_mem (ss_im s) in
      (ff_phase f = Filling \<longrightarrow> rb + rw_offset wr = pos \<and> rw_header wr = get_header m pos \<and>
         rw_used wr = length (ff_cur f) \<and> mem_read m (pos + 24) (length (ff_cur f)) = ff_cur f) \<and>
      (ff_phase f = Waiting \<longrightarrow> rb + rw_next wr = pos))"

definition consumer_at :: "nat \<Rightarrow> nat \<Rightarrow> nat \<Rightarrow> nat \<Rightarrow> nat \<Rightarrow> session \<Rightarrow> fifo \<Rightarrow> bool" where
  "consumer_at rb e cnt S b s f \<longleftrightarrow>
     \<not> bi_lat (ss_iter s) \<and> bi_pointer (ss_iter s) \<le> 1 \<and>
     (\<exists>ih. bi_iters (ss_iter s) = [ih] \<and> si_rdmaBuffer (ih_iter ih) = rb \<and>
        (case ff_held f of
           None \<Rightarrow> si_header (ih_iter ih) = InBuffer (ring_pos rb e cnt S b) \<and> ss_held s = None \<and>
             (\<exists>i < length (im_heap (ss_im s)). si_header (ih_prev ih) = OnHeap i \<and> \<not> isEndSegment (im_heap (ss_im s) ! i))
         | Some x \<Rightarrow> si_header (ih_iter ih) = InBuffer (ring_pos rb e cnt S (Suc b)) \<and>
             si_header (ih_prev ih) = InBuffer (ring_pos rb e cnt S b) \<and>
             ss_held s = Some (InBuffer (ring_pos rb e cnt S b), length x)))"

definition ring_sim :: "nat \<Rightarrow> nat \<Rightarrow> nat \<Rightarrow> nat \<Rightarrow> session \<Rightarrow> fifo \<Rightarrow> bool" where
  "ring_sim rb e cnt S s f \<longleftrightarrow>
     rw_phase (ss_writer s) = ff_phase f \<and> rw_todo (ss_writer s) = ff_todo f \<and> ss_out s = ff_out f \<and>
     (if ff_over f then bi_iters (ss_iter s) = [] \<and> ss_held s = None
      else \<exists>b. ring_window (im_mem (ss_im s)) rb e cnt S b (blocks f) (ff_phase f = Done) \<and>
        writer_at rb e cnt S b s f \<and> consumer_at rb e cnt S b s f)"

text \<open>The writer's transfers.\<close>

lemma ring_simE:
  assumes "ring_sim rb e cnt S s f" "\<not> ff_over f"
  obtains b where "rw_phase (ss_writer s) = ff_phase f" "rw_todo (ss_writer s) = ff_todo f" "ss_out s = ff_out f"
    "ring_window (im_mem (ss_im s)) rb e cnt S b (blocks f) (ff_phase f = Done)"
    "writer_at rb e cnt S b s f" "consumer_at rb e cnt S b s f"
  using assms by (auto simp: ring_sim_def)

lemma consumer_at_cong:
  assumes "consumer_at rb e cnt S b s f" "ss_iter t = ss_iter s" "im_heap (ss_im t) = im_heap (ss_im s)"
    "ss_held t = ss_held s" "ff_held g = ff_held f"
  shows "consumer_at rb e cnt S b t g"
  using assms(1) unfolding consumer_at_def assms(2-5) .

lemma sim_fill:
  assumes "ring_sim rb e cnt S s f" "fifo_ok cnt S f" "ff_phase f = Filling" "length (ff_cur f) + length xs \<le> S"
  shows "ring_sim rb e cnt S
    (s\<lparr>ss_writer := (ss_writer s)\<lparr>rw_used := rw_used (ss_writer s) + length xs, rw_todo := t\<rparr>,
       ss_im := (ss_im s)\<lparr>im_mem := mem_write (im_mem (ss_im s)) (rb + rw_offset (ss_writer s) + 24 + rw_used (ss_writer s)) xs\<rparr>\<rparr>)
    (f\<lparr>ff_cur := ff_cur f @ xs, ff_todo := t\<rparr>)" (is "ring_sim rb e cnt S ?s ?f")
proof -
  have over: "\<not> ff_over f" and room: "length (blocks f) < cnt" using assms(2,3) by (auto simp: fifo_ok_def)
  from ring_simE [OF assms(1) over] obtain b where
    b: "ring_window (im_mem (ss_im s)) rb e cnt S b (blocks f) False" "writer_at rb e cnt S b s f"
    "consumer_at rb e cnt S b s f" "rw_phase (ss_writer s) = Filling" "ss_out s = ff_out f"
    using assms(3) by (metis writer_phase.distinct(3))
  let ?p = "ring_pos rb e cnt S (b + length (blocks f))"
  have w: "rb + rw_offset (ss_writer s) = ?p" "rw_header (ss_writer s) = get_header (im_mem (ss_im s)) ?p"
    "rw_used (ss_writer s) = length (ff_cur f)" "mem_read (im_mem (ss_im s)) (?p + 24) (length (ff_cur f)) = ff_cur f"
    using b(2) assms(3) by (simp_all add: writer_at_def Let_def)
  let ?m = "mem_write (im_mem (ss_im s)) (?p + 24 + length (ff_cur f)) xs"
  have blocks: "blocks ?f = blocks f" by (simp add: blocks_def)
  have "ring_window ?m rb e cnt S b (blocks f) False" by (rule window_fill [OF b(1) room assms(4)])
  moreover have "writer_at rb e cnt S b ?s ?f"
    using w assms(3) header_write_payload [OF assms(4), of "im_mem (ss_im s)" rb e "(b + length (blocks f)) mod cnt"
        "(b + length (blocks f)) mod cnt"] mem_read_write_grow [of "im_mem (ss_im s)" "?p + 24" "length (ff_cur f)" xs]
    by (simp add: writer_at_def Let_def blocks ring_pos_def)
  moreover have "consumer_at rb e cnt S b ?s ?f" by (rule consumer_at_cong [OF b(3)]) simp_all
  ultimately show ?thesis
    using b(4,5) over assms(3) w(1,3) by (auto simp: ring_sim_def blocks)
qed

lemma sim_publish:
  assumes "ring_sim rb e cnt S s f" "fifo_ok cnt S f" "ff_phase f = Filling" "header_ok hdr"
    "counter hdr = rw_used (ss_writer s)" "isConsumable hdr" "\<not> isWriteable hdr" "isEndSegment hdr = (ph = Done)"
    "nextSegmentOffset hdr = nextSegmentOffset (rw_header (ss_writer s))" "ph \<noteq> Filling" "0 < cnt"
    "ph = Waiting \<Longrightarrow> nxt = nextSegmentOffset (rw_header (ss_writer s))"
  shows "ring_sim rb e cnt S
    (s\<lparr>ss_writer := (ss_writer s)\<lparr>rw_phase := ph, rw_next := nxt, rw_header := hdr\<rparr>,
       ss_im := (ss_im s)\<lparr>im_mem := put_header (im_mem (ss_im s)) (rb + rw_offset (ss_writer s)) hdr\<rparr>\<rparr>)
    (f\<lparr>ff_phase := ph, ff_queue := ff_queue f @ [ff_cur f], ff_cur := []\<rparr>)" (is "ring_sim rb e cnt S ?s ?f")
proof -
  have over: "\<not> ff_over f" and room: "length (blocks f) < cnt" and cur: "length (ff_cur f) \<le> S"
    using assms(2,3) by (auto simp: fifo_ok_def)
  from ring_simE [OF assms(1) over] obtain b where
    b: "ring_window (im_mem (ss_im s)) rb e cnt S b (blocks f) False" "writer_at rb e cnt S b s f"
    "consumer_at rb e cnt S b s f" "rw_todo (ss_writer s) = ff_todo f" "ss_out s = ff_out f"
    using assms(3) by (metis writer_phase.distinct(3))
  let ?p = "ring_pos rb e cnt S (b + length (blocks f))"
  have w: "rb + rw_offset (ss_writer s) = ?p" "rw_header (ss_writer s) = get_header (im_mem (ss_im s)) ?p"
    "rw_used (ss_writer s) = length (ff_cur f)" "mem_read (im_mem (ss_im s)) (?p + 24) (length (ff_cur f)) = ff_cur f"
    using b(2) assms(3) by (simp_all add: writer_at_def Let_def)
  have blocks: "blocks ?f = blocks f @ [ff_cur f]" by (simp add: blocks_def)
  have "ring_window (put_header (im_mem (ss_im s)) ?p hdr) rb e cnt S b (blocks ?f) (ph = Done)"
    unfolding blocks using assms(4-9) w by (intro window_publish [OF b(1) room cur]) simp_all
  moreover have "nextSegmentOffset (get_header (im_mem (ss_im s)) ?p) = seg_at e (S + 24) (Suc (b + length (blocks f)) mod cnt)"
    using b(1) assms(11) by (intro linked_next) (auto simp: ring_window_def)
  then have "writer_at rb e cnt S b ?s ?f"
    using assms(10,12) w(2) by (auto simp: writer_at_def Let_def blocks ring_pos_def)
  moreover have "consumer_at rb e cnt S b ?s ?f" by (rule consumer_at_cong [OF b(3)]) simp_all
  ultimately show ?thesis using b(4,5) over w(1) by (auto simp: ring_sim_def)
qed

lemma sim_writer:
  assumes "ring_sim rb e cnt S s f" "fifo_ok cnt S f" "S < 2 ^ 64" "0 < cnt"
  shows "ring_sim rb e cnt S (session_writer rb S s) (fifo_writer cnt S f)"
proof (cases "ff_phase f")
  case Done
  then have "rw_phase (ss_writer s) = Done" using assms(1) by (simp add: ring_sim_def)
  then show ?thesis using assms(1) Done by (simp add: session_writer_def writer_turn_def fifo_writer_def)
next
  case Waiting
  then have over: "\<not> ff_over f" and cur: "ff_cur f = []" using assms(2) by (auto simp: fifo_ok_def)
  from ring_simE [OF assms(1) over] obtain b where
    b: "ring_window (im_mem (ss_im s)) rb e cnt S b (blocks f) False" "writer_at rb e cnt S b s f"
    "consumer_at rb e cnt S b s f" "rw_todo (ss_writer s) = ff_todo f" "ss_out s = ff_out f" "rw_phase (ss_writer s) = Waiting"
    using Waiting by (metis writer_phase.distinct(5))
  let ?p = "ring_pos rb e cnt S (b + length (blocks f))"
  have nxt: "rb + rw_next (ss_writer s) = ?p" using b(2) Waiting by (simp add: writer_at_def Let_def)
  have free: "isWriteable (get_header (im_mem (ss_im s)) ?p) \<longleftrightarrow> length (blocks f) < cnt"
  proof (cases "length (blocks f) < cnt")
    case True
    then show ?thesis using b(1) by (simp add: ring_window_def fresh_header_def)
  next
    case False
    then have "length (blocks f) = cnt" using b(1) by (simp add: ring_window_def)
    moreover have "seg_holds (im_mem (ss_im s)) (ring_pos rb e cnt S (b + 0)) (blocks f ! 0) False" if "length (blocks f) = cnt"
      using b(1) that assms(4) unfolding ring_window_def by (metis)
    ultimately show ?thesis by (simp add: ring_pos_def seg_holds_def)
  qed
  have c: "consumer_at rb e cnt S b (session_writer rb S s) g" if "ff_held g = ff_held f" for g
    by (rule consumer_at_cong [OF b(3)])
      (auto simp: that session_writer_def writer_turn_def b(6) Let_def)
  show ?thesis
    using b over Waiting nxt free cur c [of "fifo_writer cnt S f"]
    by (auto simp: ring_sim_def fifo_writer_def session_writer_def writer_turn_def writer_at_def Let_def intro!: exI [of _ b])
next
  case Filling
  have r: "rw_phase (ss_writer s) = Filling" "rw_todo (ss_writer s) = ff_todo f"
    using assms(1) Filling by (simp_all add: ring_sim_def)
  have over: "\<not> ff_over f" and room: "length (blocks f) < cnt" and cur: "length (ff_cur f) \<le> S"
    using assms(2) Filling by (auto simp: fifo_ok_def)
  have w: "rw_used (ss_writer s) = length (ff_cur f)"
    using ring_simE [OF assms(1) over] Filling by (auto simp: writer_at_def Let_def)
  have hok: "header_ok (rw_header (ss_writer s))" "\<not> isEndSegment (rw_header (ss_writer s))"
  proof -
    from ring_simE [OF assms(1) over] obtain b where
      b: "ring_window (im_mem (ss_im s)) rb e cnt S b (blocks f) False" "writer_at rb e cnt S b s f"
      using Filling by (metis writer_phase.distinct(3))
    then show "header_ok (rw_header (ss_writer s))" "\<not> isEndSegment (rw_header (ss_writer s))"
      using Filling room by (simp_all add: writer_at_def Let_def ring_window_def fresh_header_def)
  qed
  show ?thesis
  proof (cases "ff_todo f")
    case Nil
    have "ring_sim rb e cnt S
      (s\<lparr>ss_writer := (ss_writer s)\<lparr>rw_phase := Done, rw_next := rw_next (ss_writer s),
           rw_header := ended (rw_used (ss_writer s)) (rw_header (ss_writer s))\<rparr>,
         ss_im := (ss_im s)\<lparr>im_mem := put_header (im_mem (ss_im s)) (rb + rw_offset (ss_writer s))
           (ended (rw_used (ss_writer s)) (rw_header (ss_writer s)))\<rparr>\<rparr>)
      (f\<lparr>ff_phase := Done, ff_queue := ff_queue f @ [ff_cur f], ff_cur := []\<rparr>)"
      using hok cur assms(3,4) w by (intro sim_publish [OF assms(1,2) Filling]) simp_all
    then show ?thesis using r Nil Filling by (simp add: session_writer_def writer_turn_def fifo_writer_def Let_def)
  next
    case (Cons ch rest)
    show ?thesis
    proof (cases "length (ff_cur f) + length ch \<le> S")
      case True
      from sim_fill [OF assms(1,2) Filling this, of rest] True show ?thesis
        using r Cons Filling w by (simp add: session_writer_def writer_turn_def fifo_writer_def)
    next
      case False
      show ?thesis
      proof (cases "length (ff_cur f) < S")
        case True
        have "length (take (S - length (ff_cur f)) ch) = S - length (ff_cur f)" using False by simp
        with sim_fill [OF assms(1,2) Filling, of "take (S - length (ff_cur f)) ch" "drop (S - length (ff_cur f)) ch # rest"]
        show ?thesis
          using r Cons Filling False True w by (simp add: session_writer_def writer_turn_def fifo_writer_def Let_def)
      next
        case full: False
        have "ring_sim rb e cnt S
          (s\<lparr>ss_writer := (ss_writer s)\<lparr>rw_phase := Waiting, rw_next := nextSegmentOffset (rw_header (ss_writer s)),
               rw_header := published (rw_used (ss_writer s)) (rw_header (ss_writer s))\<rparr>,
             ss_im := (ss_im s)\<lparr>im_mem := put_header (im_mem (ss_im s)) (rb + rw_offset (ss_writer s))
               (published (rw_used (ss_writer s)) (rw_header (ss_writer s)))\<rparr>\<rparr>)
          (f\<lparr>ff_phase := Waiting, ff_queue := ff_queue f @ [ff_cur f], ff_cur := []\<rparr>)"
          using hok cur assms(3,4) w by (intro sim_publish [OF assms(1,2) Filling]) simp_all
        then show ?thesis
          using r Cons Filling False full w by (simp add: session_writer_def writer_turn_def fifo_writer_def Let_def)
      qed
    qed
  qed
qed

text \<open>The consumer's rounds.\<close>

lemma consumer_at_None:
  "ff_held f = None \<Longrightarrow> consumer_at rb e cnt S b s f \<longleftrightarrow>
     \<not> bi_lat (ss_iter s) \<and> bi_pointer (ss_iter s) \<le> 1 \<and> ss_held s = None \<and>
     (\<exists>ih i. bi_iters (ss_iter s) = [ih] \<and> si_rdmaBuffer (ih_iter ih) = rb \<and>
        si_header (ih_iter ih) = InBuffer (ring_pos rb e cnt S b) \<and>
        i < length (im_heap (ss_im s)) \<and> si_header (ih_prev ih) = OnHeap i \<and> \<not> isEndSegment (im_heap (ss_im s) ! i))"
  unfolding consumer_at_def by auto

lemma consumer_at_Some:
  "ff_held f = Some x \<Longrightarrow> consumer_at rb e cnt S b s f \<longleftrightarrow>
     \<not> bi_lat (ss_iter s) \<and> bi_pointer (ss_iter s) \<le> 1 \<and> ss_held s = Some (InBuffer (ring_pos rb e cnt S b), length x) \<and>
     (\<exists>ih. bi_iters (ss_iter s) = [ih] \<and> si_rdmaBuffer (ih_iter ih) = rb \<and>
        si_header (ih_iter ih) = InBuffer (ring_pos rb e cnt S (Suc b)) \<and>
        si_header (ih_prev ih) = InBuffer (ring_pos rb e cnt S b))"
  unfolding consumer_at_def by auto

lemma sim_held:
  assumes "ring_sim rb e cnt S s f" "fifo_ok cnt S f"
  shows "held_bytes s = (case ff_held f of None \<Rightarrow> [] | Some x \<Rightarrow> x)"
proof (cases "ff_over f")
  case True
  then show ?thesis
    using assms by (auto simp: ring_sim_def held_bytes_def fifo_ok_def blocks_def split: option.splits)
next
  case False
  then obtain b where b: "ring_window (im_mem (ss_im s)) rb e cnt S b (blocks f) (ff_phase f = Done)"
    "consumer_at rb e cnt S b s f"
    using ring_simE [OF assms(1)] by metis
  show ?thesis
  proof (cases "ff_held f")
    case None
    then show ?thesis using b(2) by (simp add: consumer_at_None held_bytes_def)
  next
    case (Some x)
    then have "blocks f = x # ff_queue f" by (simp add: blocks_def)
    with b(1) have "mem_read (im_mem (ss_im s)) (ring_pos rb e cnt S b + 24) (length x) = x"
      by (auto simp: ring_window_def seg_holds_def dest!: spec [of _ 0])
    with Some b(2) show ?thesis by (simp add: consumer_at_Some held_bytes_def)
  qed
qed

text \<open>Giving the previous segment back, if there is one.\<close>

lemma consumer_takes:
  fixes s :: session
  defines "im \<equiv> ss_im s"
  assumes "bi_iters (ss_iter s) = [ih]" "\<not> bi_lat (ss_iter s)" "bi_pointer (ss_iter s) \<le> 1"
    and "si_header (ih_iter ih) = InBuffer a" "\<not> isEndSegment (deref (si_header (ih_prev ih)) im)"
    and "isConsumable (get_header (im_mem im) a)"
    and "im' = assign (si_header (ih_prev ih)) (released (deref (si_header (ih_prev ih)) im)) im"
    and "get_header (im_mem im') a = get_header (im_mem im) a"
  shows "session_consumer s = Inr (s\<lparr>ss_iter := (ss_iter s)\<lparr>bi_pointer := 1,
      bi_iters := [ih\<lparr>ih_prev := ih_iter ih, ih_iter := si_next (ih_iter ih) im'\<rparr>]\<rparr>, ss_im := im',
      ss_held := Some (InBuffer a, counter (get_header (im_mem im) a)), ss_out := ss_out s @ held_bytes s\<rparr>)"
proof -
  have "has_next_step (ss_iter s, im) = Inr (True, (ss_iter s)\<lparr>bi_pointer := 0\<rparr>, im)"
    using has_next_step_single [OF assms(2,4)] assms(5-7) by (simp add: deref_def [of "InBuffer _"])
  then show ?thesis
    using assms(2-6,8,9)
    by (simp add: session_consumer_def im_def next_segment_def mark_prev_segment_def getRawData_def deref_def [of "InBuffer _"] Let_def)
qed

lemma consumer_ends:
  assumes "bi_iters (ss_iter s) = [ih]" "\<not> bi_lat (ss_iter s)" "bi_pointer (ss_iter s) \<le> 1"
    and "isEndSegment (deref (si_header (ih_prev ih)) (ss_im s))"
  shows "session_consumer s = Inr (s\<lparr>ss_iter := (ss_iter s)\<lparr>bi_pointer := 0, bi_iters := []\<rparr>, ss_held := None,
      ss_out := ss_out s @ held_bytes s\<rparr>)"
  using has_next_step_single [OF assms(1,3)] assms
  by (simp add: session_consumer_def mark_prev_segment_def Let_def)

lemma consumer_polls:
  assumes "bi_iters (ss_iter s) = [ih]" "bi_pointer (ss_iter s) \<le> 1"
    and "\<not> isEndSegment (deref (si_header (ih_prev ih)) (ss_im s))" "\<not> isConsumable (deref (si_header (ih_iter ih)) (ss_im s))"
  shows "session_consumer s = Inr (s\<lparr>ss_iter := (ss_iter s)\<lparr>bi_pointer := 1\<rparr>\<rparr>)"
  using has_next_step_single [OF assms(1,2)] assms by (simp add: session_consumer_def)

lemma si_next_sel:
  "si_header it = InBuffer a \<Longrightarrow> si_header (si_next it im) = InBuffer (si_rdmaBuffer it + nextSegmentOffset (get_header (im_mem im) a))"
  "si_rdmaBuffer (si_next it im) = si_rdmaBuffer it"
  by (simp_all add: si_next_def deref_def Let_def)

lemma window_first:
  assumes "ring_window m rb e cnt S b (x # xs) fin"
  shows "seg_holds m (ring_pos rb e cnt S b) x (fin \<and> xs = [])"
  using assms unfolding ring_window_def by (auto dest: spec [of _ 0])

text \<open>The first segment the consumer gets.\<close>

lemma sim_first:
  assumes "ring_sim rb e cnt S s f" "\<not> ff_over f" "ff_held f = None" "ff_queue f = x # xs" "2 \<le> cnt"
  shows "\<exists>t. session_consumer s = Inr t \<and> ring_sim rb e cnt S t (f\<lparr>ff_held := Some x, ff_queue := xs\<rparr>)"
proof -
  let ?m = "im_mem (ss_im s)"
  from ring_simE [OF assms(1,2)] obtain b where
    b: "ring_window ?m rb e cnt S b (blocks f) (ff_phase f = Done)" "writer_at rb e cnt S b s f"
    "consumer_at rb e cnt S b s f" "rw_todo (ss_writer s) = ff_todo f" "ss_out s = ff_out f" "rw_phase (ss_writer s) = ff_phase f"
    by metis
  let ?f = "f\<lparr>ff_held := Some x, ff_queue := xs\<rparr>"
  let ?p = "ring_pos rb e cnt S b"
  have blocks: "blocks f = x # xs" "blocks ?f = x # xs" using assms(3,4) by (simp_all add: blocks_def)
  from b(3) obtain ih i where ih: "\<not> bi_lat (ss_iter s)" "bi_pointer (ss_iter s) \<le> 1" "ss_held s = None"
    "bi_iters (ss_iter s) = [ih]" "si_rdmaBuffer (ih_iter ih) = rb" "si_header (ih_iter ih) = InBuffer ?p"
    "i < length (im_heap (ss_im s))" "si_header (ih_prev ih) = OnHeap i" "\<not> isEndSegment (im_heap (ss_im s) ! i)"
    by (auto simp: consumer_at_None [OF assms(3)])
  have hold: "seg_holds ?m ?p x (ff_phase f = Done \<and> xs = [])" using b(1) blocks by (intro window_first) simp
  let ?im = "assign (OnHeap i) (released (deref (OnHeap i) (ss_im s))) (ss_im s)"
  have mem: "im_mem ?im = ?m" by (simp add: assign_def)
  have run: "session_consumer s = Inr (s\<lparr>ss_iter := (ss_iter s)\<lparr>bi_pointer := 1,
      bi_iters := [ih\<lparr>ih_prev := ih_iter ih, ih_iter := si_next (ih_iter ih) ?im\<rparr>]\<rparr>, ss_im := ?im,
      ss_held := Some (InBuffer ?p, counter (get_header ?m ?p)), ss_out := ss_out s @ held_bytes s\<rparr>)" (is "_ = Inr ?t")
    using ih hold mem by (intro consumer_takes) (simp_all add: deref_def seg_holds_def)
  have "nextSegmentOffset (get_header ?m ?p) = seg_at e (S + 24) (Suc b mod cnt)"
    using b(1) assms(5) by (intro linked_next) (auto simp: ring_window_def)
  then have "consumer_at rb e cnt S b ?t ?f"
    using ih(1,5,6) hold mem
    by (simp add: consumer_at_Some [of ?f x] si_next_sel seg_holds_def ring_pos_def)
  moreover have "writer_at rb e cnt S b ?t ?f" using b(2) by (simp add: writer_at_def Let_def blocks mem)
  moreover have "held_bytes s = []" by (simp add: held_bytes_def ih(3))
  ultimately have "ring_sim rb e cnt S ?t ?f"
    using b(1,4-6) assms(2) mem by (auto simp: ring_sim_def blocks)
  with run show ?thesis by blast
qed

text \<open>Every further segment: the one before goes back to the writer.\<close>

lemma sim_further:
  assumes "ring_sim rb e cnt S s f" "fifo_ok cnt S f" "\<not> ff_over f" "ff_held f = Some y" "ff_queue f = x # xs" "2 \<le> cnt"
  shows "\<exists>t. session_consumer s = Inr t \<and>
    ring_sim rb e cnt S t (f\<lparr>ff_out := ff_out f @ y, ff_held := Some x, ff_queue := xs\<rparr>)"
proof -
  let ?m = "im_mem (ss_im s)"
  from ring_simE [OF assms(1,3)] obtain b where
    b: "ring_window ?m rb e cnt S b (blocks f) (ff_phase f = Done)" "writer_at rb e cnt S b s f"
    "consumer_at rb e cnt S b s f" "rw_todo (ss_writer s) = ff_todo f" "ss_out s = ff_out f" "rw_phase (ss_writer s) = ff_phase f"
    by metis
  let ?f = "f\<lparr>ff_out := ff_out f @ y, ff_held := Some x, ff_queue := xs\<rparr>"
  let ?p = "ring_pos rb e cnt S b" and ?q = "ring_pos rb e cnt S (Suc b)"
  have blocks: "blocks f = y # x # xs" "blocks ?f = x # xs" using assms(4,5) by (simp_all add: blocks_def)
  from b(3) obtain ih where ih: "\<not> bi_lat (ss_iter s)" "bi_pointer (ss_iter s) \<le> 1"
    "ss_held s = Some (InBuffer ?p, length y)"
    "bi_iters (ss_iter s) = [ih]" "si_rdmaBuffer (ih_iter ih) = rb" "si_header (ih_iter ih) = InBuffer ?q"
    "si_header (ih_prev ih) = InBuffer ?p"
    by (auto simp: consumer_at_Some [OF assms(4)])
  let ?m' = "put_header ?m ?p (released (get_header ?m ?p))"
  let ?im = "assign (InBuffer ?p) (released (deref (InBuffer ?p) (ss_im s))) (ss_im s)"
  have mem: "im_mem ?im = ?m'" by (simp add: assign_def deref_def)
  have win: "ring_window ?m' rb e cnt S (Suc b) (x # xs) (ff_phase f = Done)"
    using b(1) by (intro window_release [where x = y]) (simp_all add: blocks)
  have first: "seg_holds ?m ?p y False" using window_first b(1) blocks by fastforce
  have hold: "seg_holds ?m' ?q x (ff_phase f = Done \<and> xs = [])" by (rule window_first [OF win])
  have apart: "Suc b mod cnt \<noteq> b mod cnt" using window_mod_neq [of 1 cnt 0 b] assms(6) by simp
  have hdr: "get_header ?m' (ring_pos rb e cnt S i) = get_header ?m (ring_pos rb e cnt S i)" if "i mod cnt \<noteq> b mod cnt" for i
    using that by (simp add: header_pos_put)
  have run: "session_consumer s = Inr (s\<lparr>ss_iter := (ss_iter s)\<lparr>bi_pointer := 1,
      bi_iters := [ih\<lparr>ih_prev := ih_iter ih, ih_iter := si_next (ih_iter ih) ?im\<rparr>]\<rparr>, ss_im := ?im,
      ss_held := Some (InBuffer ?q, counter (get_header ?m ?q)), ss_out := ss_out s @ held_bytes s\<rparr>)" (is "_ = Inr ?t")
    using ih hold first mem hdr [OF apart] by (intro consumer_takes) (simp_all add: deref_def seg_holds_def)
  have "nextSegmentOffset (get_header ?m' ?q) = seg_at e (S + 24) (Suc (Suc b) mod cnt)"
    using win assms(6) by (intro linked_next) (auto simp: ring_window_def)
  then have "consumer_at rb e cnt S (Suc b) ?t ?f"
    using ih(1,5,6) hold mem hdr [OF apart]
    by (simp add: consumer_at_Some [of ?f x] si_next_sel seg_holds_def ring_pos_def)
  moreover have "writer_at rb e cnt S (Suc b) ?t ?f"
  proof (cases "ff_phase f = Filling")
    case True
    then have room: "Suc (Suc (length xs)) < cnt" "length (ff_cur f) \<le> S"
      using assms(2) blocks by (auto simp: fifo_ok_def)
    then have "(b + Suc (Suc (length xs))) mod cnt \<noteq> b mod cnt" using window_mod_neq [of "Suc (Suc (length xs))" cnt 0 b] by simp
    note same = hdr [OF this]
    let ?w = "ring_pos rb e cnt S (Suc b + length (x # xs))"
    have "mem_read ?m' (?w + 24) (length (ff_cur f)) = mem_read ?m (?w + 24) (length (ff_cur f))"
      using payload_put [OF room(2), of ?m rb e "b mod cnt" "released (get_header ?m ?p)" "(Suc b + length (x # xs)) mod cnt"]
      by (simp add: ring_pos_def payload_def)
    with same b(2) True show ?thesis by (simp add: writer_at_def Let_def blocks mem)
  next
    case False
    then show ?thesis using b(2) by (simp add: writer_at_def Let_def blocks)
  qed
  moreover have "held_bytes s = y" using sim_held [OF assms(1,2)] assms(4) by simp
  ultimately have "ring_sim rb e cnt S ?t ?f"
    using win b(4-6) assms(3) mem by (auto simp: ring_sim_def blocks)
  with run show ?thesis by blast
qed

text \<open>The end, and a round that finds nothing.\<close>

lemma sim_end:
  assumes "ring_sim rb e cnt S s f" "fifo_ok cnt S f" "\<not> ff_over f" "ff_phase f = Done" "ff_queue f = []"
  shows "\<exists>t. session_consumer s = Inr t \<and>
    ring_sim rb e cnt S t (f\<lparr>ff_out := ff_out f @ concat (blocks f), ff_held := None, ff_over := True\<rparr>)"
proof -
  from ring_simE [OF assms(1,3)] obtain b where
    b: "ring_window (im_mem (ss_im s)) rb e cnt S b (blocks f) True" 
    "consumer_at rb e cnt S b s f" "rw_todo (ss_writer s) = ff_todo f" "ss_out s = ff_out f" "rw_phase (ss_writer s) = Done"
    using assms(4) by metis
  obtain x where x: "ff_held f = Some x" "blocks f = [x]"
    using assms(2-5) by (auto simp: fifo_ok_def blocks_def split: option.splits)
  from b(2) obtain ih where ih: "\<not> bi_lat (ss_iter s)" "bi_pointer (ss_iter s) \<le> 1" "bi_iters (ss_iter s) = [ih]"
    "si_header (ih_prev ih) = InBuffer (ring_pos rb e cnt S b)"
    by (auto simp: consumer_at_Some [OF x(1)])
  have "isEndSegment (deref (si_header (ih_prev ih)) (ss_im s))"
    using window_first [of _ _ _ _ _ _ x "[]"] b(1) x(2) ih(4) by (fastforce simp: seg_holds_def deref_def)
  from consumer_ends [OF ih(3,1,2) this] sim_held [OF assms(1,2)] x b(3-5) assms(4) show ?thesis
    by (auto simp: ring_sim_def)
qed

lemma sim_poll:
  assumes "ring_sim rb e cnt S s f" "fifo_ok cnt S f" "\<not> ff_over f" "ff_phase f \<noteq> Done" "ff_queue f = []" "2 \<le> cnt"
  shows "\<exists>t. session_consumer s = Inr t \<and> ring_sim rb e cnt S t f"
proof -
  from ring_simE [OF assms(1,3)] obtain b where
    b: "ring_window (im_mem (ss_im s)) rb e cnt S b (blocks f) False" "writer_at rb e cnt S b s f"
    "consumer_at rb e cnt S b s f" "rw_todo (ss_writer s) = ff_todo f" "ss_out s = ff_out f" "rw_phase (ss_writer s) = ff_phase f"
    using assms(4) by metis
  have next_free: "\<not> isConsumable (get_header (im_mem (ss_im s)) (ring_pos rb e cnt S (b + length (blocks f))))"
    using b(1) assms(5,6) by (auto simp: ring_window_def fresh_header_def blocks_def split: option.splits)
  have "\<exists>ih. bi_iters (ss_iter s) = [ih] \<and> bi_pointer (ss_iter s) \<le> 1 \<and>
    \<not> isEndSegment (deref (si_header (ih_prev ih)) (ss_im s)) \<and> \<not> isConsumable (deref (si_header (ih_iter ih)) (ss_im s))"
  proof (cases "ff_held f")
    case None
    then show ?thesis using b(3) next_free assms(5) by (auto simp: consumer_at_None deref_def blocks_def)
  next
    case (Some x)
    then have "blocks f = [x]" using assms(5) by (simp add: blocks_def)
    then show ?thesis
      using Some b(1,3) next_free window_first [of _ _ _ _ _ _ x "[]"]
      by (fastforce simp: consumer_at_Some deref_def seg_holds_def)
  qed
  then obtain ih where "bi_iters (ss_iter s) = [ih]" "bi_pointer (ss_iter s) \<le> 1"
    "\<not> isEndSegment (deref (si_header (ih_prev ih)) (ss_im s))" "\<not> isConsumable (deref (si_header (ih_iter ih)) (ss_im s))"
    by blast
  note run = consumer_polls [OF this]
  have "consumer_at rb e cnt S b (s\<lparr>ss_iter := (ss_iter s)\<lparr>bi_pointer := 1\<rparr>\<rparr>) f"
    using b(3) by (cases "ff_held f") (simp_all add: consumer_at_None consumer_at_Some)
  moreover have "writer_at rb e cnt S b (s\<lparr>ss_iter := (ss_iter s)\<lparr>bi_pointer := 1\<rparr>\<rparr>) f"
    using b(2) by (simp add: writer_at_def)
  ultimately show ?thesis using run b assms(3,4) by (auto simp: ring_sim_def)
qed

lemma sim_consumer:
  assumes "ring_sim rb e cnt S s f" "fifo_ok cnt S f" "2 \<le> cnt"
  shows "\<exists>t. session_consumer s = Inr t \<and> ring_sim rb e cnt S t (fifo_consumer f)"
proof (cases rule: fifo_consumer_cases [of f])
  case idle
  show ?thesis
  proof (cases "ff_over f")
    case True
    then have "session_consumer s = Inr s" using assms(1) by (simp add: ring_sim_def session_consumer_def)
    with assms(1) idle(1) show ?thesis by simp
  next
    case False
    with idle sim_poll [OF assms(1,2) _ _ _ assms(3)] show ?thesis by simp
  qed
next
  case first
  from sim_first [OF assms(1) first(2-4) assms(3)] first(1) show ?thesis by simp
next
  case further
  from sim_further [OF assms(1,2) further(2-4) assms(3)] further(1) show ?thesis by simp
next
  case finish
  from sim_end [OF assms(1,2) finish(2-4)] finish(1) show ?thesis by simp
qed

lemma sim_fresh:
  assumes "ring_fresh (im_mem (ss_im s)) rb e cnt (S + 24)" "0 < cnt" "ss_held s = None" "ss_out s = []"
    and "ss_writer s = \<lparr>rw_phase = Filling, rw_offset = e, rw_next = 0, rw_used = 0,
       rw_header = get_header (im_mem (ss_im s)) (rb + e), rw_todo = chunks\<rparr>"
    and "\<not> bi_lat (ss_iter s)" "bi_pointer (ss_iter s) \<le> 1" "bi_iters (ss_iter s) = [ih]" "si_rdmaBuffer (ih_iter ih) = rb"
    and "si_header (ih_iter ih) = InBuffer (rb + e)" "i < length (im_heap (ss_im s))" "si_header (ih_prev ih) = OnHeap i"
    and "\<not> isEndSegment (im_heap (ss_im s) ! i)"
  shows "ring_sim rb e cnt S s (fifo_start chunks)"
proof -
  have pos: "ring_pos rb e cnt S 0 = rb + e" by (simp add: ring_pos_def seg_at_def)
  have "ring_window (im_mem (ss_im s)) rb e cnt S 0 [] False"
    using assms(1,2) by (auto simp: ring_window_def ring_fresh_def ring_pos_def)
  moreover have "consumer_at rb e cnt S 0 s (fifo_start chunks)"
    using assms(3,6-13) by (auto simp: consumer_at_None fifo_start_def pos)
  moreover have "writer_at rb e cnt S 0 s (fifo_start chunks)"
    by (simp add: writer_at_def fifo_start_def blocks_def pos assms(5))
  ultimately show ?thesis using assms(4,5) by (auto simp: ring_sim_def fifo_start_def blocks_def intro!: exI [of _ 0])
qed

lemma sim_start:
  assumes "bh_entrySegments hdl = [seg]" "ring_fresh m rb (seg_offset seg) cnt (S + 24)" "0 < cnt"
  shows "ring_sim rb (seg_offset seg) cnt S (session_start hdl rb m chunks) (fifo_start chunks)"
proof -
  obtain b im where it: "getIterator hdl rb m = (b, im)" by force
  have at: "iter_at rb (seg_offset seg) S cnt 0 b im" "im_mem im = m" using iter_start [OF it assms(1) refl assms(3)] by simp_all
  then obtain ih i where ih: "\<not> bi_lat b" "bi_pointer b \<le> 1" "bi_iters b = [ih]" "si_rdmaBuffer (ih_iter ih) = rb"
    "si_header (ih_iter ih) = InBuffer (rb + seg_offset seg)" "i < length (im_heap im)" "si_header (ih_prev ih) = OnHeap i"
    "\<not> isEndSegment (im_heap im ! i)"
    using assms(3) by (auto simp: iter_at_def seg_at_def)
  show ?thesis
    using assms(1-3) it at(2) ih by (intro sim_fresh [where ih = ih and i = i]) (simp_all add: session_start_def Let_def)
qed

lemma ring_channel:
  assumes "2 \<le> cnt" "0 < S" "S < 2 ^ 64"
  shows "channel cnt S (ring_sim rb e cnt S) (session_writer rb S) session_consumer ss_out held_bytes session_over"
proof
  show "2 \<le> cnt" "0 < S" by (fact assms)+
next
  fix s f assume s: "ring_sim rb e cnt S s f" "fifo_ok cnt S f"
  show "ring_sim rb e cnt S (session_writer rb S s) (fifo_writer cnt S f)"
    using assms by (intro sim_writer [OF s]) simp_all
  show "\<exists>t. session_consumer s = Inr t \<and> ring_sim rb e cnt S t (fifo_consumer f)"
    by (rule sim_consumer [OF s assms(1)])
  show "ss_out s = ff_out f \<and> held_bytes s = (case ff_held f of None \<Rightarrow> [] | Some x \<Rightarrow> x) \<and> session_over s = ff_over f"
    using s(1) sim_held [OF s] by (auto simp: ring_sim_def session_over_def consumer_at_def split: if_splits)
qed

lemma session_started:
  assumes "bh_entrySegments hdl = [seg]" "ring_fresh m rb (seg_offset seg) cnt (S + 24)"
    and "2 \<le> cnt" "0 < S" "S < 2 ^ 64"
  shows "channel cnt S (ring_sim rb (seg_offset seg) cnt S) (session_writer rb S) session_consumer ss_out held_bytes session_over"
    "ring_sim rb (seg_offset seg) cnt S (session_start hdl rb m chunks) (fifo_start chunks)"
    "fifo_ok cnt S (fifo_start chunks)"
  using ring_channel [OF assms(3-5)] sim_start [OF assms(1,2)] fifo_start_ok [of cnt S] assms(3) by simp_all

text \<open>A ring of two segments with four bytes of payload each.\<close>

interpretation two_ring: channel 2 4 "ring_sim 4096 64 2 4" "session_writer 4096 4" session_consumer ss_out held_bytes session_over
  by (rule ring_channel) simp_all

definition two_handle :: BufferHandle where
  "two_handle = (newBufferHandle ''b'' 1 2 1 4 BW)\<lparr>bh_entrySegments := [\<lparr>seg_offset = 64, seg_size = 4\<rparr>]\<rparr>"

definition two_mem :: mem where
  "two_mem = write_ring 4096 64 2 28 (\<lambda>_. 0)"

lemma two_handle_entry [simp]: "bh_entrySegments two_handle = [\<lparr>seg_offset = 64, seg_size = 4\<rparr>]"
  by (simp add: two_handle_def)

lemma two_mem_fresh: "ring_fresh two_mem 4096 64 2 28"
  using write_ring_correct(1) [of 2 28 64 4096 "\<lambda>_. 0"] by (simp add: two_mem_def seg_at_def)

section \<open>A ring of one segment\<close>

text \<open>
  The segment of such a ring is its own successor: after the first \<open>next\<close> the iterator's current and previous
  segment are the same.
\<close>

definition stuck_on :: "nat \<Rightarrow> nat \<Rightarrow> BufferIterator \<Rightarrow> bool" where
  "stuck_on rb e b \<longleftrightarrow> \<not> bi_lat b \<and> bi_pointer b \<le> 1 \<and>
     (\<exists>ih. bi_iters b = [ih] \<and> si_rdmaBuffer (ih_iter ih) = rb \<and>
        si_header (ih_iter ih) = InBuffer (rb + e) \<and> si_header (ih_prev ih) = InBuffer (rb + e))"

lemma single_next:
  assumes "stuck_on rb e b" "isConsumable (get_header (im_mem im) (rb + e))" "\<not> isEndSegment (get_header (im_mem im) (rb + e))"
    and "nextSegmentOffset (get_header (im_mem im) (rb + e)) = e"
  shows "\<exists>b'. wait_for_next b im = Inr (Some (InBuffer (rb + e), 0), b',
      im\<lparr>im_mem := upd_header released (im_mem im) (rb + e)\<rparr>) \<and> stuck_on rb e b'"
proof -
  from assms(1) obtain ih where ih: "\<not> bi_lat b" "bi_pointer b \<le> 1" "bi_iters b = [ih]" "si_rdmaBuffer (ih_iter ih) = rb"
    "si_header (ih_iter ih) = InBuffer (rb + e)" "si_header (ih_prev ih) = InBuffer (rb + e)"
    by (auto simp: stuck_on_def)
  have "has_next b im = Inr (True, b\<lparr>bi_pointer := 0\<rparr>, im)"
    using has_next_step_single [OF ih(3,2)] ih assms(2,3) by (simp add: has_next_def loopR_unfold deref_def)
  then have "wait_for_next b im = Inr (Some (InBuffer (rb + e), 0),
      b\<lparr>bi_iters := [ih\<lparr>ih_prev := ih_iter ih, ih_iter := si_next (ih_iter ih) (im\<lparr>im_mem := upd_header released (im_mem im) (rb + e)\<rparr>)\<rparr>],
        bi_pointer := 1\<rparr>, im\<lparr>im_mem := upd_header released (im_mem im) (rb + e)\<rparr>)"
    using ih assms(3)
    by (simp add: wait_for_next_def next_segment_def mark_prev_segment_def getRawData_def deref_def assign_def upd_header_def Let_def)
  moreover have "stuck_on rb e (b\<lparr>bi_iters := [ih\<lparr>ih_prev := ih_iter ih,
      ih_iter := si_next (ih_iter ih) (im\<lparr>im_mem := upd_header released (im_mem im) (rb + e)\<rparr>)\<rparr>], bi_pointer := 1\<rparr>)"
    using ih assms(4) by (simp add: stuck_on_def si_next_sel upd_header_def)
  ultimately show ?thesis by blast
qed

definition one_iterator :: BufferIterator where
  "one_iterator = \<lparr>bi_iters = [\<lparr>ih_iter = newSegmentIterator 64 4096, ih_end = newSegmentIterator 64 4096,
     ih_prev = newSegmentIterator 64 4096, ih_counterOffset = 56\<rparr>], bi_pointer = 1, bi_name = ''b'', bi_lat = False, bi_rdmaBuffer = 4096\<rparr>"

lemma one_iterator_stuck: "stuck_on 4096 64 one_iterator"
  by (simp add: stuck_on_def one_iterator_def newSegmentIterator_def)

section \<open>Properties\<close>

text \<open>
  A ring implements the bounded channel. However the turns of the writer and of the consumer are
  interleaved, no turn fails, and after any number of turns what the consumer has finished with, the bytes of
  the segment in its hands and whether its iterator has ended are those of the first-in first-out channel
  with as many places as the ring has segments. The bytes in the consumer's hands are read when it asks for the next segment:
  the writer does not overwrite them before, also when it goes round the ring many times.
\<close>

lemma ring_implements_channel:
  assumes "bh_entrySegments hdl = [seg]" "ring_fresh m rb (seg_offset seg) cnt (S + 24)"
    and "2 \<le> cnt" "0 < S" "S < 2 ^ 64"
  shows "\<exists>t. sched_run (session_writer rb S) session_consumer sched n (session_start hdl rb m chunks) = Inr t \<and>
    (let f = fifo_run cnt S sched n (fifo_start chunks) in
     ss_out t = ff_out f \<and> held_bytes t = (case ff_held f of None \<Rightarrow> [] | Some x \<Rightarrow> x) \<and> session_over t = ff_over f)"
proof -
  note start = session_started [OF assms(1-5)]
  from channel.run_refines [OF start] obtain t where
    t: "sched_run (session_writer rb S) session_consumer sched n (session_start hdl rb m chunks) = Inr t"
    "ring_sim rb (seg_offset seg) cnt S t (fifo_run cnt S sched n (fifo_start chunks))"
    by blast
  from channel.sim_view [OF start(1) t(2)] fifo_run_ok [OF start(3)] t(1) show ?thesis by (simp add: Let_def)
qed

lemma ring_implements_channel_instance:
  "\<exists>t. sched_run (session_writer 4096 4) session_consumer even 9 (session_start two_handle 4096 two_mem [[1, 2, 3, 4, 5, 6]]) = Inr t \<and>
    (let f = fifo_run 2 4 even 9 (fifo_start [[1, 2, 3, 4, 5, 6]]) in
     ss_out t = ff_out f \<and> held_bytes t = (case ff_held f of None \<Rightarrow> [] | Some x \<Rightarrow> x) \<and> session_over t = ff_over f)"
  by (rule ring_implements_channel [where seg = "\<lparr>seg_offset = 64, seg_size = 4\<rparr>"])
    (use two_mem_fresh in \<open>simp_all\<close>)

text \<open>
  Nothing is overwritten before it is read. In every state that an interleaving of the two sides
  reaches, the bytes the consumer has finished with followed by those of the segment in its hands are a prefix
  of the stream the writer was given; when the iterator has ended they are the whole stream.
\<close>

lemma ring_session_safe:
  assumes "bh_entrySegments hdl = [seg]" "ring_fresh m rb (seg_offset seg) cnt (S + 24)"
    and "2 \<le> cnt" "0 < S" "S < 2 ^ 64"
    and "reaches (session_writer rb S) session_consumer (session_start hdl rb m chunks) t"
  shows "if session_over t then ss_out t = concat chunks else prefix (ss_out t @ held_bytes t) (concat chunks)"
proof -
  note start = session_started [OF assms(1-5)]
  from channel.reaches_safe [OF start(1) assms(6) start(2,3)] show ?thesis by simp
qed

lemma ring_session_safe_instance:
  "let t = session_writer 4096 4 (session_writer 4096 4 (session_start two_handle 4096 two_mem [[1, 2, 3, 4, 5, 6]])) in
   if session_over t then ss_out t = [1, 2, 3, 4, 5, 6] else prefix (ss_out t @ held_bytes t) [1, 2, 3, 4, 5, 6]"
proof -
  let ?s = "session_start two_handle 4096 two_mem [[1, 2, 3, 4, 5, 6]]"
  have "reaches (session_writer 4096 4) session_consumer ?s (session_writer 4096 4 (session_writer 4096 4 ?s))"
    by (intro reaches.intros)
  with ring_session_safe [of two_handle "\<lparr>seg_offset = 64, seg_size = 4\<rparr>" two_mem 4096 2 4 "[[1, 2, 3, 4, 5, 6]]"
      "session_writer 4096 4 (session_writer 4096 4 ?s)"] two_mem_fresh
  show ?thesis by (simp add: Let_def cong: if_cong)
qed

text \<open>
  The stream always arrives. Under every schedule that lets both sides run again and again, the
  consumer's iterator comes to its end after finitely many turns and the consumer has then read exactly the
  stream, however much longer than the ring it is. In particular the two sides never wait for each other.
\<close>

lemma ring_delivers:
  assumes "bh_entrySegments hdl = [seg]" "ring_fresh m rb (seg_offset seg) cnt (S + 24)"
    and "2 \<le> cnt" "0 < S" "S < 2 ^ 64" "fair sched"
  shows "\<exists>n t. sched_run (session_writer rb S) session_consumer sched n (session_start hdl rb m chunks) = Inr t \<and>
    session_over t \<and> ss_out t = concat chunks"
proof -
  note start = session_started [OF assms(1-5)]
  from channel.run_delivers [OF start assms(6)] show ?thesis by simp
qed

lemma ring_delivers_instance:
  "\<exists>n t. sched_run (session_writer 4096 4) session_consumer (\<lambda>i. i mod 3 \<noteq> 2) n
      (session_start two_handle 4096 two_mem [[1, 2, 3, 4, 5, 6], [7, 8], [9, 10, 11, 12, 13]]) = Inr t \<and>
    session_over t \<and> ss_out t = [1, 2, 3, 4, 5, 6, 7, 8, 9, 10, 11, 12, 13]"
proof -
  have "\<exists>m \<ge> n. (m mod 3 \<noteq> 2) = side" for n :: nat and side
  proof (cases side)
    case True
    then show ?thesis by (intro exI [of _ "3 * n"]) auto
  next
    case False
    moreover have "(3 * n + 2) mod 3 = 2" by presburger
    ultimately show ?thesis by (intro exI [of _ "3 * n + 2"]) auto
  qed
  then have "fair (\<lambda>i. i mod 3 \<noteq> 2)" by (simp add: fair_def)
  with ring_delivers [of two_handle "\<lparr>seg_offset = 64, seg_size = 4\<rparr>" two_mem 4096 2 4 "\<lambda>i. i mod 3 \<noteq> 2"
      "[[1, 2, 3, 4, 5, 6], [7, 8], [9, 10, 11, 12, 13]]"] two_mem_fresh
  show ?thesis by simp
qed

text \<open>
  Claim C24. A bound on the number of turns, for one writer and one consumer on a fresh ring of at least two segments (with
  one segment data is lost: \<open>single_segment_ring_loses\<close>). When the two sides take turns, everything has been delivered after
  twelve turns for every byte and four for every chunk of the stream, plus fourteen.
\<close>

theorem ring_turns_bound:
  assumes "bh_entrySegments hdl = [seg]" "ring_fresh m rb (seg_offset seg) cnt (S + 24)"
    and "2 \<le> cnt" "0 < S" "S < 2 ^ 64"
  shows "\<exists>t. sched_run (session_writer rb S) session_consumer even
      (12 * length (concat chunks) + 4 * length chunks + 14) (session_start hdl rb m chunks) = Inr t \<and>
    session_over t \<and> ss_out t = concat chunks"
proof -
  note start = session_started [OF assms(1-5)]
  from channel.run_bound [OF start fifo_rank_start] show ?thesis by (simp add: algebra_simps)
qed

theorem ring_turns_bound_witness:
  "\<exists>t. sched_run (session_writer 4096 4) session_consumer even 174
      (session_start two_handle 4096 two_mem [[1, 2, 3, 4, 5, 6, 7, 8, 9, 10, 11, 12, 13]]) = Inr t \<and>
    session_over t \<and> ss_out t = [1, 2, 3, 4, 5, 6, 7, 8, 9, 10, 11, 12, 13]"
  using ring_turns_bound [of two_handle "\<lparr>seg_offset = 64, seg_size = 4\<rparr>" two_mem 4096 2 4
      "[[1, 2, 3, 4, 5, 6, 7, 8, 9, 10, 11, 12, 13]]"] two_mem_fresh
  by simp

text \<open>
  Claim C35. A ring of one segment loses data. Once the consumer has been handed the only segment, every
  further call of \<open>next\<close> that finds it published gives it back to the writer before it looks at the size: the
  segment is handed out with size zero whatever the writer had published, its counter is cleared and it is
  free to be overwritten.
\<close>

theorem single_segment_ring_loses:
  assumes "stuck_on rb e b" "ring_linked (im_mem im) rb e 1 sz" "full_header n (get_header (im_mem im) (rb + e))"
  shows "\<exists>b' im'. wait_for_next b im = Inr (Some (InBuffer (rb + e), 0), b', im') \<and> stuck_on rb e b' \<and>
    fresh_header (get_header (im_mem im') (rb + e)) \<and> mem_read (im_mem im') (rb + e + 24) n = mem_read (im_mem im) (rb + e + 24) n"
proof -
  have "nextSegmentOffset (get_header (im_mem im) (rb + e)) = e" using assms(2) by (simp add: ring_linked_def seg_at_def)
  moreover have "isConsumable (get_header (im_mem im) (rb + e))" "\<not> isEndSegment (get_header (im_mem im) (rb + e))"
    using assms(3) by (simp_all add: full_header_def)
  ultimately obtain b' where "wait_for_next b im = Inr (Some (InBuffer (rb + e), 0), b',
      im\<lparr>im_mem := upd_header released (im_mem im) (rb + e)\<rparr>)" "stuck_on rb e b'"
    using single_next [OF assms(1)] by blast
  then show ?thesis
    using assms(3) by (auto simp: upd_header_def fresh_header_def full_header_def mem_read_put_disjoint)
qed

theorem single_segment_ring_loses_witness:
  "\<exists>b' im'. wait_for_next one_iterator
      \<lparr>im_mem = put_header (\<lambda>_. 7) 4160 (published 4 (header_init\<lparr>nextSegmentOffset := 64\<rparr>)), im_heap = []\<rparr> =
        Inr (Some (InBuffer 4160, 0), b', im') \<and> stuck_on 4096 64 b' \<and>
    fresh_header (get_header (im_mem im') 4160) \<and> mem_read (im_mem im') 4184 4 = [7, 7, 7, 7]"
proof -
  let ?im = "\<lparr>im_mem = put_header (\<lambda>_. 7) 4160 (published 4 (header_init\<lparr>nextSegmentOffset := 64\<rparr>)), im_heap = []\<rparr>"
  have "header_ok (published 4 (header_init\<lparr>nextSegmentOffset := 64\<rparr>))" by (simp add: header_ok_def)
  then have h: "get_header (im_mem ?im) 4160 = published 4 (header_init\<lparr>nextSegmentOffset := 64\<rparr>)" by simp
  have "ring_linked (im_mem ?im) 4096 64 1 28" "full_header 4 (get_header (im_mem ?im) (4096 + 64))"
    using h by (simp_all add: ring_linked_def seg_at_def full_header_def)
  from single_segment_ring_loses [OF one_iterator_stuck this] show ?thesis
    by (simp add: mem_read_put_disjoint) (simp add: mem_read_def upt_rec)
qed

end
