(* ===== verification/Writer_Turns.thy ===== *)
theory Writer_Turns
  imports Ring_Protocol
begin

text \<open>
  The writer of \<open>Ring_Protocol\<close> is the writer of the code: on a reliable connection \<open>writeToSegment\<close>,
  \<open>getNextSegment\<close> and \<open>close\<close> of \<open>BufferWriterBW\<close> do to the peer's memory and to the writer's state exactly what
  the corresponding turns do.
\<close>

section \<open>The writer as the protocol sees it\<close>

definition writer_view :: "nat \<Rightarrow> nat \<Rightarrow> byte list list \<Rightarrow> writer_bw \<Rightarrow> 'd world \<Rightarrow> ring_writer" where
  "writer_view h nxt todo s w =
     \<lparr>rw_phase = Filling,
      rw_offset = (case bw_localBufferSegment s of None \<Rightarrow> 0 | Some seg \<Rightarrow> seg_offset seg),
      rw_next = nxt, rw_used = bw_sizeUsed s, rw_header = get_header (lmem w) h, rw_todo = todo\<rparr>"

lemma writer_turn_waiting:
  "rw_phase s = Waiting \<Longrightarrow> isWriteable (get_header m (rb + rw_next s)) \<Longrightarrow>
     writer_turn rb S s m = (s\<lparr>rw_phase := Filling, rw_offset := rw_next s, rw_used := 0,
       rw_header := get_header m (rb + rw_next s)\<rparr>, m)"
  by (simp add: writer_turn_def Let_def)

text \<open>A writer that is set up: client, header and internal buffer, the latter used up to \<open>off\<close>.\<close>

definition writer_set_up ::
  "nat \<Rightarrow> ibv_qp \<Rightarrow> nat \<Rightarrow> nat \<Rightarrow> nat \<Rightarrow> nat \<Rightarrow> nat \<Rightarrow> nat \<Rightarrow> nat \<Rightarrow> nat \<Rightarrow> writer_bw \<Rightarrow> bool" where
  "writer_set_up limit p cq lkey rkey rb h ptr cap off s \<longleftrightarrow>
     client_on limit (bh_node_id (bw_handle s)) p cq lkey rkey rb (bw_client s) \<and> bw_segmentHeader s = Some h \<and>
     bw_internalBuffer s = Some \<lparr>ib_bufferPtr = ptr, ib_size = cap, ib_offset = off\<rparr> \<and> off \<le> cap"

context ring_stream
begin

lemma set_up_conn:
  "writer_set_up (cfg_RDMA_MAX_WR cfg) p cq lkey rkey rb h ptr cap off s \<Longrightarrow> up w \<Longrightarrow> \<not> pend w \<Longrightarrow>
     posted w \<le> cl_countWR (bw_client s) \<Longrightarrow> busy w \<subseteq> {ptr..<ptr + off} \<Longrightarrow> conn_ok off s w"
  by (simp add: writer_set_up_def conn_ok_def ready_def)

lemma write_is_turn:
  assumes "conn_ok off s w" "bw_localBufferSegment s = Some seg" "seg_offset seg = seg_at e (S + 24) k" "k < cnt"
    and "get_header (lmem w) h = get_header (rmem w) (rb + seg_at e (S + 24) k)"
    and "bw_sizeUsed s + n \<le> S" "n \<le> cap" "{d..<d + n} \<inter> lreg = {}"
  shows "\<exists>s' w'. bw_writeToSegment V cfg seg (bw_sizeUsed s) n d s w = Inr (True, s', w') \<and>
    writer_turn rb S (writer_view h nxt (mem_read (lmem w) d n # todo) s w) (rmem w) =
      (writer_view h nxt todo (s'\<lparr>bw_sizeUsed := bw_sizeUsed s + n\<rparr>) w', rmem w')"
  using write_segment_ok [OF assms(1,4,6-8,5,3)] assms(2,3,6)
  by (fastforce simp: writer_turn_def writer_view_def)

lemma close_is_turn:
  assumes "conn_ok off s w" "bw_localBufferSegment s = Some seg" "seg_offset seg = seg_at e (S + 24) k" "k < cnt"
    and "bw_sizeUsed s \<le> S"
  shows "\<exists>s' w'. bw_close V cfg s w = Inr (True, s', w') \<and>
    writer_turn rb S (writer_view h nxt [] s w) (rmem w) = ((writer_view h nxt [] s' w')\<lparr>rw_phase := Done\<rparr>, rmem w')"
proof -
  let ?pub = "ended (bw_sizeUsed s) (get_header (lmem w) h)"
  let ?w = "w\<lparr>lmem := put_header (lmem w) h ?pub\<rparr>"
  have "header_ok ?pub" using seg_fits [OF assms(4), of "bw_sizeUsed s"] assms(5) by simp
  moreover note st = conn_ok_put_header [OF assms(1), of ?pub]
  ultimately obtain c w1 where w1: "bw_writeHeaderToRemote V cfg (seg_at e (S + 24) k) s ?w = Inr (True, s\<lparr>bw_client := c\<rparr>, w1)"
    "rmem w1 = put_header (rmem w) (rb + seg_at e (S + 24) k) ?pub" "get_header (lmem w1) h = ?pub"
    using write_header_ok [OF st(1) assms(4)] by auto
  have "bw_close V cfg s w = Inr (True, s\<lparr>bw_client := c\<rparr>, w1)"
    using assms(1-3) w1(1) by (simp add: bw_close_def bw_header_def conn_ok_def Let_def ended_def)
  with w1(2,3) assms(2,3) show ?thesis by (simp add: writer_turn_def writer_view_def Let_def)
qed

text \<open>\<open>getNextSegment\<close> publishes, and its poll finds the next segment writeable.\<close>

lemma get_next_is_turns:
  assumes "conn_ok off s w" "bw_localBufferSegment s = Some seg" "seg_offset seg = seg_at e (S + 24) k" "k < cnt"
    and "get_header (lmem w) h = get_header (rmem w) (rb + seg_at e (S + 24) k)"
    and "bw_sizeUsed s = S" "ch \<noteq> []" "2 \<le> cnt" "ring_linked (rmem w) rb e cnt (S + 24)"
    and "isWriteable (get_header (rmem w) (rb + seg_at e (S + 24) (Suc k mod cnt)))"
  shows "\<exists>s' w'. bw_getNextSegment V cfg s w = Inr (s', w') \<and>
    (case writer_turn rb S (writer_view h nxt (ch # todo) s w) (rmem w) of (wr, m) \<Rightarrow> writer_turn rb S wr m) =
      (writer_view h (seg_at e (S + 24) (Suc k mod cnt)) (ch # todo) (s'\<lparr>bw_sizeUsed := 0\<rparr>) w', rmem w') \<and>
    bw_localBufferSegment s' = Some (seg\<lparr>seg_offset := seg_at e (S + 24) (Suc k mod cnt)\<rparr>)"
proof -
  let ?hd = "get_header (lmem w) h"
  let ?pub = "published S ?hd"
  let ?k = "Suc k mod cnt"
  let ?w = "w\<lparr>lmem := put_header (lmem w) h ?pub\<rparr>"
  have k: "?k < cnt" "?k \<noteq> k" using assms(8) window_mod_neq [of 1 cnt 0 k] assms(4) by auto
  have nxt: "nextSegmentOffset ?hd = seg_at e (S + 24) ?k" using assms(4,5,9) by (simp add: ring_linked_def)
  have ok: "header_ok ?pub" using seg_fits [OF assms(4), of S] by simp
  note st = conn_ok_put_header [OF assms(1), of ?pub]
  obtain c1 w1 where w1: "bw_writeHeaderToRemote V cfg (seg_at e (S + 24) k) s ?w = Inr (True, s\<lparr>bw_client := c1\<rparr>, w1)"
    "conn_ok off (s\<lparr>bw_client := c1\<rparr>) w1" "rmem w1 = put_header (rmem w) (rb + seg_at e (S + 24) k) ?pub"
    using write_header_ok [OF st(1) assms(4)] st(2) ok by auto
  obtain c2 w2 where w2: "bw_readHeaderFromRemote V cfg (seg_at e (S + 24) ?k) (s\<lparr>bw_client := c1\<rparr>) w1 =
      Inr (True, s\<lparr>bw_client := c2\<rparr>, w2)" "rmem w2 = rmem w1"
    "lmem w2 = put_header (lmem w1) h (get_header (rmem w1) (rb + seg_at e (S + 24) ?k))"
    using read_header_ok [OF w1(2) k(1)] by auto
  have hdr: "get_header (lmem w2) h = get_header (rmem w) (rb + seg_at e (S + 24) ?k)"
    using w2(3) w1(3) header_put_other [OF k(2)] by simp
  then have free: "isWriteable (get_header (lmem w2) h)" using assms(10) by simp
  let ?seg = "seg\<lparr>seg_offset := seg_at e (S + 24) ?k\<rparr>"
  have run: "bw_getNextSegment V cfg s w = Inr (s\<lparr>bw_client := c2, bw_localBufferSegment := Some ?seg,
      bw_handle := (bw_handle s)\<lparr>bh_entrySegments := (bh_entrySegments (bw_handle s))[0 := ?seg]\<rparr>\<rparr>, w2)"
    using assms(1-3,6) w1(1) w2(1) nxt free
    by (simp add: bw_getNextSegment_def bw_header_def conn_ok_def Let_def loopR_unfold published_def)
  have "writer_turn rb S (writer_view h nxt (ch # todo) s w) (rmem w) =
      ((writer_view h nxt (ch # todo) s w)\<lparr>rw_phase := Waiting, rw_next := seg_at e (S + 24) ?k,
        rw_header := ?pub\<rparr>, rmem w1)"
    using assms(2,3,6,7) nxt w1(3) by (simp add: writer_turn_def writer_view_def Let_def)
  moreover have "get_header (rmem w1) (rb + seg_at e (S + 24) ?k) = get_header (lmem w2) h"
    using w2(3) by simp
  ultimately show ?thesis
    using run free w2(2) by (simp add: writer_turn_waiting) (simp add: writer_view_def)
qed

end

section \<open>Properties\<close>

text \<open>
  Claim C14. Filling and closing are turns of the protocol. On a reliable connection, with a header copy equal to the current
  segment's header on the node, \<open>writeToSegment\<close> of data that fits into the current segment and the internal buffer, with or without the flush of the internal buffer, succeeds and changes the
  peer's memory and the writer's state, its header copy included, as one turn of the protocol's writer does. \<open>close\<close>
  succeeds and changes both as the closing turn does, after which the protocol's writer is done.
\<close>

theorem fill_and_close_are_turns:
  assumes "ring_stream V p cq lkey rkey lreg rreg slots up rmem due busy posted pend rank cfg rb e cnt S h ptr cap"
    and "writer_set_up (cfg_RDMA_MAX_WR cfg) p cq lkey rkey rb h ptr cap off s"
    and "up w" "\<not> pend w" "posted w \<le> cl_countWR (bw_client s)" "busy w \<subseteq> {ptr..<ptr + off}"
    and "bw_localBufferSegment s = Some seg" "seg_offset seg = seg_at e (S + 24) k" "k < cnt"
    and "get_header (lmem w) h = get_header (rmem w) (rb + seg_at e (S + 24) k)"
    and "bw_sizeUsed s + n \<le> S" "n \<le> cap" "{d..<d + n} \<inter> lreg = {}"
  shows "(\<exists>s' w'. bw_writeToSegment V cfg seg (bw_sizeUsed s) n d s w = Inr (True, s', w') \<and>
      writer_turn rb S (writer_view h nxt (mem_read (lmem w) d n # todo) s w) (rmem w) =
        (writer_view h nxt todo (s'\<lparr>bw_sizeUsed := bw_sizeUsed s + n\<rparr>) w', rmem w')) \<and>
    (\<exists>s' w'. bw_close V cfg s w = Inr (True, s', w') \<and>
      writer_turn rb S (writer_view h nxt [] s w) (rmem w) = ((writer_view h nxt [] s' w')\<lparr>rw_phase := Done\<rparr>, rmem w'))"
proof -
  note conn = ring_stream.set_up_conn [OF assms(1-6)]
  have "bw_sizeUsed s \<le> S" using assms(11) by simp
  with ring_stream.write_is_turn [OF assms(1) conn assms(7-13)] ring_stream.close_is_turn [OF assms(1) conn assms(7-9)]
  show ?thesis by blast
qed

theorem fill_and_close_are_turns_witness:
  "(\<exists>s' w'. bw_writeToSegment fab_verbs fab_config \<lparr>seg_offset = 64, seg_size = 16\<rparr> 0 10 32 fab_writer fab_world = Inr (True, s', w') \<and>
      writer_turn 65536 16 (writer_view 4096 0 [mem_read (lmem fab_world) 32 10] fab_writer fab_world) (fab_rmem fab_world) =
        (writer_view 4096 0 [] (s'\<lparr>bw_sizeUsed := 10\<rparr>) w', fab_rmem w')) \<and>
    (\<exists>s' w'. bw_close fab_verbs fab_config fab_writer fab_world = Inr (True, s', w') \<and>
      writer_turn 65536 16 (writer_view 4096 0 [] fab_writer fab_world) (fab_rmem fab_world) =
        ((writer_view 4096 0 [] s' w')\<lparr>rw_phase := Done\<rparr>, fab_rmem w'))"
  using fill_and_close_are_turns [OF fab_stream.ring_stream_axioms, of 0 fab_writer fab_world "\<lparr>seg_offset = 64, seg_size = 16\<rparr>" 0 10 32]
    fab_world_start fab_writer_fresh
  by (simp add: fab_lreg_def writer_set_up_def bw_fresh_def fab_writer_def seg_at_def)

text \<open>
  Claim C13. Moving on is two turns of the protocol. When the next segment of the ring is writeable,
  \<open>getNextSegment\<close> of a writer whose segment is full returns, also at the end of the ring, where the next segment is the
  entry segment: it has published the full segment and polled the next one once, and it stands at the start
  of that one.
\<close>

theorem getNextSegment_is_turns:
  assumes "ring_stream V p cq lkey rkey lreg rreg slots up rmem due busy posted pend rank cfg rb e cnt S h ptr cap"
    and "writer_set_up (cfg_RDMA_MAX_WR cfg) p cq lkey rkey rb h ptr cap off s"
    and "up w" "\<not> pend w" "posted w \<le> cl_countWR (bw_client s)" "busy w \<subseteq> {ptr..<ptr + off}"
    and "bw_localBufferSegment s = Some seg" "seg_offset seg = seg_at e (S + 24) k" "k < cnt"
    and "get_header (lmem w) h = get_header (rmem w) (rb + seg_at e (S + 24) k)"
    and "bw_sizeUsed s = S" "ch \<noteq> []" "2 \<le> cnt" "ring_linked (rmem w) rb e cnt (S + 24)"
    and "isWriteable (get_header (rmem w) (rb + seg_at e (S + 24) (Suc k mod cnt)))"
  shows "\<exists>s' w'. bw_getNextSegment V cfg s w = Inr (s', w') \<and>
    (case writer_turn rb S (writer_view h nxt (ch # todo) s w) (rmem w) of (wr, m) \<Rightarrow> writer_turn rb S wr m) =
      (writer_view h (seg_at e (S + 24) (Suc k mod cnt)) (ch # todo) (s'\<lparr>bw_sizeUsed := 0\<rparr>) w', rmem w') \<and>
    bw_localBufferSegment s' = Some (seg\<lparr>seg_offset := seg_at e (S + 24) (Suc k mod cnt)\<rparr>)"
  by (rule ring_stream.get_next_is_turns [OF assms(1) ring_stream.set_up_conn [OF assms(1-6)] assms(7-15)])

theorem getNextSegment_is_turns_witness:
  "let s = fab_writer\<lparr>bw_sizeUsed := 16, bw_localBufferSegment := Some \<lparr>seg_offset = 184, seg_size = 16\<rparr>\<rparr>;
       w = fab_world\<lparr>lmem := put_header (lmem fab_world) 4096 (get_header (fab_rmem fab_world) 65720)\<rparr>
   in \<exists>s' w'. bw_getNextSegment fab_verbs fab_config s w = Inr (s', w') \<and>
    (case writer_turn 65536 16 (writer_view 4096 0 [[1, 2, 3]] s w) (fab_rmem w) of (wr, m) \<Rightarrow> writer_turn 65536 16 wr m) =
      (writer_view 4096 64 [[1, 2, 3]] (s'\<lparr>bw_sizeUsed := 0\<rparr>) w', fab_rmem w') \<and>
    bw_localBufferSegment s' = Some \<lparr>seg_offset = 64, seg_size = 16\<rparr>"
proof -
  let ?s = "fab_writer\<lparr>bw_sizeUsed := 16, bw_localBufferSegment := Some \<lparr>seg_offset = 184, seg_size = 16\<rparr>\<rparr>"
  let ?w = "fab_world\<lparr>lmem := put_header (lmem fab_world) 4096 (get_header (fab_rmem fab_world) 65720)\<rparr>"
  have same: "fab_rmem ?w = fab_rmem fab_world" "fab_up ?w" "\<not> fab_pend ?w" "fab_posted ?w = 0" "fab_busy ?w = {}"
    by (simp_all add: fab_world_def fab_rmem_def fab_flush_def fab_up_def fab_pend_def fab_posted_def fab_busy_def Let_def)
  have set_up: "writer_set_up (cfg_RDMA_MAX_WR fab_config) fab_qp 3 1 2 65536 4096 4120 10 0 ?s"
    using fab_writer_fresh by (simp add: writer_set_up_def bw_fresh_def)
  have ring: "ring_linked (fab_rmem ?w) 65536 64 4 40" "isWriteable (get_header (fab_rmem ?w) (65536 + seg_at 64 40 (Suc 3 mod 4)))"
    using fab_world_start(5) by (simp_all add: same ring_fresh_def fresh_header_def)
  from getNextSegment_is_turns [OF fab_stream.ring_stream_axioms set_up, of ?w "\<lparr>seg_offset = 184, seg_size = 16\<rparr>" 3 "[1, 2, 3]" 0 "[]"]
    ring same show ?thesis
    by (simp add: Let_def seg_at_def)
qed

end
