(* ===== verification/Free_List.thy ===== *)
theory Free_List
  imports Mem_Allocator
begin

text \<open>
  The free list of the allocator against its reference: \<open>mergeFreeMem\<close> looks at the two neighbours of the
  freed region only, and yet the list is the one that sorting the region in and merging everything that
  touches would give. The managers that any sequence of allocations and releases leads to are the reachable states of an
  inductive relation; in all of them no two neighbours of the free list touch.
\<close>

section \<open>The reference\<close>

definition insert_region :: "rdma_mem_t \<Rightarrow> rdma_mem_t list \<Rightarrow> rdma_mem_t list" where
  "insert_region r l = takeWhile (\<lambda>x. rm_offset x \<le> rm_offset r) l @ r # dropWhile (\<lambda>x. rm_offset x \<le> rm_offset r) l"

fun coalesce :: "rdma_mem_t list \<Rightarrow> rdma_mem_t list" where
  "coalesce (x # y # r) = (if touches x y then coalesce (grow x y # r) else x # coalesce (y # r))"
| "coalesce l = l"

abbreviation separated :: "rdma_mem_t list \<Rightarrow> bool" where
  "separated \<equiv> successively (\<lambda>x y. \<not> touches x y)"

lemma coalesce_separated_id: "separated l \<Longrightarrow> coalesce l = l"
  by (induction l rule: coalesce.induct) auto

lemma coalesce_head: "l \<noteq> [] \<Longrightarrow> coalesce l \<noteq> [] \<and> rm_offset (hd (coalesce l)) = rm_offset (hd l)"
  by (induction l rule: coalesce.induct) auto

lemma separated_coalesce: "separated (coalesce l)"
proof (induction l rule: coalesce.induct)
  case (1 x y r)
  show ?case
  proof (cases "touches x y")
    case True
    with 1(1) show ?thesis by simp
  next
    case False
    with coalesce_head [of "y # r"] have "\<not> touches x (hd (coalesce (y # r)))" by (simp add: touches_def)
    with 1(2) [OF False] False coalesce_head [of "y # r"] show ?thesis
      by (cases "coalesce (y # r)") auto
  qed
qed simp_all

text \<open>Only the neighbourhood of the new region can change.\<close>

lemma coalesce_front: "separated (xs @ [p]) \<Longrightarrow> coalesce (xs @ p # zs) = xs @ coalesce (p # zs)"
proof (induction xs)
  case (Cons x xs)
  then show ?case by (cases xs) auto
qed simp

lemma coalesce_region:
  assumes "separated ys"
  shows "coalesce (r # ys) = (case ys of y # ys' \<Rightarrow> if touches r y then grow r y # ys' else r # ys | [] \<Rightarrow> [r])"
proof (cases ys)
  case (Cons y ys')
  have grown: "coalesce (grow r y # ys') = grow r y # ys'" if "touches r y"
  proof (rule coalesce_separated_id)
    show "separated (grow r y # ys')"
      using assms that unfolding Cons by (cases ys') (auto simp: touches_grow)
  qed
  show ?thesis using grown coalesce_separated_id [OF assms] by (auto simp: Cons)
qed simp

lemma merge_is_coalesce:
  assumes "separated xs" "separated ys"
  shows "mergeFreeMem (length xs) (xs @ r # ys) = coalesce (xs @ r # ys)"
proof (cases xs rule: rev_cases)
  case Nil
  then show ?thesis using coalesce_region [OF assms(2)] by (simp add: mergeFreeMem_first)
next
  case (snoc xs' p)
  have "coalesce (xs @ r # ys) = xs' @ coalesce (p # r # ys)" using assms(1) coalesce_front snoc by simp
  also have "\<dots> = xs' @ (if touches p r then coalesce (grow p r # ys) else p # coalesce (r # ys))" by simp
  finally have "coalesce (xs @ r # ys) = xs' @ (if touches p r then coalesce (grow p r # ys) else p # coalesce (r # ys))" .
  then show ?thesis
    unfolding coalesce_region [OF assms(2)] snoc using mergeFreeMem_later [of xs' p r ys]
    by (cases ys) (auto simp: touches_grow)
qed

section \<open>Releasing\<close>

lemma place_is_insert:
  assumes "i < length l" "rm_offset r < rm_offset (l ! i)" "\<And>x. x \<in> set (take i l) \<Longrightarrow> rm_offset x \<le> rm_offset r"
  shows "take i l @ r # drop i l = insert_region r l"
proof -
  have "takeWhile (\<lambda>x. rm_offset x \<le> rm_offset r) l = take i l"
  proof (rule takeWhile_eq_take_P_nth)
    fix j assume j: "j < i" "j < length l"
    then have "l ! j \<in> set (take i l)" by (auto simp: in_set_conv_nth intro!: exI [of _ j])
    then show "rm_offset (l ! j) \<le> rm_offset r" by (rule assms(3))
  qed (use assms(2) in simp)
  moreover from this have "dropWhile (\<lambda>x. rm_offset x \<le> rm_offset r) l = drop i l"
    by (metis append_same_eq append_take_drop_id assms(1) dropWhile_eq_drop length_take less_imp_le min.absorb2)
  ultimately show ?thesis by (simp add: insert_region_def)
qed

lemma separated_parts: "separated l \<Longrightarrow> separated (take i l) \<and> separated (drop i l)"
  by (metis append_take_drop_id successively_append_iff)

lemma internalFree_list:
  assumes "mem_inv m" "sum_fits m" "m_usedRdmaMem m off = Some u" "separated (m_rdmaMem m)" "internalFree off m = (True, m')"
  shows "m_rdmaMem m' = coalesce (insert_region (u\<lparr>rm_free := True\<rparr>) (m_rdmaMem m))"
proof (cases "m_rdmaMem m = []")
  case True
  then show ?thesis using assms(3,5) by (auto simp: internalFree_def insert_region_def)
next
  case False
  let ?l = "m_rdmaMem m" and ?r = "u\<lparr>rm_free := True\<rparr>"
  obtain i where i: "internalFree_scan off 0 ?l = Some i" "m_rdmaMem m' = mergeFreeMem i (take i ?l @ ?r # drop i ?l)"
    using False assms(3,5) by (auto simp: internalFree_def Let_def split: option.splits)
  note pl = free_scan_place [OF i(1) assms(2) [unfolded sum_fits_def]]
  have off: "rm_offset ?r = off" using mem_inv_usedD(1) [OF assms(1,3)] by simp
  have "take i ?l @ ?r # drop i ?l = insert_region ?r ?l" using pl off by (intro place_is_insert) auto
  moreover have "length (take i ?l) = i" using pl(1) by simp
  ultimately show ?thesis
    using i(2) merge_is_coalesce [of "take i ?l" "drop i ?l" ?r] separated_parts [OF assms(4)] by simp
qed

section \<open>The managers that can come about\<close>

text \<open>
  From a fresh manager by allocations and by releases of live regions. The last rule asks that the offsets
  of the free regions can be summed without overflow, as \<open>internalFree\<close> does.
\<close>

inductive allocator_state :: "rdma_manager \<Rightarrow> bool" where
  fresh: "0 < n \<Longrightarrow> n < 2 ^ 64 \<Longrightarrow> allocator_state (rdma_manager_init qpType numa device ibPort res n)"
| alloc: "allocator_state m \<Longrightarrow> 0 < n \<Longrightarrow> allocator_state (snd (internalAlloc n m))"
| free: "allocator_state m \<Longrightarrow> m_usedRdmaMem m off = Some u \<Longrightarrow> sum_fits m \<Longrightarrow> allocator_state (snd (internalFree off m))"

inductive_cases allocator_stateE: "allocator_state m"

lemma separated_alloc:
  assumes "mem_inv m" "separated (m_rdmaMem m)" "0 < n"
  shows "separated (m_rdmaMem (snd (internalAlloc n m)))"
proof (cases rule: internalAlloc_cases [of n m])
  case fail
  with assms(2) show ?thesis by simp
next
  case (ok xs x ys)
  have srt: "sorted_wrt before_region (xs @ x # ys)" using mem_inv_freeD(2) [OF assms(1)] ok(1) by simp
  have sep: "separated (xs @ x # ys)" using assms(2) ok(1) by simp
  show ?thesis
  proof (cases "n < rm_size x")
    case True
    let ?x = "rdma_mem (rm_size x - n) True (rm_offset x + n)"
    have "touches y ?x \<Longrightarrow> False" if "y \<in> set xs" for y
      using that srt assms(3) by (auto simp: touches_def sorted_wrt_append before_region_def)
    moreover have "touches ?x y = touches x y" for y using True by (simp add: touches_def)
    ultimately have "separated (xs @ ?x # ys)"
      using sep last_in_set by (auto simp: successively_append_iff successively_Cons)
    then show ?thesis using ok(4) True by (simp add: front_rest_def)
  next
    case False
    have pos: "0 < rm_size x" using mem_inv_freeD(1) [OF assms(1)] ok(1) by (auto simp: region_ok_def)
    have "\<not> touches y z" if "y \<in> set xs" "z \<in> set ys" for y z
      using that srt pos by (fastforce simp: touches_def sorted_wrt_append before_region_def)
    then have "separated (xs @ ys)"
      using sep by (auto simp: successively_append_iff successively_Cons)
    then show ?thesis using ok(4) False by (simp add: front_rest_def)
  qed
qed

lemma separated_free:
  assumes "mem_inv m" "sum_fits m" "m_usedRdmaMem m off = Some u" "separated (m_rdmaMem m)"
  shows "separated (m_rdmaMem (snd (internalFree off m)))"
proof (cases "fst (internalFree off m)")
  case True
  then have "internalFree off m = (True, snd (internalFree off m))" by (metis prod.collapse)
  from internalFree_list [OF assms this] show ?thesis by (simp add: separated_coalesce)
next
  case False
  then have "m_rdmaMem (snd (internalFree off m)) = m_rdmaMem m"
    by (auto simp: internalFree_def Let_def split: if_splits option.splits)
  with assms(4) show ?thesis by simp
qed

lemma internalFree_inv:
  assumes "mem_inv m" "sum_fits m" "m_usedRdmaMem m off = Some u"
  shows "mem_inv (snd (internalFree off m))"
  by (cases rule: internalFree_cases [OF assms]) auto

lemma allocator_state_ok: "allocator_state m \<Longrightarrow> mem_inv m \<and> separated (m_rdmaMem m)"
proof (induction rule: allocator_state.induct)
  case fresh
  then show ?case by (auto simp: rdma_manager_init_def intro: mem_inv_init)
next
  case alloc
  then show ?case by (simp add: internalAlloc_inv separated_alloc)
next
  case free
  then show ?case by (simp add: internalFree_inv separated_free)
qed

section \<open>Properties\<close>

text \<open>
  Claim C21. Merging at the two neighbours is as good as merging everywhere. On a free list without touching neighbours
  whose offsets can be added up in a \<open>size_t\<close>, \<open>internalFree\<close> of a live region leaves, when it returns true, the free
  list that the reference computes: the region sorted in by its offset, and then every pair of touching regions merged. When it
  returns false the free list is unchanged.
\<close>

theorem free_merges_fully:
  assumes "mem_inv m" "sum_fits m" "m_usedRdmaMem m off = Some u" "coalesce (m_rdmaMem m) = m_rdmaMem m"
    and "internalFree off m = (b, m')"
  shows "m_rdmaMem m' = (if b then coalesce (insert_region (u\<lparr>rm_free := True\<rparr>) (m_rdmaMem m)) else m_rdmaMem m) \<and>
    coalesce (m_rdmaMem m') = m_rdmaMem m'"
proof (cases b)
  case True
  have "separated (m_rdmaMem m)" using separated_coalesce [of "m_rdmaMem m"] assms(4) by simp
  from internalFree_list [OF assms(1-3) this] assms(5) True show ?thesis
    by (simp add: coalesce_separated_id separated_coalesce)
next
  case False
  with assms(4,5) show ?thesis by (auto simp: internalFree_def Let_def split: if_splits option.splits)
qed

theorem free_merges_fully_witness:
  "m_rdmaMem (snd (internalFree 0 (snd (internalAlloc 40 small_manager)))) = [rdma_mem 100 True 0]"
proof -
  let ?m = "snd (internalAlloc 40 small_manager)"
  have inv: "mem_inv ?m" by (rule internalAlloc_inv) simp_all
  have l: "m_rdmaMem ?m = [rdma_mem 60 True 40]" and u: "m_usedRdmaMem ?m 0 = Some (rdma_mem 40 False 0)"
    by (simp_all add: internalAlloc_def)
  have fits: "sum_fits ?m" by (simp add: sum_fits_def l)
  have t: "internalFree 0 ?m = (True, snd (internalFree 0 ?m))"
    by (simp add: internalFree_def l u Let_def)
  have c: "coalesce (m_rdmaMem ?m) = m_rdmaMem ?m" by (simp add: l)
  from free_merges_fully [OF inv fits u c t] show ?thesis
    by (simp add: l insert_region_def touches_def grow_def rdma_mem_def)
qed

text \<open>
  Claim C22. The allocator's invariant holds in every manager that allocations and releases lead to from a fresh
  one: the free regions are sorted, free and disjoint, apart from the used ones, inside the buffer, and no
  two neighbours in the list touch, so the largest free block is never hidden by fragmentation of the list itself.
\<close>

theorem allocator_states_merged:
  assumes "allocator_state m"
  shows "mem_inv m \<and> successively (\<lambda>x y. rm_offset x + rm_size x < rm_offset y) (m_rdmaMem m)"
proof -
  note ok = allocator_state_ok [OF assms]
  have "sorted_wrt before_region (m_rdmaMem m)" using mem_inv_freeD(2) ok by blast
  then have "successively before_region (m_rdmaMem m)" by (rule successively_if_sorted_wrt)
  with ok have "successively (\<lambda>x y. before_region x y \<and> \<not> touches x y) (m_rdmaMem m)"
    by (simp add: successively_conv_nth)
  then have "successively (\<lambda>x y. rm_offset x + rm_size x < rm_offset y) (m_rdmaMem m)"
    by (rule successively_mono) (auto simp: before_region_def touches_def)
  with ok show ?thesis by blast
qed

theorem allocator_states_merged_witness:
  "let m = snd (internalAlloc 10 (snd (internalAlloc 40 small_manager))) in
   mem_inv m \<and> successively (\<lambda>x y. rm_offset x + rm_size x < rm_offset y) (m_rdmaMem m)"
proof -
  have "allocator_state (snd (internalAlloc 10 (snd (internalAlloc 40 small_manager))))"
    unfolding small_manager_def by (intro allocator_state.alloc allocator_state.fresh) simp_all
  from allocator_states_merged [OF this] show ?thesis by (simp only: Let_def)
qed

end
