(* ===== verification/Server_Thread.thy ===== *)
theory Server_Thread
  imports Proto
begin

text \<open>
  The life of a server: \<open>Thread\<close> (src/src/thread), the closing of a \<open>ProtoSocket\<close>, and \<open>ProtoServer\<close> as two
  threads, the one that runs the loop of \<open>run\<close> and the one that calls \<open>startServer\<close> and \<open>stopServer\<close>. The steps of
  the two are the accesses to what they share: the flags \<open>m_kill\<close> and \<open>m_running\<close>, the socket and its context.
\<close>

section \<open>Thread\<close>

text \<open>What \<open>m_thread\<close> points to: a thread that executes, one that has returned, or one that was joined.\<close>

datatype std_thread = Executing | Returned | Joined

record thread_state =
  th_thread :: "std_thread option"
  th_kill :: bool
  th_running :: bool
  th_startTime :: nat
  th_endTime :: nat

definition newThread :: thread_state where
  "newThread = \<lparr>th_thread = None, th_kill = False, th_running = False, th_startTime = 0, th_endTime = 0\<rparr>"

definition Thread_start :: "thread_state \<Rightarrow> thread_state" where
  "Thread_start t = t\<lparr>th_thread := Some Executing\<rparr>"

definition joinable :: "std_thread \<Rightarrow> bool" where
  "joinable s \<longleftrightarrow> s \<noteq> Joined"

text \<open>\<open>join\<close> returns once the thread has returned; before that it blocks, here the result None.\<close>

definition Thread_join :: "thread_state \<Rightarrow> thread_state option" where
  "Thread_join t =
     (case th_thread t of None \<Rightarrow> Some t
      | Some s \<Rightarrow> if joinable s then (if s = Executing then None else Some (t\<lparr>th_thread := Some Joined\<rparr>)) else Some t)"

definition Thread_stop :: "thread_state \<Rightarrow> thread_state" where
  "Thread_stop t = t\<lparr>th_kill := True\<rparr>"

text \<open>
  \<open>execute\<close>: the thread binds itself to the configured CPUs, reports itself running and calls \<open>run\<close>; when \<open>run\<close> is
  back the thread has returned.
\<close>

definition Thread_execute :: "dpi_config \<Rightarrow> (thread_state \<Rightarrow> thread_state) \<Rightarrow> thread_state \<Rightarrow> int set \<times> thread_state" where
  "Thread_execute cfg run t =
     (set (cfg_THREAD_CPUS cfg), (run (t\<lparr>th_running := True\<rparr>))\<lparr>th_thread := Some Returned\<rparr>)"

text \<open>\<open>uint128_t\<close> is a typedef for \<open>unsigned long long\<close>, so times are 64-bit numbers of nanoseconds.\<close>

definition Thread_startTimer :: "nat \<Rightarrow> thread_state \<Rightarrow> thread_state" where
  "Thread_startTimer timestamp t = t\<lparr>th_startTime := timestamp, th_endTime := timestamp\<rparr>"

definition Thread_endTimer :: "nat \<Rightarrow> thread_state \<Rightarrow> thread_state" where
  "Thread_endTimer timestamp t = t\<lparr>th_endTime := timestamp\<rparr>"

definition Thread_time :: "thread_state \<Rightarrow> nat" where
  "Thread_time t = sub64 (th_endTime t) (th_startTime t)"

text \<open>The destructor deletes the \<open>std::thread\<close>, which calls \<open>std::terminate\<close> if it is still joinable.\<close>

definition Thread_destroy :: "thread_state \<Rightarrow> thread_state result" where
  "Thread_destroy t =
     (case th_thread t of None \<Rightarrow> Inr t
      | Some s \<Rightarrow> if joinable s then Inl Terminate else Inr (t\<lparr>th_thread := None\<rparr>))"

lemma Thread_time_measures:
  "a \<le> b \<Longrightarrow> b < 2 ^ 64 \<Longrightarrow> Thread_time (Thread_endTimer b (Thread_startTimer a t)) = b - a"
  by (simp add: Thread_time_def Thread_endTimer_def Thread_startTimer_def sub64_small)

section \<open>Closing a socket\<close>

definition ProtoSocket_close :: "proto_socket \<Rightarrow> bool \<times> proto_socket" where
  "ProtoSocket_close s = (True, s\<lparr>ps_sock := None, ps_isOpen := False\<rparr>)"

text \<open>
  \<open>closeContext\<close> destroys the context. \<open>term_returns\<close> says whether ZeroMQ lets that call return while a socket of
  the context is open (True) or closed (False); a call that does not return is \<open>Spin\<close>.
\<close>

definition ProtoSocket_closeContext :: "(bool \<Rightarrow> bool) \<Rightarrow> proto_socket \<Rightarrow> bool result" where
  "ProtoSocket_closeContext term_returns s = (if term_returns (ps_sock s \<noteq> None) then Inr True else Inl Spin)"

definition ProtoSocket_destroy :: "(bool \<Rightarrow> bool) \<Rightarrow> proto_socket \<Rightarrow> proto_socket result" where
  "ProtoSocket_destroy term_returns s =
     (if ps_isOpen s then
        let s' = snd (ProtoSocket_close s) in bindR (ProtoSocket_closeContext term_returns s') (\<lambda>_. Inr s')
      else Inr s)"

section \<open>ProtoServer as two threads\<close>

text \<open>
  Where the server's thread is in \<open>run\<close>: before \<open>bind\<close>, at the test of the loop, behind it, waiting in
  \<open>receive\<close>, between \<open>receive\<close> and the end of the loop's body, or out of \<open>run\<close>.
\<close>

datatype run_pc = Absent | AtBind | AtTest | AtBody | InReceive | InHandle | Out

text \<open>
  Where the controlling thread is: before \<open>startServer\<close>, in its waiting loop, back from it with a result, and in \<open>stopServer\<close>
  behind \<open>m_running = false\<close>, behind \<open>stop()\<close>, inside \<open>closeContext\<close>, at \<open>join\<close>, and back.
\<close>

datatype control_pc = Created | Starting | Started bool | Cleared | Killed | InTerm | AtJoin | Stopped

record server_run =
  sr_run :: run_pc
  sr_control :: control_pc
  sr_running :: bool
  sr_thread :: thread_state
  sr_socket :: proto_socket
  sr_terminated :: bool

definition newProtoServer :: "proto_socket \<Rightarrow> server_run" where
  "newProtoServer sock =
     \<lparr>sr_run = Absent, sr_control = Created, sr_running = False, sr_thread = newThread, sr_socket = sock,
      sr_terminated = False\<rparr>"

abbreviation sr_kill :: "server_run \<Rightarrow> bool" where
  "sr_kill s \<equiv> th_kill (sr_thread s)"

definition leave_run :: "server_run \<Rightarrow> server_run" where
  "leave_run s = s\<lparr>sr_run := Out, sr_thread := (sr_thread s)\<lparr>th_thread := Some Returned\<rparr>\<rparr>"

definition bind_result :: "bool \<Rightarrow> server_run \<Rightarrow> server_run" where
  "bind_result ok s =
     (if ok then s\<lparr>sr_run := AtTest, sr_socket := (sr_socket s)\<lparr>ps_isOpen := True\<rparr>\<rparr>
      else leave_run (s\<lparr>sr_thread := Thread_stop (sr_thread s), sr_socket := (sr_socket s)\<lparr>ps_isOpen := False\<rparr>\<rparr>))"

text \<open>
  The steps. A message can arrive as long as the context lives; one that is no protobuf message makes \<open>receive\<close> return
  false like a closed context does, and the loop ends, with the socket open; once its termination has been requested, \<open>receive\<close>
  gets \<open>ETERM\<close>, closes the socket and leaves the loop, and \<open>send\<close> fails, which \<open>run\<close> ignores.
\<close>

inductive server_step :: "bool \<Rightarrow> (bool \<Rightarrow> bool) \<Rightarrow> server_run \<Rightarrow> server_run \<Rightarrow> bool"
  for bind_ok :: bool and term_returns :: "bool \<Rightarrow> bool" where
  start: "sr_control s = Created \<Longrightarrow>
     server_step bind_ok term_returns s (s\<lparr>sr_control := Starting, sr_run := AtBind,
       sr_thread := (Thread_start (sr_thread s))\<lparr>th_running := True\<rparr>\<rparr>)"
| start_done: "sr_control s = Starting \<Longrightarrow> sr_running s \<Longrightarrow>
     server_step bind_ok term_returns s (s\<lparr>sr_control := Started True\<rparr>)"
| start_failed: "sr_control s = Starting \<Longrightarrow> \<not> sr_running s \<Longrightarrow> sr_kill s \<Longrightarrow>
     server_step bind_ok term_returns s (s\<lparr>sr_control := Started False\<rparr>)"
| bind: "sr_run s = AtBind \<Longrightarrow> server_step bind_ok term_returns s (bind_result bind_ok s)"
| loop_on: "sr_run s = AtTest \<Longrightarrow> \<not> sr_kill s \<Longrightarrow> server_step bind_ok term_returns s (s\<lparr>sr_run := AtBody\<rparr>)"
| loop_off: "sr_run s = AtTest \<Longrightarrow> sr_kill s \<Longrightarrow> server_step bind_ok term_returns s (leave_run s)"
| report: "sr_run s = AtBody \<Longrightarrow> server_step bind_ok term_returns s (s\<lparr>sr_run := InReceive, sr_running := True\<rparr>)"
| message: "sr_run s = InReceive \<Longrightarrow> \<not> sr_terminated s \<Longrightarrow>
     server_step bind_ok term_returns s (s\<lparr>sr_run := InHandle\<rparr>)"
| garbled: "sr_run s = InReceive \<Longrightarrow> \<not> sr_terminated s \<Longrightarrow>
     server_step bind_ok term_returns s (leave_run s)"
| interrupted: "sr_run s = InReceive \<Longrightarrow> sr_terminated s \<Longrightarrow>
     server_step bind_ok term_returns s (leave_run (s\<lparr>sr_socket := snd (ProtoSocket_close (sr_socket s))\<rparr>))"
| answered: "sr_run s = InHandle \<Longrightarrow> server_step bind_ok term_returns s (s\<lparr>sr_run := AtTest\<rparr>)"
| stop_idle: "sr_control s = Started b \<Longrightarrow> \<not> sr_running s \<Longrightarrow>
     server_step bind_ok term_returns s (s\<lparr>sr_control := Stopped\<rparr>)"
| stop: "sr_control s = Started b \<Longrightarrow> sr_running s \<Longrightarrow>
     server_step bind_ok term_returns s (s\<lparr>sr_control := Cleared, sr_running := False\<rparr>)"
| kill: "sr_control s = Cleared \<Longrightarrow>
     server_step bind_ok term_returns s (s\<lparr>sr_control := Killed, sr_thread := Thread_stop (sr_thread s)\<rparr>)"
| terminate: "sr_control s = Killed \<Longrightarrow>
     server_step bind_ok term_returns s (s\<lparr>sr_control := InTerm, sr_terminated := True\<rparr>)"
| terminated: "sr_control s = InTerm \<Longrightarrow> ProtoSocket_closeContext term_returns (sr_socket s) = Inr True \<Longrightarrow>
     server_step bind_ok term_returns s (s\<lparr>sr_control := AtJoin\<rparr>)"
| join: "sr_control s = AtJoin \<Longrightarrow> Thread_join (sr_thread s) = Some t \<Longrightarrow>
     server_step bind_ok term_returns s (s\<lparr>sr_control := Stopped, sr_thread := t\<rparr>)"

inductive_cases server_stepE: "server_step bind_ok term_returns s t"

inductive server_runs :: "bool \<Rightarrow> (bool \<Rightarrow> bool) \<Rightarrow> server_run \<Rightarrow> server_run \<Rightarrow> bool"
  for bind_ok :: bool and term_returns :: "bool \<Rightarrow> bool" and s :: server_run where
  refl: "server_runs bind_ok term_returns s s"
| step: "server_runs bind_ok term_returns s t \<Longrightarrow> server_step bind_ok term_returns t u \<Longrightarrow>
     server_runs bind_ok term_returns s u"

text \<open>A property that every run from a state comes to, whatever the two threads do.\<close>

inductive inevitable :: "('s \<Rightarrow> 's \<Rightarrow> bool) \<Rightarrow> ('s \<Rightarrow> bool) \<Rightarrow> 's \<Rightarrow> bool"
  for step :: "'s \<Rightarrow> 's \<Rightarrow> bool" and P :: "'s \<Rightarrow> bool" where
  now: "P s \<Longrightarrow> inevitable step P s"
| later: "step s t \<Longrightarrow> (\<And>u. step s u \<Longrightarrow> inevitable step P u) \<Longrightarrow> inevitable step P s"

lemma inevitable_by_rank:
  fixes rank :: "'s \<Rightarrow> nat"
  assumes "Q s" "\<And>s. Q s \<Longrightarrow> \<not> P s \<Longrightarrow> \<exists>t. step s t"
    and "\<And>s t. Q s \<Longrightarrow> \<not> P s \<Longrightarrow> step s t \<Longrightarrow> Q t \<and> rank t < rank s"
  shows "inevitable step P s"
  using assms(1)
proof (induction "rank s" arbitrary: s rule: less_induct)
  case less
  show ?case
  proof (cases "P s")
    case True
    then show ?thesis by (rule inevitable.now)
  next
    case False
    with assms(2) less.prems obtain t where "step s t" by blast
    then show ?thesis using less False assms(3) by (blast intro: inevitable.later)
  qed
qed

section \<open>The end of a server\<close>

lemma thread_sel [simp]:
  "th_kill (Thread_start t) = th_kill t" "th_thread (Thread_start t) = Some Executing"
  "th_kill (Thread_stop t)" "th_thread (Thread_stop t) = th_thread t"
  by (simp_all add: Thread_start_def Thread_stop_def)

lemma leave_run_sel [simp]:
  "sr_run (leave_run s) = Out" "sr_control (leave_run s) = sr_control s" "sr_running (leave_run s) = sr_running s"
  "sr_socket (leave_run s) = sr_socket s" "sr_terminated (leave_run s) = sr_terminated s" "sr_kill (leave_run s) = sr_kill s"
  "th_thread (sr_thread (leave_run s)) = Some Returned"
  by (simp_all add: leave_run_def)

lemma bind_result_sel [simp]:
  "sr_control (bind_result ok s) = sr_control s" "sr_running (bind_result ok s) = sr_running s"
  "sr_terminated (bind_result ok s) = sr_terminated s" "sr_run (bind_result ok s) = (if ok then AtTest else Out)"
  "th_thread (sr_thread (bind_result ok s)) = (if ok then th_thread (sr_thread s) else Some Returned)"
  by (simp_all add: bind_result_def)

lemma close_sel [simp]: "ps_sock (snd (ProtoSocket_close s)) = None"
  by (simp add: ProtoSocket_close_def)

text \<open>
  While the context is being destroyed: the thread is on its way into \<open>receive\<close> or in it, or it is out and has closed
  the socket.
\<close>

definition closing :: "server_run \<Rightarrow> bool" where
  "closing s \<longleftrightarrow> sr_terminated s \<and> sr_control s \<in> {InTerm, AtJoin, Stopped} \<and>
     (sr_run s \<in> {AtBody, InReceive} \<or>
      sr_run s = Out \<and> ps_sock (sr_socket s) = None \<and> th_thread (sr_thread s) \<in> {Some Returned, Some Joined})"

definition closing_rank :: "server_run \<Rightarrow> nat" where
  "closing_rank s = (case sr_control s of InTerm \<Rightarrow> 2 | AtJoin \<Rightarrow> 1 | _ \<Rightarrow> 0) +
     (case sr_run s of AtBody \<Rightarrow> 2 | InReceive \<Rightarrow> 1 | _ \<Rightarrow> 0)"

lemma closing_enabled:
  assumes "closing s" "sr_control s \<noteq> Stopped" "term_returns False"
  shows "\<exists>t. server_step bind_ok term_returns s t"
proof -
  consider "sr_run s = AtBody" | "sr_run s = InReceive" "sr_terminated s"
    | "sr_run s = Out" "sr_control s = InTerm" "ps_sock (sr_socket s) = None"
    | "sr_run s = Out" "sr_control s = AtJoin" "th_thread (sr_thread s) \<in> {Some Returned, Some Joined}"
    using assms(1,2) by (auto simp: closing_def)
  then show ?thesis
  proof cases
    case 3
    then have "ProtoSocket_closeContext term_returns (sr_socket s) = Inr True"
      using assms(3) by (simp add: ProtoSocket_closeContext_def)
    with 3 show ?thesis by (blast intro: server_step.terminated)
  next
    case 4
    then have "\<exists>t. Thread_join (sr_thread s) = Some t" by (auto simp: Thread_join_def joinable_def)
    with 4 show ?thesis by (blast intro: server_step.join)
  qed (blast intro: server_step.report server_step.interrupted)+
qed

lemma closing_step:
  assumes "server_step bind_ok term_returns s t" "closing s" "sr_control s \<noteq> Stopped"
  shows "closing t \<and> closing_rank t < closing_rank s"
  using assms
proof (cases rule: server_step.cases)
  case (join u)
  then show ?thesis
    using assms(2)
    by (auto simp: closing_def closing_rank_def Thread_join_def joinable_def split: option.splits if_splits)
qed (use assms(2) in \<open>auto simp: closing_def closing_rank_def\<close>)

lemma terminated_at_end: "server_runs bind_ok term_returns (newProtoServer sock) s \<Longrightarrow> sr_control s = InTerm \<Longrightarrow> sr_terminated s"
proof (induction rule: server_runs.induct)
  case (step s t)
  from step(2) step.prems step.IH show ?case
    by (cases rule: server_step.cases) auto
qed (simp add: newProtoServer_def)

text \<open>A server whose socket cannot be bound.\<close>

definition never_bound :: "server_run \<Rightarrow> bool" where
  "never_bound s \<longleftrightarrow> \<not> sr_running s \<and> sr_run s \<in> {Absent, AtBind, Out} \<and>
     sr_control s \<in> {Created, Starting, Started False, Stopped} \<and> (sr_run s = Absent \<longleftrightarrow> sr_control s = Created) \<and>
     th_thread (sr_thread s) = (if sr_run s = Absent then None else if sr_run s = Out then Some Returned else Some Executing)"

lemma never_bound_runs:
  assumes "server_runs False term_returns (newProtoServer sock) s"
  shows "never_bound s"
  using assms
proof (induction rule: server_runs.induct)
  case refl
  show ?case by (simp add: never_bound_def newProtoServer_def newThread_def)
next
  case (step s t)
  from step(2,3) show ?case
    by (cases rule: server_step.cases) (auto simp: never_bound_def)
qed

text \<open>Particular runs, as sequences of explicit states of a server that was started.\<close>

abbreviation (input) server_at :: "run_pc \<Rightarrow> control_pc \<Rightarrow> bool \<Rightarrow> bool \<Rightarrow> std_thread \<Rightarrow> proto_socket \<Rightarrow> bool \<Rightarrow> server_run" where
  "server_at r c running k th sock term \<equiv> \<lparr>sr_run = r, sr_control = c, sr_running = running,
     sr_thread = \<lparr>th_thread = Some th, th_kill = k, th_running = True, th_startTime = 0, th_endTime = 0\<rparr>,
     sr_socket = sock, sr_terminated = term\<rparr>"

lemma run_step:
  "server_runs b tr s t \<Longrightarrow> server_step b tr t u \<Longrightarrow> u = v \<Longrightarrow> server_runs b tr s v"
  using server_runs.step by simp

lemmas server_eval = newProtoServer_def newThread_def Thread_start_def Thread_stop_def leave_run_def bind_result_def
  ProtoSocket_close_def Thread_join_def joinable_def ProtoSocket_closeContext_def

lemma serving_run:
  "server_runs True tr (newProtoServer sock) (server_at InReceive (Started True) True False Executing (sock\<lparr>ps_isOpen := True\<rparr>) False)"
proof -
  let ?s = "newProtoServer sock" and ?o = "sock\<lparr>ps_isOpen := True\<rparr>"
  have 1: "server_runs True tr ?s (server_at AtBind Starting False False Executing sock False)"
    by (rule run_step [OF server_runs.refl server_step.start]) (simp_all add: server_eval)
  have 2: "server_runs True tr ?s (server_at AtTest Starting False False Executing ?o False)"
    by (rule run_step [OF 1 server_step.bind]) (simp_all add: server_eval)
  have 3: "server_runs True tr ?s (server_at AtBody Starting False False Executing ?o False)"
    by (rule run_step [OF 2 server_step.loop_on]) simp_all
  have 4: "server_runs True tr ?s (server_at InReceive Starting True False Executing ?o False)"
    by (rule run_step [OF 3 server_step.report]) simp_all
  show ?thesis by (rule run_step [OF 4 server_step.start_done]) simp_all
qed

text \<open>The thread reports itself running after \<open>stopServer\<close> has cleared the flag.\<close>

lemma passed_test_run:
  "server_runs True tr (newProtoServer sock) (server_at AtBody Cleared False False Executing (sock\<lparr>ps_isOpen := True\<rparr>) False)"
proof -
  let ?s = "newProtoServer sock" and ?o = "sock\<lparr>ps_isOpen := True\<rparr>"
  have 1: "server_runs True tr ?s (server_at InHandle (Started True) True False Executing ?o False)"
    by (rule run_step [OF serving_run server_step.message]) simp_all
  have 2: "server_runs True tr ?s (server_at AtTest (Started True) True False Executing ?o False)"
    by (rule run_step [OF 1 server_step.answered]) simp_all
  have 3: "server_runs True tr ?s (server_at AtBody (Started True) True False Executing ?o False)"
    by (rule run_step [OF 2 server_step.loop_on]) simp_all
  show ?thesis by (rule run_step [OF 3 server_step.stop]) simp_all
qed

lemma server_runs_trans: "server_runs b tr t u \<Longrightarrow> server_runs b tr s t \<Longrightarrow> server_runs b tr s u"
  by (induction rule: server_runs.induct) (auto intro: server_runs.step)

lemma interrupting_run:
  "server_runs True tr (server_at AtBody Cleared False False Executing sock False) (server_at InReceive InTerm True True Executing sock True)"
proof -
  let ?s = "server_at AtBody Cleared False False Executing sock False"
  have 5: "server_runs True tr ?s (server_at InReceive Cleared True False Executing sock False)"
    by (rule run_step [OF server_runs.refl server_step.report]) simp_all
  have 6: "server_runs True tr ?s (server_at InReceive Killed True True Executing sock False)"
    by (rule run_step [OF 5 server_step.kill]) (simp_all add: server_eval)
  show ?thesis by (rule run_step [OF 6 server_step.terminate]) simp_all
qed

lemmas closing_run = server_runs_trans [OF interrupting_run passed_test_run]

lemma stale_run:
  assumes "tr False"
  shows "server_runs True tr (server_at AtBody Cleared False False Executing sock False)
    (server_at Out Stopped True True Joined (sock\<lparr>ps_sock := None, ps_isOpen := False\<rparr>) True)"
proof -
  let ?s = "server_at AtBody Cleared False False Executing sock False" and ?o = "sock\<lparr>ps_sock := None, ps_isOpen := False\<rparr>"
  have 1: "server_runs True tr ?s (server_at Out InTerm True True Returned ?o True)"
    by (rule run_step [OF interrupting_run server_step.interrupted]) (simp_all add: server_eval)
  have 2: "server_runs True tr ?s (server_at Out AtJoin True True Returned ?o True)"
    using assms by (intro run_step [OF 1 server_step.terminated]) (simp_all add: server_eval)
  show ?thesis by (rule run_step [OF 2 server_step.join]) (simp_all add: server_eval)
qed

text \<open>A server whose thread is gone while its socket is open.\<close>

definition abandoned :: "server_run \<Rightarrow> bool" where
  "abandoned s \<longleftrightarrow> sr_run s = Out \<and> ps_sock (sr_socket s) \<noteq> None \<and>
     (sr_control s = Started True \<and> sr_running s \<or> sr_control s \<in> {Cleared, Killed, InTerm})"

lemma abandoned_step:
  assumes "server_step b tr s t" "abandoned s" "\<not> tr True"
  shows "abandoned t"
  using assms by (cases rule: server_step.cases) (auto simp: abandoned_def ProtoSocket_closeContext_def)

lemma abandoned_runs:
  assumes "server_runs b tr s t" "abandoned s" "\<not> tr True"
  shows "abandoned t"
  using assms by (induction rule: server_runs.induct) (auto intro: abandoned_step)

lemma garbled_run:
  "server_runs True tr (newProtoServer sock) (server_at Out (Started True) True False Returned (sock\<lparr>ps_isOpen := True\<rparr>) False)"
  by (rule run_step [OF serving_run server_step.garbled]) (simp_all add: server_eval)

text \<open>
  A thread that is answering a request while the kill flag is set: it will leave \<open>run\<close> with the socket open, whatever happens.
\<close>

definition doomed :: "server_run \<Rightarrow> bool" where
  "doomed s \<longleftrightarrow> sr_kill s \<and> ps_sock (sr_socket s) \<noteq> None \<and> sr_control s \<in> {Killed, InTerm} \<and> sr_run s \<in> {InHandle, AtTest, Out}"

definition doomed_rank :: "server_run \<Rightarrow> nat" where
  "doomed_rank s = (if sr_control s = Killed then 1 else 0) + (case sr_run s of InHandle \<Rightarrow> 2 | AtTest \<Rightarrow> 1 | _ \<Rightarrow> 0)"

lemma doomed_step:
  assumes "server_step b tr s t" "doomed s" "\<not> tr True"
  shows "doomed t \<and> doomed_rank t < doomed_rank s"
  using assms by (cases rule: server_step.cases) (auto simp: doomed_def doomed_rank_def ProtoSocket_closeContext_def)

lemma doomed_enabled: "doomed s \<Longrightarrow> sr_control s \<noteq> InTerm \<or> sr_run s \<noteq> Out \<Longrightarrow> \<exists>t. server_step b tr s t"
  by (auto simp: doomed_def intro: server_step.terminate server_step.answered server_step.loop_off)

lemma doomed_hangs:
  assumes "doomed s" "\<not> tr True"
  shows "inevitable (server_step b tr) (\<lambda>t. sr_control t = InTerm \<and> sr_run t = Out \<and> (\<nexists>u. server_step b tr t u)) s"
proof (rule inevitable_by_rank [where Q = doomed and rank = doomed_rank])
  show "doomed s" by (rule assms(1))
  show "\<exists>t. server_step b tr s t"
    if "doomed s" "\<not> (sr_control s = InTerm \<and> sr_run s = Out \<and> (\<nexists>u. server_step b tr s u))" for s
    using doomed_enabled that by blast
  show "doomed t \<and> doomed_rank t < doomed_rank s" if "doomed s" "server_step b tr s t" for s t
    by (rule doomed_step [OF that(2,1) assms(2)])
qed

text \<open>A thread behind the test of the loop while \<open>stopServer\<close> is under way: it will have set \<open>m_running\<close> when \<open>stopServer\<close> returns.\<close>

definition stale :: "server_run \<Rightarrow> bool" where
  "stale s \<longleftrightarrow> sr_control s \<in> {Cleared, Killed, InTerm, AtJoin, Stopped} \<and>
     (sr_running s \<or> sr_run s = AtBody \<and> sr_control s \<in> {Cleared, Killed, InTerm} \<and> ps_sock (sr_socket s) \<noteq> None)"

lemma stale_step:
  assumes "server_step b tr s t" "stale s" "\<not> tr True"
  shows "stale t"
  using assms by (cases rule: server_step.cases) (auto simp: stale_def bind_result_def ProtoSocket_closeContext_def)

lemma stale_runs:
  assumes "server_runs b tr s t" "stale s" "\<not> tr True"
  shows "stale t"
  using assms by (induction rule: server_runs.induct) (auto intro: stale_step)

text \<open>What holds in every state of a server with a socket: it is open while the thread is in the loop, and \<open>stop()\<close> leaves its mark.\<close>

lemma server_runs_inv:
  assumes "server_runs b tr (newProtoServer sock) s" "ps_sock sock \<noteq> None"
  shows "(sr_run s \<noteq> Out \<longrightarrow> ps_sock (sr_socket s) \<noteq> None) \<and> (sr_control s = Killed \<longrightarrow> sr_kill s) \<and>
    (sr_control s = Created \<longrightarrow> sr_run s = Absent)"
  using assms
proof (induction rule: server_runs.induct)
  case refl
  then show ?case by (simp add: newProtoServer_def)
next
  case (step s t)
  from step(2) step.IH step.prems show ?case
    by (cases rule: server_step.cases) (auto simp: bind_result_def leave_run_def)
qed

lemma handling_killed_run:
  "server_runs True tr (newProtoServer sock) (server_at InHandle Killed False True Executing (sock\<lparr>ps_isOpen := True\<rparr>) False)"
proof -
  let ?s = "newProtoServer sock" and ?o = "sock\<lparr>ps_isOpen := True\<rparr>"
  have 1: "server_runs True tr ?s (server_at InHandle (Started True) True False Executing ?o False)"
    by (rule run_step [OF serving_run server_step.message]) simp_all
  have 2: "server_runs True tr ?s (server_at InHandle Cleared False False Executing ?o False)"
    by (rule run_step [OF 1 server_step.stop]) simp_all
  show ?thesis by (rule run_step [OF 2 server_step.kill]) (simp_all add: server_eval)
qed

section \<open>Properties\<close>

text \<open>
  Claim C28. \<open>stopServer\<close> ends a server that waits for requests. When the context is being closed and the server's thread is in
  \<open>receive\<close> or about to enter it, then whatever the two threads do, \<open>stopServer\<close> returns: the interrupted \<open>receive\<close>
  closes the socket and leaves the loop, which lets the context be destroyed and the thread be joined. This needs
  only that ZeroMQ destroys a context whose socket is closed.
\<close>

theorem stopServer_returns:
  assumes "server_runs bind_ok term_returns (newProtoServer sock) s" "sr_control s = InTerm"
    and "sr_run s \<in> {AtBody, InReceive}" "term_returns False"
  shows "inevitable (server_step bind_ok term_returns) (\<lambda>t. sr_control t = Stopped) s"
proof (rule inevitable_by_rank [where Q = closing and rank = closing_rank])
  show "closing s" using terminated_at_end [OF assms(1,2)] assms(2,3) by (simp add: closing_def)
  show "\<exists>t. server_step bind_ok term_returns s t" if "closing s" "sr_control s \<noteq> Stopped" for s
    using closing_enabled that assms(4) by blast
  show "closing t \<and> closing_rank t < closing_rank s"
    if "closing s" "sr_control s \<noteq> Stopped" "server_step bind_ok term_returns s t" for s t
    using closing_step that by blast
qed

theorem stopServer_returns_witness:
  "inevitable (server_step True Not) (\<lambda>t. sr_control t = Stopped)
     (server_at InReceive InTerm True True Executing
       \<lparr>ps_conn = ''tcp://*:5300'', ps_sockType = ZMQ_REP, ps_isOpen = True, ps_sock = Some 1\<rparr> True)"
  using stopServer_returns [OF closing_run [of Not "\<lparr>ps_conn = ''tcp://*:5300'', ps_sockType = ZMQ_REP, ps_isOpen = False, ps_sock = Some 1\<rparr>"]]
  by simp

text \<open>
  Claim C40. \<open>stopServer\<close> can hang, and it can leave a stopped server that reports to be running. ZeroMQ does not destroy a
  context with an open socket. The thread can be answering a request when \<open>stopServer\<close> has set the kill flag, and whenever it
  is, then whatever the two threads do from there, they come to a state in which \<open>stopServer\<close> is inside \<open>closeContext\<close>, the thread
  has left \<open>run\<close> and nothing can happen any more: the loop ends at the next test without closing the socket. The thread can
  also have passed the test and not yet set \<open>m_running\<close> when \<open>stopServer\<close> has cleared it, and whenever that happens,
  \<open>isRunning\<close> is true in every later state in which \<open>stopServer\<close> has returned, and there is a run in which it returns.
\<close>

theorem stopServer_races:
  assumes "\<not> term_returns True" "term_returns False" "ps_sock sock \<noteq> None"
  shows "(\<exists>s. server_runs True term_returns (newProtoServer sock) s \<and> sr_run s = InHandle \<and> sr_control s = Killed) \<and>
    (\<forall>s. server_runs True term_returns (newProtoServer sock) s \<and> sr_run s = InHandle \<and> sr_control s = Killed \<longrightarrow>
      inevitable (server_step True term_returns)
        (\<lambda>t. sr_control t = InTerm \<and> sr_run t = Out \<and> (\<nexists>u. server_step True term_returns t u)) s) \<and>
    (\<exists>s t. server_runs True term_returns (newProtoServer sock) s \<and> sr_run s = AtBody \<and> sr_control s = Cleared \<and>
      server_runs True term_returns s t \<and> sr_control t = Stopped) \<and>
    (\<forall>s t. server_runs True term_returns (newProtoServer sock) s \<and> sr_run s = AtBody \<and> sr_control s = Cleared \<and>
      server_runs True term_returns s t \<and> sr_control t = Stopped \<longrightarrow> sr_running t)"
proof (intro conjI allI impI)
  show "\<exists>s. server_runs True term_returns (newProtoServer sock) s \<and> sr_run s = InHandle \<and> sr_control s = Killed"
    using handling_killed_run by (intro exI conjI) auto
next
  fix s assume s: "server_runs True term_returns (newProtoServer sock) s \<and> sr_run s = InHandle \<and> sr_control s = Killed"
  then have "doomed s" using server_runs_inv [of True term_returns sock s] assms(3) by (simp add: doomed_def)
  then show "inevitable (server_step True term_returns)
      (\<lambda>t. sr_control t = InTerm \<and> sr_run t = Out \<and> (\<nexists>u. server_step True term_returns t u)) s"
    using assms(1) by (rule doomed_hangs)
next
  show "\<exists>s t. server_runs True term_returns (newProtoServer sock) s \<and> sr_run s = AtBody \<and> sr_control s = Cleared \<and>
      server_runs True term_returns s t \<and> sr_control t = Stopped"
    using passed_test_run stale_run [where tr = term_returns, OF assms(2)] by (intro exI conjI) auto
next
  fix s t assume a: "server_runs True term_returns (newProtoServer sock) s \<and> sr_run s = AtBody \<and> sr_control s = Cleared \<and>
      server_runs True term_returns s t \<and> sr_control t = Stopped"
  then have "stale s" using server_runs_inv [of True term_returns sock s] assms(3) by (simp add: stale_def)
  with a stale_runs assms(1) have "stale t" by blast
  with a show "sr_running t" by (simp add: stale_def)
qed

theorem stopServer_races_witness:
  "\<exists>s t. server_runs True Not (newProtoServer \<lparr>ps_conn = ''tcp://*:5300'', ps_sockType = ZMQ_REP, ps_isOpen = False, ps_sock = Some 1\<rparr>) s \<and>
      sr_run s = AtBody \<and> sr_control s = Cleared \<and> server_runs True Not s t \<and> sr_control t = Stopped \<and> sr_running t"
  using stopServer_races [of Not "\<lparr>ps_conn = ''tcp://*:5300'', ps_sockType = ZMQ_REP, ps_isOpen = False, ps_sock = Some 1\<rparr>"]
  by simp blast

text \<open>
  A message that cannot be parsed takes the server out of service for good. Once the thread has left
  the loop because of it (the socket is open and \<open>startServer\<close> has returned), the thread answers nothing any more
  while the port stays bound, and no call of \<open>stopServer\<close> ever returns: it stops in front of or inside
  \<open>closeContext\<close>. Such a state can be reached from every new server.
\<close>

lemma garbled_message_ends_service:
  assumes "\<not> term_returns True" "ps_sock sock \<noteq> None"
  shows "\<exists>s. server_runs True term_returns (newProtoServer sock) s \<and> sr_control s = Started True \<and> \<not> sr_kill s \<and>
    (\<forall>t. server_runs True term_returns s t \<longrightarrow> sr_run t = Out \<and> sr_control t \<noteq> Stopped)"
proof -
  let ?s = "server_at Out (Started True) True False Returned (sock\<lparr>ps_isOpen := True\<rparr>) False"
  have "abandoned ?s" using assms(2) by (simp add: abandoned_def)
  then have "sr_run t = Out \<and> sr_control t \<noteq> Stopped" if "server_runs True term_returns ?s t" for t
    using abandoned_runs [OF that _ assms(1)] by (auto simp: abandoned_def)
  then show ?thesis using garbled_run by (intro exI [of _ ?s]) simp
qed

lemma garbled_message_ends_service_instance:
  "\<exists>s. server_runs True Not (newProtoServer \<lparr>ps_conn = ''tcp://*:5300'', ps_sockType = ZMQ_REP, ps_isOpen = False, ps_sock = Some 1\<rparr>) s \<and>
     sr_control s = Started True \<and> sr_run s = Out"
proof -
  obtain s where "server_runs True Not (newProtoServer \<lparr>ps_conn = ''tcp://*:5300'', ps_sockType = ZMQ_REP, ps_isOpen = False, ps_sock = Some 1\<rparr>) s"
    "sr_control s = Started True" "\<And>t. server_runs True Not s t \<Longrightarrow> sr_run t = Out"
    using garbled_message_ends_service [of Not "\<lparr>ps_conn = ''tcp://*:5300'', ps_sockType = ZMQ_REP, ps_isOpen = False, ps_sock = Some 1\<rparr>"]
    by auto
  then show ?thesis using server_runs.refl by blast
qed

text \<open>
  A server whose port cannot be bound brings the process down. \<open>startServer\<close> reports the failure and
  \<open>stopServer\<close> returns, but since the server never ran it does not join the thread, and deleting the server calls
  \<open>std::terminate\<close>, whatever the order of the steps.
\<close>

lemma failed_start_terminates:
  assumes "server_runs False term_returns (newProtoServer sock) s" "sr_control s = Stopped"
  shows "Thread_destroy (sr_thread s) = Inl Terminate"
  using never_bound_runs [OF assms(1)] assms(2) by (auto simp: never_bound_def Thread_destroy_def joinable_def)

lemma failed_start_terminates_instance:
  "Thread_destroy (sr_thread (server_at Out Stopped False True Returned
     \<lparr>ps_conn = ''tcp://*:5300'', ps_sockType = ZMQ_REP, ps_isOpen = False, ps_sock = Some 1\<rparr> False)) = Inl Terminate"
proof -
  let ?o = "\<lparr>ps_conn = ''tcp://*:5300'', ps_sockType = ZMQ_REP, ps_isOpen = False, ps_sock = Some 1\<rparr>"
  have 1: "server_runs False Not (newProtoServer ?o) (server_at AtBind Starting False False Executing ?o False)"
    by (rule run_step [OF server_runs.refl server_step.start]) (simp_all add: server_eval)
  have 2: "server_runs False Not (newProtoServer ?o) (server_at Out Starting False True Returned ?o False)"
    by (rule run_step [OF 1 server_step.bind]) (simp_all add: server_eval)
  have 3: "server_runs False Not (newProtoServer ?o) (server_at Out (Started False) False True Returned ?o False)"
    by (rule run_step [OF 2 server_step.start_failed]) simp_all
  have "server_runs False Not (newProtoServer ?o) (server_at Out Stopped False True Returned ?o False)"
    by (rule run_step [OF 3 server_step.stop_idle [where b = False]]) simp_all
  from failed_start_terminates [OF this] show ?thesis by simp
qed

end
