(* ===== verification/Logging_Timer.thy ===== *)
theory Logging_Timer
  imports DPI_Config "HOL-Library.AList"
begin

text \<open>
  \<open>Logging\<close> and \<open>Timer\<close> (src/src/utils). A logging call is the list of lines it prints; the clock is a parameter.
\<close>

section \<open>Logging\<close>

definition log_at :: "string \<Rightarrow> string \<Rightarrow> int \<Rightarrow> string \<Rightarrow> string" where
  "log_at type filename line msg = type @ filename @ '' at '' @ show_int line @ '' ('' @ msg @ '')''"

definition log_plain :: "string \<Rightarrow> string \<Rightarrow> string" where
  "log_plain type msg = type @ msg"

text \<open>\<open>debug\<close> prints only in a build with the macro \<open>DEBUG\<close>.\<close>

definition Logging_debug :: "bool \<Rightarrow> dpi_config \<Rightarrow> string \<Rightarrow> int \<Rightarrow> string \<Rightarrow> string list" where
  "Logging_debug DEBUG cfg filename line msg =
     (if DEBUG \<and> cfg_LOGGING_LEVEL cfg \<le> 2 then [log_at ''[DEBUG]: '' filename line msg] else [])"

definition Logging_error :: "dpi_config \<Rightarrow> string \<Rightarrow> int \<Rightarrow> string \<Rightarrow> string list" where
  "Logging_error cfg filename line msg =
     (if cfg_LOGGING_LEVEL cfg \<le> 1 then [log_at ''[ERROR]: '' filename line msg] else [])"

definition Logging_errorNo :: "dpi_config \<Rightarrow> string \<Rightarrow> int \<Rightarrow> string \<Rightarrow> int \<Rightarrow> string list" where
  "Logging_errorNo cfg filename line errorMsg errNo =
     (if cfg_LOGGING_LEVEL cfg \<le> 1
      then [''[ERROR NO]'' @ filename @ '' at '' @ show_int line @ '' ('' @ errorMsg @ '': '' @ show_int errNo @ '')''] else [])"

text \<open>\<open>fatal\<close> ends the process with \<open>exit(1)\<close>.\<close>

definition Logging_fatal :: "dpi_config \<Rightarrow> string \<Rightarrow> int \<Rightarrow> string \<Rightarrow> string list \<times> unit result" where
  "Logging_fatal cfg filename line msg =
     ((if cfg_LOGGING_LEVEL cfg \<le> 1 then [log_at ''[FATAL]: '' filename line msg] else []), Inl Fatal)"

definition Logging_info :: "dpi_config \<Rightarrow> string \<Rightarrow> string list" where
  "Logging_info cfg msg = (if cfg_LOGGING_LEVEL cfg \<le> 3 then [log_plain ''[INFO]:  '' msg] else [])"

definition Logging_warn :: "dpi_config \<Rightarrow> string \<Rightarrow> string list" where
  "Logging_warn cfg msg = (if cfg_LOGGING_LEVEL cfg \<le> 3 then [log_plain ''[WARN]:  '' msg] else [])"

text \<open>
  The levels are upside down: at levels 2 and 3 informational messages are printed while errors, fatal ones
  included, are not.
\<close>

lemma errors_hidden_before_infos:
  assumes "cfg_LOGGING_LEVEL cfg = 2 \<or> cfg_LOGGING_LEVEL cfg = 3"
  shows "Logging_error cfg f l m = [] \<and> fst (Logging_fatal cfg f l m) = [] \<and> Logging_info cfg m \<noteq> [] \<and> Logging_warn cfg m \<noteq> []"
  using assms by (auto simp: Logging_error_def Logging_fatal_def Logging_info_def Logging_warn_def)

section \<open>Timer\<close>

text \<open>
  The statistics as an association list with distinct keys. \<open>uint128_t\<close> is \<open>unsigned long long\<close>: sums and
  differences are modulo \<open>2 ^ 64\<close>.
\<close>

type_synonym timer = "(string \<times> nat) list"

definition Timer_diff :: "nat \<Rightarrow> nat \<Rightarrow> nat" where
  "Timer_diff now lastTime = sub64 now lastTime"

definition Timer_addTime :: "string \<Rightarrow> nat \<Rightarrow> timer \<Rightarrow> timer" where
  "Timer_addTime step time m_stats =
     (case map_of m_stats step of
        Some t \<Rightarrow> AList.update step (add64 t time) m_stats
      | None \<Rightarrow> AList.update step time m_stats)"

definition Timer_addTimer :: "timer option \<Rightarrow> timer \<Rightarrow> timer" where
  "Timer_addTimer timer m_stats =
     (case timer of None \<Rightarrow> m_stats
      | Some other \<Rightarrow> fold (\<lambda>(step, time). Timer_addTime step time) other m_stats)"

definition getStats :: "timer \<Rightarrow> timer" where
  "getStats m_stats = m_stats"

lemma addTime_lookup:
  "map_of (Timer_addTime step time ts) = (map_of ts)(step \<mapsto> (case map_of ts step of Some t \<Rightarrow> add64 t time | None \<Rightarrow> time))"
  by (auto simp: Timer_addTime_def update_conv' split: option.splits)

lemma addTime_distinct: "distinct (map fst ts) \<Longrightarrow> distinct (map fst (Timer_addTime step time ts))"
  by (auto simp: Timer_addTime_def distinct_update split: option.splits)

text \<open>Adding another timer adds step by step, in whatever order its entries are visited.\<close>

lemma addTimer_lookup:
  assumes "distinct (map fst other)"
  shows "map_of (Timer_addTimer (Some other) ts) k =
    (case map_of other k of None \<Rightarrow> map_of ts k
     | Some time \<Rightarrow> Some (case map_of ts k of Some t \<Rightarrow> add64 t time | None \<Rightarrow> time))"
  using assms
proof (induction other arbitrary: ts)
  case (Cons e other)
  obtain s t where e: "e = (s, t)" by force
  then have s: "map_of other s = None" "distinct (map fst other)" using Cons.prems by (auto simp: map_of_eq_None_iff)
  have step: "Timer_addTimer (Some (e # other)) ts = Timer_addTimer (Some other) (Timer_addTime s t ts)"
    by (simp add: Timer_addTimer_def e)
  show ?case
    unfolding step Cons.IH [OF s(2), of "Timer_addTime s t ts"] addTime_lookup
    using s(1) by (cases "k = s"; cases "map_of other k") (simp_all add: e)
qed (simp add: Timer_addTimer_def)

end
