(* ===== verification/Lifecycle.thy ===== *)
theory Lifecycle
  imports Buffer_Reader Iterators Server_Thread Logging_Timer
begin

text \<open>
  The ends of the objects' lives: the destructors of managers, clients, servers, writers and readers, in the order in
  which they release what they hold, together with the small accessors of the manager and the iterators.
\<close>

section \<open>Destructors\<close>

text \<open>\<open>delete m_rdmaManager\<close> through the virtual destructor.\<close>

definition mgr_destroy :: "('d, 'v) verbs_scheme \<Rightarrow> manager \<Rightarrow> 'd world \<Rightarrow> manager \<times> 'd world" where
  "mgr_destroy V mgr w =
     (case mgr of
        ManagerRC m \<Rightarrow> map_prod ManagerRC id (destroyManager V (rc_destroyQPs V) m w)
      | ManagerUD m \<Rightarrow> map_prod ManagerUD id (destroyManager V (ud_destroyQPs V) m w))"

definition ProtoClient_destroy :: "(bool \<Rightarrow> bool) \<Rightarrow> proto_client \<Rightarrow> proto_client result" where
  "ProtoClient_destroy term_returns c =
     (case pc_socket c of None \<Rightarrow> Inr c
      | Some s \<Rightarrow> bindR (ProtoSocket_destroy term_returns s) (\<lambda>_. Inr (c\<lparr>pc_socket := None\<rparr>)))"

text \<open>The loop over \<open>m_clients\<close>; \<open>order\<close> lists the connections as the hash table does.\<close>

fun delete_clients :: "(bool \<Rightarrow> bool) \<Rightarrow> string list \<Rightarrow> (string \<rightharpoonup> proto_client) \<Rightarrow> (string \<rightharpoonup> proto_client) result" where
  "delete_clients term_returns [] cs = Inr Map.empty"
| "delete_clients term_returns (k # order) cs =
     (case cs k of None \<Rightarrow> delete_clients term_returns order cs
      | Some c \<Rightarrow> bindR (ProtoClient_destroy term_returns c) (\<lambda>_. delete_clients term_returns order cs))"

definition RDMAClient_destroy ::
  "('d, 'v) verbs_scheme \<Rightarrow> (bool \<Rightarrow> bool) \<Rightarrow> string list \<Rightarrow> rdma_client \<Rightarrow> 'd world \<Rightarrow> (rdma_client \<times> 'd world) result" where
  "RDMAClient_destroy V term_returns order c w =
     (case mgr_destroy V (cl_manager c) w of (mgr, w) \<Rightarrow>
      bindR (delete_clients term_returns order (cl_clients c)) (\<lambda>cs.
        Inr (c\<lparr>cl_manager := mgr, cl_clients := cs\<rparr>, w)))"

definition RDMAServer_destroy :: "('d, 'v) verbs_scheme \<Rightarrow> rdma_server \<Rightarrow> 'd world \<Rightarrow> rdma_server \<times> 'd world" where
  "RDMAServer_destroy V s w = (case mgr_destroy V (srv_manager s) w of (mgr, w) \<Rightarrow> (s\<lparr>srv_manager := mgr\<rparr>, w))"

definition RegistryServer_destroy ::
  "('d, 'v) verbs_scheme \<Rightarrow> (bool \<Rightarrow> bool) \<Rightarrow> string list \<Rightarrow> registry \<Rightarrow> 'd world \<Rightarrow> (registry \<times> 'd world) result" where
  "RegistryServer_destroy V term_returns order r w =
     bindR (RDMAClient_destroy V term_returns order (reg_client r) w) (\<lambda>(c, w). Inr (r\<lparr>reg_client := c\<rparr>, w))"

definition BufferReader_destroy ::
  "('d, 'v) verbs_scheme \<Rightarrow> (bool \<Rightarrow> bool) \<Rightarrow> string list \<Rightarrow> buffer_reader \<Rightarrow> 'd world \<Rightarrow> (buffer_reader \<times> 'd world) result" where
  "BufferReader_destroy V term_returns order r w =
     bindR (RDMAClient_destroy V term_returns order (rd_client r) w) (\<lambda>(c, w). Inr (r\<lparr>rd_client := c\<rparr>, w))"

text \<open>
  The writers free the internal buffer and delete the client if they made it. The header, and the counter of the
  latency writer, are not freed: a client that is passed in keeps them allocated.
\<close>

definition BufferWriterBW_destroy ::
  "('d, 'v) verbs_scheme \<Rightarrow> 'c rdma_config_scheme \<Rightarrow> (bool \<Rightarrow> bool) \<Rightarrow> string list \<Rightarrow> writer_bw \<Rightarrow> 'd world \<Rightarrow>
   (writer_bw \<times> 'd world) result" where
  "BufferWriterBW_destroy V cfg term_returns order s w =
     (let s = bw_destroy cfg s in
      if bw_deleteRdmaClient s
      then bindR (RDMAClient_destroy V term_returns order (bw_client s) w) (\<lambda>(c, w). Inr (s\<lparr>bw_client := c\<rparr>, w))
      else Inr (s, w))"

definition BufferWriterLat_destroy ::
  "('d, 'v) verbs_scheme \<Rightarrow> 'c rdma_config_scheme \<Rightarrow> (bool \<Rightarrow> bool) \<Rightarrow> string list \<Rightarrow> writer_lat \<Rightarrow> 'd world \<Rightarrow>
   (writer_lat \<times> 'd world) result" where
  "BufferWriterLat_destroy V cfg term_returns order s w =
     (let s = (case la_internalBuffer s of None \<Rightarrow> s
               | Some ib \<Rightarrow> if ib_bufferPtr ib = 0 then s
                   else s\<lparr>la_client := snd (client_localFree cfg (ib_bufferPtr ib) (la_client s))\<rparr>)
      in if la_deleteRdmaClient s
         then bindR (RDMAClient_destroy V term_returns order (la_client s) w) (\<lambda>(c, w). Inr (s\<lparr>la_client := c\<rparr>, w))
         else Inr (s, w))"

section \<open>Accessors of the manager\<close>

definition getFreeMemList :: "'m rdma_manager_scheme \<Rightarrow> rdma_mem_t list" where
  "getFreeMemList m = m_rdmaMem m"

definition getOffsetToPtr :: "nat \<Rightarrow> 'm rdma_manager_scheme \<Rightarrow> nat" where
  "getOffsetToPtr off m = buffer_base m + off"

definition getBufferSize :: "'m rdma_manager_scheme \<Rightarrow> nat" where
  "getBufferSize m = m_memSize m"

definition printBuffer :: "bool \<Rightarrow> dpi_config \<Rightarrow> string \<Rightarrow> 'm rdma_manager_scheme \<Rightarrow> string list" where
  "printBuffer DEBUG cfg filename m =
     concat (map (\<lambda>r. Logging_debug DEBUG cfg filename 219
       (''offset='' @ show_nat (rm_offset r) @ '','' @ ''size='' @ show_nat (rm_size r) @ '','' @ ''free='' @
        show_nat (if rm_free r then 1 else 0))) (m_rdmaMem m)) @
     Logging_debug DEBUG cfg filename 224 ''---------''"

text \<open>Shared receive queues are declared for all managers and implemented by none.\<close>

definition receive_srq :: "nat \<Rightarrow> nat \<Rightarrow> nat \<Rightarrow> bool" where
  "receive_srq srq_id memAddr sz = False"

definition pollReceive_srq :: "nat \<Rightarrow> ib_addr_t \<Rightarrow> bool \<times> ib_addr_t" where
  "pollReceive_srq srq_id ret = (False, ret)"

definition createSharedReceiveQueue :: "nat \<Rightarrow> bool \<times> nat" where
  "createSharedReceiveQueue ret_srq_id = (False, ret_srq_id)"

definition initQP_srq :: "nat \<Rightarrow> ib_addr_t \<Rightarrow> bool \<times> ib_addr_t" where
  "initQP_srq srq_id ret = (False, ret)"

section \<open>Operators of the iterators\<close>

text \<open>The postfix \<open>++\<close> returns the iterator as it was.\<close>

definition si_next_post :: "SegmentIterator \<Rightarrow> iter_mem \<Rightarrow> SegmentIterator \<times> SegmentIterator" where
  "si_next_post it im = (it, si_next it im)"

definition si_unequal :: "SegmentIterator \<Rightarrow> SegmentIterator \<Rightarrow> bool" where
  "si_unequal a b \<longleftrightarrow> \<not> si_equal a b"

definition si_deref :: "SegmentIterator \<Rightarrow> iter_mem \<Rightarrow> DPI_SEGMENT_HEADER_t" where
  "si_deref it im = deref (si_header it) im"

definition bi_equal :: "BufferIterator \<Rightarrow> BufferIterator \<Rightarrow> bool" where
  "bi_equal a b \<longleftrightarrow> bi_name a = bi_name b"

section \<open>Odds and ends of the utilities\<close>

text \<open>\<open>be64toh\<close> on a little-endian host.\<close>

definition bigEndianToHost :: "nat \<Rightarrow> nat" where
  "bigEndianToHost be = le_nat (rev (le_bytes 8 be))"

text \<open>\<open>std::hash\<close> is implementation defined, \<open>stat\<close> asks the file system: None for an error, else whether it is a directory.\<close>

definition line_hash :: "(string \<Rightarrow> nat) \<Rightarrow> string \<Rightarrow> int \<Rightarrow> nat" where
  "line_hash hash_fn_str line keyPos = hash_fn_str (splitLine keyPos line)"

definition fileExists :: "(string \<Rightarrow> bool option) \<Rightarrow> string \<Rightarrow> bool" where
  "fileExists stat file \<longleftrightarrow> stat file \<noteq> None"

definition isDirectory :: "(string \<Rightarrow> bool option) \<Rightarrow> string \<Rightarrow> bool" where
  "isDirectory stat dir \<longleftrightarrow> stat dir = Some True"

section \<open>Lemmas\<close>

text \<open>No destructor waits for ever: every socket is closed before its context.\<close>

lemma ProtoSocket_destroy_returns: "term_returns False \<Longrightarrow> \<exists>s'. ProtoSocket_destroy term_returns s = Inr s'"
  by (simp add: ProtoSocket_destroy_def ProtoSocket_closeContext_def ProtoSocket_close_def)

lemma ProtoClient_destroy_returns:
  assumes "term_returns False"
  shows "\<exists>c'. ProtoClient_destroy term_returns c = Inr c'"
proof (cases "pc_socket c")
  case (Some s)
  then show ?thesis using ProtoSocket_destroy_returns [of term_returns s] assms by (auto simp: ProtoClient_destroy_def)
qed (simp add: ProtoClient_destroy_def)

lemma delete_clients_returns:
  assumes "term_returns False"
  shows "delete_clients term_returns order cs = Inr Map.empty"
proof (induction order)
  case (Cons k order)
  then show ?case
    using ProtoClient_destroy_returns [of term_returns] assms by (auto simp: bindR_eq_Inr split: option.splits)
qed simp

lemma RDMAClient_destroy_returns:
  assumes "term_returns False"
  shows "\<exists>c' w'. RDMAClient_destroy V term_returns order c w = Inr (c', w') \<and> cl_clients c' = Map.empty"
  using delete_clients_returns [of term_returns] assms by (auto simp: RDMAClient_destroy_def split: prod.splits)

lemma BufferWriterBW_destroy_returns:
  assumes "term_returns False"
  shows "\<exists>s' w'. BufferWriterBW_destroy V cfg term_returns order s w = Inr (s', w')"
  using RDMAClient_destroy_returns [of term_returns V order "bw_client (bw_destroy cfg s)" w] assms
  by (auto simp: BufferWriterBW_destroy_def Let_def)

text \<open>Reading a big-endian number is its own inverse.\<close>

lemma bigEndianToHost_twice:
  assumes "be < 2 ^ 64"
  shows "bigEndianToHost (bigEndianToHost be) = be"
proof -
  let ?bs = "rev (le_bytes 8 be)"
  have "le_bytes 8 (le_nat ?bs) = ?bs" using le_bytes_le_nat [of ?bs] by simp
  then have "bigEndianToHost (bigEndianToHost be) = le_nat (le_bytes 8 be)" by (simp add: bigEndianToHost_def)
  also have "\<dots> = be" using assms by (simp add: le_nat_le_bytes)
  finally show ?thesis .
qed

end
