(* ===== verification/Benchmarks.thy ===== *)
theory Benchmarks
  imports Complex_Main Lifecycle Stream_Writer
begin

text \<open>
  The benchmark program: \<open>BenchmarkMain.cc\<close> and src/src/benchmark. Options as \<open>getopt_long\<close> delivers them, the two
  benchmarks with their client threads, the signal that starts these, and the consumer that counts messages.
\<close>

section \<open>Options\<close>

record config_t =
  co_number :: nat
  co_server :: string
  co_port :: nat
  co_registryServer :: string
  co_registryPort :: nat
  co_iter :: nat
  co_threads :: nat
  co_data :: nat
  co_internalBufSize :: nat
  co_signaled :: bool

definition newConfig_t :: "dpi_config \<Rightarrow> config_t" where
  "newConfig_t cfg =
     \<lparr>co_number = 0, co_server = cfg_DPI_REGISTRY_SERVER cfg, co_port = cfg_DPI_NODE_PORT cfg,
      co_registryServer = cfg_DPI_REGISTRY_SERVER cfg, co_registryPort = cfg_DPI_REGISTRY_PORT cfg, co_iter = 100000,
      co_threads = 1, co_data = 2048, co_internalBufSize = cfg_DPI_INTERNAL_BUFFER_SIZE cfg, co_signaled = False\<rparr>"

text \<open>
  One result of \<open>getopt_long\<close>: the option's letter and \<open>optarg\<close>, null for a long option without the argument
  that is declared optional. A letter the switch does not list (\<open>'?'\<close> for an unknown option) is passed over.
\<close>

definition parse_option :: "char \<times> string option \<Rightarrow> config_t \<Rightarrow> config_t result" where
  "parse_option = (\<lambda>(c, optarg) config.
     if c \<notin> set ''ndsprobtia'' then Inr config
     else case optarg of None \<Rightarrow> Inl NullDeref
     | Some arg \<Rightarrow> Inr (
         if c = CHR ''n'' then config\<lparr>co_number := strtoul0 arg\<rparr>
         else if c = CHR ''d'' then config\<lparr>co_data := strtoul0 arg\<rparr>
         else if c = CHR ''s'' then config\<lparr>co_server := arg\<rparr>
         else if c = CHR ''p'' then config\<lparr>co_port := strtoul0 arg\<rparr>
         else if c = CHR ''r'' then config\<lparr>co_registryServer := arg\<rparr>
         else if c = CHR ''o'' then config\<lparr>co_registryPort := strtoul0 arg\<rparr>
         else if c = CHR ''b'' then config\<lparr>co_internalBufSize := strtoul0 arg\<rparr>
         else if c = CHR ''t'' then config\<lparr>co_threads := strtoul0 arg\<rparr>
         else if c = CHR ''i'' then config\<lparr>co_iter := strtoul0 arg\<rparr>
         else config\<lparr>co_signaled := (strtoul0 arg \<noteq> 0)\<rparr>))"

fun parse_options :: "(char \<times> string option) list \<Rightarrow> config_t \<Rightarrow> config_t result" where
  "parse_options [] config = Inr config"
| "parse_options (opt # opts) config = bindR (parse_option opt config) (parse_options opts)"

definition parseParameters :: "dpi_config \<Rightarrow> (char \<times> string option) list \<Rightarrow> config_t result" where
  "parseParameters cfg opts = parse_options opts (newConfig_t cfg)"

section \<open>The benchmarks\<close>

text \<open>The members the two benchmarks have in common, and the one only the latency benchmark has.\<close>

record append_benchmark =
  ab_serverPort :: nat
  ab_size :: nat
  ab_iter :: nat
  ab_numThreads :: nat
  ab_conns :: string
  ab_isClient :: bool
  ab_isRunnable :: bool

record latency_benchmark = append_benchmark +
  lb_sendSignaled :: bool

text \<open>The constructors redirect the configuration to the servers named on the command line.\<close>

definition redirect :: "config_t \<Rightarrow> dpi_config \<Rightarrow> dpi_config" where
  "redirect config cfg =
     cfg\<lparr>cfg_DPI_NODES := [co_server config @ '':'' @ show_nat (co_port config)],
         cfg_DPI_REGISTRY_SERVER := co_registryServer config, cfg_DPI_REGISTRY_PORT := u32 (co_registryPort config),
         cfg_DPI_INTERNAL_BUFFER_SIZE := u32 (co_internalBufSize config)\<rparr>"

definition newDPIAppendBenchmark :: "config_t \<Rightarrow> bool \<Rightarrow> dpi_config \<Rightarrow> append_benchmark \<times> dpi_config" where
  "newDPIAppendBenchmark config isClient cfg =
     (\<lparr>ab_serverPort = co_port config, ab_size = co_data config, ab_iter = co_iter config,
       ab_numThreads = co_threads config, ab_conns = co_server config, ab_isClient = isClient,
       ab_isRunnable = (isClient \<and> co_server config \<noteq> [] \<or> \<not> isClient)\<rparr>, redirect config cfg)"

definition newDPILatencyBenchmark :: "config_t \<Rightarrow> bool \<Rightarrow> dpi_config \<Rightarrow> latency_benchmark \<times> dpi_config" where
  "newDPILatencyBenchmark config isClient cfg =
     (\<lparr>ab_serverPort = co_port config, ab_size = co_data config, ab_iter = co_iter config,
       ab_numThreads = co_threads config, ab_conns = co_server config, ab_isClient = isClient,
       ab_isRunnable = (isClient \<and> co_server config \<noteq> [] \<or> \<not> isClient), lb_sendSignaled = co_signaled config\<rparr>,
      redirect config cfg)"

datatype benchmark = Append append_benchmark | Latency latency_benchmark

text \<open>An unknown number prints the usage and exits.\<close>

definition createTest :: "config_t \<Rightarrow> dpi_config \<Rightarrow> (benchmark \<times> dpi_config) result" where
  "createTest config cfg =
     (if co_number config = 1 then Inr (map_prod Append id (newDPIAppendBenchmark config True cfg))
      else if co_number config = 2 then Inr (map_prod Append id (newDPIAppendBenchmark config False cfg))
      else if co_number config = 3 then Inr (map_prod Latency id (newDPILatencyBenchmark config True cfg))
      else if co_number config = 4 then Inr (map_prod Latency id (newDPILatencyBenchmark config False cfg))
      else Inl Fatal)"

definition isRunnable :: "benchmark \<Rightarrow> bool" where
  "isRunnable b = (case b of Append a \<Rightarrow> ab_isRunnable a | Latency l \<Rightarrow> ab_isRunnable l)"

definition isClient :: "benchmark \<Rightarrow> bool" where
  "isClient b = (case b of Append a \<Rightarrow> ab_isClient a | Latency l \<Rightarrow> ab_isClient l)"

text \<open>What \<open>main\<close> of the benchmark program does with a command line.\<close>

datatype bench_action = BenchUsage | TestUsage benchmark | RunClient benchmark dpi_config | RunServer benchmark dpi_config

definition bench_main :: "dpi_config \<Rightarrow> (char \<times> string option) list \<Rightarrow> bench_action result" where
  "bench_main cfg opts =
     bindR (parseParameters cfg opts) (\<lambda>config.
     if co_number config \<le> 0 then Inr BenchUsage
     else bindR (createTest config cfg) (\<lambda>(test, cfg).
     if \<not> isRunnable test then Inr (TestUsage test)
     else if isClient test then Inr (RunClient test cfg) else Inr (RunServer test cfg)))"

section \<open>Client threads\<close>

text \<open>
  The constructor of the first thread registers the buffer. The constructor of \<open>BufferHandle\<close> takes the number of segments
  per writer before the number of writers; the append benchmark passes the number of appenders first.
\<close>

definition newAppendThread ::
  "('d, 'n) net_scheme \<Rightarrow> dpi_config \<Rightarrow> ib_resource_t \<Rightarrow> rdma_client \<Rightarrow> nat \<Rightarrow> nat \<Rightarrow> 'd world \<Rightarrow> (writer_bw \<times> 'd world) result" where
  "newAppendThread N cfg res0 no_client nodeid numberAppenders w =
     bindR (newRegistryClient N cfg w) (\<lambda>(rcl, w).
     bindR (if nodeid = 1
            then bindR (client_registerBuffer N (newBufferHandle ''appendBenchmark'' nodeid numberAppenders 100
                   (sub64 (cfg_DPI_SEGMENT_SIZE cfg) 24) BW) rcl w) (\<lambda>(_, rcl, w). Inr (rcl, w))
            else bindR (client_retrieveBuffer N ''appendBenchmark'' rcl w) (\<lambda>(_, rcl, w). Inr (rcl, w))) (\<lambda>(rcl, w).
     bindR (newBufferWriterBW N cfg res0 no_client ''appendBenchmark'' rcl (cfg_DPI_INTERNAL_BUFFER_SIZE cfg) None w) (\<lambda>(s, rcl, w).
       Inr (s, w))))"

definition newLatencyThread ::
  "('d, 'n) net_scheme \<Rightarrow> dpi_config \<Rightarrow> ib_resource_t \<Rightarrow> rdma_client \<Rightarrow> nat \<Rightarrow> nat \<Rightarrow> nat \<Rightarrow> 'd world \<Rightarrow> (writer_lat \<times> 'd world) result" where
  "newLatencyThread N cfg res0 no_client nodeid sz numberAppenders w =
     bindR (newRegistryClient N cfg w) (\<lambda>(rcl, w).
     bindR (if nodeid = 1
            then bindR (client_registerBuffer N (newBufferHandle ''buffer_benchmark'' nodeid 50 numberAppenders sz LAT) rcl w)
                   (\<lambda>(_, rcl, w). Inr (rcl, w))
            else Inr (rcl, w)) (\<lambda>(rcl, w).
     bindR (newBufferWriterLat N cfg res0 no_client ''buffer_benchmark'' rcl (cfg_DPI_INTERNAL_BUFFER_SIZE cfg) None w) (\<lambda>(s, rcl, w).
       Inr (s, w))))"

text \<open>
  The measured part of \<open>run\<close>: the scratch pad is filled with ones and appended for \<open>i = 0, ..., iter\<close>, and the buffer is
  closed; what the calls return is ignored.
\<close>

definition fill_scratch :: "nat \<Rightarrow> nat \<Rightarrow> 'd world \<Rightarrow> 'd world" where
  "fill_scratch pad sz w = w\<lparr>lmem := mem_write (lmem w) pad (replicate sz 1)\<rparr>"

definition append_thread_run ::
  "('d, 'v) verbs_scheme \<Rightarrow> 'c rdma_config_scheme \<Rightarrow> nat \<Rightarrow> nat \<Rightarrow> nat \<Rightarrow> writer_bw \<Rightarrow> 'd world \<Rightarrow> (writer_bw \<times> 'd world) result" where
  "append_thread_run V cfg pad sz iter s w =
     bindR (loopR (\<lambda>(i, s, w). i \<le> iter)
              (\<lambda>(i, s, w). bindR (bw_append V cfg pad sz s w) (\<lambda>(_, s, w). Inr (add64 i 1, s, w)))
              (0, s, fill_scratch pad sz w)) (\<lambda>(_, s, w).
     bindR (bw_close V cfg s w) (\<lambda>(_, s, w). Inr (s, w)))"

definition latency_thread_run ::
  "('d, 'v) verbs_scheme \<Rightarrow> 'c rdma_config_scheme \<Rightarrow> nat \<Rightarrow> nat \<Rightarrow> nat \<Rightarrow> bool \<Rightarrow> writer_lat \<Rightarrow> 'd world \<Rightarrow> (writer_lat \<times> 'd world) result" where
  "latency_thread_run V cfg pad sz iter sendSignaled s w =
     bindR (loopR (\<lambda>(i, s, w). i \<le> iter)
              (\<lambda>(i, s, w). bindR (la_append V cfg pad sz sendSignaled s w) (\<lambda>(_, s, w). Inr (add64 i 1, s, w)))
              (0, s, fill_scratch pad sz w)) (\<lambda>(_, s, w).
     bindR (la_close V cfg s w) (\<lambda>(_, s, w). Inr (s, w)))"

section \<open>Starting the threads together\<close>

text \<open>
  Each client thread takes the lock and, unless the signal has been given, waits on the condition variable; the main thread
  takes the lock, wakes all that wait and gives the signal. Each of these is one critical section. \<open>Released\<close> is a thread
  that has gone past the wait.
\<close>

datatype client_pc = AtLock | Waiting | Released

record start_state =
  ss_threads :: "client_pc list"
  ss_signaled :: bool

definition thread_arrives :: "nat \<Rightarrow> start_state \<Rightarrow> start_state" where
  "thread_arrives i s =
     s\<lparr>ss_threads := (ss_threads s)[i := if ss_signaled s then Released else Waiting]\<rparr>"

definition give_signal :: "start_state \<Rightarrow> start_state" where
  "give_signal s = s\<lparr>ss_threads := map (\<lambda>t. if t = Waiting then Released else t) (ss_threads s), ss_signaled := True\<rparr>"

inductive start_step :: "start_state \<Rightarrow> start_state \<Rightarrow> bool" where
  arrive: "i < length (ss_threads s) \<Longrightarrow> ss_threads s ! i = AtLock \<Longrightarrow> start_step s (thread_arrives i s)"
| signal: "\<not> ss_signaled s \<Longrightarrow> start_step s (give_signal s)"
| spurious: "i < length (ss_threads s) \<Longrightarrow> ss_threads s ! i = Waiting \<Longrightarrow>
     start_step s (s\<lparr>ss_threads := (ss_threads s)[i := Released]\<rparr>)"

section \<open>Results\<close>

text \<open>The average time of the threads; \<open>double\<close> is taken as real numbers.\<close>

definition bench_total :: "nat list \<Rightarrow> nat" where
  "bench_total ts = foldl add64 0 ts"

definition bench_time :: "nat list \<Rightarrow> real" where
  "bench_time ts = real (bench_total ts) / real (length ts)"

definition bench_bw :: "'a append_benchmark_scheme \<Rightarrow> nat list \<Rightarrow> nat" where
  "bench_bw b ts = nat \<lfloor>(real (ab_size b) * real (ab_iter b) * real (ab_numThreads b) / (1024 * 1024)) / (bench_time ts / 10 ^ 9)\<rfloor>"

definition bench_mops :: "'a append_benchmark_scheme \<Rightarrow> nat list \<Rightarrow> real" where
  "bench_mops b ts = ((real (ab_iter b) * real (ab_numThreads b)) / (bench_time ts / 10 ^ 9)) / 10 ^ 6"

section \<open>The latency benchmark's consumer\<close>

text \<open>
  The barrier's loop. It runs only while the iterator stands at the end of the list of rings, where there is nothing to
  look at.
\<close>

definition manipulateBarrier :: "bool \<Rightarrow> BufferIterator \<Rightarrow> iter_mem \<Rightarrow> (bool \<times> BufferIterator \<times> iter_mem) result" where
  "manipulateBarrier barrier b im =
     (if bi_iters b = [] then Inr (False, b, im)
      else bindR (loopR (\<lambda>(b, im). bi_pointer b = length (bi_iters b))
             (\<lambda>(b, im).
                bindR (index_op (bi_iters b) (bi_pointer b)) (\<lambda>ih.
                if \<not> isConsumable (deref (si_header (ih_iter ih)) im)
                then let p = si_header (ih_prev ih) in
                  Inr (b\<lparr>bi_pointer := bi_pointer b + 1\<rparr>, assign p (setWriteable barrier (deref p im)) im)
                else Inr (b, im))) (b, im)) (\<lambda>(b, im). Inr (True, b, im)))"

definition newBarrier :: "nat \<Rightarrow> BufferSegment list \<Rightarrow> string \<Rightarrow> mem \<Rightarrow> BufferIterator \<times> iter_mem" where
  "newBarrier rdmaBuffer entrySegments bufferName m = newBufferIterator True rdmaBuffer entrySegments bufferName m"

definition barrier_create where
  "barrier_create = manipulateBarrier True"

definition barrier_release where
  "barrier_release = manipulateBarrier False"

text \<open>
  The counting loop of \<open>runServer\<close>, which counts in an \<open>int\<close>; a size of zero divides by zero, which ends the process.
\<close>

definition count_messages :: "nat \<Rightarrow> BufferIterator \<Rightarrow> iter_mem \<Rightarrow> (32 word \<times> BufferIterator \<times> iter_mem) result" where
  "count_messages sz b im =
     bindR (loopR (\<lambda>(more, count, b, im). more)
       (\<lambda>(more, count, b, im).
          bindR (has_next b im) (\<lambda>(found, b, im).
          if \<not> found then Inr (False, count, b, im)
          else bindR (next_segment b im) (\<lambda>((p, dataSize), b, im).
            if sz = 0 then Inl Terminate else Inr (True, count + word_of_nat (dataSize div sz), b, im))))
       (True, 0, b, im)) (\<lambda>(_, count, b, im). Inr (count, b, im))"

section \<open>Lemmas\<close>

lemma parse_unknown: "c \<notin> set ''ndsprobtia'' \<Longrightarrow> parse_option (c, arg) config = Inr config"
  by (simp add: parse_option_def)

text \<open>What the command line redirects stays in the types of the members.\<close>

lemma redirect_typed: "config_typed cfg \<Longrightarrow> config_typed (redirect config cfg)"
  by (simp add: config_typed_def redirect_def u32_def)

text \<open>The barrier never changes anything: a new iterator stands at its first ring, not at the end.\<close>

lemma length_new_helpers: "length (fst (new_helpers base segs im)) = length segs"
  by (induction segs arbitrary: im) (auto simp: Let_def split: prod.splits, metis fst_conv)

lemma barrier_standing:
  assumes "newBarrier base segs name m = (b, im)" "segs \<noteq> []"
  shows "manipulateBarrier flag b im' = Inr (True, b, im')"
proof -
  have "length (bi_iters b) = length segs" "bi_pointer b = 0"
    using assms(1) length_new_helpers [of base segs "\<lparr>im_mem = m, im_heap = []\<rparr>"]
    by (auto simp: newBarrier_def newBufferIterator_def split: prod.splits)
  moreover from this assms(2) have "bi_iters b \<noteq> []" by auto
  ultimately show ?thesis using assms(2) by (simp add: manipulateBarrier_def loopR_unfold)
qed

lemma barrier_has_no_effect:
  assumes "newBarrier base segs name m = (b, im)" "segs \<noteq> []"
  shows "barrier_create b im' = Inr (True, b, im') \<and> barrier_release b im' = Inr (True, b, im')"
  using barrier_standing [OF assms] by (simp add: barrier_create_def barrier_release_def)

text \<open>Making an iterator leaves memory alone.\<close>

lemma new_helpers_memory:
  "new_helpers base segs (im\<lparr>im_mem := m\<rparr>) = map_prod id (\<lambda>im. im\<lparr>im_mem := m\<rparr>) (new_helpers base segs im) \<and>
   im_mem (snd (new_helpers base segs im)) = im_mem im"
proof (induction segs arbitrary: im)
  case (Cons seg segs)
  let ?im = "im\<lparr>im_heap := im_heap im @ [markEndSegment False (markEndSegment True header_init)]\<rparr>"
  from Cons.IH [of ?im] show ?case
    by (cases im) (auto simp: getEndSegmentIterator_def Let_def assign_def deref_def split: prod.splits)
qed simp

text \<open>Every client thread is released, in whatever order threads arrive and the signal is given.\<close>

definition nobody_missed :: "start_state \<Rightarrow> bool" where
  "nobody_missed s \<longleftrightarrow> ss_signaled s \<longrightarrow> Waiting \<notin> set (ss_threads s)"

fun start_weight :: "client_pc \<Rightarrow> nat" where
  "start_weight AtLock = 2"
| "start_weight Waiting = 1"
| "start_weight Released = 0"

definition start_rank :: "start_state \<Rightarrow> nat" where
  "start_rank s = sum_list (map start_weight (ss_threads s)) + (if ss_signaled s then 0 else 1)"

lemma start_step_rank:
  assumes "start_step s t" "nobody_missed s"
  shows "nobody_missed t \<and> start_rank t < start_rank s"
  using assms
proof (cases rule: start_step.cases)
  case (arrive i)
  then show ?thesis
    using assms(2) set_update_subset_insert [of "ss_threads s" i]
    by (auto simp: nobody_missed_def start_rank_def thread_arrives_def intro!: sum_list_update_less)
next
  case signal
  have "sum_list (map (\<lambda>t. start_weight (if t = Waiting then Released else t)) (ss_threads s)) \<le> sum_list (map start_weight (ss_threads s))"
    by (rule sum_list_mono) simp
  then have "start_rank (give_signal s) < start_rank s"
    using signal by (simp add: start_rank_def give_signal_def o_def)
  then show ?thesis using signal by (auto simp: nobody_missed_def give_signal_def)
next
  case (spurious i)
  then show ?thesis
    using assms(2) set_update_subset_insert [of "ss_threads s" i]
    by (auto simp: nobody_missed_def start_rank_def intro!: sum_list_update_less)
qed

lemma start_releases_all:
  "inevitable start_step (\<lambda>s. set (ss_threads s) \<subseteq> {Released}) \<lparr>ss_threads = replicate n AtLock, ss_signaled = False\<rparr>"
proof (rule inevitable_by_rank [where Q = nobody_missed and rank = start_rank])
  show "\<exists>t. start_step s t" if "nobody_missed s" "\<not> set (ss_threads s) \<subseteq> {Released}" for s
  proof (cases "\<exists>i < length (ss_threads s). ss_threads s ! i = AtLock")
    case True
    then show ?thesis by (blast intro: start_step.arrive)
  next
    case False
    from that(2) obtain x where "x \<in> set (ss_threads s)" "x \<noteq> Released" by auto
    with False have "Waiting \<in> set (ss_threads s)" by (cases x) (auto simp: in_set_conv_nth)
    then show ?thesis using that(1) by (blast intro: start_step.signal dest: nobody_missed_def [THEN iffD1])
  qed
qed (use start_step_rank in \<open>auto simp: nobody_missed_def\<close>)

text \<open>The measured loop is a sequence of \<open>iter + 1\<close> appends: \<open>reps n\<close> stands for \<open>n\<close> of them.\<close>

lemma counted_loop:
  assumes "reps n s w = Inr (True, s1, w1)" "i + n = Suc iter" "Suc iter < 2 ^ 64"
    and "\<And>i s w. body (i, s, w) = bindR (app s w) (\<lambda>(_, s, w). Inr (add64 i 1, s, w))"
    and "\<And>i s w. going (i, s, w) = (i \<le> iter)"
    and "\<And>s w. reps 0 s w = Inr (True, s, w)"
    and "\<And>n s w. reps (Suc n) s w = bindR (app s w) (\<lambda>(ok, s, w). if ok then reps n s w else Inr (False, s, w))"
  shows "loopR going body (i, s, w) = Inr (Suc iter, s1, w1)"
  using assms(1,2)
proof (induction n arbitrary: i s w)
  case 0
  then show ?case by (simp add: loopR_unfold assms(5,6))
next
  case (Suc n)
  then obtain s2 w2 where 2: "app s w = Inr (True, s2, w2)" "reps n s2 w2 = Inr (True, s1, w1)"
    by (auto simp: bindR_eq_Inr assms(7) split: if_splits)
  have "i \<le> iter" "add64 i 1 = Suc i" using Suc.prems(2) assms(3) by (simp_all add: add64_small)
  with 2(1) Suc.IH [OF 2(2), of "Suc i"] Suc.prems(2) show ?case
    by (simp add: loopR_unfold [of going body "(i, s, w)"] assms(4,5))
qed

text \<open>The scratch pad lies outside the registered memory, so the local header stays as it is.\<close>

lemma scratch_header:
  assumes "{h..<h + 24} \<subseteq> lreg" "{pad..<pad + sz} \<inter> lreg = {}"
  shows "get_header (lmem (fill_scratch pad sz w)) h = get_header (lmem w) h"
proof (rule get_header_cong)
  fix a assume "h \<le> a" "a < h + 24"
  then have "a \<in> {h..<h + 24}" by simp
  then have "a \<notin> {pad..<pad + sz}" using assms by blast
  then show "lmem (fill_scratch pad sz w) a = lmem w a" by (auto simp: fill_scratch_def mem_write_outside)
qed

lemma stream_of_scratch:
  "stream_of (mem_write m pad (replicate sz x)) (replicate n (pad, sz)) = replicate (n * sz) x"
proof -
  have "mem_read (mem_write m pad (replicate sz x)) pad sz = replicate sz x"
    by simp
  then show ?thesis by (induction n) (simp_all add: stream_of_def replicate_add)
qed

section \<open>Properties\<close>

text \<open>
  Claim C17. A client thread of the append benchmark writes what it is meant to measure, and one append more. Started on a
  fresh ring over a reliable connection, with a scratch pad outside the registered memory and room in the ring, it ends
  without error, and the closed ring holds \<open>iter + 1\<close> messages of \<open>sz\<close> bytes, all ones.
\<close>

theorem append_benchmark_run:
  assumes "ring_stream V p cq lkey rkey lreg rreg slots up rmem due busy posted pend rank cfg rb e cnt S h ptr cap"
    and "bw_fresh (cfg_RDMA_MAX_WR cfg) p cq lkey rkey rb e S h ptr cap s"
    and "up w" and "\<not> pend w" and "posted w \<le> cl_countWR (bw_client s)" and "busy w = {}"
    and "ring_fresh (rmem w) rb e cnt (S + 24)" and "0 < cnt"
    and "get_header (lmem w) h = get_header (rmem w) (rb + e)"
    and "Suc iter * sz \<le> cnt * S" and "Suc iter < 2 ^ 64" and "{pad..<pad + sz} \<inter> lreg = {}"
  shows "\<exists>s' w' k u. append_thread_run V cfg pad sz iter s w = Inr (s', w') \<and>
    ring_closed (rmem w') rb e cnt S k u (replicate (Suc iter * sz) 1)"
proof -
  note R = assms(1) and L = ring_stream.axioms(1) [OF assms(1)]
  let ?w = "fill_scratch pad sz w" and ?chunks = "replicate (Suc iter) (pad, sz)"
  have st: "up ?w" "rmem ?w = rmem w" "busy ?w = busy w" "posted ?w = posted w" "\<not> pend ?w"
    using rc_fabric.store [OF ring_link.axioms(1) [OF L] assms(3,4)] assms(6) by (simp_all add: fill_scratch_def)
  have "get_header (lmem ?w) h = get_header (lmem w) h"
    using scratch_header [OF ring_link.hdr_mem [OF L] assms(12)] .
  then have hd: "get_header (lmem ?w) h = get_header (rmem ?w) (rb + e)" using assms(9) st(2) by simp
  have room: "sum_list (map snd ?chunks) \<le> cnt * S" using assms(10) by (simp add: sum_list_replicate)
  have fresh: "ring_fresh (rmem ?w) rb e cnt (S + 24)" "posted ?w \<le> cl_countWR (bw_client s)" "busy ?w = {}"
    using assms(5,6,7) st by simp_all
  have src: "\<forall>(d, n) \<in> set ?chunks. {d..<d + n} \<inter> lreg = {}" using assms(12) by auto
  obtain s1 w1 s2 w2 k u where run: "bw_appends V cfg ?chunks s ?w = Inr (True, s1, w1)" "bw_close V cfg s1 w1 = Inr (True, s2, w2)"
    "ring_closed (rmem w2) rb e cnt S k u (stream_of (lmem ?w) ?chunks)"
    using stream_written [OF R assms(2) st(1,5) fresh(2,3,1) assms(8) hd room src] by blast
  have "append_thread_run V cfg pad sz iter s w = Inr (s2, w2)"
    unfolding append_thread_run_def using assms(11) run(2)
    by (subst counted_loop [where reps = "\<lambda>n. bw_appends V cfg (replicate n (pad, sz))", OF run(1), of 0 iter]) simp_all
  moreover have "stream_of (lmem ?w) ?chunks = replicate (Suc iter * sz) 1"
    using stream_of_scratch [of "lmem w" pad sz 1 "Suc iter"] by (simp add: fill_scratch_def)
  ultimately show ?thesis using run(3) by auto
qed

theorem append_benchmark_run_witness:
  "\<exists>s' w' k u. append_thread_run fab_verbs fab_config 0 20 2 fab_writer fab_world = Inr (s', w') \<and>
    ring_closed (fab_rmem w') 65536 64 4 16 k u (replicate 60 1)"
proof -
  have "\<exists>s' w' k u. append_thread_run fab_verbs fab_config 0 20 2 fab_writer fab_world = Inr (s', w') \<and>
      ring_closed (fab_rmem w') 65536 64 4 16 k u (replicate (Suc 2 * 20) 1)"
    by (rule append_benchmark_run [OF fab_stream.ring_stream_axioms])
      (use fab_world_start fab_writer_fresh in \<open>auto simp: fab_lreg_def\<close>)
  then show ?thesis by simp
qed

end
