(* ===== verification/Main_Program.thy ===== *)
theory Main_Program
  imports Benchmarks
begin

text \<open>
  \<open>Main.cc\<close>: the program that runs a test suite or the registry. What it prints is a list of lines, what it then does an
  action.
\<close>

definition usage :: "string list" where
  "usage =
     [''dpi -r (test|server) -n #number'', [], ''Servers:'', ''1: '' @ [CHR 0x09] @ '' dpi/RegistryServer'', [], ''Tests:''] @
     map (\<lambda>(n, t). n @ '': '' @ [CHR 0x09] @ '' '' @ t)
       [(''1'', ''thread/TestThread''), (''2'', ''thread/TestHelloServer''), (''101'', ''net/TestRDMAServer''),
        (''102'', ''net/TestRDMAServerMultipleClients''), (''103'', ''net/TestSimpleUD''), (''104'', ''net/TestRDMAServerMCast''),
        (''201'', ''dpi/TestBufferWriter''), (''202'', ''dpi/TestRegistryClient''), (''203'', ''dpi/IntegrationTest''),
        (''204'', ''dpi/TestBufferIterator''), (''301'', ''examples'')] @ [[]]"

datatype test_suite = TestThread | TestProtoServer | TestRDMAServer | TestRDMAServerMultClients | TestSimpleUD
  | TestRDMAServerMCast | TestBufferWriter | TestRegistryClient | IntegrationTestsAppend | TestBufferIterator | AppendExamples

text \<open>What the program does: run a suite, serve as the registry, or nothing but print.\<close>

datatype action = RunSuite test_suite | Serve "registry result" | Nothing

definition runtest :: "int \<Rightarrow> string list \<times> action" where
  "runtest t =
     (case map_of [(1, TestThread), (2, TestProtoServer), (101, TestRDMAServer), (102, TestRDMAServerMultClients),
        (103, TestSimpleUD), (104, TestRDMAServerMCast), (201, TestBufferWriter), (202, TestRegistryClient),
        (203, IntegrationTestsAppend), (204, TestBufferIterator), (301, AppendExamples)] t of
        Some suite \<Rightarrow> ([], RunSuite suite)
      | None \<Rightarrow> ([''No test with number '' @ show_int t @ '' exists.''], Nothing))"

text \<open>
  \<open>runserver\<close>. The threads of the server are those of \<open>ProtoServer\<close>: the main thread sleeps as long as \<open>m_running\<close> is
  set, and stops a server that could not be started. In either case it then deletes the server.
\<close>

definition runserver ::
  "('d, 'n) net_scheme \<Rightarrow> dpi_config \<Rightarrow> ib_resource_t \<Rightarrow> int \<Rightarrow> 'd world \<Rightarrow> string list \<times> action" where
  "runserver N cfg res0 s w =
     (if s = 1 then ([], Serve (map_sum id fst (newRegistryServer N cfg res0 w)))
      else ([''No server with number '' @ show_int s @ '' exists.''], Nothing))"

definition runclient :: "int \<Rightarrow> string list \<times> action" where
  "runclient s = ([''No client with number '' @ show_int s @ '' exists.''], Nothing)"

record main_config =
  mc_runmode :: string
  mc_number :: int
  mc_port :: int

text \<open>
  The options: \<open>unsigned long\<close> to \<open>int\<close> keeps the low 32 bits. Any other letter prints the usage and returns 1, which
  is None.
\<close>

fun main_options :: "(char \<times> string) list \<Rightarrow> main_config \<Rightarrow> main_config option" where
  "main_options [] config = Some config"
| "main_options ((c, optarg) # opts) config =
     (if c = CHR ''r'' then main_options opts (config\<lparr>mc_runmode := optarg\<rparr>)
      else if c = CHR ''n'' then main_options opts (config\<lparr>mc_number := int32_of (strtoul0 optarg)\<rparr>)
      else if c = CHR ''p'' then main_options opts (config\<lparr>mc_port := int32_of (strtoul0 optarg)\<rparr>)
      else None)"

text \<open>The exit code, the lines printed (apart from the echo of the port) and the action.\<close>

definition program_main ::
  "('d, 'n) net_scheme \<Rightarrow> dpi_config \<Rightarrow> ib_resource_t \<Rightarrow> (char \<times> string) list \<Rightarrow> 'd world \<Rightarrow> int \<times> string list \<times> action" where
  "program_main N cfg res0 opts w =
     (case main_options opts \<lparr>mc_runmode = [], mc_number = 0, mc_port = 0\<rparr> of
        None \<Rightarrow> (1, usage, Nothing)
      | Some config \<Rightarrow>
          (0, if mc_runmode config = ''test'' \<and> 0 < mc_number config then runtest (mc_number config)
              else if mc_runmode config = ''server'' \<and> 0 < mc_number config then runserver N cfg res0 (mc_number config) w
              else if mc_runmode config = ''client'' \<and> 0 < mc_number config then runclient (mc_number config)
              else (usage, Nothing)))"

text \<open>An argument of 2^32 or more is cut down: \<open>-n 4294967297\<close> runs the first test.\<close>

lemma number_wraps:
  "program_main N cfg res0 [(CHR ''r'', ''test''), (CHR ''n'', ''4294967297'')] w = (0, [], RunSuite TestThread)"
  by (simp add: program_main_def runtest_def strtoul0_def split_sign_def is_space_def base_digits_def hex_val_def int32_of_def)

lemma client_mode_does_nothing:
  assumes "program_main N cfg res0 [(CHR ''r'', ''client''), (CHR ''n'', n)] w = (code, out, act)"
  shows "act = Nothing"
  using assms by (auto simp: program_main_def runclient_def split: if_splits)

end
