(* ===== verification/Cluster.thy ===== *)
theory Cluster
  imports Registry Node_Server "HOL-Library.Countable"
begin

text \<open>
  Client, registry and node put together: the requests of \<open>RegistryClient\<close> are answered by the handler of
  \<open>RegistryServer\<close>, whose own requests are answered by the handler of \<open>NodeServer\<close>. What lies between a client and a
  server (ZeroMQ's request and reply sockets, the protobuf encoding and the server's loop, which takes one
  request at a time) is the locale \<open>rpc_link\<close>.
\<close>

section \<open>Requests that are answered\<close>

text \<open>
  What a server makes of a request: the loop of \<open>ProtoServer::run\<close> hands it to \<open>handle\<close> and sends the response back.
  The server's state is that of its object and of its process.
\<close>

definition node_answer ::
  "('p, 'v) verbs_scheme \<Rightarrow> 'c rdma_config_scheme \<Rightarrow> any_msg \<Rightarrow> rdma_server \<times> 'p world \<Rightarrow>
   (any_msg \<times> rdma_server \<times> 'p world) result" where
  "node_answer V cfg req sw = node_handle V cfg req (fst sw) (snd sw)"

definition registry_answer ::
  "('d, 'n) net_scheme \<Rightarrow> dpi_config \<Rightarrow> any_msg \<Rightarrow> registry \<times> 'd world \<Rightarrow>
   (any_msg \<times> registry \<times> 'd world) result" where
  "registry_answer N cfg req rw = registry_handle N cfg req (fst rw) (snd rw)"

text \<open>The registry after it has answered one request after the other, whatever it answered.\<close>

fun registry_after ::
  "('d, 'n) net_scheme \<Rightarrow> dpi_config \<Rightarrow> any_msg list \<Rightarrow> registry \<times> 'd world \<Rightarrow> (registry \<times> 'd world) result" where
  "registry_after N cfg [] rw = Inr rw"
| "registry_after N cfg (req # reqs) rw = bindR (registry_answer N cfg req rw) (\<lambda>(_, rw). registry_after N cfg reqs rw)"

lemma registry_after_keeps:
  "registry_after N cfg reqs rw = Inr rw' \<Longrightarrow> reg_bufferHandles (fst rw) x \<noteq> None \<Longrightarrow> reg_bufferHandles (fst rw') x \<noteq> None"
proof (induction reqs arbitrary: rw)
  case (Cons req reqs)
  from Cons.prems(1) obtain resp r1 w1 where 1: "registry_handle N cfg req (fst rw) (snd rw) = Inr (resp, r1, w1)"
    "registry_after N cfg reqs (r1, w1) = Inr rw'"
    by (auto simp: bindR_eq_Inr registry_answer_def)
  from Cons.IH [OF 1(2)] registry_keeps_names [OF 1(1) Cons.prems(2)] show ?case by simp
qed simp

text \<open>A client that is connected over the socket \<open>h\<close>, by itself and as the client of a connection string.\<close>

definition talks :: "proto_client \<Rightarrow> nat \<Rightarrow> bool" where
  "talks pc h \<longleftrightarrow> pc_isConnected pc \<and> (\<exists>s. pc_socket pc = Some s \<and> ps_sock s = Some h)"

definition client_talks :: "rdma_client \<Rightarrow> string \<Rightarrow> nat \<Rightarrow> bool" where
  "client_talks c connection h \<longleftrightarrow> (\<exists>pc. cl_clients c connection = Some pc \<and> talks pc h)"

definition no_error :: "any_msg \<Rightarrow> bool" where
  "no_error rep \<longleftrightarrow> (case rep of ErrorMessage e \<Rightarrow> e = 0 | _ \<Rightarrow> True)"

text \<open>
  The link: \<open>connected h\<close> says that socket \<open>h\<close> is a request socket whose peer is serving, \<open>target h\<close> which server
  that is, and \<open>peer\<close> gives the state of every server. A request that is sent is delivered to the peer, which answers it, and the answer is what is
  received; nothing else in the client's process changes and no other server.
\<close>

locale rpc_link =
  fixes N :: "('d, 'n) net_scheme"
    and connected :: "nat \<Rightarrow> 'd world \<Rightarrow> bool"
    and target :: "nat \<Rightarrow> nat"
    and answer :: "any_msg \<Rightarrow> 's \<Rightarrow> (any_msg \<times> 's) result"
    and peer :: "'d world \<Rightarrow> nat \<Rightarrow> 's"
  assumes request_sent: "connected h w \<Longrightarrow> answer req (peer w (target h)) = Inr (rep, s) \<Longrightarrow>
      \<exists>data w1 bytes w2. pb_serialize N req = Some data \<and> zmq_send N h data False w = (ZmqOk True, w1) \<and>
        zmq_recv N h w1 = (ZmqOk (Some bytes), w2) \<and> pb_parse N bytes = Some rep \<and>
        peer w2 = (peer w)(target h := s) \<and> lmem w2 = lmem w \<and> (\<forall>k. connected k w2 = connected k w)"
begin

lemma send_answered:
  assumes "talks pc h" "connected h w" "answer req (peer w (target h)) = Inr (rep, s)"
  shows "\<exists>w'. ProtoClient_send N pc req w = Inr (no_error rep, rep, pc, w') \<and> peer w' = (peer w)(target h := s) \<and>
    lmem w' = lmem w \<and> (\<forall>k. connected k w' = connected k w)"
proof -
  obtain sk where sk: "pc_isConnected pc" "pc_socket pc = Some sk" "ps_sock sk = Some h"
    using assms(1) by (auto simp: talks_def)
  then have same: "pc\<lparr>pc_socket := Some sk\<rparr> = pc" by (cases pc) simp
  show ?thesis
    using request_sent [OF assms(2,3)] sk same
    by (auto simp: ProtoClient_send_def ProtoSocket_send_def ProtoSocket_receive_def no_error_def)
qed

lemma client_send_answered:
  assumes "client_talks c connection h" "connected h w" "answer req (peer w (target h)) = Inr (rep, s)"
  shows "\<exists>w'. client_send_rpc N connection req c w = Inr (no_error rep, rep, c, w') \<and> peer w' = (peer w)(target h := s) \<and>
    lmem w' = lmem w \<and> (\<forall>k. connected k w' = connected k w)"
proof -
  obtain pc where pc: "cl_clients c connection = Some pc" "talks pc h" using assms(1) by (auto simp: client_talks_def)
  then have same: "c\<lparr>cl_clients := (cl_clients c)(connection \<mapsto> pc)\<rparr> = c" by (cases c) (simp add: fun_upd_idem)
  show ?thesis
    using send_answered [OF pc(2) assms(2,3)] pc(1) same by (auto simp: client_send_rpc_def)
qed

text \<open>A node that is connected is asked without further ado.\<close>

lemma remoteAllocSegments_answered:
  assumes "client_talks c connection h" "connected h w"
    "answer (createDPIAllocSegmentsRequest name cnt sz ty) (peer w (target h)) = Inr (DPIAllocSegmentsResponse resp, s)"
  shows "\<exists>c' w'. remoteAllocSegments N cfg connection name cnt sz off ty c w =
      Inr (asr_return resp = 0, if asr_return resp = 0 then asr_offset resp else off, c', w') \<and>
    client_talks c' connection h \<and> peer w' = (peer w)(target h := s) \<and> lmem w' = lmem w \<and>
    (\<forall>k. connected k w' = connected k w)"
proof -
  have con: "isConnected connection c" using assms(1) by (auto simp: client_talks_def isConnected_def)
  obtain a c1 where a: "addr_of connection c = (a, c1)" by force
  then have "cl_clients c1 = cl_clients c" by (auto simp: addr_of_def split: option.splits)
  then have t: "client_talks c1 connection h" using assms(1) by (simp add: client_talks_def)
  show ?thesis
    using client_send_answered [OF t assms(2,3)] con a t
    by (auto simp: remoteAllocSegments_def client_connect_def connect_addr_def no_error_def)
qed

end

section \<open>Several rings on one node\<close>

text \<open>
  What a node makes of \<open>n\<close> allocation requests that are sent until the first one fails: whether all were granted,
  the offsets of the rings, and its state.
\<close>

fun node_rings ::
  "AllocSegmentsRequest \<Rightarrow> nat \<Rightarrow> rdma_server \<times> 'p world \<Rightarrow> bool \<times> nat list \<times> rdma_server \<times> 'p world" where
  "node_rings req 0 sw = (True, [], sw)"
| "node_rings req (Suc n) sw =
     (case node_allocSegments req (fst sw) (snd sw) of
        (DPIAllocSegmentsResponse resp, sw) \<Rightarrow>
          if asr_return resp = 0 then
            (case node_rings req n sw of (ok, offs, sw) \<Rightarrow> (ok, asr_offset resp # offs, sw))
          else (False, [], sw)
      | (_, sw) \<Rightarrow> (False, [], sw))"

text \<open>The bytes of a ring, its counter included.\<close>

definition ring_block :: "AllocSegmentsRequest \<Rightarrow> nat \<Rightarrow> nat set" where
  "ring_block req off = {off - ring_front req..<off - ring_front req + ring_bytes req}"

definition ring_made :: "AllocSegmentsRequest \<Rightarrow> nat \<Rightarrow> mem \<Rightarrow> nat \<Rightarrow> bool" where
  "ring_made req base m off \<longleftrightarrow> ring_front req \<le> off \<and>
     ring_fresh m base off (asq_segments_count req) (asq_segments_size req) \<and>
     (ring_front req = 8 \<longrightarrow> load64 m (base + off - 8) = asq_segments_count req)"

lemma ring_front_values: "ring_front req = 0 \<or> ring_front req = 8"
  by (simp add: ring_front_def)

lemma ring_made_cong:
  assumes "ring_made req base m off" "ring_request_ok req"
    and same: "\<And>a. a \<in> ring_block req off \<Longrightarrow> m' (base + a) = m (base + a)"
  shows "ring_made req base m' off"
proof -
  let ?cnt = "asq_segments_count req" and ?sz = "asq_segments_size req"
  have front: "ring_front req \<le> off" using assms(1) by (simp add: ring_made_def)
  have hdr: "get_header m' (base + seg_at off ?sz i) = get_header m (base + seg_at off ?sz i)" if "i < ?cnt" for i
  proof (rule get_header_cong)
    fix a assume a: "base + seg_at off ?sz i \<le> a" "a < base + seg_at off ?sz i + sizeof_header"
    have "Suc i * ?sz \<le> ?cnt * ?sz" using that by (intro mult_le_mono1) simp
    then have "a - base \<in> ring_block req off" "base + (a - base) = a"
      using a front assms(2) by (auto simp: ring_block_def ring_bytes_def seg_at_def ring_request_ok_def)
    then show "m' a = m a" using same [of "a - base"] by simp
  qed
  have "load64 m' (base + off - 8) = load64 m (base + off - 8)" if "ring_front req = 8"
    unfolding load64_def
  proof (intro arg_cong [where f = le_nat] mem_read_cong)
    fix a assume a: "base + off - 8 \<le> a" "a < base + off - 8 + 8"
    then have "a - base \<in> ring_block req off" "base + (a - base) = a"
      using that front by (auto simp: ring_block_def ring_bytes_def)
    then show "m' a = m a" using same [of "a - base"] by simp
  qed
  then show ?thesis using assms(1) hdr by (auto simp: ring_made_def ring_fresh_def ring_linked_def)
qed

text \<open>One request on a node with a reliable-connection manager: granted or refused.\<close>

lemma node_allocSegments_outcome:
  assumes "srv_manager s = ManagerRC m" "mem_inv m" "ring_request_ok req"
  obtains (granted) off s' w' m' where
      "node_allocSegments req s w = (DPIAllocSegmentsResponse \<lparr>asr_offset = off, asr_return = 0\<rparr>, s', w')"
      "srv_manager s' = ManagerRC m'" "mem_inv m'" "buffer_base m' = buffer_base m" "m_memSize m' = m_memSize m"
      "ring_block req off \<inter> used_bytes m = {}" "used_bytes m' = used_bytes m \<union> ring_block req off"
      "ring_block req off \<subseteq> {..<m_memSize m}" "ring_made req (buffer_base m) (lmem w') off"
      "\<And>a. a \<notin> ring_block req off \<Longrightarrow> lmem w' (buffer_base m + a) = lmem w (buffer_base m + a)"
      "m' = snd (internalAlloc (ring_bytes req) m)"
  | (refused) w' where "\<forall>x \<in> set (m_rdmaMem m). rm_size x < ring_bytes req"
      "node_allocSegments req s w = (DPIAllocSegmentsResponse \<lparr>asr_offset = ring_front req, asr_return = 100\<rparr>, s, w')"
      "ring_fresh (lmem w') (buffer_base m) (ring_front req) (asq_segments_count req) (asq_segments_size req)"
proof (cases "\<forall>x \<in> set (m_rdmaMem m). rm_size x < ring_bytes req")
  case True
  from node_alloc_failed [OF assms True, of undefined undefined w] show ?thesis
    using refused [OF True] by (auto simp: node_handle_def)
next
  case False
  obtain r m' where a: "internalAlloc (ring_bytes req) m = (r, m')" by force
  have nn: "\<not> rm_isnull r" using internalAlloc_null_iff [OF assms(2), of "ring_bytes req"] False a by simp
  note B = internalAlloc_bytes [OF assms(2) ring_request_pos [OF assms(3)] a nn]
  let ?off = "rm_offset r + ring_front req"
  have small: "?off < 2 ^ 64"
    using B(5) assms(2) ring_request_pos [OF assms(3)] by (auto simp: mem_inv_def ring_bytes_def)
  obtain s' w' where run: "node_allocSegments req s w = (DPIAllocSegmentsResponse \<lparr>asr_offset = ?off, asr_return = 0\<rparr>, s', w')"
    and s': "s' = s\<lparr>srv_manager := ManagerRC m'\<rparr>"
    using node_allocSegments_rc [OF assms(1,3) a small, of w] nn by auto
  then have h: "node_handle V cfg (DPIAllocSegmentsRequest req) s w =
      Inr (DPIAllocSegmentsResponse \<lparr>asr_offset = ?off, asr_return = 0\<rparr>, s', w')" for V :: "'a verbs" and cfg :: rdma_config
    by (simp add: node_handle_def)
  have blk: "ring_block req ?off = rm_region r" using B(1) by (simp add: ring_block_def rm_region_def)
  from node_ring_bytes [OF assms h] obtain lo where
    lo: "lo + ring_front req = ?off" "mem_inv m'" "used_bytes m' = used_bytes m \<union> {lo..<lo + ring_bytes req}"
      "\<And>a. a \<notin> {lo..<lo + ring_bytes req} \<Longrightarrow> lmem w' (buffer_base m + a) = lmem w (buffer_base m + a)"
    by (auto simp: s')
  then have "lo = rm_offset r" by simp
  with lo blk B(1) have out: "used_bytes m' = used_bytes m \<union> ring_block req ?off"
    "\<And>a. a \<notin> ring_block req ?off \<Longrightarrow> lmem w' (buffer_base m + a) = lmem w (buffer_base m + a)"
    by (simp_all add: rm_region_def)
  note F = node_ring_fresh [OF assms h]
  have made: "ring_made req (buffer_base m) (lmem w') ?off" using F(2,3) by (simp add: ring_made_def)
  have "m_memSize m' = m_memSize m" "buffer_base m' = buffer_base m" "m' = snd (internalAlloc (ring_bytes req) m)"
    using internalAlloc_memSize [of "ring_bytes req" m] internalAlloc_res [of "ring_bytes req" m] a
    by (simp_all add: buffer_base_def)
  moreover have "ring_block req ?off \<inter> used_bytes m = {}" using B(2) used_free_bytes [OF assms(2)] blk by auto
  moreover have "ring_block req ?off \<subseteq> {..<m_memSize m}" using B(1,5) by (auto simp: blk rm_region_def)
  ultimately show ?thesis using granted [OF run, of m'] s' lo(2) out made by simp
qed

text \<open>
  A region that is large enough for what is asked for and \<open>b\<close> bytes more still has \<open>b\<close> bytes afterwards.
\<close>

definition has_room :: "nat \<Rightarrow> rdma_manager \<Rightarrow> bool" where
  "has_room b m \<longleftrightarrow> (\<exists>x \<in> set (m_rdmaMem m). b \<le> rm_size x)"

lemma internalAlloc_room:
  assumes "has_room (n + b) m" "0 < b"
  shows "has_room b (snd (internalAlloc n m))"
proof (cases rule: internalAlloc_cases [of n m])
  case fail
  then show ?thesis using assms by (force simp: has_room_def)
next
  case (ok xs x ys)
  obtain z where z: "z \<in> set (xs @ x # ys)" "n + b \<le> rm_size z" using assms(1) ok(1) by (auto simp: has_room_def)
  show ?thesis
  proof (cases "z = x")
    case True
    then have "front_rest n x \<noteq> [] \<and> (\<forall>y \<in> set (front_rest n x). b \<le> rm_size y)"
      using z(2) assms(2) by (auto simp: front_rest_def)
    then show ?thesis using ok(4) by (cases "front_rest n x") (auto simp: has_room_def)
  next
    case False
    with z have "z \<in> set (xs @ front_rest n x @ ys)" "b \<le> rm_size z" by auto
    then show ?thesis unfolding ok(4) has_room_def snd_conv by (intro bexI [of _ z]) simp_all
  qed
qed

definition blocks_apart :: "AllocSegmentsRequest \<Rightarrow> nat list \<Rightarrow> bool" where
  "blocks_apart req offs \<longleftrightarrow> sorted_wrt (\<lambda>a b. ring_block req a \<inter> ring_block req b = {}) offs"

definition blocks :: "AllocSegmentsRequest \<Rightarrow> nat list \<Rightarrow> nat set" where
  "blocks req offs = (\<Union>off \<in> set offs. ring_block req off)"

text \<open>
  Several requests: the rings that were granted lie in the buffer, apart from each other and from what was
  used; if all were granted they are fresh and nothing else of the buffer has changed, and all are granted when
  there is room for them in one region.
\<close>

lemma node_rings_outcome:
  assumes "srv_manager s = ManagerRC m" "mem_inv m" "ring_request_ok req"
    and "node_rings req n (s, w) = (ok, offs, s', w')"
  shows "\<exists>m'. srv_manager s' = ManagerRC m' \<and> mem_inv m' \<and> buffer_base m' = buffer_base m \<and>
    m_memSize m' = m_memSize m \<and> used_bytes m' = used_bytes m \<union> blocks req offs \<and> blocks_apart req offs \<and>
    blocks req offs \<inter> used_bytes m = {} \<and> blocks req offs \<subseteq> {..<m_memSize m} \<and> length offs \<le> n \<and>
    (ok \<longleftrightarrow> length offs = n) \<and>
    (ok \<longrightarrow> (\<forall>off \<in> set offs. ring_made req (buffer_base m) (lmem w') off) \<and>
       (\<forall>a. a \<notin> blocks req offs \<longrightarrow> lmem w' (buffer_base m + a) = lmem w (buffer_base m + a))) \<and>
    (\<not> ok \<longrightarrow> ring_fresh (lmem w') (buffer_base m) (ring_front req) (asq_segments_count req) (asq_segments_size req)) \<and>
    (n = 0 \<or> has_room (n * ring_bytes req) m \<longrightarrow> ok)"
  using assms(1,2,4)
proof (induction n arbitrary: s m w offs ok)
  case 0
  then show ?case by (auto simp: blocks_def blocks_apart_def)
next
  case (Suc n)
  show ?case
    using Suc.prems(1,2) assms(3)
  proof (cases rule: node_allocSegments_outcome [where w = w])
    case (refused w1)
    have "rm_size x < Suc n * ring_bytes req" if "x \<in> set (m_rdmaMem m)" for x
      using refused(1) that by (auto simp: trans_less_add1)
    then have "\<not> has_room (Suc n * ring_bytes req) m" by (force simp: has_room_def simp del: mult_Suc)
    then show ?thesis
      using Suc.prems refused by (auto simp: blocks_def blocks_apart_def simp del: mult_Suc)
  next
    case (granted off s1 w1 m1)
    obtain offs1 where o: "node_rings req n (s1, w1) = (ok, offs1, s', w')" "offs = off # offs1"
      using Suc.prems(3) granted(1) by (auto split: prod.splits)
    from Suc.IH [OF granted(2,3) o(1)] obtain m' where m': "srv_manager s' = ManagerRC m'" "mem_inv m'"
      "buffer_base m' = buffer_base m1" "m_memSize m' = m_memSize m1" "used_bytes m' = used_bytes m1 \<union> blocks req offs1"
      "blocks_apart req offs1" "blocks req offs1 \<inter> used_bytes m1 = {}" "blocks req offs1 \<subseteq> {..<m_memSize m1}"
      "length offs1 \<le> n" "ok \<longleftrightarrow> length offs1 = n"
      "ok \<longrightarrow> (\<forall>off \<in> set offs1. ring_made req (buffer_base m1) (lmem w') off) \<and>
         (\<forall>a. a \<notin> blocks req offs1 \<longrightarrow> lmem w' (buffer_base m1 + a) = lmem w1 (buffer_base m1 + a))"
      "\<not> ok \<longrightarrow> ring_fresh (lmem w') (buffer_base m1) (ring_front req) (asq_segments_count req) (asq_segments_size req)"
      "n = 0 \<or> has_room (n * ring_bytes req) m1 \<longrightarrow> ok"
      by blast
    have blks: "blocks req offs = ring_block req off \<union> blocks req offs1" by (simp add: o(2) blocks_def)
    have apart: "ring_block req off \<inter> blocks req offs1 = {}" using m'(7) granted(7) by auto
    have first: "ring_made req (buffer_base m) (lmem w') off" if ok
    proof (rule ring_made_cong [OF granted(9) assms(3)])
      fix a assume "a \<in> ring_block req off"
      then have "a \<notin> blocks req offs1" using apart by auto
      then show "lmem w' (buffer_base m + a) = lmem w1 (buffer_base m + a)" using m'(11) that granted(4) by simp
    qed
    have room: "ok" if "has_room (Suc n * ring_bytes req) m"
    proof (cases "n = 0")
      case True
      then show ?thesis using m'(13) by simp
    next
      case False
      then have "0 < n * ring_bytes req" using ring_request_pos [OF assms(3)] by simp
      from internalAlloc_room [OF _ this] that have "has_room (n * ring_bytes req) m1"
        by (simp add: granted(11))
      then show ?thesis using m'(13) by simp
    qed
    have "blocks_apart req offs"
      using m'(6) apart by (auto simp: o(2) blocks_apart_def blocks_def)
    moreover have "blocks req offs \<inter> used_bytes m = {}" using granted(6,7) m'(7) by (auto simp: blks)
    moreover have "used_bytes m' = used_bytes m \<union> blocks req offs" using m'(5) granted(7) by (auto simp: blks)
    moreover have "lmem w' (buffer_base m + a) = lmem w (buffer_base m + a)" if ok "a \<notin> blocks req offs" for a
      using m'(11) that granted(10) [of a] granted(4) by (simp add: blks)
    moreover have "blocks req offs \<subseteq> {..<m_memSize m}" using m'(8) granted(5,8) by (simp add: blks)
    moreover have "length offs \<le> Suc n" "ok \<longleftrightarrow> length offs = Suc n" using m'(9,10) by (simp_all add: o(2))
    moreover have "\<forall>o1 \<in> set offs. ring_made req (buffer_base m) (lmem w') o1" if ok
      using first m'(11) that granted(4) by (simp add: o(2))
    ultimately show ?thesis
      using m'(1-4,12) granted(4,5) room by (intro exI [of _ m']) (simp del: mult_Suc)
  qed
qed

section \<open>The registry's requests to a node\<close>

text \<open>The request the registry sends for a ring of a buffer.\<close>

definition ring_request :: "BufferHandle \<Rightarrow> AllocSegmentsRequest" where
  "ring_request bh =
     \<lparr>asq_name = bh_name bh, asq_segments_count = u32 (bh_segmentsPerWriter bh),
      asq_segments_size = add64 (bh_segmentSizes bh) 24, asq_buffer_type = buffertype_code (bh_buffertype bh)\<rparr>"

definition reaches :: "dpi_config \<Rightarrow> nat \<Rightarrow> nat \<Rightarrow> rdma_client \<Rightarrow> bool" where
  "reaches cfg node_id h c \<longleftrightarrow> node_id \<le> length (cfg_DPI_NODES cfg) \<and>
     (\<exists>connection. getIPFromNodeId cfg node_id = Inr connection \<and> client_talks c connection h)"

definition with_rings :: "BufferHandle \<Rightarrow> nat list \<Rightarrow> BufferHandle" where
  "with_rings bh offs =
     bh\<lparr>bh_entrySegments := bh_entrySegments bh @ map (\<lambda>off. \<lparr>seg_offset = off, seg_size = bh_segmentSizes bh\<rparr>) offs\<rparr>"

lemma with_rings_simps [simp]:
  "with_rings bh [] = bh" "bh_name (with_rings bh offs) = bh_name bh" "bh_node_id (with_rings bh offs) = bh_node_id bh"
  "with_rings (with_rings bh offs) offs' = with_rings bh (offs @ offs')"
  "ring_request (with_rings bh offs) = ring_request bh"
  by (simp_all add: with_rings_def ring_request_def)

lemma node_allocSegments_responds:
  "\<exists>resp s'. node_allocSegments req s w = (DPIAllocSegmentsResponse resp, s')"
  by (simp add: node_allocSegments_def Let_def split: prod.split)

locale node_link = rpc_link N connected target "node_answer V ncfg" peer
  for N :: "('d, 'n) net_scheme"
    and connected :: "nat \<Rightarrow> 'd world \<Rightarrow> bool"
    and target :: "nat \<Rightarrow> nat"
    and V :: "('p, 'v) verbs_scheme"
    and ncfg :: "'c rdma_config_scheme"
    and peer :: "'d world \<Rightarrow> nat \<Rightarrow> rdma_server \<times> 'p world"
begin

lemma createRing_on_node:
  assumes "reaches cfg (bh_node_id bh) h (reg_client r)" "connected h w"
    "node_allocSegments (ring_request bh) (fst (peer w (target h))) (snd (peer w (target h))) = (DPIAllocSegmentsResponse resp, s)"
  shows "\<exists>r' w'. createRingOnBuffer N cfg bh r w =
      Inr (if asr_return resp = 0 then Some \<lparr>seg_offset = asr_offset resp, seg_size = bh_segmentSizes bh\<rparr> else None, r', w') \<and>
    reg_bufferHandles r' = reg_bufferHandles r \<and> reg_appendersJoined r' = reg_appendersJoined r \<and>
    reaches cfg (bh_node_id bh) h (reg_client r') \<and> peer w' = (peer w)(target h := s) \<and> lmem w' = lmem w \<and>
    (\<forall>k. connected k w' = connected k w)"
proof -
  from assms(1) obtain con where con: "bh_node_id bh \<le> length (cfg_DPI_NODES cfg)"
    "getIPFromNodeId cfg (bh_node_id bh) = Inr con" "client_talks (reg_client r) con h"
    by (auto simp: reaches_def)
  have "node_answer V ncfg (createDPIAllocSegmentsRequest (bh_name bh) (bh_segmentsPerWriter bh)
      (add64 (bh_segmentSizes bh) 24) (bh_buffertype bh)) (peer w (target h)) = Inr (DPIAllocSegmentsResponse resp, s)"
    using assms(3) by (simp add: node_answer_def node_handle_def createDPIAllocSegmentsRequest_def ring_request_def)
  from remoteAllocSegments_answered [OF con(3) assms(2) this, of cfg 0] con show ?thesis
    by (auto simp: createRingOnBuffer_def reaches_def)
qed

lemma create_rings_on_node:
  assumes "reg_bufferHandles r name = Some bh" "reaches cfg (bh_node_id bh) h (reg_client r)" "connected h w"
    "node_rings (ring_request bh) n (peer w (target h)) = (ok, offs, sw)"
  shows "\<exists>r' w'. create_rings N cfg name n r w = Inr (ok, r', w') \<and>
    reg_bufferHandles r' = (reg_bufferHandles r)(name \<mapsto> with_rings bh offs) \<and>
    reg_appendersJoined r' = reg_appendersJoined r \<and> reaches cfg (bh_node_id bh) h (reg_client r') \<and>
    peer w' = (peer w)(target h := sw) \<and> lmem w' = lmem w \<and> (\<forall>k. connected k w' = connected k w)"
  using assms
proof (induction n arbitrary: r bh w offs ok)
  case 0
  then show ?case by (auto simp: fun_upd_idem)
next
  case (Suc n)
  obtain resp sw1 where a: "node_allocSegments (ring_request bh) (fst (peer w (target h))) (snd (peer w (target h))) = (DPIAllocSegmentsResponse resp, sw1)"
    using node_allocSegments_responds by blast
  from createRing_on_node [OF Suc.prems(2,3) a] obtain r1 w1 where c:
    "createRingOnBuffer N cfg bh r w =
      Inr (if asr_return resp = 0 then Some \<lparr>seg_offset = asr_offset resp, seg_size = bh_segmentSizes bh\<rparr> else None, r1, w1)"
    "reg_bufferHandles r1 = reg_bufferHandles r" "reg_appendersJoined r1 = reg_appendersJoined r"
    "reaches cfg (bh_node_id bh) h (reg_client r1)" "peer w1 = (peer w)(target h := sw1)" "lmem w1 = lmem w"
    "\<forall>k. connected k w1 = connected k w"
    by blast
  show ?case
  proof (cases "asr_return resp = 0")
    case False
    then show ?thesis using Suc.prems c a by (auto simp: retrieveBuffer_def fun_upd_idem)
  next
    case True
    obtain offs1 where o: "node_rings (ring_request bh) n sw1 = (ok, offs1, sw)" "offs = asr_offset resp # offs1"
      using Suc.prems(4) a True by (auto split: prod.splits)
    let ?bh = "with_rings bh [asr_offset resp]"
    let ?r = "push_segment name \<lparr>seg_offset = asr_offset resp, seg_size = bh_segmentSizes bh\<rparr> r1"
    have r: "reg_bufferHandles ?r = (reg_bufferHandles r)(name \<mapsto> ?bh)" "reg_client ?r = reg_client r1"
      "reg_appendersJoined ?r = reg_appendersJoined r"
      using c(2,3) Suc.prems(1) by (simp_all add: push_segment_def with_rings_def)
    obtain r' w' where "create_rings N cfg name n ?r w1 = Inr (ok, r', w') \<and>
        reg_bufferHandles r' = (reg_bufferHandles ?r)(name \<mapsto> with_rings ?bh offs1) \<and>
        reg_appendersJoined r' = reg_appendersJoined ?r \<and> reaches cfg (bh_node_id ?bh) h (reg_client r') \<and>
        peer w' = (peer w1)(target h := sw) \<and> lmem w' = lmem w1 \<and> (\<forall>k. connected k w' = connected k w1)"
      using Suc.IH [of ?r ?bh w1 ok offs1] c o(1) r Suc.prems(3) by fastforce
    moreover have "create_rings N cfg name (Suc n) r w = create_rings N cfg name n ?r w1"
      using c(1) True Suc.prems(1) by (simp add: retrieveBuffer_def)
    ultimately show ?thesis using c o(2) r by (intro exI [of _ r'] exI [of _ w']) simp
  qed
qed

text \<open>A registration of a new name, as the answer and what it leaves in the registry and on the node.\<close>

lemma register_on_node:
  fixes req :: AppendBufferRequest
  defines "bh \<equiv> newBufferHandle (abq_name req) (abq_node_id req) (abq_segmentsPerWriter req) (abq_numberAppenders req)
      (abq_segmentSizes req) (buffertype_of (abq_buffertype req))"
  assumes "reg_bufferHandles r (abq_name req) = None" "abq_register req"
    "reaches cfg (abq_node_id req) h (reg_client r)" "connected h w"
    "node_rings (ring_request bh) (abq_numberAppenders req) (peer w (target h)) = (ok, offs, sw)"
  shows "\<exists>r' w'. registry_handle N cfg (DPIAppendBufferRequest req) r w =
      Inr (DPIAppendBufferResponse (if ok then 0 else 503), r', w') \<and>
    reg_bufferHandles r' = (reg_bufferHandles r)(abq_name req \<mapsto> with_rings bh offs) \<and>
    reg_appendersJoined r' = (reg_appendersJoined r)(abq_name req \<mapsto> 0) \<and>
    reaches cfg (abq_node_id req) h (reg_client r') \<and>
    peer w' = (peer w)(target h := sw) \<and> lmem w' = lmem w \<and> (\<forall>k. connected k w' = connected k w)"
proof -
  let ?r = "r\<lparr>reg_bufferHandles := (reg_bufferHandles r)(abq_name req \<mapsto> bh)\<rparr>"
  have b: "bh_name bh = abq_name req" "bh_node_id bh = abq_node_id req" by (simp_all add: bh_def newBufferHandle_def)
  have reg: "registerBuffer bh r = (True, ?r)"
    using assms(2) by (simp add: registerBuffer_def b(1))
  have h: "reg_bufferHandles ?r (abq_name req) = Some bh" "reaches cfg (bh_node_id bh) h (reg_client ?r)"
    using assms(4) by (simp_all add: b(2))
  from create_rings_on_node [OF h assms(5,6)] obtain r1 w1 where c:
    "create_rings N cfg (abq_name req) (abq_numberAppenders req) ?r w = Inr (ok, r1, w1)"
    "reg_bufferHandles r1 = (reg_bufferHandles ?r)(abq_name req \<mapsto> with_rings bh offs)"
    "reg_appendersJoined r1 = reg_appendersJoined r" "reaches cfg (abq_node_id req) h (reg_client r1)"
    "peer w1 = (peer w)(target h := sw)" "lmem w1 = lmem w" "\<forall>k. connected k w1 = connected k w"
    by (auto simp: b(2))
  then show ?thesis
    using assms(3) reg
    by (simp add: registry_handle_def handle_register_def bh_def [symmetric] error_code_def Let_def)
qed

end

section \<open>Clients of the registry\<close>

text \<open>Appenders that join a buffer one after the other, each with its own connection to the registry.\<close>

fun join_each ::
  "('d, 'n) net_scheme \<Rightarrow> string \<Rightarrow> proto_client list \<Rightarrow> 'd world \<Rightarrow> (BufferHandle option list \<times> 'd world) result" where
  "join_each N name [] w = Inr ([], w)"
| "join_each N name (rcl # rcls) w =
     bindR (joinBuffer N name rcl w) (\<lambda>(handle, _, w).
     bindR (join_each N name rcls w) (\<lambda>(handles, w). Inr (handle # handles, w)))"

text \<open>What the appender that is the \<open>i\<close>-th to join gets: a handle with the \<open>i\<close>-th ring, or nothing.\<close>

definition ring_handle :: "BufferHandle \<Rightarrow> nat \<Rightarrow> BufferHandle option" where
  "ring_handle bh i =
     (if i < length (bh_entrySegments bh)
      then Some (bh\<lparr>bh_numberOfWriters := 1, bh_entrySegments := [bh_entrySegments bh ! i]\<rparr>) else None)"

definition clients_of :: "(nat \<Rightarrow> 'd world \<Rightarrow> bool) \<Rightarrow> (nat \<Rightarrow> nat) \<Rightarrow> nat \<Rightarrow> 'd world \<Rightarrow> proto_client list \<Rightarrow> bool" where
  "clients_of connected target g w rcls \<longleftrightarrow> (\<forall>rcl \<in> set rcls. \<exists>h. talks rcl h \<and> connected h w \<and> target h = g)"

locale registry_link = rpc_link N connected target "registry_answer NR cfg" peer
  for N :: "('d, 'n) net_scheme"
    and connected :: "nat \<Rightarrow> 'd world \<Rightarrow> bool"
    and target :: "nat \<Rightarrow> nat"
    and NR :: "('r, 'm) net_scheme"
    and cfg :: dpi_config
    and peer :: "'d world \<Rightarrow> nat \<Rightarrow> registry \<times> 'r world"
begin

lemma register_answered:
  assumes "talks rcl h" "connected h w"
    "registry_handle NR cfg (createDPIRegisterBufferRequest bh) (fst (peer w (target h))) (snd (peer w (target h))) =
       Inr (DPIAppendBufferResponse ret, rw)"
  shows "\<exists>w'. client_registerBuffer N bh rcl w = Inr (ret = 0, rcl, w') \<and> peer w' = (peer w)(target h := rw) \<and>
    (\<forall>k. connected k w' = connected k w)"
proof -
  have "registry_answer NR cfg (createDPIRegisterBufferRequest bh) (peer w (target h)) = Inr (DPIAppendBufferResponse ret, rw)"
    using assms(3) by (simp add: registry_answer_def)
  from send_answered [OF assms(1,2) this] show ?thesis
    by (auto simp: client_registerBuffer_def appendOrRetrieveSegment_def no_error_def)
qed

lemma join_answered:
  assumes "talks rcl h" "connected h w" "peer w (target h) = (r, wr)"
    "reg_bufferHandles r (bh_name bh) = Some bh" "joined (bh_name bh) r \<le> length (bh_entrySegments bh)"
    "length (bh_entrySegments bh) < 2 ^ 64"
  shows "\<exists>r' w'. joinBuffer N (bh_name bh) rcl w = Inr (ring_handle bh (joined (bh_name bh) r), rcl, w') \<and>
    peer w' = (peer w)(target h := (r', wr)) \<and> (\<forall>k. connected k w' = connected k w) \<and>
    reg_bufferHandles r' = reg_bufferHandles r \<and>
    joined (bh_name bh) r' = min (Suc (joined (bh_name bh) r)) (length (bh_entrySegments bh)) \<and> lmem w' = lmem w"
proof -
  obtain r' where r': "registry_handle NR cfg (DPIRetrieveBufferRequest (bh_name bh) True) r wr =
      Inr (join_answer (bh_name bh) bh (joined (bh_name bh) r), r', wr)"
    "reg_bufferHandles r' = reg_bufferHandles r"
    "joined (bh_name bh) r' = min (Suc (joined (bh_name bh) r)) (length (bh_entrySegments bh))"
    using join_step [OF assms(4-6)] by blast
  have "registry_answer NR cfg (createDPIRetrieveBufferRequest (bh_name bh) True) (peer w (target h)) =
      Inr (join_answer (bh_name bh) bh (joined (bh_name bh) r), r', wr)"
    using r'(1) by (simp add: registry_answer_def createDPIRetrieveBufferRequest_def assms(3))
  from send_answered [OF assms(1,2) this] r'(2,3) show ?thesis
    by (auto simp: joinBuffer_def retrieveOrJoinBuffer_def no_error_def join_answer_def ring_handle_def
        br_failed_def handle_of_response_def buffer_response_def newBufferHandle_def)
qed

lemma retrieve_answered:
  assumes "talks rcl h" "connected h w" "peer w (target h) = (r, wr)" "reg_bufferHandles r (bh_name bh) = Some bh"
  shows "\<exists>w'. client_retrieveBuffer N (bh_name bh) rcl w =
      Inr (Some (bh\<lparr>bh_numberOfWriters := length (bh_entrySegments bh)\<rparr>), rcl, w') \<and>
    peer w' = peer w \<and> (\<forall>k. connected k w' = connected k w)"
proof -
  let ?rep = "DPIRetrieveBufferResponse
      ((buffer_response bh (bh_entrySegments bh) (buffertype_code (bh_buffertype bh)))\<lparr>br_name := bh_name bh\<rparr>)"
  have "registry_answer NR cfg (createDPIRetrieveBufferRequest (bh_name bh) False) (peer w (target h)) = Inr (?rep, r, wr)"
    using assms(3,4)
    by (simp add: registry_answer_def registry_handle_def createDPIRetrieveBufferRequest_def handle_retrieve_def
        retrieveBuffer_def)
  from send_answered [OF assms(1,2) this] show ?thesis
    using assms(3)
    by (auto simp: client_retrieveBuffer_def retrieveOrJoinBuffer_def no_error_def handle_of_response_def
        buffer_response_def newBufferHandle_def fun_upd_idem)
qed

lemma joins_answered:
  assumes "clients_of connected target g w rcls" "peer w g = (r, wr)" "reg_bufferHandles r (bh_name bh) = Some bh"
    "joined (bh_name bh) r \<le> length (bh_entrySegments bh)" "length (bh_entrySegments bh) < 2 ^ 64"
  shows "\<exists>r' w'. join_each N (bh_name bh) rcls w =
      Inr (map (\<lambda>i. ring_handle bh (joined (bh_name bh) r + i)) [0..<length rcls], w') \<and>
    peer w' = (peer w)(g := (r', wr)) \<and> reg_bufferHandles r' = reg_bufferHandles r \<and>
    (\<forall>k. connected k w' = connected k w)"
  using assms(1-4)
proof (induction rcls arbitrary: w r)
  case Nil
  then show ?case by (intro exI [of _ r] exI [of _ w]) (simp add: fun_upd_idem)
next
  case (Cons rcl rcls)
  let ?n = "length (bh_entrySegments bh)"
  obtain h where h: "talks rcl h" "connected h w" "target h = g" using Cons.prems(1) by (auto simp: clients_of_def)
  obtain r1 w1 where j: "joinBuffer N (bh_name bh) rcl w = Inr (ring_handle bh (joined (bh_name bh) r), rcl, w1)"
    "peer w1 = (peer w)(g := (r1, wr))" "\<forall>k. connected k w1 = connected k w"
    "reg_bufferHandles r1 = reg_bufferHandles r" "joined (bh_name bh) r1 = min (Suc (joined (bh_name bh) r)) ?n"
    using join_answered [OF h(1,2) _ Cons.prems(3,4) assms(5)] h(3) Cons.prems(2) by fastforce
  have "\<exists>r' w'. join_each N (bh_name bh) rcls w1 =
      Inr (map (\<lambda>i. ring_handle bh (joined (bh_name bh) r1 + i)) [0..<length rcls], w') \<and>
    peer w' = (peer w1)(g := (r', wr)) \<and> reg_bufferHandles r' = reg_bufferHandles r1 \<and>
    (\<forall>k. connected k w' = connected k w1)"
    using Cons.prems j by (intro Cons.IH) (auto simp: clients_of_def)
  then obtain r' w' where rest: "join_each N (bh_name bh) rcls w1 =
      Inr (map (\<lambda>i. ring_handle bh (joined (bh_name bh) r1 + i)) [0..<length rcls], w')"
    "peer w' = (peer w1)(g := (r', wr))" "reg_bufferHandles r' = reg_bufferHandles r1"
    "\<forall>k. connected k w' = connected k w1"
    by blast
  have shift: "ring_handle bh (joined (bh_name bh) r1 + i) = ring_handle bh (joined (bh_name bh) r + Suc i)" for i
    using Cons.prems(4) by (auto simp: ring_handle_def j(5) min_def)
  have "map (\<lambda>i. ring_handle bh (joined (bh_name bh) r + i)) [0..<length (rcl # rcls)] =
      ring_handle bh (joined (bh_name bh) r) # map (\<lambda>i. ring_handle bh (joined (bh_name bh) r1 + i)) [0..<length rcls]"
    by (simp add: upt_conv_Cons map_Suc_upt [symmetric] shift del: upt_Suc)
  then show ?case using j rest by (intro exI [of _ r'] exI [of _ w']) (simp del: upt_Suc)
qed

end

section \<open>A network in one process\<close>

text \<open>
  A network whose servers are part of its own state: a message is encoded as a list of zeros, as many as its number in an
  enumeration of all messages; what is sent is answered at once, and the answer is kept until it is received.
\<close>

instance BufferSegment_ext :: (countable) countable
  by (rule countable_classI [of "\<lambda>x. to_nat (seg_offset x, seg_size x, BufferSegment.more x)"]) auto

instance AllocSegmentsRequest_ext :: (countable) countable
  by (rule countable_classI [of "\<lambda>x. to_nat (asq_name x, asq_segments_count x, asq_segments_size x, asq_buffer_type x,
      AllocSegmentsRequest.more x)"]) auto

instance AllocSegmentsResponse_ext :: (countable) countable
  by (rule countable_classI [of "\<lambda>x. to_nat (asr_offset x, asr_return x, AllocSegmentsResponse.more x)"]) auto

instance AppendBufferRequest_ext :: (countable) countable
  by (rule countable_classI [of "\<lambda>x. to_nat (abq_name x, abq_node_id x, abq_segment x, abq_segmentsPerWriter x,
      abq_numberAppenders x, abq_segmentSizes x, abq_register x, abq_buffertype x, AppendBufferRequest.more x)"]) auto

instance BufferResponse_ext :: (countable) countable
  by (rule countable_classI [of "\<lambda>x. to_nat (br_name x, br_node_id x, br_segment x, br_segmentsPerWriter x,
      br_segmentSizes x, br_buffertype x, br_return x, BufferResponse.more x)"]) auto

instance ConnMessage_ext :: (countable) countable
  by (rule countable_classI [of "\<lambda>x. to_nat (cm_buffer x, cm_rkey x, cm_qp_num x, cm_lid x, cm_gid x, cm_psn x,
      cm_server_connkey x, ConnMessage.more x)"]) auto

instance MemoryRequest_ext :: (countable) countable
  by (rule countable_classI [of "\<lambda>x. to_nat (mq_size x, mq_offset x, mq_type x, mq_name x, mq_persistent x,
      MemoryRequest.more x)"]) auto

instance any_msg :: countable
  by countable_datatype

definition encode_msg :: "any_msg \<Rightarrow> byte list" where
  "encode_msg msg = replicate (to_nat msg) 0"

definition decode_msg :: "byte list \<Rightarrow> any_msg" where
  "decode_msg bs = from_nat (length bs)"

lemma decode_encode [simp]: "decode_msg (encode_msg msg) = msg"
  by (simp add: decode_msg_def encode_msg_def)

record 's local_net =
  ln_servers :: "nat \<Rightarrow> 's"
  ln_reply :: "byte list option"

definition local_peer :: "'s local_net world \<Rightarrow> nat \<Rightarrow> 's" where
  "local_peer w = ln_servers (dev w)"

definition local_send ::
  "(any_msg \<Rightarrow> 's \<Rightarrow> (any_msg \<times> 's) result) \<Rightarrow> nat \<Rightarrow> byte list \<Rightarrow> 's local_net world \<Rightarrow> 's local_net world" where
  "local_send answer g data w =
     (case answer (decode_msg data) (local_peer w g) of
        Inl _ \<Rightarrow> w\<lparr>dev := (dev w)\<lparr>ln_reply := None\<rparr>\<rparr>
      | Inr (rep, s) \<Rightarrow> w\<lparr>dev := \<lparr>ln_servers = (local_peer w)(g := s), ln_reply = Some (encode_msg rep)\<rparr>\<rparr>)"

definition idle_verbs :: "'d verbs" where
  "idle_verbs =
     \<lparr>ibv_post_send = (\<lambda>_ _ w. (0, w)), ibv_post_recv = (\<lambda>_ _ w. (0, w)), ibv_poll_cq = (\<lambda>_ w. ((1, 0), w)),
      ibv_create_cq = (\<lambda>_ _ w. (Some 3, w)), ibv_destroy_cq = (\<lambda>_ w. (0, w)),
      ibv_create_qp = (\<lambda>_ _ w. (Some \<lparr>qp_handle = 1, qp_qp_num = 17, qp_send_cq = 3\<rparr>, w)),
      ibv_destroy_qp = (\<lambda>_ w. (0, w)), ibv_modify_qp = (\<lambda>_ _ _ w. (0, w)), ibv_exp_query_device = (\<lambda>_ w. (0, w)),
      ibv_create_ah = (\<lambda>_ _ w. (Some 1, w)), ibv_get_device_list = (\<lambda>w. (None, w)),
      ibv_open_device = (\<lambda>_ w. (Some 1, w)), ibv_query_port = (\<lambda>_ _ w. ((0, 7), w)),
      numa_alloc_onnode = (\<lambda>_ _ w. (Some 4096, w)), numa_free = (\<lambda>_ _ w. w), ibv_alloc_pd = (\<lambda>_ w. (Some 1, w)),
      ibv_dealloc_pd = (\<lambda>_ w. w), ibv_reg_mr = (\<lambda>_ _ _ w. (Some \<lparr>mr_lkey = 1, mr_rkey = 2\<rparr>, w)), ibv_dereg_mr = (\<lambda>_ w. w),
      ibv_close_device = (\<lambda>_ w. w), lrand48 = (\<lambda>w. (0, w)), uninit_conn = ib_conn_zero\<rparr>"

definition idle_cm :: "'d verbs \<Rightarrow> 'd verbs_cm" where
  "idle_cm V = verbs.extend V
     (verbs_cm.fields (\<lambda>w. (None, w)) (\<lambda>_ w. ((1, 0), w)) (\<lambda>_ w. ((1, 0), w)) (\<lambda>_ _ w. (1, w))
       (\<lambda>_ w. ((1, \<lparr>ev_event = RDMA_CM_EVENT_OTHER, ev_qp_num = 0, ev_qkey = 0, ev_ah_attr = ah_zero\<rparr>), w)) (\<lambda>_ w. w)
       (\<lambda>_. None) (\<lambda>_ _ _ w. ((1, \<lparr>qp_handle = 0, qp_qp_num = 0, qp_send_cq = 0\<rparr>), w)) (\<lambda>_ _ w. (1, w)) (\<lambda>_ _ w. (1, w))
       (\<lambda>_ w. w) (\<lambda>_ w. w) (\<lambda>_ w. w) (\<lambda>_ _ _ _ w. (1, w)) mcast_conn_zero)"

definition local_net ::
  "(nat \<Rightarrow> nat) \<Rightarrow> (any_msg \<Rightarrow> 's \<Rightarrow> (any_msg \<times> 's) result) \<Rightarrow> 's local_net net" where
  "local_net target answer = verbs_cm.extend (idle_cm idle_verbs)
     (net.fields (\<lambda>_ w. (ZmqOk 1, w)) (\<lambda>_ _ w. (ZmqOk (), w)) (\<lambda>_ _ w. (ZmqOk True, w))
       (\<lambda>h data _ w. (ZmqOk True, local_send answer (target h) data w))
       (\<lambda>_ w. (ZmqOk (ln_reply (dev w)), w\<lparr>dev := (dev w)\<lparr>ln_reply := None\<rparr>\<rparr>)) (\<lambda>_ _. replicate 64 0)
       (\<lambda>msg. Some (encode_msg msg)) (\<lambda>bs. Some (decode_msg bs)))"

lemma local_net_sel [simp]:
  "pb_serialize (local_net target answer) msg = Some (encode_msg msg)"
  "pb_parse (local_net target answer) bs = Some (decode_msg bs)"
  "zmq_send (local_net target answer) h data mor w = (ZmqOk True, local_send answer (target h) data w)"
  "zmq_recv (local_net target answer) h w = (ZmqOk (ln_reply (dev w)), w\<lparr>dev := (dev w)\<lparr>ln_reply := None\<rparr>\<rparr>)"
  by (simp_all add: local_net_def net.defs verbs_cm.defs)

interpretation local_node: node_link "local_net target (node_answer V ncfg)" "\<lambda>_ _. True" target V ncfg local_peer
  for target V ncfg
  by unfold_locales (auto simp: local_send_def local_peer_def)

interpretation local_registry: registry_link "local_net target (registry_answer NR cfg)" "\<lambda>_ _. True" target NR cfg local_peer
  for target NR cfg
  by unfold_locales (auto simp: local_send_def local_peer_def)

section \<open>Registration over both links\<close>

lemma blocks_card:
  assumes "blocks_apart req offs"
  shows "finite (blocks req offs) \<and> card (blocks req offs) = length offs * ring_bytes req"
  using assms
proof (induction offs)
  case Nil
  then show ?case by (simp add: blocks_def)
next
  case (Cons off offs)
  have "blocks req (off # offs) = ring_block req off \<union> blocks req offs" by (simp add: blocks_def)
  moreover have "ring_block req off \<inter> blocks req offs = {}"
    using Cons.prems by (auto simp: blocks_apart_def blocks_def)
  moreover have "card (ring_block req off) = ring_bytes req" "finite (ring_block req off)"
    by (simp_all add: ring_block_def)
  ultimately show ?case using Cons by (simp add: card_Un_disjoint blocks_apart_def)
qed

lemma used_bytes_inside: "mem_inv m \<Longrightarrow> used_bytes m \<subseteq> {..<m_memSize m}"
  using mem_inv_usedD(2) by (fastforce simp: used_bytes_def ran_def rm_region_def region_ok_def)

lemma node_rings_too_many:
  assumes "srv_manager s = ManagerRC m" "mem_inv m" "ring_request_ok req"
    and "node_rings req n (s, w) = (ok, offs, s', w')" and "m_memSize m < card (used_bytes m) + n * ring_bytes req"
  shows "\<not> ok"
proof
  assume ok
  from node_rings_outcome [OF assms(1-4)] obtain m' where
    "blocks_apart req offs" "blocks req offs \<inter> used_bytes m = {}" "blocks req offs \<subseteq> {..<m_memSize m}"
    "length offs = n"
    using \<open>ok\<close> by blast
  moreover have "finite (used_bytes m)" using used_bytes_inside [OF assms(2)] by (rule finite_subset) simp
  moreover have "card (used_bytes m \<union> blocks req offs) \<le> card {..<m_memSize m}"
    using used_bytes_inside [OF assms(2)] calculation(3) by (intro card_mono) auto
  ultimately show False using assms(5) blocks_card [of req offs] by (simp add: card_Un_disjoint Int_commute)
qed

lemma register_over_links:
  assumes "registry_link N connected target NR cfg peer" "node_link NR connectedR targetR V ncfg peerR"
    "talks rcl g" "connected g w" "peer w (target g) = (r, wr)"
    "reg_bufferHandles r (bh_name bh) = None" "bh_entrySegments bh = []"
    "reaches cfg (bh_node_id bh) h (reg_client r)" "connectedR h wr"
    "node_rings (ring_request bh) (bh_numberOfWriters bh) (peerR wr (targetR h)) = (ok, offs, sw)"
  shows "\<exists>w' r' wr'. client_registerBuffer N bh rcl w = Inr (ok, rcl, w') \<and>
    peer w' = (peer w)(target g := (r', wr')) \<and> (\<forall>k. connected k w' = connected k w) \<and>
    reg_bufferHandles r' = (reg_bufferHandles r)(bh_name bh \<mapsto> with_rings bh offs) \<and> joined (bh_name bh) r' = 0 \<and>
    peerR wr' = (peerR wr)(targetR h := sw)"
proof -
  let ?req = "\<lparr>abq_name = bh_name bh, abq_node_id = bh_node_id bh, abq_segment = [],
      abq_segmentsPerWriter = bh_segmentsPerWriter bh, abq_numberAppenders = bh_numberOfWriters bh,
      abq_segmentSizes = bh_segmentSizes bh, abq_register = True, abq_buffertype = buffertype_code (bh_buffertype bh)\<rparr>"
  have bh: "newBufferHandle (abq_name ?req) (abq_node_id ?req) (abq_segmentsPerWriter ?req) (abq_numberAppenders ?req)
      (abq_segmentSizes ?req) (buffertype_of (abq_buffertype ?req)) = bh"
    using assms(7) by (cases bh) (simp add: newBufferHandle_def)
  have n: "reg_bufferHandles r (abq_name ?req) = None" "abq_register ?req" "reaches cfg (abq_node_id ?req) h (reg_client r)"
    using assms(6,8) by simp_all
  have k: "node_rings (ring_request (newBufferHandle (abq_name ?req) (abq_node_id ?req) (abq_segmentsPerWriter ?req)
      (abq_numberAppenders ?req) (abq_segmentSizes ?req) (buffertype_of (abq_buffertype ?req))))
      (abq_numberAppenders ?req) (peerR wr (targetR h)) = (ok, offs, sw)"
    unfolding bh using assms(10) by simp
  from node_link.register_on_node [OF assms(2) n assms(9) k, unfolded bh] obtain r' wr' where
    reg: "registry_handle NR cfg (createDPIRegisterBufferRequest bh) r wr =
      Inr (DPIAppendBufferResponse (if ok then 0 else 503), r', wr')"
    and r': "reg_bufferHandles r' = (reg_bufferHandles r)(bh_name bh \<mapsto> with_rings bh offs)"
      "reg_appendersJoined r' = (reg_appendersJoined r)(bh_name bh \<mapsto> 0)" "peerR wr' = (peerR wr)(targetR h := sw)"
    by (auto simp: createDPIRegisterBufferRequest_def)
  have "registry_handle NR cfg (createDPIRegisterBufferRequest bh) (fst (peer w (target g))) (snd (peer w (target g))) =
      Inr (DPIAppendBufferResponse (if ok then 0 else 503), r', wr')"
    using reg assms(5) by simp
  from registry_link.register_answered [OF assms(1,3,4) this] obtain w' where
    "client_registerBuffer N bh rcl w = Inr (ok, rcl, w')" "peer w' = (peer w)(target g := (r', wr'))"
    "\<forall>k. connected k w' = connected k w"
    by (cases ok) auto
  with r' show ?thesis by (intro exI [of _ w'] exI [of _ r'] exI [of _ wr']) (simp add: joined_def)
qed

section \<open>A small cluster\<close>

text \<open>
  One node with 100 bytes of registered memory, a registry that is connected to it, and clients of the registry, all on
  the local network.
\<close>

definition small_cfg :: dpi_config where
  "small_cfg = config_default\<lparr>cfg_DPI_NODES := [''n:1'']\<rparr>"

abbreviation small_node_net :: "(rdma_server \<times> unit world) local_net net" where
  "small_node_net \<equiv> local_net (\<lambda>_. 0) (node_answer (idle_verbs :: unit verbs) rc_config)"

abbreviation small_registry_net :: "(registry \<times> (rdma_server \<times> unit world) local_net world) local_net net" where
  "small_registry_net \<equiv> local_net (\<lambda>_. 0) (registry_answer small_node_net small_cfg)"

definition small_registry_world :: "(rdma_server \<times> unit world) local_net world" where
  "small_registry_world = \<lparr>lmem = (\<lambda>_. 0), dev = \<lparr>ln_servers = (\<lambda>_. (small_server, blank_world)), ln_reply = None\<rparr>\<rparr>"

definition small_client_world :: "(registry \<times> (rdma_server \<times> unit world) local_net world) local_net world" where
  "small_client_world =
     \<lparr>lmem = (\<lambda>_. 0), dev = \<lparr>ln_servers = (\<lambda>_. (wired_registry, small_registry_world)), ln_reply = None\<rparr>\<rparr>"

definition small_client :: proto_client where
  "small_client = (newProtoClient ''r'' 5300)\<lparr>pc_isConnected := True,
     pc_socket := Some \<lparr>ps_conn = ''tcp://r:5300'', ps_sockType = ZMQ_REQ, ps_isOpen = True, ps_sock = Some 1\<rparr>\<rparr>"

text \<open>A buffer of \<open>n\<close> rings, each of two segments for one byte of data.\<close>

definition small_buffer :: "nat \<Rightarrow> BufferHandle" where
  "small_buffer n = newBufferHandle ''b'' 1 2 n 1 BW"

lemma small_buffer_sel [simp]:
  "bh_name (small_buffer n) = ''b''" "bh_node_id (small_buffer n) = 1" "bh_entrySegments (small_buffer n) = []"
  "bh_numberOfWriters (small_buffer n) = n" "bh_segmentSizes (small_buffer n) = 1"
  by (simp_all add: small_buffer_def newBufferHandle_def)

lemma small_ring_request [simp]:
  "ring_request (small_buffer n) = \<lparr>asq_name = ''b'', asq_segments_count = 2, asq_segments_size = 25, asq_buffer_type = 0\<rparr>"
  by (simp add: small_buffer_def newBufferHandle_def ring_request_def u32_def add64_def buffertype_code_def)

lemma small_cluster:
  "talks small_client 1" "local_peer small_client_world 0 = (wired_registry, small_registry_world)"
  "reg_bufferHandles wired_registry x = None" "reaches small_cfg 1 1 (reg_client wired_registry)"
  "local_peer small_registry_world 0 = (small_server, blank_world)" "srv_manager small_server = ManagerRC small_manager"
  "ring_request_ok (ring_request (small_buffer n))" "ring_bytes (ring_request (small_buffer n)) = 50"
  "ring_front (ring_request (small_buffer n)) = 0"
  "has_room 100 small_manager" "m_memSize small_manager = 100" "used_bytes small_manager = {}"
  by (simp_all add: talks_def small_client_def local_peer_def small_client_world_def small_registry_world_def
      wired_registry_def demo_registry_def reaches_def small_cfg_def getIPFromNodeId_def index_at_def sub64_def client_talks_def
      small_server_def ring_request_ok_def ring_bytes_def ring_front_def buffertype_of_def has_room_def small_manager_def
      rdma_manager_init_def used_bytes_def)

text \<open>
  Writers and readers find each other: after a buffer was registered over the network, the appenders that
  join it, each over its own connection, are given its rings one by one and nobody a ring twice, every further appender
  gets nothing, and a reader that retrieves the buffer gets exactly the rings the appenders were given, which lie
  fresh and apart in the memory of the node.
\<close>

lemma registered_joined_retrieved:
  assumes "registry_link N connected target NR cfg peer" and "node_link NR connectedR targetR V ncfg peerR"
    and "talks rcl g" and "connected g w" and "clients_of connected target (target g) w rcls"
    and "peer w (target g) = (r, wr)"
    and "reg_bufferHandles r (bh_name bh) = None" and "bh_entrySegments bh = []"
    and "reaches cfg (bh_node_id bh) h (reg_client r)" and "connectedR h wr" and "peerR wr (targetR h) = (s, wn)"
    and "srv_manager s = ManagerRC m" and "mem_inv m" and "ring_request_ok (ring_request bh)"
    and "has_room (bh_numberOfWriters bh * ring_bytes (ring_request bh)) m" and "bh_numberOfWriters bh < 2 ^ 64"
  shows "\<exists>w1 w2 w3 offs. client_registerBuffer N bh rcl w = Inr (True, rcl, w1) \<and>
    join_each N (bh_name bh) rcls w1 = Inr (map (ring_handle (with_rings bh offs)) [0..<length rcls], w2) \<and>
    client_retrieveBuffer N (bh_name bh) rcl w2 = Inr (Some (with_rings bh offs), rcl, w3) \<and>
    length offs = bh_numberOfWriters bh \<and> blocks_apart (ring_request bh) offs \<and>
    (\<forall>off \<in> set offs.
       ring_made (ring_request bh) (buffer_base m) (lmem (snd (peerR (snd (peer w3 (target g))) (targetR h)))) off)"
proof -
  obtain ok offs s' wn' where R: "node_rings (ring_request bh) (bh_numberOfWriters bh) (s, wn) = (ok, offs, s', wn')"
    by (metis prod_cases4)
  from node_rings_outcome [OF assms(12-14) R] assms(15) have n: "blocks_apart (ring_request bh) offs"
    "length offs = bh_numberOfWriters bh" "\<forall>off \<in> set offs. ring_made (ring_request bh) (buffer_base m) (lmem wn') off" ok
    by blast+
  from register_over_links [OF assms(1-4,6-10) R [folded assms(11)]] obtain w1 r1 wr' where c:
    "client_registerBuffer N bh rcl w = Inr (ok, rcl, w1)" "peer w1 = (peer w)(target g := (r1, wr'))"
    "\<forall>k. connected k w1 = connected k w" "joined (bh_name bh) r1 = 0"
    "reg_bufferHandles r1 = (reg_bufferHandles r)(bh_name bh \<mapsto> with_rings bh offs)"
    "peerR wr' = (peerR wr)(targetR h := (s', wn'))"
    by blast
  let ?bh = "with_rings bh offs"
  have len: "length (bh_entrySegments ?bh) = bh_numberOfWriters bh" using assms(8) n(2) by (simp add: with_rings_def)
  have who: "clients_of connected target (target g) w1 rcls" using assms(5) c(3) by (simp add: clients_of_def)
  have "peer w1 (target g) = (r1, wr')" "reg_bufferHandles r1 (bh_name ?bh) = Some ?bh"
    "joined (bh_name ?bh) r1 \<le> length (bh_entrySegments ?bh)" "length (bh_entrySegments ?bh) < 2 ^ 64"
    using c len assms(16) by simp_all
  from registry_link.joins_answered [OF assms(1) who this] obtain r2 w2 where j:
    "join_each N (bh_name bh) rcls w1 = Inr (map (ring_handle ?bh) [0..<length rcls], w2)"
    "peer w2 = (peer w1)(target g := (r2, wr'))" "reg_bufferHandles r2 = reg_bufferHandles r1"
    "\<forall>k. connected k w2 = connected k w1"
    by (auto simp: c(4))
  have "connected g w2" "peer w2 (target g) = (r2, wr')" "reg_bufferHandles r2 (bh_name ?bh) = Some ?bh"
    using j c assms(4) by simp_all
  from registry_link.retrieve_answered [OF assms(1,3) this] obtain w3 where
    "client_retrieveBuffer N (bh_name bh) rcl w2 = Inr (Some ?bh, rcl, w3)" "peer w3 = peer w2"
    using len by (auto simp: with_rings_def)
  with j c n show ?thesis
    by (intro exI [of _ w1] exI [of _ w2] exI [of _ w3] exI [of _ offs]) simp
qed

section \<open>Properties\<close>

text \<open>
  Claim C26. A buffer that is registered over the network: when the node has room for its rings in one free region, the
  client is told so, and the registry then holds a handle with one ring per announced writer. On the node the rings
  are fresh, lie in the registered buffer apart from each other and from everything that was in use, are in use
  afterwards, and no other byte has changed.
\<close>

theorem registration_creates_rings:
  assumes "registry_link N connected target NR cfg peer" and "node_link NR connectedR targetR V ncfg peerR"
    and "talks rcl g" and "connected g w" and "peer w (target g) = (r, wr)"
    and "reg_bufferHandles r (bh_name bh) = None" and "bh_entrySegments bh = []"
    and "reaches cfg (bh_node_id bh) h (reg_client r)" and "connectedR h wr" and "peerR wr (targetR h) = (s, wn)"
    and "srv_manager s = ManagerRC m" and "mem_inv m" and "ring_request_ok (ring_request bh)"
    and "has_room (bh_numberOfWriters bh * ring_bytes (ring_request bh)) m"
  shows "\<exists>w' r' wr' offs s' wn' m'. client_registerBuffer N bh rcl w = Inr (True, rcl, w') \<and>
    peer w' = (peer w)(target g := (r', wr')) \<and>
    reg_bufferHandles r' = (reg_bufferHandles r)(bh_name bh \<mapsto> with_rings bh offs) \<and>
    length offs = bh_numberOfWriters bh \<and>
    peerR wr' = (peerR wr)(targetR h := (s', wn')) \<and> srv_manager s' = ManagerRC m' \<and> mem_inv m' \<and>
    (\<forall>off \<in> set offs. ring_made (ring_request bh) (buffer_base m) (lmem wn') off) \<and>
    blocks_apart (ring_request bh) offs \<and> blocks (ring_request bh) offs \<subseteq> {..<m_memSize m} - used_bytes m \<and>
    used_bytes m' = used_bytes m \<union> blocks (ring_request bh) offs \<and>
    (\<forall>a. a \<notin> blocks (ring_request bh) offs \<longrightarrow> lmem wn' (buffer_base m + a) = lmem wn (buffer_base m + a))"
proof -
  obtain ok offs s' wn' where R: "node_rings (ring_request bh) (bh_numberOfWriters bh) (s, wn) = (ok, offs, s', wn')"
    by (metis prod_cases4)
  from node_rings_outcome [OF assms(11-13) R] assms(14) obtain m' where m': "srv_manager s' = ManagerRC m'" "mem_inv m'"
    "used_bytes m' = used_bytes m \<union> blocks (ring_request bh) offs" "blocks_apart (ring_request bh) offs"
    "blocks (ring_request bh) offs \<inter> used_bytes m = {}" "blocks (ring_request bh) offs \<subseteq> {..<m_memSize m}"
    "length offs = bh_numberOfWriters bh" "\<forall>off \<in> set offs. ring_made (ring_request bh) (buffer_base m) (lmem wn') off"
    "\<forall>a. a \<notin> blocks (ring_request bh) offs \<longrightarrow> lmem wn' (buffer_base m + a) = lmem wn (buffer_base m + a)" ok
    by blast
  from register_over_links [OF assms(1-9) R [folded assms(10)]] obtain w' r' wr' where
    "client_registerBuffer N bh rcl w = Inr (ok, rcl, w')" "peer w' = (peer w)(target g := (r', wr'))"
    "reg_bufferHandles r' = (reg_bufferHandles r)(bh_name bh \<mapsto> with_rings bh offs)"
    "peerR wr' = (peerR wr)(targetR h := (s', wn'))"
    by blast
  with m' show ?thesis
    by (intro exI [of _ w'] exI [of _ r'] exI [of _ wr'] exI [of _ offs] exI [of _ s'] exI [of _ wn'] exI [of _ m']) auto
qed

text \<open>
  Claim C32. A buffer the node has no room for. When the node refuses to make one of the buffer's rings, because too much of its
  memory is in use or no free piece is large enough, the client is told that the registration failed, but the name stays taken, with those
  rings that were still created, and the same registration fails ever after: at once, and in every state in which the registry has answered
  any requests of any clients in between. And the refused request is not without effect on the node: the headers of a whole
  ring have been written at the start of the registered buffer, whatever ring lives there.
\<close>

theorem failed_registration_remains:
  assumes "registry_link N connected target NR cfg peer" and "node_link NR connectedR targetR V ncfg peerR"
    and "talks rcl g" and "connected g w" and "peer w (target g) = (r, wr)"
    and "reg_bufferHandles r (bh_name bh) = None" and "bh_entrySegments bh = []"
    and "reaches cfg (bh_node_id bh) h (reg_client r)" and "connectedR h wr" and "peerR wr (targetR h) = (s, wn)"
    and "srv_manager s = ManagerRC m" and "mem_inv m" and "ring_request_ok (ring_request bh)"
    and "\<not> fst (node_rings (ring_request bh) (bh_numberOfWriters bh) (s, wn))"
  shows "\<exists>w1 w2 r' wr' offs s' wn'. client_registerBuffer N bh rcl w = Inr (False, rcl, w1) \<and>
    peer w1 (target g) = (r', wr') \<and> reg_bufferHandles r' (bh_name bh) = Some (with_rings bh offs) \<and>
    length offs < bh_numberOfWriters bh \<and> peerR wr' (targetR h) = (s', wn') \<and>
    ring_fresh (lmem wn') (buffer_base m) (ring_front (ring_request bh)) (asq_segments_count (ring_request bh))
      (asq_segments_size (ring_request bh)) \<and>
    client_registerBuffer N bh rcl w1 = Inr (False, rcl, w2) \<and>
    (\<forall>reqs w3. connected g w3 \<and> registry_after NR cfg reqs (r', wr') = Inr (peer w3 (target g)) \<longrightarrow>
       (\<exists>w4. client_registerBuffer N bh rcl w3 = Inr (False, rcl, w4)))"
proof -
  obtain ok offs s' wn' where R: "node_rings (ring_request bh) (bh_numberOfWriters bh) (s, wn) = (ok, offs, s', wn')"
    by (metis prod_cases4)
  have no: "\<not> ok" using assms(14) R by simp
  with node_rings_outcome [OF assms(11-13) R] have n: "length offs \<le> bh_numberOfWriters bh"
    "length offs \<noteq> bh_numberOfWriters bh"
    "ring_fresh (lmem wn') (buffer_base m) (ring_front (ring_request bh)) (asq_segments_count (ring_request bh))
      (asq_segments_size (ring_request bh))"
    by blast+
  from register_over_links [OF assms(1-9) R [folded assms(10)]] obtain w1 r1 wr' where c:
    "client_registerBuffer N bh rcl w = Inr (ok, rcl, w1)" "peer w1 = (peer w)(target g := (r1, wr'))"
    "\<forall>k. connected k w1 = connected k w"
    "reg_bufferHandles r1 = (reg_bufferHandles r)(bh_name bh \<mapsto> with_rings bh offs)"
    "peerR wr' = (peerR wr)(targetR h := (s', wn'))"
    by blast
  have refused: "\<exists>w4. client_registerBuffer N bh rcl w3 = Inr (False, rcl, w4)"
    if "connected g w3" "reg_bufferHandles (fst (peer w3 (target g))) (bh_name bh) \<noteq> None" for w3
    using registry_link.register_answered [OF assms(1,3) that(1) taken_name_refused [OF that(2)]] by auto
  obtain w2 where w2: "client_registerBuffer N bh rcl w1 = Inr (False, rcl, w2)"
    using refused [of w1] c(2-4) assms(4) by auto
  have later: "\<exists>w4. client_registerBuffer N bh rcl w3 = Inr (False, rcl, w4)"
    if "connected g w3 \<and> registry_after NR cfg reqs (r1, wr') = Inr (peer w3 (target g))" for reqs w3
    using registry_after_keeps [of NR cfg reqs "(r1, wr')" "peer w3 (target g)" "bh_name bh"] that c(4) by (intro refused) auto
  from c no n w2 have "client_registerBuffer N bh rcl w = Inr (False, rcl, w1)" "peer w1 (target g) = (r1, wr')"
    "reg_bufferHandles r1 (bh_name bh) = Some (with_rings bh offs)" "length offs < bh_numberOfWriters bh"
    "peerR wr' (targetR h) = (s', wn')"
    by simp_all
  with n(3) w2 later show ?thesis by blast
qed

text \<open>Two rings fit into the small node, a third does not.\<close>

theorem registration_creates_rings_witness:
  "\<exists>w' r' wr' a b. client_registerBuffer small_registry_net (small_buffer 2) small_client small_client_world = Inr (True, small_client, w') \<and>
     local_peer w' 0 = (r', wr') \<and> reg_bufferHandles r' ''b'' = Some (with_rings (small_buffer 2) [a, b]) \<and>
     {a..<a + 50} \<inter> {b..<b + 50} = {} \<and>
     (\<forall>off \<in> {a, b}. ring_fresh (lmem (snd (local_peer wr' 0))) 4096 off 2 25)"
proof -
  have room: "has_room (bh_numberOfWriters (small_buffer 2) * ring_bytes (ring_request (small_buffer 2))) small_manager"
    by (simp add: small_cluster del: small_ring_request)
  have fresh: "reg_bufferHandles wired_registry (bh_name (small_buffer 2)) = None" by (simp add: small_cluster)
  have node: "reaches small_cfg (bh_node_id (small_buffer 2)) 1 (reg_client wired_registry)"
    using small_cluster(4) by simp
  have empty: "bh_entrySegments (small_buffer 2) = []" by simp
  obtain w' r' wr' offs s' wn' where
    c: "client_registerBuffer small_registry_net (small_buffer 2) small_client small_client_world = Inr (True, small_client, w')"
    "local_peer w' = (local_peer small_client_world)(0 := (r', wr'))"
    "reg_bufferHandles r' = (reg_bufferHandles wired_registry)(bh_name (small_buffer 2) \<mapsto> with_rings (small_buffer 2) offs)"
    "length offs = bh_numberOfWriters (small_buffer 2)" "local_peer wr' = (local_peer small_registry_world)(0 := (s', wn'))"
    "\<forall>off \<in> set offs. ring_made (ring_request (small_buffer 2)) (buffer_base small_manager) (lmem wn') off"
    "blocks_apart (ring_request (small_buffer 2)) offs"
    using registration_creates_rings [OF local_registry.registry_link_axioms local_node.node_link_axioms small_cluster(1) TrueI
        small_cluster(2) fresh empty node TrueI small_cluster(5,6) small_manager_inv small_cluster(7) room]
    by blast
  from c(4) obtain a b where ab: "offs = [a, b]" by (auto simp: length_Suc_conv numeral_2_eq_2)
  have "ring_block (ring_request (small_buffer 2)) x = {x..<x + 50}" for x
    unfolding ring_block_def small_cluster(8,9) by simp
  then show ?thesis
    using c ab by (intro exI [of _ w'] exI [of _ r'] exI [of _ wr'] exI [of _ a] exI [of _ b])
      (simp add: blocks_apart_def ring_made_def)
qed

theorem failed_registration_remains_witness:
  "\<exists>w1 w2 r' wr' offs. client_registerBuffer small_registry_net (small_buffer 3) small_client small_client_world =
       Inr (False, small_client, w1) \<and>
     local_peer w1 0 = (r', wr') \<and> reg_bufferHandles r' ''b'' = Some (with_rings (small_buffer 3) offs) \<and> length offs < 3 \<and>
     ring_fresh (lmem (snd (local_peer wr' 0))) 4096 0 2 25 \<and>
     client_registerBuffer small_registry_net (small_buffer 3) small_client w1 = Inr (False, small_client, w2)"
proof -
  have full: "m_memSize small_manager < card (used_bytes small_manager) +
      bh_numberOfWriters (small_buffer 3) * ring_bytes (ring_request (small_buffer 3))"
    by (simp add: small_cluster del: small_ring_request)
  have many: "\<not> fst (node_rings (ring_request (small_buffer 3)) (bh_numberOfWriters (small_buffer 3)) (small_server, blank_world))"
    using node_rings_too_many [OF small_cluster(6) small_manager_inv small_cluster(7) _ full] by (metis prod.collapse)
  have fresh: "reg_bufferHandles wired_registry (bh_name (small_buffer 3)) = None" by (simp add: small_cluster)
  have node: "reaches small_cfg (bh_node_id (small_buffer 3)) 1 (reg_client wired_registry)"
    using small_cluster(4) by simp
  have empty: "bh_entrySegments (small_buffer 3) = []" by simp
  obtain w1 w2 r' wr' offs s' wn' where c:
    "client_registerBuffer small_registry_net (small_buffer 3) small_client small_client_world = Inr (False, small_client, w1)"
    "local_peer w1 0 = (r', wr')" "reg_bufferHandles r' (bh_name (small_buffer 3)) = Some (with_rings (small_buffer 3) offs)"
    "length offs < bh_numberOfWriters (small_buffer 3)" "local_peer wr' 0 = (s', wn')"
    "ring_fresh (lmem wn') (buffer_base small_manager) (ring_front (ring_request (small_buffer 3)))
      (asq_segments_count (ring_request (small_buffer 3))) (asq_segments_size (ring_request (small_buffer 3)))"
    "client_registerBuffer small_registry_net (small_buffer 3) small_client w1 = Inr (False, small_client, w2)"
    using failed_registration_remains [OF local_registry.registry_link_axioms local_node.node_link_axioms small_cluster(1) TrueI
        small_cluster(2) fresh empty node TrueI small_cluster(5,6) small_manager_inv small_cluster(7) many]
    by blast
  from c(6) have "ring_fresh (lmem wn') 4096 0 2 25" unfolding small_cluster(9) by simp
  with c show ?thesis
    by (intro exI [of _ w1] exI [of _ w2] exI [of _ r'] exI [of _ wr'] exI [of _ offs]) simp
qed

end
