(* ===== verification/Writer_Start.thy ===== *)
theory Writer_Start
  imports Cluster Stream_Writer Stream_Reader
begin

text \<open>
  A whole session: a buffer is registered over the network, a writer is constructed, which joins the buffer through the
  registry and sets up its header and internal buffer in registered memory, appends and closes, and the node
  reads. It rests on \<open>Cluster\<close> for the requests and on \<open>Stream_Writer\<close> and \<open>Stream_Reader\<close> for the transfers.
\<close>

section \<open>A process with a registry connection and a queue pair\<close>

text \<open>
  Sockets and device are apart: an exchange of messages leaves the state of the queue pair alone, and the peer's memory
  too unless the exchange made a server change it. \<open>mem_of\<close> is the memory of the node as far as the servers' state
  tells.
\<close>

locale writer_process =
  registry_link N connected target NR cfg peer +
  rc_fabric N p cq lkey rkey lreg rreg slots up rmem due busy posted pend rank
  for N :: "('d, 'n) net_scheme"
    and connected :: "nat \<Rightarrow> 'd world \<Rightarrow> bool" and target :: "nat \<Rightarrow> nat"
    and NR :: "('r, 'm) net_scheme" and cfg :: dpi_config
    and peer :: "'d world \<Rightarrow> nat \<Rightarrow> registry \<times> 'r world"
    and p :: ibv_qp and cq lkey rkey :: nat and lreg rreg :: "nat set"
    and slots :: nat and up :: "'d world \<Rightarrow> bool" and rmem due :: "'d world \<Rightarrow> mem"
    and busy :: "'d world \<Rightarrow> nat set" and posted :: "'d world \<Rightarrow> nat" and pend :: "'d world \<Rightarrow> bool"
    and rank :: "'d world \<Rightarrow> nat" +
  fixes mem_of :: "'r world \<Rightarrow> mem"
  assumes exchange_apart: "connected h w \<Longrightarrow> zmq_send N h data False w = (ZmqOk True, w1) \<Longrightarrow> zmq_recv N h w1 = (x, w2) \<Longrightarrow>
      up w2 = up w \<and> busy w2 = busy w \<and> posted w2 = posted w \<and> pend w2 = pend w \<and>
      (mem_of (snd (peer w2 (target h))) = mem_of (snd (peer w (target h))) \<longrightarrow> rmem w2 = rmem w)"
begin

lemma send_apart:
  assumes "ProtoClient_send N pc msg w = Inr (ok, rep, pc', w')" "talks pc h" "connected h w"
  shows "up w' = up w \<and> busy w' = busy w \<and> posted w' = posted w \<and> pend w' = pend w \<and>
    (mem_of (snd (peer w' (target h))) = mem_of (snd (peer w (target h))) \<longrightarrow> rmem w' = rmem w)"
proof -
  obtain sk where sk: "pc_isConnected pc" "pc_socket pc = Some sk" "ps_sock sk = Some h"
    using assms(2) by (auto simp: talks_def)
  obtain sok w1 where s: "ProtoSocket_send N sk msg w = Inr (sok, w1)" "sok"
    using assms(1) sk by (auto simp: ProtoClient_send_def bindR_eq_Inr split: if_splits)
  then obtain data where data: "zmq_send N h data False w = (ZmqOk True, w1)"
    using sk(3) by (auto simp: ProtoSocket_send_def split: option.splits prod.splits zmq_result.splits)
  obtain x w2 where r: "zmq_recv N h w1 = (x, w2)" by force
  have "w' = w2"
    using assms(1) sk s r
    by (auto simp: ProtoClient_send_def ProtoSocket_receive_def split: option.splits zmq_result.splits if_splits)
  then show ?thesis using exchange_apart [OF assms(3) data r] by simp
qed

lemma join_apart:
  assumes "joinBuffer N name rcl w = Inr (bh, rcl', w')" "talks rcl h" "connected h w"
  shows "up w' = up w \<and> busy w' = busy w \<and> posted w' = posted w \<and> pend w' = pend w \<and>
    (mem_of (snd (peer w' (target h))) = mem_of (snd (peer w (target h))) \<longrightarrow> rmem w' = rmem w)"
proof -
  obtain ok rep pc w1 where s: "ProtoClient_send N rcl (createDPIRetrieveBufferRequest name True) w = Inr (ok, rep, pc, w1)"
    and rest: "(if \<not> ok then Inr (None, pc, w1)
      else case rep of
        DPIRetrieveBufferResponse resp \<Rightarrow>
          if br_return resp \<noteq> error_code NO_ERROR then Inr (None, pc, w1)
          else Inr (Some (handle_of_response name resp), pc, w1)
      | _ \<Rightarrow> Inr (None, pc, w1)) = (Inr (bh, rcl', w') :: (BufferHandle option \<times> proto_client \<times> 'd world) result)"
    using assms(1) by (auto simp: joinBuffer_def retrieveOrJoinBuffer_def bindR_eq_Inr)
  then have "w1 = w'" by (auto split: if_splits any_msg.splits)
  then show ?thesis using send_apart [OF s assms(2,3)] by simp
qed

end

section \<open>The constructor\<close>

lemma internalAlloc_linked:
  assumes "internalAlloc n m = (x, m')"
  shows "linked m' a p cq lkey rkey rb = linked m a p cq lkey rkey rb" "buffer_base m' = buffer_base m"
    "m_memSize m' = m_memSize m"
  using assms by (cases rule: internalAlloc_cases [of n m]; auto simp: linked_def buffer_base_def)+

text \<open>Pieces of registered memory, one after the other: they lie in the buffer and apart.\<close>

lemma one_alloc:
  assumes "mem_inv m" "has_room k m" "0 < k"
  obtains a m1 where "rc_localAlloc k m = (Some (buffer_base m + a), m1)" "mem_inv m1" "a + k \<le> m_memSize m"
    "{a..<a + k} \<inter> used_bytes m = {}" "used_bytes m1 = used_bytes m \<union> {a..<a + k}"
    "\<And>n. has_room (k + n) m \<Longrightarrow> 0 < n \<Longrightarrow> has_room n m1"
    "buffer_base m1 = buffer_base m" "m_memSize m1 = m_memSize m"
    "\<And>x p cq lkey rkey rb. linked m1 x p cq lkey rkey rb = linked m x p cq lkey rkey rb"
proof -
  obtain r m1 where a: "internalAlloc k m = (r, m1)" by force
  have "\<not> (\<forall>x \<in> set (m_rdmaMem m). rm_size x < k)" using assms(2) by (force simp: has_room_def)
  then have n: "\<not> rm_isnull r" using internalAlloc_null_iff [OF assms(1), of k] a by simp
  note A = internalAlloc_bytes [OF assms(1,3) a n] and L = internalAlloc_linked [OF a]
  have reg: "rm_region r = {rm_offset r..<rm_offset r + k}" using A(1) by (simp add: rm_region_def)
  show ?thesis
  proof (rule that)
    show "rc_localAlloc k m = (Some (buffer_base m + rm_offset r), m1)" using a n L(2) by (simp add: rc_localAlloc_def)
    show "mem_inv m1" using internalAlloc_inv [OF assms(1,3)] a by simp
    show "{rm_offset r..<rm_offset r + k} \<inter> used_bytes m = {}" using A(2) used_free_bytes [OF assms(1)] reg by blast
    show "has_room n m1" if "has_room (k + n) m" "0 < n" for n using internalAlloc_room [OF that] a by simp
  qed (use A(4,5) L reg in auto)
qed

lemma intervals_apart: "{a..<a + k} \<inter> {b..<b + n} = {} \<Longrightarrow> 0 < k \<Longrightarrow> 0 < n \<Longrightarrow> a + k \<le> b \<or> b + n \<le> (a :: nat)"
  by (rule ccontr) (auto simp: disjoint_iff dest: spec [of _ "max a b"])

lemma has_room_less: "has_room (k + n) m \<Longrightarrow> has_room k m"
  unfolding has_room_def by (blast dest: add_leD1)

lemma two_allocs:
  assumes "mem_inv m" "has_room (k + n) m" "0 < k" "0 < n"
  obtains a m1 b m2 where "rc_localAlloc k m = (Some (buffer_base m + a), m1)"
    "rc_localAlloc n m1 = (Some (buffer_base m + b), m2)" "a + k \<le> m_memSize m" "b + n \<le> m_memSize m"
    "a + k \<le> b \<or> b + n \<le> a"
    "\<And>x p cq lkey rkey rb. linked m1 x p cq lkey rkey rb = linked m x p cq lkey rkey rb"
    "\<And>x p cq lkey rkey rb. linked m2 x p cq lkey rkey rb = linked m x p cq lkey rkey rb"
proof -
  obtain a m1 where A: "rc_localAlloc k m = (Some (buffer_base m + a), m1)" "mem_inv m1" "a + k \<le> m_memSize m"
    "used_bytes m1 = used_bytes m \<union> {a..<a + k}" "has_room n m1" "buffer_base m1 = buffer_base m" "m_memSize m1 = m_memSize m"
    "\<And>x p cq lkey rkey rb. linked m1 x p cq lkey rkey rb = linked m x p cq lkey rkey rb"
    using one_alloc [OF assms(1) has_room_less [OF assms(2)] assms(3)] assms(2,4) by metis
  obtain b m2 where B: "rc_localAlloc n m1 = (Some (buffer_base m1 + b), m2)" "b + n \<le> m_memSize m1"
    "{b..<b + n} \<inter> used_bytes m1 = {}"
    "\<And>x p cq lkey rkey rb. linked m2 x p cq lkey rkey rb = linked m1 x p cq lkey rkey rb"
    using one_alloc [OF A(2,5) assms(4)] by metis
  have "{a..<a + k} \<inter> {b..<b + n} = {}" using B(3) A(4) by blast
  from intervals_apart [OF this assms(3,4)] show ?thesis using that [of a m1 b m2] A B by simp
qed

lemma three_allocs:
  assumes "mem_inv m" "has_room (k + (l + n)) m" "0 < k" "0 < l" "0 < n"
  obtains a m1 b m2 c m3 where "rc_localAlloc k m = (Some (buffer_base m + a), m1)"
    "rc_localAlloc l m1 = (Some (buffer_base m + b), m2)" "rc_localAlloc n m2 = (Some (buffer_base m + c), m3)"
    "a + k \<le> m_memSize m" "b + l \<le> m_memSize m" "c + n \<le> m_memSize m"
    "a + k \<le> b \<or> b + l \<le> a" "a + k \<le> c \<or> c + n \<le> a" "b + l \<le> c \<or> c + n \<le> b"
    "\<And>x p cq lkey rkey rb. linked m3 x p cq lkey rkey rb = linked m x p cq lkey rkey rb"
proof -
  obtain a m1 where A: "rc_localAlloc k m = (Some (buffer_base m + a), m1)" "mem_inv m1" "a + k \<le> m_memSize m"
    "used_bytes m1 = used_bytes m \<union> {a..<a + k}" "has_room (l + n) m1" "buffer_base m1 = buffer_base m" "m_memSize m1 = m_memSize m"
    "\<And>x p cq lkey rkey rb. linked m1 x p cq lkey rkey rb = linked m x p cq lkey rkey rb"
    using one_alloc [OF assms(1) has_room_less [OF assms(2)] assms(3)] assms(2,4) by (metis add_pos_pos assms(5))
  obtain b m2 where B: "rc_localAlloc l m1 = (Some (buffer_base m1 + b), m2)" "mem_inv m2" "b + l \<le> m_memSize m1"
    "{b..<b + l} \<inter> used_bytes m1 = {}" "used_bytes m2 = used_bytes m1 \<union> {b..<b + l}" "has_room n m2"
    "buffer_base m2 = buffer_base m1" "m_memSize m2 = m_memSize m1"
    "\<And>x p cq lkey rkey rb. linked m2 x p cq lkey rkey rb = linked m1 x p cq lkey rkey rb"
    using one_alloc [OF A(2) has_room_less [OF A(5)] assms(4)] A(5) assms(5) by metis
  obtain c m3 where C: "rc_localAlloc n m2 = (Some (buffer_base m2 + c), m3)" "c + n \<le> m_memSize m2"
    "{c..<c + n} \<inter> used_bytes m2 = {}"
    "\<And>x p cq lkey rkey rb. linked m3 x p cq lkey rkey rb = linked m2 x p cq lkey rkey rb"
    using one_alloc [OF B(2,6) assms(5)] by metis
  have "{a..<a + k} \<inter> {b..<b + l} = {}" "{a..<a + k} \<inter> {c..<c + n} = {}" "{b..<b + l} \<inter> {c..<c + n} = {}"
    using B(4,5) A(4) C(3) by blast+
  note this [THEN intervals_apart]
  with assms(3-5) A B C show ?thesis using that [of a m1 b m2 c m3] by simp
qed

text \<open>
  The constructor with a connected client: it joins, takes its header and its internal buffer from the client's
  registered memory and reads the header of its ring's first segment.
\<close>

lemma writer_constructed:
  assumes F: "rc_fabric N p cq lkey rkey lreg rreg slots up rmem due busy posted pend rank"
    and join: "joinBuffer N name rcl w = Inr (Some bh, rcl', w1)" "bh_entrySegments bh = [\<lparr>seg_offset = e, seg_size = S\<rparr>]"
    and c: "client_on (cfg_RDMA_MAX_WR cfgA) (bh_node_id bh) p cq lkey rkey rb c" "cl_manager c = ManagerRC mA"
    and mem: "mem_inv mA" "has_room (24 + isz) mA" "0 < isz" "isz < 2 ^ 32"
    and regs: "{buffer_base mA..<buffer_base mA + m_memSize mA} \<subseteq> lreg" "{rb + e..<rb + e + cnt * (S + 24)} \<subseteq> rreg"
      "rb + e + cnt * (S + 24) < 2 ^ 64" "cfg_RDMA_MAX_WR cfgA \<le> slots" "0 < S" "0 < cnt"
    and idle: "up w1" "\<not> pend w1" "posted w1 \<le> cl_countWR c"
  shows "\<exists>s w2 h ptr. newBufferWriterBW N cfgA res0 no_client name rcl isz (Some c) w = Inr (s, rcl', w2) \<and>
    ring_stream N p cq lkey rkey lreg rreg slots up rmem due busy posted pend rank cfgA rb e cnt S h ptr isz \<and>
    bw_fresh (cfg_RDMA_MAX_WR cfgA) p cq lkey rkey rb e S h ptr isz s \<and> bw_handle s = bh \<and>
    up w2 \<and> \<not> pend w2 \<and> posted w2 \<le> cl_countWR (bw_client s) \<and> busy w2 = {} \<and> rmem w2 = rmem w1 \<and>
    get_header (lmem w2) h = get_header (rmem w2) (rb + e) \<and> (\<forall>a. a \<notin> lreg \<longrightarrow> lmem w2 a = lmem w1 a)"
proof -
  obtain a m1 b m2 where M: "rc_localAlloc 24 mA = (Some (buffer_base mA + a), m1)"
    "rc_localAlloc isz m1 = (Some (buffer_base mA + b), m2)" "a + 24 \<le> m_memSize mA" "b + isz \<le> m_memSize mA"
    "a + 24 \<le> b \<or> b + isz \<le> a"
    "\<And>x p cq lkey rkey rb. linked m1 x p cq lkey rkey rb = linked mA x p cq lkey rkey rb"
    "\<And>x p cq lkey rkey rb. linked m2 x p cq lkey rkey rb = linked mA x p cq lkey rkey rb"
    using two_allocs [OF mem(1,2) _ mem(3)] by (metis zero_less_numeral)
  let ?h = "buffer_base mA + a" and ?ptr = "buffer_base mA + b"
  have sub: "{?h..<?h + 24} \<subseteq> lreg" "{?ptr..<?ptr + isz} \<subseteq> lreg"
    using M(3,4) by (auto intro!: subsetD [OF regs(1)])
  have ring: "ring_stream N p cq lkey rkey lreg rreg slots up rmem due busy posted pend rank cfgA rb e cnt S ?h ?ptr isz"
    using M(5) by (intro ring_stream.intro ring_link.intro ring_link_axioms.intro ring_stream_axioms.intro F regs sub mem) auto
  let ?c1 = "c\<lparr>cl_manager := ManagerRC m1\<rparr>"
  have on1: "client_on (cfg_RDMA_MAX_WR cfgA) (bh_node_id bh) p cq lkey rkey rb ?c1"
    using c M(6) by (auto simp: client_on_def)
  have ready: "rc_fabric.ready up posted pend ?c1 w1" using idle by (simp add: rc_fabric.ready_def [OF F])
  have seg: "{rb + e..<rb + e + 24} \<subseteq> rreg" "rb + e < 2 ^ 64"
  proof -
    have "{rb + e..<rb + e + 24} \<subseteq> {rb + e..<rb + e + cnt * (S + 24)}" using regs(6) by (cases cnt) auto
    then show "{rb + e..<rb + e + 24} \<subseteq> rreg" using regs(2) by blast
    show "rb + e < 2 ^ 64" using regs(3) by simp
  qed
  obtain q w2 where rd: "client_read N cfgA (bh_node_id bh) e ?h 24 True ?c1 w1 = Inr (True, ?c1\<lparr>cl_countWR := q\<rparr>, w2)"
    "q < cfg_RDMA_MAX_WR cfgA" "rc_fabric.ready up posted pend (?c1\<lparr>cl_countWR := q\<rparr>) w2"
    "lmem w2 = mem_write (lmem w1) ?h (mem_read (rmem w1) (rb + e) 24)" "rmem w2 = rmem w1" "busy w2 = {}"
    using rc_fabric.client_read_ok [OF F on1 ready regs(4) _ seg(2) sub(1) seg(1)] by auto
  let ?c2 = "?c1\<lparr>cl_countWR := q, cl_manager := ManagerRC m2\<rparr>"
  let ?s = "\<lparr>bw_localBufferSegment = Some \<lparr>seg_offset = e, seg_size = S\<rparr>, bw_sizeUsed = 0,
      bw_internalBuffer = Some \<lparr>ib_bufferPtr = ?ptr, ib_size = isz, ib_offset = 0\<rparr>, bw_handle = bh,
      bw_client = ?c2, bw_segmentHeader = Some ?h, bw_deleteRdmaClient = False\<rparr>"
  have "newBufferWriterBW N cfgA res0 no_client name rcl isz (Some c) w = Inr (?s, rcl', w2)"
    using join c(2) M(1,2) rd(1)
    by (simp add: newBufferWriterBW_def writer_client_def client_localAlloc_def mgr_localAlloc_def bw_readHeaderFromRemote_def)
  moreover have "client_on (cfg_RDMA_MAX_WR cfgA) (bh_node_id bh) p cq lkey rkey rb ?c2"
    using on1 rd(2) M(6,7) by (auto simp: client_on_def)
  then have "bw_fresh (cfg_RDMA_MAX_WR cfgA) p cq lkey rkey rb e S ?h ?ptr isz ?s" by (simp add: bw_fresh_def)
  moreover have "lmem w2 x = lmem w1 x" if "x \<notin> lreg" for x
  proof -
    have "x \<notin> {?h..<?h + 24}" using that sub(1) by blast
    then show ?thesis by (auto simp: rd(4) mem_write_outside)
  qed
  moreover have "get_header (lmem w2) ?h = get_header (rmem w2) (rb + e)"
    by (simp add: rd(4,5) put_header_def [symmetric] header_bytes_get [symmetric])
  ultimately show ?thesis
    using ring rd(3,5,6) rc_fabric.ready_def [OF F]
    by (intro exI [of _ ?s] exI [of _ w2] exI [of _ ?h] exI [of _ ?ptr]) simp
qed

section \<open>What an appender finds\<close>

text \<open>After a successful registration the first ring is fresh in the node's memory and nobody has joined.\<close>

lemma registered_first_ring:
  assumes "registry_link N0 connected0 target0 NR cfg peer0" "node_link NR connectedR targetR V ncfg peerR"
    "talks rcl g" "connected0 g w0" "peer0 w0 (target0 g) = (r, wr)" "reg_bufferHandles r (bh_name bh) = None"
    "bh_entrySegments bh = []" "reaches cfg (bh_node_id bh) hn (reg_client r)" "connectedR hn wr"
    "peerR wr (targetR hn) = (sn, wn)" "srv_manager sn = ManagerRC m" "mem_inv m" "ring_request_ok (ring_request bh)"
    "client_registerBuffer N0 bh rcl w0 = Inr (True, rcl', w1)" "0 < bh_numberOfWriters bh"
  obtains r1 wr' offs wn' where "peer0 w1 (target0 g) = (r1, wr')"
    "reg_bufferHandles r1 (bh_name bh) = Some (with_rings bh offs)" "joined (bh_name bh) r1 = 0"
    "snd (peerR wr' (targetR hn)) = wn'" "length offs = bh_numberOfWriters bh"
    "ring_made (ring_request bh) (buffer_base m) (lmem wn') (offs ! 0)"
    "offs ! 0 + asq_segments_count (ring_request bh) * asq_segments_size (ring_request bh) \<le> m_memSize m"
proof -
  obtain ok offs s' wn' where O: "node_rings (ring_request bh) (bh_numberOfWriters bh) (sn, wn) = (ok, offs, s', wn')"
    by (metis prod_cases4)
  from register_over_links [OF assms(1-9) O [folded assms(10)]] assms(14) obtain r1 wr' where c1:
    ok "peer0 w1 (target0 g) = (r1, wr')" "reg_bufferHandles r1 (bh_name bh) = Some (with_rings bh offs)"
    "joined (bh_name bh) r1 = 0" "peerR wr' (targetR hn) = (s', wn')"
    by auto
  from node_rings_outcome [OF assms(11-13) O] c1(1) have made: "length offs = bh_numberOfWriters bh"
    "\<forall>off \<in> set offs. ring_made (ring_request bh) (buffer_base m) (lmem wn') off"
    "blocks (ring_request bh) offs \<subseteq> {..<m_memSize m}"
    by blast+
  let ?e = "offs ! 0" and ?f = "ring_front (ring_request bh)" and ?n = "ring_bytes (ring_request bh)"
  have e: "?e \<in> set offs" using made(1) assms(15) by simp
  then have rm: "ring_made (ring_request bh) (buffer_base m) (lmem wn') ?e" using made(2) by blast
  then have f: "?f \<le> ?e" "0 < ?n" using ring_request_pos [OF assms(13)] by (simp_all add: ring_made_def)
  have "?e - ?f + ?n - 1 \<in> ring_block (ring_request bh) ?e" using f(2) by (auto simp: ring_block_def)
  then have "?e - ?f + ?n - 1 < m_memSize m" using made(3) e by (auto simp: blocks_def)
  then have "?e + asq_segments_count (ring_request bh) * asq_segments_size (ring_request bh) \<le> m_memSize m"
    using f by (simp add: ring_bytes_def)
  with c1 made(1) rm that show ?thesis by auto
qed

text \<open>The handle it gets, with the first ring, and that joining leaves its queue pair alone.\<close>

lemma first_join:
  assumes "writer_process N connected target NR cfg peer p cq lkey rkey lreg rreg slots up rmem due busy posted pend rank mem_of"
    "talks rca ga" "connected ga w" "peer w (target ga) = (r1, wr')"
    "reg_bufferHandles r1 (bh_name bh) = Some (with_rings bh offs)" "joined (bh_name bh) r1 = 0"
    "bh_entrySegments bh = []" "length offs = bh_numberOfWriters bh" "0 < bh_numberOfWriters bh" "bh_numberOfWriters bh < 2 ^ 64"
  shows "\<exists>w' hdl. joinBuffer N (bh_name bh) rca w = Inr (Some hdl, rca, w') \<and> bh_node_id hdl = bh_node_id bh \<and>
    bh_entrySegments hdl = [\<lparr>seg_offset = offs ! 0, seg_size = bh_segmentSizes bh\<rparr>] \<and>
    bh_buffertype hdl = bh_buffertype bh \<and> bh_segmentSizes hdl = bh_segmentSizes bh \<and>
    bh_segmentsPerWriter hdl = bh_segmentsPerWriter bh \<and> lmem w' = lmem w \<and>
    up w' = up w \<and> busy w' = busy w \<and> posted w' = posted w \<and> pend w' = pend w \<and> rmem w' = rmem w"
proof -
  let ?bh = "with_rings bh offs"
  let ?hd = "?bh\<lparr>bh_numberOfWriters := 1, bh_entrySegments := [bh_entrySegments ?bh ! 0]\<rparr>"
  have R: "registry_link N connected target NR cfg peer" using assms(1) by (simp add: writer_process_def)
  have len: "length (bh_entrySegments ?bh) = bh_numberOfWriters bh" using assms(7,8) by (simp add: with_rings_def)
  have "reg_bufferHandles r1 (bh_name ?bh) = Some ?bh" "joined (bh_name ?bh) r1 \<le> length (bh_entrySegments ?bh)"
    "length (bh_entrySegments ?bh) < 2 ^ 64"
    using assms(5,6,10) len by simp_all
  from registry_link.join_answered [OF R assms(2-4) this] obtain r' w' where
    j: "joinBuffer N (bh_name bh) rca w = Inr (ring_handle ?bh 0, rca, w')" "peer w' = (peer w)(target ga := (r', wr'))"
    "lmem w' = lmem w"
    by (auto simp: assms(6))
  have "ring_handle ?bh 0 = Some ?hd" using len assms(9) by (simp add: ring_handle_def)
  moreover have "bh_entrySegments ?hd = [\<lparr>seg_offset = offs ! 0, seg_size = bh_segmentSizes bh\<rparr>]"
    using assms(7-9) by (simp add: with_rings_def)
  ultimately show ?thesis
    using writer_process.join_apart [OF assms(1) j(1) assms(2,3)] j assms(4)
    by (intro exI [of _ w'] exI [of _ ?hd]) (simp add: with_rings_def)
qed

lemma stream_of_cong:
  assumes "\<And>d n a. (d, n) \<in> set chunks \<Longrightarrow> d \<le> a \<Longrightarrow> a < d + n \<Longrightarrow> m' a = m a"
  shows "stream_of m' chunks = stream_of m chunks"
  unfolding stream_of_def
  by (intro arg_cong [of _ _ concat] map_cong refl) (auto intro!: mem_read_cong assms)

section \<open>A process on the deferred fabric and the local network\<close>

text \<open>Device calls work on the first half of the device's state, messages on the second.\<close>

definition first_world :: "('d \<times> 'e) world \<Rightarrow> 'd world" where
  "first_world w = \<lparr>lmem = lmem w, dev = fst (dev w)\<rparr>"

definition second_world :: "('d \<times> 'e) world \<Rightarrow> 'e world" where
  "second_world w = \<lparr>lmem = lmem w, dev = snd (dev w)\<rparr>"

definition on_first :: "('d world \<Rightarrow> 'a \<times> 'd world) \<Rightarrow> ('d \<times> 'e) world \<Rightarrow> 'a \<times> ('d \<times> 'e) world" where
  "on_first f w = (case f (first_world w) of (x, v) \<Rightarrow> (x, \<lparr>lmem = lmem v, dev = (dev v, snd (dev w))\<rparr>))"

definition put_second :: "'e world \<Rightarrow> ('d \<times> 'e) world \<Rightarrow> ('d \<times> 'e) world" where
  "put_second v w = w\<lparr>dev := (fst (dev w), dev v)\<rparr>"

lemma worlds_simps [simp]:
  "lmem (first_world w) = lmem w" "first_world (put_second v w) = first_world w" "second_world (put_second v w) = v\<lparr>lmem := lmem w\<rparr>"
  "first_world (w\<lparr>lmem := m\<rparr>) = (first_world w)\<lparr>lmem := m\<rparr>" "lmem (put_second v w) = lmem w"
  "first_world \<lparr>lmem = lmem v1, dev = (dev v1, e)\<rparr> = v1"
  by (simp_all add: first_world_def second_world_def put_second_def)

definition session_verbs :: "(fab \<times> 'e) verbs" where
  "session_verbs = idle_verbs\<lparr>ibv_post_send := \<lambda>q wr. on_first (fab_post_send q wr),
     ibv_poll_cq := \<lambda>q. on_first (fab_poll_cq q)\<rparr>"

definition session_net ::
  "(nat \<Rightarrow> nat) \<Rightarrow> (any_msg \<Rightarrow> 's \<Rightarrow> (any_msg \<times> 's) result) \<Rightarrow> (fab \<times> 's local_net) net" where
  "session_net target answer = verbs_cm.extend (idle_cm session_verbs)
     (net.fields (\<lambda>_ w. (ZmqOk 1, w)) (\<lambda>_ _ w. (ZmqOk (), w)) (\<lambda>_ _ w. (ZmqOk True, w))
       (\<lambda>h data _ w. (ZmqOk True, put_second (local_send answer (target h) data (second_world w)) w))
       (\<lambda>_ w. (ZmqOk (ln_reply (snd (dev w))), put_second ((second_world w)\<lparr>dev := (snd (dev w))\<lparr>ln_reply := None\<rparr>\<rparr>) w)) (\<lambda>_ _. replicate 64 0)
       (\<lambda>msg. Some (encode_msg msg)) (\<lambda>bs. Some (decode_msg bs)))"

lemma session_net_sel [simp]:
  "pb_serialize (session_net target answer) msg = Some (encode_msg msg)"
  "pb_parse (session_net target answer) bs = Some (decode_msg bs)"
  "zmq_send (session_net target answer) h data mor w =
     (ZmqOk True, put_second (local_send answer (target h) data (second_world w)) w)"
  "zmq_recv (session_net target answer) h w =
     (ZmqOk (ln_reply (snd (dev w))), put_second ((second_world w)\<lparr>dev := (snd (dev w))\<lparr>ln_reply := None\<rparr>\<rparr>) w)"
  "ibv_post_send (session_net target answer) q wr = on_first (ibv_post_send fab_verbs q wr)"
  "ibv_poll_cq (session_net target answer) n = on_first (ibv_poll_cq fab_verbs n)"
  by (simp_all add: session_net_def net.defs verbs_cm.defs idle_cm_def verbs.defs session_verbs_def fab_verbs_def)

lemma on_first_eq:
  "f (first_world w) = (x, v) \<Longrightarrow> \<exists>v'. on_first f w = (x, v') \<and> first_world v' = v \<and> lmem v' = lmem v"
  by (simp add: on_first_def)

text \<open>A fabric stays one when it is half of a larger device.\<close>

lemma rc_fabric_first:
  assumes F: "rc_fabric V p cq lkey rkey lreg rreg slots up rmem due busy posted pend rank"
    and N: "\<And>q wr. ibv_post_send N q wr = on_first (ibv_post_send V q wr)" "\<And>n. ibv_poll_cq N n = on_first (ibv_poll_cq V n)"
  shows "rc_fabric N p cq lkey rkey lreg rreg slots (\<lambda>w. up (first_world w)) (\<lambda>w. rmem (first_world w))
    (\<lambda>w. due (first_world w)) (\<lambda>w. busy (first_world w)) (\<lambda>w. posted (first_world w)) (\<lambda>w. pend (first_world w))
    (\<lambda>w. rank (first_world w))"
proof (unfold_locales, goal_cases)
  case (1 w m)
  then show ?case using rc_fabric.store [OF F, of "first_world w" m] by simp
next
  case (2 w wr)
  let ?w = "first_world w"
  obtain v where "ibv_post_send V p wr ?w = (0, v)" "up v" "lmem v = lmem ?w" "due v = lmem ?w"
    "rmem v = mem_write (rmem ?w) (wr_remote_addr wr) (mem_read (lmem ?w) (wr_addr wr) (wr_length wr))"
    "busy v = busy ?w \<union> {wr_addr wr..<wr_addr wr + wr_length wr}" "posted v = Suc (posted ?w)" "pend v = wr_signaled wr"
    using rc_fabric.post_write [OF F 2] by blast
  moreover obtain v' where "on_first (ibv_post_send V p wr) w = (0, v')" "first_world v' = v" "lmem v' = lmem v"
    using on_first_eq [of "ibv_post_send V p wr", OF calculation(1)] by blast
  ultimately show ?case by (intro exI [of _ v']) (simp add: N)
next
  case (3 w wr)
  let ?w = "first_world w"
  obtain v where "ibv_post_send V p wr ?w = (0, v)" "up v" "rmem v = rmem ?w" "pend v"
    "due v = mem_write (lmem ?w) (wr_addr wr) (mem_read (rmem ?w) (wr_remote_addr wr) (wr_length wr))"
    using rc_fabric.post_read [OF F 3] by blast
  moreover obtain v' where "on_first (ibv_post_send V p wr) w = (0, v')" "first_world v' = v" "lmem v' = lmem v"
    using on_first_eq [of "ibv_post_send V p wr", OF calculation(1)] by blast
  ultimately show ?case by (intro exI [of _ v']) (simp add: N)
next
  case (4 w)
  let ?w = "first_world w"
  obtain ne st v where "ibv_poll_cq V cq ?w = ((ne, st), v)" "up v" "rmem v = rmem ?w"
    "ne = 0 \<and> pend v \<and> due v = due ?w \<and> rank v < rank ?w \<or>
       ne = 1 \<and> st = 0 \<and> \<not> pend v \<and> lmem v = due ?w \<and> busy v = {} \<and> posted v = 0"
    using rc_fabric.poll [OF F 4] by blast
  moreover obtain v' where "on_first (ibv_poll_cq V cq) w = ((ne, st), v')" "first_world v' = v" "lmem v' = lmem v"
    using on_first_eq [of "ibv_poll_cq V cq", OF calculation(1)] by blast
  ultimately show ?case by (intro exI [of _ ne] exI [of _ st] exI [of _ v']) (simp add: N)
qed

interpretation session: writer_process "session_net target (registry_answer NR cfg)" "\<lambda>_ _. True" target NR cfg
    "\<lambda>w. local_peer (second_world w)" fab_qp 3 1 2 fab_lreg fab_rreg fab_slots "\<lambda>w. fab_up (first_world w)"
    "\<lambda>w. fab_rmem (first_world w)" "\<lambda>w. fab_due (first_world w)" "\<lambda>w. fab_busy (first_world w)"
    "\<lambda>w. fab_posted (first_world w)" "\<lambda>w. fab_pend (first_world w)" "\<lambda>w. fab_delay (dev (first_world w))" mem_of
  for target NR cfg mem_of
proof -
  have F: "rc_fabric (session_net target (registry_answer NR cfg)) fab_qp 3 1 2 fab_lreg fab_rreg fab_slots
    (\<lambda>w. fab_up (first_world w)) (\<lambda>w. fab_rmem (first_world w)) (\<lambda>w. fab_due (first_world w)) (\<lambda>w. fab_busy (first_world w))
    (\<lambda>w. fab_posted (first_world w)) (\<lambda>w. fab_pend (first_world w)) (\<lambda>w. fab_delay (dev (first_world w)))"
    by (rule rc_fabric_first [OF fab_link.rc_fabric_axioms]) simp_all
  show "writer_process (session_net target (registry_answer NR cfg)) (\<lambda>_ _. True) target NR cfg
    (\<lambda>w. local_peer (second_world w)) fab_qp 3 1 2 fab_lreg fab_rreg fab_slots (\<lambda>w. fab_up (first_world w))
    (\<lambda>w. fab_rmem (first_world w)) (\<lambda>w. fab_due (first_world w)) (\<lambda>w. fab_busy (first_world w))
    (\<lambda>w. fab_posted (first_world w)) (\<lambda>w. fab_pend (first_world w)) (\<lambda>w. fab_delay (dev (first_world w))) mem_of"
    by (intro writer_process.intro F registry_link.intro rpc_link.intro writer_process_axioms.intro)
      (auto simp: local_send_def local_peer_def put_second_def second_world_def first_world_def)
qed

text \<open>A node whose buffer of 4096 bytes starts at 65536.\<close>

definition node_manager :: rdma_manager where
  "node_manager = rdma_manager_init IBV_QPT_RC 1 1 1
     \<lparr>res_buffer = Some 65536, res_pd = Some 1, res_mr = Some \<lparr>mr_lkey = 5, mr_rkey = 2\<rparr>, res_lid = 7,
      res_ib_ctx = Some 1\<rparr> 4096"

definition node_server :: rdma_server where
  "node_server = small_server\<lparr>srv_manager := ManagerRC node_manager\<rparr>"

lemma node_manager_ok: "mem_inv node_manager" "buffer_base node_manager = 65536"
  "internalAlloc 160 node_manager = (rdma_mem 160 False 0, snd (internalAlloc 160 node_manager))"
proof -
  have n: "m_rdmaMem node_manager = [rdma_mem 4096 True 0]" "m_usedRdmaMem node_manager = Map.empty"
    "m_memSize node_manager = 4096"
    by (simp_all add: node_manager_def rdma_manager_init_def)
  then show "mem_inv node_manager" by (intro mem_inv_init [of 4096]) simp_all
  show "buffer_base node_manager = 65536" by (simp add: buffer_base_def node_manager_def rdma_manager_init_def)
  show "internalAlloc 160 node_manager = (rdma_mem 160 False 0, snd (internalAlloc 160 node_manager))"
    using n by (simp add: internalAlloc_def)
qed

text \<open>A registry connected to that node, a process that registers, and one that appends.\<close>

definition session_registry_world :: "(rdma_server \<times> unit world) local_net world" where
  "session_registry_world = \<lparr>lmem = (\<lambda>_. 0), dev = \<lparr>ln_servers = (\<lambda>_. (node_server, blank_world)), ln_reply = None\<rparr>\<rparr>"

definition session_client_world :: "(registry \<times> (rdma_server \<times> unit world) local_net world) local_net world" where
  "session_client_world =
     \<lparr>lmem = (\<lambda>_. 0), dev = \<lparr>ln_servers = (\<lambda>_. (wired_registry, session_registry_world)), ln_reply = None\<rparr>\<rparr>"

definition session_buffer :: BufferHandle where
  "session_buffer = newBufferHandle ''b'' 1 4 1 16 BW"

definition appender_world ::
  "registry \<times> (rdma_server \<times> unit world) local_net world \<Rightarrow>
   (fab \<times> (registry \<times> (rdma_server \<times> unit world) local_net world) local_net) world" where
  "appender_world st = \<lparr>lmem = (\<lambda>a. word_of_nat a),
     dev = (\<lparr>fab_mem = lmem (snd (local_peer (snd st) 0)), fab_queue = [], fab_delay = 0\<rparr>,
            \<lparr>ln_servers = (\<lambda>_. st), ln_reply = None\<rparr>)\<rparr>"

lemma session_buffer_sel [simp]:
  "bh_name session_buffer = ''b''" "bh_node_id session_buffer = 1" "bh_entrySegments session_buffer = []"
  "bh_numberOfWriters session_buffer = 1" "bh_segmentSizes session_buffer = 16"
  "asq_segments_count (ring_request session_buffer) = 4"
  by (simp_all add: session_buffer_def newBufferHandle_def ring_request_def u32_def)

lemma session_start:
  "local_peer session_client_world 0 = (wired_registry, session_registry_world)"
  "local_peer session_registry_world 0 = (node_server, blank_world)" "srv_manager node_server = ManagerRC node_manager"
  "ring_request_ok (ring_request session_buffer)" "has_room 160 node_manager" "m_memSize node_manager = 4096"
  "ring_bytes (ring_request session_buffer) = 160"
  "mem_inv fab_manager" "has_room (24 + 10) fab_manager" "m_memSize fab_manager = 4096" "buffer_base fab_manager = 4096"
  "cl_manager fab_client = ManagerRC fab_manager"
proof -
  have n: "m_rdmaMem fab_manager = [rdma_mem 4096 True 0]" "m_usedRdmaMem fab_manager = Map.empty" "m_memSize fab_manager = 4096"
    by (simp_all add: fab_manager_def rdma_manager_init_def)
  then show "mem_inv fab_manager" by (intro mem_inv_init [of 4096]) simp_all
  show "has_room (24 + 10) fab_manager" "m_memSize fab_manager = 4096" using n by (simp_all add: has_room_def)
qed (simp_all add: local_peer_def session_client_world_def session_registry_world_def node_server_def ring_request_ok_def
    ring_bytes_def ring_front_def session_buffer_def newBufferHandle_def ring_request_def u32_def add64_def buffertype_code_def
    buffertype_of_def has_room_def node_manager_def rdma_manager_init_def fab_manager_def buffer_base_def fab_client_def)

lemma session_registered:
  "\<exists>w1. client_registerBuffer small_registry_net session_buffer small_client session_client_world = Inr (True, small_client, w1)"
proof -
  obtain ok offs s' wn' where O: "node_rings (ring_request session_buffer) (bh_numberOfWriters session_buffer)
      (local_peer session_registry_world 0) = (ok, offs, s', wn')"
    by (metis prod_cases4)
  have fresh: "reg_bufferHandles wired_registry (bh_name session_buffer) = None" by (simp add: small_cluster)
  have node: "reaches small_cfg (bh_node_id session_buffer) 1 (reg_client wired_registry)" using small_cluster(4) by simp
  have empty: "bh_entrySegments session_buffer = []" by simp
  from node_rings_outcome [OF session_start(3) node_manager_ok(1) session_start(4) O [unfolded session_start(2)]] have ok
    using session_start(5,7) by auto
  with register_over_links [OF local_registry.registry_link_axioms
      local_node.node_link_axioms [where V = "idle_verbs :: unit verbs" and ncfg = rc_config] small_cluster(1) TrueI
      session_start(1) fresh empty node TrueI O] show ?thesis by auto
qed

section \<open>Properties\<close>

text \<open>
  Claim C2. A whole session. Once a buffer has been registered over the network, an appender in another process that
  is constructed on the buffer's name joins it through the registry, sets itself up in its registered memory, and
  whatever chunks it then appends and closes over its reliable connection, as long as their sizes add up to no more than
  its ring holds, the node afterwards reads with \<open>BufferIterator\<close> as exactly their concatenation.
\<close>

theorem session_end_to_end:
  assumes "registry_link N0 connected0 target0 NR cfg peer0"
    and "node_link NR connectedR targetR V ncfg peerR"
    and "talks rcl g"
    and "connected0 g w0"
    and "peer0 w0 (target0 g) = (r, wr)"
    and "reg_bufferHandles r (bh_name bh) = None"
    and "bh_entrySegments bh = []"
    and "reaches cfg (bh_node_id bh) hn (reg_client r)"
    and "connectedR hn wr"
    and "peerR wr (targetR hn) = (sn, wn)"
    and "srv_manager sn = ManagerRC m"
    and "mem_inv m"
    and "ring_request_ok (ring_request bh)"
    and "client_registerBuffer N0 bh rcl w0 = Inr (True, rcl', w1)"
    and "0 < bh_numberOfWriters bh"
    and "bh_numberOfWriters bh < 2 ^ 64"
    and "writer_process N connected target NR cfg peer p cq lkey rkey lreg rreg slots up rmem due busy posted pend rank mem_of"
    and "talks rca ga"
    and "connected ga w"
    and "peer w (target ga) = peer0 w1 (target0 g)"
    and "up w"
    and "\<not> pend w"
    and "posted w \<le> cl_countWR c"
    and "rmem w = lmem (snd (peerR (snd (peer0 w1 (target0 g))) (targetR hn)))"
    and "client_on (cfg_RDMA_MAX_WR cfgA) (bh_node_id bh) p cq lkey rkey (buffer_base m) c"
    and "cl_manager c = ManagerRC mA"
    and "mem_inv mA"
    and "has_room (24 + isz) mA"
    and "0 < isz"
    and "isz < 2 ^ 32"
    and "cfg_RDMA_MAX_WR cfgA \<le> slots"
    and "{buffer_base mA..<buffer_base mA + m_memSize mA} \<subseteq> lreg"
    and "{buffer_base m..<buffer_base m + m_memSize m} \<subseteq> rreg"
    and "buffer_base m + m_memSize m < 2 ^ 64"
    and "0 < bh_segmentSizes bh"
    and "bh_segmentSizes bh + 24 < 2 ^ 64"
    and "sum_list (map snd chunks) \<le> asq_segments_count (ring_request bh) * bh_segmentSizes bh"
    and "\<forall>(d, n) \<in> set chunks. {d..<d + n} \<inter> lreg = {}"
  shows "\<exists>s w2 s1 w3 s2 w4 n parts b im.
    newBufferWriterBW N cfgA res0 no_client (bh_name bh) rca isz (Some c) w = Inr (s, rca, w2) \<and>
    bw_appends N cfgA chunks s w2 = Inr (True, s1, w3) \<and> bw_close N cfgA s1 w3 = Inr (True, s2, w4) \<and>
    (case getIterator (bw_handle s) (buffer_base m) (rmem w4) of (b0, im0) \<Rightarrow> drain n b0 im0) = Inr (parts, b, im) \<and>
    concat parts = stream_of (lmem w) chunks"
proof -
  let ?S = "bh_segmentSizes bh" and ?cnt = "asq_segments_count (ring_request bh)" and ?rb = "buffer_base m"
  have F: "rc_fabric N p cq lkey rkey lreg rreg slots up rmem due busy posted pend rank"
    using assms(17) by (simp add: writer_process_def)
  obtain r1 wr' offs wn' where c1: "peer0 w1 (target0 g) = (r1, wr')"
    "reg_bufferHandles r1 (bh_name bh) = Some (with_rings bh offs)" "joined (bh_name bh) r1 = 0"
    "snd (peerR wr' (targetR hn)) = wn'" "length offs = bh_numberOfWriters bh"
    "ring_made (ring_request bh) ?rb (lmem wn') (offs ! 0)"
    "offs ! 0 + ?cnt * asq_segments_size (ring_request bh) \<le> m_memSize m"
    by (rule registered_first_ring [OF assms(1-15)])
  let ?e = "offs ! 0"
  have "peer w (target ga) = (r1, wr')" using assms(20) c1(1) by simp
  from first_join [OF assms(17-19) this c1(2,3) assms(7) c1(5) assms(15,16)] obtain w' hdl where
    join: "joinBuffer N (bh_name bh) rca w = Inr (Some hdl, rca, w')"
    "bh_entrySegments hdl = [\<lparr>seg_offset = ?e, seg_size = ?S\<rparr>]" "bh_node_id hdl = bh_node_id bh"
    and w': "lmem w' = lmem w" "up w'" "\<not> pend w'" "posted w' \<le> cl_countWR c" "rmem w' = lmem wn'"
    using assms(21-24) c1(1,4) by auto
  have cnt: "0 < ?cnt" using assms(13) by (simp add: ring_request_ok_def)
  have sz: "asq_segments_size (ring_request bh) = ?S + 24" using assms(36) by (simp add: ring_request_def add64_small)
  have ring: "{?rb + ?e..<?rb + ?e + ?cnt * (?S + 24)} \<subseteq> rreg" "?rb + ?e + ?cnt * (?S + 24) < 2 ^ 64"
    using c1(7) assms(34) by (auto simp: sz intro!: subsetD [OF assms(33)])
  have on: "client_on (cfg_RDMA_MAX_WR cfgA) (bh_node_id hdl) p cq lkey rkey ?rb c" using assms(25) join(3) by simp
  from writer_constructed [OF F join(1,2) on assms(26-30,32) ring assms(31,35) cnt w'(2-4)] obtain s w2 h ptr where
    new: "newBufferWriterBW N cfgA res0 no_client (bh_name bh) rca isz (Some c) w = Inr (s, rca, w2)"
    and S: "ring_stream N p cq lkey rkey lreg rreg slots up rmem due busy posted pend rank cfgA ?rb ?e ?cnt ?S h ptr isz"
      "bw_fresh (cfg_RDMA_MAX_WR cfgA) p cq lkey rkey ?rb ?e ?S h ptr isz s"
      "up w2" "\<not> pend w2" "posted w2 \<le> cl_countWR (bw_client s)" "busy w2 = {}"
    and st: "bw_handle s = hdl" "rmem w2 = lmem wn'" "get_header (lmem w2) h = get_header (rmem w2) (?rb + ?e)"
      "\<forall>a. a \<notin> lreg \<longrightarrow> lmem w2 a = lmem w' a"
    using w'(5) by metis
  have fresh: "ring_fresh (rmem w2) ?rb ?e ?cnt (?S + 24)" using c1(6) sz by (simp add: st(2) ring_made_def)
  obtain s1 w3 s2 w4 k u where run: "bw_appends N cfgA chunks s w2 = Inr (True, s1, w3)"
    "bw_close N cfgA s1 w3 = Inr (True, s2, w4)" "ring_closed (rmem w4) ?rb ?e ?cnt ?S k u (stream_of (lmem w2) chunks)"
    using stream_written [OF S fresh cnt st(3) assms(37,38)] by blast
  have same: "stream_of (lmem w2) chunks = stream_of (lmem w) chunks"
    using st(4) w'(1) assms(38) by (intro stream_of_cong) fastforce
  have one: "bh_entrySegments (bw_handle s) = [\<lparr>seg_offset = ?e, seg_size = ?S\<rparr>]" using st(1) join(2) by simp
  have closed: "ring_closed (rmem w4) ?rb (seg_offset \<lparr>seg_offset = ?e, seg_size = ?S\<rparr>) ?cnt ?S k u (stream_of (lmem w) chunks)"
    using run(3) by (simp add: same)
  obtain parts b im where
    "(case getIterator (bw_handle s) ?rb (rmem w4) of (b0, im0) \<Rightarrow> drain (k + 2) b0 im0) = Inr (parts, b, im)"
    "concat parts = stream_of (lmem w) chunks"
    using drain_closed_ring [OF one closed] by (elim exE conjE)
  with new run(1,2) show ?thesis
    by (intro exI [of _ s] exI [of _ w2] exI [of _ s1] exI [of _ w3] exI [of _ s2] exI [of _ w4] exI [of _ "k + 2"]
        exI [of _ parts] exI [of _ b] exI [of _ im] conjI)
qed

theorem session_end_to_end_witness:
  "\<exists>w1 s w2 s1 w3 s2 w4 n parts b im.
    client_registerBuffer small_registry_net session_buffer small_client session_client_world = Inr (True, small_client, w1) \<and>
    newBufferWriterBW (session_net (\<lambda>_. 0) (registry_answer small_node_net small_cfg)) fab_config (m_res fab_manager) fab_client ''b'' small_client 10
      (Some fab_client) (appender_world (local_peer w1 0)) = Inr (s, small_client, w2) \<and>
    bw_appends (session_net (\<lambda>_. 0) (registry_answer small_node_net small_cfg)) fab_config [(10, 33), (200, 1)] s w2 = Inr (True, s1, w3) \<and>
    bw_close (session_net (\<lambda>_. 0) (registry_answer small_node_net small_cfg)) fab_config s1 w3 = Inr (True, s2, w4) \<and>
    (case getIterator (bw_handle s) 65536 (fab_rmem (first_world w4)) of (b0, im0) \<Rightarrow> drain n b0 im0) = Inr (parts, b, im) \<and>
    concat parts = map word_of_nat ([10..<43] @ [200])"
proof -
  obtain w1 where w1: "client_registerBuffer small_registry_net session_buffer small_client session_client_world =
      Inr (True, small_client, w1)"
    using session_registered by blast
  let ?w = "appender_world (local_peer w1 0)"
  have fresh: "reg_bufferHandles wired_registry (bh_name session_buffer) = None" by (simp add: small_cluster)
  have node: "reaches small_cfg (bh_node_id session_buffer) 1 (reg_client wired_registry)" using small_cluster(4) by simp
  have idle: "fab_up (first_world ?w)" "\<not> fab_pend (first_world ?w)" "fab_posted (first_world ?w) \<le> cl_countWR fab_client"
    "fab_rmem (first_world ?w) = lmem (snd (local_peer (snd (local_peer w1 0)) 0))"
    by (simp_all add: appender_world_def first_world_def fab_up_def fab_pend_def fab_posted_def fab_rmem_def fab_flush_def)
  have peer: "local_peer (second_world ?w) 0 = local_peer w1 0"
    by (simp add: appender_world_def second_world_def local_peer_def)
  have on: "client_on (cfg_RDMA_MAX_WR fab_config) (bh_node_id session_buffer) fab_qp 3 1 2 (buffer_base node_manager) fab_client"
    using fab_client_on node_manager_ok(2) by simp
  have read: "mem_read (lmem ?w) d n = map word_of_nat [d..<d + n]" for d n
    by (intro nth_equalityI) (auto simp: appender_world_def)
  have stream: "stream_of (lmem ?w) [(10, 33), (200, 1)] = map word_of_nat ([10..<43] @ [200])"
    using read [of 10 33] read [of 200 1] by (simp add: stream_of_def)
  have regs: "{buffer_base fab_manager..<buffer_base fab_manager + m_memSize fab_manager} \<subseteq> fab_lreg"
    "{buffer_base node_manager..<buffer_base node_manager + m_memSize node_manager} \<subseteq> fab_rreg"
    "buffer_base node_manager + m_memSize node_manager < 2 ^ 64"
    using node_manager_ok(2) session_start(6,10,11) by (simp_all add: fab_lreg_def fab_rreg_def)
  have chunks: "sum_list (map snd [(10, 33), (200, 1)]) \<le> asq_segments_count (ring_request session_buffer) * bh_segmentSizes session_buffer"
    "\<forall>(d, n) \<in> set [(10, 33), (200, 1)]. {d..<d + n} \<inter> fab_lreg = {}"
    by (auto simp: fab_lreg_def)
  show ?thesis
    using w1 session_end_to_end [OF local_registry.registry_link_axioms local_node.node_link_axioms small_cluster(1) TrueI
        session_start(1) fresh _ node TrueI session_start(2,3) node_manager_ok(1) session_start(4) w1 _ _
        session.writer_process_axioms small_cluster(1) TrueI peer idle on session_start(12,8,9) _ _ _ regs _ _ chunks]
    unfolding stream node_manager_ok(2) by (simp add: fab_slots_def del: upt_Suc)
qed

end
