(* ===== verification/Lat_Writer.thy ===== *)
theory Lat_Writer
  imports Stream_Writer
begin

text \<open>
  \<open>BufferWriterLat\<close>: where its messages go, what arrives in the ring, and what its copy into the internal buffer
  does to the memory behind it.
\<close>

section \<open>Positions\<close>

text \<open>The writer is about to fill segment \<open>k\<close> of its ring.\<close>

definition la_at :: "nat \<Rightarrow> nat \<Rightarrow> nat \<Rightarrow> nat \<Rightarrow> writer_lat \<Rightarrow> bool" where
  "la_at e cnt S k s \<longleftrightarrow> k < cnt \<and>
     map seg_offset (bh_entrySegments (la_handle s)) = [e] \<and> bh_segmentsPerWriter (la_handle s) = cnt \<and>
     bh_segmentSizes (la_handle s) = S \<and> la_segmentIndex s = k \<and> la_currentSegmentOffset s = seg_at e (S + 24) k"

text \<open>What the transfers leave alone.\<close>

definition la_frame :: "writer_lat \<Rightarrow> writer_lat \<Rightarrow> bool" where
  "la_frame s t \<longleftrightarrow> la_handle t = la_handle s \<and> la_segmentIndex t = la_segmentIndex s \<and>
     la_currentSegmentOffset t = la_currentSegmentOffset s \<and> la_nextSegmentOffset t = la_nextSegmentOffset s \<and>
     la_lastSegmentOffset t = la_lastSegmentOffset s"

fun la_appends ::
  "('d, 'v) verbs_scheme \<Rightarrow> 'c rdma_config_scheme \<Rightarrow> (nat \<times> nat \<times> bool) list \<Rightarrow> writer_lat \<Rightarrow> 'd world \<Rightarrow>
   (bool \<times> writer_lat \<times> 'd world) result" where
  "la_appends V cfg [] s w = Inr (True, s, w)"
| "la_appends V cfg ((d, n, sig) # msgs) s w =
     bindR (la_append V cfg d n sig s w) (\<lambda>(ok, s, w). if ok then la_appends V cfg msgs s w else Inr (False, s, w))"

lemma la_frame_refl [simp]: "la_frame s s"
  by (simp add: la_frame_def)

lemma la_read_frame: "okR (\<lambda>(ok, t, w). la_frame s t) (la_read V cfg off p n s w)"
  by (cases p) (auto simp: la_read_def la_frame_def intro!: okR_bind)

lemma la_refill_frame: "okR (\<lambda>(t, w). la_frame s t) (la_refill V cfg s w)"
proof -
  have step: "okR (\<lambda>(t, w). la_frame s t) (bindR (la_readCounterFromRemote V cfg t w) (\<lambda>(_, t, w). Inr (t, w)))"
    if "la_frame s t" for t w
    unfolding la_readCounterFromRemote_def bindR_assoc
  proof (intro okR_bind)
    fix seg x assume "la_read V cfg (sub64 (seg_offset seg) 8) (la_consumedCnt t) 8 t w = Inr x"
    with la_read_frame [of t V cfg "sub64 (seg_offset seg) 8" "la_consumedCnt t" 8 w] that
    show "okR (\<lambda>(t, w). la_frame s t) (case x of (_, t, w) \<Rightarrow> Inr (t, w))"
      by (cases x) (auto simp: la_frame_def)
  qed
  show ?thesis
  proof (cases "la_writeableFreeSegments s \<noteq> 0 \<or> la_consumedCnt s = None")
    case True
    then show ?thesis by (auto simp: la_refill_def)
  next
    case False
    then obtain p where p: "la_consumedCnt s = Some p" "la_writeableFreeSegments s = 0" by auto
    let ?loop = "loopR (\<lambda>(t, u). load64 (lmem w) p = load64 (lmem u) p)
        (\<lambda>(t, u). bindR (la_readCounterFromRemote V cfg t u) (\<lambda>(_, t, u). Inr (t, u))) (s, w)"
    have "okR (\<lambda>(t, w). la_frame s t) ?loop"
    proof (rule okR_loop)
      fix x :: "writer_lat \<times> 'a world"
      assume "case x of (t, w) \<Rightarrow> la_frame s t"
      then show "okR (\<lambda>(t, w). la_frame s t)
          (case x of (t, u) \<Rightarrow> bindR (la_readCounterFromRemote V cfg t u) (\<lambda>(_, t, u). Inr (t, u)))"
        by (cases x) (simp only: prod.case step)
    qed simp
    then show ?thesis
      unfolding la_refill_def p Let_def
      by (cases ?loop) (auto simp: p la_frame_def split: prod.splits)
  qed
qed

lemma la_write_frame: "okR (\<lambda>(ok, t, w). la_frame s t) (la_writeToSegment V cfg n d sig s w)"
  unfolding la_writeToSegment_def
  by (auto simp: Let_def la_frame_def intro!: okR_bind split: option.splits)

text \<open>Advancing from segment \<open>k\<close>.\<close>

lemma la_advance_at:
  assumes "la_at e cnt S k s" "e + cnt * (S + 24) < 2 ^ 64"
  shows "la_advance s = Inr (s\<lparr>la_nextSegmentOffset := seg_at e (S + 24) (Suc k mod cnt), la_segmentIndex := Suc k mod cnt\<rparr>)"
proof -
  have k: "k < cnt" "k * (S + 24) + (S + 24) \<le> cnt * (S + 24)"
    using assms(1) mult_le_mono1 [of "Suc k" cnt "S + 24"] by (simp_all add: la_at_def)
  have cnt: "cnt \<le> cnt * (S + 24)" by simp
  then have "cnt < 2 ^ 64" using assms(2) by linarith
  then have last: "sub64 cnt 1 = cnt - 1" using k(1) by (simp add: sub64_small)
  show ?thesis
  proof (cases "Suc k = cnt")
    case True
    then show ?thesis
      using assms(1) last by (auto simp: la_advance_def la_at_def seg_at_def index_op_def)
  next
    case False
    then have "Suc k < cnt" using k(1) by simp
    moreover have "add64 (add64 (seg_at e (S + 24) k) S) 24 = seg_at e (S + 24) (Suc k)" "add64 k 1 = Suc k"
      using k assms(2) \<open>cnt < 2 ^ 64\<close> by (simp_all add: add64_small seg_at_def)
    ultimately show ?thesis using assms(1) last by (simp add: la_advance_def la_at_def)
  qed
qed

lemma la_append_at:
  assumes "la_at e cnt S k s" "e + cnt * (S + 24) < 2 ^ 64" "la_append V cfg d n sig s w = Inr (True, s', w')"
  shows "la_at e cnt S (Suc k mod cnt) s' \<and> la_lastSegmentOffset s' = seg_at e (S + 24) k"
proof -
  from assms(3) obtain s1 w1 where 1: "la_refill V cfg s w = Inr (s1, w1)"
    and rest: "bindR (la_advance s1) (\<lambda>s. bindR (la_writeToSegment V cfg n d (la_writeableFreeSegments s = 1 \<or> sig) s w1) (\<lambda>(ok, s, w).
       if \<not> ok then Inr (False, s, w)
       else Inr (True, s\<lparr>la_writeableFreeSegments := sub64 (la_writeableFreeSegments s) 1,
          la_lastSegmentOffset := la_currentSegmentOffset s, la_currentSegmentOffset := la_nextSegmentOffset s\<rparr>, w))) = Inr (True, s', w')"
    by (auto simp: la_append_def bindR_eq_Inr)
  have "la_frame s s1" using okRD [OF la_refill_frame 1] by simp
  then have at1: "la_at e cnt S k s1" using assms(1) by (simp add: la_at_def la_frame_def)
  let ?s2 = "s1\<lparr>la_nextSegmentOffset := seg_at e (S + 24) (Suc k mod cnt), la_segmentIndex := Suc k mod cnt\<rparr>"
  from rest la_advance_at [OF at1 assms(2)] obtain s3 w3 where
    3: "la_writeToSegment V cfg n d (la_writeableFreeSegments ?s2 = 1 \<or> sig) ?s2 w1 = Inr (True, s3, w3)"
    "s' = s3\<lparr>la_writeableFreeSegments := sub64 (la_writeableFreeSegments s3) 1,
          la_lastSegmentOffset := la_currentSegmentOffset s3, la_currentSegmentOffset := la_nextSegmentOffset s3\<rparr>"
    by (auto simp: bindR_eq_Inr split: if_splits)
  have "la_frame ?s2 s3" using okRD [OF la_write_frame 3(1)] by simp
  then show ?thesis using at1 3(2) by (auto simp: la_at_def la_frame_def)
qed

lemma la_appends_at:
  assumes "la_at e cnt S k s" "e + cnt * (S + 24) < 2 ^ 64" "la_appends V cfg msgs s w = Inr (True, s', w')" "msgs \<noteq> []"
  shows "la_at e cnt S ((k + length msgs) mod cnt) s' \<and>
    la_lastSegmentOffset s' = seg_at e (S + 24) ((k + length msgs - 1) mod cnt)"
  using assms(1,3,4)
proof (induction msgs arbitrary: k s w)
  case (Cons m msgs)
  obtain d n sig where m: "m = (d, n, sig)" by (cases m) auto
  from Cons.prems(2) obtain s1 w1 where 1: "la_append V cfg d n sig s w = Inr (True, s1, w1)"
    "la_appends V cfg msgs s1 w1 = Inr (True, s', w')"
    by (auto simp: m bindR_eq_Inr split: if_splits)
  note at1 = la_append_at [OF Cons.prems(1) assms(2) 1(1)]
  have k: "k mod cnt = k" using Cons.prems(1) by (simp add: la_at_def)
  show ?case
  proof (cases "msgs = []")
    case True
    then show ?thesis using at1 1(2) k by simp
  next
    case False
    have "(Suc k mod cnt + length msgs) mod cnt = (k + length (m # msgs)) mod cnt" by (simp add: mod_simps)
    moreover have "(Suc k mod cnt + length msgs - 1) mod cnt = (k + length (m # msgs) - 1) mod cnt"
    proof -
      obtain j where "length msgs = Suc j" using False by (cases msgs) auto
      then show ?thesis by (simp add: mod_simps)
    qed
    ultimately show ?thesis using Cons.IH [OF conjunct1 [OF at1] 1(2) False] by simp
  qed
qed simp

section \<open>Messages on a reliable connection\<close>

text \<open>
  A segment with a message in it: the header counts its bytes, is marked consumable (and still writeable, which
  the consumer relies on) and links to the next segment.
\<close>

definition la_message :: "mem \<Rightarrow> nat \<Rightarrow> byte list \<Rightarrow> nat \<Rightarrow> bool" where
  "la_message m a xs nxt \<longleftrightarrow>
     counter (get_header m a) = length xs \<and> isConsumable (get_header m a) \<and> isWriteable (get_header m a) \<and>
     \<not> isEndSegment (get_header m a) \<and> nextSegmentOffset (get_header m a) = nxt \<and> mem_read m (a + 24) (length xs) = xs"

definition la_set_up ::
  "nat \<Rightarrow> ibv_qp \<Rightarrow> nat \<Rightarrow> nat \<Rightarrow> nat \<Rightarrow> nat \<Rightarrow> nat \<Rightarrow> nat \<Rightarrow> nat \<Rightarrow> nat \<Rightarrow> writer_lat \<Rightarrow> bool" where
  "la_set_up limit p cq lkey rkey rb h ptr cap off s \<longleftrightarrow>
     client_on limit (bh_node_id (la_handle s)) p cq lkey rkey rb (la_client s) \<and> la_segmentHeader s = Some h \<and>
     la_internalBuffer s = Some \<lparr>ib_bufferPtr = ptr, ib_size = cap, ib_offset = off\<rparr> \<and> off \<le> cap"

lemma la_message_written:
  assumes "header_ok hdr" "counter hdr = length xs" "isConsumable hdr" "isWriteable hdr" "\<not> isEndSegment hdr"
  shows "la_message (mem_write m a (header_bytes hdr @ xs)) a xs (nextSegmentOffset hdr)"
proof -
  let ?m = "mem_write m a (header_bytes hdr @ xs)"
  have "mem_read ?m a (24 + length xs) = header_bytes hdr @ xs"
    by simp
  then have "mem_read ?m a 24 @ mem_read ?m (a + 24) (length xs) = header_bytes hdr @ xs"
    by (simp only: mem_read_append)
  then have "mem_read ?m a 24 = header_bytes hdr" "mem_read ?m (a + 24) (length xs) = xs" by simp_all
  with get_header_of_bytes [OF this(1) assms(1)] assms show ?thesis by (simp add: la_message_def)
qed

lemma la_message_cong:
  assumes "la_message m a xs nxt" "\<And>b. b \<in> {a..<a + (S + 24)} \<Longrightarrow> m' b = m b" "length xs \<le> S"
  shows "la_message m' a xs nxt"
proof -
  have "get_header m' a = get_header m a" using assms(2) by (intro get_header_cong) auto
  moreover have "mem_read m' (a + 24) (length xs) = mem_read m (a + 24) (length xs)"
    using assms(2,3) by (intro mem_read_cong) auto
  ultimately show ?thesis using assms(1) by (simp add: la_message_def)
qed

text \<open>Where the \<open>i\<close>-th segment counted round the ring lies.\<close>

definition ring_at :: "nat \<Rightarrow> nat \<Rightarrow> nat \<Rightarrow> nat \<Rightarrow> nat \<Rightarrow> nat" where
  "ring_at rb e cnt S i = rb + seg_at e (S + 24) (i mod cnt)"

lemma ring_neighbour: "Suc i < cnt \<Longrightarrow> (k + Suc i) mod cnt \<noteq> (k :: nat) mod cnt"
  using mod_eq_dvd_iff_nat [of k "k + Suc i" cnt] by (auto dest: dvd_imp_le)

text \<open>Local memory after \<open>writeToSegment\<close> has stored the header and copied header and message.\<close>

definition la_staged :: "nat \<Rightarrow> nat \<Rightarrow> nat \<Rightarrow> nat \<Rightarrow> nat \<Rightarrow> DPI_SEGMENT_HEADER_t \<Rightarrow> mem \<Rightarrow> mem" where
  "la_staged h ptr off d n hdr m =
     memcpy (ptr + off + 24) d (n + 24) (memcpy (ptr + off) h 24 (put_header m h hdr))"

text \<open>Where the writer keeps its copy of the consumer's counter, and that both can be read and written.\<close>

definition la_counter ::
  "nat set \<Rightarrow> nat set \<Rightarrow> nat \<Rightarrow> nat \<Rightarrow> nat \<Rightarrow> nat \<Rightarrow> nat \<Rightarrow> nat \<Rightarrow> writer_lat \<Rightarrow> bool" where
  "la_counter lreg rreg rb e h ptr cap cp s \<longleftrightarrow> la_consumedCnt s = Some cp \<and> {cp..<cp + 8} \<subseteq> lreg \<and>
     (cp + 8 \<le> h \<or> h + 24 \<le> cp) \<and> (cp + 8 \<le> ptr \<or> ptr + cap \<le> cp) \<and> 8 \<le> e \<and> {rb + (e - 8)..<rb + e} \<subseteq> rreg"

context ring_stream
begin

definition la_conn :: "nat \<Rightarrow> writer_lat \<Rightarrow> 'd world \<Rightarrow> bool" where
  "la_conn off s w \<longleftrightarrow> la_set_up (cfg_RDMA_MAX_WR cfg) p cq lkey rkey rb h ptr cap off s \<and> ready (la_client s) w \<and>
     busy w \<subseteq> {ptr..<ptr + off}"

text \<open>
  The local memory when the message is handed to the adapter: the header, its copy and the message's copy, which
  takes 24 bytes too many.
\<close>

lemma la_staged_outside:
  assumes "a \<notin> {h..<h + 24}" "a \<notin> {ptr + off..<ptr + off + n + 48}"
  shows "la_staged h ptr off d n hdr m a = m a"
  using assms by (auto simp: la_staged_def memcpy_def mem_write_outside put_header_outside)

lemma la_staged_header:
  assumes "header_ok hdr" "h + 24 \<le> ptr \<or> ptr + off + n + 48 \<le> h"
  shows "get_header (la_staged h ptr off d n hdr m) h = hdr"
proof -
  have "get_header (la_staged h ptr off d n hdr m) h = get_header (put_header m h hdr) h"
    using assms(2) by (auto simp: la_staged_def memcpy_def get_header_write_disjoint)
  then show ?thesis using assms(1) by simp
qed

lemma la_staged_message:
  assumes "{d..<d + n} \<inter> lreg = {}" "off + 24 \<le> cap"
  shows "mem_read (la_staged h ptr off d n hdr m) (ptr + off) (n + 24) = header_bytes hdr @ mem_read m d n"
proof -
  let ?m1 = "put_header m h hdr"
  let ?m2 = "memcpy (ptr + off) h 24 ?m1"
  let ?m3 = "memcpy (ptr + off + 24) d (n + 24) ?m2"
  have src: "mem_read ?m2 d n = mem_read m d n"
  proof (rule mem_read_cong)
    fix a assume "d \<le> a" "a < d + n"
    then have "a \<notin> lreg" using assms(1) by auto
    then have "a \<notin> {h..<h + 24}" "a \<notin> {ptr..<ptr + cap}" using hdr_mem buf_mem by auto
    then show "?m2 a = m a" using assms(2) by (auto simp: memcpy_def mem_write_outside put_header_outside)
  qed
  have "mem_read ?m3 (ptr + off) 24 = mem_read ?m2 (ptr + off) 24"
    by (simp add: memcpy_def mem_read_write_disjoint)
  then have head: "mem_read ?m3 (ptr + off) 24 = header_bytes hdr"
    by (simp add: memcpy_def put_header_def)
  have "mem_read ?m3 (ptr + off + 24) (n + 24) = mem_read ?m2 d (n + 24)"
    by (simp add: memcpy_def)
  then have "mem_read ?m3 (ptr + off + 24) n @ mem_read ?m3 (ptr + off + 24 + n) 24 = mem_read ?m2 d n @ mem_read ?m2 (d + n) 24"
    by (simp only: mem_read_append)
  then have tail: "mem_read ?m3 (ptr + off + 24) n = mem_read m d n" using src by simp
  have "mem_read ?m3 (ptr + off) (24 + n) = header_bytes hdr @ mem_read m d n"
    by (simp only: mem_read_append head tail)
  then show ?thesis by (simp add: la_staged_def add.commute)
qed

lemma la_staged_overrun:
  assumes "{d..<d + (n + 24)} \<inter> lreg = {}" "off + 24 \<le> cap"
  shows "mem_read (la_staged h ptr off d n hdr m) (ptr + off + n + 24) 24 = mem_read m (d + n) 24"
proof -
  let ?m2 = "memcpy (ptr + off) h 24 (put_header m h hdr)"
  let ?m3 = "memcpy (ptr + off + 24) d (n + 24) ?m2"
  have "mem_read ?m3 (ptr + off + 24) (n + 24) = mem_read ?m2 d (n + 24)"
    by (simp add: memcpy_def)
  then have "mem_read ?m3 (ptr + off + 24) n @ mem_read ?m3 (ptr + off + 24 + n) 24 = mem_read ?m2 d n @ mem_read ?m2 (d + n) 24"
    by (simp only: mem_read_append)
  then have "mem_read ?m3 (ptr + off + 24 + n) 24 = mem_read ?m2 (d + n) 24" by simp
  also have "\<dots> = mem_read m (d + n) 24"
  proof (rule mem_read_cong)
    fix a assume "d + n \<le> a" "a < d + n + 24"
    then have "a \<in> {d..<d + (n + 24)}" by simp
    then have "a \<notin> lreg" using assms(1) by blast
    then have "a \<notin> {h..<h + 24}" "a \<notin> {ptr..<ptr + cap}" using hdr_mem buf_mem by auto
    then show "?m2 a = m a" using assms(2) by (auto simp: memcpy_def mem_write_outside put_header_outside)
  qed
  finally show ?thesis by (simp add: la_staged_def ac_simps)
qed

text \<open>Handing one message over, when it fits the internal buffer.\<close>

lemma la_write_run:
  assumes "la_conn off s w" "off + n + 24 \<le> cap" "k < cnt" "n \<le> S" "la_currentSegmentOffset s = seg_at e (S + 24) k"
    and "{d..<d + n} \<inter> lreg = {}" "la_nextSegmentOffset s < 2 ^ 64"
    and "hdr = (setConsumable True ((get_header (lmem w) h)\<lparr>counter := n\<rparr>))\<lparr>nextSegmentOffset := la_nextSegmentOffset s\<rparr>"
  shows "\<exists>c w'. la_writeToSegment V cfg n d sig s w =
      Inr (True, s\<lparr>la_internalBuffer := Some \<lparr>ib_bufferPtr = ptr, ib_size = cap, ib_offset = off + n + 24\<rparr>, la_client := c\<rparr>, w') \<and>
    la_conn (off + n + 24) (s\<lparr>la_internalBuffer := Some \<lparr>ib_bufferPtr = ptr, ib_size = cap, ib_offset = off + n + 24\<rparr>, la_client := c\<rparr>) w' \<and>
    rmem w' = mem_write (rmem w) (rb + seg_at e (S + 24) k) (header_bytes hdr @ mem_read (lmem w) d n) \<and>
    lmem w' = la_staged h ptr off d n hdr (lmem w) \<and> (sig \<longrightarrow> busy w' = {})"
proof -
  let ?m3 = "la_staged h ptr off d n hdr (lmem w)"
  have s: "client_on (cfg_RDMA_MAX_WR cfg) (bh_node_id (la_handle s)) p cq lkey rkey rb (la_client s)"
    "la_segmentHeader s = Some h" "la_internalBuffer s = Some \<lparr>ib_bufferPtr = ptr, ib_size = cap, ib_offset = off\<rparr>"
    "ready (la_client s) w" "busy w \<subseteq> {ptr..<ptr + off}"
    using assms(1) by (auto simp: la_conn_def la_set_up_def)
  have "\<forall>a \<in> busy w. ?m3 a = lmem w a"
  proof
    fix a assume "a \<in> busy w"
    then have "a \<in> {ptr..<ptr + off}" using s(5) by blast
    then show "?m3 a = lmem w a" using hdr_buf assms(2) by (intro la_staged_outside) auto
  qed
  note st = store [OF _ _ this]
  let ?w = "w\<lparr>lmem := ?m3\<rparr>"
  have w3: "ready (la_client s) ?w" "rmem ?w = rmem w" "busy ?w = busy w"
    using st s(4) by (auto simp: ready_def)
  have body: "mem_read ?m3 (ptr + off) (n + 24) = header_bytes hdr @ mem_read (lmem w) d n"
    using assms(2,6) by (intro la_staged_message) simp_all
  have sz: "add64 n 24 = n + 24" "add64 (n + 24) off = n + 24 + off" "add64 off (n + 24) = off + n + 24" "n + 24 < 2 ^ 32"
    using assms(2) cap_ok(2) by (simp_all add: add64_small)
  have reg: "{ptr + off..<ptr + off + (n + 24)} \<subseteq> lreg" "{rb + seg_at e (S + 24) k..<rb + seg_at e (S + 24) k + (n + 24)} \<subseteq> rreg"
    "rb + seg_at e (S + 24) k < 2 ^ 64"
  proof -
    have "{ptr + off..<ptr + off + (n + 24)} \<subseteq> {ptr..<ptr + cap}" using assms(2) by auto
    then show "{ptr + off..<ptr + off + (n + 24)} \<subseteq> lreg" using buf_mem by blast
    show "{rb + seg_at e (S + 24) k..<rb + seg_at e (S + 24) k + (n + 24)} \<subseteq> rreg"
      using seg_region(2) [OF assms(3), of 0 "n + 24"] assms(4) by simp
    show "rb + seg_at e (S + 24) k < 2 ^ 64" using seg_fits [OF assms(3), of 0] by simp
  qed
  obtain q w' where w': "writeRC V cfg (bh_node_id (la_handle s)) (seg_at e (S + 24) k) (ptr + off) (n + 24) sig (la_client s) ?w =
      Inr (True, (la_client s)\<lparr>cl_countWR := q\<rparr>, w')" "q < cfg_RDMA_MAX_WR cfg"
    "ready ((la_client s)\<lparr>cl_countWR := q\<rparr>) w'" "lmem w' = lmem ?w"
    "rmem w' = mem_write (rmem ?w) (rb + seg_at e (S + 24) k) (mem_read (lmem ?w) (ptr + off) (n + 24))"
    "busy w' \<subseteq> busy ?w \<union> {ptr + off..<ptr + off + (n + 24)}" "sig \<longrightarrow> busy w' = {}"
    using writeRC_ok [OF s(1) w3(1) wr_limit sz(4) reg(3,1,2), of sig] by blast
  have "busy w' \<subseteq> {ptr..<ptr + off} \<union> {ptr + off..<ptr + off + (n + 24)}" using w'(6) w3(3) s(5) by blast
  also have "\<dots> \<subseteq> {ptr..<ptr + (off + n + 24)}" by auto
  finally have bw: "busy w' \<subseteq> {ptr..<ptr + (off + n + 24)}" .
  have "la_writeToSegment V cfg n d sig s w =
      Inr (True, s\<lparr>la_internalBuffer := Some \<lparr>ib_bufferPtr = ptr, ib_size = cap, ib_offset = off + n + 24\<rparr>,
        la_client := (la_client s)\<lparr>cl_countWR := q\<rparr>\<rparr>, w')"
    using w'(1) s(2,3) assms(2,5,8) sz by (simp add: la_writeToSegment_def la_staged_def Let_def)
  moreover have "la_conn (off + n + 24) (s\<lparr>la_internalBuffer := Some \<lparr>ib_bufferPtr = ptr, ib_size = cap, ib_offset = off + n + 24\<rparr>,
        la_client := (la_client s)\<lparr>cl_countWR := q\<rparr>\<rparr>) w'"
    using w'(2,3) bw s(1,2) assms(2) by (simp add: la_conn_def la_set_up_def client_on_def)
  moreover have "rmem w' = mem_write (rmem w) (rb + seg_at e (S + 24) k) (header_bytes hdr @ mem_read (lmem w) d n)"
    using w'(5) w3(2) body by simp
  ultimately show ?thesis using w'(4,7) by auto
qed

text \<open>One message, with room left in the internal buffer for it and for the 24 bytes the copy overruns.\<close>

lemma la_write_ok:
  assumes "la_conn off s w" "off + n + 48 \<le> cap" "k < cnt" "n \<le> S" "la_currentSegmentOffset s = seg_at e (S + 24) k"
    and "{d..<d + n} \<inter> lreg = {}" "la_nextSegmentOffset s < 2 ^ 64"
    and "hdr = (setConsumable True ((get_header (lmem w) h)\<lparr>counter := n\<rparr>))\<lparr>nextSegmentOffset := la_nextSegmentOffset s\<rparr>"
  shows "\<exists>c w'. la_writeToSegment V cfg n d sig s w =
      Inr (True, s\<lparr>la_internalBuffer := Some \<lparr>ib_bufferPtr = ptr, ib_size = cap, ib_offset = off + n + 24\<rparr>, la_client := c\<rparr>, w') \<and>
    la_conn (off + n + 24) (s\<lparr>la_internalBuffer := Some \<lparr>ib_bufferPtr = ptr, ib_size = cap, ib_offset = off + n + 24\<rparr>, la_client := c\<rparr>) w' \<and>
    rmem w' = mem_write (rmem w) (rb + seg_at e (S + 24) k) (header_bytes hdr @ mem_read (lmem w) d n) \<and>
    get_header (lmem w') h = hdr \<and> (\<forall>a. a \<notin> {h..<h + 24} \<and> a \<notin> {ptr..<ptr + cap} \<longrightarrow> lmem w' a = lmem w a)"
proof -
  let ?m3 = "la_staged h ptr off d n hdr (lmem w)"
  have "header_ok hdr" using assms(2,7,8) cap_ok(2) header_ok_get [of "lmem w" h] by (simp add: header_ok_def)
  then have hdr3: "get_header ?m3 h = hdr" using hdr_buf assms(2) by (intro la_staged_header) auto
  have outside: "?m3 a = lmem w a" if "a \<notin> {h..<h + 24}" "a \<notin> {ptr..<ptr + cap}" for a
    using that assms(2) by (intro la_staged_outside) auto
  have "off + n + 24 \<le> cap" using assms(2) by simp
  from la_write_run [OF assms(1) this assms(3-8), of sig] hdr3 outside show ?thesis by auto
qed

text \<open>A whole append, after the writer has waited for a free segment if it had none.\<close>

lemma la_append_run:
  assumes "la_refill V cfg s w = Inr (s1, w1)" "la_conn off s1 w1" "la_at e cnt S k s1"
    and "off + n + 48 \<le> cap" "n \<le> S" "{d..<d + n} \<inter> lreg = {}"
    and "hdr = (setConsumable True ((get_header (lmem w1) h)\<lparr>counter := n\<rparr>))\<lparr>nextSegmentOffset := seg_at e (S + 24) (Suc k mod cnt)\<rparr>"
  shows "\<exists>s' w'. la_append V cfg d n sig s w = Inr (True, s', w') \<and> la_conn (off + n + 24) s' w' \<and>
    la_at e cnt S (Suc k mod cnt) s' \<and> la_writeableFreeSegments s' = sub64 (la_writeableFreeSegments s1) 1 \<and>
    la_consumedCnt s' = la_consumedCnt s1 \<and> header_ok hdr \<and>
    rmem w' = mem_write (rmem w1) (rb + seg_at e (S + 24) k) (header_bytes hdr @ mem_read (lmem w1) d n) \<and>
    get_header (lmem w') h = hdr \<and> (\<forall>a. a \<notin> {h..<h + 24} \<and> a \<notin> {ptr..<ptr + cap} \<longrightarrow> lmem w' a = lmem w1 a)"
proof -
  let ?nxt = "seg_at e (S + 24) (Suc k mod cnt)"
  let ?s = "s1\<lparr>la_nextSegmentOffset := ?nxt, la_segmentIndex := Suc k mod cnt\<rparr>"
  have k: "k < cnt" "la_currentSegmentOffset s1 = seg_at e (S + 24) k" using assms(3) by (simp_all add: la_at_def)
  have adv: "la_advance s1 = Inr ?s" using ring_fits by (intro la_advance_at [OF assms(3)]) simp
  have nxt: "?nxt < 2 ^ 64" using seg_fits [of "Suc k mod cnt" 0] k(1) by simp
  have cur: "la_currentSegmentOffset ?s = seg_at e (S + 24) k" and nxt': "la_nextSegmentOffset ?s < 2 ^ 64" using k(2) nxt by simp_all
  have conn: "la_conn off ?s w1" using assms(2) by (simp add: la_conn_def la_set_up_def)
  obtain c w' where w': "la_writeToSegment V cfg n d (la_writeableFreeSegments s1 = 1 \<or> sig) ?s w1 =
      Inr (True, ?s\<lparr>la_internalBuffer := Some \<lparr>ib_bufferPtr = ptr, ib_size = cap, ib_offset = off + n + 24\<rparr>, la_client := c\<rparr>, w')"
    "la_conn (off + n + 24) (?s\<lparr>la_internalBuffer := Some \<lparr>ib_bufferPtr = ptr, ib_size = cap, ib_offset = off + n + 24\<rparr>, la_client := c\<rparr>) w'"
    "rmem w' = mem_write (rmem w1) (rb + seg_at e (S + 24) k) (header_bytes hdr @ mem_read (lmem w1) d n)"
    "get_header (lmem w') h = hdr" "\<forall>a. a \<notin> {h..<h + 24} \<and> a \<notin> {ptr..<ptr + cap} \<longrightarrow> lmem w' a = lmem w1 a"
    using la_write_ok [where hdr = hdr and sig = "la_writeableFreeSegments s1 = 1 \<or> sig", OF conn assms(4) k(1) assms(5) cur assms(6) nxt']
      assms(7) by auto
  have run: "la_append V cfg d n sig s w = Inr (True, s1\<lparr>la_nextSegmentOffset := ?nxt, la_segmentIndex := Suc k mod cnt,
      la_internalBuffer := Some \<lparr>ib_bufferPtr = ptr, ib_size = cap, ib_offset = off + n + 24\<rparr>, la_client := c,
      la_writeableFreeSegments := sub64 (la_writeableFreeSegments s1) 1, la_lastSegmentOffset := seg_at e (S + 24) k,
      la_currentSegmentOffset := ?nxt\<rparr>, w')" (is "_ = Inr (True, ?t, w')")
    using assms(1) adv w'(1) k(2) by (simp add: la_append_def)
  have "la_conn (off + n + 24) ?t w'" using w'(2) by (simp add: la_conn_def la_set_up_def)
  moreover have "la_at e cnt S (Suc k mod cnt) ?t" using assms(3) by (simp add: la_at_def)
  moreover have "header_ok hdr" using nxt assms(4,7) cap_ok(2) header_ok_get [of "lmem w1" h] by (simp add: header_ok_def)
  ultimately show ?thesis
    using run w'(3-5) by (intro exI [of _ ?t] exI [of _ w']) simp
qed

text \<open>One reading of the consumer's counter.\<close>

lemma la_counter_read:
  assumes "la_conn off s w" "la_at e cnt S k s" "la_counter lreg rreg rb e h ptr cap cp s"
  shows "\<exists>c w'. la_readCounterFromRemote V cfg s w = Inr (True, s\<lparr>la_client := c\<rparr>, w') \<and>
    la_conn off (s\<lparr>la_client := c\<rparr>) w' \<and> rmem w' = rmem w \<and> busy w' = {} \<and>
    load64 (lmem w') cp = load64 (rmem w) (rb + (e - 8)) \<and> (\<forall>a. a \<notin> {cp..<cp + 8} \<longrightarrow> lmem w' a = lmem w a)"
proof -
  have c: "client_on (cfg_RDMA_MAX_WR cfg) (bh_node_id (la_handle s)) p cq lkey rkey rb (la_client s)" "ready (la_client s) w"
    using assms(1) by (auto simp: la_conn_def la_set_up_def)
  have cp: "la_consumedCnt s = Some cp" "{cp..<cp + 8} \<subseteq> lreg" "8 \<le> e" "{rb + (e - 8)..<rb + e} \<subseteq> rreg"
    using assms(3) unfolding la_counter_def by blast+
  have "rb + e < 2 ^ 64" using ring_fits by simp
  then have off: "sub64 e 8 = e - 8" "rb + (e - 8) < 2 ^ 64" using cp(3) by (simp_all add: sub64_small)
  have rr: "{rb + (e - 8)..<rb + (e - 8) + 8} \<subseteq> rreg"
  proof -
    have "rb + (e - 8) + 8 = rb + e" using cp(3) by simp
    with cp(4) show ?thesis by (simp only:)
  qed
  obtain n w' where w': "client_read V cfg (bh_node_id (la_handle s)) (e - 8) cp 8 True (la_client s) w =
      Inr (True, (la_client s)\<lparr>cl_countWR := n\<rparr>, w')" "n < cfg_RDMA_MAX_WR cfg" "ready ((la_client s)\<lparr>cl_countWR := n\<rparr>) w'"
    "lmem w' = mem_write (lmem w) cp (mem_read (rmem w) (rb + (e - 8)) 8)" "rmem w' = rmem w" "busy w' = {}"
    using client_read_ok [OF c wr_limit _ off(2) cp(2) rr] by auto
  have seg: "index_op (bh_entrySegments (la_handle s)) 0 = Inr seg \<Longrightarrow> seg_offset seg = e" for seg
    using assms(2) by (auto simp: la_at_def index_op_def split: if_splits)
  obtain seg where at0: "index_op (bh_entrySegments (la_handle s)) 0 = Inr seg"
    using assms(2) by (auto simp: la_at_def index_op_def)
  have "la_readCounterFromRemote V cfg s w = Inr (True, s\<lparr>la_client := (la_client s)\<lparr>cl_countWR := n\<rparr>\<rparr>, w')"
    using at0 seg [OF at0] off(1) cp(1) w'(1) by (simp add: la_readCounterFromRemote_def la_read_def)
  moreover have "load64 (lmem w') cp = load64 (rmem w) (rb + (e - 8))"
    unfolding w'(4) load64_def by (simp add: mem_read_write_same)
  moreover have "la_conn off (s\<lparr>la_client := (la_client s)\<lparr>cl_countWR := n\<rparr>\<rparr>) w'"
    using assms(1) w'(2,3,6) by (simp add: la_conn_def la_set_up_def client_on_def)
  ultimately show ?thesis using w'(4-6)
    by (intro exI [of _ "(la_client s)\<lparr>cl_countWR := n\<rparr>"] exI [of _ w']) (auto simp: mem_write_outside)
qed

text \<open>Asking the consumer's counter, when it has changed.\<close>

lemma la_refill_ok:
  assumes "la_conn off s w" "la_at e cnt S k s" "la_counter lreg rreg rb e h ptr cap cp s" "la_writeableFreeSegments s = 0"
    and "now = load64 (rmem w) (rb + (e - 8))" "old = load64 (lmem w) cp" "now \<noteq> old"
  shows "\<exists>c w'. la_refill V cfg s w = Inr (s\<lparr>la_client := c, la_writeableFreeSegments :=
      (if now < old then add64 now (sub64 (2 ^ 64 - 1) old) else sub64 now old)\<rparr>, w') \<and>
    la_conn off (s\<lparr>la_client := c\<rparr>) w' \<and> rmem w' = rmem w \<and> load64 (lmem w') cp = now \<and>
    (\<forall>a. a \<notin> {cp..<cp + 8} \<longrightarrow> lmem w' a = lmem w a)"
proof -
  have cp: "la_consumedCnt s = Some cp" using assms(3) by (simp add: la_counter_def)
  from la_counter_read [OF assms(1-3)] obtain c w' where
    w': "la_readCounterFromRemote V cfg s w = Inr (True, s\<lparr>la_client := c\<rparr>, w')" "la_conn off (s\<lparr>la_client := c\<rparr>) w'"
    "rmem w' = rmem w" "load64 (lmem w') cp = now" "\<forall>a. a \<notin> {cp..<cp + 8} \<longrightarrow> lmem w' a = lmem w a"
    unfolding assms(5) by blast
  have "la_refill V cfg s w = Inr (s\<lparr>la_client := c, la_writeableFreeSegments :=
      (if now < old then add64 now (sub64 (2 ^ 64 - 1) old) else sub64 now old)\<rparr>, w')"
    using cp assms(4,6,7) w'(1,4) by (simp add: la_refill_def Let_def loopR_unfold add64_def sub64_def)
  with w'(2-5) show ?thesis by blast
qed

lemma la_append_ok:
  assumes "la_conn off s w" "la_at e cnt S k s" "0 < la_writeableFreeSegments s" "la_writeableFreeSegments s < 2 ^ 64"
    and "off + n + 48 \<le> cap" "n \<le> S" "{d..<d + n} \<inter> lreg = {}"
    and "isWriteable (get_header (lmem w) h)" "\<not> isEndSegment (get_header (lmem w) h)"
  shows "\<exists>s' w' hdr. la_append V cfg d n sig s w = Inr (True, s', w') \<and> la_conn (off + n + 24) s' w' \<and>
    la_at e cnt S (Suc k mod cnt) s' \<and> la_writeableFreeSegments s' = la_writeableFreeSegments s - 1 \<and>
    rmem w' = mem_write (rmem w) (rb + seg_at e (S + 24) k) (header_bytes hdr @ mem_read (lmem w) d n) \<and>
    header_ok hdr \<and> counter hdr = n \<and> isConsumable hdr \<and> isWriteable hdr \<and> \<not> isEndSegment hdr \<and>
    nextSegmentOffset hdr = seg_at e (S + 24) (Suc k mod cnt) \<and> get_header (lmem w') h = hdr \<and>
    (\<forall>a. a \<notin> lreg \<longrightarrow> lmem w' a = lmem w a)"
proof -
  let ?hdr = "(setConsumable True ((get_header (lmem w) h)\<lparr>counter := n\<rparr>))\<lparr>nextSegmentOffset := seg_at e (S + 24) (Suc k mod cnt)\<rparr>"
  have "la_refill V cfg s w = Inr (s, w)" using assms(3) by (simp add: la_refill_def)
  from la_append_run [OF this assms(1,2,5-7) refl, of sig] obtain s' w' where
    w': "la_append V cfg d n sig s w = Inr (True, s', w')" "la_conn (off + n + 24) s' w'"
    "la_at e cnt S (Suc k mod cnt) s'" "la_writeableFreeSegments s' = sub64 (la_writeableFreeSegments s) 1"
    "header_ok ?hdr" "rmem w' = mem_write (rmem w) (rb + seg_at e (S + 24) k) (header_bytes ?hdr @ mem_read (lmem w) d n)"
    "get_header (lmem w') h = ?hdr" "\<forall>a. a \<notin> {h..<h + 24} \<and> a \<notin> {ptr..<ptr + cap} \<longrightarrow> lmem w' a = lmem w a"
    by blast
  have "sub64 (la_writeableFreeSegments s) 1 = la_writeableFreeSegments s - 1" using assms(3,4) by (simp add: sub64_small)
  moreover have "\<forall>a. a \<notin> lreg \<longrightarrow> lmem w' a = lmem w a" using w'(8) hdr_mem buf_mem by blast
  ultimately show ?thesis
    using w'(1-7) assms(8,9) by (intro exI [of _ s'] exI [of _ w'] exI [of _ ?hdr]) simp
qed

text \<open>What the header copy looks like after the last message is what \<open>close\<close> starts from.\<close>

lemma la_appends_full:
  assumes "la_conn off s w" "la_at e cnt S k s" "length msgs \<le> la_writeableFreeSegments s" "la_writeableFreeSegments s < 2 ^ 64"
    and "length msgs \<le> cnt" "off + sum_list (map (\<lambda>(d, n, sig). n + 24) msgs) + 24 \<le> cap"
    and "\<forall>(d, n, sig) \<in> set msgs. n \<le> S \<and> {d..<d + n} \<inter> lreg = {}"
    and "isWriteable (get_header (lmem w) h)" "\<not> isEndSegment (get_header (lmem w) h)"
  shows "\<exists>s' w'. la_appends V cfg msgs s w = Inr (True, s', w') \<and> la_at e cnt S ((k + length msgs) mod cnt) s' \<and>
    la_writeableFreeSegments s' = la_writeableFreeSegments s - length msgs \<and>
    la_conn (off + sum_list (map (\<lambda>(d, n, sig). n + 24) msgs)) s' w' \<and> (\<forall>a. a \<notin> lreg \<longrightarrow> lmem w' a = lmem w a) \<and>
    (msgs \<noteq> [] \<longrightarrow> nextSegmentOffset (get_header (lmem w') h) = seg_at e (S + 24) ((k + length msgs) mod cnt)) \<and>
    (\<forall>i < length msgs. case msgs ! i of (d, n, sig) \<Rightarrow>
       la_message (rmem w') (ring_at rb e cnt S (k + i)) (mem_read (lmem w) d n) (seg_at e (S + 24) (Suc (k + i) mod cnt))) \<and>
    (\<forall>a. (\<forall>i < length msgs. a \<notin> {ring_at rb e cnt S (k + i)..<ring_at rb e cnt S (k + i) + (S + 24)}) \<longrightarrow> rmem w' a = rmem w a)"
  using assms
proof (induction msgs arbitrary: off s w k)
  case Nil
  then show ?case by (simp add: la_at_def)
next
  case (Cons m msgs)
  obtain d n sig where m: "m = (d, n, sig)" by (cases m) auto
  have pre: "off + n + 48 \<le> cap" "n \<le> S" "{d..<d + n} \<inter> lreg = {}" "0 < la_writeableFreeSegments s"
    using Cons.prems(3,6,7) by (auto simp: m)
  from la_append_ok [OF Cons.prems(1,2) pre(4) Cons.prems(4) pre(1-3) Cons.prems(8,9), of sig]
  obtain s1 w1 hdr where 1: "la_append V cfg d n sig s w = Inr (True, s1, w1)" "la_conn (off + n + 24) s1 w1"
    "la_at e cnt S (Suc k mod cnt) s1" "la_writeableFreeSegments s1 = la_writeableFreeSegments s - 1"
    "rmem w1 = mem_write (rmem w) (rb + seg_at e (S + 24) k) (header_bytes hdr @ mem_read (lmem w) d n)"
    "header_ok hdr" "counter hdr = n" "isConsumable hdr" "isWriteable hdr" "\<not> isEndSegment hdr"
    "nextSegmentOffset hdr = seg_at e (S + 24) (Suc k mod cnt)" "get_header (lmem w1) h = hdr"
    "\<forall>a. a \<notin> lreg \<longrightarrow> lmem w1 a = lmem w a"
    by blast
  have k: "k mod cnt = k" "0 < cnt" using Cons.prems(2) by (auto simp: la_at_def)
  have at: "ring_at rb e cnt S (Suc k mod cnt + i) = ring_at rb e cnt S (k + Suc i)"
    "seg_at e (S + 24) (Suc (Suc k mod cnt + i) mod cnt) = seg_at e (S + 24) (Suc (k + Suc i) mod cnt)" for i
    using mod_add_left_eq [of "Suc k" cnt "Suc i"] by (simp_all add: ring_at_def mod_simps)
  have "\<exists>s' w'. la_appends V cfg msgs s1 w1 = Inr (True, s', w') \<and> la_at e cnt S ((Suc k mod cnt + length msgs) mod cnt) s' \<and>
    la_writeableFreeSegments s' = la_writeableFreeSegments s1 - length msgs \<and>
    la_conn (off + n + 24 + sum_list (map (\<lambda>(d, n, sig). n + 24) msgs)) s' w' \<and> (\<forall>a. a \<notin> lreg \<longrightarrow> lmem w' a = lmem w1 a) \<and>
    (msgs \<noteq> [] \<longrightarrow> nextSegmentOffset (get_header (lmem w') h) = seg_at e (S + 24) ((Suc k mod cnt + length msgs) mod cnt)) \<and>
    (\<forall>i < length msgs. case msgs ! i of (d, n, sig) \<Rightarrow>
       la_message (rmem w') (ring_at rb e cnt S (Suc k mod cnt + i)) (mem_read (lmem w1) d n)
         (seg_at e (S + 24) (Suc (Suc k mod cnt + i) mod cnt))) \<and>
    (\<forall>a. (\<forall>i < length msgs. a \<notin> {ring_at rb e cnt S (Suc k mod cnt + i)..<ring_at rb e cnt S (Suc k mod cnt + i) + (S + 24)}) \<longrightarrow>
       rmem w' a = rmem w1 a)"
    using Cons.prems(3-7) 1(4,9,10,12)
    by (intro Cons.IH [OF 1(2,3)]) (auto simp: m)
  then obtain s' w' where 2: "la_appends V cfg msgs s1 w1 = Inr (True, s', w')" "la_at e cnt S ((Suc k mod cnt + length msgs) mod cnt) s'"
    "la_writeableFreeSegments s' = la_writeableFreeSegments s1 - length msgs"
    "la_conn (off + n + 24 + sum_list (map (\<lambda>(d, n, sig). n + 24) msgs)) s' w'" "\<forall>a. a \<notin> lreg \<longrightarrow> lmem w' a = lmem w1 a"
    "msgs \<noteq> [] \<longrightarrow> nextSegmentOffset (get_header (lmem w') h) = seg_at e (S + 24) ((Suc k mod cnt + length msgs) mod cnt)"
    "\<forall>i < length msgs. case msgs ! i of (d, n, sig) \<Rightarrow>
       la_message (rmem w') (ring_at rb e cnt S (k + Suc i)) (mem_read (lmem w1) d n) (seg_at e (S + 24) (Suc (k + Suc i) mod cnt))"
    "\<forall>a. (\<forall>i < length msgs. a \<notin> {ring_at rb e cnt S (k + Suc i)..<ring_at rb e cnt S (k + Suc i) + (S + 24)}) \<longrightarrow> rmem w' a = rmem w1 a"
    unfolding at by blast
  let ?a = "ring_at rb e cnt S k"
  have a: "?a = rb + seg_at e (S + 24) k" using k by (simp add: ring_at_def)
  have apart: "b \<notin> {ring_at rb e cnt S (k + Suc i)..<ring_at rb e cnt S (k + Suc i) + (S + 24)}"
    if "i < length msgs" "b \<in> {?a..<?a + (S + 24)}" for i b
  proof -
    have "(k + Suc i) mod cnt \<noteq> k mod cnt" using that(1) Cons.prems(5) by (intro ring_neighbour) simp_all
    then show ?thesis
      using that(2) seg_disjoint [of "(k + Suc i) mod cnt" "k mod cnt" "S + 24" "S + 24" e] by (auto simp: ring_at_def)
  qed
  have first: "la_message (rmem w') ?a (mem_read (lmem w) d n) (seg_at e (S + 24) (Suc k mod cnt))"
  proof -
    have "la_message (rmem w1) ?a (mem_read (lmem w) d n) (nextSegmentOffset hdr)"
      unfolding 1(5) a using 1(6-10) by (intro la_message_written) simp_all
    then have w1: "la_message (rmem w1) ?a (mem_read (lmem w) d n) (seg_at e (S + 24) (Suc k mod cnt))"
      by (simp only: 1(11))
    have "rmem w' b = rmem w1 b" if "b \<in> {?a..<?a + (S + 24)}" for b
      using 2(8) apart that by blast
    with w1 show ?thesis
    proof (rule la_message_cong)
      show "length (mem_read (lmem w) d n) \<le> S" using pre(2) by simp
    qed
  qed
  have same: "mem_read (lmem w1) d' n' = mem_read (lmem w) d' n'" if "(d', n', sig') \<in> set msgs" for d' n' sig'
  proof (rule mem_read_cong)
    fix a assume "d' \<le> a" "a < d' + n'"
    moreover have "{d'..<d' + n'} \<inter> lreg = {}" using bspec [OF Cons.prems(7), of "(d', n', sig')"] that by simp
    ultimately have "a \<notin> lreg" by auto
    then show "lmem w1 a = lmem w a" using 1(13) by blast
  qed
  have msg: "case (m # msgs) ! i of (d, n, sig) \<Rightarrow>
      la_message (rmem w') (ring_at rb e cnt S (k + i)) (mem_read (lmem w) d n) (seg_at e (S + 24) (Suc (k + i) mod cnt))"
    if "i < length (m # msgs)" for i
  proof (cases i)
    case 0
    with first m show ?thesis by simp
  next
    case (Suc j)
    with that have j: "j < length msgs" by simp
    obtain d' n' sig' where at_j: "msgs ! j = (d', n', sig')" by (cases "msgs ! j") auto
    with nth_mem [OF j] have "(d', n', sig') \<in> set msgs" by simp
    with 2(7) [rule_format, OF j] show ?thesis by (simp add: Suc at_j same)
  qed
  have frame: "rmem w' b = rmem w b"
    if "\<forall>i < length (m # msgs). b \<notin> {ring_at rb e cnt S (k + i)..<ring_at rb e cnt S (k + i) + (S + 24)}" for b
  proof -
    have "b \<notin> {ring_at rb e cnt S (k + Suc i)..<ring_at rb e cnt S (k + Suc i) + (S + 24)}" if "i < length msgs" for i
      using \<open>\<forall>i < length (m # msgs). _ i\<close> [rule_format, of "Suc i"] that by simp
    then have "rmem w' b = rmem w1 b" using 2(8) by blast
    moreover have "b \<notin> {?a..<?a + (S + 24)}" using that [rule_format, of 0] by simp
    ultimately show ?thesis using pre(2) unfolding 1(5) a by (auto simp: mem_write_outside)
  qed
  have "la_appends V cfg (m # msgs) s w = Inr (True, s', w')" using 1(1) 2(1) by (simp add: m)
  moreover have "la_at e cnt S ((k + length (m # msgs)) mod cnt) s'" using 2(2) by (simp add: mod_simps)
  moreover have "la_writeableFreeSegments s' = la_writeableFreeSegments s - length (m # msgs)" using 2(3) 1(4) by simp
  moreover have "la_conn (off + sum_list (map (\<lambda>(d, n, sig). n + 24) (m # msgs))) s' w'" using 2(4) by (simp add: m ac_simps)
  moreover have "\<forall>a. a \<notin> lreg \<longrightarrow> lmem w' a = lmem w a" using 2(5) 1(13) by simp
  moreover have "nextSegmentOffset (get_header (lmem w') h) = seg_at e (S + 24) ((k + length (m # msgs)) mod cnt)"
    using 2(1,6) 1(11,12) by (cases "msgs = []") (simp_all add: mod_simps)
  ultimately show ?case using msg frame by blast
qed

lemma la_appends_ok:
  assumes "la_conn off s w" "la_at e cnt S k s" "length msgs \<le> la_writeableFreeSegments s" "la_writeableFreeSegments s < 2 ^ 64"
    and "length msgs \<le> cnt" "off + sum_list (map (\<lambda>(d, n, sig). n + 24) msgs) + 24 \<le> cap"
    and "\<forall>(d, n, sig) \<in> set msgs. n \<le> S \<and> {d..<d + n} \<inter> lreg = {}"
    and "isWriteable (get_header (lmem w) h)" "\<not> isEndSegment (get_header (lmem w) h)"
  shows "\<exists>s' w'. la_appends V cfg msgs s w = Inr (True, s', w') \<and> la_at e cnt S ((k + length msgs) mod cnt) s' \<and>
    la_writeableFreeSegments s' = la_writeableFreeSegments s - length msgs \<and>
    (\<forall>i < length msgs. case msgs ! i of (d, n, sig) \<Rightarrow>
       la_message (rmem w') (ring_at rb e cnt S (k + i)) (mem_read (lmem w) d n) (seg_at e (S + 24) (Suc (k + i) mod cnt))) \<and>
    (\<forall>a. (\<forall>i < length msgs. a \<notin> {ring_at rb e cnt S (k + i)..<ring_at rb e cnt S (k + i) + (S + 24)}) \<longrightarrow> rmem w' a = rmem w a)"
  using la_appends_full [OF assms] by blast

end

lemma la_conn_start:
  assumes R: "ring_stream V p cq lkey rkey lreg rreg slots up rmem due busy posted pend rank cfg rb e cnt S h ptr cap"
    and "la_set_up (cfg_RDMA_MAX_WR cfg) p cq lkey rkey rb h ptr cap off s"
    and "up w" "\<not> pend w" "posted w \<le> cl_countWR (la_client s)" "busy w \<subseteq> {ptr..<ptr + off}"
  shows "ring_stream.la_conn p cq lkey rkey up busy posted pend cfg rb h ptr cap off s w"
proof -
  have "rc_fabric.ready up posted pend (la_client s) w"
    using assms(3-5) rc_fabric.ready_def [OF ring_link.axioms(1) [OF ring_stream.axioms(1) [OF R]]] by blast
  then show ?thesis using assms(2,6) ring_stream.la_conn_def [OF R] by blast
qed

text \<open>A latency writer with a buffer of 1000 bytes on the sample link.\<close>

interpretation fab_lat: ring_stream fab_verbs fab_qp 3 1 2 fab_lreg fab_rreg fab_slots
  fab_up fab_rmem fab_due fab_busy fab_posted fab_pend "\<lambda>w. fab_delay (dev w)" fab_config 65536 64 4 16 4096 4120 1000
  by unfold_locales (auto simp: fab_slots_def fab_rreg_def fab_lreg_def)

definition fab_latency :: "nat \<Rightarrow> writer_lat" where
  "fab_latency off = \<lparr>la_internalBuffer = Some \<lparr>ib_bufferPtr = 4120, ib_size = 1000, ib_offset = off\<rparr>,
     la_handle = (newBufferHandle ''b'' 1 4 1 16 LAT)\<lparr>bh_entrySegments := [\<lparr>seg_offset = 64, seg_size = 16\<rparr>]\<rparr>,
     la_client = fab_client, la_segmentHeader = Some 4096, la_deleteRdmaClient = False, la_lastSegmentOffset = 0,
     la_currentSegmentOffset = 64, la_nextSegmentOffset = 104, la_segmentIndex = 0, la_consumedCnt = Some 6000,
     la_writeableFreeSegments = 4\<rparr>"

lemma fab_latency_start:
  "la_at 64 4 16 0 (fab_latency off)"
  "off \<le> 1000 \<Longrightarrow> la_set_up 8 fab_qp 3 1 2 65536 4096 4120 1000 off (fab_latency off)"
  "isWriteable (get_header (lmem fab_world) 4096)" "\<not> isEndSegment (get_header (lmem fab_world) 4096)"
proof -
  show "la_at 64 4 16 0 (fab_latency off)"
    by (simp add: la_at_def fab_latency_def newBufferHandle_def seg_at_def)
  show "off \<le> 1000 \<Longrightarrow> la_set_up 8 fab_qp 3 1 2 65536 4096 4120 1000 off (fab_latency off)"
    using fab_client_on by (simp add: la_set_up_def fab_latency_def newBufferHandle_def)
  show "isWriteable (get_header (lmem fab_world) 4096)" "\<not> isEndSegment (get_header (lmem fab_world) 4096)"
    using fab_world_start(5,6) spec [of "\<lambda>i. i < 4 \<longrightarrow> fresh_header (get_header (fab_rmem fab_world) (65536 + seg_at 64 40 i))" 0]
    by (auto simp: ring_fresh_def fresh_header_def seg_at_def)
qed

lemma fab_latency_free: "la_writeableFreeSegments (fab_latency off) = 4" "la_nextSegmentOffset (fab_latency off) = 104"
  by (simp_all add: fab_latency_def)

lemma fab_latency_run:
  "\<exists>s' w'. la_appends fab_verbs fab_config [(0, 16, False), (100, 5, False)] (fab_latency 0) fab_world = Inr (True, s', w')"
proof -
  have "fab_lat.la_conn 0 (fab_latency 0) fab_world"
    by (rule la_conn_start [OF fab_lat.ring_stream_axioms]) (use fab_world_start fab_latency_start in auto)
  from fab_lat.la_appends_ok [OF this fab_latency_start(1), of "[(0, 16, False), (100, 5, False)]"] fab_latency_start(3,4)
  show ?thesis by (auto simp: fab_latency_free fab_lreg_def)
qed

section \<open>Properties\<close>

text \<open>
  \<open>BufferWriterLat\<close> writes one message per segment. Over a reliable connection and with as many
  free segments and as much internal buffer as the messages need, every append succeeds; afterwards each of the
  segments used, counted from the writer's position round the ring, holds exactly its message, announces its
  length, is marked consumable and links to its successor, no other byte of the peer's memory has changed, and
  the count of free segments has gone down by the number of messages.
\<close>

lemma lat_messages_written:
  assumes "ring_stream V p cq lkey rkey lreg rreg slots up rmem due busy posted pend rank cfg rb e cnt S h ptr cap"
    and "la_set_up (cfg_RDMA_MAX_WR cfg) p cq lkey rkey rb h ptr cap off s" and "la_at e cnt S k s"
    and "up w" and "\<not> pend w" and "posted w \<le> cl_countWR (la_client s)" and "busy w \<subseteq> {ptr..<ptr + off}"
    and "length msgs \<le> la_writeableFreeSegments s" and "la_writeableFreeSegments s < 2 ^ 64" and "length msgs \<le> cnt"
    and "off + sum_list (map (\<lambda>(d, n, sig). n + 24) msgs) + 24 \<le> cap"
    and "\<forall>(d, n, sig) \<in> set msgs. n \<le> S \<and> {d..<d + n} \<inter> lreg = {}"
    and "isWriteable (get_header (lmem w) h)" and "\<not> isEndSegment (get_header (lmem w) h)"
  shows "\<exists>s' w'. la_appends V cfg msgs s w = Inr (True, s', w') \<and> la_at e cnt S ((k + length msgs) mod cnt) s' \<and>
    la_writeableFreeSegments s' = la_writeableFreeSegments s - length msgs \<and>
    (\<forall>i < length msgs. case msgs ! i of (d, n, sig) \<Rightarrow>
       la_message (rmem w') (ring_at rb e cnt S (k + i)) (mem_read (lmem w) d n) (seg_at e (S + 24) (Suc (k + i) mod cnt))) \<and>
    (\<forall>a. (\<forall>i < length msgs. a \<notin> {ring_at rb e cnt S (k + i)..<ring_at rb e cnt S (k + i) + (S + 24)}) \<longrightarrow> rmem w' a = rmem w a)"
  by (rule ring_stream.la_appends_ok [OF assms(1) la_conn_start [OF assms(1,2,4-7)] assms(3,8-14)])

lemma lat_messages_written_instance:
  "\<exists>s' w'. la_appends fab_verbs fab_config [(0, 16, False), (100, 5, False)] (fab_latency 0) fab_world = Inr (True, s', w') \<and>
    la_writeableFreeSegments s' = 2 \<and>
    la_message (fab_rmem w') (65536 + 64) (mem_read (lmem fab_world) 0 16) 104 \<and>
    la_message (fab_rmem w') (65536 + 104) (mem_read (lmem fab_world) 100 5) 144"
proof -
  let ?msgs = "[(0, 16, False), (100, 5, False)] :: (nat \<times> nat \<times> bool) list"
  have "\<exists>s' w'. la_appends fab_verbs fab_config ?msgs (fab_latency 0) fab_world = Inr (True, s', w') \<and>
    la_at 64 4 16 ((0 + length ?msgs) mod 4) s' \<and>
    la_writeableFreeSegments s' = la_writeableFreeSegments (fab_latency 0) - length ?msgs \<and>
    (\<forall>i < length ?msgs. case ?msgs ! i of (d, n, sig) \<Rightarrow>
       la_message (fab_rmem w') (ring_at 65536 64 4 16 (0 + i)) (mem_read (lmem fab_world) d n) (seg_at 64 (16 + 24) (Suc (0 + i) mod 4))) \<and>
    (\<forall>a. (\<forall>i < length ?msgs. a \<notin> {ring_at 65536 64 4 16 (0 + i)..<ring_at 65536 64 4 16 (0 + i) + (16 + 24)}) \<longrightarrow>
       fab_rmem w' a = fab_rmem fab_world a)"
    by (rule lat_messages_written [OF fab_lat.ring_stream_axioms, where off = 0])
      (use fab_world_start fab_latency_start in \<open>auto simp: fab_lreg_def fab_latency_free\<close>)
  then obtain s' w' where run: "la_appends fab_verbs fab_config ?msgs (fab_latency 0) fab_world = Inr (True, s', w')"
    "la_writeableFreeSegments s' = 2"
    and msg: "\<forall>i < length ?msgs. case ?msgs ! i of (d, n, sig) \<Rightarrow>
       la_message (fab_rmem w') (ring_at 65536 64 4 16 (0 + i)) (mem_read (lmem fab_world) d n) (seg_at 64 (16 + 24) (Suc (0 + i) mod 4))"
    by (auto simp: fab_latency_free)
  from run msg [rule_format, of 0] msg [rule_format, of 1] show ?thesis by (simp add: ring_at_def seg_at_def)
qed

text \<open>
  Claim C18. The latency writer never leaves its ring. Whatever the verbs calls do and however often the writer
  has to wait for the consumer's counter, after any sequence of successful appends the offset it writes to next
  is the start of a segment of its ring, namely the one as many places further round as messages were written,
  the last offset is that of the segment before, and both segments lie inside the ring.
\<close>

theorem lat_positions:
  assumes "la_at e cnt S k s" and "e + cnt * (S + 24) < 2 ^ 64" and "msgs \<noteq> []"
    and "la_appends V cfg msgs s w = Inr (True, s', w')"
  shows "la_currentSegmentOffset s' = seg_at e (S + 24) ((k + length msgs) mod cnt) \<and>
    la_lastSegmentOffset s' = seg_at e (S + 24) ((k + length msgs - 1) mod cnt) \<and>
    (\<forall>off \<in> {la_currentSegmentOffset s', la_lastSegmentOffset s'}. e \<le> off \<and> off + (S + 24) \<le> e + cnt * (S + 24))"
proof -
  have cnt: "0 < cnt" using assms(1) by (auto simp: la_at_def)
  have inside: "e \<le> seg_at e (S + 24) (i mod cnt) \<and> seg_at e (S + 24) (i mod cnt) + (S + 24) \<le> e + cnt * (S + 24)" for i
    using mult_le_mono1 [of "Suc (i mod cnt)" cnt "S + 24"] cnt by (simp add: seg_at_def Suc_le_eq)
  from la_appends_at [OF assms(1,2,4,3)] inside show ?thesis by (simp add: la_at_def)
qed

theorem lat_positions_witness:
  "\<exists>s' w'. la_appends fab_verbs fab_config [(0, 16, False), (100, 5, False)] (fab_latency 0) fab_world = Inr (True, s', w') \<and>
    la_currentSegmentOffset s' = 144 \<and> la_lastSegmentOffset s' = 104"
proof -
  obtain s' w' where run: "la_appends fab_verbs fab_config [(0, 16, False), (100, 5, False)] (fab_latency 0) fab_world = Inr (True, s', w')"
    using fab_latency_run by blast
  from lat_positions [OF fab_latency_start(1) _ _ this] show ?thesis using run by (auto simp: seg_at_def)
qed

text \<open>
  Claim C38. A message that fits the latency writer's internal buffer is copied 24 bytes beyond its slot: the
  24 bytes behind the slot end up as the 24 bytes that follow the message in the caller's memory, also when the
  slot ends where the internal buffer ends.
\<close>

theorem lat_copy_overruns:
  assumes "ring_stream V p cq lkey rkey lreg rreg slots up rmem due busy posted pend rank cfg rb e cnt S h ptr cap"
    and "la_set_up (cfg_RDMA_MAX_WR cfg) p cq lkey rkey rb h ptr cap off s" and "la_at e cnt S k s"
    and "up w" and "\<not> pend w" and "posted w \<le> cl_countWR (la_client s)" and "busy w \<subseteq> {ptr..<ptr + off}"
    and "off + n + 24 \<le> cap" and "n \<le> S" and "{d..<d + (n + 24)} \<inter> lreg = {}" and "la_nextSegmentOffset s < 2 ^ 64"
  shows "\<exists>s' w'. la_writeToSegment V cfg n d sig s w = Inr (True, s', w') \<and>
    mem_read (lmem w') (ptr + off + n + 24) 24 = mem_read (lmem w) (d + n) 24"
proof -
  note R = assms(1)
  have "{d..<d + n} \<subseteq> {d..<d + (n + 24)}" by auto
  with assms(10) have src: "{d..<d + n} \<inter> lreg = {}" by blast
  have k: "k < cnt" "la_currentSegmentOffset s = seg_at e (S + 24) k" using assms(3) by (simp_all add: la_at_def)
  from ring_stream.la_write_run [OF R la_conn_start [OF assms(1,2,4-7)] assms(8) k(1) assms(9) k(2) src assms(11) refl, of sig]
  obtain s' w' hdr where "la_writeToSegment V cfg n d sig s w = Inr (True, s', w')" "lmem w' = la_staged h ptr off d n hdr (lmem w)"
    by blast
  with ring_stream.la_staged_overrun [OF R assms(10), of off hdr "lmem w"] assms(8) show ?thesis by auto
qed

theorem lat_copy_overruns_witness:
  "\<exists>s' w'. la_writeToSegment fab_verbs fab_config 16 100 False (fab_latency 960) fab_world = Inr (True, s', w') \<and>
    mem_read (lmem w') (4120 + 1000) 24 = mem_read (lmem fab_world) 116 24"
proof -
  have "\<exists>s' w'. la_writeToSegment fab_verbs fab_config 16 100 False (fab_latency 960) fab_world = Inr (True, s', w') \<and>
    mem_read (lmem w') (4120 + 960 + 16 + 24) 24 = mem_read (lmem fab_world) (100 + 16) 24"
    by (rule lat_copy_overruns [OF fab_lat.ring_stream_axioms, where k = 0])
      (use fab_world_start fab_latency_start in \<open>auto simp: fab_lreg_def fab_latency_free\<close>)
  then show ?thesis by simp
qed

end
