(* ===== verification/Lat_Consumer.thy ===== *)
theory Lat_Consumer
  imports Lat_Writer Stream_Reader
begin

text \<open>
  \<open>BufferIteratorLat\<close> reads the messages that \<open>BufferWriterLat\<close> has written, gives their segments back one by one and counts
  them in the word in front of the ring, from which the writer learns how many segments are free.
\<close>

section \<open>Reading messages\<close>

text \<open>Calling \<open>wait_for_next\<close> for \<open>n\<close> messages, with the bytes of each when it is handed out.\<close>

fun take_messages :: "nat \<Rightarrow> BufferIterator \<Rightarrow> iter_mem \<Rightarrow> (byte list list \<times> BufferIterator \<times> iter_mem) result" where
  "take_messages 0 b im = Inr ([], b, im)"
| "take_messages (Suc n) b im =
     bindR (wait_for_next b im) (\<lambda>(ret, b, im).
     case ret of
       Some (InBuffer a, sz) \<Rightarrow>
         bindR (take_messages n b im) (\<lambda>(parts, b, im'). Inr (mem_read (im_mem im) (a + 24) sz # parts, b, im'))
     | _ \<Rightarrow> Inl BadIndex)"

abbreviation seg_addr :: "nat \<Rightarrow> nat \<Rightarrow> nat \<Rightarrow> nat \<Rightarrow> nat" where
  "seg_addr rb e S i \<equiv> rb + seg_at e (S + 24) i"

text \<open>
  Memory when \<open>j\<close> of the messages \<open>xs\<close> have been handed out, the last one still in the consumer's hands: from that one on
  they are there, the segments before are given back, and the counter has grown by their number.
\<close>

definition lat_ring :: "nat \<Rightarrow> nat \<Rightarrow> nat \<Rightarrow> nat \<Rightarrow> nat \<Rightarrow> byte list list \<Rightarrow> nat \<Rightarrow> mem \<Rightarrow> bool" where
  "lat_ring rb e cnt S c xs j m \<longleftrightarrow>
     (\<forall>i < length xs. j \<le> Suc i \<longrightarrow> la_message m (seg_addr rb e S i) (xs ! i) (seg_at e (S + 24) (Suc i mod cnt))) \<and>
     (\<forall>i. Suc i < j \<longrightarrow> fresh_header (get_header m (seg_addr rb e S i)) \<and>
        nextSegmentOffset (get_header m (seg_addr rb e S i)) = seg_at e (S + 24) (Suc i mod cnt)) \<and>
     load64 m (rb + (e - 8)) = u64 (c + (j - 1))"

definition lat_iter :: "nat \<Rightarrow> nat \<Rightarrow> nat \<Rightarrow> nat \<Rightarrow> nat \<Rightarrow> BufferIterator \<Rightarrow> iter_mem \<Rightarrow> bool" where
  "lat_iter rb e S cnt j b im \<longleftrightarrow> bi_lat b \<and> bi_pointer b \<le> 1 \<and> bi_rdmaBuffer b = rb \<and>
     (\<exists>ih. bi_iters b = [ih] \<and> si_rdmaBuffer (ih_iter ih) = rb \<and> ih_counterOffset ih = e - 8 \<and>
        si_header (ih_iter ih) = InBuffer (seg_addr rb e S (j mod cnt)) \<and>
        (if j = 0 then \<exists>i < length (im_heap im). si_header (ih_prev ih) = OnHeap i \<and>
             \<not> isEndSegment (im_heap im ! i) \<and> \<not> isWriteable (im_heap im ! i)
         else si_header (ih_prev ih) = InBuffer (seg_addr rb e S (j - 1))))"

text \<open>Giving segment \<open>k\<close> back.\<close>

definition lat_release :: "nat \<Rightarrow> nat \<Rightarrow> nat \<Rightarrow> nat \<Rightarrow> mem \<Rightarrow> mem" where
  "lat_release rb e S k m =
     store64 (put_header m (seg_addr rb e S k) (released (get_header m (seg_addr rb e S k)))) (rb + (e - 8))
       (add64 (load64 m (rb + (e - 8))) 1)"

lemma seg_at_ge: "e \<le> seg_at e sz i"
  by (simp add: seg_at_def)

lemma store64_outside: "i < a \<or> a + 8 \<le> i \<Longrightarrow> store64 m a v i = m i"
  by (auto simp: store64_def mem_write_outside)

lemma lat_release_outside:
  assumes "i \<noteq> k" "8 \<le> e" "x \<in> {seg_addr rb e S i..<seg_addr rb e S i + (S + 24)}"
  shows "lat_release rb e S k m x = m x"
proof -
  have "seg_at e (S + 24) i + (S + 24) \<le> seg_at e (S + 24) k \<or> seg_at e (S + 24) k + (S + 24) \<le> seg_at e (S + 24) i"
    using seg_disjoint [OF assms(1), of "S + 24" "S + 24" e] by simp
  moreover have "rb + (e - 8) + 8 \<le> x" using assms(2,3) seg_at_ge [of e "S + 24" i] by simp
  ultimately show ?thesis
    using assms(3) by (auto simp: lat_release_def store64_outside put_header_outside)
qed

lemma lat_release_header:
  assumes "8 \<le> e"
  shows "get_header (lat_release rb e S k m) (seg_addr rb e S i) =
    (if i = k then released (get_header m (seg_addr rb e S k)) else get_header m (seg_addr rb e S i))"
proof -
  let ?m = "put_header m (seg_addr rb e S k) (released (get_header m (seg_addr rb e S k)))"
  have "get_header (lat_release rb e S k m) (seg_addr rb e S i) = get_header ?m (seg_addr rb e S i)"
    unfolding lat_release_def store64_def using assms seg_at_ge [of e "S + 24" i]
    by (intro get_header_write_disjoint) simp
  then show ?thesis using header_put_other by auto
qed

lemma lat_release_counter:
  assumes "8 \<le> e"
  shows "load64 (lat_release rb e S k m) (rb + (e - 8)) = add64 (load64 m (rb + (e - 8))) 1"
  by (simp add: lat_release_def add64_def u64_def)

lemma mark_prev_lat:
  assumes "bi_iters b = [ih]" "bi_pointer b = 0" "bi_lat b" "bi_rdmaBuffer b = rb" "ih_counterOffset ih = e - 8" "8 \<le> e"
  shows "si_header (ih_prev ih) = OnHeap i \<Longrightarrow> \<not> isWriteable (im_heap im ! i) \<Longrightarrow> mark_prev_segment b im = Inr im"
    and "si_header (ih_prev ih) = InBuffer (seg_addr rb e S k) \<Longrightarrow>
      isWriteable (get_header (im_mem im) (seg_addr rb e S k)) \<Longrightarrow>
      \<not> isEndSegment (get_header (im_mem im) (seg_addr rb e S k)) \<Longrightarrow>
      mark_prev_segment b im = Inr (im\<lparr>im_mem := lat_release rb e S k (im_mem im)\<rparr>)"
proof -
  show "si_header (ih_prev ih) = OnHeap i \<Longrightarrow> \<not> isWriteable (im_heap im ! i) \<Longrightarrow> mark_prev_segment b im = Inr im"
    using assms by (simp add: mark_prev_segment_def deref_def)
  have "load64 (put_header m (seg_addr rb e S k) h) (rb + (e - 8)) = load64 m (rb + (e - 8))" for m h
    unfolding put_header_def using assms(6) seg_at_ge [of e "S + 24" k] by (intro load64_write_disjoint) simp
  then show "si_header (ih_prev ih) = InBuffer (seg_addr rb e S k) \<Longrightarrow>
      isWriteable (get_header (im_mem im) (seg_addr rb e S k)) \<Longrightarrow>
      \<not> isEndSegment (get_header (im_mem im) (seg_addr rb e S k)) \<Longrightarrow>
      mark_prev_segment b im = Inr (im\<lparr>im_mem := lat_release rb e S k (im_mem im)\<rparr>)"
    using assms by (simp add: mark_prev_segment_def deref_def assign_def lat_release_def Let_def)
qed

text \<open>The memory after the release that comes with handing out message \<open>j\<close>.\<close>

lemma lat_ring_next:
  assumes "lat_ring rb e cnt S c xs j m" "j < length xs" "8 \<le> e" "\<forall>x \<in> set xs. length x \<le> S"
  shows "lat_ring rb e cnt S c xs (Suc j) (if j = 0 then m else lat_release rb e S (j - 1) m)"
proof (cases j)
  case 0
  then show ?thesis using assms(1) by (auto simp: lat_ring_def)
next
  case (Suc k)
  let ?m = "lat_release rb e S k m"
  have "la_message ?m (seg_addr rb e S i) (xs ! i) (seg_at e (S + 24) (Suc i mod cnt))" if "i < length xs" "Suc k \<le> i" for i
  proof -
    have "la_message m (seg_addr rb e S i) (xs ! i) (seg_at e (S + 24) (Suc i mod cnt))"
      using assms(1) that Suc by (simp add: lat_ring_def)
    then show ?thesis
    proof (rule la_message_cong)
      show "lat_release rb e S k m x = m x" if "x \<in> {seg_addr rb e S i..<seg_addr rb e S i + (S + 24)}" for x
        using lat_release_outside [OF _ assms(3) that] \<open>Suc k \<le> i\<close> by simp
      show "length (xs ! i) \<le> S" using assms(4) that(1) by simp
    qed
  qed
  moreover have "fresh_header (get_header ?m (seg_addr rb e S i)) \<and>
      nextSegmentOffset (get_header ?m (seg_addr rb e S i)) = seg_at e (S + 24) (Suc i mod cnt)" if "Suc i < Suc j" for i
  proof (cases "i = k")
    case True
    have "la_message m (seg_addr rb e S k) (xs ! k) (seg_at e (S + 24) (Suc k mod cnt))"
      using assms(1,2) Suc by (simp add: lat_ring_def)
    then show ?thesis
      by (auto simp: True lat_release_header [OF assms(3)] la_message_def fresh_header_def)
  next
    case False
    then show ?thesis using assms(1) that Suc by (simp add: lat_release_header [OF assms(3)] lat_ring_def)
  qed
  moreover have "load64 ?m (rb + (e - 8)) = u64 (c + j)"
    using assms(1) Suc by (simp add: lat_release_counter [OF assms(3)] lat_ring_def add64_def u64_def mod_simps)
  ultimately show ?thesis using Suc by (simp add: lat_ring_def Suc_le_eq)
qed

lemma take_one:
  assumes "lat_iter rb e S cnt j b im" "lat_ring rb e cnt S c xs j (im_mem im)" "j < length xs" "length xs \<le> cnt" "8 \<le> e"
    and "\<forall>x \<in> set xs. length x \<le> S"
  shows "\<exists>b' im'. wait_for_next b im = Inr (Some (InBuffer (seg_addr rb e S j), length (xs ! j)), b', im') \<and>
    lat_iter rb e S cnt (Suc j) b' im' \<and> lat_ring rb e cnt S c xs (Suc j) (im_mem im') \<and>
    im_mem im' = (if j = 0 then im_mem im else lat_release rb e S (j - 1) (im_mem im))"
proof -
  let ?m = "if j = 0 then im_mem im else lat_release rb e S (j - 1) (im_mem im)"
  let ?im = "im\<lparr>im_mem := ?m\<rparr>" and ?b = "b\<lparr>bi_pointer := 0\<rparr>"
  have jc: "j mod cnt = j" using assms(3,4) by simp
  from assms(1) obtain ih where ih: "bi_iters b = [ih]" "si_rdmaBuffer (ih_iter ih) = rb" "bi_lat b" "bi_pointer b \<le> 1"
    "bi_rdmaBuffer b = rb" "ih_counterOffset ih = e - 8" "si_header (ih_iter ih) = InBuffer (seg_addr rb e S j)"
    and prev: "if j = 0 then \<exists>i < length (im_heap im). si_header (ih_prev ih) = OnHeap i \<and>
             \<not> isEndSegment (im_heap im ! i) \<and> \<not> isWriteable (im_heap im ! i)
         else si_header (ih_prev ih) = InBuffer (seg_addr rb e S (j - 1))"
    by (auto simp: lat_iter_def jc)
  have cur: "la_message (im_mem im) (seg_addr rb e S j) (xs ! j) (seg_at e (S + 24) (Suc j mod cnt))"
    using assms(2,3) by (simp add: lat_ring_def)
  have before: "la_message (im_mem im) (seg_addr rb e S (j - 1)) (xs ! (j - 1)) (seg_at e (S + 24) (j mod cnt))" if "j \<noteq> 0"
    using assms(2,3) that by (cases j) (auto simp: lat_ring_def)
  have prev_open: "\<not> isEndSegment (deref (si_header (ih_prev ih)) im)"
    using prev before by (auto simp: deref_def la_message_def split: if_splits)
  have mark: "mark_prev_segment ?b im = Inr ?im"
  proof (cases "j = 0")
    case True
    then obtain i where "si_header (ih_prev ih) = OnHeap i" "\<not> isWriteable (im_heap im ! i)" using prev by auto
    then show ?thesis using mark_prev_lat(1) [of ?b ih rb e i im] ih assms(5) True by simp
  next
    case False
    then show ?thesis
      using mark_prev_lat(2) [of ?b ih rb e S "j - 1" im] ih assms(5) prev before by (simp add: la_message_def)
  qed
  note ring' = lat_ring_next [OF assms(2,3,5,6)]
  have cur': "la_message ?m (seg_addr rb e S j) (xs ! j) (seg_at e (S + 24) (Suc j mod cnt))"
    using ring' assms(3) unfolding lat_ring_def by blast
  have "has_next_step (b, im) = Inr (True, ?b, im)"
    using has_next_step_single [OF ih(1,4)] prev_open cur ih(7) by (simp add: deref_def la_message_def)
  then have found: "has_next b im = Inr (True, ?b, im)"
    using ih(1) by (simp add: has_next_def loopR_unfold)
  let ?ih = "ih\<lparr>ih_prev := ih_iter ih, ih_iter := si_next (ih_iter ih) ?im\<rparr>"
  have run: "wait_for_next b im = Inr (Some (InBuffer (seg_addr rb e S j), length (xs ! j)),
      ?b\<lparr>bi_iters := [?ih], bi_pointer := 1\<rparr>, ?im)"
    using found mark ih(1,7) cur'
    by (simp add: wait_for_next_def next_segment_def getRawData_def deref_def la_message_def Let_def)
  moreover have "lat_iter rb e S cnt (Suc j) (?b\<lparr>bi_iters := [?ih], bi_pointer := 1\<rparr>) ?im"
    using ih cur' by (simp add: lat_iter_def si_next_def deref_def la_message_def)
  ultimately show ?thesis using ring' by auto
qed

text \<open>The messages from number \<open>j\<close> on; the segments behind them stay as they are.\<close>

lemma take_rest:
  assumes "lat_iter rb e S cnt j b im" "lat_ring rb e cnt S c xs j (im_mem im)" "j + n = length xs" "length xs \<le> cnt" "8 \<le> e"
    and "\<forall>x \<in> set xs. length x \<le> S"
  shows "\<exists>b' im'. take_messages n b im = Inr (drop j xs, b', im') \<and> lat_ring rb e cnt S c xs (length xs) (im_mem im') \<and>
    lat_iter rb e S cnt (length xs) b' im' \<and>
    (\<forall>a \<in> {seg_addr rb e S (length xs)..<seg_addr rb e S (length xs) + (S + 24)}. im_mem im' a = im_mem im a)"
  using assms(1-3)
proof (induction n arbitrary: j b im)
  case 0
  then show ?case by simp
next
  case (Suc n)
  then have j: "j < length xs" by simp
  obtain b1 im1 where s: "wait_for_next b im = Inr (Some (InBuffer (seg_addr rb e S j), length (xs ! j)), b1, im1)"
    "lat_iter rb e S cnt (Suc j) b1 im1" "lat_ring rb e cnt S c xs (Suc j) (im_mem im1)"
    "im_mem im1 = (if j = 0 then im_mem im else lat_release rb e S (j - 1) (im_mem im))"
    using take_one [OF Suc.prems(1,2) j assms(4-6)] by blast
  have n: "Suc j + n = length xs" using Suc.prems(3) by simp
  obtain b' im' where t: "take_messages n b1 im1 = Inr (drop (Suc j) xs, b', im')" "lat_ring rb e cnt S c xs (length xs) (im_mem im')"
    "lat_iter rb e S cnt (length xs) b' im'"
    "\<forall>a \<in> {seg_addr rb e S (length xs)..<seg_addr rb e S (length xs) + (S + 24)}. im_mem im' a = im_mem im1 a"
    using Suc.IH [OF s(2,3) n] by blast
  have "im_mem im1 a = im_mem im a" if "a \<in> {seg_addr rb e S (length xs)..<seg_addr rb e S (length xs) + (S + 24)}" for a
  proof -
    have "length xs \<noteq> j - 1" using j by simp
    with lat_release_outside [OF this assms(5) that] s(4) show ?thesis by simp
  qed
  moreover have "la_message (im_mem im1) (seg_addr rb e S j) (xs ! j) (seg_at e (S + 24) (Suc j mod cnt))"
    using s(3) j by (simp add: lat_ring_def)
  ultimately show ?case using s(1) t by (simp add: la_message_def Cons_nth_drop_Suc [OF j])
qed

lemma take_all:
  assumes "lat_iter rb e S cnt j b im" "lat_ring rb e cnt S c xs j (im_mem im)" "j + n = length xs" "length xs \<le> cnt" "8 \<le> e"
    and "\<forall>x \<in> set xs. length x \<le> S"
  shows "\<exists>b' im'. take_messages n b im = Inr (drop j xs, b', im') \<and> lat_ring rb e cnt S c xs (length xs) (im_mem im')"
  using take_rest [OF assms] by blast

lemma lat_iter_start:
  assumes "getIteratorLat hdl rb m = (b, im)" "bh_entrySegments hdl = [seg]" "seg_offset seg = e" "8 \<le> e" "e < 2 ^ 64" "0 < cnt"
  shows "lat_iter rb e S cnt 0 b im" "im_mem im = m"
proof -
  have "im = \<lparr>im_mem = m, im_heap = [markEndSegment False (markEndSegment True header_init)]\<rparr>" "bi_lat b"
    "bi_pointer b = 0" "bi_rdmaBuffer b = rb"
    "bi_iters b = [\<lparr>ih_iter = newSegmentIterator e rb, ih_end = fst (getEndSegmentIterator \<lparr>im_mem = m, im_heap = []\<rparr>),
       ih_prev = fst (getEndSegmentIterator \<lparr>im_mem = m, im_heap = []\<rparr>), ih_counterOffset = sub64 e 8\<rparr>]"
    using assms(1-3)
    by (auto simp: getIteratorLat_def newBufferIterator_def getEndSegmentIterator_def assign_def deref_def Let_def)
  then show "lat_iter rb e S cnt 0 b im" "im_mem im = m"
    using assms(4-6) by (auto simp: lat_iter_def newSegmentIterator_def getEndSegmentIterator_def seg_at_def sub64_small)
qed

section \<open>Properties\<close>

text \<open>
  Messages arrive one by one. What a \<open>BufferWriterLat\<close> at the beginning of its ring appends, as many messages as
  there are free segments and with room in the internal buffer, is read on the node by \<open>BufferIteratorLat\<close> without waiting:
  one message per call, in order, each with exactly its bytes. Afterwards all segments but the last have been given
  back, and the counter in front of the ring, which the writer waits on, has grown by exactly their number.
\<close>

lemma lat_end_to_end:
  assumes "ring_stream V p cq lkey rkey lreg rreg slots up rmem due busy posted pend rank cfg rb e cnt S h ptr cap"
    and "la_set_up (cfg_RDMA_MAX_WR cfg) p cq lkey rkey rb h ptr cap off s" and "la_at e cnt S 0 s"
    and "up w" and "\<not> pend w" and "posted w \<le> cl_countWR (la_client s)" and "busy w \<subseteq> {ptr..<ptr + off}"
    and "length msgs \<le> la_writeableFreeSegments s" and "la_writeableFreeSegments s < 2 ^ 64" and "length msgs \<le> cnt"
    and "off + sum_list (map (\<lambda>(d, n, sig). n + 24) msgs) + 24 \<le> cap"
    and "\<forall>(d, n, sig) \<in> set msgs. n \<le> S \<and> {d..<d + n} \<inter> lreg = {}"
    and "isWriteable (get_header (lmem w) h)" and "\<not> isEndSegment (get_header (lmem w) h)"
    and "8 \<le> e" and "bh_entrySegments hdl = [\<lparr>seg_offset = e, seg_size = S\<rparr>]"
  shows "\<exists>s' w' b im. la_appends V cfg msgs s w = Inr (True, s', w') \<and>
    (case getIteratorLat hdl rb (rmem w') of (b0, im0) \<Rightarrow> take_messages (length msgs) b0 im0) =
      Inr (map (\<lambda>(d, n, sig). mem_read (lmem w) d n) msgs, b, im) \<and>
    (\<forall>i. Suc i < length msgs \<longrightarrow> fresh_header (get_header (im_mem im) (ring_at rb e cnt S i))) \<and>
    load64 (im_mem im) (rb + (e - 8)) = u64 (load64 (rmem w) (rb + (e - 8)) + (length msgs - 1))"
proof -
  let ?xs = "map (\<lambda>(d, n, sig). mem_read (lmem w) d n) msgs" and ?c = "load64 (rmem w) (rb + (e - 8))"
  have cnt: "0 < cnt" using assms(3) by (simp add: la_at_def)
  have e: "e < 2 ^ 64" using ring_link.ring_fits [OF ring_stream.axioms(1) [OF assms(1)]] by simp
  have at: "ring_at rb e cnt S i = seg_addr rb e S i" if "i < length msgs" for i
    using that assms(10) by (simp add: ring_at_def)
  from ring_stream.la_appends_ok [OF assms(1) la_conn_start [OF assms(1,2,4-7)] assms(3,8-14)]
  obtain s' w' where w': "la_appends V cfg msgs s w = Inr (True, s', w')"
    "\<forall>i < length msgs. case msgs ! i of (d, n, sig) \<Rightarrow>
       la_message (rmem w') (ring_at rb e cnt S i) (mem_read (lmem w) d n) (seg_at e (S + 24) (Suc i mod cnt))"
    "\<forall>a. (\<forall>i < length msgs. a \<notin> {ring_at rb e cnt S i..<ring_at rb e cnt S i + (S + 24)}) \<longrightarrow> rmem w' a = rmem w a"
    by auto
  have "rmem w' a = rmem w a" if "rb + (e - 8) \<le> a" "a < rb + (e - 8) + 8" for a
  proof -
    have "a < ring_at rb e cnt S i" for i
      using that(2) assms(15) seg_at_ge [of e "S + 24" "i mod cnt"] by (simp add: ring_at_def)
    then show ?thesis using w'(3) by (simp add: not_le)
  qed
  then have counter: "load64 (rmem w') (rb + (e - 8)) = ?c"
    unfolding load64_def by (intro arg_cong [of _ _ le_nat] mem_read_cong)
  have msgs: "\<forall>x \<in> set ?xs. length x \<le> S" using assms(12) by auto
  obtain b0 im0 where it: "getIteratorLat hdl rb (rmem w') = (b0, im0)" by force
  note start = lat_iter_start [OF it assms(16) _ assms(15) e cnt, simplified]
  have "lat_ring rb e cnt S ?c ?xs 0 (im_mem im0)"
    using w'(2) counter at by (auto simp: start(2) lat_ring_def u64_def split: prod.splits)
  from take_all [OF start(1) this _ _ assms(15) msgs] assms(10)
  obtain b im where "take_messages (length msgs) b0 im0 = Inr (?xs, b, im)" "lat_ring rb e cnt S ?c ?xs (length msgs) (im_mem im)"
    by auto
  then show ?thesis using w'(1) it at by (auto simp: lat_ring_def)
qed

lemma lat_end_to_end_instance:
  "\<exists>s' w' b im. la_appends fab_verbs fab_config [(0, 16, False), (100, 5, False)] (fab_latency 0) fab_world = Inr (True, s', w') \<and>
    (case getIteratorLat (la_handle (fab_latency 0)) 65536 (fab_rmem w') of (b0, im0) \<Rightarrow> take_messages 2 b0 im0) =
      Inr ([mem_read (lmem fab_world) 0 16, mem_read (lmem fab_world) 100 5], b, im)"
proof -
  let ?msgs = "[(0, 16, False), (100, 5, False)] :: (nat \<times> nat \<times> bool) list"
  have "\<exists>s' w' b im. la_appends fab_verbs fab_config ?msgs (fab_latency 0) fab_world = Inr (True, s', w') \<and>
    (case getIteratorLat (la_handle (fab_latency 0)) 65536 (fab_rmem w') of (b0, im0) \<Rightarrow> take_messages (length ?msgs) b0 im0) =
      Inr (map (\<lambda>(d, n, sig). mem_read (lmem fab_world) d n) ?msgs, b, im) \<and>
    (\<forall>i. Suc i < length ?msgs \<longrightarrow> fresh_header (get_header (im_mem im) (ring_at 65536 64 4 16 i))) \<and>
    load64 (im_mem im) (65536 + (64 - 8)) = u64 (load64 (fab_rmem fab_world) (65536 + (64 - 8)) + (length ?msgs - 1))"
    by (rule lat_end_to_end [OF fab_lat.ring_stream_axioms, where off = 0])
      (use fab_world_start fab_latency_start in \<open>auto simp: fab_lreg_def fab_latency_free fab_latency_def newBufferHandle_def\<close>)
  then obtain s' w' b im where "la_appends fab_verbs fab_config ?msgs (fab_latency 0) fab_world = Inr (True, s', w')"
    "(case getIteratorLat (la_handle (fab_latency 0)) 65536 (fab_rmem w') of (b0, im0) \<Rightarrow> take_messages (length ?msgs) b0 im0) =
      Inr (map (\<lambda>(d, n, sig). mem_read (lmem fab_world) d n) ?msgs, b, im)"
    by blast
  then show ?thesis
    by (intro exI conjI) (assumption, simp only: list.size list.map prod.case, simp add: numeral_2_eq_2)
qed

end
