(* ===== verification/Message_Spec.thy ===== *)
theory Message_Spec
  imports Channel_Spec
begin

text \<open>
  What a low-latency ring promises: a bounded first-in first-out channel of whole messages whose writer works on
  credit. A place is the writer's again when the consumer has asked for the message after the one in it, but the writer learns of
  it only when it has used up its credit and looks.
\<close>

section \<open>The channel\<close>

text \<open>
  \<open>mf_credit\<close> counts the places the writer may fill, \<open>mf_news\<close> those given back since it last looked.
\<close>

record mfifo =
  mf_todo :: "byte list list"
  mf_credit :: nat
  mf_news :: nat
  mf_queue :: "byte list list"
  mf_held :: "byte list option"
  mf_out :: "byte list list"

definition mf_places :: "mfifo \<Rightarrow> byte list list" where
  "mf_places f = (case mf_held f of None \<Rightarrow> [] | Some x \<Rightarrow> [x]) @ mf_queue f"

definition mfifo_start :: "nat \<Rightarrow> byte list list \<Rightarrow> mfifo" where
  "mfifo_start cnt msgs = \<lparr>mf_todo = msgs, mf_credit = cnt, mf_news = 0, mf_queue = [], mf_held = None, mf_out = []\<rparr>"

definition mfifo_writer :: "mfifo \<Rightarrow> mfifo" where
  "mfifo_writer f =
     (case mf_todo f of [] \<Rightarrow> f
      | x # rest \<Rightarrow>
          if mf_credit f = 0 then f\<lparr>mf_credit := mf_news f, mf_news := 0\<rparr>
          else f\<lparr>mf_todo := rest, mf_credit := mf_credit f - 1, mf_queue := mf_queue f @ [x]\<rparr>)"

definition mfifo_consumer :: "mfifo \<Rightarrow> mfifo" where
  "mfifo_consumer f =
     (case mf_queue f of [] \<Rightarrow> f
      | x # xs \<Rightarrow>
          (case mf_held f of
             None \<Rightarrow> f\<lparr>mf_held := Some x, mf_queue := xs\<rparr>
           | Some y \<Rightarrow> f\<lparr>mf_held := Some x, mf_queue := xs, mf_out := mf_out f @ [y], mf_news := Suc (mf_news f)\<rparr>))"

definition mfifo_turn :: "bool \<Rightarrow> mfifo \<Rightarrow> mfifo" where
  "mfifo_turn writer f = (if writer then mfifo_writer f else mfifo_consumer f)"

fun mfifo_run :: "(nat \<Rightarrow> bool) \<Rightarrow> nat \<Rightarrow> mfifo \<Rightarrow> mfifo" where
  "mfifo_run sched 0 f = f"
| "mfifo_run sched (Suc n) f = mfifo_turn (sched n) (mfifo_run sched n f)"

text \<open>All messages, in order: read, in the consumer's hands, on their way, and still to be appended.\<close>

definition mf_all :: "mfifo \<Rightarrow> byte list list" where
  "mf_all f = mf_out f @ mf_places f @ mf_todo f"

definition mf_done :: "mfifo \<Rightarrow> bool" where
  "mf_done f \<longleftrightarrow> mf_todo f = [] \<and> mf_queue f = []"

definition mfifo_ok :: "nat \<Rightarrow> mfifo \<Rightarrow> bool" where
  "mfifo_ok cnt f \<longleftrightarrow> mf_credit f + mf_news f + length (mf_places f) = cnt"

section \<open>Nothing is lost and nobody waits for ever\<close>

lemmas mfifo_defs = mfifo_turn_def mfifo_writer_def mfifo_consumer_def mf_places_def

lemma mfifo_start_simps [simp]:
  "mf_all (mfifo_start cnt msgs) = msgs" "mfifo_ok cnt (mfifo_start cnt msgs)"
  by (simp_all add: mf_all_def mfifo_ok_def mfifo_start_def mf_places_def)

lemma mfifo_turn_ok:
  "mfifo_ok cnt f \<Longrightarrow> mfifo_ok cnt (mfifo_turn side f)" "mf_all (mfifo_turn side f) = mf_all f"
  by (auto simp: mfifo_ok_def mf_all_def mfifo_defs split: list.splits option.splits)

lemma mfifo_run_ok: "mfifo_ok cnt f \<Longrightarrow> mfifo_ok cnt (mfifo_run sched n f) \<and> mf_all (mfifo_run sched n f) = mf_all f"
  by (induction n) (simp_all add: mfifo_turn_ok)

lemma mf_done_all: "mf_done f \<Longrightarrow> mf_out f @ (case mf_held f of None \<Rightarrow> [] | Some x \<Rightarrow> [x]) = mf_all f"
  by (simp add: mf_done_def mf_all_def mf_places_def)

definition mf_rank :: "mfifo \<Rightarrow> nat" where
  "mf_rank f = 3 * length (mf_todo f) + length (mf_queue f) + (if mf_credit f = 0 then 1 else 0)"

lemma mfifo_turn_rank: "mfifo_turn side f \<noteq> f \<Longrightarrow> mf_rank (mfifo_turn side f) < mf_rank f"
  by (cases f; cases "mf_todo f"; cases "mf_queue f"; cases "mf_news f")
    (auto simp: mfifo_defs mf_rank_def split: option.splits if_splits)

lemma mfifo_no_deadlock:
  assumes "mfifo_ok cnt f" "2 \<le> cnt" "\<not> mf_done f"
  shows "\<exists>side. mfifo_turn side f \<noteq> f"
proof (cases "mf_queue f")
  case (Cons x xs)
  then have "mf_queue (mfifo_consumer f) \<noteq> mf_queue f" by (simp add: mfifo_consumer_def split: option.split)
  then show ?thesis by (intro exI [of _ False]) (auto simp: mfifo_turn_def)
next
  case Nil
  then obtain x rest where t: "mf_todo f = x # rest" using assms(3) by (auto simp: mf_done_def neq_Nil_conv)
  have "length (mf_places f) \<le> 1" using Nil by (simp add: mf_places_def split: option.split)
  then have "mf_credit f \<noteq> 0 \<or> mf_news f \<noteq> 0" using assms(1,2) by (auto simp: mfifo_ok_def)
  then have "mfifo_writer f \<noteq> f"
  proof (cases "mf_credit f = 0")
    case True
    with \<open>mf_credit f \<noteq> 0 \<or> mf_news f \<noteq> 0\<close> have "mf_credit (mfifo_writer f) \<noteq> mf_credit f"
      by (simp add: mfifo_writer_def t)
    then show ?thesis by auto
  next
    case False
    then have "mf_todo (mfifo_writer f) = rest" by (simp add: mfifo_writer_def t)
    then show ?thesis using t by auto
  qed
  then show ?thesis by (intro exI [of _ True]) (simp add: mfifo_turn_def)
qed

lemma mfifo_run_add: "mfifo_run sched (n + k) f = mfifo_run (\<lambda>i. sched (n + i)) k (mfifo_run sched n f)"
  by (induction k) auto

lemma mfifo_progress:
  assumes "mfifo_ok cnt f" "2 \<le> cnt" "\<not> mf_done f" "fair sched"
  shows "\<exists>n. mf_rank (mfifo_run sched n f) < mf_rank f"
proof (rule ccontr)
  assume none: "\<not> ?thesis"
  have same: "mfifo_run sched n f = f" for n
  proof (induction n)
    case (Suc n)
    show ?case
    proof (rule ccontr)
      assume "mfifo_run sched (Suc n) f \<noteq> f"
      then have "mf_rank (mfifo_run sched (Suc n) f) < mf_rank f" using Suc mfifo_turn_rank by simp
      with none show False by blast
    qed
  qed simp
  obtain side where "mfifo_turn side f \<noteq> f" using mfifo_no_deadlock [OF assms(1-3)] by blast
  moreover obtain m where "sched m = side" using assms(4) unfolding fair_def by blast
  ultimately show False using same [of m] same [of "Suc m"] by simp
qed

lemma mfifo_delivers:
  assumes "mfifo_ok cnt f" "2 \<le> cnt" "fair sched"
  shows "\<exists>n. mf_done (mfifo_run sched n f)"
  using assms
proof (induction "mf_rank f" arbitrary: f sched rule: less_induct)
  case less
  show ?case
  proof (cases "mf_done f")
    case True
    then show ?thesis by (intro exI [of _ 0]) simp
  next
    case False
    then obtain n where n: "mf_rank (mfifo_run sched n f) < mf_rank f"
      using mfifo_progress less.prems by blast
    have "mfifo_ok cnt (mfifo_run sched n f)" using mfifo_run_ok [OF less.prems(1)] by blast
    then obtain k where "mf_done (mfifo_run (\<lambda>i. sched (n + i)) k (mfifo_run sched n f))"
      using less.hyps [OF n _ less.prems(2) fair_shift [OF less.prems(3)]] by blast
    then show ?thesis unfolding mfifo_run_add [symmetric] by blast
  qed
qed

section \<open>The interface of an implementation\<close>

text \<open>Turns of the two sides as a schedule gives them; either may fail.\<close>

fun turns_run :: "('s \<Rightarrow> 's result) \<Rightarrow> ('s \<Rightarrow> 's result) \<Rightarrow> (nat \<Rightarrow> bool) \<Rightarrow> nat \<Rightarrow> 's \<Rightarrow> 's result" where
  "turns_run wturn cturn sched 0 s = Inr s"
| "turns_run wturn cturn sched (Suc n) s =
     bindR (turns_run wturn cturn sched n s) (\<lambda>t. if sched n then wturn t else cturn t)"

locale message_channel =
  fixes cnt :: nat and sim :: "'s \<Rightarrow> mfifo \<Rightarrow> bool" and wturn :: "'s \<Rightarrow> 's result" and cturn :: "'s \<Rightarrow> 's result"
    and out :: "'s \<Rightarrow> byte list list" and held :: "'s \<Rightarrow> byte list option"
  assumes two_places: "2 \<le> cnt"
    and sim_writer: "sim s f \<Longrightarrow> mfifo_ok cnt f \<Longrightarrow> \<exists>t. wturn s = Inr t \<and> sim t (mfifo_writer f)"
    and sim_consumer: "sim s f \<Longrightarrow> mfifo_ok cnt f \<Longrightarrow> \<exists>t. cturn s = Inr t \<and> sim t (mfifo_consumer f)"
    and sim_view: "sim s f \<Longrightarrow> mfifo_ok cnt f \<Longrightarrow> out s = mf_out f \<and> held s = mf_held f"
begin

lemma run_refines:
  assumes "sim s f" "mfifo_ok cnt f"
  shows "\<exists>t. turns_run wturn cturn sched n s = Inr t \<and> sim t (mfifo_run sched n f)"
proof (induction n)
  case 0
  with assms(1) show ?case by simp
next
  case (Suc n)
  then obtain t where t: "turns_run wturn cturn sched n s = Inr t" "sim t (mfifo_run sched n f)" by blast
  have ok: "mfifo_ok cnt (mfifo_run sched n f)" using mfifo_run_ok [OF assms(2)] by blast
  show ?case
    using sim_writer [OF t(2) ok] sim_consumer [OF t(2) ok] t(1) by (auto simp: mfifo_turn_def)
qed

lemma run_delivers:
  assumes "sim s f" "mfifo_ok cnt f" "fair sched"
  shows "\<exists>n t. turns_run wturn cturn sched n s = Inr t \<and>
    out t @ (case held t of None \<Rightarrow> [] | Some x \<Rightarrow> [x]) = mf_all f"
proof -
  obtain n where n: "mf_done (mfifo_run sched n f)" using mfifo_delivers [OF assms(2) two_places assms(3)] by blast
  obtain t where "turns_run wturn cturn sched n s = Inr t" "sim t (mfifo_run sched n f)"
    using run_refines [OF assms(1,2)] by blast
  with n sim_view mf_done_all mfifo_run_ok [OF assms(2)] show ?thesis by metis
qed

end

end
