(* ===== verification/Lat_Protocol.thy ===== *)
theory Lat_Protocol
  imports Lat_Consumer Message_Spec Ring_Protocol
begin

text \<open>
  A low-latency writer and its consumer working on one ring at the same time, for any number of laps, as far as the node's
  memory is concerned: the groundwork of \<open>Lat_Session\<close>, which runs the writer's code. The writer's side here is only what a
  transfer of \<open>BufferWriterLat\<close> is to do to the node's memory, without internal buffer and adapter; the consumer's side is the
  model of \<open>BufferIteratorLat\<close> itself, one round of \<open>has_next\<close> and \<open>next\<close> per turn. The turns of both simulate those of the
  channel of \<open>Message_Spec\<close>. At the end, what a counter that wraps around does to \<open>append\<close>.
\<close>

section \<open>The two sides\<close>

text \<open>
  The writer: \<open>lw_index\<close> is \<open>m_segmentIndex\<close>, \<open>lw_header\<close> the local copy of the header, \<open>lw_free\<close> the number of free segments it
  knows of, \<open>lw_seen\<close> the counter as it last read it, and \<open>lw_todo\<close> the messages to be appended.
\<close>

record lat_writer =
  lw_index :: nat
  lw_header :: DPI_SEGMENT_HEADER_t
  lw_free :: nat
  lw_seen :: nat
  lw_todo :: "byte list list"

text \<open>The header that goes in front of a message of \<open>n\<close> bytes, made from the one before.\<close>

definition message_header :: "nat \<Rightarrow> nat \<Rightarrow> DPI_SEGMENT_HEADER_t \<Rightarrow> DPI_SEGMENT_HEADER_t" where
  "message_header n nxt hdr = (setConsumable True (hdr\<lparr>counter := n\<rparr>))\<lparr>nextSegmentOffset := nxt\<rparr>"

text \<open>One transfer: one reading of the counter, if no segment is free, or one message.\<close>

definition lat_turn :: "nat \<Rightarrow> nat \<Rightarrow> nat \<Rightarrow> nat \<Rightarrow> lat_writer \<Rightarrow> mem \<Rightarrow> lat_writer \<times> mem" where
  "lat_turn rb e cnt S s m =
     (case lw_todo s of [] \<Rightarrow> (s, m)
      | x # rest \<Rightarrow>
          if lw_free s = 0 then
            let now = load64 m (rb + (e - 8)) in
            (s\<lparr>lw_free := (if now < lw_seen s then add64 now (sub64 (2 ^ 64 - 1) (lw_seen s)) else sub64 now (lw_seen s)),
               lw_seen := now\<rparr>, m)
          else
            let nxt = (if lw_index s = cnt - 1 then 0 else lw_index s + 1);
                hdr = message_header (length x) (seg_at e (S + 24) nxt) (lw_header s)
            in (s\<lparr>lw_index := nxt, lw_header := hdr, lw_free := lw_free s - 1, lw_todo := rest\<rparr>,
                mem_write m (rb + seg_at e (S + 24) (lw_index s)) (header_bytes hdr @ x)))"

text \<open>
  Writer and consumer on the node's memory. The consumer's message is read when it asks for the next one, as late as the
  program may read it.
\<close>

record 'w lat_session =
  ls_writer :: 'w
  ls_iter :: BufferIterator
  ls_im :: iter_mem
  ls_held :: "(header_ptr \<times> nat) option"
  ls_out :: "byte list list"

definition lat_held :: "'w lat_session \<Rightarrow> byte list option" where
  "lat_held s = (case ls_held s of Some (InBuffer a, n) \<Rightarrow> Some (mem_read (im_mem (ls_im s)) (a + 24) n) | _ \<Rightarrow> None)"

abbreviation message_list :: "byte list option \<Rightarrow> byte list list" where
  "message_list x \<equiv> (case x of None \<Rightarrow> [] | Some y \<Rightarrow> [y])"

definition lat_session_writer :: "nat \<Rightarrow> nat \<Rightarrow> nat \<Rightarrow> nat \<Rightarrow> lat_writer lat_session \<Rightarrow> lat_writer lat_session" where
  "lat_session_writer rb e cnt S s =
     (case lat_turn rb e cnt S (ls_writer s) (im_mem (ls_im s)) of (wr, m) \<Rightarrow>
      s\<lparr>ls_writer := wr, ls_im := (ls_im s)\<lparr>im_mem := m\<rparr>\<rparr>)"

definition lat_session_consumer :: "'w lat_session \<Rightarrow> 'w lat_session result" where
  "lat_session_consumer s =
     (if bi_iters (ls_iter s) = [] then Inr s
      else bindR (has_next_step (ls_iter s, ls_im s)) (\<lambda>(found, b, im).
        if found then
          bindR (next_segment b im) (\<lambda>(ret, b, im).
            Inr (s\<lparr>ls_iter := b, ls_im := im, ls_held := Some ret, ls_out := ls_out s @ message_list (lat_held s)\<rparr>))
        else Inr (s\<lparr>ls_iter := b, ls_im := im\<rparr>)))"

text \<open>The start: the constructor has read the header of the entry segment and the counter.\<close>

definition lat_session_start :: "BufferHandle \<Rightarrow> nat \<Rightarrow> mem \<Rightarrow> byte list list \<Rightarrow> lat_writer lat_session" where
  "lat_session_start hdl rb m msgs =
     (case getIteratorLat hdl rb m of (b, im) \<Rightarrow>
      let e = seg_offset (hd (bh_entrySegments hdl)); n = load64 m (rb + (e - 8)) in
      \<lparr>ls_writer = \<lparr>lw_index = 0, lw_header = get_header m (rb + e), lw_free = n, lw_seen = n, lw_todo = msgs\<rparr>,
       ls_iter = b, ls_im = im, ls_held = None, ls_out = []\<rparr>)"

section \<open>The ring as a window of messages\<close>

definition lat_window :: "mem \<Rightarrow> nat \<Rightarrow> nat \<Rightarrow> nat \<Rightarrow> nat \<Rightarrow> nat \<Rightarrow> byte list list \<Rightarrow> bool" where
  "lat_window m rb e cnt S b xs \<longleftrightarrow> length xs \<le> cnt \<and>
     (\<forall>i < length xs. length (xs ! i) \<le> S \<and>
        la_message m (ring_at rb e cnt S (b + i)) (xs ! i) (seg_at e (S + 24) (Suc (b + i) mod cnt))) \<and>
     (\<forall>i. length xs \<le> i \<and> i < cnt \<longrightarrow> \<not> isConsumable (get_header m (ring_at rb e cnt S (b + i))))"

lemma ring_at_apart:
  assumes "i mod cnt \<noteq> k mod cnt" "a \<in> {ring_at rb e cnt S i..<ring_at rb e cnt S i + (S + 24)}"
  shows "a < ring_at rb e cnt S k \<or> ring_at rb e cnt S k + (S + 24) \<le> a"
  using seg_disjoint [OF assms(1), of "S + 24" "S + 24" e] assms(2) by (auto simp: ring_at_def)

lemma counter_before_ring: "8 \<le> e \<Longrightarrow> rb + (e - 8) + 8 \<le> ring_at rb e cnt S i"
  using seg_at_ge [of e "S + 24" "i mod cnt"] by (simp add: ring_at_def)

lemma window_append:
  assumes "lat_window m rb e cnt S b xs" "length xs < cnt" "length x \<le> S" "header_ok hdr" "counter hdr = length x"
    "isConsumable hdr" "isWriteable hdr" "\<not> isEndSegment hdr"
    "nextSegmentOffset hdr = seg_at e (S + 24) (Suc (b + length xs) mod cnt)"
  shows "lat_window (mem_write m (ring_at rb e cnt S (b + length xs)) (header_bytes hdr @ x)) rb e cnt S b (xs @ [x])"
proof -
  let ?p = "ring_at rb e cnt S (b + length xs)"
  let ?m = "mem_write m ?p (header_bytes hdr @ x)"
  have new: "la_message ?m ?p x (seg_at e (S + 24) (Suc (b + length xs) mod cnt))"
    using la_message_written [OF assms(4-8), of m ?p] by (simp add: assms(9))
  have same: "?m a = m a" if "i \<noteq> length xs" "i < cnt" "a \<in> {ring_at rb e cnt S (b + i)..<ring_at rb e cnt S (b + i) + (S + 24)}" for i a
  proof -
    have "(b + i) mod cnt \<noteq> (b + length xs) mod cnt" using that(1,2) assms(2) window_mod_neq by blast
    from ring_at_apart [OF this that(3)] assms(3) show ?thesis by (auto simp: mem_write_outside)
  qed
  have old: "la_message ?m (ring_at rb e cnt S (b + i)) (xs ! i) (seg_at e (S + 24) (Suc (b + i) mod cnt))" if "i < length xs" for i
  proof (rule la_message_cong [where S = S])
    show "la_message m (ring_at rb e cnt S (b + i)) (xs ! i) (seg_at e (S + 24) (Suc (b + i) mod cnt))" "length (xs ! i) \<le> S"
      using assms(1) that by (simp_all add: lat_window_def)
    show "?m a = m a" if "a \<in> {ring_at rb e cnt S (b + i)..<ring_at rb e cnt S (b + i) + (S + 24)}" for a
      using same [OF _ _ that] assms(2) \<open>i < length xs\<close> by simp
  qed
  have free: "get_header ?m (ring_at rb e cnt S (b + i)) = get_header m (ring_at rb e cnt S (b + i))"
    if "length xs < i" "i < cnt" for i
    using same [of i] that by (intro get_header_cong) auto
  have w: "\<forall>i < length xs. length (xs ! i) \<le> S"
    "\<forall>i. length xs \<le> i \<and> i < cnt \<longrightarrow> \<not> isConsumable (get_header m (ring_at rb e cnt S (b + i)))"
    using assms(1) by (auto simp: lat_window_def)
  show ?thesis
    unfolding lat_window_def
  proof (intro conjI allI impI)
    show "length (xs @ [x]) \<le> cnt" using assms(2) by simp
  next
    fix i assume i: "i < length (xs @ [x])"
    show "length ((xs @ [x]) ! i) \<le> S" using i w(1) assms(3) by (simp add: nth_append)
    show "la_message ?m (ring_at rb e cnt S (b + i)) ((xs @ [x]) ! i) (seg_at e (S + 24) (Suc (b + i) mod cnt))"
    proof (cases "i = length xs")
      case True
      with new show ?thesis by (simp only: nth_append_length)
    next
      case False
      with i have "i < length xs" by simp
      then show ?thesis using old by (simp add: nth_append)
    qed
  next
    fix i assume "length (xs @ [x]) \<le> i \<and> i < cnt"
    then show "\<not> isConsumable (get_header ?m (ring_at rb e cnt S (b + i)))" using free [of i] w(2) by simp
  qed
qed

lemma ring_at_seg: "ring_at rb e cnt S i = seg_addr rb e S (i mod cnt)"
  by (simp add: ring_at_def)

lemma window_give_back:
  assumes "lat_window m rb e cnt S b (x # xs)" "8 \<le> e"
  shows "lat_window (lat_release rb e S (b mod cnt) m) rb e cnt S (Suc b) xs"
proof -
  let ?m = "lat_release rb e S (b mod cnt) m"
  have w: "Suc (length xs) \<le> cnt"
    "\<forall>i \<le> length xs. length ((x # xs) ! i) \<le> S \<and>
       la_message m (ring_at rb e cnt S (b + i)) ((x # xs) ! i) (seg_at e (S + 24) (Suc (b + i) mod cnt))"
    "\<forall>i. length xs < i \<and> i < cnt \<longrightarrow> \<not> isConsumable (get_header m (ring_at rb e cnt S (b + i)))"
    using assms(1) by (auto simp: lat_window_def less_Suc_eq_le Suc_le_eq)
  have neq: "(b + Suc i) mod cnt \<noteq> b mod cnt" if "Suc i < cnt" for i
    using window_mod_neq [of "Suc i" cnt 0 b] that by simp
  have "length (xs ! i) \<le> S \<and> la_message ?m (ring_at rb e cnt S (Suc b + i)) (xs ! i) (seg_at e (S + 24) (Suc (Suc b + i) mod cnt))"
    if "i < length xs" for i
  proof -
    have old: "length (xs ! i) \<le> S" "la_message m (ring_at rb e cnt S (b + Suc i)) (xs ! i) (seg_at e (S + 24) (Suc (b + Suc i) mod cnt))"
      using w(2) [rule_format, of "Suc i"] that by simp_all
    have "?m a = m a" if "a \<in> {ring_at rb e cnt S (b + Suc i)..<ring_at rb e cnt S (b + Suc i) + (S + 24)}" for a
      using that w(1) \<open>i < length xs\<close> unfolding ring_at_seg by (intro lat_release_outside [OF neq assms(2)]) simp_all
    from la_message_cong [OF old(2) this old(1)] old(1) show ?thesis by simp
  qed
  moreover have "\<not> isConsumable (get_header ?m (ring_at rb e cnt S (Suc b + i)))" if "length xs \<le> i" "i < cnt" for i
  proof (cases "Suc i = cnt")
    case True
    then have "(Suc b + i) mod cnt = b mod cnt" by (metis add_Suc add_Suc_right mod_add_self2)
    then show ?thesis by (simp add: ring_at_seg lat_release_header [OF assms(2)])
  next
    case False
    then show ?thesis
      using w(3) [rule_format, of "Suc i"] neq [of i] that by (simp add: ring_at_seg lat_release_header [OF assms(2)])
  qed
  ultimately show ?thesis using w(1) by (simp add: lat_window_def)
qed

section \<open>The simulation\<close>

text \<open>Where the consumer stands: \<open>x\<close> is the message in its hands, if any, and \<open>b\<close> its place.\<close>

definition lat_consumer_at :: "nat \<Rightarrow> nat \<Rightarrow> nat \<Rightarrow> nat \<Rightarrow> nat \<Rightarrow> byte list option \<Rightarrow> 'w lat_session \<Rightarrow> bool" where
  "lat_consumer_at rb e cnt S b held s \<longleftrightarrow>
     bi_lat (ls_iter s) \<and> bi_pointer (ls_iter s) \<le> 1 \<and> bi_rdmaBuffer (ls_iter s) = rb \<and>
     (\<exists>ih. bi_iters (ls_iter s) = [ih] \<and> si_rdmaBuffer (ih_iter ih) = rb \<and> ih_counterOffset ih = e - 8 \<and>
        (case held of
           None \<Rightarrow> si_header (ih_iter ih) = InBuffer (ring_at rb e cnt S b) \<and> ls_held s = None \<and>
             (\<exists>i < length (im_heap (ls_im s)). si_header (ih_prev ih) = OnHeap i \<and>
                \<not> isEndSegment (im_heap (ls_im s) ! i) \<and> \<not> isWriteable (im_heap (ls_im s) ! i))
         | Some x \<Rightarrow> si_header (ih_iter ih) = InBuffer (ring_at rb e cnt S (Suc b)) \<and>
             si_header (ih_prev ih) = InBuffer (ring_at rb e cnt S b) \<and>
             ls_held s = Some (InBuffer (ring_at rb e cnt S b), length x)))"

definition lat_writer_at :: "nat \<Rightarrow> nat \<Rightarrow> nat \<Rightarrow> nat \<Rightarrow> nat \<Rightarrow> lat_writer lat_session \<Rightarrow> mfifo \<Rightarrow> bool" where
  "lat_writer_at rb e cnt S b s f \<longleftrightarrow>
     (let wr = ls_writer s; now = load64 (im_mem (ls_im s)) (rb + (e - 8)) in
      lw_todo wr = mf_todo f \<and> lw_free wr = mf_credit f \<and> lw_index wr = (b + length (mf_places f)) mod cnt \<and>
      now = lw_seen wr + mf_news f \<and> now + length (mf_queue f) + length (mf_todo f) < 2 ^ 64 \<and>
      header_ok (lw_header wr) \<and> isWriteable (lw_header wr) \<and> \<not> isEndSegment (lw_header wr))"

definition lat_sim :: "nat \<Rightarrow> nat \<Rightarrow> nat \<Rightarrow> nat \<Rightarrow> lat_writer lat_session \<Rightarrow> mfifo \<Rightarrow> bool" where
  "lat_sim rb e cnt S s f \<longleftrightarrow>
     ls_out s = mf_out f \<and> (\<forall>x \<in> set (mf_todo f). length x \<le> S) \<and>
     (\<exists>b. lat_window (im_mem (ls_im s)) rb e cnt S b (mf_places f) \<and> lat_writer_at rb e cnt S b s f \<and>
        lat_consumer_at rb e cnt S b (mf_held f) s)"

text \<open>The sizes that keep the ring below the end of the address space.\<close>

definition lat_fits :: "nat \<Rightarrow> nat \<Rightarrow> nat \<Rightarrow> nat \<Rightarrow> bool" where
  "lat_fits rb e cnt S \<longleftrightarrow> 8 \<le> e \<and> 2 \<le> cnt \<and> rb + e + cnt * (S + 24) < 2 ^ 64"

lemma lat_consumer_at_cong:
  assumes "lat_consumer_at rb e cnt S b held s" "ls_iter t = ls_iter s" "im_heap (ls_im t) = im_heap (ls_im s)" "ls_held t = ls_held s"
  shows "lat_consumer_at rb e cnt S b held t"
  using assms(1) unfolding lat_consumer_at_def assms(2-4) .

lemma seg_at_small: "lat_fits rb e cnt S \<Longrightarrow> seg_at e (S + 24) (i mod cnt) < 2 ^ 64"
proof -
  assume f: "lat_fits rb e cnt S"
  then have "(i mod cnt) * (S + 24) \<le> cnt * (S + 24)" by (intro mult_le_mono1) (simp add: lat_fits_def less_imp_le)
  moreover have "e + cnt * (S + 24) < 2 ^ 64" using f unfolding lat_fits_def by linarith
  ultimately show ?thesis unfolding seg_at_def by linarith
qed

lemma next_index:
  assumes "2 \<le> (cnt :: nat)"
  shows "(if i mod cnt = cnt - 1 then 0 else i mod cnt + 1) = Suc i mod cnt"
  using assms by (auto simp: mod_Suc)

text \<open>The writer's transfers.\<close>

lemma lat_sim_writer:
  assumes "lat_sim rb e cnt S s f" "mfifo_ok cnt f" "lat_fits rb e cnt S"
  shows "lat_sim rb e cnt S (lat_session_writer rb e cnt S s) (mfifo_writer f)"
proof (cases "mf_todo f")
  case Nil
  then have "lw_todo (ls_writer s) = []" using assms(1) by (auto simp: lat_sim_def lat_writer_at_def Let_def)
  then show ?thesis using assms(1) Nil by (simp add: lat_session_writer_def lat_turn_def mfifo_writer_def)
next
  case (Cons x rest)
  from assms(1) obtain b where b: "ls_out s = mf_out f" "\<forall>x \<in> set (mf_todo f). length x \<le> S"
    "lat_window (im_mem (ls_im s)) rb e cnt S b (mf_places f)" "lat_writer_at rb e cnt S b s f"
    "lat_consumer_at rb e cnt S b (mf_held f) s"
    by (auto simp: lat_sim_def)
  let ?wr = "ls_writer s" and ?m = "im_mem (ls_im s)" and ?p = "ring_at rb e cnt S (b + length (mf_places f))"
  let ?now = "load64 ?m (rb + (e - 8))"
  have w: "lw_todo ?wr = x # rest" "lw_free ?wr = mf_credit f" "lw_index ?wr = (b + length (mf_places f)) mod cnt"
    "?now = lw_seen ?wr + mf_news f" "?now + length (mf_queue f) + Suc (length rest) < 2 ^ 64"
    "header_ok (lw_header ?wr)" "isWriteable (lw_header ?wr)" "\<not> isEndSegment (lw_header ?wr)"
    using b(4) Cons by (simp_all add: lat_writer_at_def Let_def)
  have cnt: "2 \<le> cnt" "8 \<le> e" using assms(3) by (simp_all add: lat_fits_def)
  note c = lat_consumer_at_cong [OF b(5)]
  show ?thesis
  proof (cases "mf_credit f = 0")
    case True
    have "sub64 ?now (lw_seen ?wr) = mf_news f" using w(4) load64_bound [of ?m "rb + (e - 8)"] by (simp add: sub64_small)
    then have run: "lat_session_writer rb e cnt S s = s\<lparr>ls_writer := ?wr\<lparr>lw_free := mf_news f, lw_seen := ?now\<rparr>\<rparr>"
      using w(1,2,4) True by (simp add: lat_session_writer_def lat_turn_def Let_def)
    have "mf_places (mfifo_writer f) = mf_places f" "mf_held (mfifo_writer f) = mf_held f"
      using True Cons by (simp_all add: mfifo_writer_def mf_places_def)
    then show ?thesis
      unfolding run lat_sim_def using b w True Cons
      by (intro conjI exI [of _ b]) (simp_all add: lat_writer_at_def Let_def mfifo_writer_def c)
  next
    case False
    let ?nxt = "seg_at e (S + 24) (Suc (b + length (mf_places f)) mod cnt)"
    let ?hdr = "message_header (length x) ?nxt (lw_header ?wr)"
    let ?m' = "mem_write ?m ?p (header_bytes ?hdr @ x)"
    have room: "length (mf_places f) < cnt" using assms(2) False by (simp add: mfifo_ok_def)
    have len: "length x \<le> S" using b(2) Cons by simp
    also have "S \<le> 1 * (S + 24)" by simp
    also have "\<dots> \<le> cnt * (S + 24)" using cnt(1) by (intro mult_le_mono1) simp
    also have "cnt * (S + 24) < 2 ^ 64" using assms(3) unfolding lat_fits_def by linarith
    finally have "length x < 2 ^ 64" .
    then have hdr: "header_ok ?hdr" "counter ?hdr = length x" "isConsumable ?hdr" "isWriteable ?hdr" "\<not> isEndSegment ?hdr"
      "nextSegmentOffset ?hdr = ?nxt"
      using w(6-8) seg_at_small [OF assms(3)] by (simp_all add: message_header_def header_ok_def)
    have "load64 ?m' (rb + (e - 8)) = ?now"
      using counter_before_ring [OF cnt(2)] by (intro load64_write_disjoint) simp
    moreover have run: "lat_session_writer rb e cnt S s =
        s\<lparr>ls_writer := ?wr\<lparr>lw_index := Suc (b + length (mf_places f)) mod cnt, lw_header := ?hdr, lw_free := mf_credit f - 1,
            lw_todo := rest\<rparr>, ls_im := (ls_im s)\<lparr>im_mem := ?m'\<rparr>\<rparr>"
    proof -
      have "(if lw_index ?wr = cnt - 1 then 0 else lw_index ?wr + 1) = Suc (b + length (mf_places f)) mod cnt"
        unfolding w(3) by (rule next_index [OF cnt(1)])
      then show ?thesis
        unfolding lat_session_writer_def lat_turn_def Let_def w(1) by (simp add: w(2,3) False ring_at_def)
    qed
    moreover have "mf_places (mfifo_writer f) = mf_places f @ [x]" "mf_held (mfifo_writer f) = mf_held f"
      using False Cons by (simp_all add: mfifo_writer_def mf_places_def)
    moreover note window_append [OF b(3) room len hdr]
    ultimately show ?thesis
      unfolding lat_sim_def using b(1,2) w hdr False Cons
      by (intro conjI exI [of _ b]) (simp_all add: lat_writer_at_def Let_def mfifo_writer_def c)
  qed
qed

text \<open>The consumer's turns.\<close>

lemma lat_next_segment:
  assumes "bi_iters b = [ih]" "bi_pointer b = 0" "mark_prev_segment b im = Inr im'" "si_rdmaBuffer (ih_iter ih) = rb"
    "si_header (ih_iter ih) = InBuffer a" "la_message (im_mem im') a x nxt"
  shows "\<exists>ih'. next_segment b im = Inr ((InBuffer a, length x), b\<lparr>bi_iters := [ih'], bi_pointer := 1\<rparr>, im') \<and>
    si_rdmaBuffer (ih_iter ih') = rb \<and> ih_counterOffset ih' = ih_counterOffset ih \<and>
    si_header (ih_iter ih') = InBuffer (rb + nxt) \<and> si_header (ih_prev ih') = InBuffer a"
  using assms
  by (intro exI [of _ "ih\<lparr>ih_prev := ih_iter ih, ih_iter := si_next (ih_iter ih) im'\<rparr>"])
    (simp add: next_segment_def getRawData_def deref_def si_next_def la_message_def Let_def)

lemma lat_sim_consumer:
  assumes "lat_sim rb e cnt S s f" "mfifo_ok cnt f" "lat_fits rb e cnt S"
  shows "\<exists>t. lat_session_consumer s = Inr t \<and> lat_sim rb e cnt S t (mfifo_consumer f)"
proof -
  from assms(1) obtain b ih where b: "ls_out s = mf_out f" "\<forall>x \<in> set (mf_todo f). length x \<le> S"
    "lat_window (im_mem (ls_im s)) rb e cnt S b (mf_places f)" "lat_writer_at rb e cnt S b s f"
    "lat_consumer_at rb e cnt S b (mf_held f) s"
    and ih: "bi_iters (ls_iter s) = [ih]" "si_rdmaBuffer (ih_iter ih) = rb" "ih_counterOffset ih = e - 8"
    by (auto simp: lat_sim_def lat_consumer_at_def)
  let ?it = "ls_iter s" and ?im = "ls_im s"
  let ?b = "?it\<lparr>bi_pointer := 0\<rparr>"
  have it: "bi_lat ?it" "bi_pointer ?it \<le> 1" "bi_rdmaBuffer ?it = rb" using b(5) by (auto simp: lat_consumer_at_def)
  have cnt: "2 \<le> cnt" "8 \<le> e" using assms(3) by (simp_all add: lat_fits_def)
  have none: "si_header (ih_iter ih) = InBuffer (ring_at rb e cnt S b)" "ls_held s = None"
    "\<exists>i < length (im_heap ?im). si_header (ih_prev ih) = OnHeap i \<and> \<not> isEndSegment (im_heap ?im ! i) \<and> \<not> isWriteable (im_heap ?im ! i)"
    if "mf_held f = None"
    using b(5) ih(1) that by (simp_all add: lat_consumer_at_def)
  have some: "si_header (ih_iter ih) = InBuffer (ring_at rb e cnt S (Suc b))" "si_header (ih_prev ih) = InBuffer (ring_at rb e cnt S b)"
    "ls_held s = Some (InBuffer (ring_at rb e cnt S b), length y)"
    "la_message (im_mem ?im) (ring_at rb e cnt S b) y (seg_at e (S + 24) (Suc b mod cnt))"
    "lat_held s = Some y"
    if "mf_held f = Some y" for y
  proof -
    show h: "si_header (ih_iter ih) = InBuffer (ring_at rb e cnt S (Suc b))" "si_header (ih_prev ih) = InBuffer (ring_at rb e cnt S b)"
      "ls_held s = Some (InBuffer (ring_at rb e cnt S b), length y)"
      using b(5) ih(1) that by (simp_all add: lat_consumer_at_def)
    have "mf_places f ! 0 = y" "0 < length (mf_places f)" using that by (simp_all add: mf_places_def)
    with b(3) show m: "la_message (im_mem ?im) (ring_at rb e cnt S b) y (seg_at e (S + 24) (Suc b mod cnt))"
      unfolding lat_window_def by (metis add.right_neutral)
    then show "lat_held s = Some y" using h by (simp add: lat_held_def la_message_def)
  qed
  have prev_open: "\<not> isEndSegment (deref (si_header (ih_prev ih)) ?im)"
    using none(3) some(2,4) by (cases "mf_held f") (auto simp: deref_def la_message_def)
  show ?thesis
  proof (cases "mf_queue f")
    case Nil
    have "\<not> isConsumable (deref (si_header (ih_iter ih)) ?im)"
    proof (cases "mf_held f")
      case None
      with Nil have "mf_places f = []" by (simp add: mf_places_def)
      with b(3) cnt(1) have "\<not> isConsumable (get_header (im_mem ?im) (ring_at rb e cnt S (b + 0)))"
        unfolding lat_window_def by (metis le0 list.size(3) less_le_trans zero_less_numeral)
      then show ?thesis using none(1) None by (simp add: deref_def)
    next
      case (Some y)
      with Nil have "length (mf_places f) = 1" by (simp add: mf_places_def)
      with b(3) cnt(1) have "\<not> isConsumable (get_header (im_mem ?im) (ring_at rb e cnt S (b + 1)))"
        by (auto simp: lat_window_def)
      then show ?thesis using some(1) Some by (simp add: deref_def)
    qed
    then have "lat_session_consumer s = Inr (s\<lparr>ls_iter := ?it\<lparr>bi_pointer := 1\<rparr>\<rparr>)"
      using has_next_step_single [OF ih(1) it(2)] prev_open ih(1) by (simp add: lat_session_consumer_def)
    moreover have "lat_sim rb e cnt S (s\<lparr>ls_iter := ?it\<lparr>bi_pointer := 1\<rparr>\<rparr>) (mfifo_consumer f)"
    proof -
      have "lat_consumer_at rb e cnt S b (mf_held f) (s\<lparr>ls_iter := ?it\<lparr>bi_pointer := 1\<rparr>\<rparr>)"
        using b(5) by (cases "mf_held f") (simp_all add: lat_consumer_at_def)
      then show ?thesis
        using b Nil by (auto simp: lat_sim_def mfifo_consumer_def lat_writer_at_def)
    qed
    ultimately show ?thesis by blast
  next
    case (Cons x xs)
    let ?ctr = "rb + (e - 8)" and ?m = "im_mem ?im"
    obtain k im' where im': "mark_prev_segment ?b ?im = Inr im'" "lat_window (im_mem im') rb e cnt S k (x # xs)"
      "la_message ?m (ring_at rb e cnt S k) x (seg_at e (S + 24) (Suc k mod cnt))"
      "si_header (ih_iter ih) = InBuffer (ring_at rb e cnt S k)"
      "load64 (im_mem im') ?ctr = load64 ?m ?ctr + length (message_list (mf_held f))"
      "k + Suc (length xs) = b + length (mf_places f)"
    proof (cases "mf_held f")
      case None
      then have places: "mf_places f = x # xs" using Cons by (simp add: mf_places_def)
      obtain i where "si_header (ih_prev ih) = OnHeap i" "\<not> isWriteable (im_heap ?im ! i)" using none(3) None by blast
      then have "mark_prev_segment ?b ?im = Inr ?im"
        using mark_prev_lat(1) [of ?b ih rb e i ?im] ih it cnt(2) by simp
      moreover have "la_message ?m (ring_at rb e cnt S (b + 0)) ((x # xs) ! 0) (seg_at e (S + 24) (Suc (b + 0) mod cnt))"
        using b(3) unfolding lat_window_def places by blast
      ultimately show thesis using that [of ?im b] b(3) none(1) None places by simp
    next
      case (Some y)
      then have places: "mf_places f = y # x # xs" using Cons by (simp add: mf_places_def)
      let ?im' = "?im\<lparr>im_mem := lat_release rb e S (b mod cnt) ?m\<rparr>"
      have "mark_prev_segment ?b ?im = Inr ?im'"
        using mark_prev_lat(2) [of ?b ih rb e S "b mod cnt" ?im] some(2,4) [OF Some] ih it cnt(2)
        by (simp add: ring_at_seg la_message_def)
      moreover have "la_message ?m (ring_at rb e cnt S (b + 1)) ((y # x # xs) ! 1) (seg_at e (S + 24) (Suc (b + 1) mod cnt))"
        using b(3) unfolding lat_window_def places by (elim conjE allE [of _ 1]) simp
      moreover have "load64 ?m ?ctr + 1 < 2 ^ 64" using b(4) Cons by (simp add: lat_writer_at_def Let_def)
      then have "load64 (im_mem ?im') ?ctr = load64 ?m ?ctr + 1" by (simp add: lat_release_counter [OF cnt(2)] add64_small)
      moreover have "lat_window (im_mem ?im') rb e cnt S (Suc b) (x # xs)" using window_give_back [OF _ cnt(2)] b(3) places by simp
      ultimately show thesis using that [of ?im' "Suc b"] some(1) [OF Some] Some places by simp
    qed
    have heap: "la_message (im_mem im') (ring_at rb e cnt S (k + 0)) ((x # xs) ! 0) (seg_at e (S + 24) (Suc (k + 0) mod cnt))"
      using im'(2) unfolding lat_window_def by blast
    then have "la_message (im_mem im') (ring_at rb e cnt S k) x (seg_at e (S + 24) (Suc k mod cnt))" by simp
    from lat_next_segment [OF _ _ im'(1) ih(2) im'(4) this] ih(1) obtain ih' where
      ih': "next_segment ?b ?im = Inr ((InBuffer (ring_at rb e cnt S k), length x), ?b\<lparr>bi_iters := [ih'], bi_pointer := 1\<rparr>, im')"
      "si_rdmaBuffer (ih_iter ih') = rb" "ih_counterOffset ih' = e - 8"
      "si_header (ih_iter ih') = InBuffer (rb + seg_at e (S + 24) (Suc k mod cnt))" "si_header (ih_prev ih') = InBuffer (ring_at rb e cnt S k)"
      using ih(3) by auto
    let ?t = "s\<lparr>ls_iter := ?b\<lparr>bi_iters := [ih'], bi_pointer := 1\<rparr>, ls_im := im',
        ls_held := Some (InBuffer (ring_at rb e cnt S k), length x), ls_out := ls_out s @ message_list (lat_held s)\<rparr>"
    have held: "lat_held s = mf_held f" using none(2) some(5) by (cases "mf_held f") (auto simp: lat_held_def)
    have "lat_session_consumer s = Inr ?t"
      using has_next_step_single [OF ih(1) it(2)] prev_open im'(3,4) ih(1) ih'(1)
      by (simp add: lat_session_consumer_def deref_def la_message_def)
    moreover have "mf_places (mfifo_consumer f) = x # xs" "mf_held (mfifo_consumer f) = Some x"
      using Cons by (simp_all add: mfifo_consumer_def mf_places_def split: option.split)
    moreover have "lat_consumer_at rb e cnt S k (Some x) ?t" using it ih' by (simp add: lat_consumer_at_def ring_at_def)
    moreover have "lat_writer_at rb e cnt S k ?t (mfifo_consumer f)"
      using b(4) im'(5,6) Cons by (auto simp: lat_writer_at_def Let_def mfifo_consumer_def mf_places_def split: option.splits)
    moreover have "mf_out (mfifo_consumer f) = mf_out f @ message_list (mf_held f)" "mf_todo (mfifo_consumer f) = mf_todo f"
      using Cons by (simp_all add: mfifo_consumer_def split: option.split)
    ultimately show ?thesis using b(1,2) im'(2) held by (intro exI [of _ ?t]) (auto simp: lat_sim_def)
  qed
qed

section \<open>The start\<close>

text \<open>
  A latency ring as the node server has made it: fresh segments, linked, and the number of segments in the word in
  front of the first.
\<close>

definition lat_ring_made :: "mem \<Rightarrow> nat \<Rightarrow> nat \<Rightarrow> nat \<Rightarrow> nat \<Rightarrow> bool" where
  "lat_ring_made m rb e cnt S \<longleftrightarrow> ring_fresh m rb e cnt (S + 24) \<and> load64 m (rb + (e - 8)) = cnt"

lemma lat_sim_start:
  assumes "bh_entrySegments hdl = [seg]" "seg_offset seg = e" "lat_ring_made m rb e cnt S" "lat_fits rb e cnt S"
    "\<forall>x \<in> set msgs. length x \<le> S" "cnt + length msgs < 2 ^ 64"
  shows "lat_sim rb e cnt S (lat_session_start hdl rb m msgs) (mfifo_start cnt msgs)"
proof -
  have cnt: "0 < cnt" "8 \<le> e" "e < 2 ^ 64" using assms(4) by (auto simp: lat_fits_def)
  obtain b im where it: "getIteratorLat hdl rb m = (b, im)" by force
  note start = lat_iter_start [OF it assms(1,2) cnt(2,3,1)]
  have fresh: "fresh_header (get_header m (ring_at rb e cnt S i))" for i
    using assms(3) cnt(1) by (simp add: lat_ring_made_def ring_fresh_def ring_at_def)
  have pos: "ring_at rb e cnt S 0 = rb + e" by (simp add: ring_at_def seg_at_def)
  have st: "lat_session_start hdl rb m msgs = \<lparr>ls_writer = \<lparr>lw_index = 0, lw_header = get_header m (rb + e), lw_free = cnt,
      lw_seen = cnt, lw_todo = msgs\<rparr>, ls_iter = b, ls_im = im, ls_held = None, ls_out = []\<rparr>"
    using assms(1-3) it by (simp add: lat_session_start_def lat_ring_made_def Let_def)
  have "lat_window (im_mem im) rb e cnt S 0 []" using fresh start(2) by (simp add: lat_window_def fresh_header_def)
  moreover have "lat_consumer_at rb e cnt S 0 None (lat_session_start hdl rb m msgs)"
    using start(1) [of S] cnt(1) by (auto simp: st lat_consumer_at_def lat_iter_def ring_at_def)
  moreover have "lat_writer_at rb e cnt S 0 (lat_session_start hdl rb m msgs) (mfifo_start cnt msgs)"
    using assms(3,6) start(2) fresh [of 0]
    by (simp add: st lat_writer_at_def mfifo_start_def mf_places_def Let_def lat_ring_made_def fresh_header_def pos)
  ultimately show ?thesis
    using assms(5) by (auto simp: lat_sim_def st mfifo_start_def mf_places_def intro!: exI [of _ 0])
qed

text \<open>What the consumer has read and has in its hands is what the channel says.\<close>

lemma lat_sim_view:
  assumes "lat_sim rb e cnt S s f"
  shows "ls_out s = mf_out f \<and> lat_held s = mf_held f"
proof -
  from assms obtain b where b: "ls_out s = mf_out f" "lat_window (im_mem (ls_im s)) rb e cnt S b (mf_places f)"
    "lat_consumer_at rb e cnt S b (mf_held f) s"
    by (auto simp: lat_sim_def)
  have "lat_held s = mf_held f"
  proof (cases "mf_held f")
    case None
    then show ?thesis using b(3) by (auto simp: lat_consumer_at_def lat_held_def)
  next
    case (Some y)
    then have "la_message (im_mem (ls_im s)) (ring_at rb e cnt S (b + 0)) ((y # mf_queue f) ! 0) (seg_at e (S + 24) (Suc (b + 0) mod cnt))"
      using b(2) by (auto simp: lat_window_def mf_places_def)
    then show ?thesis using b(3) Some by (auto simp: lat_consumer_at_def lat_held_def la_message_def)
  qed
  with b(1) show ?thesis ..
qed

section \<open>The writer of the code\<close>

text \<open>What the protocol sees of a \<open>BufferWriterLat\<close> whose header is at \<open>h\<close> and whose copy of the counter is at \<open>cp\<close>.\<close>

definition lat_view :: "nat \<Rightarrow> nat \<Rightarrow> byte list list \<Rightarrow> writer_lat \<Rightarrow> 'd world \<Rightarrow> lat_writer" where
  "lat_view h cp todo s w =
     \<lparr>lw_index = la_segmentIndex s, lw_header = get_header (lmem w) h, lw_free = la_writeableFreeSegments s,
      lw_seen = load64 (lmem w) cp, lw_todo = todo\<rparr>"

lemma next_index_at: "k < cnt \<Longrightarrow> (if k = cnt - 1 then 0 else k + 1) = Suc k mod cnt"
  by (auto simp: mod_Suc)

lemma load64_cong: "(\<And>a. p \<le> a \<Longrightarrow> a < p + 8 \<Longrightarrow> m' a = m a) \<Longrightarrow> load64 m' p = load64 m p"
  unfolding load64_def by (intro arg_cong [of _ _ le_nat] mem_read_cong)

text \<open>The counter's overflow, which the code takes for one segment less than it is.\<close>

context ring_stream
begin

lemma la_append_rollover:
  assumes "la_conn off s w" "la_at e cnt S k s" "la_counter lreg rreg rb e h ptr cap cp s" "la_writeableFreeSegments s = 0"
    and "off + n + 48 \<le> cap" "n \<le> S" "{d..<d + n} \<inter> lreg = {}"
    and "now = load64 (rmem w) (rb + (e - 8))" "old = load64 (lmem w) cp" "now < old"
  shows "\<exists>s' w'. la_append V cfg d n sig s w = Inr (True, s', w') \<and>
    la_writeableFreeSegments s' = sub64 (now + (2 ^ 64 - 1 - old)) 1"
proof -
  have neq: "now \<noteq> old" using assms(10) by simp
  obtain c w1 where w1: "la_refill V cfg s w = Inr (s\<lparr>la_client := c,
      la_writeableFreeSegments := add64 now (sub64 (2 ^ 64 - 1) old)\<rparr>, w1)" "la_conn off (s\<lparr>la_client := c\<rparr>) w1"
    using la_refill_ok [OF assms(1-4,8,9) neq] unfolding if_P [OF assms(10)] by blast
  let ?s = "s\<lparr>la_client := c, la_writeableFreeSegments := add64 now (sub64 (2 ^ 64 - 1) old)\<rparr>"
  have "old < 2 ^ 64" unfolding assms(9) by (rule load64_bound)
  then have "add64 now (sub64 (2 ^ 64 - 1) old) = now + (2 ^ 64 - 1 - old)" using assms(10) by (simp add: sub64_small add64_small)
  moreover have "la_conn off ?s w1" "la_at e cnt S k ?s" using w1(2) assms(2) by (simp_all add: la_conn_def la_set_up_def la_at_def)
  from la_append_run [OF w1(1) this assms(5-7) refl, of sig] obtain s' w' where
    "la_append V cfg d n sig s w = Inr (True, s', w')" "la_writeableFreeSegments s' = sub64 (la_writeableFreeSegments ?s) 1"
    by blast
  ultimately show ?thesis by simp
qed

end

text \<open>A writer without free segments at the end of its ring, with the counter it has seen and the one on the node.\<close>

definition lat_waiting :: writer_lat where
  "lat_waiting = (fab_latency 0)\<lparr>la_segmentIndex := 3, la_currentSegmentOffset := 184, la_writeableFreeSegments := 0\<rparr>"

definition lat_world :: "nat \<Rightarrow> nat \<Rightarrow> fab world" where
  "lat_world seen now =
     \<lparr>lmem = store64 (lmem fab_world) 6000 seen,
      dev = \<lparr>fab_mem = store64 (\<lambda>_. 0) 65592 now, fab_queue = [], fab_delay = 0\<rparr>\<rparr>"

lemma lat_waiting_start:
  "la_at 64 4 16 3 lat_waiting" "la_set_up 8 fab_qp 3 1 2 65536 4096 4120 1000 0 lat_waiting"
  "la_counter fab_lreg fab_rreg 65536 64 4096 4120 1000 6000 lat_waiting" "la_writeableFreeSegments lat_waiting = 0"
  using fab_latency_start(1,2) [of 0]
  by (auto simp: la_at_def la_set_up_def la_counter_def lat_waiting_def seg_at_def fab_lreg_def fab_rreg_def fab_latency_def)

lemma lat_world_start:
  "fab_up (lat_world seen now)" "\<not> fab_pend (lat_world seen now)" "fab_posted (lat_world seen now) = 0"
  "fab_busy (lat_world seen now) = {}" "load64 (lmem (lat_world seen now)) 6000 = u64 seen"
  "load64 (fab_rmem (lat_world seen now)) 65592 = u64 now"
  by (simp_all add: lat_world_def fab_up_def fab_pend_def fab_posted_def fab_busy_def fab_rmem_def fab_flush_def)

section \<open>Properties\<close>

text \<open>
  Claim C39. When the consumer's counter wraps around, \<open>append\<close> counts one free segment less than there is: after the
  append, \<open>now + (2 ^ 64 - old)\<close> segments have been given back and one is used, but one less is left. If only one had been
  given back, the count of free segments is 0 before the message is written and \<open>2 ^ 64 - 1\<close> after it, and the writer
  goes on without ever looking at the counter again.
\<close>

theorem counter_rollover_miscounts:
  assumes "ring_stream V p cq lkey rkey lreg rreg slots up rmem due busy posted pend rank cfg rb e cnt S h ptr cap"
    and "la_set_up (cfg_RDMA_MAX_WR cfg) p cq lkey rkey rb h ptr cap off s" and "la_at e cnt S k s"
    and "la_counter lreg rreg rb e h ptr cap cp s" "la_writeableFreeSegments s = 0"
    and "up w" "\<not> pend w" "posted w \<le> cl_countWR (la_client s)" "busy w \<subseteq> {ptr..<ptr + off}"
    and "off + n + 48 \<le> cap" "n \<le> S" "{d..<d + n} \<inter> lreg = {}"
    and "now = load64 (rmem w) (rb + (e - 8))" "old = load64 (lmem w) cp" "now < old"
  shows "\<exists>s' w'. la_append V cfg d n sig s w = Inr (True, s', w') \<and>
    la_writeableFreeSegments s' = sub64 (now + (2 ^ 64 - 1 - old)) 1"
  by (rule ring_stream.la_append_rollover [OF assms(1) la_conn_start [OF assms(1,2,6-9)] assms(3-5,10-15)])

theorem counter_rollover_miscounts_witness:
  "\<exists>s' w'. la_append fab_verbs fab_config 100 5 False lat_waiting (lat_world (2 ^ 64 - 1) 0) = Inr (True, s', w') \<and>
    la_writeableFreeSegments s' = 2 ^ 64 - 1"
  using counter_rollover_miscounts [OF fab_lat.ring_stream_axioms _ lat_waiting_start(1,3,4), of 0 "lat_world (2 ^ 64 - 1) 0" 5 100 0 "2 ^ 64 - 1" False]
    lat_waiting_start(2) lat_world_start [of "2 ^ 64 - 1" 0]
  by (simp add: fab_lreg_def u64_def sub64_def)

end
