(* ===== verification/Lat_Start.thy ===== *)
theory Lat_Start
  imports Writer_Start Lat_Protocol
begin

text \<open>
  A session on a low-latency buffer: it is registered over the network, a \<open>BufferWriterLat\<close> is constructed on its name,
  which finds the ring and the number of free segments in front of it as the protocol of \<open>Lat_Protocol\<close> starts with them,
  appends messages, and the node reads them one by one.
\<close>

section \<open>The constructor\<close>

text \<open>What the constructor leaves: the writer at the first of \<open>cnt\<close> free segments of a ring nobody has written to.\<close>

definition lat_ready ::
  "nat \<Rightarrow> ibv_qp \<Rightarrow> nat \<Rightarrow> nat \<Rightarrow> nat \<Rightarrow> nat set \<Rightarrow> nat set \<Rightarrow> nat \<Rightarrow> nat \<Rightarrow> nat \<Rightarrow> nat \<Rightarrow> nat \<Rightarrow> nat \<Rightarrow> nat \<Rightarrow> nat \<Rightarrow>
   writer_lat \<Rightarrow> mem \<Rightarrow> mem \<Rightarrow> bool" where
  "lat_ready limit p cq lkey rkey lreg rreg rb e cnt S h cp ptr cap s lm rm \<longleftrightarrow>
     la_set_up limit p cq lkey rkey rb h ptr cap 0 s \<and> la_at e cnt S 0 s \<and> la_counter lreg rreg rb e h ptr cap cp s \<and>
     la_writeableFreeSegments s = load64 rm (rb + (e - 8)) \<and> load64 lm cp = load64 rm (rb + (e - 8)) \<and>
     get_header lm h = get_header rm (rb + e)"

lemma lat_writer_constructed:
  assumes F: "rc_fabric N p cq lkey rkey lreg rreg slots up rmem due busy posted pend rank"
    and join: "joinBuffer N name rcl w = Inr (Some bh, rcl', w1)" "bh_entrySegments bh = [\<lparr>seg_offset = e, seg_size = S\<rparr>]"
      "bh_buffertype bh = LAT" "bh_segmentSizes bh = S" "bh_segmentsPerWriter bh = cnt"
    and c: "client_on (cfg_RDMA_MAX_WR cfgA) (bh_node_id bh) p cq lkey rkey rb c" "cl_manager c = ManagerRC mA"
    and mem: "mem_inv mA" "has_room (24 + (8 + isz)) mA" "S < isz" "isz < 2 ^ 32"
    and regs: "{buffer_base mA..<buffer_base mA + m_memSize mA} \<subseteq> lreg" "{rb + e..<rb + e + cnt * (S + 24)} \<subseteq> rreg"
      "rb + e + cnt * (S + 24) < 2 ^ 64" "cfg_RDMA_MAX_WR cfgA \<le> slots" "0 < S" "0 < cnt" "8 \<le> e" "{rb + (e - 8)..<rb + e} \<subseteq> rreg"
    and idle: "up w1" "\<not> pend w1" "posted w1 \<le> cl_countWR c"
  shows "\<exists>s w2 h cp ptr. newBufferWriterLat N cfgA res0 no_client name rcl isz (Some c) w = Inr (s, rcl', w2) \<and>
    ring_stream N p cq lkey rkey lreg rreg slots up rmem due busy posted pend rank cfgA rb e cnt S h ptr isz \<and>
    lat_ready (cfg_RDMA_MAX_WR cfgA) p cq lkey rkey lreg rreg rb e cnt S h cp ptr isz s (lmem w2) (rmem w2) \<and>
    la_handle s = bh \<and> up w2 \<and> \<not> pend w2 \<and> posted w2 \<le> cl_countWR (la_client s) \<and> busy w2 = {} \<and> rmem w2 = rmem w1 \<and>
    (\<forall>a. a \<notin> lreg \<longrightarrow> lmem w2 a = lmem w1 a)"
proof -
  have isz: "0 < isz" using mem(3) by simp
  obtain a m1 b m2 d m3 where M: "rc_localAlloc 24 mA = (Some (buffer_base mA + a), m1)"
    "rc_localAlloc 8 m1 = (Some (buffer_base mA + b), m2)" "rc_localAlloc isz m2 = (Some (buffer_base mA + d), m3)"
    "a + 24 \<le> m_memSize mA" "b + 8 \<le> m_memSize mA" "d + isz \<le> m_memSize mA"
    "a + 24 \<le> b \<or> b + 8 \<le> a" "a + 24 \<le> d \<or> d + isz \<le> a" "b + 8 \<le> d \<or> d + isz \<le> b"
    "\<And>x p cq lkey rkey rb. linked m3 x p cq lkey rkey rb = linked mA x p cq lkey rkey rb"
    by (rule three_allocs [OF mem(1,2) zero_less_numeral zero_less_numeral isz]) blast
  let ?h = "buffer_base mA + a" and ?cp = "buffer_base mA + b" and ?ptr = "buffer_base mA + d"
  have sub: "{?h..<?h + 24} \<subseteq> lreg" "{?cp..<?cp + 8} \<subseteq> lreg" "{?ptr..<?ptr + isz} \<subseteq> lreg"
    using M(4-6) by (auto intro!: subsetD [OF regs(1)])
  have ring: "ring_stream N p cq lkey rkey lreg rreg slots up rmem due busy posted pend rank cfgA rb e cnt S ?h ?ptr isz"
    using M(8) by (intro ring_stream.intro ring_link.intro ring_link_axioms.intro ring_stream_axioms.intro F regs sub mem isz) auto
  let ?c1 = "c\<lparr>cl_manager := ManagerRC m3\<rparr>"
  have on1: "client_on (cfg_RDMA_MAX_WR cfgA) (bh_node_id bh) p cq lkey rkey rb ?c1"
    using c M(10) by (auto simp: client_on_def)
  have ready: "rc_fabric.ready up posted pend ?c1 w1" using idle by (simp add: rc_fabric.ready_def [OF F])
  have seg: "{rb + e..<rb + e + 24} \<subseteq> rreg" "rb + e < 2 ^ 64"
  proof -
    have "{rb + e..<rb + e + 24} \<subseteq> {rb + e..<rb + e + cnt * (S + 24)}" using regs(6) by (cases cnt) auto
    then show "{rb + e..<rb + e + 24} \<subseteq> rreg" using regs(2) by blast
    show "rb + e < 2 ^ 64" using regs(3) by simp
  qed
  have ctr: "{rb + (e - 8)..<rb + (e - 8) + 8} \<subseteq> rreg" "rb + (e - 8) < 2 ^ 64" "sub64 e 8 = e - 8"
  proof -
    have "rb + (e - 8) + 8 = rb + e" using regs(7) by simp
    with regs(8) show "{rb + (e - 8)..<rb + (e - 8) + 8} \<subseteq> rreg" by (simp only:)
  qed (use seg(2) regs(7) in \<open>simp_all add: sub64_small\<close>)
  obtain q w2 where rd: "client_read N cfgA (bh_node_id bh) e ?h 24 True ?c1 w1 = Inr (True, ?c1\<lparr>cl_countWR := q\<rparr>, w2)"
    "q < cfg_RDMA_MAX_WR cfgA" "rc_fabric.ready up posted pend (?c1\<lparr>cl_countWR := q\<rparr>) w2"
    "lmem w2 = mem_write (lmem w1) ?h (mem_read (rmem w1) (rb + e) 24)" "rmem w2 = rmem w1"
    using rc_fabric.client_read_ok [OF F on1 ready regs(4) _ seg(2) sub(1) seg(1)] by auto
  have on2: "client_on (cfg_RDMA_MAX_WR cfgA) (bh_node_id bh) p cq lkey rkey rb (?c1\<lparr>cl_countWR := q\<rparr>)"
    using on1 rd(2) by (simp add: client_on_def)
  obtain q' w3 where rd': "client_read N cfgA (bh_node_id bh) (e - 8) ?cp 8 True (?c1\<lparr>cl_countWR := q\<rparr>) w2 =
      Inr (True, ?c1\<lparr>cl_countWR := q'\<rparr>, w3)"
    "q' < cfg_RDMA_MAX_WR cfgA" "rc_fabric.ready up posted pend (?c1\<lparr>cl_countWR := q'\<rparr>) w3"
    "lmem w3 = mem_write (lmem w2) ?cp (mem_read (rmem w1) (rb + (e - 8)) 8)" "rmem w3 = rmem w1" "busy w3 = {}"
    using rc_fabric.client_read_ok [OF F on2 rd(3) regs(4) _ ctr(2) sub(2) ctr(1)] rd(5) by auto
  let ?c2 = "?c1\<lparr>cl_countWR := q'\<rparr>"
  have now: "load64 (lmem w3) ?cp = load64 (rmem w3) (rb + (e - 8))"
    by (simp add: rd'(4,5) load64_def mem_read_write_same)
  let ?s = "\<lparr>la_internalBuffer = Some \<lparr>ib_bufferPtr = ?ptr, ib_size = isz, ib_offset = 0\<rparr>, la_handle = bh,
      la_client = ?c2, la_segmentHeader = Some ?h, la_deleteRdmaClient = False, la_lastSegmentOffset = 0,
      la_currentSegmentOffset = e, la_nextSegmentOffset = add64 (add64 e S) 24, la_segmentIndex = 0, la_consumedCnt = Some ?cp,
      la_writeableFreeSegments = load64 (lmem w3) ?cp\<rparr>"
  have "newBufferWriterLat N cfgA res0 no_client name rcl isz (Some c) w = Inr (?s, rcl', w3)"
    using join c(2) M(1-3) rd(1) rd'(1) mem(3) ctr(3)
    by (simp add: newBufferWriterLat_def writer_client_def client_localAlloc_def mgr_localAlloc_def la_readHeaderFromRemote_def
        la_readCounterFromRemote_def la_read_def index_op_def)
  moreover have "client_on (cfg_RDMA_MAX_WR cfgA) (bh_node_id bh) p cq lkey rkey rb ?c2"
    using on1 rd'(2) by (simp add: client_on_def)
  then have "la_set_up (cfg_RDMA_MAX_WR cfgA) p cq lkey rkey rb ?h ?ptr isz 0 ?s" by (simp add: la_set_up_def)
  moreover have "la_at e cnt S 0 ?s" using join(2,4,5) regs(6) by (simp add: la_at_def seg_at_def)
  moreover have "la_consumedCnt ?s = Some ?cp" "?cp + 8 \<le> ?h \<or> ?h + 24 \<le> ?cp" "?cp + 8 \<le> ?ptr \<or> ?ptr + isz \<le> ?cp"
    using M(7,9) by auto
  with sub(2) regs(7,8) have "la_counter lreg rreg rb e ?h ?ptr isz ?cp ?s" unfolding la_counter_def by blast
  moreover have "get_header (lmem w3) ?h = get_header (rmem w3) (rb + e)"
  proof -
    have "get_header (lmem w3) ?h = get_header (lmem w2) ?h"
      unfolding rd'(4) using M(7) by (intro get_header_write_disjoint) auto
    then show ?thesis by (simp add: rd(4) rd'(5) put_header_def [symmetric] header_bytes_get [symmetric])
  qed
  moreover have "lmem w3 x = lmem w1 x" if "x \<notin> lreg" for x
  proof -
    have "x \<notin> {?h..<?h + 24}" "x \<notin> {?cp..<?cp + 8}" using that sub(1,2) by blast+
    then show ?thesis by (auto simp: rd(4) rd'(4) mem_write_outside)
  qed
  ultimately show ?thesis
    using ring rd'(3,5,6) rc_fabric.ready_def [OF F] now
    by (intro exI [of _ ?s] exI [of _ w3] exI [of _ ?h] exI [of _ ?cp] exI [of _ ?ptr]) (simp add: lat_ready_def)
qed

section \<open>A low-latency buffer on the local network\<close>

definition lat_buffer :: BufferHandle where
  "lat_buffer = newBufferHandle ''l'' 1 4 1 16 LAT"

lemma lat_buffer_sel [simp]:
  "bh_name lat_buffer = ''l''" "bh_node_id lat_buffer = 1" "bh_entrySegments lat_buffer = []"
  "bh_numberOfWriters lat_buffer = 1" "bh_segmentSizes lat_buffer = 16" "bh_buffertype lat_buffer = LAT"
  "bh_segmentsPerWriter lat_buffer = 4"
  by (simp_all add: lat_buffer_def newBufferHandle_def)

lemma lat_buffer_request:
  "ring_request_ok (ring_request lat_buffer)" "ring_bytes (ring_request lat_buffer) = 168" "has_room 168 node_manager"
  "has_room (24 + (8 + 200)) fab_manager"
  by (simp_all add: ring_request_ok_def ring_bytes_def ring_front_def lat_buffer_def newBufferHandle_def ring_request_def u32_def
      add64_def buffertype_code_def buffertype_of_def has_room_def node_manager_def rdma_manager_init_def fab_manager_def)

lemma lat_buffer_registered:
  "\<exists>w1. client_registerBuffer small_registry_net lat_buffer small_client session_client_world = Inr (True, small_client, w1)"
proof -
  obtain ok offs s' wn' where O: "node_rings (ring_request lat_buffer) (bh_numberOfWriters lat_buffer)
      (local_peer session_registry_world 0) = (ok, offs, s', wn')"
    by (metis prod_cases4)
  have fresh: "reg_bufferHandles wired_registry (bh_name lat_buffer) = None" by (simp add: small_cluster)
  have node: "Cluster.reaches small_cfg (bh_node_id lat_buffer) 1 (reg_client wired_registry)" using small_cluster(4) by simp
  have empty: "bh_entrySegments lat_buffer = []" by simp
  from node_rings_outcome [OF session_start(3) node_manager_ok(1) lat_buffer_request(1) O [unfolded session_start(2)]] have ok
    using lat_buffer_request(2,3) by auto
  with register_over_links [OF local_registry.registry_link_axioms
      local_node.node_link_axioms [where V = "idle_verbs :: unit verbs" and ncfg = rc_config] small_cluster(1) TrueI
      session_start(1) fresh empty node TrueI O] show ?thesis by auto
qed

section \<open>Properties\<close>

text \<open>
  Claim C9. A whole session with messages. Once a low-latency buffer has been registered over the network, an appender in
  another process that is constructed on its name joins it and starts as the writer of the protocol does: at
  the first segment, with the header that lies there and as many free segments as the counter in front of the ring
  says. What it then appends, at most as many messages as the ring has segments, each no longer than a segment and all
  together, with 24 bytes of header for each and 24 more, no longer than its internal buffer (so that this is not started
  anew), the node reads afterwards with \<open>BufferIteratorLat\<close> one by one, each with exactly its bytes.
\<close>

theorem latency_session:
  assumes "registry_link N0 connected0 target0 NR cfg peer0"
    and "node_link NR connectedR targetR V ncfg peerR"
    and "talks rcl g"
    and "connected0 g w0"
    and "peer0 w0 (target0 g) = (r, wr)"
    and "reg_bufferHandles r (bh_name bh) = None"
    and "bh_entrySegments bh = []"
    and "Cluster.reaches cfg (bh_node_id bh) hn (reg_client r)"
    and "connectedR hn wr"
    and "peerR wr (targetR hn) = (sn, wn)"
    and "srv_manager sn = ManagerRC m"
    and "mem_inv m"
    and "ring_request_ok (ring_request bh)"
    and "client_registerBuffer N0 bh rcl w0 = Inr (True, rcl', w1)"
    and "0 < bh_numberOfWriters bh"
    and "bh_numberOfWriters bh < 2 ^ 64"
    and "writer_process N connected target NR cfg peer p cq lkey rkey lreg rreg slots up rmem due busy posted pend rank mem_of"
    and "talks rca ga"
    and "connected ga w"
    and "peer w (target ga) = peer0 w1 (target0 g)"
    and "up w"
    and "\<not> pend w"
    and "posted w \<le> cl_countWR c"
    and "rmem w = lmem (snd (peerR (snd (peer0 w1 (target0 g))) (targetR hn)))"
    and "client_on (cfg_RDMA_MAX_WR cfgA) (bh_node_id bh) p cq lkey rkey (buffer_base m) c"
    and "cl_manager c = ManagerRC mA"
    and "mem_inv mA"
    and "has_room (24 + (8 + isz)) mA"
    and "bh_segmentSizes bh < isz"
    and "isz < 2 ^ 32"
    and "cfg_RDMA_MAX_WR cfgA \<le> slots"
    and "{buffer_base mA..<buffer_base mA + m_memSize mA} \<subseteq> lreg"
    and "{buffer_base m..<buffer_base m + m_memSize m} \<subseteq> rreg"
    and "buffer_base m + m_memSize m < 2 ^ 64"
    and "0 < bh_segmentSizes bh"
    and "bh_buffertype bh = LAT"
    and "bh_segmentsPerWriter bh < 2 ^ 32"
    and "length msgs \<le> bh_segmentsPerWriter bh"
    and "sum_list (map (\<lambda>(d, n, sig). n + 24) msgs) + 24 \<le> isz"
    and "\<forall>(d, n, sig) \<in> set msgs. n \<le> bh_segmentSizes bh \<and> {d..<d + n} \<inter> lreg = {}"
  shows "\<exists>s w2 s' w3 b im h cp.
    newBufferWriterLat N cfgA res0 no_client (bh_name bh) rca isz (Some c) w = Inr (s, rca, w2) \<and>
    lat_view h cp todo s w2 = ls_writer (lat_session_start (la_handle s) (buffer_base m) (rmem w2) todo) \<and>
    lat_ring_made (rmem w2) (buffer_base m) (seg_offset (hd (bh_entrySegments (la_handle s)))) (bh_segmentsPerWriter bh) (bh_segmentSizes bh) \<and>
    la_appends N cfgA msgs s w2 = Inr (True, s', w3) \<and>
    (case getIteratorLat (la_handle s) (buffer_base m) (rmem w3) of (b0, im0) \<Rightarrow> take_messages (length msgs) b0 im0) =
      Inr (map (\<lambda>(d, n, sig). mem_read (lmem w) d n) msgs, b, im)"
proof -
  let ?S = "bh_segmentSizes bh" and ?cnt = "bh_segmentsPerWriter bh" and ?rb = "buffer_base m"
  have F: "rc_fabric N p cq lkey rkey lreg rreg slots up rmem due busy posted pend rank"
    using assms(17) by (simp add: writer_process_def)
  have req: "asq_segments_count (ring_request bh) = ?cnt" "asq_segments_size (ring_request bh) = ?S + 24"
    "ring_front (ring_request bh) = 8" "0 < ?cnt"
    using assms(13,29,30,36,37) by (simp_all add: ring_request_def ring_request_ok_def u32_small add64_small ring_front_def)
  obtain r1 wr' offs wn' where c1: "peer0 w1 (target0 g) = (r1, wr')"
    "reg_bufferHandles r1 (bh_name bh) = Some (with_rings bh offs)" "joined (bh_name bh) r1 = 0"
    "snd (peerR wr' (targetR hn)) = wn'" "length offs = bh_numberOfWriters bh"
    "ring_made (ring_request bh) ?rb (lmem wn') (offs ! 0)"
    "offs ! 0 + asq_segments_count (ring_request bh) * asq_segments_size (ring_request bh) \<le> m_memSize m"
    by (rule registered_first_ring [OF assms(1-15)])
  let ?e = "offs ! 0"
  have made: "8 \<le> ?e" "ring_fresh (lmem wn') ?rb ?e ?cnt (?S + 24)" "load64 (lmem wn') (?rb + (?e - 8)) = ?cnt"
    using c1(6) req by (simp_all add: ring_made_def)
  have "peer w (target ga) = (r1, wr')" using assms(20) c1(1) by simp
  from first_join [OF assms(17-19) this c1(2,3) assms(7) c1(5) assms(15,16)] obtain w' hdl where
    join: "joinBuffer N (bh_name bh) rca w = Inr (Some hdl, rca, w')"
    "bh_entrySegments hdl = [\<lparr>seg_offset = ?e, seg_size = ?S\<rparr>]" "bh_buffertype hdl = LAT" "bh_segmentSizes hdl = ?S"
    "bh_segmentsPerWriter hdl = ?cnt" and node: "bh_node_id hdl = bh_node_id bh"
    and w': "lmem w' = lmem w" "up w'" "\<not> pend w'" "posted w' \<le> cl_countWR c" "rmem w' = lmem wn'"
    using assms(21-24,36) c1(1,4) by auto
  have ring: "{?rb + ?e..<?rb + ?e + ?cnt * (?S + 24)} \<subseteq> rreg" "?rb + ?e + ?cnt * (?S + 24) < 2 ^ 64"
    "{?rb + (?e - 8)..<?rb + ?e} \<subseteq> rreg"
    using c1(7) assms(34) by (auto simp: req intro!: subsetD [OF assms(33)])
  have on: "client_on (cfg_RDMA_MAX_WR cfgA) (bh_node_id hdl) p cq lkey rkey ?rb c" using assms(25) node by simp
  from lat_writer_constructed [OF F join on assms(26-30,32) ring(1,2) assms(31,35) req(4) made(1) ring(3) w'(2-4)]
  obtain s w2 h cp ptr where
    new: "newBufferWriterLat N cfgA res0 no_client (bh_name bh) rca isz (Some c) w = Inr (s, rca, w2)"
    and S: "ring_stream N p cq lkey rkey lreg rreg slots up rmem due busy posted pend rank cfgA ?rb ?e ?cnt ?S h ptr isz"
    and rd: "lat_ready (cfg_RDMA_MAX_WR cfgA) p cq lkey rkey lreg rreg ?rb ?e ?cnt ?S h cp ptr isz s (lmem w2) (rmem w2)"
    and st: "la_handle s = hdl" "up w2" "\<not> pend w2" "posted w2 \<le> cl_countWR (la_client s)" "busy w2 = {}" "rmem w2 = lmem wn'"
      "\<forall>a. a \<notin> lreg \<longrightarrow> lmem w2 a = lmem w' a"
    using w'(5) by metis
  have rd': "la_set_up (cfg_RDMA_MAX_WR cfgA) p cq lkey rkey ?rb h ptr isz 0 s" "la_at ?e ?cnt ?S 0 s"
    "la_writeableFreeSegments s = ?cnt" "load64 (lmem w2) cp = ?cnt" "get_header (lmem w2) h = get_header (lmem wn') (?rb + ?e)"
    using rd by (simp_all add: lat_ready_def st(6) made(3))
  have one: "bh_entrySegments (la_handle s) = [\<lparr>seg_offset = ?e, seg_size = ?S\<rparr>]" using st(1) join(2) by simp
  have lat: "lat_ring_made (rmem w2) ?rb (seg_offset (hd (bh_entrySegments (la_handle s)))) ?cnt ?S"
    using made(2,3) by (simp add: one st(6) lat_ring_made_def)
  have view: "lat_view h cp todo s w2 = ls_writer (lat_session_start (la_handle s) ?rb (rmem w2) todo)"
    using rd'(2-5) made(3) one
    by (simp add: lat_view_def lat_session_start_def la_at_def st(6) Let_def split: prod.split)
  have hdr: "isWriteable (get_header (lmem w2) h)" "\<not> isEndSegment (get_header (lmem w2) h)"
    using made(2) req(4) by (auto simp: rd'(5) ring_fresh_def fresh_header_def seg_at_def dest: spec [of _ 0])
  have msgs: "length msgs \<le> la_writeableFreeSegments s" "la_writeableFreeSegments s < 2 ^ 64"
    using assms(37,38) rd'(3) by simp_all
  have room: "0 + sum_list (map (\<lambda>(d, n, sig). n + 24) msgs) + 24 \<le> isz" and idle: "busy w2 \<subseteq> {ptr..<ptr + 0}"
    using assms(39) st(5) by simp_all
  obtain s' w3 b im where run: "la_appends N cfgA msgs s w2 = Inr (True, s', w3)"
    "(case getIteratorLat (la_handle s) ?rb (rmem w3) of (b0, im0) \<Rightarrow> take_messages (length msgs) b0 im0) =
      Inr (map (\<lambda>(d, n, sig). mem_read (lmem w2) d n) msgs, b, im)"
    using lat_end_to_end [OF S rd'(1,2) st(2-4) idle msgs assms(38) room assms(40) hdr made(1) one] by blast
  have "map (\<lambda>(d, n, sig). mem_read (lmem w2) d n) msgs = map (\<lambda>(d, n, sig). mem_read (lmem w) d n) msgs"
  proof (intro map_cong refl)
    fix x assume x: "x \<in> set msgs"
    obtain d n sig where x': "x = (d, n, sig)" by (cases x) auto
    have "mem_read (lmem w2) d n = mem_read (lmem w) d n"
      using st(7) w'(1) bspec [OF assms(40) x] by (intro mem_read_cong) (auto simp: x')
    then show "(case x of (d, n, sig) \<Rightarrow> mem_read (lmem w2) d n) = (case x of (d, n, sig) \<Rightarrow> mem_read (lmem w) d n)"
      by (simp add: x')
  qed
  with new view lat run show ?thesis
    by (intro exI [of _ s] exI [of _ w2] exI [of _ s'] exI [of _ w3] exI [of _ b] exI [of _ im] exI [of _ h] exI [of _ cp] conjI) simp_all
qed

theorem latency_session_witness:
  "\<exists>w1 s w2 s' w3 b im.
    client_registerBuffer small_registry_net lat_buffer small_client session_client_world = Inr (True, small_client, w1) \<and>
    newBufferWriterLat (session_net (\<lambda>_. 0) (registry_answer small_node_net small_cfg)) fab_config (m_res fab_manager) fab_client ''l'' small_client 200
      (Some fab_client) (appender_world (local_peer w1 0)) = Inr (s, small_client, w2) \<and>
    la_appends (session_net (\<lambda>_. 0) (registry_answer small_node_net small_cfg)) fab_config [(10, 3, False), (200, 1, True)] s w2 = Inr (True, s', w3) \<and>
    (case getIteratorLat (la_handle s) 65536 (fab_rmem (first_world w3)) of (b0, im0) \<Rightarrow> take_messages 2 b0 im0) =
      Inr ([[10, 11, 12], [200]], b, im)"
proof -
  obtain w1 where w1: "client_registerBuffer small_registry_net lat_buffer small_client session_client_world =
      Inr (True, small_client, w1)"
    using lat_buffer_registered by blast
  let ?w = "appender_world (local_peer w1 0)" and ?msgs = "[(10, 3, False), (200, 1, True)] :: (nat \<times> nat \<times> bool) list"
  have fresh: "reg_bufferHandles wired_registry (bh_name lat_buffer) = None" by (simp add: small_cluster)
  have node: "Cluster.reaches small_cfg (bh_node_id lat_buffer) 1 (reg_client wired_registry)" using small_cluster(4) by simp
  have idle: "fab_up (first_world ?w)" "\<not> fab_pend (first_world ?w)" "fab_posted (first_world ?w) \<le> cl_countWR fab_client"
    "fab_rmem (first_world ?w) = lmem (snd (local_peer (snd (local_peer w1 0)) 0))"
    by (simp_all add: appender_world_def first_world_def fab_up_def fab_pend_def fab_posted_def fab_rmem_def fab_flush_def)
  have peer: "local_peer (second_world ?w) 0 = local_peer w1 0"
    by (simp add: appender_world_def second_world_def local_peer_def)
  have on: "client_on (cfg_RDMA_MAX_WR fab_config) (bh_node_id lat_buffer) fab_qp 3 1 2 (buffer_base node_manager) fab_client"
    using fab_client_on node_manager_ok(2) by simp
  have regs: "{buffer_base fab_manager..<buffer_base fab_manager + m_memSize fab_manager} \<subseteq> fab_lreg"
    "{buffer_base node_manager..<buffer_base node_manager + m_memSize node_manager} \<subseteq> fab_rreg"
    "buffer_base node_manager + m_memSize node_manager < 2 ^ 64"
    using node_manager_ok(2) session_start(6,10,11) by (simp_all add: fab_lreg_def fab_rreg_def)
  have msgs: "length ?msgs \<le> bh_segmentsPerWriter lat_buffer" "sum_list (map (\<lambda>(d, n, sig). n + 24) ?msgs) + 24 \<le> 200"
    "\<forall>(d, n, sig) \<in> set ?msgs. n \<le> bh_segmentSizes lat_buffer \<and> {d..<d + n} \<inter> fab_lreg = {}"
    by (auto simp: fab_lreg_def)
  have read: "map (\<lambda>(d, n, sig). mem_read (lmem ?w) d n) ?msgs = [[10, 11, 12], [200]]"
    by (simp add: mem_read_def appender_world_def upt_rec)
  let ?N = "session_net (\<lambda>_. 0) (registry_answer small_node_net small_cfg)"
  have "\<exists>s w2 s' w3 b im h cp.
    newBufferWriterLat ?N fab_config (m_res fab_manager) fab_client (bh_name lat_buffer) small_client 200 (Some fab_client) ?w =
      Inr (s, small_client, w2) \<and>
    lat_view h cp [] s w2 = ls_writer (lat_session_start (la_handle s) (buffer_base node_manager) (fab_rmem (first_world w2)) []) \<and>
    lat_ring_made (fab_rmem (first_world w2)) (buffer_base node_manager) (seg_offset (hd (bh_entrySegments (la_handle s))))
      (bh_segmentsPerWriter lat_buffer) (bh_segmentSizes lat_buffer) \<and>
    la_appends ?N fab_config ?msgs s w2 = Inr (True, s', w3) \<and>
    (case getIteratorLat (la_handle s) (buffer_base node_manager) (fab_rmem (first_world w3)) of (b0, im0) \<Rightarrow> take_messages (length ?msgs) b0 im0) =
      Inr (map (\<lambda>(d, n, sig). mem_read (lmem ?w) d n) ?msgs, b, im)"
    by (rule latency_session [OF local_registry.registry_link_axioms local_node.node_link_axioms small_cluster(1) TrueI
        session_start(1) fresh _ node TrueI session_start(2,3) node_manager_ok(1) lat_buffer_request(1) w1 _ _
        session.writer_process_axioms small_cluster(1) TrueI peer idle on session_start(12,8) lat_buffer_request(4) _ _ _ regs _ _ _ msgs])
      (simp_all add: fab_slots_def)
  then obtain s w2 s' w3 b im where
    "newBufferWriterLat ?N fab_config (m_res fab_manager) fab_client ''l'' small_client 200 (Some fab_client) ?w = Inr (s, small_client, w2)"
    "la_appends ?N fab_config ?msgs s w2 = Inr (True, s', w3)"
    "(case getIteratorLat (la_handle s) 65536 (fab_rmem (first_world w3)) of (b0, im0) \<Rightarrow> take_messages (length ?msgs) b0 im0) =
      Inr ([[10, 11, 12], [200]], b, im)"
    unfolding read node_manager_ok(2) lat_buffer_sel(1) by blast
  with w1 show ?thesis
    by (intro exI conjI) (assumption, assumption, assumption, simp only: list.size numeral_2_eq_2 add_0 add_Suc_right add_0_right)
qed

end
