(* ===== verification/Lat_Session.thy ===== *)
theory Lat_Session
  imports Lat_Start
begin

text \<open>
  \<open>BufferWriterLat\<close> and \<open>BufferIteratorLat\<close> at work on one ring at the same time: the code of both, one transfer of the
  writer or one round of the consumer per turn, over a fabric. The writer's turns are shown to be all that \<open>append\<close> does,
  and any interleaving of them with the consumer's refines the channel of \<open>Message_Spec\<close>.
\<close>

section \<open>The writer turn by turn\<close>

text \<open>One round of the loop in which \<open>append\<close> waits for free segments, with what follows the loop when the counter has changed.\<close>

definition la_poll ::
  "('d, 'v) verbs_scheme \<Rightarrow> 'c rdma_config_scheme \<Rightarrow> writer_lat \<Rightarrow> 'd world \<Rightarrow> (bool \<times> writer_lat \<times> 'd world) result" where
  "la_poll V cfg s w =
     (case la_consumedCnt s of None \<Rightarrow> Inl NullDeref
      | Some cnt \<Rightarrow>
        let consumedCntOld = load64 (lmem w) cnt in
        bindR (la_readCounterFromRemote V cfg s w) (\<lambda>(_, s, w).
        let now = load64 (lmem w) cnt;
            freed = (if now < consumedCntOld then add64 now (sub64 (2 ^ 64 - 1) consumedCntOld)
                     else sub64 now consumedCntOld)
        in if consumedCntOld = now then Inr (False, s, w)
           else Inr (True, s\<lparr>la_writeableFreeSegments := add64 (la_writeableFreeSegments s) freed\<rparr>, w)))"

text \<open>What \<open>append\<close> does when it need not wait any more.\<close>

definition la_transfer ::
  "('d, 'v) verbs_scheme \<Rightarrow> 'c rdma_config_scheme \<Rightarrow> nat \<Rightarrow> nat \<Rightarrow> bool \<Rightarrow> writer_lat \<Rightarrow> 'd world \<Rightarrow>
   (bool \<times> writer_lat \<times> 'd world) result" where
  "la_transfer V cfg data sz signaled s w =
     bindR (la_advance s) (\<lambda>s.
     bindR (la_writeToSegment V cfg sz data (la_writeableFreeSegments s = 1 \<or> signaled) s w) (\<lambda>(ok, s, w).
     if \<not> ok then Inr (False, s, w)
     else Inr (True, s\<lparr>la_writeableFreeSegments := sub64 (la_writeableFreeSegments s) 1,
                        la_lastSegmentOffset := la_currentSegmentOffset s,
                        la_currentSegmentOffset := la_nextSegmentOffset s\<rparr>, w)))"

text \<open>
  A program that appends the messages \<open>lv_todo\<close>, given by address, size and the \<open>signaled\<close> flag: \<open>lv_changed\<close> says that
  the counter has been seen to change during the current \<open>append\<close>, \<open>lv_ok\<close> is what the last \<open>append\<close> returned.
\<close>

record 'd live_writer =
  lv_writer :: writer_lat
  lv_world :: "'d world"
  lv_todo :: "(nat \<times> nat \<times> bool) list"
  lv_changed :: bool
  lv_ok :: bool

definition live_turn ::
  "('d, 'v) verbs_scheme \<Rightarrow> 'c rdma_config_scheme \<Rightarrow> 'd live_writer \<Rightarrow> 'd live_writer result" where
  "live_turn V cfg l =
     (case lv_todo l of [] \<Rightarrow> Inr l
      | (data, sz, signaled) # rest \<Rightarrow>
          if la_writeableFreeSegments (lv_writer l) = 0 \<and> \<not> lv_changed l then
            bindR (la_poll V cfg (lv_writer l) (lv_world l)) (\<lambda>(changed, s, w).
              Inr (l\<lparr>lv_writer := s, lv_world := w, lv_changed := changed\<rparr>))
          else
            bindR (la_transfer V cfg data sz signaled (lv_writer l) (lv_world l)) (\<lambda>(ok, s, w).
              Inr (l\<lparr>lv_writer := s, lv_world := w, lv_todo := rest, lv_changed := False, lv_ok := ok\<rparr>)))"

text \<open>Both sides on the node's memory: \<open>rmem\<close> reads it out of the world, \<open>put\<close> is what the node's processor does to it.\<close>

definition live_session_writer ::
  "('d, 'v) verbs_scheme \<Rightarrow> 'c rdma_config_scheme \<Rightarrow> ('d world \<Rightarrow> mem) \<Rightarrow> 'd live_writer lat_session \<Rightarrow>
   'd live_writer lat_session result" where
  "live_session_writer V cfg rmem s =
     bindR (live_turn V cfg (ls_writer s)) (\<lambda>l. Inr (s\<lparr>ls_writer := l, ls_im := (ls_im s)\<lparr>im_mem := rmem (lv_world l)\<rparr>\<rparr>))"

definition live_session_consumer ::
  "(mem \<Rightarrow> 'd world \<Rightarrow> 'd world) \<Rightarrow> 'd live_writer lat_session \<Rightarrow> 'd live_writer lat_session result" where
  "live_session_consumer put s =
     bindR (lat_session_consumer s) (\<lambda>t.
       Inr (t\<lparr>ls_writer := (ls_writer t)\<lparr>lv_world := put (im_mem (ls_im t)) (lv_world (ls_writer t))\<rparr>\<rparr>))"

definition live_session_start ::
  "BufferHandle \<Rightarrow> nat \<Rightarrow> ('d world \<Rightarrow> mem) \<Rightarrow> writer_lat \<Rightarrow> 'd world \<Rightarrow> (nat \<times> nat \<times> bool) list \<Rightarrow> 'd live_writer lat_session" where
  "live_session_start hdl rb rmem s w msgs =
     (case getIteratorLat hdl rb (rmem w) of (b, im) \<Rightarrow>
      \<lparr>ls_writer = \<lparr>lv_writer = s, lv_world = w, lv_todo = msgs, lv_changed = False, lv_ok = True\<rparr>,
       ls_iter = b, ls_im = im, ls_held = None, ls_out = []\<rparr>)"

section \<open>\<open>append\<close> is its turns\<close>







section \<open>The consumer does not see the writer\<close>

definition with_writer :: "'v \<Rightarrow> 'w lat_session \<Rightarrow> 'v lat_session" where
  "with_writer x s = \<lparr>ls_writer = x, ls_iter = ls_iter s, ls_im = ls_im s, ls_held = ls_held s, ls_out = ls_out s\<rparr>"

lemma with_writer_simps [simp]:
  "ls_writer (with_writer x s) = x" "ls_iter (with_writer x s) = ls_iter s" "ls_im (with_writer x s) = ls_im s"
  "ls_held (with_writer x s) = ls_held s" "ls_out (with_writer x s) = ls_out s" "lat_held (with_writer x s) = lat_held s"
  unfolding lat_held_def with_writer_def lat_session.select_convs by (rule HOL.refl)+

lemma with_writer_update:
  "(with_writer x s)\<lparr>ls_iter := b, ls_im := im\<rparr> = with_writer x (s\<lparr>ls_iter := b, ls_im := im\<rparr>)"
  "(with_writer x s)\<lparr>ls_iter := b, ls_im := im, ls_held := r, ls_out := out\<rparr> =
     with_writer x (s\<lparr>ls_iter := b, ls_im := im, ls_held := r, ls_out := out\<rparr>)"
  by (simp_all add: with_writer_def)

lemma consumer_with_writer:
  "lat_session_consumer (with_writer x s) = bindR (lat_session_consumer s) (\<lambda>t. Inr (with_writer x t))"
  by (auto simp: lat_session_consumer_def with_writer_update bindR_def split: sum.splits)

lemma consumer_keeps_writer: "okR (\<lambda>t. ls_writer t = ls_writer s) (lat_session_consumer s)"
  by (auto simp: lat_session_consumer_def intro!: okR_bind)

section \<open>A fabric that shows the node's memory\<close>

text \<open>
  When nothing is on its way, the fabric shows the node's memory as the node's processor leaves it. Behind the internal
  buffer there are the 24 bytes that the copy of a message may overrun, and they are not those of the header's or the
  counter's copy.
\<close>

locale lat_link = ring_stream V p cq lkey rkey lreg rreg slots up rmem due busy posted pend rank cfg rb e cnt S h ptr cap
  for V :: "('d, 'v) verbs_scheme" and p :: ibv_qp and cq lkey rkey :: nat and lreg rreg :: "nat set"
    and slots :: nat and up :: "'d world \<Rightarrow> bool" and rmem due :: "'d world \<Rightarrow> mem"
    and busy :: "'d world \<Rightarrow> nat set" and posted :: "'d world \<Rightarrow> nat" and pend :: "'d world \<Rightarrow> bool"
    and rank :: "'d world \<Rightarrow> nat" and cfg :: "'c rdma_config_scheme" and rb e cnt S h ptr cap :: nat +
  fixes put :: "mem \<Rightarrow> 'd world \<Rightarrow> 'd world" and cp :: nat
  assumes put_idle: "up w \<Longrightarrow> \<not> pend w \<Longrightarrow> busy w = {} \<Longrightarrow>
      up (put m w) \<and> \<not> pend (put m w) \<and> busy (put m w) = {} \<and> posted (put m w) = posted w \<and>
      rmem (put m w) = m \<and> lmem (put m w) = lmem w"
    and spare_mem: "{ptr + cap..<ptr + cap + 24} \<subseteq> lreg"
    and spare_apart: "h + 24 \<le> ptr \<or> ptr + cap + 24 \<le> h" "cp + 8 \<le> ptr \<or> ptr + cap + 24 \<le> cp"
begin

definition live_ok :: "'d live_writer \<Rightarrow> bool" where
  "live_ok l \<longleftrightarrow> (\<exists>off. la_conn off (lv_writer l) (lv_world l)) \<and> busy (lv_world l) = {} \<and>
     (\<exists>k. la_at e cnt S k (lv_writer l)) \<and> la_counter lreg rreg rb e h ptr cap cp (lv_writer l) \<and>
     la_writeableFreeSegments (lv_writer l) < 2 ^ 64 \<and> (lv_changed l \<longrightarrow> la_writeableFreeSegments (lv_writer l) \<noteq> 0) \<and>
     (\<forall>(d, n, sig) \<in> set (lv_todo l). sig \<and> n \<le> S \<and> {d..<d + n} \<inter> lreg = {})"

definition live_data :: "'d live_writer \<Rightarrow> byte list list" where
  "live_data l = map (\<lambda>(d, n, sig). mem_read (lmem (lv_world l)) d n) (lv_todo l)"

definition live_view :: "'d live_writer \<Rightarrow> lat_writer" where
  "live_view l = lat_view h cp (live_data l) (lv_writer l) (lv_world l)"

text \<open>What a turn does to local memory does not touch the messages.\<close>

lemma live_data_kept:
  assumes "\<forall>(d, n, sig) \<in> set todo. sig \<and> n \<le> S \<and> {d..<d + n} \<inter> lreg = {}" "\<forall>a. a \<notin> lreg \<longrightarrow> m' a = m a"
  shows "map (\<lambda>(d, n, sig). mem_read m' d n) todo = map (\<lambda>(d, n, sig). mem_read m d n) todo"
proof (rule map_cong [OF HOL.refl])
  fix x assume x: "x \<in> set todo"
  obtain d n sig where [simp]: "x = (d, n, sig)" by (cases x)
  have "{d..<d + n} \<inter> lreg = {}" using bspec [OF assms(1) x] by simp
  then have "mem_read m' d n = mem_read m d n" using assms(2) by (intro mem_read_cong) (auto simp: disjoint_iff)
  then show "(case x of (d, n, sig) \<Rightarrow> mem_read m' d n) = (case x of (d, n, sig) \<Rightarrow> mem_read m d n)" by simp
qed

text \<open>A signaled message, whether it still fits behind the last one in the internal buffer or starts it anew.\<close>

lemma la_write_anew:
  assumes "la_internalBuffer s = Some \<lparr>ib_bufferPtr = ptr, ib_size = cap, ib_offset = off\<rparr>" "cap < off + n + 24" "n + 24 \<le> cap"
    and "off \<le> cap"
  shows "la_writeToSegment V cfg n d sig s w =
    la_writeToSegment V cfg n d sig (s\<lparr>la_internalBuffer := Some \<lparr>ib_bufferPtr = ptr, ib_size = cap, ib_offset = 0\<rparr>\<rparr>) w"
proof -
  have "add64 n 24 = n + 24" "add64 (n + 24) off = n + 24 + off" "add64 (n + 24) 0 = n + 24"
    using assms(3,4) cap_ok(2) by (simp_all add: add64_small)
  moreover have "cap < n + 24 + off" "\<not> cap < n + 24" using assms(2,3) by simp_all
  ultimately show ?thesis using assms(1) by (cases "la_segmentHeader s") (simp_all add: la_writeToSegment_def Let_def)
qed

lemma la_transfer_ok:
  assumes "la_conn off s w" "busy w = {}" "la_at e cnt S k s" "la_counter lreg rreg rb e h ptr cap cp s"
    and "la_writeableFreeSegments s \<noteq> 0" "la_writeableFreeSegments s < 2 ^ 64" "S + 24 \<le> cap" "n \<le> S" "{d..<d + n} \<inter> lreg = {}"
    and "hdr = message_header n (seg_at e (S + 24) (Suc k mod cnt)) (get_header (lmem w) h)"
  shows "\<exists>off' s' w'. la_transfer V cfg d n True s w = Inr (True, s', w') \<and> la_conn off' s' w' \<and> busy w' = {} \<and>
    la_at e cnt S (Suc k mod cnt) s' \<and> la_counter lreg rreg rb e h ptr cap cp s' \<and>
    la_writeableFreeSegments s' = la_writeableFreeSegments s - 1 \<and>
    rmem w' = mem_write (rmem w) (rb + seg_at e (S + 24) k) (header_bytes hdr @ mem_read (lmem w) d n) \<and>
    get_header (lmem w') h = hdr \<and> load64 (lmem w') cp = load64 (lmem w) cp \<and> (\<forall>a. a \<notin> lreg \<longrightarrow> lmem w' a = lmem w a)"
proof -
  let ?nxt = "seg_at e (S + 24) (Suc k mod cnt)" and ?off = "if cap < off + n + 24 then 0 else off"
  let ?s = "s\<lparr>la_nextSegmentOffset := ?nxt, la_segmentIndex := Suc k mod cnt\<rparr>"
  let ?ib = "\<lambda>off. Some \<lparr>ib_bufferPtr = ptr, ib_size = cap, ib_offset = off\<rparr>"
  let ?t = "?s\<lparr>la_internalBuffer := ?ib ?off\<rparr>"
  have k: "k < cnt" "la_currentSegmentOffset s = seg_at e (S + 24) k" using assms(3) by (simp_all add: la_at_def)
  have adv: "la_advance s = Inr ?s" using ring_fits by (intro la_advance_at [OF assms(3)]) simp
  have nxt: "?nxt < 2 ^ 64" using seg_fits [of "Suc k mod cnt" 0] k(1) by simp
  have ib: "la_internalBuffer s = ?ib off" "off \<le> cap" using assms(1) by (simp_all add: la_conn_def la_set_up_def)
  have room: "n + 24 \<le> cap" "?off + n + 24 \<le> cap" using assms(7,8) by auto
  have conn: "la_conn ?off ?t w" using assms(1,2) by (auto simp: la_conn_def la_set_up_def)
  have anew: "la_writeToSegment V cfg n d True ?s w = la_writeToSegment V cfg n d True ?t w"
  proof (cases "cap < off + n + 24")
    case True
    then show ?thesis using la_write_anew [of ?s off n d True w] ib room by simp
  next
    case False
    then have "?t = ?s" using ib(1) by (cases s) simp
    then show ?thesis by (simp only:)
  qed
  have hdr: "hdr = (setConsumable True ((get_header (lmem w) h)\<lparr>counter := n\<rparr>))\<lparr>nextSegmentOffset := la_nextSegmentOffset ?t\<rparr>"
    using assms(10) by (simp add: message_header_def)
  have cur: "la_currentSegmentOffset ?t = seg_at e (S + 24) k" "la_nextSegmentOffset ?t < 2 ^ 64" using k(2) nxt by simp_all
  obtain c w' where w': "la_writeToSegment V cfg n d True ?t w = Inr (True, ?t\<lparr>la_internalBuffer := ?ib (?off + n + 24), la_client := c\<rparr>, w')"
    "la_conn (?off + n + 24) (?t\<lparr>la_internalBuffer := ?ib (?off + n + 24), la_client := c\<rparr>) w'"
    "rmem w' = mem_write (rmem w) (rb + seg_at e (S + 24) k) (header_bytes hdr @ mem_read (lmem w) d n)"
    "lmem w' = la_staged h ptr ?off d n hdr (lmem w)" "busy w' = {}"
    using la_write_run [OF conn room(2) k(1) assms(8) cur(1) assms(9) cur(2) hdr, of True] by auto
  let ?s' = "?s\<lparr>la_internalBuffer := ?ib (?off + n + 24), la_client := c,
      la_writeableFreeSegments := la_writeableFreeSegments s - 1, la_lastSegmentOffset := seg_at e (S + 24) k,
      la_currentSegmentOffset := ?nxt\<rparr>"
  have less: "sub64 (la_writeableFreeSegments s) 1 = la_writeableFreeSegments s - 1" using assms(5,6) by (simp add: sub64_small)
  have "la_transfer V cfg d n True s w = Inr (True, ?s', w')"
    using anew w'(1) k(2) less by (simp add: la_transfer_def adv)
  moreover have "la_conn (?off + n + 24) ?s' w'" using w'(2) by (simp add: la_conn_def la_set_up_def)
  moreover have "la_at e cnt S (Suc k mod cnt) ?s'" using assms(3) by (simp add: la_at_def)
  moreover have "la_consumedCnt ?s' = la_consumedCnt s" by simp
  with assms(4) have "la_counter lreg rreg rb e h ptr cap cp ?s'" by (simp only: la_counter_def)
  moreover have ok: "header_ok hdr"
    using nxt assms(8,10) room(1) cap_ok(2) header_ok_get [of "lmem w" h] by (simp add: message_header_def header_ok_def)
  moreover have "get_header (lmem w') h = hdr"
    unfolding w'(4) using spare_apart(1) room(2) by (intro la_staged_header ok) auto
  moreover have cp: "cp + 8 \<le> h \<or> h + 24 \<le> cp" using assms(4) unfolding la_counter_def by blast
  have "load64 (lmem w') cp = load64 (lmem w) cp"
    unfolding w'(4) using spare_apart(2) room(2) cp by (intro load64_cong la_staged_outside) auto
  moreover have "lmem w' a = lmem w a" if "a \<notin> lreg" for a
  proof -
    have "a \<notin> {h..<h + 24}" "a \<notin> {ptr..<ptr + cap}" "a \<notin> {ptr + cap..<ptr + cap + 24}"
      using that hdr_mem buf_mem spare_mem by blast+
    then show ?thesis unfolding w'(4) using room(2) by (intro la_staged_outside) auto
  qed
  ultimately show ?thesis using w'(3,5) by (intro exI [of _ "?off + n + 24"] exI [of _ ?s'] exI [of _ w']) simp
qed

text \<open>A turn of the code is a turn of the protocol's writer.\<close>

lemma live_poll_turn:
  assumes "live_ok l" "lv_todo l = (d, n, sig) # rest" "la_writeableFreeSegments (lv_writer l) = 0"
    and "load64 (lmem (lv_world l)) cp \<le> load64 (rmem (lv_world l)) (rb + (e - 8))"
  shows "\<exists>l'. live_turn V cfg l = Inr l' \<and> live_ok l' \<and>
    lat_turn rb e cnt S (live_view l) (rmem (lv_world l)) = (live_view l', rmem (lv_world l'))"
proof -
  let ?s = "lv_writer l" and ?w = "lv_world l"
  let ?old = "load64 (lmem ?w) cp" and ?now = "load64 (rmem ?w) (rb + (e - 8))"
  obtain off k where l: "la_conn off ?s ?w" "busy ?w = {}" "la_at e cnt S k ?s" "la_counter lreg rreg rb e h ptr cap cp ?s"
    "\<not> lv_changed l" "\<forall>(d, n, sig) \<in> set (lv_todo l). sig \<and> n \<le> S \<and> {d..<d + n} \<inter> lreg = {}"
    using assms(1,3) by (auto simp: live_ok_def)
  obtain c w' where w': "la_readCounterFromRemote V cfg ?s ?w = Inr (True, ?s\<lparr>la_client := c\<rparr>, w')"
    "la_conn off (?s\<lparr>la_client := c\<rparr>) w'" "rmem w' = rmem ?w" "busy w' = {}" "load64 (lmem w') cp = ?now"
    "\<forall>a. a \<notin> {cp..<cp + 8} \<longrightarrow> lmem w' a = lmem ?w a"
    using la_counter_read [OF l(1,3,4)] by blast
  have cp: "la_consumedCnt ?s = Some cp" "{cp..<cp + 8} \<subseteq> lreg" "cp + 8 \<le> h \<or> h + 24 \<le> cp"
    using l(4) unfolding la_counter_def by blast+
  have gain: "sub64 ?now ?old = ?now - ?old" "?now - ?old < 2 ^ 64"
    using assms(4) load64_bound [of "rmem ?w" "rb + (e - 8)"] less_imp_diff_less by (auto simp: sub64_small)
  let ?t = "?s\<lparr>la_client := c, la_writeableFreeSegments := ?now - ?old\<rparr>"
  let ?l = "l\<lparr>lv_writer := ?t, lv_world := w', lv_changed := (?old \<noteq> ?now)\<rparr>"
  have free: "?s\<lparr>la_client := c\<rparr> = ?t" if "?old = ?now"
    using that assms(3) by (cases ?s) simp
  have "la_poll V cfg ?s ?w = Inr (?old \<noteq> ?now, ?t, w')"
    using cp(1) w'(1,5) gain assms(3,4) free by (auto simp: la_poll_def Let_def add64_small)
  then have turn: "live_turn V cfg l = Inr ?l"
    using assms(2,3) l(5) by (simp add: live_turn_def)
  have local: "lmem w' a = lmem ?w a" if "a \<notin> lreg" for a using that cp(2) w'(6) by blast
  have data: "live_data ?l = live_data l" using live_data_kept [OF l(6)] local by (simp add: live_data_def)
  have "get_header (lmem w') h = get_header (lmem ?w) h" using w'(6) cp(3) by (intro get_header_cong) auto
  then have "lat_turn rb e cnt S (live_view l) (rmem ?w) = (live_view ?l, rmem w')"
    using assms(2-4) w'(3,5) gain(1) data
    by (simp add: lat_turn_def live_view_def lat_view_def live_data_def Let_def)
  moreover have "live_ok ?l"
  proof -
    have "la_conn off ?t w'" using w'(2) by (simp add: la_conn_def la_set_up_def)
    moreover have "la_at e cnt S k ?t" using l(3) by (simp add: la_at_def)
    moreover have "la_consumedCnt ?t = la_consumedCnt ?s" by simp
    with l(4) have "la_counter lreg rreg rb e h ptr cap cp ?t" by (simp only: la_counter_def)
    ultimately show ?thesis using w'(4) l(6) gain(2) assms(4) by (auto simp: live_ok_def)
  qed
  ultimately show ?thesis using turn by (intro exI [of _ ?l]) simp
qed

lemma live_transfer_turn:
  assumes "live_ok l" "lv_todo l = (d, n, sig) # rest" "la_writeableFreeSegments (lv_writer l) \<noteq> 0" "S + 24 \<le> cap"
  shows "\<exists>l'. live_turn V cfg l = Inr l' \<and> live_ok l' \<and>
    lat_turn rb e cnt S (live_view l) (rmem (lv_world l)) = (live_view l', rmem (lv_world l'))"
proof -
  let ?s = "lv_writer l" and ?w = "lv_world l"
  obtain off k where l: "la_conn off ?s ?w" "busy ?w = {}" "la_at e cnt S k ?s" "la_counter lreg rreg rb e h ptr cap cp ?s"
    "la_writeableFreeSegments ?s < 2 ^ 64" "sig" "n \<le> S" "{d..<d + n} \<inter> lreg = {}"
    "\<forall>(d, n, sig) \<in> set rest. sig \<and> n \<le> S \<and> {d..<d + n} \<inter> lreg = {}"
    using assms(1,2) by (auto simp: live_ok_def)
  let ?hdr = "message_header n (seg_at e (S + 24) (Suc k mod cnt)) (get_header (lmem ?w) h)"
  obtain off' s' w' where s': "la_transfer V cfg d n True ?s ?w = Inr (True, s', w')" "la_conn off' s' w'" "busy w' = {}"
    "la_at e cnt S (Suc k mod cnt) s'" "la_counter lreg rreg rb e h ptr cap cp s'"
    "la_writeableFreeSegments s' = la_writeableFreeSegments ?s - 1"
    "rmem w' = mem_write (rmem ?w) (rb + seg_at e (S + 24) k) (header_bytes ?hdr @ mem_read (lmem ?w) d n)"
    "get_header (lmem w') h = ?hdr" "load64 (lmem w') cp = load64 (lmem ?w) cp" "\<forall>a. a \<notin> lreg \<longrightarrow> lmem w' a = lmem ?w a"
    using la_transfer_ok [OF l(1-4) assms(3) l(5) assms(4) l(7,8) HOL.refl] by blast
  let ?l = "l\<lparr>lv_writer := s', lv_world := w', lv_todo := rest, lv_changed := False, lv_ok := True\<rparr>"
  have "live_turn V cfg l = Inr ?l" using assms(2,3) s'(1) l(6) by (simp add: live_turn_def)
  moreover have "live_ok ?l" using s'(2-6) l(5,9) by (auto simp: live_ok_def)
  moreover have "lat_turn rb e cnt S (live_view l) (rmem ?w) = (live_view ?l, rmem w')"
  proof -
    have "k < cnt" "la_segmentIndex ?s = k" "la_segmentIndex s' = Suc k mod cnt" using l(3) s'(4) by (simp_all add: la_at_def)
    moreover have "live_data l = mem_read (lmem ?w) d n # live_data ?l"
      using live_data_kept [OF l(9) s'(10)] assms(2) by (simp add: live_data_def)
    ultimately show ?thesis
      using assms(3) s'(6-9) by (simp only: lat_turn_def live_view_def lat_view_def Let_def next_index_at lat_writer.simps list.case) simp
  qed
  ultimately show ?thesis by (intro exI [of _ ?l]) simp
qed

lemma live_turn_ok:
  assumes "live_ok l" "S + 24 \<le> cap" "load64 (lmem (lv_world l)) cp \<le> load64 (rmem (lv_world l)) (rb + (e - 8))"
  shows "\<exists>l'. live_turn V cfg l = Inr l' \<and> live_ok l' \<and>
    lat_turn rb e cnt S (live_view l) (rmem (lv_world l)) = (live_view l', rmem (lv_world l'))"
proof (cases "lv_todo l")
  case Nil
  then show ?thesis using assms(1) by (simp add: live_turn_def lat_turn_def live_view_def lat_view_def live_data_def)
next
  case (Cons x rest)
  obtain d n sig where x: "x = (d, n, sig)" by (cases x)
  show ?thesis
    using live_poll_turn [OF assms(1) Cons [unfolded x] _ assms(3)] live_transfer_turn [OF assms(1) Cons [unfolded x] _ assms(2)]
    by blast
qed

text \<open>The session of the code simulates the session of the protocol.\<close>

definition live_sim :: "'d live_writer lat_session \<Rightarrow> mfifo \<Rightarrow> bool" where
  "live_sim s f \<longleftrightarrow> lat_sim rb e cnt S (with_writer (live_view (ls_writer s)) s) f \<and> live_ok (ls_writer s) \<and>
     im_mem (ls_im s) = rmem (lv_world (ls_writer s))"

lemma live_sim_writer:
  assumes "live_sim s f" "mfifo_ok cnt f" "lat_fits rb e cnt S" "S + 24 \<le> cap"
  shows "\<exists>t. live_session_writer V cfg rmem s = Inr t \<and> live_sim t (mfifo_writer f)"
proof -
  let ?l = "ls_writer s" and ?a = "with_writer (live_view (ls_writer s)) s"
  have s: "lat_sim rb e cnt S ?a f" "live_ok ?l" "im_mem (ls_im s) = rmem (lv_world ?l)"
    using assms(1) by (simp_all add: live_sim_def)
  then have "load64 (rmem (lv_world ?l)) (rb + (e - 8)) = load64 (lmem (lv_world ?l)) cp + mf_news f"
    by (auto simp: lat_sim_def lat_writer_at_def live_view_def lat_view_def Let_def)
  then have "load64 (lmem (lv_world ?l)) cp \<le> load64 (rmem (lv_world ?l)) (rb + (e - 8))" by simp
  from live_turn_ok [OF s(2) assms(4) this] obtain l' where l': "live_turn V cfg ?l = Inr l'" "live_ok l'"
    "lat_turn rb e cnt S (live_view ?l) (rmem (lv_world ?l)) = (live_view l', rmem (lv_world l'))"
    by blast
  let ?t = "s\<lparr>ls_writer := l', ls_im := (ls_im s)\<lparr>im_mem := rmem (lv_world l')\<rparr>\<rparr>"
  have "lat_session_writer rb e cnt S ?a = with_writer (live_view l') ?t"
    using l'(3) s(3) by (simp add: lat_session_writer_def with_writer_def)
  with lat_sim_writer [OF s(1) assms(2,3)] have "lat_sim rb e cnt S (with_writer (live_view l') ?t) (mfifo_writer f)" by simp
  then show ?thesis using l'(1,2) by (intro exI [of _ ?t]) (simp add: live_session_writer_def live_sim_def)
qed

lemma live_sim_consumer:
  assumes "live_sim s f" "mfifo_ok cnt f" "lat_fits rb e cnt S"
  shows "\<exists>t. live_session_consumer put s = Inr t \<and> live_sim t (mfifo_consumer f)"
proof -
  let ?l = "ls_writer s" and ?x = "live_view (ls_writer s)"
  have s: "lat_sim rb e cnt S (with_writer ?x s) f" "live_ok ?l" using assms(1) by (simp_all add: live_sim_def)
  from lat_sim_consumer [OF s(1) assms(2,3)] obtain t where t: "lat_session_consumer s = Inr t"
    "lat_sim rb e cnt S (with_writer ?x t) (mfifo_consumer f)"
    by (auto simp: consumer_with_writer bindR_eq_Inr)
  have wr: "ls_writer t = ?l" using okRD [OF consumer_keeps_writer t(1)] .
  let ?w = "put (im_mem (ls_im t)) (lv_world ?l)"
  let ?u = "t\<lparr>ls_writer := ?l\<lparr>lv_world := ?w\<rparr>\<rparr>"
  obtain off where l: "la_conn off (lv_writer ?l) (lv_world ?l)" "busy (lv_world ?l) = {}"
    using s(2) by (auto simp: live_ok_def)
  then have "up (lv_world ?l)" "\<not> pend (lv_world ?l)" by (simp_all add: la_conn_def ready_def)
  note w = put_idle [OF this l(2), of "im_mem (ls_im t)"]
  have "la_conn off (lv_writer ?l) ?w" using l w by (simp add: la_conn_def ready_def)
  then have "live_ok (?l\<lparr>lv_world := ?w\<rparr>)" using s(2) w by (auto simp: live_ok_def)
  moreover have "live_view (?l\<lparr>lv_world := ?w\<rparr>) = ?x" using w by (simp add: live_view_def lat_view_def live_data_def)
  ultimately have "live_sim ?u (mfifo_consumer f)" using t(2) w by (simp add: live_sim_def with_writer_def)
  moreover have "live_session_consumer put s = Inr ?u" using t(1) wr by (simp add: live_session_consumer_def)
  ultimately show ?thesis by blast
qed

lemma live_fits:
  assumes "2 \<le> cnt" "lat_ready (cfg_RDMA_MAX_WR cfg) p cq lkey rkey lreg rreg rb e cnt S h cp ptr cap s lm rm"
  shows "lat_fits rb e cnt S"
  using assms ring_fits unfolding lat_fits_def lat_ready_def la_counter_def by blast

lemma live_channel:
  assumes "lat_fits rb e cnt S" "S + 24 \<le> cap"
  shows "message_channel cnt live_sim (live_session_writer V cfg rmem) (live_session_consumer put) ls_out lat_held"
proof
  show "2 \<le> cnt" using assms(1) by (simp add: lat_fits_def)
next
  fix s f assume s: "live_sim s f" "mfifo_ok cnt f"
  show "\<exists>t. live_session_writer V cfg rmem s = Inr t \<and> live_sim t (mfifo_writer f)" by (rule live_sim_writer [OF s assms])
  show "\<exists>t. live_session_consumer put s = Inr t \<and> live_sim t (mfifo_consumer f)" by (rule live_sim_consumer [OF s assms(1)])
  from s(1) lat_sim_view show "ls_out s = mf_out f \<and> lat_held s = mf_held f" by (fastforce simp: live_sim_def)
qed

lemma live_sim_start:
  assumes "lat_ready (cfg_RDMA_MAX_WR cfg) p cq lkey rkey lreg rreg rb e cnt S h cp ptr cap s (lmem w) (rmem w)"
    and "up w" "\<not> pend w" "posted w \<le> cl_countWR (la_client s)" "busy w = {}"
    and "bh_entrySegments hdl = [seg]" "seg_offset seg = e" "lat_ring_made (rmem w) rb e cnt S" "lat_fits rb e cnt S"
    and "\<forall>(d, n, sig) \<in> set msgs. sig \<and> n \<le> S \<and> {d..<d + n} \<inter> lreg = {}" "cnt + length msgs < 2 ^ 64"
  shows "live_sim (live_session_start hdl rb rmem s w msgs) (mfifo_start cnt (map (\<lambda>(d, n, sig). mem_read (lmem w) d n) msgs))"
proof -
  let ?xs = "map (\<lambda>(d, n, sig). mem_read (lmem w) d n) msgs"
  obtain b im where it: "getIteratorLat hdl rb (rmem w) = (b, im)" by force
  have e: "8 \<le> e" "e < 2 ^ 64" "0 < cnt" using assms(9) by (auto simp: lat_fits_def)
  note im = lat_iter_start(2) [OF it assms(6,7) e]
  let ?s = "live_session_start hdl rb rmem s w msgs"
  have lens: "\<forall>x \<in> set ?xs. length x \<le> S" "cnt + length ?xs < 2 ^ 64" using assms(10,11) by (auto split: prod.splits)
  have r: "la_set_up (cfg_RDMA_MAX_WR cfg) p cq lkey rkey rb h ptr cap 0 s" "la_at e cnt S 0 s"
    "la_counter lreg rreg rb e h ptr cap cp s" "la_writeableFreeSegments s = load64 (rmem w) (rb + (e - 8))"
    "load64 (lmem w) cp = load64 (rmem w) (rb + (e - 8))" "get_header (lmem w) h = get_header (rmem w) (rb + e)"
    using assms(1) by (simp_all add: lat_ready_def)
  have "with_writer (live_view (ls_writer ?s)) ?s = lat_session_start hdl rb (rmem w) ?xs"
    using r(2,4-6) assms(6,7)
    by (simp add: live_session_start_def lat_session_start_def it with_writer_def live_view_def lat_view_def live_data_def
        la_at_def Let_def)
  moreover have "la_conn 0 s w" using r(1) assms(2-5) by (simp add: la_conn_def ready_def)
  then have "live_ok (ls_writer ?s)"
    using r(2-4) assms(5,10) load64_bound [of "rmem w" "rb + (e - 8)"] by (auto simp: live_session_start_def it live_ok_def)
  ultimately show ?thesis
    using lat_sim_start [OF assms(6-9) lens] im by (simp add: live_sim_def) (simp add: live_session_start_def it)
qed

end

section \<open>Two segments and a small internal buffer\<close>

text \<open>
  The sample fabric with the memory behind it, a ring of two segments of 16 bytes, and an internal buffer of 64 bytes, which
  starts anew at almost every message.
\<close>

definition fab_put :: "mem \<Rightarrow> fab world \<Rightarrow> fab world" where
  "fab_put m w = w\<lparr>dev := (dev w)\<lparr>fab_mem := m\<rparr>\<rparr>"

lemma fab_empty_writes:
  "\<forall>wr \<in> set q. wr_opcode wr = IBV_WR_RDMA_WRITE \<and> wr_length wr = 0 \<Longrightarrow> fold fab_exec q (l, r) = (l, r)"
  by (induction q) (simp_all add: fab_exec_write)

lemma fab_put_idle:
  assumes "fab_up w" "\<not> fab_pend w" "fab_busy w = {}"
  shows "fab_up (fab_put m w) \<and> \<not> fab_pend (fab_put m w) \<and> fab_busy (fab_put m w) = {} \<and>
    fab_posted (fab_put m w) = fab_posted w \<and> fab_rmem (fab_put m w) = m \<and> lmem (fab_put m w) = lmem w"
proof -
  have "\<forall>wr \<in> set (fab_queue (dev w)). wr_opcode wr = IBV_WR_RDMA_WRITE \<and> wr_length wr = 0"
    using fab_idle_writes [OF assms(1,2)] assms(3) by (auto simp: fab_busy_def)
  then have "fab_rmem (fab_put m w) = m"
    by (simp add: fab_rmem_def fab_flush_def fab_put_def fab_empty_writes)
  with assms show ?thesis by (simp add: fab_put_def fab_up_def fab_pend_def fab_busy_def fab_posted_def)
qed

interpretation fab_live: lat_link fab_verbs fab_qp 3 1 2 fab_lreg fab_rreg fab_slots
  fab_up fab_rmem fab_due fab_busy fab_posted fab_pend "\<lambda>w. fab_delay (dev w)" fab_config 65536 64 2 16 4096 4120 64 fab_put 6000
  by unfold_locales (use fab_put_idle in \<open>auto simp: fab_slots_def fab_rreg_def fab_lreg_def\<close>)

interpretation fab_channel: message_channel 2 fab_live.live_sim "live_session_writer fab_verbs fab_config fab_rmem"
  "live_session_consumer fab_put" ls_out lat_held
  by (rule fab_live.live_channel) (simp_all add: lat_fits_def)

definition fab_live_ring :: mem where
  "fab_live_ring = store64 (write_ring 65536 64 2 40 (\<lambda>_. 0)) 65592 2"

definition fab_live_world :: "fab world" where
  "fab_live_world =
     \<lparr>lmem = store64 (put_header (\<lambda>a. word_of_nat a) 4096 (get_header fab_live_ring 65600)) 6000 2,
      dev = \<lparr>fab_mem = fab_live_ring, fab_queue = [], fab_delay = 0\<rparr>\<rparr>"

definition fab_live_handle :: BufferHandle where
  "fab_live_handle = (newBufferHandle ''b'' 1 2 1 16 LAT)\<lparr>bh_entrySegments := [\<lparr>seg_offset = 64, seg_size = 16\<rparr>]\<rparr>"

definition fab_live_writer :: writer_lat where
  "fab_live_writer = \<lparr>la_internalBuffer = Some \<lparr>ib_bufferPtr = 4120, ib_size = 64, ib_offset = 0\<rparr>,
     la_handle = fab_live_handle, la_client = fab_client, la_segmentHeader = Some 4096, la_deleteRdmaClient = False,
     la_lastSegmentOffset = 0, la_currentSegmentOffset = 64, la_nextSegmentOffset = 104, la_segmentIndex = 0,
     la_consumedCnt = Some 6000, la_writeableFreeSegments = 2\<rparr>"

definition fab_live_msgs :: "(nat \<times> nat \<times> bool) list" where
  "fab_live_msgs = [(0, 16, True), (100, 5, True), (30, 3, True), (7, 0, True), (9, 16, True)]"

lemma fab_live_made: "lat_ring_made (fab_rmem fab_live_world) 65536 64 2 16"
proof -
  have "ring_fresh (write_ring 65536 64 2 40 (\<lambda>_. 0)) 65536 64 2 40"
    using write_ring_correct(1) [of 2 40 64 65536 "\<lambda>_. 0"] by (simp add: seg_at_def)
  moreover have "get_header fab_live_ring (65536 + seg_at 64 40 i) = get_header (write_ring 65536 64 2 40 (\<lambda>_. 0)) (65536 + seg_at 64 40 i)" for i
    unfolding fab_live_ring_def store64_def by (intro get_header_write_disjoint) (simp add: seg_at_def)
  ultimately have "lat_ring_made fab_live_ring 65536 64 2 16"
    by (simp add: lat_ring_made_def ring_fresh_def ring_linked_def) (simp add: fab_live_ring_def u64_def)
  then show ?thesis by (simp add: fab_live_world_def fab_rmem_def fab_flush_def)
qed

lemma fab_live_start:
  "lat_ready 8 fab_qp 3 1 2 fab_lreg fab_rreg 65536 64 2 16 4096 6000 4120 64 fab_live_writer (lmem fab_live_world) (fab_rmem fab_live_world)"
  "fab_up fab_live_world" "\<not> fab_pend fab_live_world" "fab_posted fab_live_world = 0" "fab_busy fab_live_world = {}"
proof -
  show "fab_up fab_live_world" "\<not> fab_pend fab_live_world" "fab_posted fab_live_world = 0" "fab_busy fab_live_world = {}"
    by (simp_all add: fab_live_world_def fab_up_def fab_pend_def fab_posted_def fab_busy_def)
  have rm: "fab_rmem fab_live_world = fab_live_ring" by (simp add: fab_live_world_def fab_rmem_def fab_flush_def)
  have "la_set_up 8 fab_qp 3 1 2 65536 4096 4120 64 0 fab_live_writer"
    using fab_client_on by (simp add: la_set_up_def fab_live_writer_def fab_live_handle_def newBufferHandle_def)
  moreover have "la_at 64 2 16 0 fab_live_writer"
    by (simp add: la_at_def fab_live_writer_def fab_live_handle_def newBufferHandle_def seg_at_def)
  moreover have "la_counter fab_lreg fab_rreg 65536 64 4096 4120 64 6000 fab_live_writer"
    by (auto simp: la_counter_def fab_live_writer_def fab_lreg_def fab_rreg_def)
  moreover have "load64 fab_live_ring 65592 = 2" by (simp add: fab_live_ring_def u64_def)
  moreover have "load64 (lmem fab_live_world) 6000 = 2" by (simp add: fab_live_world_def u64_def)
  moreover have "get_header (lmem fab_live_world) 4096 = get_header fab_live_ring 65600"
    by (simp add: fab_live_world_def store64_def get_header_write_disjoint)
  moreover have "la_writeableFreeSegments fab_live_writer = 2" by (simp add: fab_live_writer_def)
  ultimately show "lat_ready 8 fab_qp 3 1 2 fab_lreg fab_rreg 65536 64 2 16 4096 6000 4120 64 fab_live_writer (lmem fab_live_world)
      (fab_rmem fab_live_world)"
    by (simp add: lat_ready_def rm)
qed

section \<open>Properties\<close>

text \<open>
  Claim C6. A latency ring implements the channel of messages. On a reliable connection, for a writer as its constructor
  leaves it on a ring of at least two segments nobody has written to, for messages that are appended signaled, lie outside
  registered memory and fit a segment, and for an internal buffer that holds a segment and has 24 spare bytes behind it:
  however the polls and transfers of \<open>BufferWriterLat\<close> and the rounds of \<open>BufferIteratorLat\<close> are interleaved, over any number of
  laps of the ring and of the internal buffer, no turn fails, and after any number of turns the messages the consumer has
  finished with and the one in its hands, read where it lies only when the consumer asks for the next, are those of the
  channel on credit: no message is overwritten before it has been read, split, lost or doubled, although the writer
  learns of the free segments only through the counter. Turns do not overlap: the consumer looks before the write of a message
  or after it, never while the adapter is placing its header and bytes.
\<close>

theorem latency_ring_implements_channel:
  assumes "lat_link V p cq lkey rkey lreg rreg slots up rmem due busy posted pend rank cfg rb e cnt S h ptr cap put cp"
    and "2 \<le> cnt" "S + 24 \<le> cap"
    and "lat_ready (cfg_RDMA_MAX_WR cfg) p cq lkey rkey lreg rreg rb e cnt S h cp ptr cap s (lmem w) (rmem w)"
    and "up w" "\<not> pend w" "posted w \<le> cl_countWR (la_client s)" "busy w = {}"
    and "bh_entrySegments hdl = [seg]" "seg_offset seg = e" "lat_ring_made (rmem w) rb e cnt S"
    and "\<forall>(d, n, sig) \<in> set msgs. sig \<and> n \<le> S \<and> {d..<d + n} \<inter> lreg = {}" "cnt + length msgs < 2 ^ 64"
  shows "\<exists>t. turns_run (live_session_writer V cfg rmem) (live_session_consumer put) sched n (live_session_start hdl rb rmem s w msgs) = Inr t \<and>
    (let f = mfifo_run sched n (mfifo_start cnt (map (\<lambda>(d, n, sig). mem_read (lmem w) d n) msgs)) in
     ls_out t = mf_out f \<and> lat_held t = mf_held f)"
proof -
  note fits = lat_link.live_fits [OF assms(1,2,4)]
  note C = lat_link.live_channel [OF assms(1) fits assms(3)]
    and start = lat_link.live_sim_start [OF assms(1,4-11) fits assms(12,13)]
  from message_channel.run_refines [OF C start mfifo_start_simps(2)] obtain t where
    t: "turns_run (live_session_writer V cfg rmem) (live_session_consumer put) sched n (live_session_start hdl rb rmem s w msgs) = Inr t"
    "lat_link.live_sim p cq lkey rkey lreg rreg up rmem busy posted pend cfg rb e cnt S h ptr cap cp t
       (mfifo_run sched n (mfifo_start cnt (map (\<lambda>(d, n, sig). mem_read (lmem w) d n) msgs)))"
    by blast
  from message_channel.sim_view [OF C t(2)] mfifo_run_ok [OF mfifo_start_simps(2)] t(1) show ?thesis by (simp add: Let_def)
qed

theorem latency_ring_implements_channel_witness:
  "\<exists>t. turns_run (live_session_writer fab_verbs fab_config fab_rmem) (live_session_consumer fab_put) even 9
      (live_session_start fab_live_handle 65536 fab_rmem fab_live_writer fab_live_world fab_live_msgs) = Inr t \<and>
    (let f = mfifo_run even 9 (mfifo_start 2 (map (\<lambda>(d, n, sig). mem_read (lmem fab_live_world) d n) fab_live_msgs)) in
     ls_out t = mf_out f \<and> lat_held t = mf_held f)"
  by (rule latency_ring_implements_channel [OF fab_live.lat_link_axioms _ _ _ _ _ _ _ _ _ fab_live_made, where seg = "\<lparr>seg_offset = 64, seg_size = 16\<rparr>"])
    (use fab_live_start in \<open>simp_all add: fab_live_handle_def fab_live_msgs_def fab_lreg_def\<close>)

text \<open>
  Claim C7. Every message arrives. On the same conditions (a reliable connection, a ring of at least two segments nobody has
  written to, signaled messages outside registered memory that fit a segment, an internal buffer that holds a segment with 24
  spare bytes behind it, turns that do not overlap) and under every schedule that lets both sides run again and again, the
  consumer comes to have all the messages, each with exactly the bytes it had in the appender's memory and in the order they
  were appended, the last one in its hands: writer and consumer never wait for each other.
\<close>

theorem latency_ring_delivers:
  assumes "lat_link V p cq lkey rkey lreg rreg slots up rmem due busy posted pend rank cfg rb e cnt S h ptr cap put cp"
    and "2 \<le> cnt" "S + 24 \<le> cap"
    and "lat_ready (cfg_RDMA_MAX_WR cfg) p cq lkey rkey lreg rreg rb e cnt S h cp ptr cap s (lmem w) (rmem w)"
    and "up w" "\<not> pend w" "posted w \<le> cl_countWR (la_client s)" "busy w = {}"
    and "bh_entrySegments hdl = [seg]" "seg_offset seg = e" "lat_ring_made (rmem w) rb e cnt S"
    and "\<forall>(d, n, sig) \<in> set msgs. sig \<and> n \<le> S \<and> {d..<d + n} \<inter> lreg = {}" "cnt + length msgs < 2 ^ 64" "fair sched"
  shows "\<exists>n t. turns_run (live_session_writer V cfg rmem) (live_session_consumer put) sched n (live_session_start hdl rb rmem s w msgs) = Inr t \<and>
    ls_out t @ (case lat_held t of None \<Rightarrow> [] | Some x \<Rightarrow> [x]) = map (\<lambda>(d, n, sig). mem_read (lmem w) d n) msgs"
proof -
  note fits = lat_link.live_fits [OF assms(1,2,4)]
  from message_channel.run_delivers [OF lat_link.live_channel [OF assms(1) fits assms(3)]
      lat_link.live_sim_start [OF assms(1,4-11) fits assms(12,13)] mfifo_start_simps(2) assms(14)]
  show ?thesis by simp
qed

theorem latency_ring_delivers_witness:
  "\<exists>n t. turns_run (live_session_writer fab_verbs fab_config fab_rmem) (live_session_consumer fab_put) even n
      (live_session_start fab_live_handle 65536 fab_rmem fab_live_writer fab_live_world fab_live_msgs) = Inr t \<and>
    ls_out t @ (case lat_held t of None \<Rightarrow> [] | Some x \<Rightarrow> [x]) =
      map (\<lambda>(d, n, sig). mem_read (lmem fab_live_world) d n) [(0, 16, True), (100, 5, True), (30, 3, True), (7, 0, True), (9, 16, True)]"
proof -
  have "\<exists>m \<ge> n. even m = side" for n :: nat and side
    by (cases "even n = side") (auto intro: exI [of _ n] exI [of _ "Suc n"])
  then have "fair even" by (simp add: fair_def)
  then show ?thesis
    unfolding fab_live_msgs_def [symmetric]
    by (intro latency_ring_delivers [OF fab_live.lat_link_axioms _ _ _ _ _ _ _ _ _ fab_live_made, where seg = "\<lparr>seg_offset = 64, seg_size = 16\<rparr>"])
      (use fab_live_start in \<open>simp_all add: fab_live_handle_def fab_live_msgs_def fab_lreg_def\<close>)
qed


end
