(* ===== verification/Lat_Close.thy ===== *)
theory Lat_Close
  imports Lat_Consumer Benchmarks
begin

text \<open>
  The end of a low-latency stream: \<open>close\<close> of \<open>BufferWriterLat\<close> marks the segment of the last message, and
  \<open>BufferIteratorLat\<close> comes to its end behind it. The latency benchmark from its client thread to the count of its server.
\<close>

section \<open>Closing\<close>

context ring_stream
begin

lemma la_close_ok:
  assumes "la_conn off s w" "la_lastSegmentOffset s = seg_at e (S + 24) k" "k < cnt" "bh_segmentSizes (la_handle s) = S"
    and "hdr = markEndSegment True (setConsumable True (setWriteable False ((get_header (lmem w) h)\<lparr>counter := S\<rparr>)))"
  shows "\<exists>s' w'. la_close V cfg s w = Inr (True, s', w') \<and> header_ok hdr \<and>
    rmem w' = put_header (rmem w) (rb + seg_at e (S + 24) k) hdr \<and> (\<forall>a. a \<notin> lreg \<longrightarrow> lmem w' a = lmem w a)"
proof -
  let ?m = "put_header (lmem w) h hdr"
  have s: "client_on (cfg_RDMA_MAX_WR cfg) (bh_node_id (la_handle s)) p cq lkey rkey rb (la_client s)"
    "la_segmentHeader s = Some h" "ready (la_client s) w" "busy w \<subseteq> {ptr..<ptr + off}" "off \<le> cap"
    using assms(1) by (auto simp: la_conn_def la_set_up_def)
  have "\<forall>a \<in> busy w. ?m a = lmem w a" using s(4,5) hdr_buf by (auto simp: put_header_outside)
  note st = store [OF _ _ this]
  let ?w = "w\<lparr>lmem := ?m\<rparr>"
  have w: "ready (la_client s) ?w" "rmem ?w = rmem w" using st s(3) by (auto simp: ready_def)
  have at: "rb + seg_at e (S + 24) k < 2 ^ 64" "{rb + seg_at e (S + 24) k..<rb + seg_at e (S + 24) k + 24} \<subseteq> rreg"
    using seg_fits [OF assms(3), of 0] seg_region(2) [OF assms(3), of 0 24] by simp_all
  have "S < 2 ^ 64" using seg_fits [OF assms(3), of S] by simp
  then have ok: "header_ok hdr" using header_ok_get [of "lmem w" h] by (simp add: header_ok_def assms(5))
  obtain n w' where w': "writeRC V cfg (bh_node_id (la_handle s)) (seg_at e (S + 24) k) h 24 True (la_client s) ?w =
      Inr (True, (la_client s)\<lparr>cl_countWR := n\<rparr>, w')" "lmem w' = lmem ?w"
    "rmem w' = mem_write (rmem ?w) (rb + seg_at e (S + 24) k) (mem_read (lmem ?w) h 24)"
    using writeRC_ok [OF s(1) w(1) wr_limit _ at(1) hdr_mem at(2), of True] by auto
  have "la_close V cfg s w = Inr (True, s\<lparr>la_client := (la_client s)\<lparr>cl_countWR := n\<rparr>\<rparr>, w')"
    using w'(1) s(2) assms(2,4,5) by (simp add: la_close_def la_writeHeaderToRemote_def Let_def)
  moreover have "mem_read ?m h 24 = header_bytes hdr" by (simp add: put_header_def)
  then have "rmem w' = put_header (rmem w) (rb + seg_at e (S + 24) k) hdr" using w'(3) w(2) by (simp add: put_header_def)
  moreover have "\<forall>a. a \<notin> lreg \<longrightarrow> lmem w' a = lmem w a"
  proof (intro allI impI)
    fix a assume "a \<notin> lreg"
    then have "a \<notin> {h..<h + 24}" using hdr_mem by blast
    then have "a < h \<or> h + 24 \<le> a" by auto
    then show "lmem w' a = lmem w a" using w'(2) by (auto simp: put_header_outside)
  qed
  ultimately show ?thesis using ok by blast
qed

end

section \<open>The last segment\<close>

lemma take_messages_add:
  "take_messages (m + n) b im =
     bindR (take_messages m b im) (\<lambda>(xs, b, im). bindR (take_messages n b im) (\<lambda>(ys, b, im). Inr (xs @ ys, b, im)))"
proof (induction m arbitrary: b im)
  case 0
  then show ?case by (cases "take_messages n b im") auto
next
  case (Suc m)
  show ?case
  proof (cases "wait_for_next b im")
    case (Inr t)
    obtain ret b1 im1 where t: "t = (ret, b1, im1)" by (cases t) auto
    show ?thesis
    proof (cases "take_messages m b1 im1")
      case (Inl x)
      then show ?thesis
        using Suc [of b1 im1] Inr t by (auto split: option.splits header_ptr.splits)
    next
      case Inr2: (Inr u)
      obtain xs b2 im2 where u: "u = (xs, b2, im2)" by (cases u) auto
      then show ?thesis
        using Suc [of b1 im1] Inr Inr2 t
        by (cases "take_messages n b2 im2") (auto split: option.splits header_ptr.splits)
    qed
  qed simp
qed

lemma wait_for_next_after_end:
  assumes "bi_iters b = [ih]" "bi_pointer b \<le> 1" "bi_lat b" "isEndSegment (deref (si_header (ih_prev ih)) im)"
  shows "wait_for_next b im = Inr (None, b\<lparr>bi_pointer := 0, bi_iters := []\<rparr>, im)"
proof -
  have "has_next_step (b, im) = Inr (False, b\<lparr>bi_pointer := 0, bi_iters := []\<rparr>, im)"
    using has_next_step_single [OF assms(1,2)] assms by (simp add: mark_prev_segment_def Let_def)
  then have "has_next b im = Inr (False, b\<lparr>bi_pointer := 0, bi_iters := []\<rparr>, im)"
    using assms(1) by (simp add: has_next_def loopR_unfold)
  then show ?thesis by (simp add: wait_for_next_def)
qed

text \<open>A segment with an end mark is handed out like any other; then the ring is finished.\<close>

lemma wait_for_last:
  assumes "lat_iter rb e S cnt j b im" "j < cnt" "8 \<le> e"
    and "last_header n (get_header (im_mem im) (seg_addr rb e S j))"
    and "j \<noteq> 0 \<Longrightarrow> isWriteable (get_header (im_mem im) (seg_addr rb e S (j - 1))) \<and>
      \<not> isEndSegment (get_header (im_mem im) (seg_addr rb e S (j - 1)))"
  shows "\<exists>b1 im1 b2. wait_for_next b im = Inr (Some (InBuffer (seg_addr rb e S j), n), b1, im1) \<and>
    (\<forall>a \<in> {seg_addr rb e S j..<seg_addr rb e S j + (S + 24)}. im_mem im1 a = im_mem im a) \<and>
    wait_for_next b1 im1 = Inr (None, b2, im1) \<and> bi_iters b2 = []"
proof -
  let ?m = "if j = 0 then im_mem im else lat_release rb e S (j - 1) (im_mem im)"
  let ?im = "im\<lparr>im_mem := ?m\<rparr>" and ?b = "b\<lparr>bi_pointer := 0\<rparr>"
  have jc: "j mod cnt = j" using assms(2) by simp
  from assms(1) obtain ih where ih: "bi_iters b = [ih]" "si_rdmaBuffer (ih_iter ih) = rb" "bi_lat b" "bi_pointer b \<le> 1"
    "bi_rdmaBuffer b = rb" "ih_counterOffset ih = e - 8" "si_header (ih_iter ih) = InBuffer (seg_addr rb e S j)"
    and prev: "if j = 0 then \<exists>i < length (im_heap im). si_header (ih_prev ih) = OnHeap i \<and>
             \<not> isEndSegment (im_heap im ! i) \<and> \<not> isWriteable (im_heap im ! i)
         else si_header (ih_prev ih) = InBuffer (seg_addr rb e S (j - 1))"
    by (auto simp: lat_iter_def jc)
  have prev_open: "\<not> isEndSegment (deref (si_header (ih_prev ih)) im)"
    using prev assms(5) by (auto simp: deref_def split: if_splits)
  have mark: "mark_prev_segment ?b im = Inr ?im"
  proof (cases "j = 0")
    case True
    then obtain i where "si_header (ih_prev ih) = OnHeap i" "\<not> isWriteable (im_heap im ! i)" using prev by auto
    then show ?thesis using mark_prev_lat(1) [of ?b ih rb e i im] ih assms(3) True by simp
  next
    case False
    then show ?thesis using mark_prev_lat(2) [of ?b ih rb e S "j - 1" im] ih assms(3,5) prev by simp
  qed
  have same: "?m a = im_mem im a" if "a \<in> {seg_addr rb e S j..<seg_addr rb e S j + (S + 24)}" for a
  proof (cases "j = 0")
    case False
    then have "j \<noteq> j - 1" by simp
    from lat_release_outside [OF this assms(3) that] False show ?thesis by simp
  qed simp
  then have "get_header ?m (seg_addr rb e S j) = get_header (im_mem im) (seg_addr rb e S j)"
    by (intro get_header_cong) auto
  then have cur: "last_header n (get_header ?m (seg_addr rb e S j))" using assms(4) by simp
  have "has_next_step (b, im) = Inr (True, ?b, im)"
    using has_next_step_single [OF ih(1,4)] prev_open assms(4) ih(7) by (simp add: deref_def last_header_def)
  then have found: "has_next b im = Inr (True, ?b, im)"
    using ih(1) by (simp add: has_next_def loopR_unfold)
  let ?ih = "ih\<lparr>ih_prev := ih_iter ih, ih_iter := si_next (ih_iter ih) ?im\<rparr>"
  let ?b1 = "?b\<lparr>bi_iters := [?ih], bi_pointer := 1\<rparr>"
  have run: "wait_for_next b im = Inr (Some (InBuffer (seg_addr rb e S j), n), ?b1, ?im)"
    using found mark ih(1,7) cur
    by (simp add: wait_for_next_def next_segment_def getRawData_def deref_def last_header_def Let_def)
  have iters: "bi_iters ?b1 = [?ih]" "bi_pointer ?b1 \<le> 1" by simp_all
  have fin: "isEndSegment (deref (si_header (ih_prev ?ih)) ?im)"
    using ih(7) cur by (simp add: deref_def last_header_def)
  note none = wait_for_next_after_end [OF iters _ fin]
  show ?thesis
    using run none ih(3) same
    by (intro exI [of _ ?b1] exI [of _ ?im] exI [of _ "?b1\<lparr>bi_pointer := 0, bi_iters := []\<rparr>"]) simp
qed

text \<open>
  A ring with messages \<open>xs\<close> and, behind them, a segment with an end mark that starts with the bytes \<open>y\<close>.
\<close>

definition lat_closed :: "nat \<Rightarrow> nat \<Rightarrow> nat \<Rightarrow> nat \<Rightarrow> byte list list \<Rightarrow> byte list \<Rightarrow> mem \<Rightarrow> bool" where
  "lat_closed rb e cnt S xs y m \<longleftrightarrow> length xs < cnt \<and> (\<forall>x \<in> set xs. length x \<le> S) \<and> length y \<le> S \<and>
     (\<forall>i < length xs. la_message m (seg_addr rb e S i) (xs ! i) (seg_at e (S + 24) (Suc i mod cnt))) \<and>
     last_header S (get_header m (seg_addr rb e S (length xs))) \<and>
     mem_read m (seg_addr rb e S (length xs) + 24) (length y) = y"

lemma take_closed:
  assumes "lat_closed rb e cnt S xs y m" "getIteratorLat hdl rb m = (b0, im0)" "bh_entrySegments hdl = [seg]" "seg_offset seg = e"
    and "8 \<le> e" "e < 2 ^ 64"
  shows "\<exists>rest b im b'. take_messages (Suc (length xs)) b0 im0 = Inr (xs @ [y @ rest], b, im) \<and> length (y @ rest) = S \<and>
    wait_for_next b im = Inr (None, b', im) \<and> bi_iters b' = []"
proof -
  let ?n = "length xs" and ?c = "load64 m (rb + (e - 8))"
  have n: "?n < cnt" and lens: "\<forall>x \<in> set xs. length x \<le> S" and y: "length y \<le> S" using assms(1) by (simp_all add: lat_closed_def)
  then have cnt: "0 < cnt" by simp
  note start = lat_iter_start(1) [OF assms(2-6) cnt, of S] lat_iter_start(2) [OF assms(2-6) cnt]
  have "lat_ring rb e cnt S ?c xs 0 (im_mem im0)"
    using assms(1) by (auto simp: lat_ring_def lat_closed_def start(2) u64_def)
  from take_rest [OF start(1) this _ less_imp_le [OF n] assms(5) lens]
  obtain b1 im1 where 1: "take_messages ?n b0 im0 = Inr (xs, b1, im1)" "lat_ring rb e cnt S ?c xs ?n (im_mem im1)"
    "lat_iter rb e S cnt ?n b1 im1"
    and same: "\<forall>a \<in> {seg_addr rb e S ?n..<seg_addr rb e S ?n + (S + 24)}. im_mem im1 a = m a"
    by (auto simp: start(2))
  have "get_header (im_mem im1) (seg_addr rb e S ?n) = get_header m (seg_addr rb e S ?n)"
    using same by (intro get_header_cong) auto
  then have last: "last_header S (get_header (im_mem im1) (seg_addr rb e S ?n))" using assms(1) by (simp add: lat_closed_def)
  have before: "isWriteable (get_header (im_mem im1) (seg_addr rb e S (?n - 1))) \<and>
      \<not> isEndSegment (get_header (im_mem im1) (seg_addr rb e S (?n - 1)))" if "?n \<noteq> 0"
  proof -
    have "la_message (im_mem im1) (seg_addr rb e S (?n - 1)) (xs ! (?n - 1)) (seg_at e (S + 24) (Suc (?n - 1) mod cnt))"
    proof -
      have "\<forall>i < ?n. ?n \<le> Suc i \<longrightarrow> la_message (im_mem im1) (seg_addr rb e S i) (xs ! i) (seg_at e (S + 24) (Suc i mod cnt))"
        using 1(2) unfolding lat_ring_def by blast
      from this [rule_format, of "?n - 1"] that show ?thesis by simp
    qed
    then show ?thesis by (simp add: la_message_def)
  qed
  from wait_for_last [OF 1(3) n assms(5) last before]
  obtain b2 im2 b3 where 2: "wait_for_next b1 im1 = Inr (Some (InBuffer (seg_addr rb e S ?n), S), b2, im2)"
    "\<forall>a \<in> {seg_addr rb e S ?n..<seg_addr rb e S ?n + (S + 24)}. im_mem im2 a = im_mem im1 a"
    "wait_for_next b2 im2 = Inr (None, b3, im2)" "bi_iters b3 = []"
    by blast
  let ?a = "seg_addr rb e S ?n + 24"
  have "mem_read (im_mem im2) ?a (length y) = mem_read m ?a (length y)"
    using 2(2) same y by (intro mem_read_cong) auto
  also have "\<dots> = y" using assms(1) by (simp add: lat_closed_def)
  finally have "mem_read (im_mem im2) ?a S = y @ mem_read (im_mem im2) (?a + length y) (S - length y)"
    using y mem_read_append [of "im_mem im2" ?a "length y" "S - length y"] by simp
  moreover have "take_messages (Suc ?n) b0 im0 = Inr (xs @ [mem_read (im_mem im2) ?a S], b2, im2)"
    using take_messages_add [of ?n 1 b0 im0] 1(1) 2(1) by simp
  ultimately show ?thesis using 2(3,4) y
    by (intro exI [of _ "mem_read (im_mem im2) (?a + length y) (S - length y)"] exI [of _ b2] exI [of _ im2] exI [of _ b3]) simp
qed

text \<open>What \<open>close\<close> leaves behind after some messages.\<close>

lemma lat_written_closed:
  assumes R: "ring_stream V p cq lkey rkey lreg rreg slots up rmem due busy posted pend rank cfg rb e cnt S h ptr cap"
    and "la_set_up (cfg_RDMA_MAX_WR cfg) p cq lkey rkey rb h ptr cap off s" and "la_at e cnt S 0 s"
    and "up w" and "\<not> pend w" and "posted w \<le> cl_countWR (la_client s)" and "busy w \<subseteq> {ptr..<ptr + off}"
    and "length msgs \<le> la_writeableFreeSegments s" and "la_writeableFreeSegments s < 2 ^ 64" and "length msgs \<le> cnt"
    and "off + sum_list (map (\<lambda>(d, n, sig). n + 24) msgs) + 24 \<le> cap"
    and "\<forall>(d, n, sig) \<in> set msgs. n \<le> S \<and> {d..<d + n} \<inter> lreg = {}"
    and "isWriteable (get_header (lmem w) h)" and "\<not> isEndSegment (get_header (lmem w) h)" and "msgs \<noteq> []"
    and "xs = map (\<lambda>(d, n, sig). mem_read (lmem w) d n) msgs"
  shows "\<exists>s1 w1 s2 w2. la_appends V cfg msgs s w = Inr (True, s1, w1) \<and> la_close V cfg s1 w1 = Inr (True, s2, w2) \<and>
    lat_closed rb e cnt S (butlast xs) (last xs) (rmem w2)"
proof -
  let ?k = "length msgs - 1"
  have k: "?k < cnt" "length msgs = Suc ?k" using assms(10,15) by (cases msgs; simp)+
  have fits: "e + cnt * (S + 24) < 2 ^ 64" using ring_link.ring_fits [OF ring_stream.axioms(1) [OF R]] by simp
  from ring_stream.la_appends_full [OF R la_conn_start [OF assms(1,2,4-7)] assms(3,8-14)]
  obtain s1 w1 off1 where 1: "la_appends V cfg msgs s w = Inr (True, s1, w1)" "la_at e cnt S ((0 + length msgs) mod cnt) s1"
    "ring_stream.la_conn p cq lkey rkey up busy posted pend cfg rb h ptr cap off1 s1 w1"
    "\<forall>i < length msgs. case msgs ! i of (d, n, sig) \<Rightarrow>
       la_message (rmem w1) (ring_at rb e cnt S (0 + i)) (mem_read (lmem w) d n) (seg_at e (S + 24) (Suc (0 + i) mod cnt))"
    by blast
  have last: "la_lastSegmentOffset s1 = seg_at e (S + 24) ?k"
    using la_appends_at [OF assms(3) fits 1(1) assms(15)] k(1) by simp
  have S: "bh_segmentSizes (la_handle s1) = S" using 1(2) by (simp add: la_at_def)
  from ring_stream.la_close_ok [OF R 1(3) last k(1) S HOL.refl]
  obtain s2 w2 hdr where 2: "la_close V cfg s1 w1 = Inr (True, s2, w2)" "header_ok hdr"
    "hdr = markEndSegment True (setConsumable True (setWriteable False ((get_header (lmem w1) h)\<lparr>counter := S\<rparr>)))"
    "rmem w2 = put_header (rmem w1) (seg_addr rb e S ?k) hdr"
    by blast
  have len: "length xs = length msgs" "xs \<noteq> []" using assms(15,16) by simp_all
  have small: "length (xs ! i) \<le> S" if "i < length msgs" for i
    using that assms(12,16) nth_mem [OF that] by (cases "msgs ! i") fastforce
  have msg: "la_message (rmem w1) (seg_addr rb e S i) (xs ! i) (seg_at e (S + 24) (Suc i mod cnt))" if "i < length msgs" for i
  proof -
    have "i mod cnt = i" using that assms(10) by simp
    then show ?thesis using 1(4) [rule_format, OF that] that assms(16) by (cases "msgs ! i") (simp add: ring_at_def)
  qed
  have "la_message (rmem w2) (seg_addr rb e S i) (xs ! i) (seg_at e (S + 24) (Suc i mod cnt))" if "i < ?k" for i
  proof (rule la_message_cong [OF msg])
    show "rmem w2 a = rmem w1 a" if "a \<in> {seg_addr rb e S i..<seg_addr rb e S i + (S + 24)}" for a
      using that \<open>i < ?k\<close> seg_disjoint [of i ?k "S + 24" "S + 24" e] unfolding 2(4) by (intro put_header_outside) auto
  qed (use that small k in auto)
  moreover have "last_header S (get_header (rmem w2) (seg_addr rb e S ?k))"
    using 2(2) by (simp add: 2(4) 2(3) last_header_def)
  moreover have "mem_read (rmem w2) (seg_addr rb e S ?k + 24) (length (xs ! ?k)) = xs ! ?k"
    using msg [of ?k] k(2) by (simp add: 2(4) put_header_def mem_read_write_disjoint la_message_def)
  moreover have "last xs = xs ! ?k" "length (butlast xs) = ?k" using len by (simp_all add: last_conv_nth)
  moreover have "\<forall>x \<in> set (butlast xs). length x \<le> S"
    using small len by (auto dest!: in_set_butlastD simp: in_set_conv_nth)
  ultimately have "lat_closed rb e cnt S (butlast xs) (last xs) (rmem w2)"
    using k small [of ?k] by (simp add: lat_closed_def nth_butlast)
  with 1(1) 2(1) show ?thesis by blast
qed

section \<open>The benchmark\<close>

lemma take_SucE:
  assumes "take_messages (Suc n) b im = Inr (parts, b1, im1)"
  obtains a m b3 im3 ps where "wait_for_next b im = Inr (Some (InBuffer a, m), b3, im3)"
    "take_messages n b3 im3 = Inr (ps, b1, im1)" "parts = mem_read (im_mem im3) (a + 24) m # ps"
proof -
  obtain ret b3 im3 where w: "wait_for_next b im = Inr (ret, b3, im3)"
    using assms by (cases "wait_for_next b im") auto
  then obtain p m where ret: "ret = Some (p, m)" using assms by (cases ret) auto
  then obtain a where p: "p = InBuffer a" using assms w by (cases p) auto
  show ?thesis
    using assms w ret p that [of a m b3 im3] by (cases "take_messages n b3 im3") auto
qed

text \<open>The counting loop over messages that can be taken one by one.\<close>

lemma count_taken:
  assumes "take_messages n b im = Inr (parts, b1, im1)" "wait_for_next b1 im1 = Inr (None, b2, im2)" "0 < sz"
  shows "\<exists>b' im'. count_messages sz b im = Inr (word_of_nat (sum_list (map (\<lambda>x. length x div sz) parts)), b', im')"
proof -
  define going :: "bool \<times> 32 word \<times> BufferIterator \<times> iter_mem \<Rightarrow> bool" where "going = (\<lambda>(more, count, b, im). more)"
  define body where "body = (\<lambda>(more :: bool, count :: 32 word, b, im). bindR (has_next b im) (\<lambda>(found, b, im).
          if \<not> found then Inr (False, count, b, im)
          else bindR (next_segment b im) (\<lambda>((p, dataSize), b, im).
            if sz = 0 then Inl Terminate else Inr (True, count + word_of_nat (dataSize div sz), b, im))))"
  have unfold: "loopR going body (True, c, b, im) = bindR (body (True, c, b, im)) (loopR going body)"
    "loopR going body (False, c, b, im) = Inr (False, c, b, im)" for c b im
    by (subst loopR_unfold, simp add: going_def)+
  have round: "body (True, c, b, im) = bindR (has_next b im) (\<lambda>(found, b, im).
      if \<not> found then Inr (False, c, b, im)
      else bindR (next_segment b im) (\<lambda>((p, dataSize), b, im).
        if sz = 0 then Inl Terminate else Inr (True, c + word_of_nat (dataSize div sz), b, im)))" for c b im
    by (simp add: body_def)
  have "\<exists>b' im'. loopR going body (True, c, b, im) = Inr (False, c + word_of_nat (sum_list (map (\<lambda>x. length x div sz) parts)), b', im')" for c
    using assms(1)
  proof (induction n arbitrary: b im parts c)
    case 0
    then obtain b3 im3 where "has_next b im = Inr (False, b3, im3)"
      using assms(2) by (auto simp: wait_for_next_def bindR_eq_Inr split: if_splits)
    then have "loopR going body (True, c, b, im) = Inr (False, c, b3, im3)"
      using 0 by (simp add: unfold round)
    then show ?case using 0 by auto
  next
    case (Suc n)
    from Suc.prems obtain a m b3 im3 ps where 1: "wait_for_next b im = Inr (Some (InBuffer a, m), b3, im3)"
      "take_messages n b3 im3 = Inr (ps, b1, im1)" "parts = mem_read (im_mem im3) (a + 24) m # ps"
      by (rule take_SucE)
    then obtain b4 im4 where "has_next b im = Inr (True, b4, im4)" "next_segment b4 im4 = Inr ((InBuffer a, m), b3, im3)"
      by (auto simp: wait_for_next_def bindR_eq_Inr split: if_splits)
    then have "loopR going body (True, c, b, im) = loopR going body (True, c + word_of_nat (m div sz), b3, im3)"
      using assms(3) by (subst unfold(1)) (simp add: round)
    then show ?case using Suc.IH [OF 1(2), of "c + word_of_nat (m div sz)"] 1(3) by (auto simp: add.assoc)
  qed
  from this [of 0] obtain b' im' where
    "loopR going body (True, 0, b, im) = Inr (False, word_of_nat (sum_list (map (\<lambda>x. length x div sz) parts)), b', im')" by auto
  then have "count_messages sz b im = Inr (word_of_nat (sum_list (map (\<lambda>x. length x div sz) parts)), b', im')"
    unfolding count_messages_def going_def body_def by simp
  then show ?thesis by blast
qed

lemma latency_loop:
  assumes "la_appends V cfg (replicate (Suc iter) (pad, sz, sig)) s (fill_scratch pad sz w) = Inr (True, s1, w1)"
    and "la_close V cfg s1 w1 = Inr (ok, s2, w2)" "Suc iter < 2 ^ 64"
  shows "latency_thread_run V cfg pad sz iter sig s w = Inr (s2, w2)"
  unfolding latency_thread_run_def using assms(2,3)
  by (subst counted_loop [where reps = "\<lambda>n. la_appends V cfg (replicate n (pad, sz, sig))", OF assms(1), of 0 iter]) simp_all

section \<open>Properties\<close>



text \<open>
  Claim C10. The latency benchmark counts what was sent, when all of it fits. Its client thread, started at the first segment
  of a ring with at least \<open>iter + 1\<close> segments, all free, and with an internal buffer that holds all \<open>iter + 1\<close> messages with
  their headers, runs to its end without error before the server looks; the loop of the server, which then goes through the
  buffer with \<open>BufferIteratorLat\<close> and divides the size of every segment by the size of a message, ends as well and its \<open>int\<close>
  has counted \<open>iter + 1\<close>, the number of messages, provided that is less than \<open>2 ^ 31\<close>. Rings smaller than the
  number of messages, as the defaults of the benchmark have them, need both sides to run at the same time.
\<close>

theorem latency_benchmark_run:
  assumes "ring_stream V p cq lkey rkey lreg rreg slots up rmem due busy posted pend rank cfg rb e cnt S h ptr cap"
    and "la_set_up (cfg_RDMA_MAX_WR cfg) p cq lkey rkey rb h ptr cap 0 s" and "la_at e cnt S 0 s"
    and "up w" and "\<not> pend w" and "posted w \<le> cl_countWR (la_client s)" and "busy w = {}"
    and "Suc iter \<le> la_writeableFreeSegments s" and "la_writeableFreeSegments s < 2 ^ 64" and "Suc iter \<le> cnt"
    and "Suc iter * (S + 24) + 24 \<le> cap" and "{pad..<pad + S} \<inter> lreg = {}"
    and "isWriteable (get_header (lmem w) h)" and "\<not> isEndSegment (get_header (lmem w) h)"
    and "8 \<le> e" and "bh_entrySegments hdl = [\<lparr>seg_offset = e, seg_size = S\<rparr>]" and "Suc iter < 2 ^ 31"
  shows "\<exists>s' w' count b im. latency_thread_run V cfg pad S iter sig s w = Inr (s', w') \<and>
    (case getIteratorLat hdl rb (rmem w') of (b0, im0) \<Rightarrow> count_messages S b0 im0) = Inr (count, b, im) \<and> sint count = int (Suc iter)"
proof -
  note R = assms(1) and L = ring_stream.axioms(1) [OF assms(1)]
  let ?w = "fill_scratch pad S w" and ?msgs = "replicate (Suc iter) (pad, S, sig)"
  let ?xs = "map (\<lambda>(d, n, sig). mem_read (lmem ?w) d n) ?msgs"
  have st: "up ?w" "rmem ?w = rmem w" "busy ?w = busy w" "posted ?w = posted w" "\<not> pend ?w"
    using rc_fabric.store [OF ring_link.axioms(1) [OF L] assms(4,5)] assms(7) by (simp_all add: fill_scratch_def)
  have head: "get_header (lmem ?w) h = get_header (lmem w) h"
    using scratch_header [OF ring_link.hdr_mem [OF L] assms(12)] .
  have S: "0 < S" and e: "e < 2 ^ 64" using ring_link.S_pos [OF L] ring_link.ring_fits [OF L] by simp_all
  have idle: "posted ?w \<le> cl_countWR (la_client s)" "busy ?w \<subseteq> {ptr..<ptr + 0}" using st assms(6,7) by simp_all
  have msgs: "length ?msgs \<le> la_writeableFreeSegments s" "length ?msgs \<le> cnt" "?msgs \<noteq> []"
    "0 + sum_list (map (\<lambda>(d, n, sig). n + 24) ?msgs) + 24 \<le> cap"
    "\<forall>(d, n, sig) \<in> set ?msgs. n \<le> S \<and> {d..<d + n} \<inter> lreg = {}"
    using assms(8,10,11,12) by (simp_all add: sum_list_replicate)
  have open_hdr: "isWriteable (get_header (lmem ?w) h)" "\<not> isEndSegment (get_header (lmem ?w) h)"
    using assms(13,14) head by simp_all
  from lat_written_closed [OF R assms(2,3) st(1,5) idle msgs(1) assms(9) msgs(2,4,5) open_hdr msgs(3) HOL.refl]
  obtain s1 w1 s2 w2 where 1: "la_appends V cfg ?msgs s ?w = Inr (True, s1, w1)" "la_close V cfg s1 w1 = Inr (True, s2, w2)"
    "lat_closed rb e cnt S (butlast ?xs) (last ?xs) (rmem w2)"
    by blast
  have "iter < 2 ^ 64" "Suc iter < 2 ^ 64" using assms(8,9) by linarith+
  then have thread: "latency_thread_run V cfg pad S iter sig s w = Inr (s2, w2)" using latency_loop [OF 1(1,2)] by blast
  obtain b0 im0 where it: "getIteratorLat hdl rb (rmem w2) = (b0, im0)" by force
  from take_closed [OF 1(3) it assms(16) _ assms(15) e]
  obtain rest b im b' where t: "take_messages (Suc (length (butlast ?xs))) b0 im0 = Inr (butlast ?xs @ [last ?xs @ rest], b, im)"
    "length (last ?xs @ rest) = S" "wait_for_next b im = Inr (None, b', im)"
    by auto
  have "butlast ?xs = replicate iter (mem_read (lmem ?w) pad S)" by (simp add: map_replicate butlast_snoc replicate_append_same [symmetric])
  then have sum: "sum_list (map (\<lambda>x. length x div S) (butlast ?xs @ [last ?xs @ rest])) = Suc iter"
    using t(2) S by (simp add: sum_list_replicate)
  obtain b3 im3 where "count_messages S b0 im0 = Inr (word_of_nat (Suc iter), b3, im3)"
    using count_taken [OF t(1,3) S] unfolding sum by blast
  moreover have "sint (word_of_nat (Suc iter) :: 32 word) = int (Suc iter)" using assms(17)
    by (simp del: of_nat_Suc add: signed_of_nat signed_take_bit_int_eq_self)
  ultimately show ?thesis using it thread by auto
qed

theorem latency_benchmark_run_witness:
  "\<exists>s' w' count b im. latency_thread_run fab_verbs fab_config 0 16 2 False (fab_latency 0) fab_world = Inr (s', w') \<and>
    (case getIteratorLat (la_handle (fab_latency 0)) 65536 (fab_rmem w') of (b0, im0) \<Rightarrow> count_messages 16 b0 im0) = Inr (count, b, im) \<and>
    sint count = 3"
proof -
  have "\<exists>s' w' count b im. latency_thread_run fab_verbs fab_config 0 16 2 False (fab_latency 0) fab_world = Inr (s', w') \<and>
    (case getIteratorLat (la_handle (fab_latency 0)) 65536 (fab_rmem w') of (b0, im0) \<Rightarrow> count_messages 16 b0 im0) =
      Inr (count, b, im) \<and> sint count = int (Suc 2)"
    by (rule latency_benchmark_run [OF fab_lat.ring_stream_axioms])
      (use fab_world_start fab_latency_start in \<open>auto simp: fab_lreg_def fab_latency_free fab_latency_def newBufferHandle_def\<close>)
  then show ?thesis by simp
qed

end
