(* ===== verification/Bench_Session.thy ===== *)
theory Bench_Session
  imports Lat_Close
begin

text \<open>
  \<open>runServer\<close> and \<open>runClient\<close> of the two benchmarks, with the threads' part in theories \<open>Benchmarks\<close> and \<open>Lat_Close\<close>,
  and their destructor.
\<close>

section \<open>Servers\<close>

text \<open>What \<open>startServer\<close> of the two servers returned; an exception \<open>invalid_argument\<close> is its text.\<close>

definition bench_servers :: "string \<Rightarrow> bool \<Rightarrow> bool \<Rightarrow> string + unit" where
  "bench_servers name node_started registry_started =
     (if \<not> node_started then Inl (name @ '' could not start NodeServer!'')
      else if \<not> registry_started then Inl (name @ '' could not start RegistryServer!'')
      else Inr ())"

text \<open>\<open>running i\<close> is what \<open>isRunning\<close> of the node says when it is asked for the \<open>i\<close>-th time; the result is how often it said yes.\<close>

definition append_runServer :: "bool \<Rightarrow> bool \<Rightarrow> (nat \<Rightarrow> bool) \<Rightarrow> (string + nat) result" where
  "append_runServer node_started registry_started running =
     (case bench_servers ''DPIAppendBenchmark'' node_started registry_started of
        Inl e \<Rightarrow> Inr (Inl e)
      | Inr _ \<Rightarrow> bindR (loopR running (\<lambda>i. Inr (Suc i)) 0) (\<lambda>i. Inr (Inr i)))"

text \<open>The latency benchmark's server asks the registry until the buffer is there, and once more.\<close>

definition wait_registered ::
  "('d, 'n) net_scheme \<Rightarrow> string \<Rightarrow> proto_client \<Rightarrow> 'd world \<Rightarrow> (proto_client \<times> 'd world) result" where
  "wait_registered N name rcl w =
     bindR (loopR (\<lambda>(h, rcl, w). h = None) (\<lambda>(_, rcl, w). client_retrieveBuffer N name rcl w) (None, rcl, w))
       (\<lambda>(_, rcl, w). Inr (rcl, w))"

text \<open>
  The iterator and the barrier over the node's memory \<open>m\<close>; between \<open>create\<close> and \<open>release\<close> the server waits for a key, and
  \<open>meanwhile\<close> is what the others do to the memory until then. The number counted is the result.
\<close>

definition latency_consume :: "BufferHandle \<Rightarrow> nat \<Rightarrow> nat \<Rightarrow> (mem \<Rightarrow> mem) \<Rightarrow> mem \<Rightarrow> (32 word \<times> mem) result" where
  "latency_consume hdl sz rdmaBuffer meanwhile m =
     (let (b, im) = getIteratorLat hdl rdmaBuffer m;
          (bar, bim) = newBarrier rdmaBuffer (bh_entrySegments hdl) ''buffer_benchmark'' m in
      bindR (barrier_create bar bim) (\<lambda>(_, bar, bim).
      let bim = bim\<lparr>im_mem := meanwhile (im_mem bim)\<rparr> in
      bindR (barrier_release bar bim) (\<lambda>(_, bar, bim).
      bindR (count_messages sz b (im\<lparr>im_mem := im_mem bim\<rparr>)) (\<lambda>(count, b, im). Inr (count, im_mem im)))))"

definition latency_runServer ::
  "('d, 'n) net_scheme \<Rightarrow> dpi_config \<Rightarrow> bool \<Rightarrow> bool \<Rightarrow> nat \<Rightarrow> nat \<Rightarrow> (mem \<Rightarrow> mem) \<Rightarrow> mem \<Rightarrow> 'd world \<Rightarrow> (string + 32 word \<times> mem) result" where
  "latency_runServer N cfg node_started registry_started sz rdmaBuffer meanwhile m w =
     (case bench_servers ''DPILatencyBenchmark'' node_started registry_started of
        Inl e \<Rightarrow> Inr (Inl e)
      | Inr _ \<Rightarrow>
        bindR (newRegistryClient N cfg w) (\<lambda>(rcl, w).
        bindR (wait_registered N ''buffer_benchmark'' rcl w) (\<lambda>(rcl, w).
        bindR (client_retrieveBuffer N ''buffer_benchmark'' rcl w) (\<lambda>(hdl, rcl, w).
        case hdl of None \<Rightarrow> Inl NullDeref
        | Some hdl \<Rightarrow> bindR (latency_consume hdl sz rdmaBuffer meanwhile m) (\<lambda>r. Inr (Inr r))))))"

section \<open>Clients\<close>

text \<open>Threads \<open>i, ..., n\<close> are constructed and started one after the other; what the constructors throw ends the program.\<close>

function start_threads :: "(nat \<Rightarrow> 'd world \<Rightarrow> ('t \<times> 'd world) result) \<Rightarrow> nat \<Rightarrow> nat \<Rightarrow> 'd world \<Rightarrow> ('t list \<times> 'd world) result" where
  "start_threads mk i n w =
     (if i \<le> n then bindR (mk i w) (\<lambda>(t, w). bindR (start_threads mk (Suc i) n w) (\<lambda>(ts, w). Inr (t # ts, w)))
      else Inr ([], w))"
  by pat_completeness auto
termination by (relation "measure (\<lambda>(mk, i, n, w). Suc n - i)") auto

declare start_threads.simps [simp del]

definition append_clients where
  "append_clients N cfg res0 no_client numThreads w =
     start_threads (\<lambda>i. newAppendThread N cfg res0 no_client i numThreads) 1 numThreads w"

definition latency_clients where
  "latency_clients N cfg res0 no_client sz numThreads w =
     start_threads (\<lambda>i. newLatencyThread N cfg res0 no_client i sz numThreads) 1 numThreads w"

section \<open>The destructor\<close>

text \<open>The objects a benchmark holds: its threads, and whether there are servers. What is done to them is listed in order.\<close>

datatype bench_end = DeleteThread nat | StopNode | DeleteNode | StopRegistry | DeleteRegistry

record bench_objects =
  bo_threads :: nat
  bo_nodeServer :: bool
  bo_regServer :: bool

definition bench_destroy :: "bool \<Rightarrow> bench_objects \<Rightarrow> bench_end list \<times> bench_objects" where
  "bench_destroy client b =
     (if client then (map DeleteThread [0..<bo_threads b], b\<lparr>bo_threads := 0\<rparr>)
      else ((if bo_nodeServer b then [StopNode, DeleteNode] else []) @ (if bo_regServer b then [StopRegistry, DeleteRegistry] else []),
            b\<lparr>bo_nodeServer := False, bo_regServer := False\<rparr>))"

section \<open>Lemmas\<close>

text \<open>Destroying twice does nothing more.\<close>

lemma bench_destroy_twice: "bench_destroy client b = (xs, b') \<Longrightarrow> fst (bench_destroy client b') = []"
  by (cases client) (auto simp: bench_destroy_def)

lemma start_threads_count:
  "start_threads mk i n w = Inr (ts, w') \<Longrightarrow> length ts = Suc n - i"
proof (induction mk i n w arbitrary: ts w' rule: start_threads.induct)
  case (1 mk i n w)
  show ?case
  proof (cases "i \<le> n")
    case True
    with 1(2) obtain t w1 us where "mk i w = Inr (t, w1)" "start_threads mk (Suc i) n w1 = Inr (us, w')" "ts = t # us"
      by (subst (asm) start_threads.simps) (auto simp: bindR_eq_Inr)
    then show ?thesis using 1(1) [OF True] True by (auto simp: Suc_diff_le)
  next
    case False
    then show ?thesis using 1(2) by (subst (asm) start_threads.simps) simp
  qed
qed

text \<open>The append benchmark's server returns when the node has stopped, and only then.\<close>

lemma poll_loop:
  assumes "\<not> running n" "\<forall>i < n. running i"
  shows "k + d = n \<Longrightarrow> loopR running (\<lambda>i. Inr (Suc i)) k = Inr n"
proof (induction d arbitrary: k)
  case 0
  then have "k = n" by simp
  then show ?case using assms(1) by (subst loopR_unfold) simp
next
  case (Suc d)
  then have "loopR running (\<lambda>i. Inr (Suc i)) (Suc k) = Inr n" by simp
  moreover have "running k" using Suc.prems assms(2) by simp
  ultimately show ?case by (subst loopR_unfold) simp
qed

lemma append_server_returns:
  assumes "\<not> running n"
  shows "append_runServer True True running = Inr (Inr (LEAST i. \<not> running i))"
proof -
  have stop: "\<not> running (LEAST i. \<not> running i)" using assms by (rule LeastI)
  have before: "\<forall>i < (LEAST i. \<not> running i). running i" using not_less_Least by blast
  have "loopR running (\<lambda>i. Inr (Suc i)) 0 = Inr (LEAST i. \<not> running i)" by (rule poll_loop [OF stop before add_0])
  then show ?thesis by (simp add: append_runServer_def bench_servers_def)
qed

text \<open>What the latency benchmark's server counts is what is in the memory when the key is pressed.\<close>

lemma wait_registered_found:
  assumes "client_retrieveBuffer N name rcl w = Inr (Some hdl, rcl', w')"
  shows "wait_registered N name rcl w = Inr (rcl', w')"
  by (simp add: wait_registered_def loopR_unfold assms)

lemma latency_consume_counts:
  assumes "bh_entrySegments hdl \<noteq> []"
    and "(case getIteratorLat hdl rdmaBuffer (meanwhile m) of (b0, im0) \<Rightarrow> count_messages sz b0 im0) = Inr (n, b, im)"
  shows "latency_consume hdl sz rdmaBuffer meanwhile m = Inr (n, im_mem im)"
proof -
  obtain b0 im0 where it: "getIteratorLat hdl rdmaBuffer m = (b0, im0)" by force
  obtain bar bim where bar: "newBarrier rdmaBuffer (bh_entrySegments hdl) ''buffer_benchmark'' m = (bar, bim)" by force
  let ?im = "\<lparr>im_mem = m, im_heap = []\<rparr>"
  note mem = new_helpers_memory [of rdmaBuffer "bh_entrySegments hdl" "meanwhile m" ?im]
  have bim: "im_mem bim = m"
    using bar mem by (auto simp: newBarrier_def newBufferIterator_def split: prod.splits)
  note still = barrier_has_no_effect [OF bar assms(1)]
  have "getIteratorLat hdl rdmaBuffer (meanwhile m) = (b0, im0\<lparr>im_mem := meanwhile m\<rparr>)"
    using it mem by (auto simp: getIteratorLat_def newBufferIterator_def split: prod.splits)
  then show ?thesis
    using assms(2) still by (simp add: latency_consume_def it bar bim)
qed

end
