(* ===== verification/Many_Rings.thy ===== *)
theory Many_Rings
  imports Stream_Reader
begin

text \<open>
  \<open>BufferIterator\<close> on a buffer with several appenders: it goes round the rings, hands out one segment of each ring in turn,
  passes over rings that are finished and takes them off its list.
\<close>

section \<open>Interleavings\<close>

text \<open>\<open>zs\<close> consists of the elements of the lists \<open>xss\<close>, those of each list in their order.\<close>

inductive interleaved :: "'a list list \<Rightarrow> 'a list \<Rightarrow> bool" where
  none_left: "\<forall>xs \<in> set xss. xs = [] \<Longrightarrow> interleaved xss []"
| one_more: "interleaved (xss @ xs # yss) zs \<Longrightarrow> interleaved (xss @ (x # xs) # yss) (x # zs)"

lemma interleaved_length: "interleaved xss zs \<Longrightarrow> length zs = sum_list (map length xss)"
  by (induction rule: interleaved.induct) (simp_all add: sum_list_eq_0_iff)

lemma interleaved_single: "interleaved [xs] xs"
proof (induction xs)
  case (Cons x xs)
  from interleaved.one_more [of "[]" xs "[]" xs x] Cons show ?case by simp
qed (simp add: interleaved.none_left)

lemma interleaved_one: "interleaved [xs] zs \<Longrightarrow> zs = xs"
proof (induction "[xs]" zs arbitrary: xs rule: interleaved.induct)
  case (one_more xss ys yss zs x)
  then show ?case by (auto simp: append_eq_Cons_conv)
qed simp

section \<open>Several rings in memory\<close>

definition apart :: "nat \<Rightarrow> nat \<Rightarrow> nat \<Rightarrow> nat \<Rightarrow> bool" where
  "apart S cnt e e' \<longleftrightarrow> e + cnt * (S + 24) \<le> e' \<or> e' + cnt * (S + 24) \<le> e"

lemma seg_inside: "i < cnt \<Longrightarrow> e \<le> seg_at e (S + 24) i \<and> seg_at e (S + 24) i + (S + 24) \<le> e + cnt * (S + 24)"
  using mult_le_mono1 [of "Suc i" cnt "S + 24"] by (simp add: seg_at_def)

lemma put_header_apart:
  assumes "apart S cnt e e'" "a < cnt" "i < cnt"
  shows "get_header (put_header m (rb + seg_at e (S + 24) a) h) (rb + seg_at e' (S + 24) i) = get_header m (rb + seg_at e' (S + 24) i)"
    and "n \<le> S \<Longrightarrow> payload (put_header m (rb + seg_at e (S + 24) a) h) rb e' S i n = payload m rb e' S i n"
proof -
  have *: "seg_at e (S + 24) a + (S + 24) \<le> seg_at e' (S + 24) i \<or> seg_at e' (S + 24) i + (S + 24) \<le> seg_at e (S + 24) a"
    using assms seg_inside [OF assms(2), of e S] seg_inside [OF assms(3), of e' S] unfolding apart_def by linarith
  then show "get_header (put_header m (rb + seg_at e (S + 24) a) h) (rb + seg_at e' (S + 24) i) = get_header m (rb + seg_at e' (S + 24) i)"
    by (intro get_header_put_disjoint) linarith
  show "payload (put_header m (rb + seg_at e (S + 24) a) h) rb e' S i n = payload m rb e' S i n" if "n \<le> S"
    unfolding payload_def put_header_def using * that by (intro mem_read_write_disjoint) (simp, linarith)
qed

text \<open>
  One ring when \<open>j\<close> of its segments have been handed out, as \<open>unread\<close>, but of this ring only, and where its helper stands.
\<close>

definition unread_ring :: "mem \<Rightarrow> nat \<Rightarrow> nat \<Rightarrow> nat \<Rightarrow> nat \<Rightarrow> nat \<Rightarrow> mem \<Rightarrow> bool" where
  "unread_ring m rb e S k j m' \<longleftrightarrow>
     (\<forall>i \<le> k. get_header m' (rb + seg_at e (S + 24) i) =
        (if Suc i < j then released (get_header m (rb + seg_at e (S + 24) i)) else get_header m (rb + seg_at e (S + 24) i)) \<and>
        (\<forall>n \<le> S. payload m' rb e S i n = payload m rb e S i n))"

definition helper_at :: "nat \<Rightarrow> nat \<Rightarrow> nat \<Rightarrow> nat \<Rightarrow> nat \<Rightarrow> iter_mem \<Rightarrow> IterHelper \<Rightarrow> bool" where
  "helper_at rb e S cnt j im ih \<longleftrightarrow> si_rdmaBuffer (ih_iter ih) = rb \<and>
     si_header (ih_iter ih) = InBuffer (rb + seg_at e (S + 24) (j mod cnt)) \<and>
     (if j = 0 then \<exists>i < length (im_heap im). si_header (ih_prev ih) = OnHeap i \<and> \<not> isEndSegment (im_heap im ! i)
      else si_header (ih_prev ih) = InBuffer (rb + seg_at e (S + 24) (j - 1)))"

definition give_back :: "nat \<Rightarrow> nat \<Rightarrow> nat \<Rightarrow> nat \<Rightarrow> mem \<Rightarrow> mem" where
  "give_back rb e S j m = (if j = 0 then m
     else put_header m (rb + seg_at e (S + 24) (j - 1)) (released (get_header m (rb + seg_at e (S + 24) (j - 1)))))"

lemma unread_give_back:
  assumes "unread_ring m rb e S k j m'" "j \<le> k"
  shows "unread_ring m rb e S k (Suc j) (give_back rb e S j m')"
  unfolding unread_ring_def
proof (intro allI impI conjI)
  fix i assume i: "i \<le> k"
  show "get_header (give_back rb e S j m') (rb + seg_at e (S + 24) i) =
      (if Suc i < Suc j then released (get_header m (rb + seg_at e (S + 24) i)) else get_header m (rb + seg_at e (S + 24) i))"
  proof (cases "Suc i = j")
    case True
    then have "i = j - 1" "j \<noteq> 0" by simp_all
    then show ?thesis using assms(1) i by (simp add: give_back_def unread_ring_def)
  next
    case False
    then have "j = 0 \<or> i \<noteq> j - 1" by auto
    then show ?thesis
      using assms(1) i False header_put_other [of i "j - 1"] by (auto simp: give_back_def unread_ring_def)
  qed
  fix n assume "n \<le> S"
  then show "payload (give_back rb e S j m') rb e S i n = payload m rb e S i n"
    using assms(1) i by (simp add: give_back_def unread_ring_def payload_put)
qed

lemma unread_give_back_apart:
  assumes "unread_ring m rb e' S k' j' m'" "apart S cnt e e'" "j \<le> cnt" "k' < cnt"
  shows "unread_ring m rb e' S k' j' (give_back rb e S j m')"
proof (cases "j = 0")
  case False
  then have j: "j - 1 < cnt" using assms(3) by simp
  show ?thesis
    using assms(1,4) False put_header_apart [OF assms(2) j] unfolding unread_ring_def give_back_def by auto
qed (use assms(1) in \<open>simp add: give_back_def\<close>)

text \<open>
  The rings \<open>rs\<close>, each with its offset, the number of its last segment and the bytes in that one; \<open>prog\<close> counts the
  segments handed out so far by the ring's offset, and \<open>live\<close> are the rings still on the iterator's list.
\<close>

type_synonym ring_end = "nat \<times> nat \<times> nat"

definition rings_closed :: "mem \<Rightarrow> nat \<Rightarrow> nat \<Rightarrow> nat \<Rightarrow> ring_end list \<Rightarrow> bool" where
  "rings_closed m rb S cnt rs \<longleftrightarrow> distinct rs \<and>
     (\<forall>(e, k, u) \<in> set rs. \<exists>D. ring_closed m rb e cnt S k u D) \<and>
     (\<forall>x \<in> set rs. \<forall>y \<in> set rs. x \<noteq> y \<longrightarrow> apart S cnt (fst x) (fst y))"

definition many_at ::
  "mem \<Rightarrow> nat \<Rightarrow> nat \<Rightarrow> nat \<Rightarrow> ring_end list \<Rightarrow> ring_end list \<Rightarrow> (nat \<Rightarrow> nat) \<Rightarrow> BufferIterator \<Rightarrow> iter_mem \<Rightarrow> bool" where
  "many_at m rb S cnt rs live prog b im \<longleftrightarrow> \<not> bi_lat b \<and> bi_pointer b \<le> length live \<and> distinct live \<and> set live \<subseteq> set rs \<and>
     (\<forall>(e, k, u) \<in> set rs. prog e \<le> Suc k \<and> unread_ring m rb e S k (prog e) (im_mem im)) \<and>
     (\<forall>(e, k, u) \<in> set rs - set live. prog e = Suc k) \<and>
     length (bi_iters b) = length live \<and>
     (\<forall>i < length live. case live ! i of (e, k, u) \<Rightarrow> helper_at rb e S cnt (prog e) im (bi_iters b ! i))"

text \<open>What is still to come from a ring.\<close>

definition parts_from :: "mem \<Rightarrow> nat \<Rightarrow> nat \<Rightarrow> (nat \<Rightarrow> nat) \<Rightarrow> ring_end \<Rightarrow> byte list list" where
  "parts_from m rb S prog = (\<lambda>(e, k, u). map (\<lambda>i. payload m rb e S i (if i = k then u else S)) [prog e..<Suc k])"

section \<open>One round\<close>

lemma rings_offsets:
  assumes "rings_closed m rb S cnt rs" "(e, k, u) \<in> set rs" "(e, k', u') \<in> set rs"
  shows "k' = k \<and> u' = u"
proof (rule ccontr)
  assume "\<not> (k' = k \<and> u' = u)"
  then have "apart S cnt e e" using assms unfolding rings_closed_def by fastforce
  moreover have "0 < cnt" using assms(1,2) by (auto simp: rings_closed_def ring_closed_def ring_data_def)
  ultimately show False by (simp add: apart_def)
qed


lemma rings_ring:
  assumes "rings_closed m rb S cnt rs" "(e, k, u) \<in> set rs"
  shows "k < cnt" "u \<le> S" "last_header u (get_header m (rb + seg_at e (S + 24) k))"
    and "i < k \<Longrightarrow> full_header S (get_header m (rb + seg_at e (S + 24) i))"
    and "i < cnt \<Longrightarrow> nextSegmentOffset (get_header m (rb + seg_at e (S + 24) i)) = seg_at e (S + 24) (Suc i mod cnt)"
  using assms by (auto simp: rings_closed_def ring_closed_def ring_data_def ring_linked_def)

lemma rings_apart:
  assumes "rings_closed m rb S cnt rs" "(e, k, u) \<in> set rs" "(e', k', u') \<in> set rs" "e' \<noteq> e"
  shows "apart S cnt e e'"
  using assms unfolding rings_closed_def by fastforce

lemma unread_last:
  "unread_ring m rb e S k j m' \<Longrightarrow> i \<le> k \<Longrightarrow> j \<le> Suc i \<Longrightarrow>
     get_header m' (rb + seg_at e (S + 24) i) = get_header m (rb + seg_at e (S + 24) i)"
  by (simp add: unread_ring_def)

text \<open>The previous segment of a ring is an end segment exactly when all its segments have been handed out.\<close>

lemma prev_is_end:
  assumes "rings_closed m rb S cnt rs" "(e, k, u) \<in> set rs" "unread_ring m rb e S k j (im_mem im)" "j \<le> Suc k"
    and "helper_at rb e S cnt j im ih"
  shows "isEndSegment (deref (si_header (ih_prev ih)) im) \<longleftrightarrow> j = Suc k"
proof (cases "j = 0")
  case True
  then show ?thesis using assms(5) by (auto simp: helper_at_def deref_def)
next
  case False
  then have *: "si_header (ih_prev ih) = InBuffer (rb + seg_at e (S + 24) (j - 1))" "j - 1 \<le> k"
    using assms(4,5) by (auto simp: helper_at_def)
  have "isEndSegment (get_header m (rb + seg_at e (S + 24) (j - 1))) \<longleftrightarrow> j - 1 = k"
    using rings_ring(3,4) [OF assms(1,2)] *(2) by (cases "j - 1 = k") (auto simp: last_header_def full_header_def)
  then show ?thesis using * False unread_last [OF assms(3) *(2)] by (auto simp: deref_def)
qed

lemma cur_consumable:
  assumes "rings_closed m rb S cnt rs" "(e, k, u) \<in> set rs" "unread_ring m rb e S k j (im_mem im)" "j \<le> k"
    and "helper_at rb e S cnt j im ih"
  shows "si_header (ih_iter ih) = InBuffer (rb + seg_at e (S + 24) j)"
    and "get_header (im_mem im) (rb + seg_at e (S + 24) j) = get_header m (rb + seg_at e (S + 24) j)"
    and "isConsumable (get_header m (rb + seg_at e (S + 24) j))"
    and "counter (get_header m (rb + seg_at e (S + 24) j)) = (if j = k then u else S)"
proof -
  have "j < cnt" using assms(4) rings_ring(1) [OF assms(1,2)] by simp
  then show "si_header (ih_iter ih) = InBuffer (rb + seg_at e (S + 24) j)" using assms(5) by (simp add: helper_at_def)
  show "get_header (im_mem im) (rb + seg_at e (S + 24) j) = get_header m (rb + seg_at e (S + 24) j)"
    using unread_last [OF assms(3,4)] by simp
  have "full_header S (get_header m (rb + seg_at e (S + 24) j))" if "j \<noteq> k"
    using rings_ring(4) [OF assms(1,2)] that assms(4) by simp
  then show "isConsumable (get_header m (rb + seg_at e (S + 24) j))"
    "counter (get_header m (rb + seg_at e (S + 24) j)) = (if j = k then u else S)"
    using rings_ring(3) [OF assms(1,2)] by (cases "j = k"; simp add: full_header_def last_header_def)+
qed

lemma many_at_ring:
  assumes "many_at m rb S cnt rs live prog b im" "i < length live" "live ! i = (e, k, u)"
  shows "(e, k, u) \<in> set rs" "prog e \<le> Suc k" "unread_ring m rb e S k (prog e) (im_mem im)"
    and "helper_at rb e S cnt (prog e) im (bi_iters b ! i)" "i < length (bi_iters b)" "\<not> bi_lat b"
proof -
  have "(e, k, u) \<in> set live" using assms(2,3) by (metis nth_mem)
  then show "(e, k, u) \<in> set rs" using assms(1) by (auto simp: many_at_def)
  then show "prog e \<le> Suc k" "unread_ring m rb e S k (prog e) (im_mem im)" using assms(1) by (auto simp: many_at_def)
  show "helper_at rb e S cnt (prog e) im (bi_iters b ! i)" "i < length (bi_iters b)" "\<not> bi_lat b"
    using assms by (auto simp: many_at_def)
qed

lemma many_at_helper:
  "many_at m rb S cnt rs live prog b im \<Longrightarrow> i < length live \<Longrightarrow>
     case live ! i of (e, k, u) \<Rightarrow> helper_at rb e S cnt (prog e) im (bi_iters b ! i)"
  by (simp add: many_at_def)

lemma many_at_gone:
  assumes "many_at m rb S cnt rs live prog b im" "(e, k, u) \<in> set rs - set live"
  shows "prog e = Suc k"
proof -
  have "\<forall>x \<in> set rs - set live. case x of (e, k, u) \<Rightarrow> prog e = Suc k" using assms(1) by (simp add: many_at_def)
  from bspec [OF this assms(2)] show ?thesis by simp
qed

lemma many_at_pointer: "many_at m rb S cnt rs live prog b im \<Longrightarrow> i \<le> length live \<Longrightarrow> many_at m rb S cnt rs live prog (b\<lparr>bi_pointer := i\<rparr>) im"
  by (simp add: many_at_def)

text \<open>A finished ring leaves the list.\<close>

lemma many_at_remove:
  assumes "many_at m rb S cnt rs live prog b im" "i < length live" "live ! i = (e, k, u)" "prog e = Suc k"
  shows "many_at m rb S cnt rs (take i live @ drop (Suc i) live) prog
    (b\<lparr>bi_pointer := i, bi_iters := take i (bi_iters b) @ drop (Suc i) (bi_iters b)\<rparr>) im"
proof -
  let ?live = "take i live @ drop (Suc i) live"
  have len: "length (bi_iters b) = length live" using assms(1) by (simp add: many_at_def)
  have split: "live = take i live @ (e, k, u) # drop (Suc i) live" using assms(2,3) by (metis id_take_nth_drop)
  have dist: "distinct (take i live @ (e, k, u) # drop (Suc i) live)"
    using assms(1) split by (simp add: many_at_def)
  have "set live = set (take i live @ (e, k, u) # drop (Suc i) live)" using split by simp
  then have sets: "set live = insert (e, k, u) (set ?live)" by simp
  have at: "?live ! j = live ! (if j < i then j else Suc j)"
    "(take i (bi_iters b) @ drop (Suc i) (bi_iters b)) ! j = bi_iters b ! (if j < i then j else Suc j)"
    if "j < length live - 1" for j
    using that assms(2) len by (auto simp: nth_append)
  have "case ?live ! j of (e, k, u) \<Rightarrow>
      helper_at rb e S cnt (prog e) im ((take i (bi_iters b) @ drop (Suc i) (bi_iters b)) ! j)" if "j < length live - 1" for j
  proof -
    have "(if j < i then j else Suc j) < length live" using that assms(2) by (auto split: if_splits)
    then show ?thesis unfolding at [OF that] by (rule many_at_helper [OF assms(1)])
  qed
  moreover have "\<forall>x \<in> set rs - set ?live. case x of (e, k, u) \<Rightarrow> prog e = Suc k"
  proof
    fix x assume x: "x \<in> set rs - set ?live"
    show "case x of (e, k, u) \<Rightarrow> prog e = Suc k"
    proof (cases "x = (e, k, u)")
      case False
      then have "x \<in> set rs - set live" using x sets by simp
      then show ?thesis using assms(1) unfolding many_at_def by blast
    qed (simp add: assms(4))
  qed
  moreover have "distinct ?live" "set ?live \<subseteq> set rs" "i \<le> length ?live" "length ?live = length live - 1"
    using assms(1,2) dist sets by (auto simp: many_at_def)
  moreover have "length (take i (bi_iters b) @ drop (Suc i) (bi_iters b)) = length ?live" using len by simp
  ultimately show ?thesis using assms(1,2) by (simp add: many_at_def del: set_append length_append)
qed

lemma many_step:
  assumes "many_at m rb S cnt rs live prog b im" "rings_closed m rb S cnt rs" "live \<noteq> []"
  shows "\<exists>i e k u. i < length live \<and> live ! i = (e, k, u) \<and>
    (prog e \<le> k \<and> has_next_step (b, im) = Inr (True, b\<lparr>bi_pointer := i\<rparr>, im) \<or>
     prog e = Suc k \<and> has_next_step (b, im) =
       Inr (False, b\<lparr>bi_pointer := i, bi_iters := take i (bi_iters b) @ drop (Suc i) (bi_iters b)\<rparr>, im))"
proof -
  have len: "length (bi_iters b) = length live" "bi_pointer b \<le> length live" using assms(1) by (simp_all add: many_at_def)
  define i where "i = (if bi_pointer b = length live then 0 else bi_pointer b)"
  have i: "i < length live" using assms(3) len(2) by (simp add: i_def)
  have wrap: "(if bi_pointer b = length (bi_iters b) then b\<lparr>bi_pointer := 0\<rparr> else b) = b\<lparr>bi_pointer := i\<rparr>"
    using len(1) by (simp add: i_def)
  obtain e k u where x: "live ! i = (e, k, u)" using prod_cases3 by blast
  note R = many_at_ring [OF assms(1) i x]
  let ?ih = "bi_iters b ! i"
  have fin: "isEndSegment (deref (si_header (ih_prev ?ih)) im) \<longleftrightarrow> prog e = Suc k"
    by (rule prev_is_end [OF assms(2) R(1,3,2,4)])
  have step: "has_next_step (b, im) =
    (if \<not> isEndSegment (deref (si_header (ih_prev ?ih)) im) then
       if \<not> isConsumable (deref (si_header (ih_iter ?ih)) im) then Inr (False, b\<lparr>bi_pointer := i + 1\<rparr>, im)
       else Inr (True, b\<lparr>bi_pointer := i\<rparr>, im)
     else bindR (mark_prev_segment (b\<lparr>bi_pointer := i\<rparr>) im) (\<lambda>im.
       Inr (False, b\<lparr>bi_pointer := i, bi_iters := take i (bi_iters b) @ drop (Suc i) (bi_iters b)\<rparr>, im)))"
    unfolding has_next_step_def prod.case wrap using R(5) by (simp add: Let_def)
  show ?thesis
  proof (cases "prog e = Suc k")
    case True
    have "mark_prev_segment (b\<lparr>bi_pointer := i\<rparr>) im = Inr im"
      using R(5,6) fin True by (simp add: mark_prev_segment_def Let_def)
    then show ?thesis using step fin True i x by auto
  next
    case False
    then have k: "prog e \<le> k" using R(2) by simp
    note C = cur_consumable [OF assms(2) R(1,3) k R(4)]
    have "isConsumable (deref (si_header (ih_iter ?ih)) im)" using C(1-3) by (simp add: deref_def)
    then show ?thesis using step fin False i x k by auto
  qed
qed

lemma many_has_next:
  assumes "many_at m rb S cnt rs live prog b im" "rings_closed m rb S cnt rs"
  shows "\<exists>found b' live'. has_next b im = Inr (found, b', im) \<and> many_at m rb S cnt rs live' prog b' im \<and>
    (if found then bi_pointer b' < length live' \<and> (case live' ! bi_pointer b' of (e, k, u) \<Rightarrow> prog e \<le> k) else live' = [])"
  using assms
proof (induction "length live" arbitrary: live b)
  case 0
  then have "bi_iters b = []" by (simp add: many_at_def)
  then have "has_next b im = Inr (False, b, im)" by (simp add: has_next_def loopR_unfold)
  then show ?case using 0 by (intro exI [of _ False] exI [of _ b] exI [of _ live]) simp
next
  case (Suc n)
  then have ne: "live \<noteq> []" "bi_iters b \<noteq> []" by (auto simp: many_at_def)
  obtain i e k u where i: "i < length live" "live ! i = (e, k, u)"
    and step: "prog e \<le> k \<and> has_next_step (b, im) = Inr (True, b\<lparr>bi_pointer := i\<rparr>, im) \<or>
     prog e = Suc k \<and> has_next_step (b, im) =
       Inr (False, b\<lparr>bi_pointer := i, bi_iters := take i (bi_iters b) @ drop (Suc i) (bi_iters b)\<rparr>, im)"
    using many_step [OF Suc.prems ne(1)] by blast
  show ?case
  proof (cases "prog e = Suc k")
    case True
    let ?b = "b\<lparr>bi_pointer := i, bi_iters := take i (bi_iters b) @ drop (Suc i) (bi_iters b)\<rparr>"
    let ?live = "take i live @ drop (Suc i) live"
    have "n = length ?live" using Suc.hyps(2) i(1) by simp
    from Suc.hyps(1) [OF this many_at_remove [OF Suc.prems(1) i True] Suc.prems(2)]
    obtain found b' live' where *: "has_next ?b im = Inr (found, b', im)" "many_at m rb S cnt rs live' prog b' im"
      "if found then bi_pointer b' < length live' \<and> (case live' ! bi_pointer b' of (e, k, u) \<Rightarrow> prog e \<le> k) else live' = []"
      by blast
    have "has_next_step (b, im) = Inr (False, ?b, im)" using step True by simp
    then have "has_next b im = has_next ?b im" unfolding has_next_def by (subst loopR_unfold) (simp add: ne(2))
    then show ?thesis using * by (intro exI [of _ found] exI [of _ b'] exI [of _ live']) simp
  next
    case False
    then have s: "has_next_step (b, im) = Inr (True, b\<lparr>bi_pointer := i\<rparr>, im)" "prog e \<le> k" using step by auto
    have "has_next b im = Inr (True, b\<lparr>bi_pointer := i\<rparr>, im)" using s(1) ne(2) by (simp add: has_next_def loopR_unfold)
    moreover have "many_at m rb S cnt rs live prog (b\<lparr>bi_pointer := i\<rparr>) im"
      using many_at_pointer [OF Suc.prems(1)] i(1) by simp
    ultimately show ?thesis using i s(2)
      by (intro exI [of _ True] exI [of _ "b\<lparr>bi_pointer := i\<rparr>"] exI [of _ live]) simp
  qed
qed

text \<open>One segment of the ring the iterator stands at is handed out, the one before it is given back.\<close>

lemma helper_at_heap:
  assumes "helper_at rb e S cnt j im ih"
    and "\<And>i. i < length (im_heap im) \<Longrightarrow> \<not> isEndSegment (im_heap im ! i) \<Longrightarrow>
      i < length (im_heap im') \<and> \<not> isEndSegment (im_heap im' ! i)"
  shows "helper_at rb e S cnt j im' ih"
  using assms unfolding helper_at_def by (auto split: if_splits)

lemma release_prev:
  assumes "helper_at rb e S cnt j im ih" "im' = assign (si_header (ih_prev ih)) (released (deref (si_header (ih_prev ih)) im)) im"
  shows "im_mem im' = give_back rb e S j (im_mem im)"
    and "i < length (im_heap im) \<Longrightarrow> \<not> isEndSegment (im_heap im ! i) \<Longrightarrow>
      i < length (im_heap im') \<and> \<not> isEndSegment (im_heap im' ! i)"
proof -
  show "im_mem im' = give_back rb e S j (im_mem im)"
    using assms by (auto simp: helper_at_def give_back_def assign_def deref_def split: if_splits)
  show "i < length (im_heap im') \<and> \<not> isEndSegment (im_heap im' ! i)"
    if "i < length (im_heap im)" "\<not> isEndSegment (im_heap im ! i)"
    using that assms(2)
    by (cases "si_header (ih_prev ih) = OnHeap i"; cases "si_header (ih_prev ih)") (auto simp: assign_def deref_def)
qed

lemma many_next:
  assumes "many_at m rb S cnt rs live prog b im" "rings_closed m rb S cnt rs" "bi_pointer b < length live"
    and "live ! bi_pointer b = (e, k, u)" "prog e \<le> k"
  shows "\<exists>b' im'. next_segment b im = Inr ((InBuffer (rb + seg_at e (S + 24) (prog e)), if prog e = k then u else S), b', im') \<and>
    many_at m rb S cnt rs live (prog(e := Suc (prog e))) b' im'"
proof -
  let ?p = "bi_pointer b"
  let ?ih = "bi_iters b ! ?p"
  let ?pv = "si_header (ih_prev ?ih)"
  let ?im = "assign ?pv (released (deref ?pv im)) im"
  let ?ih' = "?ih\<lparr>ih_prev := ih_iter ?ih, ih_iter := si_next (ih_iter ?ih) ?im\<rparr>"
  let ?prog = "prog(e := Suc (prog e))"
  let ?b = "b\<lparr>bi_iters := (bi_iters b)[?p := ?ih'], bi_pointer := ?p + 1\<rparr>"
  note R = many_at_ring [OF assms(1,3,4)]
  note C = cur_consumable [OF assms(2) R(1,3) assms(5) R(4)]
  note mem = release_prev(1) [OF R(4) HOL.refl] and heap = release_prev(2) [OF R(4) HOL.refl]
  have j: "prog e \<le> cnt" "prog e < cnt" using assms(5) rings_ring(1) [OF assms(2) R(1)] by auto
  have unread: "case x of (e', k', u') \<Rightarrow> ?prog e' \<le> Suc k' \<and> unread_ring m rb e' S k' (?prog e') (im_mem ?im)"
    if "x \<in> set rs" for x
  proof -
    obtain e' k' u' where x: "x = (e', k', u')" by (cases x)
    have old: "prog e' \<le> Suc k'" "unread_ring m rb e' S k' (prog e') (im_mem im)"
      using assms(1) that x by (auto simp: many_at_def)
    show ?thesis
    proof (cases "e' = e")
      case True
      then have "k' = k" using rings_offsets [OF assms(2) R(1)] that x by simp
      then show ?thesis using True x assms(5) unread_give_back [OF R(3) assms(5)] by (simp add: mem)
    next
      case False
      have "(e', k', u') \<in> set rs" using that x by simp
      then have "k' < cnt" "apart S cnt e e'"
        using rings_ring(1) [OF assms(2)] rings_apart [OF assms(2) R(1) _ False] by blast+
      then show ?thesis using False x old unread_give_back_apart [OF old(2) _ j(1)] by (simp add: mem)
    qed
  qed
  have cur: "get_header (im_mem ?im) (rb + seg_at e (S + 24) (prog e)) = get_header m (rb + seg_at e (S + 24) (prog e))"
    using unread [OF R(1)] assms(5) by (auto intro: unread_last)
  have helpers: "case live ! i of (e', k', u') \<Rightarrow> helper_at rb e' S cnt (?prog e') ?im (bi_iters ?b ! i)" if i: "i < length live" for i
  proof (cases "i = ?p")
    case True
    have "nextSegmentOffset (get_header m (rb + seg_at e (S + 24) (prog e))) = seg_at e (S + 24) (Suc (prog e) mod cnt)"
      using rings_ring(5) [OF assms(2) R(1) j(2)] .
    moreover have "si_rdmaBuffer (ih_iter ?ih) = rb" using R(4) by (simp add: helper_at_def)
    ultimately have "helper_at rb e S cnt (Suc (prog e)) ?im ?ih'"
      using C(1) cur by (simp add: helper_at_def si_next_def deref_def [of "InBuffer _"] Let_def)
    then show ?thesis using True assms(4) R(5) by simp
  next
    case False
    obtain e' k' u' where x: "live ! i = (e', k', u')" using prod_cases3 by blast
    have "live ! i \<noteq> live ! ?p" using assms(1,3) i False by (simp add: many_at_def nth_eq_iff_index_eq)
    then have "e' \<noteq> e" using rings_offsets [OF assms(2) R(1)] many_at_ring(1) [OF assms(1) i x] x assms(4) by auto
    then show ?thesis
      using helper_at_heap [OF many_at_ring(4) [OF assms(1) i x] heap] x False by simp
  qed
  have "\<not> isEndSegment (deref ?pv im)" using prev_is_end [OF assms(2) R(1,3,2,4)] assms(5) by simp
  then have run: "next_segment b im = Inr ((InBuffer (rb + seg_at e (S + 24) (prog e)), if prog e = k then u else S), ?b, ?im)"
    using R(5,6) C cur by (simp add: next_segment_def mark_prev_segment_def getRawData_def deref_def [of "InBuffer _"] Let_def)
  have "?prog e' = Suc k'" if "(e', k', u') \<in> set rs - set live" for e' k' u'
  proof -
    have "prog e' = Suc k'" by (rule many_at_gone [OF assms(1) that])
    moreover have "e' \<noteq> e"
    proof
      assume "e' = e"
      then have "(e', k', u') = (e, k, u)" using rings_offsets [OF assms(2) R(1)] that by auto
      then show False using that assms(3,4) by (metis DiffE nth_mem)
    qed
    ultimately show ?thesis by simp
  qed
  then have gone: "\<forall>x \<in> set rs - set live. case x of (e', k', u') \<Rightarrow> ?prog e' = Suc k'" by blast
  have "many_at m rb S cnt rs live ?prog ?b ?im"
    unfolding many_at_def
  proof (intro conjI)
    show "\<forall>i<length live. case live ! i of (e', k', u') \<Rightarrow> helper_at rb e' S cnt (?prog e') ?im (bi_iters ?b ! i)"
      using helpers by blast
    show "\<forall>(e', k', u')\<in>set rs. ?prog e' \<le> Suc k' \<and> unread_ring m rb e' S k' (?prog e') (im_mem ?im)"
      using unread by blast
    show "\<forall>(e', k', u')\<in>set rs - set live. ?prog e' = Suc k'" by (rule gone)
  qed (use assms(1,3) in \<open>auto simp: many_at_def\<close>)
  then show ?thesis using run by blast
qed

section \<open>Draining the buffer\<close>

definition to_come :: "(nat \<Rightarrow> nat) \<Rightarrow> ring_end list \<Rightarrow> nat" where
  "to_come prog rs = sum_list (map (\<lambda>(e, k, u). Suc k - prog e) rs)"

lemma parts_from_done: "prog e = Suc k \<Longrightarrow> parts_from m rb S prog (e, k, u) = []"
  by (simp add: parts_from_def)

lemma parts_from_other: "fst x \<noteq> e \<Longrightarrow> parts_from m rb S (prog(e := v)) x = parts_from m rb S prog x"
  by (cases x) (simp add: parts_from_def)

lemma parts_from_next:
  "prog e \<le> k \<Longrightarrow> parts_from m rb S prog (e, k, u) =
     payload m rb e S (prog e) (if prog e = k then u else S) # parts_from m rb S (prog(e := Suc (prog e))) (e, k, u)"
  by (simp add: parts_from_def upt_conv_Cons del: upt_Suc)

text \<open>The ring that moves on is the only one that changes.\<close>

lemma advance_one:
  assumes "rings_closed m rb S cnt rs" "(e, k, u) \<in> set rs" "prog e \<le> k"
  shows "to_come prog rs = Suc (to_come (prog(e := Suc (prog e))) rs)"
    and "interleaved (map (parts_from m rb S (prog(e := Suc (prog e)))) rs) zs \<Longrightarrow>
      interleaved (map (parts_from m rb S prog) rs) (payload m rb e S (prog e) (if prog e = k then u else S) # zs)"
proof -
  let ?prog = "prog(e := Suc (prog e))"
  obtain xs ys where rs: "rs = xs @ (e, k, u) # ys" using split_list [OF assms(2)] by blast
  have other: "fst x \<noteq> e" if "x \<in> set xs \<union> set ys" for x
  proof
    assume "fst x = e"
    then obtain k' u' where x: "x = (e, k', u')" by (cases x) auto
    have "x \<in> set rs" using that rs by auto
    then have "x = (e, k, u)" using rings_offsets [OF assms(1,2)] x by auto
    then show False using that rs assms(1) by (auto simp: rings_closed_def)
  qed
  have p: "map (parts_from m rb S ?prog) xs = map (parts_from m rb S prog) xs"
    "map (parts_from m rb S ?prog) ys = map (parts_from m rb S prog) ys"
    using other by (auto intro: parts_from_other)
  have n: "map (\<lambda>(e, k, u). Suc k - ?prog e) xs = map (\<lambda>(e, k, u). Suc k - prog e) xs"
    "map (\<lambda>(e, k, u). Suc k - ?prog e) ys = map (\<lambda>(e, k, u). Suc k - prog e) ys"
    using other by fastforce+
  show "to_come prog rs = Suc (to_come ?prog rs)" unfolding to_come_def rs map_append list.map n using assms(3) by simp
  show "interleaved (map (parts_from m rb S prog) rs) (payload m rb e S (prog e) (if prog e = k then u else S) # zs)"
    if "interleaved (map (parts_from m rb S ?prog) rs) zs"
    using that unfolding rs map_append list.map p parts_from_next [where prog = prog, OF assms(3)]
    by (rule interleaved.one_more)
qed

lemma many_wait:
  assumes "many_at m rb S cnt rs live prog b im" "rings_closed m rb S cnt rs"
  shows "(\<exists>b'. wait_for_next b im = Inr (None, b', im) \<and> bi_iters b' = [] \<and> (\<forall>(e, k, u) \<in> set rs. prog e = Suc k)) \<or>
    (\<exists>e k u b' im' live'. (e, k, u) \<in> set rs \<and> prog e \<le> k \<and>
      wait_for_next b im = Inr (Some (InBuffer (rb + seg_at e (S + 24) (prog e)), if prog e = k then u else S), b', im') \<and>
      many_at m rb S cnt rs live' (prog(e := Suc (prog e))) b' im')"
proof -
  obtain found b' live' where h: "has_next b im = Inr (found, b', im)" "many_at m rb S cnt rs live' prog b' im"
    "if found then bi_pointer b' < length live' \<and> (case live' ! bi_pointer b' of (e, k, u) \<Rightarrow> prog e \<le> k) else live' = []"
    using many_has_next [OF assms] by blast
  show ?thesis
  proof (cases found)
    case True
    obtain e k u where x: "live' ! bi_pointer b' = (e, k, u)" using prod_cases3 by blast
    have p: "bi_pointer b' < length live'" "prog e \<le> k" using h(3) True x by simp_all
    obtain b2 im2 where "next_segment b' im = Inr ((InBuffer (rb + seg_at e (S + 24) (prog e)), if prog e = k then u else S), b2, im2)"
      "many_at m rb S cnt rs live' (prog(e := Suc (prog e))) b2 im2"
      using many_next [OF h(2) assms(2) p(1) x p(2)] by blast
    moreover have "(e, k, u) \<in> set rs" by (rule many_at_ring(1) [OF h(2) p(1) x])
    ultimately show ?thesis using h(1) True p(2)
      by (intro disjI2 exI [of _ e] exI [of _ k] exI [of _ u] exI [of _ b2] exI [of _ im2] exI [of _ live'])
        (simp add: wait_for_next_def)
  next
    case False
    then have "live' = []" using h(3) by simp
    then have "bi_iters b' = []" "\<forall>(e, k, u) \<in> set rs. prog e = Suc k" using h(2) by (simp_all add: many_at_def)
    then show ?thesis using h(1) False by (intro disjI1 exI [of _ b']) (simp add: wait_for_next_def)
  qed
qed

lemma many_payload:
  assumes "many_at m rb S cnt rs live prog b im" "rings_closed m rb S cnt rs" "(e, k, u) \<in> set rs" "j \<le> k"
  shows "mem_read (im_mem im) (rb + seg_at e (S + 24) j + 24) (if j = k then u else S) =
    payload m rb e S j (if j = k then u else S)"
proof -
  have "unread_ring m rb e S k (prog e) (im_mem im)" using assms(1,3) by (auto simp: many_at_def)
  then show ?thesis
    using rings_ring(2) [OF assms(2,3)] assms(4) by (auto simp: unread_ring_def payload_def)
qed

lemma many_drain:
  assumes "many_at m rb S cnt rs live prog b im" "rings_closed m rb S cnt rs" "n = to_come prog rs"
  shows "\<exists>parts b' im'. drain (Suc n) b im = Inr (parts, b', im') \<and> bi_iters b' = [] \<and>
    interleaved (map (parts_from m rb S prog) rs) parts \<and>
    (\<forall>(e, k, u) \<in> set rs. unread_ring m rb e S k (Suc k) (im_mem im'))"
  using assms
proof (induction n arbitrary: live prog b im)
  case 0
  have done_all: "\<forall>(e, k, u) \<in> set rs. prog e = Suc k" if "\<forall>(e, k, u) \<in> set rs. Suc k \<le> prog e"
    using that 0(1) by (force simp: many_at_def)
  have "\<forall>(e, k, u) \<in> set rs. Suc k \<le> prog e" using 0(3) by (auto simp: to_come_def sum_list_eq_0_iff)
  then have fin: "\<forall>(e, k, u) \<in> set rs. prog e = Suc k" by (rule done_all)
  then obtain b' where "wait_for_next b im = Inr (None, b', im)" "bi_iters b' = []"
    using many_wait [OF 0(1,2)] by fastforce
  moreover have "interleaved (map (parts_from m rb S prog) rs) []"
    using fin parts_from_done by (intro interleaved.none_left) fastforce
  moreover have "\<forall>(e, k, u) \<in> set rs. unread_ring m rb e S k (Suc k) (im_mem im)"
    using 0(1) fin by (fastforce simp: many_at_def)
  ultimately show ?case by simp
next
  case (Suc n)
  have "\<not> (\<forall>(e, k, u) \<in> set rs. prog e = Suc k)"
  proof
    assume "\<forall>(e, k, u) \<in> set rs. prog e = Suc k"
    then have "to_come prog rs = 0" by (auto simp: to_come_def sum_list_eq_0_iff)
    then show False using Suc.prems(3) by simp
  qed
  then obtain e k u b1 im1 live1 where s: "(e, k, u) \<in> set rs" "prog e \<le> k"
    "wait_for_next b im = Inr (Some (InBuffer (rb + seg_at e (S + 24) (prog e)), if prog e = k then u else S), b1, im1)"
    "many_at m rb S cnt rs live1 (prog(e := Suc (prog e))) b1 im1"
    using many_wait [OF Suc.prems(1,2)] by blast
  note A = advance_one [where prog = prog, OF Suc.prems(2) s(1,2)]
  have "n = to_come (prog(e := Suc (prog e))) rs" using A(1) Suc.prems(3) by simp
  from Suc.IH [OF s(4) Suc.prems(2) this] obtain parts b' im' where d: "drain (Suc n) b1 im1 = Inr (parts, b', im')" "bi_iters b' = []"
    "interleaved (map (parts_from m rb S (prog(e := Suc (prog e)))) rs) parts"
    "\<forall>(e, k, u) \<in> set rs. unread_ring m rb e S k (Suc k) (im_mem im')"
    by blast
  have "drain (Suc (Suc n)) b im = Inr (payload m rb e S (prog e) (if prog e = k then u else S) # parts, b', im')"
    using s(3) d(1) many_payload [OF s(4) Suc.prems(2) s(1,2)] by (simp add: drain.simps(2) [of "Suc n"] del: drain.simps)
  then show ?case using d(2,4) A(2) [OF d(3)] by blast
qed

section \<open>The iterator of a buffer\<close>

lemma new_helpers_list:
  assumes "new_helpers rb segs im = (hs, im')"
  shows "length hs = length segs \<and> im_mem im' = im_mem im \<and> length (im_heap im) \<le> length (im_heap im') \<and>
    (\<forall>i < length (im_heap im). im_heap im' ! i = im_heap im ! i) \<and>
    (\<forall>i < length segs. ih_iter (hs ! i) = newSegmentIterator (seg_offset (segs ! i)) rb \<and>
      (\<exists>j < length (im_heap im'). si_header (ih_prev (hs ! i)) = OnHeap j \<and> \<not> isEndSegment (im_heap im' ! j)))"
  using assms
proof (induction segs arbitrary: im hs im')
  case (Cons seg segs)
  define im1 where "im1 = im\<lparr>im_heap := im_heap im @ [markEndSegment False (markEndSegment True header_init)]\<rparr>"
  obtain hs1 im2 where r: "new_helpers rb segs im1 = (hs1, im2)" by (cases "new_helpers rb segs im1")
  have hs: "im' = im2" "hs = \<lparr>ih_iter = newSegmentIterator (seg_offset seg) rb, ih_end = fst (getEndSegmentIterator im),
      ih_prev = fst (getEndSegmentIterator im), ih_counterOffset = sub64 (seg_offset seg) 8\<rparr> # hs1"
    using Cons.prems r by (auto simp: getEndSegmentIterator_def assign_def deref_def im1_def Let_def)
  have p: "si_header (fst (getEndSegmentIterator im)) = OnHeap (length (im_heap im))" by (simp add: getEndSegmentIterator_def)
  have len: "length (im_heap im1) = Suc (length (im_heap im))" "im_mem im1 = im_mem im"
    "\<And>i. i < length (im_heap im) \<Longrightarrow> im_heap im1 ! i = im_heap im ! i" "\<not> isEndSegment (im_heap im1 ! length (im_heap im))"
    by (simp_all add: im1_def nth_append)
  note IH = Cons.IH [OF r]
  have first: "im_heap im2 ! i = im_heap im1 ! i" if "i < length (im_heap im1)" for i using IH that by blast
  have l: "length (im_heap im1) \<le> length (im_heap im2)" using IH by blast
  have old: "im_heap im2 ! i = im_heap im ! i" if "i < length (im_heap im)" for i
    using first [of i] len(1,3) that by simp
  have new: "\<exists>j < length (im_heap im2). si_header (fst (getEndSegmentIterator im)) = OnHeap j \<and> \<not> isEndSegment (im_heap im2 ! j)"
    using p l len(1,4) first [of "length (im_heap im)"] by (intro exI [of _ "length (im_heap im)"]) simp
  have "ih_iter (hs ! i) = newSegmentIterator (seg_offset ((seg # segs) ! i)) rb \<and>
      (\<exists>j < length (im_heap im2). si_header (ih_prev (hs ! i)) = OnHeap j \<and> \<not> isEndSegment (im_heap im2 ! j))"
    if "i < length (seg # segs)" for i
  proof (cases i)
    case 0
    then show ?thesis using new by (simp add: hs)
  next
    case (Suc i')
    then have "i' < length segs" using that by simp
    then show ?thesis using IH Suc by (simp add: hs)
  qed
  then show ?case using IH l len(1,2) old by (simp add: hs)
qed simp

lemma many_start:
  assumes "rings_closed m rb S cnt rs" "map seg_offset (bh_entrySegments hdl) = map fst rs" "getIterator hdl rb m = (b, im)"
  shows "many_at m rb S cnt rs rs (\<lambda>_. 0) b im"
proof -
  let ?segs = "bh_entrySegments hdl"
  obtain hs im' where r: "new_helpers rb ?segs \<lparr>im_mem = m, im_heap = []\<rparr> = (hs, im')"
    by (cases "new_helpers rb ?segs \<lparr>im_mem = m, im_heap = []\<rparr>")
  have b: "im' = im" "\<not> bi_lat b" "bi_pointer b = 0" "bi_iters b = hs"
    using assms(3) r by (auto simp: getIterator_def newBufferIterator_def)
  note H = new_helpers_list [OF r]
  have len: "length hs = length rs" "length ?segs = length rs" using H assms(2) by (metis length_map)+
  have "case rs ! i of (e, k, u) \<Rightarrow> helper_at rb e S cnt 0 im (hs ! i)" if i: "i < length rs" for i
  proof -
    obtain e k u where x: "rs ! i = (e, k, u)" using prod_cases3 by blast
    have "seg_offset (?segs ! i) = e" using assms(2) i len(2) x by (metis fst_conv nth_map)
    moreover have "ih_iter (hs ! i) = newSegmentIterator (seg_offset (?segs ! i)) rb"
      "\<exists>j < length (im_heap im). si_header (ih_prev (hs ! i)) = OnHeap j \<and> \<not> isEndSegment (im_heap im ! j)"
      using H i len(2) b(1) by auto
    ultimately show ?thesis by (simp add: x helper_at_def newSegmentIterator_def seg_at_def)
  qed
  moreover have "unread_ring m rb e S k 0 (im_mem im)" for e k using H b(1) by (simp add: unread_ring_def)
  ultimately show ?thesis using assms(1) b len by (auto simp: many_at_def rings_closed_def)
qed

lemma whole_ring:
  assumes "ring_closed m rb e cnt S k u D"
  shows "concat (parts_from m rb S (\<lambda>_. 0) (e, k, u)) = D" "length (parts_from m rb S (\<lambda>_. 0) (e, k, u)) = Suc k"
proof -
  have full: "map (\<lambda>i. payload m rb e S i (if i = k then u else S)) [0..<k] = map (\<lambda>i. payload m rb e S i S) [0..<k]"
    by simp
  have "parts_from m rb S (\<lambda>_. 0) (e, k, u) = map (\<lambda>i. payload m rb e S i (if i = k then u else S)) [0..<k] @ [payload m rb e S k u]"
    by (simp add: parts_from_def)
  then show "concat (parts_from m rb S (\<lambda>_. 0) (e, k, u)) = D"
    using assms unfolding full by (simp add: ring_closed_def ring_data_def)
qed (simp add: parts_from_def)

section \<open>Property\<close>

text \<open>
  Claim C15. \<open>BufferIterator\<close> on a buffer with any number of appenders, whose rings are all closed and lie apart: calling
  \<open>wait_for_next\<close> until it reports the end takes one call per segment of all the rings and one more, never waits and
  leaves no ring on its list. The segments handed out are the segments of the rings, each ring's in the order
  they were written (whichever way the rings take turns), and those of a ring concatenate to its stream. Every
  segment but the last of its ring has been given back to its writer: writeable, not consumable, empty; the links are
  intact.
\<close>

theorem iterator_drains_rings:
  assumes "rings_closed m rb S cnt rs" and "map seg_offset (bh_entrySegments hdl) = map fst rs"
  shows "\<exists>parts b im. (case getIterator hdl rb m of (b0, im0) \<Rightarrow> drain (Suc (\<Sum>(e, k, u) \<leftarrow> rs. Suc k)) b0 im0) = Inr (parts, b, im) \<and>
    bi_iters b = [] \<and> interleaved (map (parts_from m rb S (\<lambda>_. 0)) rs) parts \<and>
    (\<forall>(e, k, u) \<in> set rs. ring_closed m rb e cnt S k u (concat (parts_from m rb S (\<lambda>_. 0) (e, k, u))) \<and>
       length (parts_from m rb S (\<lambda>_. 0) (e, k, u)) = Suc k \<and>
       (\<forall>i < k. fresh_header (get_header (im_mem im) (rb + seg_at e (S + 24) i))) \<and>
       (\<forall>i \<le> k. nextSegmentOffset (get_header (im_mem im) (rb + seg_at e (S + 24) i)) = seg_at e (S + 24) (Suc i mod cnt)))"
proof -
  obtain b0 im0 where it: "getIterator hdl rb m = (b0, im0)" by force
  have "(\<Sum>(e, k, u) \<leftarrow> rs. Suc k) = to_come (\<lambda>_. 0) rs" by (simp add: to_come_def)
  from many_drain [OF many_start [OF assms it] assms(1) this]
  obtain parts b im where d: "drain (Suc (\<Sum>(e, k, u) \<leftarrow> rs. Suc k)) b0 im0 = Inr (parts, b, im)" "bi_iters b = []"
    "interleaved (map (parts_from m rb S (\<lambda>_. 0)) rs) parts"
    "\<forall>(e, k, u) \<in> set rs. unread_ring m rb e S k (Suc k) (im_mem im)"
    by blast
  have "ring_closed m rb e cnt S k u (concat (parts_from m rb S (\<lambda>_. 0) (e, k, u))) \<and>
       length (parts_from m rb S (\<lambda>_. 0) (e, k, u)) = Suc k \<and>
       (\<forall>i < k. fresh_header (get_header (im_mem im) (rb + seg_at e (S + 24) i))) \<and>
       (\<forall>i \<le> k. nextSegmentOffset (get_header (im_mem im) (rb + seg_at e (S + 24) i)) = seg_at e (S + 24) (Suc i mod cnt))" if x: "(e, k, u) \<in> set rs" for e k u
  proof (intro conjI allI impI)
    obtain D where "ring_closed m rb e cnt S k u D" using assms(1) x by (auto simp: rings_closed_def)
    then show "ring_closed m rb e cnt S k u (concat (parts_from m rb S (\<lambda>_. 0) (e, k, u)))"
      "length (parts_from m rb S (\<lambda>_. 0) (e, k, u)) = Suc k"
      using whole_ring by metis+
    have after: "unread_ring m rb e S k (Suc k) (im_mem im)" using d(4) x by blast
    fix i
    show "nextSegmentOffset (get_header (im_mem im) (rb + seg_at e (S + 24) i)) = seg_at e (S + 24) (Suc i mod cnt)" if "i \<le> k"
      using after that rings_ring(1,5) [OF assms(1) x] by (simp add: unread_ring_def)
    assume i: "i < k"
    from after have "get_header (im_mem im) (rb + seg_at e (S + 24) i) = released (get_header m (rb + seg_at e (S + 24) i))"
      using i by (simp add: unread_ring_def)
    then show "fresh_header (get_header (im_mem im) (rb + seg_at e (S + 24) i))"
      using rings_ring(4) [OF assms(1) x i] by (simp add: fresh_header_def full_header_def)
  qed
  then show ?thesis using d(1-3) it by (intro exI [of _ parts] exI [of _ b] exI [of _ im]) (auto simp del: drain.simps)
qed

section \<open>Two closed rings\<close>

lemma ring_closed_cong:
  assumes "ring_closed m rb e cnt S k u D" "\<And>a. rb + e \<le> a \<Longrightarrow> a < rb + e + cnt * (S + 24) \<Longrightarrow> m' a = m a"
  shows "ring_closed m' rb e cnt S k u D"
proof -
  have hdr: "get_header m' (rb + seg_at e (S + 24) i) = get_header m (rb + seg_at e (S + 24) i)" if "i < cnt" for i
    using seg_inside [OF that, of e S] by (intro get_header_cong assms(2)) auto
  have pay: "payload m' rb e S i n = payload m rb e S i n" if "i < cnt" "n \<le> S" for i n
    using seg_inside [OF that(1), of e S] that(2) unfolding payload_def by (intro mem_read_cong assms(2)) auto
  have parts: "map (\<lambda>i. payload m' rb e S i S) [0..<k] = map (\<lambda>i. payload m rb e S i S) [0..<k]" if "k < cnt"
    using pay that by simp
  have k: "k < cnt" "u \<le> S" using assms(1) by (simp_all add: ring_closed_def ring_data_def)
  show ?thesis
    unfolding ring_closed_def ring_data_def ring_linked_def parts [OF k(1)] pay [OF k]
    using assms(1) hdr k by (simp add: ring_closed_def ring_data_def ring_linked_def)
qed

definition two_rings :: mem where
  "two_rings =
     (let r = write_ring 65536 512 4 40 sample_ring; h = get_header r (65536 + seg_at 512 40 0)
      in put_header r (65536 + seg_at 512 40 0) (markEndSegment True (setConsumable True (setWriteable False (h\<lparr>counter := 0\<rparr>)))))"

lemma two_rings_closed: "rings_closed two_rings 65536 16 4 [(64, 1, 3), (512, 0, 0)]"
proof -
  let ?r = "write_ring 65536 512 4 40 sample_ring"
  let ?h = "get_header ?r (65536 + seg_at 512 40 0)"
  let ?p = "markEndSegment True (setConsumable True (setWriteable False (?h\<lparr>counter := 0\<rparr>)))"
  have "ring_open ?r 65536 512 4 16 0 0 []"
    using write_ring_correct(1) [of 4 40 512 65536 sample_ring] by (intro fresh_ring_open) (simp_all add: seg_at_def)
  moreover have "header_ok (?h\<lparr>counter := 0\<rparr>)" using header_ok_get [of ?r "65536 + seg_at 512 40 0"] by (simp add: header_ok_def)
  then have "header_ok ?p" by simp
  moreover have "last_header 0 ?p" by (simp add: last_header_def)
  ultimately have "ring_closed two_rings 65536 512 4 16 0 0 []"
    using ring_open_close [of ?r 65536 512 4 16 0 0 "[]" ?p] by (simp add: two_rings_def Let_def)
  moreover have "ring_closed two_rings 65536 64 4 16 1 3 (replicate 16 1 @ [2, 3, 4])"
  proof (rule ring_closed_cong [OF sample_ring_closed])
    fix a :: nat
    assume a: "65536 + 64 \<le> a" "a < 65536 + 64 + 4 * (16 + 24)"
    then have "?r a = sample_ring a" by (intro write_ring_correct(2)) (auto simp: seg_at_def)
    then show "two_rings a = sample_ring a" using a by (simp add: two_rings_def Let_def put_header_outside seg_at_def)
  qed
  ultimately show ?thesis by (auto simp: rings_closed_def apart_def)
qed

theorem iterator_drains_rings_witness:
  "\<exists>parts b im. (case getIterator ((newBufferHandle ''b'' 1 4 2 16 BW)\<lparr>bh_entrySegments :=
        [\<lparr>seg_offset = 64, seg_size = 16\<rparr>, \<lparr>seg_offset = 512, seg_size = 16\<rparr>]\<rparr>) 65536 two_rings of (b0, im0) \<Rightarrow> drain 4 b0 im0) =
      Inr (parts, b, im) \<and> length parts = 3 \<and> bi_iters b = [] \<and> fresh_header (get_header (im_mem im) (65536 + 64))"
proof -
  let ?hdl = "(newBufferHandle ''b'' 1 4 2 16 BW)\<lparr>bh_entrySegments :=
        [\<lparr>seg_offset = 64, seg_size = 16\<rparr>, \<lparr>seg_offset = 512, seg_size = 16\<rparr>]\<rparr>"
  let ?rs = "[(64, 1, 3), (512, 0, 0)] :: ring_end list"
  have "map seg_offset (bh_entrySegments ?hdl) = map fst ?rs" by simp
  note T = iterator_drains_rings [OF two_rings_closed this]
  have n: "Suc (\<Sum>(e, k, u) \<leftarrow> ?rs. Suc k) = 4" by simp
  obtain parts b im where d: "(case getIterator ?hdl 65536 two_rings of (b0, im0) \<Rightarrow> drain 4 b0 im0) = Inr (parts, b, im)"
    "bi_iters b = []" "interleaved (map (parts_from two_rings 65536 16 (\<lambda>_. 0)) ?rs) parts"
    "\<forall>(e, k, u) \<in> set ?rs. ring_closed two_rings 65536 e 4 16 k u (concat (parts_from two_rings 65536 16 (\<lambda>_. 0) (e, k, u))) \<and>
       length (parts_from two_rings 65536 16 (\<lambda>_. 0) (e, k, u)) = Suc k \<and>
       (\<forall>i < k. fresh_header (get_header (im_mem im) (65536 + seg_at e (16 + 24) i))) \<and>
       (\<forall>i \<le> k. nextSegmentOffset (get_header (im_mem im) (65536 + seg_at e (16 + 24) i)) = seg_at e (16 + 24) (Suc i mod 4))"
    using T unfolding n by (elim exE conjE)
  have "length parts = 3" using interleaved_length [OF d(3)] by (simp add: parts_from_def)
  moreover have "\<forall>i < 1. fresh_header (get_header (im_mem im) (65536 + seg_at 64 (16 + 24) i))" using d(4) by simp
  then have "fresh_header (get_header (im_mem im) (65536 + 64))" by (simp add: seg_at_def)
  ultimately show ?thesis using d(1,2) by blast
qed

end
