(* ===== verification/Crowd_Spec.thy ===== *)
theory Crowd_Spec
  imports Channel_Spec
begin

text \<open>
  What a buffer with several appenders promises: one bounded first-in first-out channel per appender, and a consumer
  that goes round the channels, takes a block where it finds one and leaves out the channels that have ended. Every
  schedule that lets all sides run delivers every appender's stream. The locale is the interface an implementation has to
  meet.
\<close>

section \<open>The channels\<close>

datatype turn = Writes nat | Consumes

text \<open>
  \<open>cw_live\<close> are the channels the consumer still looks at and \<open>cw_at\<close> where it stands on that list, its length standing
  for the end.
\<close>

record crowd =
  cw_fifos :: "fifo list"
  cw_live :: "nat list"
  cw_at :: nat

definition crowd_start :: "byte list list list \<Rightarrow> crowd" where
  "crowd_start chunkss = \<lparr>cw_fifos = map fifo_start chunkss, cw_live = [0..<length chunkss], cw_at = 0\<rparr>"

definition crowd_writer :: "nat \<Rightarrow> nat \<Rightarrow> nat \<Rightarrow> crowd \<Rightarrow> crowd" where
  "crowd_writer cnt S i c =
     (if i < length (cw_fifos c) then c\<lparr>cw_fifos := (cw_fifos c)[i := fifo_writer cnt S (cw_fifos c ! i)]\<rparr> else c)"

text \<open>One round of the consumer: the channel it stands at gets its turn; then it goes on to the next one.\<close>

definition crowd_pos :: "crowd \<Rightarrow> nat" where
  "crowd_pos c = (if cw_at c = length (cw_live c) then 0 else cw_at c)"

definition drop_nth :: "nat \<Rightarrow> 'a list \<Rightarrow> 'a list" where
  "drop_nth p xs = take p xs @ drop (Suc p) xs"

definition crowd_consumer :: "crowd \<Rightarrow> crowd" where
  "crowd_consumer c =
     (if cw_live c = [] then c
      else let p = crowd_pos c; i = cw_live c ! p; f = fifo_consumer (cw_fifos c ! i) in
        if ff_over f then \<lparr>cw_fifos = (cw_fifos c)[i := f], cw_live = drop_nth p (cw_live c), cw_at = p\<rparr>
        else c\<lparr>cw_fifos := (cw_fifos c)[i := f], cw_at := Suc p\<rparr>)"

definition crowd_turn :: "nat \<Rightarrow> nat \<Rightarrow> turn \<Rightarrow> crowd \<Rightarrow> crowd" where
  "crowd_turn cnt S t c = (case t of Writes i \<Rightarrow> crowd_writer cnt S i c | Consumes \<Rightarrow> crowd_consumer c)"

fun crowd_run :: "nat \<Rightarrow> nat \<Rightarrow> (nat \<Rightarrow> turn) \<Rightarrow> nat \<Rightarrow> crowd \<Rightarrow> crowd" where
  "crowd_run cnt S sched 0 c = c"
| "crowd_run cnt S sched (Suc n) c = crowd_turn cnt S (sched n) (crowd_run cnt S sched n c)"

text \<open>A schedule that lets all \<open>n\<close> writers and the consumer run again and again.\<close>

definition fair_to :: "nat \<Rightarrow> (nat \<Rightarrow> turn) \<Rightarrow> bool" where
  "fair_to n sched \<longleftrightarrow> (\<forall>m. \<exists>k \<ge> m. sched k = Consumes) \<and> (\<forall>i < n. \<forall>m. \<exists>k \<ge> m. sched k = Writes i)"

section \<open>Nothing is lost\<close>

definition crowd_ok :: "nat \<Rightarrow> nat \<Rightarrow> crowd \<Rightarrow> bool" where
  "crowd_ok cnt S c \<longleftrightarrow> (\<forall>f \<in> set (cw_fifos c). fifo_ok cnt S f) \<and> distinct (cw_live c) \<and> cw_at c \<le> length (cw_live c) \<and>
     (\<forall>i. i \<in> set (cw_live c) \<longleftrightarrow> i < length (cw_fifos c) \<and> \<not> ff_over (cw_fifos c ! i))"

definition crowd_streams :: "crowd \<Rightarrow> byte list list" where
  "crowd_streams c = map fifo_stream (cw_fifos c)"

lemma drop_nth_nth:
  "p < length xs \<Longrightarrow> q < length xs - 1 \<Longrightarrow> drop_nth p xs ! q = xs ! (if q < p then q else Suc q)"
  by (auto simp: drop_nth_def nth_append)

lemma length_drop_nth [simp]: "p < length xs \<Longrightarrow> length (drop_nth p xs) = length xs - 1"
  by (simp add: drop_nth_def)

lemma set_drop_nth:
  assumes "distinct xs" "p < length xs"
  shows "set (drop_nth p xs) = set xs - {xs ! p}" "distinct (drop_nth p xs)"
proof -
  have xs: "take p xs @ xs ! p # drop (Suc p) xs = xs" using assms(2) by (rule id_take_nth_drop [symmetric])
  have "set (take p xs @ xs ! p # drop (Suc p) xs) = set xs" "distinct (take p xs @ xs ! p # drop (Suc p) xs)"
    using assms(1) unfolding xs by simp_all
  then show "set (drop_nth p xs) = set xs - {xs ! p}" "distinct (drop_nth p xs)" by (auto simp: drop_nth_def)
qed

lemma crowd_start_ok: "0 < cnt \<Longrightarrow> crowd_ok cnt S (crowd_start chunkss)"
  using fifo_start_ok by (auto simp: crowd_ok_def crowd_start_def fifo_start_def)

lemma crowd_start_streams [simp]: "crowd_streams (crowd_start chunkss) = map concat chunkss"
  by (simp add: crowd_streams_def crowd_start_def)

lemma streams_update:
  "fifo_stream f = fifo_stream (fs ! i) \<Longrightarrow> map fifo_stream (fs[i := f]) = map fifo_stream fs"
  by (metis list_update_id map_update)

lemma fifo_over_writer: "fifo_ok cnt S f \<Longrightarrow> ff_over (fifo_writer cnt S f) = ff_over f"
  by (cases rule: fifo_writer_cases) auto

lemma crowd_writer_ok:
  assumes "crowd_ok cnt S c"
  shows "crowd_ok cnt S (crowd_writer cnt S i c)" "crowd_streams (crowd_writer cnt S i c) = crowd_streams c"
proof -
  have f: "fifo_ok cnt S (cw_fifos c ! i)" if "i < length (cw_fifos c)" using assms that by (simp add: crowd_ok_def)
  then show "crowd_streams (crowd_writer cnt S i c) = crowd_streams c"
    by (auto simp: crowd_writer_def crowd_streams_def fifo_writer_ok(2) intro: streams_update)
  have "\<forall>g \<in> set ((cw_fifos c)[i := fifo_writer cnt S (cw_fifos c ! i)]). fifo_ok cnt S g" if "i < length (cw_fifos c)"
    using assms fifo_writer_ok(1) [OF f [OF that]] by (auto simp: crowd_ok_def dest: set_update_subset_insert [THEN subsetD])
  moreover have "ff_over ((cw_fifos c)[i := fifo_writer cnt S (cw_fifos c ! i)] ! j) = ff_over (cw_fifos c ! j)"
    if "i < length (cw_fifos c)" for j
    using fifo_over_writer [OF f [OF that]] that by (cases "j = i") simp_all
  ultimately show "crowd_ok cnt S (crowd_writer cnt S i c)"
    using assms by (simp add: crowd_writer_def crowd_ok_def)
qed

lemma crowd_pos_less: "crowd_ok cnt S c \<Longrightarrow> cw_live c \<noteq> [] \<Longrightarrow> crowd_pos c < length (cw_live c)"
  by (auto simp: crowd_pos_def crowd_ok_def)

lemma crowd_consumer_ok:
  assumes "crowd_ok cnt S c"
  shows "crowd_ok cnt S (crowd_consumer c)" "crowd_streams (crowd_consumer c) = crowd_streams c"
proof -
  let ?p = "crowd_pos c"
  let ?i = "cw_live c ! ?p"
  let ?f = "fifo_consumer (cw_fifos c ! ?i)"
  have "crowd_ok cnt S (crowd_consumer c) \<and> crowd_streams (crowd_consumer c) = crowd_streams c" if live: "cw_live c \<noteq> []"
  proof -
    have p: "?p < length (cw_live c)" by (rule crowd_pos_less [OF assms live])
    then have "?i \<in> set (cw_live c)" by simp
    then have i: "?i < length (cw_fifos c)" "fifo_ok cnt S (cw_fifos c ! ?i)" using assms by (auto simp: crowd_ok_def)
    note f = fifo_consumer_ok [OF i(2)]
    have s: "map fifo_stream ((cw_fifos c)[?i := ?f]) = map fifo_stream (cw_fifos c)" by (rule streams_update) (rule f(2))
    have oks: "\<forall>g \<in> set ((cw_fifos c)[?i := ?f]). fifo_ok cnt S g"
      using assms f(1) by (auto simp: crowd_ok_def dest: set_update_subset_insert [THEN subsetD])
    have other: "ff_over ((cw_fifos c)[?i := ?f] ! j) = (if j = ?i then ff_over ?f else ff_over (cw_fifos c ! j))" for j
      using i(1) by simp
    show ?thesis
    proof (cases "ff_over ?f")
      case True
      then have c: "crowd_consumer c = \<lparr>cw_fifos = (cw_fifos c)[?i := ?f], cw_live = drop_nth ?p (cw_live c), cw_at = ?p\<rparr>"
        using live by (simp add: crowd_consumer_def Let_def)
      have d: "distinct (cw_live c)" using assms by (simp add: crowd_ok_def)
      have "j \<in> set (drop_nth ?p (cw_live c)) \<longleftrightarrow> j < length (cw_fifos c) \<and> \<not> ff_over ((cw_fifos c)[?i := ?f] ! j)" for j
        using assms True other [of j] set_drop_nth(1) [OF d p] by (auto simp: crowd_ok_def)
      then show ?thesis
        using oks s p set_drop_nth(2) [OF d p] unfolding c by (auto simp: crowd_ok_def crowd_streams_def)
    next
      case False
      then have c: "crowd_consumer c = c\<lparr>cw_fifos := (cw_fifos c)[?i := ?f], cw_at := Suc ?p\<rparr>"
        using live by (simp add: crowd_consumer_def Let_def)
      have "j \<in> set (cw_live c) \<longleftrightarrow> j < length (cw_fifos c) \<and> \<not> ff_over ((cw_fifos c)[?i := ?f] ! j)" for j
        using assms False other [of j] p by (auto simp: crowd_ok_def)
      then show ?thesis
        using oks s p assms unfolding c by (auto simp: crowd_ok_def crowd_streams_def)
    qed
  qed
  then show "crowd_ok cnt S (crowd_consumer c)" "crowd_streams (crowd_consumer c) = crowd_streams c"
    using assms by (cases "cw_live c = []"; simp add: crowd_consumer_def)+
qed

lemma crowd_turn_ok:
  assumes "crowd_ok cnt S c"
  shows "crowd_ok cnt S (crowd_turn cnt S t c) \<and> crowd_streams (crowd_turn cnt S t c) = crowd_streams c"
  using crowd_writer_ok [OF assms] crowd_consumer_ok [OF assms] by (cases t) (simp_all add: crowd_turn_def)

lemma crowd_run_ok:
  assumes "crowd_ok cnt S c"
  shows "crowd_ok cnt S (crowd_run cnt S sched n c) \<and> crowd_streams (crowd_run cnt S sched n c) = crowd_streams c"
  by (induction n) (use assms crowd_turn_ok in auto)

lemma crowd_over_streams:
  assumes "crowd_ok cnt S c" "cw_live c = []"
  shows "map ff_out (cw_fifos c) = crowd_streams c"
proof -
  have "ff_out f = fifo_stream f" if f: "f \<in> set (cw_fifos c)" for f
  proof -
    obtain i where i: "i < length (cw_fifos c)" "cw_fifos c ! i = f" using f by (metis in_set_conv_nth)
    then have "ff_over f" "fifo_ok cnt S f" using assms f by (auto simp: crowd_ok_def)
    then show ?thesis by (rule fifo_over_stream [rotated])
  qed
  then show ?thesis by (simp add: crowd_streams_def)
qed

section \<open>Every useful turn brings the end nearer\<close>

definition crowd_rank :: "nat \<Rightarrow> crowd \<Rightarrow> nat" where
  "crowd_rank S c = sum_list (map (fifo_rank S) (cw_fifos c))"

lemma crowd_turn_rank:
  assumes "crowd_ok cnt S c" "0 < S" "cw_fifos (crowd_turn cnt S t c) \<noteq> cw_fifos c"
  shows "crowd_rank S (crowd_turn cnt S t c) < crowd_rank S c"
proof (cases t)
  case (Writes i)
  then have i: "i < length (cw_fifos c)" "fifo_writer cnt S (cw_fifos c ! i) \<noteq> cw_fifos c ! i"
    using assms(3) by (auto simp: crowd_turn_def crowd_writer_def split: if_splits)
  moreover have "fifo_ok cnt S (cw_fifos c ! i)" using assms(1) i(1) by (simp add: crowd_ok_def)
  ultimately show ?thesis
    using fifo_writer_rank [OF assms(2)] sum_list_update_less [OF i(1), of "fifo_rank S"]
    by (simp add: Writes crowd_turn_def crowd_writer_def crowd_rank_def)
next
  case Consumes
  let ?i = "cw_live c ! crowd_pos c"
  let ?f = "fifo_consumer (cw_fifos c ! ?i)"
  have live: "cw_live c \<noteq> []" using assms(3) Consumes by (auto simp: crowd_turn_def crowd_consumer_def)
  then have "?i \<in> set (cw_live c)" using crowd_pos_less [OF assms(1)] by simp
  then have i: "?i < length (cw_fifos c)" using assms(1) by (simp add: crowd_ok_def)
  have new: "cw_fifos (crowd_turn cnt S t c) = (cw_fifos c)[?i := ?f]"
    using live by (simp add: Consumes crowd_turn_def crowd_consumer_def Let_def)
  then have "?f \<noteq> cw_fifos c ! ?i" using assms(3) by auto
  then show ?thesis using sum_list_update_less [OF i, of "fifo_rank S" ?f] fifo_consumer_rank new by (simp add: crowd_rank_def)
qed

text \<open>A turn that changes no channel leaves the list of channels as it is.\<close>

lemma crowd_turn_live:
  assumes "crowd_ok cnt S c" "cw_fifos (crowd_turn cnt S t c) = cw_fifos c"
  shows "cw_live (crowd_turn cnt S t c) = cw_live c"
    and "t \<noteq> Consumes \<Longrightarrow> cw_at (crowd_turn cnt S t c) = cw_at c"
    and "t = Consumes \<Longrightarrow> cw_live c \<noteq> [] \<Longrightarrow> cw_at (crowd_turn cnt S t c) = Suc (crowd_pos c)"
proof -
  let ?i = "cw_live c ! crowd_pos c"
  have over: "\<not> ff_over (fifo_consumer (cw_fifos c ! ?i))" if "t = Consumes" "cw_live c \<noteq> []"
  proof -
    have "?i \<in> set (cw_live c)" using crowd_pos_less [OF assms(1) that(2)] by simp
    then have i: "?i < length (cw_fifos c)" "\<not> ff_over (cw_fifos c ! ?i)" using assms(1) by (simp_all add: crowd_ok_def)
    have "(cw_fifos c)[?i := fifo_consumer (cw_fifos c ! ?i)] = cw_fifos c"
      using assms(2) that by (simp add: crowd_turn_def crowd_consumer_def Let_def split: if_splits)
    then have "fifo_consumer (cw_fifos c ! ?i) = cw_fifos c ! ?i" using i(1) by (metis nth_list_update_eq)
    then show ?thesis using i(2) by simp
  qed
  show "cw_live (crowd_turn cnt S t c) = cw_live c"
    using over by (cases t) (auto simp: crowd_turn_def crowd_writer_def crowd_consumer_def Let_def)
  show "t \<noteq> Consumes \<Longrightarrow> cw_at (crowd_turn cnt S t c) = cw_at c"
    by (cases t) (simp_all add: crowd_turn_def crowd_writer_def)
  show "cw_at (crowd_turn cnt S t c) = Suc (crowd_pos c)" if "t = Consumes" "cw_live c \<noteq> []"
    using over [OF that] that by (simp add: crowd_turn_def crowd_consumer_def Let_def)
qed

section \<open>Every fair schedule delivers everything\<close>

lemma crowd_run_add:
  "crowd_run cnt S sched (n + k) c = crowd_run cnt S (\<lambda>i. sched (n + i)) k (crowd_run cnt S sched n c)"
  by (induction k) auto

lemma ex_shift:
  fixes n m :: nat
  assumes "\<exists>k \<ge> n + m. sched k = t"
  shows "\<exists>k \<ge> m. sched (n + k) = (t :: turn)"
proof -
  from assms
  obtain k where "n + m \<le> k" "sched k = t" by blast
  then show ?thesis by (intro exI [of _ "k - n"]) auto
qed

lemma fair_to_shift: "fair_to N sched \<Longrightarrow> fair_to N (\<lambda>i. sched (n + i))"
  unfolding fair_to_def by (auto intro: ex_shift)

text \<open>The consumer comes to every place on its list as long as nothing changes.\<close>

definition places_before :: "nat \<Rightarrow> nat \<Rightarrow> nat \<Rightarrow> nat" where
  "places_before L q p = (if p \<le> q then q - p else q + L - p)"

lemma crowd_visits:
  assumes "\<And>k. crowd_ok cnt S (crowd_run cnt S sched k c)" "\<And>k. cw_fifos (crowd_run cnt S sched k c) = cw_fifos c"
    and "\<And>k. cw_live (crowd_run cnt S sched k c) = cw_live c" "fair_to N sched" "q < length (cw_live c)"
  shows "\<exists>k \<ge> m. sched k = Consumes \<and> crowd_pos (crowd_run cnt S sched k c) = q"
proof (induction "places_before (length (cw_live c)) q (crowd_pos (crowd_run cnt S sched m c))" arbitrary: m rule: less_induct)
  case less
  let ?c = "\<lambda>k. crowd_run cnt S sched k c"
  let ?L = "length (cw_live c)"
  define k where "k = (LEAST k. m \<le> k \<and> sched k = Consumes)"
  have "\<exists>k. m \<le> k \<and> sched k = Consumes" using assms(4) unfolding fair_to_def by blast
  then have k: "m \<le> k" "sched k = Consumes" unfolding k_def by (auto intro: LeastI2_ex)
  have before: "sched i \<noteq> Consumes" if "m \<le> i" "i < k" for i
    using not_less_Least [of i "\<lambda>k. m \<le> k \<and> sched k = Consumes"] that unfolding k_def by blast
  have "cw_at (?c (m + j)) = cw_at (?c m)" if "m + j \<le> k" for j
    using that
  proof (induction j)
    case (Suc j)
    have "cw_fifos (crowd_turn cnt S (sched (m + j)) (?c (m + j))) = cw_fifos (?c (m + j))"
      using assms(2) [of "Suc (m + j)"] assms(2) [of "m + j"] by simp
    from crowd_turn_live(2) [OF assms(1) this before] Suc show ?case by simp
  qed simp
  from this [of "k - m"] have at: "cw_at (?c k) = cw_at (?c m)" using k(1) by simp
  then have pos: "crowd_pos (?c k) = crowd_pos (?c m)" by (simp add: crowd_pos_def assms(3))
  show ?case
  proof (cases "crowd_pos (?c m) = q")
    case True
    then show ?thesis using k pos by (intro exI [of _ k]) simp
  next
    case False
    have ne: "cw_live (?c k) \<noteq> []" using assms(3,5) by (metis list.size(3) not_less_zero)
    have p: "crowd_pos (?c m) < ?L" using crowd_pos_less [OF assms(1) ne] pos assms(3) by simp
    have "cw_fifos (crowd_turn cnt S (sched k) (?c k)) = cw_fifos (?c k)"
      using assms(2) [of "Suc k"] assms(2) [of k] by simp
    from crowd_turn_live(3) [OF assms(1) this k(2) ne] have "cw_at (?c (Suc k)) = Suc (crowd_pos (?c m))" using pos by simp
    then have "crowd_pos (?c (Suc k)) = (if Suc (crowd_pos (?c m)) = ?L then 0 else Suc (crowd_pos (?c m)))"
      by (simp add: crowd_pos_def assms(3) del: crowd_run.simps)
    then have "places_before ?L q (crowd_pos (?c (Suc k))) < places_before ?L q (crowd_pos (?c m))"
      using False p assms(5) by (auto simp: places_before_def)
    from less [OF this] obtain j where "Suc k \<le> j" "sched j = Consumes" "crowd_pos (?c j) = q" by blast
    then show ?thesis using k(1) by (intro exI [of _ j]) simp
  qed
qed

lemma crowd_progress:
  assumes "crowd_ok cnt S c" "2 \<le> cnt" "0 < S" "cw_live c \<noteq> []" "fair_to (length (cw_fifos c)) sched"
  shows "\<exists>n. crowd_rank S (crowd_run cnt S sched n c) < crowd_rank S c"
proof (rule ccontr)
  assume none: "\<not> ?thesis"
  let ?c = "\<lambda>k. crowd_run cnt S sched k c"
  have ok: "crowd_ok cnt S (?c k)" for k using crowd_run_ok [OF assms(1)] by blast
  have same: "cw_fifos (?c k) = cw_fifos c \<and> cw_live (?c k) = cw_live c" for k
  proof (induction k)
    case (Suc k)
    have "cw_fifos (?c (Suc k)) = cw_fifos (?c k)"
    proof (rule ccontr)
      assume "cw_fifos (?c (Suc k)) \<noteq> cw_fifos (?c k)"
      then have "crowd_rank S (?c (Suc k)) < crowd_rank S (?c k)" using crowd_turn_rank [OF ok assms(3)] by simp
      then have "crowd_rank S (?c (Suc k)) < crowd_rank S c" using Suc by (simp add: crowd_rank_def)
      with none show False by blast
    qed
    with Suc crowd_turn_live(1) [OF ok] show ?case by simp
  qed simp
  obtain q where q: "q < length (cw_live c)" using assms(4) by (metis length_greater_0_conv)
  let ?i = "cw_live c ! q"
  have i: "?i < length (cw_fifos c)" "\<not> ff_over (cw_fifos c ! ?i)" using assms(1) q by (auto simp: crowd_ok_def)
  then have "fifo_ok cnt S (cw_fifos c ! ?i)" using assms(1) by (simp add: crowd_ok_def)
  then obtain side where side: "fifo_turn cnt S side (cw_fifos c ! ?i) \<noteq> cw_fifos c ! ?i"
    using fifo_no_deadlock assms(2,3) i(2) by blast
  show False
  proof (cases side)
    case True
    obtain m where m: "sched m = Writes ?i" using assms(5) i(1) unfolding fair_to_def by blast
    have "cw_fifos (?c (Suc m)) = (cw_fifos c)[?i := fifo_writer cnt S (cw_fifos c ! ?i)]"
      using m same [of m] i(1) by (simp add: crowd_turn_def crowd_writer_def)
    then show False using same [of "Suc m"] side True i(1) by (metis fifo_turn_def nth_list_update_eq)
  next
    case False
    have fifos: "cw_fifos (?c k) = cw_fifos c" and live: "cw_live (?c k) = cw_live c" for k using same by blast+
    obtain m where m: "sched m = Consumes" "crowd_pos (?c m) = q"
      using crowd_visits [OF ok fifos live assms(5) q] by blast
    have "cw_fifos (?c (Suc m)) = (cw_fifos c)[?i := fifo_consumer (cw_fifos c ! ?i)]"
      using m same [of m] assms(4) by (simp add: crowd_turn_def crowd_consumer_def Let_def)
    then show False using same [of "Suc m"] side False i(1) by (metis fifo_turn_def nth_list_update_eq)
  qed
qed

lemma crowd_delivers:
  assumes "crowd_ok cnt S c" "2 \<le> cnt" "0 < S" "fair_to (length (cw_fifos c)) sched"
  shows "\<exists>n. cw_live (crowd_run cnt S sched n c) = []"
  using assms
proof (induction "crowd_rank S c" arbitrary: c sched rule: less_induct)
  case less
  show ?case
  proof (cases "cw_live c = []")
    case True
    then show ?thesis by (intro exI [of _ 0]) simp
  next
    case False
    then obtain n where n: "crowd_rank S (crowd_run cnt S sched n c) < crowd_rank S c"
      using crowd_progress less.prems by blast
    have run: "crowd_ok cnt S (crowd_run cnt S sched n c)" "crowd_streams (crowd_run cnt S sched n c) = crowd_streams c"
      using crowd_run_ok [OF less.prems(1)] by blast+
    then have "length (cw_fifos (crowd_run cnt S sched n c)) = length (cw_fifos c)"
      using map_eq_imp_length_eq by (force simp: crowd_streams_def)
    then obtain k where "cw_live (crowd_run cnt S (\<lambda>i. sched (n + i)) k (crowd_run cnt S sched n c)) = []"
      using less.hyps [OF n run(1) less.prems(2,3), of "\<lambda>i. sched (n + i)"] fair_to_shift [OF less.prems(4)] by auto
    then show ?thesis unfolding crowd_run_add [symmetric] by blast
  qed
qed

section \<open>The interface of an implementation\<close>

text \<open>
  A state with a turn for every writer, a consumer's turn that may fail, and what can be seen of it, by appender: the
  bytes the consumer is done with and the bytes it can read now.
\<close>

definition any_turn :: "(nat \<Rightarrow> 's \<Rightarrow> 's) \<Rightarrow> ('s \<Rightarrow> 's result) \<Rightarrow> turn \<Rightarrow> 's \<Rightarrow> 's result" where
  "any_turn wturn cturn t s = (case t of Writes i \<Rightarrow> Inr (wturn i s) | Consumes \<Rightarrow> cturn s)"

fun turns_run :: "(nat \<Rightarrow> 's \<Rightarrow> 's) \<Rightarrow> ('s \<Rightarrow> 's result) \<Rightarrow> (nat \<Rightarrow> turn) \<Rightarrow> nat \<Rightarrow> 's \<Rightarrow> 's result" where
  "turns_run wturn cturn sched 0 s = Inr s"
| "turns_run wturn cturn sched (Suc n) s = bindR (turns_run wturn cturn sched n s) (any_turn wturn cturn (sched n))"

definition held_block :: "fifo \<Rightarrow> byte list" where
  "held_block f = (case ff_held f of None \<Rightarrow> [] | Some x \<Rightarrow> x)"

locale channels =
  fixes cnt S :: nat and sim :: "'s \<Rightarrow> crowd \<Rightarrow> bool" and wturn :: "nat \<Rightarrow> 's \<Rightarrow> 's" and cturn :: "'s \<Rightarrow> 's result"
    and out held :: "'s \<Rightarrow> byte list list" and over :: "'s \<Rightarrow> bool"
  assumes places: "2 \<le> cnt" "0 < S"
    and sim_writer: "sim s c \<Longrightarrow> crowd_ok cnt S c \<Longrightarrow> sim (wturn i s) (crowd_writer cnt S i c)"
    and sim_consumer: "sim s c \<Longrightarrow> crowd_ok cnt S c \<Longrightarrow> \<exists>t. cturn s = Inr t \<and> sim t (crowd_consumer c)"
    and sim_view: "sim s c \<Longrightarrow> crowd_ok cnt S c \<Longrightarrow>
      out s = map ff_out (cw_fifos c) \<and> held s = map held_block (cw_fifos c) \<and> (over s \<longleftrightarrow> cw_live c = [])"
begin

lemma run_refines:
  assumes "sim s c" "crowd_ok cnt S c"
  shows "\<exists>t. turns_run wturn cturn sched n s = Inr t \<and> sim t (crowd_run cnt S sched n c)"
proof (induction n)
  case 0
  with assms(1) show ?case by simp
next
  case (Suc n)
  then obtain t where t: "turns_run wturn cturn sched n s = Inr t" "sim t (crowd_run cnt S sched n c)" by blast
  have ok: "crowd_ok cnt S (crowd_run cnt S sched n c)" using crowd_run_ok [OF assms(2)] by blast
  show ?case
    using sim_writer [OF t(2) ok] sim_consumer [OF t(2) ok] t(1)
    by (cases "sched n") (auto simp: any_turn_def crowd_turn_def)
qed

lemma run_delivers:
  assumes "sim s c" "crowd_ok cnt S c" "fair_to (length (cw_fifos c)) sched"
  shows "\<exists>n t. turns_run wturn cturn sched n s = Inr t \<and> over t \<and> out t = crowd_streams c"
proof -
  obtain n where n: "cw_live (crowd_run cnt S sched n c) = []" using crowd_delivers [OF assms(2) places assms(3)] by blast
  obtain t where "turns_run wturn cturn sched n s = Inr t" "sim t (crowd_run cnt S sched n c)"
    using run_refines [OF assms(1,2)] by blast
  with n sim_view crowd_over_streams crowd_run_ok [OF assms(2)] show ?thesis by metis
qed

lemma run_safe:
  assumes "sim s c" "crowd_ok cnt S c" "turns_run wturn cturn sched n s = Inr t"
  shows "list_all2 (\<lambda>ys zs. prefix ys zs) (map2 (@) (out t) (held t)) (crowd_streams c)" "over t \<Longrightarrow> out t = crowd_streams c"
proof -
  let ?d = "crowd_run cnt S sched n c"
  have g: "sim t ?d" "crowd_ok cnt S ?d" "crowd_streams ?d = crowd_streams c"
    using run_refines [OF assms(1,2), where sched = sched and n = n] assms(3) crowd_run_ok [OF assms(2)] by auto
  note v = sim_view [OF g(1,2)]
  show "over t \<Longrightarrow> out t = crowd_streams c" using v crowd_over_streams [OF g(2)] g(3) by simp
  have "prefix (ff_out f @ held_block f) (fifo_stream f)" for f
    by (auto simp: fifo_stream_def blocks_def held_block_def prefix_def split: option.splits)
  then show "list_all2 (\<lambda>ys zs. prefix ys zs) (map2 (@) (out t) (held t)) (crowd_streams c)"
    using v unfolding g(3) [symmetric] by (simp add: crowd_streams_def list_all2_conv_all_nth)
qed

end

end
