(* ===== verification/Crowd_Protocol.thy ===== *)
theory Crowd_Protocol
  imports Ring_Protocol Many_Rings Crowd_Spec
begin

text \<open>
  All the appenders of a buffer and its consumer at work at the same time. Every appender has a ring of its own and writes
  it as in \<open>Ring_Protocol\<close>; the consumer is the model of \<open>BufferIterator\<close>, which goes round the rings. Any
  interleaving of all these implements the channels of \<open>Crowd_Spec\<close>.
\<close>

section \<open>The sides\<close>

text \<open>
  \<open>as_live\<close> says which appender's ring each helper on the iterator's list stands for; \<open>as_held\<close> is, for each ring, the
  segment handed out last and not yet given back, \<open>as_out\<close> the bytes of those before.
\<close>

record assembly =
  as_writers :: "ring_writer list"
  as_iter :: BufferIterator
  as_im :: iter_mem
  as_live :: "nat list"
  as_held :: "(header_ptr \<times> nat) option list"
  as_out :: "byte list list"

definition bytes_at :: "iter_mem \<Rightarrow> (header_ptr \<times> nat) option \<Rightarrow> byte list" where
  "bytes_at im h = (case h of Some (InBuffer a, n) \<Rightarrow> mem_read (im_mem im) (a + 24) n | _ \<Rightarrow> [])"

definition assembly_writer :: "nat \<Rightarrow> nat \<Rightarrow> nat \<Rightarrow> assembly \<Rightarrow> assembly" where
  "assembly_writer rb S i s =
     (if i < length (as_writers s)
      then case writer_turn rb S (as_writers s ! i) (im_mem (as_im s)) of (wr, m) \<Rightarrow>
        s\<lparr>as_writers := (as_writers s)[i := wr], as_im := (as_im s)\<lparr>im_mem := m\<rparr>\<rparr>
      else s)"

text \<open>
  One round of \<open>has_next\<close>, and \<open>next\<close> when it finds a segment. The bytes of a ring's segment are read when the next one
  of the same ring is asked for, or the ring's end is seen: as late as the program may read them.
\<close>

definition assembly_consumer :: "assembly \<Rightarrow> assembly result" where
  "assembly_consumer s =
     (if bi_iters (as_iter s) = [] then Inr s
      else bindR (has_next_step (as_iter s, as_im s)) (\<lambda>(found, b, im).
        let p = bi_pointer b; i = as_live s ! p; used = as_out s ! i @ bytes_at (as_im s) (as_held s ! i) in
        if found then
          bindR (next_segment b im) (\<lambda>(ret, b, im).
            Inr (s\<lparr>as_iter := b, as_im := im, as_held := (as_held s)[i := Some ret], as_out := (as_out s)[i := used]\<rparr>))
        else if length (bi_iters b) < length (bi_iters (as_iter s))
        then Inr (s\<lparr>as_iter := b, as_im := im, as_live := drop_nth p (as_live s), as_held := (as_held s)[i := None],
                    as_out := (as_out s)[i := used]\<rparr>)
        else Inr (s\<lparr>as_iter := b, as_im := im\<rparr>)))"

definition assembly_over :: "assembly \<Rightarrow> bool" where
  "assembly_over s \<longleftrightarrow> bi_iters (as_iter s) = []"

text \<open>The start: every appender has joined and read the header of its ring's entry segment, the consumer has its iterator.\<close>

definition assembly_start :: "BufferHandle \<Rightarrow> nat \<Rightarrow> mem \<Rightarrow> byte list list list \<Rightarrow> assembly" where
  "assembly_start hdl rb m chunkss =
     (case getIterator hdl rb m of (b, im) \<Rightarrow>
      \<lparr>as_writers = map2 (\<lambda>seg chunks. \<lparr>rw_phase = Filling, rw_offset = seg_offset seg, rw_next = 0, rw_used = 0,
         rw_header = get_header m (rb + seg_offset seg), rw_todo = chunks\<rparr>) (bh_entrySegments hdl) chunkss,
       as_iter = b, as_im = im, as_live = [0..<length chunkss], as_held = replicate (length chunkss) None,
       as_out = replicate (length chunkss) []\<rparr>)"

section \<open>One ring of them\<close>

text \<open>What a ring's appender and the consumer's helper for that ring see.\<close>

definition solo :: "assembly \<Rightarrow> nat \<Rightarrow> IterHelper list \<Rightarrow> session" where
  "solo s i hs = \<lparr>ss_writer = as_writers s ! i, ss_iter = (as_iter s)\<lparr>bi_iters := hs, bi_pointer := 0\<rparr>, ss_im = as_im s,
     ss_held = as_held s ! i, ss_out = as_out s ! i\<rparr>"

lemma solo_sel [simp]:
  "ss_writer (solo s i hs) = as_writers s ! i" "bi_iters (ss_iter (solo s i hs)) = hs" "bi_pointer (ss_iter (solo s i hs)) = 0"
  "bi_lat (ss_iter (solo s i hs)) = bi_lat (as_iter s)" "ss_im (solo s i hs) = as_im s"
  "ss_held (solo s i hs) = as_held s ! i" "ss_out (solo s i hs) = as_out s ! i"
  by (simp_all add: solo_def)

lemma held_bytes_solo: "held_bytes (solo s i hs) = bytes_at (as_im s) (as_held s ! i)"
  unfolding held_bytes_def bytes_at_def solo_sel ..

definition iter_pos :: "BufferIterator \<Rightarrow> nat" where
  "iter_pos b = (if bi_pointer b = length (bi_iters b) then 0 else bi_pointer b)"

text \<open>What the consumer's turn at one ring does to the whole.\<close>

definition after_solo :: "assembly \<Rightarrow> nat \<Rightarrow> session \<Rightarrow> assembly" where
  "after_solo s p t =
     (let i = as_live s ! p; s = s\<lparr>as_im := ss_im t, as_held := (as_held s)[i := ss_held t], as_out := (as_out s)[i := ss_out t]\<rparr> in
      case bi_iters (ss_iter t) of
        [] \<Rightarrow> s\<lparr>as_iter := (as_iter s)\<lparr>bi_iters := drop_nth p (bi_iters (as_iter s)), bi_pointer := p\<rparr>,
               as_live := drop_nth p (as_live s)\<rparr>
      | h # _ \<Rightarrow> s\<lparr>as_iter := (as_iter s)\<lparr>bi_iters := (bi_iters (as_iter s))[p := h], bi_pointer := Suc p\<rparr>\<rparr>)"

lemma consumer_is_solo:
  assumes "bi_iters (as_iter s) \<noteq> []" "bi_pointer (as_iter s) \<le> length (bi_iters (as_iter s))" "\<not> bi_lat (as_iter s)"
    and "length (as_live s) = length (bi_iters (as_iter s))"
    and "session_consumer (solo s (as_live s ! iter_pos (as_iter s)) [bi_iters (as_iter s) ! iter_pos (as_iter s)]) = Inr t"
  shows "assembly_consumer s = Inr (after_solo s (iter_pos (as_iter s)) t)"
proof -
  let ?b = "as_iter s" and ?im = "as_im s"
  let ?p = "iter_pos ?b"
  let ?i = "as_live s ! ?p" and ?h = "bi_iters ?b ! ?p"
  have p: "?p < length (bi_iters ?b)" using assms(1,2) by (auto simp: iter_pos_def)
  have wrap: "(if bi_pointer ?b = length (bi_iters ?b) then ?b\<lparr>bi_pointer := 0\<rparr> else ?b) = ?b\<lparr>bi_pointer := ?p\<rparr>"
    by (simp add: iter_pos_def)
  have step: "has_next_step (?b, ?im) =
    (if \<not> isEndSegment (deref (si_header (ih_prev ?h)) ?im) then
       if \<not> isConsumable (deref (si_header (ih_iter ?h)) ?im) then Inr (False, ?b\<lparr>bi_pointer := Suc ?p\<rparr>, ?im)
       else Inr (True, ?b\<lparr>bi_pointer := ?p\<rparr>, ?im)
     else bindR (mark_prev_segment (?b\<lparr>bi_pointer := ?p\<rparr>) ?im) (\<lambda>im.
       Inr (False, ?b\<lparr>bi_pointer := ?p, bi_iters := drop_nth ?p (bi_iters ?b)\<rparr>, im)))"
    unfolding has_next_step_def prod.case wrap using p by (simp add: Let_def drop_nth_def)
  show ?thesis
  proof (cases "isEndSegment (deref (si_header (ih_prev ?h)) ?im)")
    case True
    have "t = (solo s ?i [?h])\<lparr>ss_iter := (ss_iter (solo s ?i [?h]))\<lparr>bi_pointer := 0, bi_iters := []\<rparr>, ss_held := None,
        ss_out := as_out s ! ?i @ bytes_at ?im (as_held s ! ?i)\<rparr>"
      using consumer_ends [of "solo s ?i [?h]" ?h] assms(3,5) True by (simp add: held_bytes_solo)
    then show ?thesis
      using step True assms(1,3) p
      by (simp add: assembly_consumer_def mark_prev_segment_def after_solo_def Let_def)
  next
    case open_prev: False
    show ?thesis
    proof (cases "isConsumable (deref (si_header (ih_iter ?h)) ?im)")
      case False
      have "t = (solo s ?i [?h])\<lparr>ss_iter := (ss_iter (solo s ?i [?h]))\<lparr>bi_pointer := 1\<rparr>\<rparr>"
        using consumer_polls [of "solo s ?i [?h]" ?h] assms(5) open_prev False by simp
      then show ?thesis
        using step open_prev False assms(1) p by (simp add: assembly_consumer_def after_solo_def Let_def)
    next
      case True
      show ?thesis
        using step open_prev True assms(1,3,5) p has_next_step_single [of "ss_iter (solo s ?i [?h])" ?h]
        by (auto simp: assembly_consumer_def session_consumer_def next_segment_def mark_prev_segment_def after_solo_def
            held_bytes_solo getRawData_def Let_def)
    qed
  qed
qed

section \<open>A turn stays in its ring\<close>

definition in_ring :: "nat \<Rightarrow> nat \<Rightarrow> nat \<Rightarrow> nat \<Rightarrow> nat \<Rightarrow> bool" where
  "in_ring rb e cnt S a \<longleftrightarrow> rb + e \<le> a \<and> a < rb + e + cnt * (S + 24)"

lemma ring_pos_inside:
  assumes "0 < cnt"
  shows "rb + e \<le> ring_pos rb e cnt S i" "ring_pos rb e cnt S i + (S + 24) \<le> rb + e + cnt * (S + 24)"
  using seg_inside [of "i mod cnt" cnt e S] assms by (auto simp: ring_pos_def)

lemma ring_pos_cong:
  assumes "0 < cnt" "\<And>a. in_ring rb e cnt S a \<Longrightarrow> m' a = m a"
  shows "get_header m' (ring_pos rb e cnt S i) = get_header m (ring_pos rb e cnt S i)"
    and "n \<le> S \<Longrightarrow> mem_read m' (ring_pos rb e cnt S i + 24) n = mem_read m (ring_pos rb e cnt S i + 24) n"
  using ring_pos_inside [OF assms(1), of rb e S i]
  by (intro get_header_cong mem_read_cong assms(2); simp add: in_ring_def)+

lemma ring_window_cong:
  assumes "ring_window m rb e cnt S b bs fin" "0 < cnt" "\<And>a. in_ring rb e cnt S a \<Longrightarrow> m' a = m a"
  shows "ring_window m' rb e cnt S b bs fin"
proof -
  note C = ring_pos_cong [OF assms(2), where rb = rb and e = e and S = S and m = m and m' = m', OF assms(3)]
  have "ring_linked m' rb e cnt (S + 24)"
    unfolding ring_linked_def
  proof (intro allI impI)
    fix i assume "i < cnt"
    then show "nextSegmentOffset (get_header m' (rb + seg_at e (S + 24) i)) = seg_at e (S + 24) (Suc i mod cnt)"
      using C(1) [of i] assms(1) by (simp add: ring_window_def ring_linked_def ring_pos_def)
  qed
  then show ?thesis using assms(1) C by (simp add: ring_window_def seg_holds_def)
qed

text \<open>A ring does not notice what happens elsewhere.\<close>

lemma ring_sim_frame:
  assumes "ring_sim rb e cnt S s f" "fifo_ok cnt S f" "0 < cnt"
    and "ss_writer t = ss_writer s" "ss_out t = ss_out s" "ss_held t = ss_held s"
    and "bi_iters (ss_iter t) = bi_iters (ss_iter s)" "bi_lat (ss_iter t) = bi_lat (ss_iter s)" "bi_pointer (ss_iter t) \<le> 1"
    and mem: "\<And>a. in_ring rb e cnt S a \<Longrightarrow> im_mem (ss_im t) a = im_mem (ss_im s) a"
    and heap: "\<And>i. i < length (im_heap (ss_im s)) \<Longrightarrow> \<not> isEndSegment (im_heap (ss_im s) ! i) \<Longrightarrow>
      i < length (im_heap (ss_im t)) \<and> \<not> isEndSegment (im_heap (ss_im t) ! i)"
  shows "ring_sim rb e cnt S t f"
proof (cases "ff_over f")
  case True
  then show ?thesis using assms(1,4-7) by (simp add: ring_sim_def)
next
  case False
  from ring_simE [OF assms(1) False] obtain b where
    b: "ring_window (im_mem (ss_im s)) rb e cnt S b (blocks f) (ff_phase f = Done)" "writer_at rb e cnt S b s f"
    "consumer_at rb e cnt S b s f" "rw_phase (ss_writer s) = ff_phase f" "rw_todo (ss_writer s) = ff_todo f" "ss_out s = ff_out f"
    by metis
  note C = ring_pos_cong [OF assms(3), where rb = rb and e = e and S = S and m = "im_mem (ss_im s)" and m' = "im_mem (ss_im t)", OF mem]
  have "ring_window (im_mem (ss_im t)) rb e cnt S b (blocks f) (ff_phase f = Done)"
    by (rule ring_window_cong [OF b(1) assms(3) mem])
  moreover have "writer_at rb e cnt S b t f"
    using b(2) C assms(2,4) by (simp add: writer_at_def Let_def fifo_ok_def)
  moreover have "consumer_at rb e cnt S b t f"
  proof (cases "ff_held f")
    case None
    then show ?thesis using b(3) assms(6-9) heap by (auto simp: consumer_at_None)
  next
    case (Some x)
    then show ?thesis using b(3) assms(6-9) by (auto simp: consumer_at_Some)
  qed
  ultimately show ?thesis using b(4-6) False assms(4,5) by (auto simp: ring_sim_def)
qed

lemma writer_in_ring:
  assumes "ring_sim rb e cnt S s f" "fifo_ok cnt S f" "0 < cnt" "\<not> in_ring rb e cnt S a"
  shows "im_mem (ss_im (session_writer rb S s)) a = im_mem (ss_im s) a"
proof (cases "ff_phase f = Filling")
  case True
  then have over: "\<not> ff_over f" using assms(2) by (auto simp: fifo_ok_def)
  from ring_simE [OF assms(1) over] obtain b where "writer_at rb e cnt S b s f" "rw_phase (ss_writer s) = Filling"
    using True by metis
  then have w: "rb + rw_offset (ss_writer s) = ring_pos rb e cnt S (b + length (blocks f))"
    "rw_used (ss_writer s) = length (ff_cur f)" "rw_phase (ss_writer s) = Filling"
    using True by (simp_all add: writer_at_def Let_def)
  have inside: "rb + e \<le> rb + rw_offset (ss_writer s)" "rb + rw_offset (ss_writer s) + (S + 24) \<le> rb + e + cnt * (S + 24)"
    using ring_pos_inside [OF assms(3)] w(1) by metis+
  have a: "a < rb + rw_offset (ss_writer s) \<or> rb + rw_offset (ss_writer s) + (S + 24) \<le> a"
    using assms(4) inside by (auto simp: in_ring_def)
  show ?thesis
    using a w(3) by (auto simp: session_writer_def writer_turn_def Let_def mem_write_outside put_header_outside split: list.splits)
next
  case False
  then have "rw_phase (ss_writer s) = Waiting \<or> rw_phase (ss_writer s) = Done"
    using assms(1) by (cases "ff_phase f") (simp_all add: ring_sim_def)
  then show ?thesis by (auto simp: session_writer_def writer_turn_def Let_def)
qed

lemma assign_heap:
  assumes "i < length (im_heap im)" "\<not> isEndSegment (im_heap im ! i)"
  shows "i < length (im_heap (assign q (released (deref q im)) im)) \<and>
    \<not> isEndSegment (im_heap (assign q (released (deref q im)) im) ! i)"
  using assms by (cases "q = OnHeap i"; cases q) (auto simp: assign_def deref_def)

lemma consumer_memory:
  assumes "bi_iters (ss_iter s) = [ih]" "\<not> bi_lat (ss_iter s)" "bi_pointer (ss_iter s) \<le> 1" "session_consumer s = Inr t"
  shows "ss_im t = ss_im s \<or>
    ss_im t = assign (si_header (ih_prev ih)) (released (deref (si_header (ih_prev ih)) (ss_im s))) (ss_im s)"
  using assms has_next_step_single [OF assms(1,3), of "ss_im s"]
  by (auto simp: session_consumer_def next_segment_def mark_prev_segment_def Let_def split: if_splits)

lemma consumer_in_ring:
  assumes "ring_sim rb e cnt S s f" "0 < cnt" "session_consumer s = Inr t"
  shows "\<not> in_ring rb e cnt S a \<Longrightarrow> im_mem (ss_im t) a = im_mem (ss_im s) a"
    and "i < length (im_heap (ss_im s)) \<Longrightarrow> \<not> isEndSegment (im_heap (ss_im s) ! i) \<Longrightarrow>
      i < length (im_heap (ss_im t)) \<and> \<not> isEndSegment (im_heap (ss_im t) ! i)"
proof -
  have "(\<not> in_ring rb e cnt S a \<longrightarrow> im_mem (ss_im t) a = im_mem (ss_im s) a) \<and>
    (i < length (im_heap (ss_im s)) \<longrightarrow> \<not> isEndSegment (im_heap (ss_im s) ! i) \<longrightarrow>
      i < length (im_heap (ss_im t)) \<and> \<not> isEndSegment (im_heap (ss_im t) ! i))"
  proof (cases "ff_over f")
    case True
    then have "ss_im t = ss_im s" using assms(1,3) by (auto simp: ring_sim_def session_consumer_def)
    then show ?thesis by simp
  next
    case False
    from ring_simE [OF assms(1) False] obtain b where "consumer_at rb e cnt S b s f" by metis
    then obtain ih where ih: "bi_iters (ss_iter s) = [ih]" "\<not> bi_lat (ss_iter s)" "bi_pointer (ss_iter s) \<le> 1"
      "si_header (ih_prev ih) = InBuffer (ring_pos rb e cnt S b) \<or> (\<exists>j. si_header (ih_prev ih) = OnHeap j)"
      unfolding consumer_at_def by (cases "ff_held f") auto
    have "a < ring_pos rb e cnt S b \<or> ring_pos rb e cnt S b + 24 \<le> a" if "\<not> in_ring rb e cnt S a"
      using that ring_pos_inside [OF assms(2), of rb e S b] by (auto simp: in_ring_def)
    then show ?thesis
      using consumer_memory [OF ih(1-3) assms(3)] ih(4) assign_heap [of i "ss_im s" "si_header (ih_prev ih)"]
      by (auto simp: assign_def deref_def put_header_outside simp del: nth_list_update)
  qed
  then show "\<not> in_ring rb e cnt S a \<Longrightarrow> im_mem (ss_im t) a = im_mem (ss_im s) a"
    "i < length (im_heap (ss_im s)) \<Longrightarrow> \<not> isEndSegment (im_heap (ss_im s) ! i) \<Longrightarrow>
      i < length (im_heap (ss_im t)) \<and> \<not> isEndSegment (im_heap (ss_im t) ! i)"
    by blast+
qed

lemma consumer_keeps:
  assumes "ring_sim rb e cnt S s f" "session_consumer s = Inr t"
  shows "ss_writer t = ss_writer s" "bi_lat (ss_iter t) = bi_lat (ss_iter s)"
proof -
  have "ss_writer t = ss_writer s \<and> bi_lat (ss_iter t) = bi_lat (ss_iter s)"
  proof (cases "ff_over f")
    case True
    then show ?thesis using assms by (auto simp: ring_sim_def session_consumer_def)
  next
    case False
    from ring_simE [OF assms(1) False] obtain b where "consumer_at rb e cnt S b s f" by metis
    then obtain ih where ih: "bi_iters (ss_iter s) = [ih]" "\<not> bi_lat (ss_iter s)" "bi_pointer (ss_iter s) \<le> 1"
      unfolding consumer_at_def by auto
    show ?thesis
      using assms(2) ih has_next_step_single [OF ih(1,3), of "ss_im s"]
      by (auto simp: session_consumer_def next_segment_def mark_prev_segment_def Let_def split: if_splits)
  qed
  then show "ss_writer t = ss_writer s" "bi_lat (ss_iter t) = bi_lat (ss_iter s)" by blast+
qed

lemma ring_sim_iters:
  assumes "ring_sim rb e cnt S s f"
  shows "ff_over f \<Longrightarrow> bi_iters (ss_iter s) = []" "\<not> ff_over f \<Longrightarrow> \<exists>ih. bi_iters (ss_iter s) = [ih]"
  using assms by (auto simp: ring_sim_def consumer_at_def)

section \<open>The simulation\<close>

definition rings_lie_apart :: "nat \<Rightarrow> nat \<Rightarrow> nat list \<Rightarrow> bool" where
  "rings_lie_apart S cnt es \<longleftrightarrow> (\<forall>i < length es. \<forall>j < length es. i \<noteq> j \<longrightarrow> apart S cnt (es ! i) (es ! j))"

definition crowd_sim :: "nat \<Rightarrow> nat list \<Rightarrow> nat \<Rightarrow> nat \<Rightarrow> assembly \<Rightarrow> crowd \<Rightarrow> bool" where
  "crowd_sim rb es cnt S s c \<longleftrightarrow>
     length (as_writers s) = length es \<and> length (as_held s) = length es \<and> length (as_out s) = length es \<and>
     length (cw_fifos c) = length es \<and> as_live s = cw_live c \<and> bi_pointer (as_iter s) = cw_at c \<and>
     length (bi_iters (as_iter s)) = length (cw_live c) \<and> \<not> bi_lat (as_iter s) \<and>
     (\<forall>p < length (cw_live c). ring_sim rb (es ! (cw_live c ! p)) cnt S
        (solo s (cw_live c ! p) [bi_iters (as_iter s) ! p]) (cw_fifos c ! (cw_live c ! p))) \<and>
     (\<forall>i < length es. i \<notin> set (cw_live c) \<longrightarrow> ring_sim rb (es ! i) cnt S (solo s i []) (cw_fifos c ! i))"

lemma crowd_sim_ring:
  assumes "crowd_sim rb es cnt S s c" "i < length es"
  shows "\<exists>hs. ring_sim rb (es ! i) cnt S (solo s i hs) (cw_fifos c ! i)"
proof (cases "i \<in> set (cw_live c)")
  case True
  then obtain p where "p < length (cw_live c)" "cw_live c ! p = i" by (metis in_set_conv_nth)
  then show ?thesis using assms(1) unfolding crowd_sim_def by blast
next
  case False
  then show ?thesis using assms unfolding crowd_sim_def by blast
qed

lemma in_one_ring: "apart S cnt e e' \<Longrightarrow> in_ring rb e cnt S a \<Longrightarrow> \<not> in_ring rb e' cnt S a"
  by (auto simp: apart_def in_ring_def)

lemma writer_solo:
  "i < length (as_writers s) \<Longrightarrow> session_writer rb S (solo s i hs) = solo (assembly_writer rb S i s) i hs"
  by (simp add: session_writer_def assembly_writer_def solo_def split: prod.split)

lemma solo_frame:
  assumes "ring_sim rb e cnt S (solo s j hs) f" "fifo_ok cnt S f" "0 < cnt" "apart S cnt e e'"
    and "as_writers t ! j = as_writers s ! j" "as_held t ! j = as_held s ! j" "as_out t ! j = as_out s ! j"
    and "bi_lat (as_iter t) = bi_lat (as_iter s)"
    and mem: "\<And>a. \<not> in_ring rb e' cnt S a \<Longrightarrow> im_mem (as_im t) a = im_mem (as_im s) a"
    and heap: "\<And>i. i < length (im_heap (as_im s)) \<Longrightarrow> \<not> isEndSegment (im_heap (as_im s) ! i) \<Longrightarrow>
      i < length (im_heap (as_im t)) \<and> \<not> isEndSegment (im_heap (as_im t) ! i)"
  shows "ring_sim rb e cnt S (solo t j hs) f"
proof (rule ring_sim_frame [OF assms(1-3)])
  fix a assume "in_ring rb e cnt S a"
  with mem in_one_ring [OF assms(4)] show "im_mem (ss_im (solo t j hs)) a = im_mem (ss_im (solo s j hs)) a" by simp
qed (use assms(5-8) heap in simp_all)

text \<open>What the simulation says of a single ring.\<close>

lemma crowd_sim_facts:
  assumes "crowd_sim rb es cnt S s c" "crowd_ok cnt S c"
  shows "length (as_writers s) = length es" "length (as_held s) = length es" "length (as_out s) = length es"
    "length (cw_fifos c) = length es" "as_live s = cw_live c" "bi_pointer (as_iter s) = cw_at c"
    "length (bi_iters (as_iter s)) = length (cw_live c)" "\<not> bi_lat (as_iter s)"
    and "j < length es \<Longrightarrow> fifo_ok cnt S (cw_fifos c ! j)" "p < length (cw_live c) \<Longrightarrow> cw_live c ! p < length es"
    and "p < length (cw_live c) \<Longrightarrow> ring_sim rb (es ! (cw_live c ! p)) cnt S
        (solo s (cw_live c ! p) [bi_iters (as_iter s) ! p]) (cw_fifos c ! (cw_live c ! p))"
    and "j < length es \<Longrightarrow> j \<notin> set (cw_live c) \<Longrightarrow> ring_sim rb (es ! j) cnt S (solo s j []) (cw_fifos c ! j)"
  using assms by (auto simp: crowd_sim_def crowd_ok_def)

lemma crowd_sim_writer:
  assumes "crowd_sim rb es cnt S s c" "crowd_ok cnt S c" "rings_lie_apart S cnt es" "S < 2 ^ 64" "0 < cnt"
  shows "crowd_sim rb es cnt S (assembly_writer rb S i s) (crowd_writer cnt S i c)"
proof (cases "i < length es")
  case True
  let ?s = "assembly_writer rb S i s" and ?f = "fifo_writer cnt S (cw_fifos c ! i)"
  have len: "length (as_writers s) = length es" "length (cw_fifos c) = length es" using assms(1) by (simp_all add: crowd_sim_def)
  have ok: "fifo_ok cnt S (cw_fifos c ! j)" if "j < length es" for j using assms(2) that len by (simp add: crowd_ok_def)
  have own: "ring_sim rb (es ! i) cnt S (solo ?s i hs) ?f" if "ring_sim rb (es ! i) cnt S (solo s i hs) (cw_fifos c ! i)" for hs
    using sim_writer [OF that ok [OF True] assms(4,5)] writer_solo [of i s] len(1) True by simp
  obtain hi where hi: "ring_sim rb (es ! i) cnt S (solo s i hi) (cw_fifos c ! i)" using crowd_sim_ring [OF assms(1) True] by blast
  have mem: "im_mem (as_im ?s) a = im_mem (as_im s) a" if "\<not> in_ring rb (es ! i) cnt S a" for a
    using writer_in_ring [OF hi ok [OF True] assms(5) that] writer_solo [of i s] len(1) True by simp
  have same: "im_heap (as_im ?s) = im_heap (as_im s)" "as_iter ?s = as_iter s" "as_live ?s = as_live s" "as_held ?s = as_held s"
    "as_out ?s = as_out s" "length (as_writers ?s) = length (as_writers s)"
    by (auto simp: assembly_writer_def split: prod.split)
  have other: "ring_sim rb (es ! j) cnt S (solo ?s j hs) (cw_fifos c ! j)"
    if "j < length es" "j \<noteq> i" "ring_sim rb (es ! j) cnt S (solo s j hs) (cw_fifos c ! j)" for j hs
  proof (rule solo_frame [OF that(3) ok [OF that(1)] assms(5), of "es ! i"])
    show "apart S cnt (es ! j) (es ! i)" using assms(3) that(1,2) True by (simp add: rings_lie_apart_def)
    show "as_writers ?s ! j = as_writers s ! j" using that(2) by (auto simp: assembly_writer_def split: prod.split)
  qed (use mem same in auto)
  have any: "ring_sim rb (es ! j) cnt S (solo ?s j hs) ((cw_fifos c)[i := ?f] ! j)"
    if "j < length es" "ring_sim rb (es ! j) cnt S (solo s j hs) (cw_fifos c ! j)" for j hs
    using own other that len(2) by (cases "j = i") simp_all
  have live: "cw_live c ! p < length es" if "p < length (cw_live c)" for p
    using assms(2) that len(2) by (metis crowd_ok_def nth_mem)
  show ?thesis
    using assms(1) any live True len same unfolding crowd_sim_def crowd_writer_def by simp
next
  case False
  then show ?thesis using assms(1) by (simp add: crowd_sim_def assembly_writer_def crowd_writer_def)
qed

text \<open>The consumer's turn at the ring of position \<open>p\<close>, seen from the other rings.\<close>

lemma after_solo_sel [simp]:
  "as_writers (after_solo s p t) = as_writers s" "as_im (after_solo s p t) = ss_im t"
  "as_held (after_solo s p t) = (as_held s)[as_live s ! p := ss_held t]"
  "as_out (after_solo s p t) = (as_out s)[as_live s ! p := ss_out t]"
  "bi_lat (as_iter (after_solo s p t)) = bi_lat (as_iter s)"
  by (simp_all add: after_solo_def Let_def split: list.split)

lemma after_solo_end:
  "bi_iters (ss_iter t) = [] \<Longrightarrow> as_live (after_solo s p t) = drop_nth p (as_live s) \<and>
     bi_iters (as_iter (after_solo s p t)) = drop_nth p (bi_iters (as_iter s)) \<and> bi_pointer (as_iter (after_solo s p t)) = p"
  "bi_iters (ss_iter t) = [h] \<Longrightarrow> as_live (after_solo s p t) = as_live s \<and>
     bi_iters (as_iter (after_solo s p t)) = (bi_iters (as_iter s))[p := h] \<and> bi_pointer (as_iter (after_solo s p t)) = Suc p"
  by (simp_all add: after_solo_def Let_def)

lemma crowd_consumer_ring:
  assumes "crowd_sim rb es cnt S s c" "crowd_ok cnt S c" "rings_lie_apart S cnt es" "2 \<le> cnt" "cw_live c \<noteq> []"
    and "p = crowd_pos c" "i = cw_live c ! p"
  shows "\<exists>t. assembly_consumer s = Inr (after_solo s p t) \<and>
    ring_sim rb (es ! i) cnt S (solo (after_solo s p t) i (bi_iters (ss_iter t))) (fifo_consumer (cw_fifos c ! i)) \<and>
    (\<forall>j hs. j < length es \<longrightarrow> j \<noteq> i \<longrightarrow> ring_sim rb (es ! j) cnt S (solo s j hs) (cw_fifos c ! j) \<longrightarrow>
       ring_sim rb (es ! j) cnt S (solo (after_solo s p t) j hs) (cw_fifos c ! j))"
proof -
  note sim = crowd_sim_facts [OF assms(1,2)]
  have pos: "0 < cnt" using assms(4) by simp
  have at: "iter_pos (as_iter s) = p" using sim(6,7) by (simp add: iter_pos_def crowd_pos_def assms(6))
  have p: "p < length (cw_live c)" using crowd_pos_less [OF assms(2,5)] assms(6) by simp
  have i: "i < length es" using sim(10) [OF p] assms(7) by simp
  have ring: "ring_sim rb (es ! i) cnt S (solo s i [bi_iters (as_iter s) ! p]) (cw_fifos c ! i)"
    using sim(11) [OF p] assms(7) by simp
  obtain t where t: "session_consumer (solo s i [bi_iters (as_iter s) ! p]) = Inr t"
    "ring_sim rb (es ! i) cnt S t (fifo_consumer (cw_fifos c ! i))"
    using sim_consumer [OF ring sim(9) [OF i] assms(4)] by blast
  have "bi_iters (as_iter s) \<noteq> []" "cw_at c \<le> length (cw_live c)" using assms(2,5) sim(7) by (auto simp: crowd_ok_def)
  then have run: "assembly_consumer s = Inr (after_solo s p t)"
    using consumer_is_solo [of s t] at t(1) sim(5-8) assms(7) by simp
  note keeps = consumer_keeps [OF ring t(1)] and mem = consumer_in_ring(1) [OF ring pos t(1)]
    and heap = consumer_in_ring(2) [OF ring pos t(1)]
  have own: "ring_sim rb (es ! i) cnt S (solo (after_solo s p t) i (bi_iters (ss_iter t))) (fifo_consumer (cw_fifos c ! i))"
    by (rule ring_sim_frame [OF t(2) fifo_consumer_ok(1) [OF sim(9) [OF i]] pos]) (use keeps i sim assms(7) in simp_all)
  have "ring_sim rb (es ! j) cnt S (solo (after_solo s p t) j hs) (cw_fifos c ! j)"
    if "j < length es" "j \<noteq> i" "ring_sim rb (es ! j) cnt S (solo s j hs) (cw_fifos c ! j)" for j hs
  proof (rule solo_frame [OF that(3) sim(9) [OF that(1)] pos, of "es ! i"])
    show "apart S cnt (es ! j) (es ! i)" using assms(3) that(1,2) i by (simp add: rings_lie_apart_def)
  qed (use that(2) sim(5) mem heap assms(7) in simp_all)
  with run own show ?thesis by blast
qed

text \<open>A ring whose end has been seen leaves the list; otherwise the list stays.\<close>

lemma crowd_sim_end:
  assumes "crowd_sim rb es cnt S s c" "crowd_ok cnt S c" "p < length (cw_live c)" "i = cw_live c ! p" "bi_iters (ss_iter t) = []"
    and "ring_sim rb (es ! i) cnt S (solo (after_solo s p t) i []) f"
    and "\<And>j hs. j < length es \<Longrightarrow> j \<noteq> i \<Longrightarrow> ring_sim rb (es ! j) cnt S (solo s j hs) (cw_fifos c ! j) \<Longrightarrow>
       ring_sim rb (es ! j) cnt S (solo (after_solo s p t) j hs) (cw_fifos c ! j)"
  shows "crowd_sim rb es cnt S (after_solo s p t) \<lparr>cw_fifos = (cw_fifos c)[i := f], cw_live = drop_nth p (cw_live c), cw_at = p\<rparr>"
proof -
  note sim = crowd_sim_facts [OF assms(1,2)]
  have d: "distinct (cw_live c)" using assms(2) by (simp add: crowd_ok_def)
  have i: "i < length es" using sim(10) [OF assms(3)] assms(4) by simp
  have "ring_sim rb (es ! (drop_nth p (cw_live c) ! q)) cnt S (solo (after_solo s p t) (drop_nth p (cw_live c) ! q)
      [drop_nth p (bi_iters (as_iter s)) ! q]) ((cw_fifos c)[i := f] ! (drop_nth p (cw_live c) ! q))"
    if q: "q < length (cw_live c) - 1" for q
  proof -
    let ?q = "if q < p then q else Suc q"
    have k: "?q < length (cw_live c)" "?q \<noteq> p" using q assms(3) by auto
    then have "cw_live c ! ?q \<noteq> i" using d assms(3,4) by (simp add: nth_eq_iff_index_eq)
    with assms(7) [OF sim(10) [OF k(1)] this sim(11) [OF k(1)]] show ?thesis
      using q assms(3) sim(7) by (simp add: drop_nth_nth del: if_split)
  qed
  moreover have "ring_sim rb (es ! j) cnt S (solo (after_solo s p t) j []) ((cw_fifos c)[i := f] ! j)"
    if "j < length es" "j \<notin> set (drop_nth p (cw_live c))" for j
    using that assms(4,6,7) sim(4,12) i set_drop_nth(1) [OF d assms(3)] by (cases "j = i") auto
  ultimately show ?thesis
    using after_solo_end(1) [OF assms(5), of s p] assms(3) sim unfolding crowd_sim_def by simp
qed

lemma crowd_sim_move:
  assumes "crowd_sim rb es cnt S s c" "crowd_ok cnt S c" "p < length (cw_live c)" "i = cw_live c ! p" "bi_iters (ss_iter t) = [h]"
    and "ring_sim rb (es ! i) cnt S (solo (after_solo s p t) i [h]) f"
    and "\<And>j hs. j < length es \<Longrightarrow> j \<noteq> i \<Longrightarrow> ring_sim rb (es ! j) cnt S (solo s j hs) (cw_fifos c ! j) \<Longrightarrow>
       ring_sim rb (es ! j) cnt S (solo (after_solo s p t) j hs) (cw_fifos c ! j)"
  shows "crowd_sim rb es cnt S (after_solo s p t) (c\<lparr>cw_fifos := (cw_fifos c)[i := f], cw_at := Suc p\<rparr>)"
proof -
  note sim = crowd_sim_facts [OF assms(1,2)]
  have d: "distinct (cw_live c)" using assms(2) by (simp add: crowd_ok_def)
  have i: "i < length es" using sim(10) [OF assms(3)] assms(4) by simp
  have "ring_sim rb (es ! (cw_live c ! q)) cnt S (solo (after_solo s p t) (cw_live c ! q) [(bi_iters (as_iter s))[p := h] ! q])
      ((cw_fifos c)[i := f] ! (cw_live c ! q))" if q: "q < length (cw_live c)" for q
  proof (cases "q = p")
    case True
    then show ?thesis using assms(3,4,6) i sim(4,7) by simp
  next
    case False
    then have "cw_live c ! q \<noteq> i" using d q assms(3,4) by (simp add: nth_eq_iff_index_eq)
    with assms(7) [OF sim(10) [OF q] this sim(11) [OF q]] False show ?thesis by simp
  qed
  moreover have "ring_sim rb (es ! j) cnt S (solo (after_solo s p t) j []) ((cw_fifos c)[i := f] ! j)"
    if "j < length es" "j \<notin> set (cw_live c)" for j
    using that assms(3,4,7) sim(12) by (cases "j = i") auto
  ultimately show ?thesis
    using after_solo_end(2) [OF assms(5), of s p] assms(3) sim unfolding crowd_sim_def by simp
qed

lemma crowd_sim_consumer:
  assumes "crowd_sim rb es cnt S s c" "crowd_ok cnt S c" "rings_lie_apart S cnt es" "2 \<le> cnt"
  shows "\<exists>t. assembly_consumer s = Inr t \<and> crowd_sim rb es cnt S t (crowd_consumer c)"
proof (cases "cw_live c = []")
  case True
  then show ?thesis using assms(1) by (auto simp: crowd_sim_def assembly_consumer_def crowd_consumer_def)
next
  case False
  define p where "p = crowd_pos c"
  define i where "i = cw_live c ! p"
  have p: "p < length (cw_live c)" using crowd_pos_less [OF assms(2) False] by (simp add: p_def)
  obtain t where t: "assembly_consumer s = Inr (after_solo s p t)"
    "ring_sim rb (es ! i) cnt S (solo (after_solo s p t) i (bi_iters (ss_iter t))) (fifo_consumer (cw_fifos c ! i))"
    and other: "\<And>j hs. j < length es \<Longrightarrow> j \<noteq> i \<Longrightarrow> ring_sim rb (es ! j) cnt S (solo s j hs) (cw_fifos c ! j) \<Longrightarrow>
       ring_sim rb (es ! j) cnt S (solo (after_solo s p t) j hs) (cw_fifos c ! j)"
    using crowd_consumer_ring [OF assms False p_def i_def] by blast
  show ?thesis
  proof (cases "ff_over (fifo_consumer (cw_fifos c ! i))")
    case True
    then have "bi_iters (ss_iter t) = []" using ring_sim_iters(1) [OF t(2)] by simp
    from crowd_sim_end [OF assms(1,2) p i_def this t(2) [unfolded this] other] t(1) True False show ?thesis
      by (simp add: crowd_consumer_def Let_def p_def i_def)
  next
    case over: False
    then obtain h where "bi_iters (ss_iter t) = [h]" using ring_sim_iters(2) [OF t(2)] by auto
    from crowd_sim_move [OF assms(1,2) p i_def this t(2) [unfolded this] other] t(1) over False show ?thesis
      by (simp add: crowd_consumer_def Let_def p_def i_def)
  qed
qed

lemma crowd_sim_start:
  assumes "map seg_offset (bh_entrySegments hdl) = es" "length chunkss = length es" "0 < cnt"
    and "\<forall>e \<in> set es. ring_fresh m rb e cnt (S + 24)"
  shows "crowd_sim rb es cnt S (assembly_start hdl rb m chunkss) (crowd_start chunkss)"
proof -
  let ?segs = "bh_entrySegments hdl"
  obtain hs im where r: "new_helpers rb ?segs \<lparr>im_mem = m, im_heap = []\<rparr> = (hs, im)"
    by (cases "new_helpers rb ?segs \<lparr>im_mem = m, im_heap = []\<rparr>")
  note H = new_helpers_list [OF r]
  have len: "length ?segs = length es" "length hs = length es" using assms(1) H by auto
  let ?s = "assembly_start hdl rb m chunkss"
  have s: "as_iter ?s = \<lparr>bi_iters = hs, bi_pointer = 0, bi_name = bh_name hdl, bi_lat = False, bi_rdmaBuffer = rb\<rparr>"
    "as_im ?s = im" "as_live ?s = [0..<length es]" "as_held ?s = replicate (length es) None"
    "as_out ?s = replicate (length es) []" "length (as_writers ?s) = length es"
    using r assms(2) len by (simp_all add: assembly_start_def getIterator_def newBufferIterator_def)
  have "ring_sim rb (es ! p) cnt S (solo ?s p [hs ! p]) (fifo_start (chunkss ! p))" if p: "p < length es" for p
  proof -
    have e: "seg_offset (?segs ! p) = es ! p" using assms(1) p len(1) by (metis nth_map)
    have w: "as_writers ?s ! p = \<lparr>rw_phase = Filling, rw_offset = es ! p, rw_next = 0, rw_used = 0,
        rw_header = get_header (im_mem im) (rb + es ! p), rw_todo = chunkss ! p\<rparr>"
      using r assms(2) len p e H by (simp add: assembly_start_def getIterator_def newBufferIterator_def)
    obtain i where i: "i < length (im_heap im)" "si_header (ih_prev (hs ! p)) = OnHeap i" "\<not> isEndSegment (im_heap im ! i)"
      "ih_iter (hs ! p) = newSegmentIterator (es ! p) rb"
      using H p len(1) e by auto
    show ?thesis
      using assms(3,4) p s w i H by (intro sim_fresh [where ih = "hs ! p" and i = i]) (simp_all add: newSegmentIterator_def)
  qed
  then show ?thesis
    using s assms(2) len(2) by (simp add: crowd_sim_def crowd_start_def)
qed

lemma crowd_channels:
  assumes "rings_lie_apart S cnt es" "2 \<le> cnt" "0 < S" "S < 2 ^ 64"
  shows "channels cnt S (crowd_sim rb es cnt S) (assembly_writer rb S) assembly_consumer as_out
    (\<lambda>s. map (bytes_at (as_im s)) (as_held s)) assembly_over"
proof
  show "2 \<le> cnt" "0 < S" by (fact assms)+
next
  fix s c i assume s: "crowd_sim rb es cnt S s c" "crowd_ok cnt S c"
  show "crowd_sim rb es cnt S (assembly_writer rb S i s) (crowd_writer cnt S i c)"
    using assms by (intro crowd_sim_writer [OF s]) simp_all
  show "\<exists>t. assembly_consumer s = Inr t \<and> crowd_sim rb es cnt S t (crowd_consumer c)"
    by (rule crowd_sim_consumer [OF s assms(1,2)])
  note sim = crowd_sim_facts [OF s]
  have "as_out s ! j = ff_out (cw_fifos c ! j) \<and> bytes_at (as_im s) (as_held s ! j) = held_block (cw_fifos c ! j)"
    if j: "j < length es" for j
  proof -
    obtain hs where r: "ring_sim rb (es ! j) cnt S (solo s j hs) (cw_fifos c ! j)" using crowd_sim_ring [OF s(1) j] by blast
    from sim_held [OF r sim(9) [OF j]] r show ?thesis
      by (simp add: held_bytes_solo held_block_def ring_sim_def)
  qed
  then have "as_out s = map ff_out (cw_fifos c)" "map (bytes_at (as_im s)) (as_held s) = map held_block (cw_fifos c)"
    using sim(2-4) by (auto intro: nth_equalityI)
  moreover have "assembly_over s \<longleftrightarrow> cw_live c = []" using sim(7) by (auto simp: assembly_over_def)
  ultimately show "as_out s = map ff_out (cw_fifos c) \<and> map (bytes_at (as_im s)) (as_held s) = map held_block (cw_fifos c) \<and>
      (assembly_over s \<longleftrightarrow> cw_live c = [])"
    by blast
qed

lemma assembly_started:
  assumes "map seg_offset (bh_entrySegments hdl) = es" "length chunkss = length es" "rings_lie_apart S cnt es"
    and "\<forall>e \<in> set es. ring_fresh m rb e cnt (S + 24)" "2 \<le> cnt" "0 < S" "S < 2 ^ 64"
  shows "channels cnt S (crowd_sim rb es cnt S) (assembly_writer rb S) assembly_consumer as_out
      (\<lambda>s. map (bytes_at (as_im s)) (as_held s)) assembly_over"
    "crowd_sim rb es cnt S (assembly_start hdl rb m chunkss) (crowd_start chunkss)" "crowd_ok cnt S (crowd_start chunkss)"
  using crowd_channels [OF assms(3,5-7)] crowd_sim_start [OF assms(1,2) _ assms(4)] crowd_start_ok [of cnt S] assms(5) by simp_all

text \<open>Two appenders, each with a ring of two segments with four bytes of payload.\<close>

interpretation two_appenders: channels 2 4 "crowd_sim 4096 [64, 120] 2 4" "assembly_writer 4096 4" assembly_consumer as_out
    "\<lambda>s. map (bytes_at (as_im s)) (as_held s)" assembly_over
  by (rule crowd_channels) (auto simp: rings_lie_apart_def apart_def nth_Cons split: nat.splits)

definition pair_handle :: BufferHandle where
  "pair_handle = (newBufferHandle ''b'' 1 2 2 4 BW)\<lparr>bh_entrySegments := [\<lparr>seg_offset = 64, seg_size = 4\<rparr>, \<lparr>seg_offset = 120, seg_size = 4\<rparr>]\<rparr>"

definition pair_mem :: mem where
  "pair_mem = write_ring 4096 120 2 28 (write_ring 4096 64 2 28 (\<lambda>_. 0))"

lemma pair_fresh: "\<forall>e \<in> set [64, 120]. ring_fresh pair_mem 4096 e 2 28"
proof -
  let ?m = "write_ring 4096 64 2 28 (\<lambda>_. 0)"
  have "ring_fresh pair_mem 4096 120 2 28"
    unfolding pair_mem_def by (rule write_ring_correct(1)) (simp_all add: seg_at_def)
  moreover have first: "ring_fresh ?m 4096 64 2 28" by (rule write_ring_correct(1)) (simp_all add: seg_at_def)
  have same: "pair_mem a = ?m a" if "a < 4096 + 120" for a
    unfolding pair_mem_def using that by (intro write_ring_correct(2)) (simp_all add: seg_at_def)
  have "get_header pair_mem (4096 + seg_at 64 28 i) = get_header ?m (4096 + seg_at 64 28 i)" if "i < 2" for i
    using that by (intro get_header_cong same) (auto simp: seg_at_def)
  then have "ring_fresh pair_mem 4096 64 2 28" using first by (simp add: ring_fresh_def ring_linked_def)
  ultimately show ?thesis by simp
qed

lemma pair_handle_entries [simp]:
  "bh_entrySegments pair_handle = [\<lparr>seg_offset = 64, seg_size = 4\<rparr>, \<lparr>seg_offset = 120, seg_size = 4\<rparr>]"
  by (simp add: pair_handle_def)

lemma pair_apart: "rings_lie_apart 4 2 [64, 120]"
  by (auto simp: rings_lie_apart_def apart_def nth_Cons split: nat.splits)

text \<open>Three turns in a circle.\<close>

definition in_circle :: "nat \<Rightarrow> turn" where
  "in_circle i = (if i mod 3 = 2 then Consumes else Writes (i mod 3))"

lemma in_circle_fair: "fair_to 2 in_circle"
proof -
  have mod: "(3 * m + r) mod 3 = r" if "r < 3" for m r :: nat using that by simp
  have "\<exists>k \<ge> m. in_circle k = Consumes" for m
    using mod [of 2 m] by (intro exI [of _ "3 * m + 2"]) (simp add: in_circle_def)
  moreover have "\<exists>k \<ge> m. in_circle k = Writes i" if "i < 2" for i m
    using mod [of i m] that by (intro exI [of _ "3 * m + i"]) (simp add: in_circle_def)
  ultimately show ?thesis by (simp add: fair_to_def)
qed

section \<open>Properties\<close>

text \<open>
  Claim C3. The rings of a buffer, if they have at least two segments each, implement one bounded channel per appender (with
  one segment they do not: \<open>single_segment_ring_loses\<close>). The rings are fresh and lie apart at the start. However the turns of any number of appenders and
  of the consumer are interleaved, no turn fails, and after any number of turns what the consumer has finished with, ring by
  ring, and the bytes of each segment it was handed and has not given back are those of the channels, and
  its iterator has ended exactly when all channels have. A ring's bytes are read when the next segment of that ring is
  asked for: however long the consumer is busy with other rings, its appender does not overwrite them.
\<close>

theorem rings_implement_channels:
  assumes "map seg_offset (bh_entrySegments hdl) = es" "length chunkss = length es" "rings_lie_apart S cnt es"
    and "\<forall>e \<in> set es. ring_fresh m rb e cnt (S + 24)" "2 \<le> cnt" "0 < S" "S < 2 ^ 64"
  shows "\<exists>t. turns_run (assembly_writer rb S) assembly_consumer sched n (assembly_start hdl rb m chunkss) = Inr t \<and>
    (let c = crowd_run cnt S sched n (crowd_start chunkss) in
     as_out t = map ff_out (cw_fifos c) \<and> map (bytes_at (as_im t)) (as_held t) = map held_block (cw_fifos c) \<and>
     (assembly_over t \<longleftrightarrow> cw_live c = []))"
proof -
  note start = assembly_started [OF assms]
  from channels.run_refines [OF start] obtain t where
    t: "turns_run (assembly_writer rb S) assembly_consumer sched n (assembly_start hdl rb m chunkss) = Inr t"
    "crowd_sim rb es cnt S t (crowd_run cnt S sched n (crowd_start chunkss))"
    by blast
  from channels.sim_view [OF start(1) t(2)] crowd_run_ok [OF start(3)] t(1) show ?thesis by (simp add: Let_def)
qed

theorem rings_implement_channels_witness:
  "\<exists>t. turns_run (assembly_writer 4096 4) assembly_consumer in_circle 20
      (assembly_start pair_handle 4096 pair_mem [[[1, 2, 3, 4, 5, 6]], [[7], [8, 9]]]) = Inr t \<and>
    (let c = crowd_run 2 4 in_circle 20 (crowd_start [[[1, 2, 3, 4, 5, 6]], [[7], [8, 9]]]) in
     as_out t = map ff_out (cw_fifos c) \<and> map (bytes_at (as_im t)) (as_held t) = map held_block (cw_fifos c) \<and>
     (assembly_over t \<longleftrightarrow> cw_live c = []))"
  by (rule rings_implement_channels [where es = "[64, 120]"]) (use pair_fresh pair_apart in simp_all)

text \<open>
  Claim C5. Appenders do not disturb each other or the consumer, if their rings have at least two segments each and are
  fresh and lie apart at the start (with one segment data is lost: \<open>single_segment_ring_loses\<close>). After any turns, for every appender, the bytes the consumer has
  finished with followed by those of the segment of this ring in its hands are a prefix of the stream that appender was
  given, and when the iterator has ended they are its whole stream.
\<close>

theorem appenders_undisturbed:
  assumes "map seg_offset (bh_entrySegments hdl) = es" "length chunkss = length es" "rings_lie_apart S cnt es"
    and "\<forall>e \<in> set es. ring_fresh m rb e cnt (S + 24)" "2 \<le> cnt" "0 < S" "S < 2 ^ 64"
    and "turns_run (assembly_writer rb S) assembly_consumer sched n (assembly_start hdl rb m chunkss) = Inr t"
  shows "if assembly_over t then as_out t = map concat chunkss
    else list_all2 prefix (map2 (@) (as_out t) (map (bytes_at (as_im t)) (as_held t))) (map concat chunkss)"
proof -
  note start = assembly_started [OF assms(1-7)]
  from channels.run_safe [OF start assms(8)] show ?thesis by simp
qed

theorem appenders_undisturbed_witness:
  "\<exists>t. turns_run (assembly_writer 4096 4) assembly_consumer in_circle 12
      (assembly_start pair_handle 4096 pair_mem [[[1, 2, 3, 4, 5, 6]], [[7], [8, 9]]]) = Inr t \<and>
    (if assembly_over t then as_out t = [[1, 2, 3, 4, 5, 6], [7, 8, 9]]
     else list_all2 prefix (map2 (@) (as_out t) (map (bytes_at (as_im t)) (as_held t))) [[1, 2, 3, 4, 5, 6], [7, 8, 9]])"
proof -
  have n: "map seg_offset (bh_entrySegments pair_handle) = [64, 120]"
    "length [[[1, 2, 3, 4, 5, 6]], [[7], [8, 9 :: byte]]] = length [64, 120 :: nat]" by simp_all
  have f: "\<forall>e \<in> set [64, 120]. ring_fresh pair_mem 4096 e 2 (4 + 24)" using pair_fresh by simp
  obtain t where t: "turns_run (assembly_writer 4096 4) assembly_consumer in_circle 12
      (assembly_start pair_handle 4096 pair_mem [[[1, 2, 3, 4, 5, 6]], [[7], [8, 9]]]) = Inr t"
    using two_appenders.run_refines assembly_started(2,3) [OF n pair_apart f] by fastforce
  from appenders_undisturbed [OF n pair_apart f _ _ _ t] have "if assembly_over t then as_out t = [[1, 2, 3, 4, 5, 6], [7, 8, 9]]
     else list_all2 prefix (map2 (@) (as_out t) (map (bytes_at (as_im t)) (as_held t))) [[1, 2, 3, 4, 5, 6], [7, 8, 9]]"
    by (simp cong: if_cong)
  with t show ?thesis by blast
qed

text \<open>
  Claim C4. Every appender's stream arrives, if the rings have at least two segments each and are fresh and lie apart at
  the start (with one segment data is lost: \<open>single_segment_ring_loses\<close>). Under every schedule that lets all appenders and the consumer run again and
  again, the consumer's iterator comes to its end after finitely many turns, and has then handed out exactly the
  stream of every appender, however uneven they are and however much longer than the rings. No ring is starved
  and nobody waits for ever.
\<close>

theorem all_streams_arrive:
  assumes "map seg_offset (bh_entrySegments hdl) = es" "length chunkss = length es" "rings_lie_apart S cnt es"
    and "\<forall>e \<in> set es. ring_fresh m rb e cnt (S + 24)" "2 \<le> cnt" "0 < S" "S < 2 ^ 64" "fair_to (length es) sched"
  shows "\<exists>n t. turns_run (assembly_writer rb S) assembly_consumer sched n (assembly_start hdl rb m chunkss) = Inr t \<and>
    assembly_over t \<and> as_out t = map concat chunkss"
proof -
  note start = assembly_started [OF assms(1-7)]
  have "fair_to (length (cw_fifos (crowd_start chunkss))) sched" using assms(2,8) by (simp add: crowd_start_def)
  from channels.run_delivers [OF start this] show ?thesis by simp
qed

theorem all_streams_arrive_witness:
  "\<exists>n t. turns_run (assembly_writer 4096 4) assembly_consumer in_circle n
      (assembly_start pair_handle 4096 pair_mem [[[1, 2, 3, 4, 5, 6, 7, 8, 9, 10]], [[7], [8, 9]]]) = Inr t \<and>
    assembly_over t \<and> as_out t = [[1, 2, 3, 4, 5, 6, 7, 8, 9, 10], [7, 8, 9]]"
proof -
  have "length [64, 120 :: nat] = 2" by simp
  then have fair: "fair_to (length [64, 120 :: nat]) in_circle" using in_circle_fair by (simp only:)
  show ?thesis
    using all_streams_arrive [OF _ _ pair_apart _ _ _ _ fair, of pair_handle "[[[1, 2, 3, 4, 5, 6, 7, 8, 9, 10]], [[7], [8, 9]]]" pair_mem 4096]
      pair_fresh by simp
qed

end
