(* ===== verification/Crowd_Session.thy ===== *)
theory Crowd_Session
  imports Cluster Crowd_Protocol
begin

text \<open>
  A buffer with several appenders from its registration to the last byte: the registry has the rings created on the
  node, the appenders join, the consumer retrieves the buffer, and then all of them work on the rings the node made.
\<close>

lemma blocks_lie_apart:
  assumes "blocks_apart req offs" "\<forall>off \<in> set offs. ring_made req base m off" "asq_segments_size req = S + 24"
    and "asq_segments_count req = cnt" "0 < cnt"
  shows "rings_lie_apart S cnt offs"
proof -
  have one: "apart S cnt a b" if "ring_block req a \<inter> ring_block req b = {}" "a \<in> set offs" "b \<in> set offs" for a b
  proof (rule ccontr)
    assume no: "\<not> apart S cnt a b"
    have "{x..<x + cnt * (S + 24)} \<subseteq> ring_block req x" if "x \<in> set offs" for x
      using assms(2-4) that by (auto simp: ring_block_def ring_made_def ring_bytes_def)
    moreover have "max a b \<in> {a..<a + cnt * (S + 24)} \<inter> {b..<b + cnt * (S + 24)}"
      using no assms(5) by (auto simp: apart_def max_def)
    ultimately show False using that by blast
  qed
  have ordered: "ring_block req (offs ! i) \<inter> ring_block req (offs ! j) = {}" if "i < j" "j < length offs" for i j
    using assms(1) that unfolding blocks_apart_def by (rule sorted_wrt_nth_less)
  have "apart S cnt (offs ! i) (offs ! j)" if "i < length offs" "j < length offs" "i \<noteq> j" for i j
    using ordered [of i j] ordered [of j i] that by (intro one) (auto simp: neq_iff Int_commute)
  then show ?thesis by (simp add: rings_lie_apart_def)
qed

lemma with_rings_offsets:
  "bh_entrySegments bh = [] \<Longrightarrow> map seg_offset (bh_entrySegments (with_rings bh offs)) = offs"
  by (simp add: with_rings_def o_def)

section \<open>Property\<close>

text \<open>
  Claim C1. A buffer shared by many, end to end, if its rings have at least two segments (with a single one, the default of
  \<open>DPI_Create_buffer\<close>, data is lost: \<open>single_segment_ring_loses\<close>): after the buffer was registered over the network on a node that
  has room for it, every appender that joins, as many as it was registered for, gets a ring of its own and the consumer
  retrieves the handle with all of them; when the appenders then write any chunks into the rings the node made, by the turns
  of the protocol's writer, and the consumer iterates over the buffer, under every schedule that lets all of them run
  again and again, the iterator comes to its end and the consumer has been handed exactly every appender's stream.
\<close>

theorem shared_buffer_delivers:
  assumes "registry_link N connected target NR cfg peer" and "node_link NR connectedR targetR V ncfg peerR"
    and "talks rcl g" and "connected g w" and "clients_of connected target (target g) w rcls"
    and "peer w (target g) = (r, wr)"
    and "reg_bufferHandles r (bh_name bh) = None" and "bh_entrySegments bh = []"
    and "Cluster.reaches cfg (bh_node_id bh) h (reg_client r)" and "connectedR h wr" and "peerR wr (targetR h) = (s, wn)"
    and "srv_manager s = ManagerRC m" and "mem_inv m" and "ring_request_ok (ring_request bh)"
    and "has_room (bh_numberOfWriters bh * ring_bytes (ring_request bh)) m" and "bh_numberOfWriters bh < 2 ^ 64"
    and "length rcls = bh_numberOfWriters bh" and "length chunkss = bh_numberOfWriters bh"
    and "cnt = asq_segments_count (ring_request bh)" and "2 \<le> cnt" and "0 < bh_segmentSizes bh"
    and "bh_segmentSizes bh + 24 < 2 ^ 64" and "fair_to (bh_numberOfWriters bh) sched"
  shows "\<exists>w1 w2 w3 hdl k t. client_registerBuffer N bh rcl w = Inr (True, rcl, w1) \<and>
    join_each N (bh_name bh) rcls w1 = Inr (map (\<lambda>i. Some (hdl\<lparr>bh_numberOfWriters := 1,
      bh_entrySegments := [bh_entrySegments hdl ! i]\<rparr>)) [0..<length rcls], w2) \<and>
    client_retrieveBuffer N (bh_name bh) rcl w2 = Inr (Some hdl, rcl, w3) \<and>
    turns_run (assembly_writer (buffer_base m) (bh_segmentSizes bh)) assembly_consumer sched k
      (assembly_start hdl (buffer_base m) (lmem (snd (peerR (snd (peer w3 (target g))) (targetR h)))) chunkss) = Inr t \<and>
    assembly_over t \<and> as_out t = map concat chunkss"
proof -
  let ?S = "bh_segmentSizes bh" and ?lm = "\<lambda>w3. lmem (snd (peerR (snd (peer w3 (target g))) (targetR h)))"
  obtain w1 w2 w3 offs where c: "client_registerBuffer N bh rcl w = Inr (True, rcl, w1)"
    "join_each N (bh_name bh) rcls w1 = Inr (map (ring_handle (with_rings bh offs)) [0..<length rcls], w2)"
    "client_retrieveBuffer N (bh_name bh) rcl w2 = Inr (Some (with_rings bh offs), rcl, w3)"
    "length offs = bh_numberOfWriters bh" "blocks_apart (ring_request bh) offs"
    "\<forall>off \<in> set offs. ring_made (ring_request bh) (buffer_base m) (?lm w3) off"
    using registered_joined_retrieved [OF assms(1-16)] by blast
  have sz: "asq_segments_size (ring_request bh) = ?S + 24" using assms(22) by (simp add: ring_request_def add64_small)
  have cnt: "0 < cnt" "?S < 2 ^ 64" using assms(20,22) by simp_all
  have fresh: "\<forall>off \<in> set offs. ring_fresh (?lm w3) (buffer_base m) off cnt (?S + 24)"
    using c(6) sz assms(19) by (simp add: ring_made_def)
  have apart: "rings_lie_apart ?S cnt offs" using blocks_lie_apart [OF c(5,6) sz assms(19) [symmetric] cnt(1)] .
  have len: "length chunkss = length offs" using assms(18) c(4) by simp
  note start = assembly_started [OF with_rings_offsets [OF assms(8)] len apart fresh assms(20,21) cnt(2)]
  have "fair_to (length (cw_fifos (crowd_start chunkss))) sched" using assms(18,23) by (simp add: crowd_start_def)
  from channels.run_delivers [OF start this] obtain k t where "turns_run (assembly_writer (buffer_base m) ?S) assembly_consumer sched k
      (assembly_start (with_rings bh offs) (buffer_base m) (?lm w3) chunkss) = Inr t" "assembly_over t" "as_out t = map concat chunkss"
    by auto
  moreover have "map (ring_handle (with_rings bh offs)) [0..<length rcls] = map (\<lambda>i. Some ((with_rings bh offs)\<lparr>bh_numberOfWriters := 1,
      bh_entrySegments := [bh_entrySegments (with_rings bh offs) ! i]\<rparr>)) [0..<length rcls]"
    using assms(8,17) c(4) by (simp add: ring_handle_def with_rings_def)
  ultimately show ?thesis using c(1-3) by (intro exI conjI) (auto simp del: map_eq_conv)
qed

text \<open>Two appenders on the small node.\<close>

theorem shared_buffer_delivers_witness:
  "\<exists>w1 w2 w3 hdl k t. client_registerBuffer small_registry_net (small_buffer 2) small_client small_client_world =
      Inr (True, small_client, w1) \<and>
    join_each small_registry_net ''b'' [small_client, small_client] w1 = Inr (map (\<lambda>i. Some (hdl\<lparr>bh_numberOfWriters := 1,
      bh_entrySegments := [bh_entrySegments hdl ! i]\<rparr>)) [0..<2], w2) \<and>
    client_retrieveBuffer small_registry_net ''b'' small_client w2 = Inr (Some hdl, small_client, w3) \<and>
    turns_run (assembly_writer 4096 1) assembly_consumer in_circle k
      (assembly_start hdl 4096 (lmem (snd (local_peer (snd (local_peer w3 0)) 0))) [[[1, 2, 3], [4]], [[5, 6]]]) = Inr t \<and>
    assembly_over t \<and> as_out t = [[1, 2, 3, 4], [5, 6]]"
proof -
  have room: "has_room (bh_numberOfWriters (small_buffer 2) * ring_bytes (ring_request (small_buffer 2))) small_manager"
    by (simp add: small_cluster del: small_ring_request)
  have fresh: "reg_bufferHandles wired_registry (bh_name (small_buffer 2)) = None" by (simp add: small_cluster)
  have node: "Cluster.reaches small_cfg (bh_node_id (small_buffer 2)) 1 (reg_client wired_registry)"
    using small_cluster(4) by simp
  have empty: "bh_entrySegments (small_buffer 2) = []" by simp
  have who: "clients_of (\<lambda>_ _. True) (\<lambda>_. 0) 0 small_client_world [small_client, small_client]"
    using small_cluster(1) by (auto simp: clients_of_def)
  have few: "bh_numberOfWriters (small_buffer 2) < 2 ^ 64" by simp
  have two: "length [small_client, small_client] = bh_numberOfWriters (small_buffer 2)"
    "length [[[1, 2, 3], [4 :: byte]], [[5, 6]]] = bh_numberOfWriters (small_buffer 2)"
    "2 = asq_segments_count (ring_request (small_buffer 2))" by simp_all
  have fair: "fair_to (bh_numberOfWriters (small_buffer 2)) in_circle" using in_circle_fair by simp
  have big: "2 \<le> (2 :: nat)" "0 < bh_segmentSizes (small_buffer 2)" "bh_segmentSizes (small_buffer 2) + 24 < 2 ^ 64" by simp_all
  note T = shared_buffer_delivers [OF local_registry.registry_link_axioms local_node.node_link_axioms small_cluster(1) TrueI
      who small_cluster(2) fresh empty node TrueI small_cluster(5,6) small_manager_inv small_cluster(7) room few two big fair]
  have n: "length [small_client, small_client] = 2" "buffer_base small_manager = 4096" "bh_segmentSizes (small_buffer 2) = 1" "bh_name (small_buffer 2) = ''b''"
    "map concat [[[1, 2, 3], [4 :: byte]], [[5, 6]]] = [[1, 2, 3, 4], [5, 6]]" by simp_all
  show ?thesis using T unfolding n .
qed

end
