(* ===== verification/Zmq_Wrapper.thy ===== *)
theory Zmq_Wrapper
  imports Proto "HOL-Library.Multiset"
begin

text \<open>
  The C++ classes that src/net/proto/zmq.hpp puts around libzmq: exceptions, messages, contexts, sockets and the
  monitor. libzmq itself is external: its functions are the fields of \<open>zmq_api\<close>.
\<close>

section \<open>The C functions\<close>

text \<open>
  Pointers are numbers with 0 for null; \<open>'g\<close> is the content of a \<open>zmq_msg_t\<close>, which functions that are given its address
  return changed. Every function returns its result and leaves its error number behind.
\<close>

record ('d, 'g) zmq_api =
  c_errno :: "'d world \<Rightarrow> int"
  c_strerror :: "int \<Rightarrow> string"
  c_version :: "int \<times> int \<times> int"
  c_poll :: "nat \<Rightarrow> int \<Rightarrow> int \<Rightarrow> 'd world \<Rightarrow> int \<times> 'd world"
  c_proxy :: "nat \<Rightarrow> nat \<Rightarrow> nat \<Rightarrow> 'd world \<Rightarrow> int \<times> 'd world"
  c_proxy_steerable :: "nat \<Rightarrow> nat \<Rightarrow> nat \<Rightarrow> nat \<Rightarrow> 'd world \<Rightarrow> int \<times> 'd world"
  c_msg_init :: "'d world \<Rightarrow> (int \<times> 'g) \<times> 'd world"
  c_msg_init_size :: "nat \<Rightarrow> 'd world \<Rightarrow> (int \<times> 'g) \<times> 'd world"
  c_msg_init_data :: "nat \<Rightarrow> nat \<Rightarrow> nat \<Rightarrow> nat \<Rightarrow> 'd world \<Rightarrow> (int \<times> 'g) \<times> 'd world"
  c_msg_close :: "'g \<Rightarrow> 'd world \<Rightarrow> (int \<times> 'g) \<times> 'd world"
  c_msg_move :: "'g \<Rightarrow> 'g \<Rightarrow> 'd world \<Rightarrow> (int \<times> 'g \<times> 'g) \<times> 'd world"
  c_msg_copy :: "'g \<Rightarrow> 'g \<Rightarrow> 'd world \<Rightarrow> (int \<times> 'g \<times> 'g) \<times> 'd world"
  c_msg_more :: "'g \<Rightarrow> int"
  c_msg_data :: "'g \<Rightarrow> nat"
  c_msg_size :: "'g \<Rightarrow> nat"
  c_msg_send :: "'g \<Rightarrow> nat \<Rightarrow> int \<Rightarrow> 'd world \<Rightarrow> (int \<times> 'g) \<times> 'd world"
  c_msg_recv :: "'g \<Rightarrow> nat \<Rightarrow> int \<Rightarrow> 'd world \<Rightarrow> (int \<times> 'g) \<times> 'd world"
  c_recvmsg :: "nat \<Rightarrow> 'g \<Rightarrow> int \<Rightarrow> 'd world \<Rightarrow> (int \<times> 'g) \<times> 'd world"
  c_send :: "nat \<Rightarrow> nat \<Rightarrow> nat \<Rightarrow> int \<Rightarrow> 'd world \<Rightarrow> int \<times> 'd world"
  c_recv :: "nat \<Rightarrow> nat \<Rightarrow> nat \<Rightarrow> int \<Rightarrow> 'd world \<Rightarrow> int \<times> 'd world"
  c_ctx_new :: "'d world \<Rightarrow> nat \<times> 'd world"
  c_ctx_set :: "nat \<Rightarrow> int \<Rightarrow> int \<Rightarrow> 'd world \<Rightarrow> int \<times> 'd world"
  c_ctx_destroy :: "nat \<Rightarrow> 'd world \<Rightarrow> int \<times> 'd world"
  c_socket :: "nat \<Rightarrow> int \<Rightarrow> 'd world \<Rightarrow> nat \<times> 'd world"
  c_close :: "nat \<Rightarrow> 'd world \<Rightarrow> int \<times> 'd world"
  c_setsockopt :: "nat \<Rightarrow> int \<Rightarrow> nat \<Rightarrow> nat \<Rightarrow> 'd world \<Rightarrow> int \<times> 'd world"
  c_getsockopt :: "nat \<Rightarrow> int \<Rightarrow> nat \<Rightarrow> nat \<Rightarrow> 'd world \<Rightarrow> int \<times> 'd world"
  c_bind :: "nat \<Rightarrow> string \<Rightarrow> 'd world \<Rightarrow> int \<times> 'd world"
  c_unbind :: "nat \<Rightarrow> string \<Rightarrow> 'd world \<Rightarrow> int \<times> 'd world"
  c_connect :: "nat \<Rightarrow> string \<Rightarrow> 'd world \<Rightarrow> int \<times> 'd world"
  c_disconnect :: "nat \<Rightarrow> string \<Rightarrow> 'd world \<Rightarrow> int \<times> 'd world"
  c_socket_monitor :: "nat \<Rightarrow> string option \<Rightarrow> int \<Rightarrow> 'd world \<Rightarrow> int \<times> 'd world"

section \<open>Exceptions\<close>

text \<open>\<open>ErrorT\<close> is an exception \<open>error_t\<close> with its number, \<open>AssertFailed\<close> an assertion that does not hold, which aborts.\<close>

datatype zmq_fault = ErrorT (error_num: int) | AssertFailed

type_synonym 'a zres = "zmq_fault + 'a"

definition new_error_t :: "('d, 'g) zmq_api \<Rightarrow> 'd world \<Rightarrow> zmq_fault" where
  "new_error_t A w = ErrorT (c_errno A w)"

definition error_what :: "('d, 'g) zmq_api \<Rightarrow> int \<Rightarrow> string" where
  "error_what A errnum = c_strerror A errnum"

text \<open>\<open>if (rc != 0) throw error_t()\<close> and \<open>ZMQ_ASSERT(rc == 0)\<close>.\<close>

definition z_check :: "('d, 'g) zmq_api \<Rightarrow> int \<Rightarrow> 'a \<Rightarrow> 'd world \<Rightarrow> 'a zres" where
  "z_check A r x w = (if r \<noteq> 0 then Inl (new_error_t A w) else Inr x)"

definition ZMQ_ASSERT :: "bool \<Rightarrow> 'a \<Rightarrow> 'a zres" where
  "ZMQ_ASSERT ok x = (if ok then Inr x else Inl AssertFailed)"

definition call_checked :: "('d, 'g) zmq_api \<Rightarrow> int \<times> 'd world \<Rightarrow> unit zres \<times> 'd world" where
  "call_checked A = (\<lambda>(r, w). (z_check A r () w, w))"

abbreviation (input) EAGAIN :: int where
  "EAGAIN \<equiv> 11"

section \<open>Free functions\<close>

definition z_poll :: "('d, 'g) zmq_api \<Rightarrow> nat \<Rightarrow> int \<Rightarrow> int \<Rightarrow> 'd world \<Rightarrow> int zres \<times> 'd world" where
  "z_poll A items nitems timeout w =
     (case c_poll A items nitems timeout w of (r, w) \<Rightarrow> (if r < 0 then Inl (new_error_t A w) else Inr r, w))"

definition z_poll_forever where
  "z_poll_forever A items nitems w = z_poll A items (int32_of nitems) (- 1) w"

definition z_poll_for where
  "z_poll_for A items nitems timeout w = z_poll A items (int32_of nitems) timeout w"

text \<open>A vector of items is its address and its size.\<close>

definition z_poll_vector :: "('d, 'g) zmq_api \<Rightarrow> nat \<times> nat \<Rightarrow> int \<Rightarrow> 'd world \<Rightarrow> int zres \<times> 'd world" where
  "z_poll_vector A items timeout w = z_poll A (fst items) (int32_of (snd items)) timeout w"

definition z_proxy :: "('d, 'g) zmq_api \<Rightarrow> nat \<Rightarrow> nat \<Rightarrow> nat \<Rightarrow> 'd world \<Rightarrow> unit zres \<times> 'd world" where
  "z_proxy A frontend backend capture w = call_checked A (c_proxy A frontend backend capture w)"

definition z_proxy_steerable ::
  "('d, 'g) zmq_api \<Rightarrow> nat \<Rightarrow> nat \<Rightarrow> nat \<Rightarrow> nat \<Rightarrow> 'd world \<Rightarrow> unit zres \<times> 'd world" where
  "z_proxy_steerable A frontend backend capture control w =
     call_checked A (c_proxy_steerable A frontend backend capture control w)"

definition z_version :: "('d, 'g) zmq_api \<Rightarrow> int \<times> int \<times> int" where
  "z_version A = c_version A"

section \<open>message_t\<close>

text \<open>
  An object is its \<open>zmq_msg_t\<close>. A constructor that throws leaves no object behind, the other functions return the object
  as it is after them, exception or not.
\<close>

definition ctor :: "('d, 'g) zmq_api \<Rightarrow> (int \<times> 'g) \<times> 'd world \<Rightarrow> 'g zres \<times> 'd world" where
  "ctor A = (\<lambda>((r, g), w). (z_check A r g w, w))"

definition message_new :: "('d, 'g) zmq_api \<Rightarrow> 'd world \<Rightarrow> 'g zres \<times> 'd world" where
  "message_new A w = ctor A (c_msg_init A w)"

definition message_sized :: "('d, 'g) zmq_api \<Rightarrow> nat \<Rightarrow> 'd world \<Rightarrow> 'g zres \<times> 'd world" where
  "message_sized A n w = ctor A (c_msg_init_size A n w)"

text \<open>The elements of a range are byte lists; the message is given the number of elements, not of bytes.\<close>

definition message_range :: "('d, 'g) zmq_api \<Rightarrow> byte list list \<Rightarrow> 'd world \<Rightarrow> 'g zres \<times> 'd world" where
  "message_range A elems w =
     (case c_msg_init_size A (length elems) w of ((r, g), w) \<Rightarrow>
        if r \<noteq> 0 then (Inl (new_error_t A w), w)
        else (Inr g, w\<lparr>lmem := mem_write (lmem w) (c_msg_data A g) (concat elems)\<rparr>))"

definition message_of_data :: "('d, 'g) zmq_api \<Rightarrow> nat \<Rightarrow> nat \<Rightarrow> nat \<Rightarrow> nat \<Rightarrow> 'd world \<Rightarrow> 'g zres \<times> 'd world" where
  "message_of_data A dat sz ffn hint w = ctor A (c_msg_init_data A dat sz ffn hint w)"

text \<open>Moving: the new object takes the struct over, the old one is initialised again; and the swap of move assignment.\<close>

definition message_move_new :: "('d, 'g) zmq_api \<Rightarrow> 'g \<Rightarrow> 'd world \<Rightarrow> ('g \<times> 'g) zres \<times> 'd world" where
  "message_move_new A rhs w = (case c_msg_init A w of ((r, g), w) \<Rightarrow> (z_check A r (rhs, g) w, w))"

definition message_swap :: "'g \<Rightarrow> 'g \<Rightarrow> 'g \<times> 'g" where
  "message_swap g rhs = (rhs, g)"

definition message_destruct :: "('d, 'g) zmq_api \<Rightarrow> 'g \<Rightarrow> 'd world \<Rightarrow> unit zres \<times> 'd world" where
  "message_destruct A g w = (case c_msg_close A g w of ((r, g), w) \<Rightarrow> (ZMQ_ASSERT (r = 0) (), w))"

text \<open>\<open>rebuild\<close> closes the message and initialises it anew, in one of three ways.\<close>

definition message_rebuild_by ::
  "('d world \<Rightarrow> (int \<times> 'g) \<times> 'd world) \<Rightarrow> ('d, 'g) zmq_api \<Rightarrow> 'g \<Rightarrow> 'd world \<Rightarrow> unit zres \<times> 'g \<times> 'd world" where
  "message_rebuild_by init A g w =
     (case c_msg_close A g w of ((r, g), w) \<Rightarrow>
        if r \<noteq> 0 then (Inl (new_error_t A w), g, w)
        else case init w of ((r, g), w) \<Rightarrow> (z_check A r () w, g, w))"

definition message_rebuild where
  "message_rebuild A g w = message_rebuild_by (c_msg_init A) A g w"

definition message_rebuild_sized where
  "message_rebuild_sized A n g w = message_rebuild_by (c_msg_init_size A n) A g w"

definition message_rebuild_data where
  "message_rebuild_data A dat sz ffn hint g w = message_rebuild_by (c_msg_init_data A dat sz ffn hint) A g w"

definition message_move :: "('d, 'g) zmq_api \<Rightarrow> 'g \<Rightarrow> 'g \<Rightarrow> 'd world \<Rightarrow> unit zres \<times> 'g \<times> 'g \<times> 'd world" where
  "message_move A g src w = (case c_msg_move A g src w of ((r, g, src), w) \<Rightarrow> (z_check A r () w, g, src, w))"

definition message_copy :: "('d, 'g) zmq_api \<Rightarrow> 'g \<Rightarrow> 'g \<Rightarrow> 'd world \<Rightarrow> unit zres \<times> 'g \<times> 'g \<times> 'd world" where
  "message_copy A g src w = (case c_msg_copy A g src w of ((r, g, src), w) \<Rightarrow> (z_check A r () w, g, src, w))"

definition message_more :: "('d, 'g) zmq_api \<Rightarrow> 'g \<Rightarrow> bool" where
  "message_more A g \<longleftrightarrow> c_msg_more A g \<noteq> 0"

definition message_data :: "('d, 'g) zmq_api \<Rightarrow> 'g \<Rightarrow> nat" where
  "message_data A g = c_msg_data A g"

definition message_size :: "('d, 'g) zmq_api \<Rightarrow> 'g \<Rightarrow> nat" where
  "message_size A g = c_msg_size A g"

section \<open>context_t\<close>

text \<open>An object is its pointer.\<close>

definition context_new :: "('d, 'g) zmq_api \<Rightarrow> 'd world \<Rightarrow> nat zres \<times> 'd world" where
  "context_new A w = (case c_ctx_new A w of (p, w) \<Rightarrow> (if p = 0 then Inl (new_error_t A w) else Inr p, w))"

definition context_with :: "('d, 'g) zmq_api \<Rightarrow> int \<Rightarrow> int \<Rightarrow> 'd world \<Rightarrow> nat zres \<times> 'd world" where
  "context_with A io_threads max_sockets w =
     (case c_ctx_new A w of (p, w) \<Rightarrow>
        if p = 0 then (Inl (new_error_t A w), w)
        else case c_ctx_set A p 1 io_threads w of (r, w) \<Rightarrow>
          if r \<noteq> 0 then (Inl AssertFailed, w)
          else case c_ctx_set A p 2 max_sockets w of (r, w) \<Rightarrow> (ZMQ_ASSERT (r = 0) p, w))"

definition context_move_new :: "nat \<Rightarrow> nat \<times> nat" where
  "context_move_new rhs = (rhs, 0)"

definition context_swap :: "nat \<Rightarrow> nat \<Rightarrow> nat \<times> nat" where
  "context_swap p rhs = (rhs, p)"

definition context_close :: "('d, 'g) zmq_api \<Rightarrow> nat \<Rightarrow> 'd world \<Rightarrow> nat zres \<times> 'd world" where
  "context_close A p w =
     (if p = 0 then (Inr p, w)
      else case c_ctx_destroy A p w of (r, w) \<Rightarrow> (ZMQ_ASSERT (r = 0) 0, w))"

definition context_destruct :: "('d, 'g) zmq_api \<Rightarrow> nat \<Rightarrow> 'd world \<Rightarrow> unit zres \<times> 'd world" where
  "context_destruct A p w = map_prod (map_sum id (\<lambda>_. ())) id (context_close A p w)"

definition context_handle :: "nat \<Rightarrow> nat" where
  "context_handle p = p"

section \<open>socket_t\<close>

datatype socket_type = type_req | type_rep | type_dealer | type_router | type_pub | type_sub | type_xpub | type_xsub |
  type_push | type_pull | type_pair | type_stream

definition socket_type_code :: "socket_type \<Rightarrow> int" where
  "socket_type_code t =
     (case t of type_pair \<Rightarrow> 0 | type_pub \<Rightarrow> 1 | type_sub \<Rightarrow> 2 | type_req \<Rightarrow> 3 | type_rep \<Rightarrow> 4 | type_dealer \<Rightarrow> 5
      | type_router \<Rightarrow> 6 | type_pull \<Rightarrow> 7 | type_push \<Rightarrow> 8 | type_xpub \<Rightarrow> 9 | type_xsub \<Rightarrow> 10 | type_stream \<Rightarrow> 11)"

record socket_t =
  so_ptr :: nat
  so_ctxptr :: nat

definition socket_init :: "('d, 'g) zmq_api \<Rightarrow> nat \<Rightarrow> int \<Rightarrow> 'd world \<Rightarrow> socket_t zres \<times> 'd world" where
  "socket_init A context type w =
     (case c_socket A context type w of (p, w) \<Rightarrow>
        (if p = 0 then Inl (new_error_t A w) else Inr \<lparr>so_ptr = p, so_ctxptr = context\<rparr>, w))"

definition socket_new where
  "socket_new A context type w = socket_init A context type w"

definition socket_new_typed where
  "socket_new_typed A context type w = socket_init A context (socket_type_code type) w"

text \<open>
  The move constructor takes the pointer and sets the other object's to null; the new object's \<open>ctxptr\<close> is not
  initialised and has the value \<open>garbage\<close>. The move assignment swaps the pointers only.
\<close>

definition socket_move_new :: "nat \<Rightarrow> socket_t \<Rightarrow> socket_t \<times> socket_t" where
  "socket_move_new garbage rhs = (\<lparr>so_ptr = so_ptr rhs, so_ctxptr = garbage\<rparr>, rhs\<lparr>so_ptr := 0\<rparr>)"

definition socket_swap :: "socket_t \<Rightarrow> socket_t \<Rightarrow> socket_t \<times> socket_t" where
  "socket_swap s rhs = (s\<lparr>so_ptr := so_ptr rhs\<rparr>, rhs\<lparr>so_ptr := so_ptr s\<rparr>)"

definition socket_handle :: "socket_t \<Rightarrow> nat" where
  "socket_handle s = so_ptr s"

definition socket_close :: "('d, 'g) zmq_api \<Rightarrow> socket_t \<Rightarrow> 'd world \<Rightarrow> socket_t zres \<times> 'd world" where
  "socket_close A s w =
     (if so_ptr s = 0 then (Inr s, w)
      else case c_close A (so_ptr s) w of (r, w) \<Rightarrow> (ZMQ_ASSERT (r = 0) (s\<lparr>so_ptr := 0\<rparr>), w))"

definition socket_destruct :: "('d, 'g) zmq_api \<Rightarrow> socket_t \<Rightarrow> 'd world \<Rightarrow> unit zres \<times> 'd world" where
  "socket_destruct A s w = map_prod (map_sum id (\<lambda>_. ())) id (socket_close A s w)"

definition socket_setsockopt ::
  "('d, 'g) zmq_api \<Rightarrow> int \<Rightarrow> nat \<Rightarrow> nat \<Rightarrow> socket_t \<Rightarrow> 'd world \<Rightarrow> unit zres \<times> 'd world" where
  "socket_setsockopt A option optval optvallen s w = call_checked A (c_setsockopt A (so_ptr s) option optval optvallen w)"

text \<open>The templates: a reference to a value of \<open>sz\<close> bytes at \<open>optval\<close>, and two local variables at \<open>frame\<close>.\<close>

definition socket_setsockopt_T where
  "socket_setsockopt_T A sz option optval s w = socket_setsockopt A option optval sz s w"

definition socket_getsockopt ::
  "('d, 'g) zmq_api \<Rightarrow> int \<Rightarrow> nat \<Rightarrow> nat \<Rightarrow> socket_t \<Rightarrow> 'd world \<Rightarrow> unit zres \<times> 'd world" where
  "socket_getsockopt A option optval optvallen s w = call_checked A (c_getsockopt A (so_ptr s) option optval optvallen w)"

definition socket_getsockopt_T ::
  "('d, 'g) zmq_api \<Rightarrow> nat \<Rightarrow> nat \<Rightarrow> int \<Rightarrow> socket_t \<Rightarrow> 'd world \<Rightarrow> byte list zres \<times> 'd world" where
  "socket_getsockopt_T A sz frame option s w =
     (case socket_getsockopt A option frame (frame + sz) s (w\<lparr>lmem := store64 (lmem w) (frame + sz) sz\<rparr>) of
        (Inl e, w) \<Rightarrow> (Inl e, w)
      | (Inr _, w) \<Rightarrow> (Inr (mem_read (lmem w) frame sz), w))"

definition socket_bind :: "('d, 'g) zmq_api \<Rightarrow> string \<Rightarrow> socket_t \<Rightarrow> 'd world \<Rightarrow> unit zres \<times> 'd world" where
  "socket_bind A addr s w = call_checked A (c_bind A (so_ptr s) addr w)"

definition socket_unbind :: "('d, 'g) zmq_api \<Rightarrow> string \<Rightarrow> socket_t \<Rightarrow> 'd world \<Rightarrow> unit zres \<times> 'd world" where
  "socket_unbind A addr s w = call_checked A (c_unbind A (so_ptr s) addr w)"

definition socket_connect :: "('d, 'g) zmq_api \<Rightarrow> string \<Rightarrow> socket_t \<Rightarrow> 'd world \<Rightarrow> unit zres \<times> 'd world" where
  "socket_connect A addr s w = call_checked A (c_connect A (so_ptr s) addr w)"

definition socket_disconnect :: "('d, 'g) zmq_api \<Rightarrow> string \<Rightarrow> socket_t \<Rightarrow> 'd world \<Rightarrow> unit zres \<times> 'd world" where
  "socket_disconnect A addr s w = call_checked A (c_disconnect A (so_ptr s) addr w)"

definition socket_connected :: "socket_t \<Rightarrow> bool" where
  "socket_connected s \<longleftrightarrow> so_ptr s \<noteq> 0"

text \<open>Sending and receiving: \<open>EAGAIN\<close> is no exception. The functions on buffers return 0 for it.\<close>

definition socket_transfer :: "('d, 'g) zmq_api \<Rightarrow> int \<Rightarrow> 'a \<Rightarrow> 'a \<Rightarrow> 'd world \<Rightarrow> 'a zres" where
  "socket_transfer A nbytes done again w =
     (if nbytes \<ge> 0 then Inr done else if c_errno A w = EAGAIN then Inr again else Inl (new_error_t A w))"

definition socket_send_buffer ::
  "('d, 'g) zmq_api \<Rightarrow> nat \<Rightarrow> nat \<Rightarrow> int \<Rightarrow> socket_t \<Rightarrow> 'd world \<Rightarrow> nat zres \<times> 'd world" where
  "socket_send_buffer A buf len flags s w =
     (case c_send A (so_ptr s) buf len flags w of (nbytes, w) \<Rightarrow> (socket_transfer A nbytes (nat nbytes) 0 w, w))"

definition socket_send :: "('d, 'g) zmq_api \<Rightarrow> 'g \<Rightarrow> int \<Rightarrow> socket_t \<Rightarrow> 'd world \<Rightarrow> bool zres \<times> 'g \<times> 'd world" where
  "socket_send A g flags s w =
     (case c_msg_send A g (so_ptr s) flags w of ((nbytes, g), w) \<Rightarrow> (socket_transfer A nbytes True False w, g, w))"

definition socket_send_moved where
  "socket_send_moved A g flags s w = socket_send A g flags s w"

text \<open>The message of a range is destroyed when the function is left, by return or exception.\<close>

definition scoped :: "('d, 'g) zmq_api \<Rightarrow> 'a zres \<times> 'g \<times> 'd world \<Rightarrow> 'a zres \<times> 'd world" where
  "scoped A = (\<lambda>(x, g, w). case message_destruct A g w of (Inl f, w) \<Rightarrow> (Inl f, w) | (Inr _, w) \<Rightarrow> (x, w))"

definition socket_send_range ::
  "('d, 'g) zmq_api \<Rightarrow> byte list list \<Rightarrow> int \<Rightarrow> socket_t \<Rightarrow> 'd world \<Rightarrow> bool zres \<times> 'd world" where
  "socket_send_range A elems flags s w =
     (case message_range A elems w of (Inl f, w) \<Rightarrow> (Inl f, w)
      | (Inr g, w) \<Rightarrow> scoped A (socket_send A g flags s w))"

definition socket_recv_buffer ::
  "('d, 'g) zmq_api \<Rightarrow> nat \<Rightarrow> nat \<Rightarrow> int \<Rightarrow> socket_t \<Rightarrow> 'd world \<Rightarrow> nat zres \<times> 'd world" where
  "socket_recv_buffer A buf len flags s w =
     (case c_recv A (so_ptr s) buf len flags w of (nbytes, w) \<Rightarrow> (socket_transfer A nbytes (nat nbytes) 0 w, w))"

definition socket_recv :: "('d, 'g) zmq_api \<Rightarrow> 'g \<Rightarrow> int \<Rightarrow> socket_t \<Rightarrow> 'd world \<Rightarrow> bool zres \<times> 'g \<times> 'd world" where
  "socket_recv A g flags s w =
     (case c_msg_recv A g (so_ptr s) flags w of ((nbytes, g), w) \<Rightarrow> (socket_transfer A nbytes True False w, g, w))"

section \<open>monitor_t\<close>

datatype monitor_call = on_monitor_started | on_event_connected | on_event_connect_delayed | on_event_connect_retried |
  on_event_listening | on_event_bind_failed | on_event_accepted | on_event_accept_failed | on_event_closed |
  on_event_close_failed | on_event_disconnected | on_event_unknown

text \<open>The \<open>switch\<close> over the event number.\<close>

definition monitor_dispatch :: "nat \<Rightarrow> monitor_call" where
  "monitor_dispatch event =
     (if event = 1 then on_event_connected
      else if event = 2 then on_event_connect_delayed
      else if event = 4 then on_event_connect_retried
      else if event = 8 then on_event_listening
      else if event = 16 then on_event_bind_failed
      else if event = 32 then on_event_accepted
      else if event = 64 then on_event_accept_failed
      else if event = 128 then on_event_closed
      else if event = 256 then on_event_close_failed
      else if event = 512 then on_event_disconnected
      else on_event_unknown)"

abbreviation (input) ZMQ_EVENT_MONITOR_STOPPED :: nat where
  "ZMQ_EVENT_MONITOR_STOPPED \<equiv> 1024"

abbreviation (input) ETERM_num :: int where
  "ETERM_num \<equiv> 156384765"

text \<open>
  One round of the loop of \<open>monitor\<close> on the pair socket \<open>p\<close>: whether it goes on, and the call of a virtual function with
  the event's number and value and the address, if it comes to one.
\<close>

definition monitor_round ::
  "('d, 'g) zmq_api \<Rightarrow> nat \<Rightarrow> 'd world \<Rightarrow> (bool \<times> (monitor_call \<times> nat \<times> int \<times> byte list) option) zres \<times> 'd world" where
  "monitor_round A p w =
     (case c_msg_init A w of ((_, g), w) \<Rightarrow>
      case c_recvmsg A p g 0 w of ((r, g), w) \<Rightarrow>
      if r = -1 \<and> c_errno A w = ETERM_num then (Inr (False, None), w)
      else if r = -1 then (Inl AssertFailed, w)
      else
        let data = c_msg_data A g; event = le_nat (mem_read (lmem w) data 2);
            value = int32_of (le_nat (mem_read (lmem w) (data + 2) 4)) in
        case c_msg_init A w of ((_, ga), w) \<Rightarrow>
        case c_recvmsg A p ga 0 w of ((r, ga), w) \<Rightarrow>
        if r = -1 \<and> c_errno A w = ETERM_num then (Inr (False, None), w)
        else if r = -1 then (Inl AssertFailed, w)
        else
          let address = mem_read (lmem w) (c_msg_data A ga) (c_msg_size A ga) in
          case c_msg_close A ga w of (_, w) \<Rightarrow>
          if event = ZMQ_EVENT_MONITOR_STOPPED then (Inr (False, None), w)
          else case c_msg_close A g w of (_, w) \<Rightarrow>
            (Inr (True, Some (monitor_dispatch event, event, value, address)), w))"

type_synonym monitor_log = "(monitor_call \<times> nat \<times> int \<times> byte list) list"

text \<open>The object is the pointer \<open>socketPtr\<close> and the calls made.\<close>

record monitor_t =
  mo_socketPtr :: nat
  mo_calls :: monitor_log

definition monitor_new :: monitor_t where
  "monitor_new = \<lparr>mo_socketPtr = 0, mo_calls = []\<rparr>"

definition monitor_loop ::
  "('d, 'g) zmq_api \<Rightarrow> nat \<Rightarrow> monitor_t \<Rightarrow> 'd world \<Rightarrow> (unit zres \<times> monitor_t \<times> 'd world) result" where
  "monitor_loop A p mo w =
     bindR (loopR (\<lambda>(x, mo, w). x = Inr True) (\<lambda>(x, mo, w).
         Inr (case monitor_round A p w of
                (Inl f, w) \<Rightarrow> (Inl f, mo, w)
              | (Inr (go, call), w) \<Rightarrow>
                  (Inr go, mo\<lparr>mo_calls := mo_calls mo @ (case call of None \<Rightarrow> [] | Some x \<Rightarrow> [x])\<rparr>, w))) (Inr True, mo, w))
       (\<lambda>(x, mo, w). Inr (map_sum id (\<lambda>_. ()) x, mo, w))"

definition monitor_run ::
  "('d, 'g) zmq_api \<Rightarrow> socket_t \<Rightarrow> string \<Rightarrow> int \<Rightarrow> monitor_t \<Rightarrow> 'd world \<Rightarrow> (unit zres \<times> monitor_t \<times> 'd world) result" where
  "monitor_run A s addr events mo w =
     (case c_socket_monitor A (so_ptr s) (Some addr) events w of (r, w) \<Rightarrow>
      if r \<noteq> 0 then Inr (Inl (new_error_t A w), mo, w)
      else
        let mo = mo\<lparr>mo_socketPtr := so_ptr s\<rparr> in
        case c_socket A (so_ctxptr s) 0 w of (p, w) \<Rightarrow>
        if p = 0 then Inr (Inl AssertFailed, mo, w)
        else case c_connect A p addr w of (r, w) \<Rightarrow>
        if r \<noteq> 0 then Inr (Inl AssertFailed, mo, w)
        else
          bindR (monitor_loop A p (mo\<lparr>mo_calls := mo_calls mo @ [(on_monitor_started, 0, 0, [])]\<rparr>) w) (\<lambda>(x, mo, w).
          case x of Inl f \<Rightarrow> Inr (Inl f, mo, w)
          | Inr _ \<Rightarrow> (case c_close A p w of (_, w) \<Rightarrow> Inr (Inr (), mo\<lparr>mo_socketPtr := 0\<rparr>, w))))"

definition monitor_abort :: "('d, 'g) zmq_api \<Rightarrow> monitor_t \<Rightarrow> 'd world \<Rightarrow> 'd world" where
  "monitor_abort A mo w =
     (if mo_socketPtr mo \<noteq> 0 then snd (c_socket_monitor A (mo_socketPtr mo) None 0 w) else w)"

text \<open>
  \<open>monitor\<close> calls one virtual function per event, in the order of the events, until a round of the loop leaves it:
  \<open>monitor_trace\<close> collects the calls of the rounds.
\<close>

inductive monitor_trace :: "('d, 'g) zmq_api \<Rightarrow> nat \<Rightarrow> 'd world \<Rightarrow> monitor_log \<Rightarrow> 'd world \<Rightarrow> bool" for A p where
  trace_end: "monitor_round A p w = (Inr (False, None), w') \<Longrightarrow> monitor_trace A p w [] w'"
| trace_event: "monitor_round A p w = (Inr (True, Some c), w1) \<Longrightarrow> monitor_trace A p w1 cs w' \<Longrightarrow>
    monitor_trace A p w (c # cs) w'"

lemma monitor_loop_event:
  assumes "monitor_round A p w = (Inr (True, Some c), w1)"
  shows "monitor_loop A p mo w = monitor_loop A p (mo\<lparr>mo_calls := mo_calls mo @ [c]\<rparr>) w1"
  by (simp add: monitor_loop_def loopR_unfold [of _ _ "(Inr True, mo, w)"] assms)

lemma monitor_loop_ends:
  assumes "monitor_round A p w = (Inr (False, None), w1)"
  shows "monitor_loop A p mo w = Inr (Inr (), mo, w1)"
  by (simp add: monitor_loop_def loopR_unfold [of _ _ "(Inr True, mo, w)"] loopR_unfold [of _ _ "(Inr False, mo, w1)"] assms)

lemma monitor_loop_trace:
  "monitor_trace A p w cs w' \<Longrightarrow> monitor_loop A p mo w = Inr (Inr (), mo\<lparr>mo_calls := mo_calls mo @ cs\<rparr>, w')"
  by (induction arbitrary: mo rule: monitor_trace.induct) (simp_all add: monitor_loop_ends monitor_loop_event)

lemma monitor_run_trace:
  assumes "c_socket_monitor A (so_ptr s) (Some addr) events w = (0, w1)" "c_socket A (so_ctxptr s) 0 w1 = (p, w2)" "p \<noteq> 0"
    and "c_connect A p addr w2 = (0, w3)" "monitor_trace A p w3 cs w4" "c_close A p w4 = (r, w5)"
  shows "monitor_run A s addr events monitor_new w =
    Inr (Inr (), \<lparr>mo_socketPtr = 0, mo_calls = (on_monitor_started, 0, 0, []) # cs\<rparr>, w5)"
  using assms by (simp add: monitor_run_def Let_def monitor_new_def monitor_loop_trace [OF assms(5)])

text \<open>On a socket that was moved, \<open>monitor\<close> makes its pair socket in a context that nothing has set.\<close>

lemma monitor_of_moved:
  assumes "c_socket_monitor A (so_ptr rhs) (Some addr) events w = (0, w1)" "c_socket A garbage 0 w1 = (0, w2)"
  shows "monitor_run A (fst (socket_move_new garbage rhs)) addr events mo w =
    Inr (Inl AssertFailed, mo\<lparr>mo_socketPtr := so_ptr rhs\<rparr>, w2)"
  using assms by (simp add: monitor_run_def socket_move_new_def Let_def)

section \<open>Every socket is closed once\<close>

text \<open>What the classes rely on from libzmq: which pointers are open sockets.\<close>

locale zmq_sockets =
  fixes A :: "('d, 'g) zmq_api" and open_in :: "'d world \<Rightarrow> nat set"
  assumes open_finite: "finite (open_in w)"
    and null_closed: "0 \<notin> open_in w"
    and socket_opens: "c_socket A ctx ty w = (p, w') \<Longrightarrow>
      p = 0 \<and> open_in w' = open_in w \<or> p \<noteq> 0 \<and> p \<notin> open_in w \<and> open_in w' = insert p (open_in w)"
    and close_closes: "p \<in> open_in w \<Longrightarrow> c_close A p w = (r, w') \<Longrightarrow> r = 0 \<and> open_in w' = open_in w - {p}"

text \<open>
  A program's operations on \<open>socket_t\<close> objects, which it makes, moves, closes and destroys in any order; an object that
  does not exist is not touched, and an exception of the constructor is caught.
\<close>

datatype socket_op = OpNew nat int | OpMoveNew nat | OpMoveAssign nat nat | OpClose nat | OpDestruct nat

definition live_at :: "socket_t option list \<Rightarrow> nat \<Rightarrow> socket_t option" where
  "live_at objs i = (if i < length objs then objs ! i else None)"

definition socket_op_step ::
  "('d, 'g) zmq_api \<Rightarrow> nat \<Rightarrow> socket_op \<Rightarrow> socket_t option list \<times> 'd world \<Rightarrow> (socket_t option list \<times> 'd world) zres" where
  "socket_op_step A garbage oper = (\<lambda>(objs, w).
     (case oper of
        OpNew context type \<Rightarrow>
          (case socket_new A context type w of (Inl _, w) \<Rightarrow> Inr (objs, w) | (Inr s, w) \<Rightarrow> Inr (objs @ [Some s], w))
      | OpMoveNew i \<Rightarrow>
          (case live_at objs i of None \<Rightarrow> Inr (objs, w)
           | Some rhs \<Rightarrow> (case socket_move_new garbage rhs of (s, rhs) \<Rightarrow> Inr (objs[i := Some rhs] @ [Some s], w)))
      | OpMoveAssign i j \<Rightarrow>
          (case (live_at objs i, live_at objs j) of
             (Some s, Some rhs) \<Rightarrow>
               if i = j then Inr (objs, w)
               else (case socket_swap s rhs of (s, rhs) \<Rightarrow> Inr (objs[i := Some s, j := Some rhs], w))
           | _ \<Rightarrow> Inr (objs, w))
      | OpClose i \<Rightarrow>
          (case live_at objs i of None \<Rightarrow> Inr (objs, w)
           | Some s \<Rightarrow> (case socket_close A s w of (Inl f, w) \<Rightarrow> Inl f | (Inr s, w) \<Rightarrow> Inr (objs[i := Some s], w)))
      | OpDestruct i \<Rightarrow>
          (case live_at objs i of None \<Rightarrow> Inr (objs, w)
           | Some s \<Rightarrow> (case socket_destruct A s w of (Inl f, w) \<Rightarrow> Inl f | (Inr _, w) \<Rightarrow> Inr (objs[i := None], w)))))"

fun socket_ops_run ::
  "('d, 'g) zmq_api \<Rightarrow> nat \<Rightarrow> socket_op list \<Rightarrow> socket_t option list \<times> 'd world \<Rightarrow> (socket_t option list \<times> 'd world) zres" where
  "socket_ops_run A garbage [] st = Inr st"
| "socket_ops_run A garbage (oper # opers) st =
     (case socket_op_step A garbage oper st of Inl f \<Rightarrow> Inl f | Inr st \<Rightarrow> socket_ops_run A garbage opers st)"

definition held_ptr :: "socket_t option \<Rightarrow> nat" where
  "held_ptr obj = (case obj of None \<Rightarrow> 0 | Some s \<Rightarrow> so_ptr s)"

text \<open>The pointers that live objects hold, each as often as it is held.\<close>

definition socket_owned :: "socket_t option list \<Rightarrow> nat multiset" where
  "socket_owned objs = filter_mset (\<lambda>p. p \<noteq> 0) (mset (map held_ptr objs))"

lemma held_ptr_simps [simp]: "held_ptr None = 0" "held_ptr (Some s) = so_ptr s"
  by (simp_all add: held_ptr_def)

lemma owned_append [simp]:
  "socket_owned (objs @ [x]) = (if held_ptr x = 0 then socket_owned objs else add_mset (held_ptr x) (socket_owned objs))"
  by (simp add: socket_owned_def)

lemma owned_update:
  assumes "i < length objs"
  shows "socket_owned (objs[i := x]) = (if held_ptr x = 0 then {#} else {#held_ptr x#}) + (socket_owned objs - {#held_ptr (objs ! i)#})"
proof -
  have "filter_mset (\<lambda>p. p \<noteq> 0) (M - {#0#}) = filter_mset (\<lambda>p. p \<noteq> 0) M" for M :: "nat multiset"
    by (rule multiset_eqI) simp
  then show ?thesis
    using assms by (auto simp: socket_owned_def map_update mset_update multiset_eq_iff)
qed

lemma owned_member: "i < length objs \<Longrightarrow> held_ptr (objs ! i) \<noteq> 0 \<Longrightarrow> held_ptr (objs ! i) \<in># socket_owned objs"
  by (auto simp: socket_owned_def)

lemma owned_no_null [simp]: "socket_owned objs - {#0#} = socket_owned objs"
  by (simp add: socket_owned_def diff_single_trivial)

lemma live_atD: "live_at objs i = Some s \<Longrightarrow> i < length objs \<and> objs ! i = Some s"
  by (auto simp: live_at_def split: if_splits)

lemma owned_swap:
  assumes "i < length objs" "j < length objs" "i \<noteq> j" "held_ptr x = held_ptr (objs ! j)" "held_ptr y = held_ptr (objs ! i)"
  shows "socket_owned (objs[i := x, j := y]) = socket_owned objs"
proof -
  have "mset (map held_ptr (objs[i := x, j := y])) = mset ((map held_ptr objs)[i := map held_ptr objs ! j, j := map held_ptr objs ! i])"
    using assms by (simp add: map_update)
  also have "\<dots> = mset (map held_ptr objs)" using assms(1,2) by (intro mset_swap) simp_all
  finally show ?thesis by (simp add: socket_owned_def)
qed

context zmq_sockets
begin

definition owned_ok :: "nat set \<Rightarrow> socket_t option list \<times> 'd world \<Rightarrow> bool" where
  "owned_ok base st \<longleftrightarrow> base \<subseteq> open_in (snd st) \<and> socket_owned (fst st) = mset_set (open_in (snd st) - base)"

lemma close_owned:
  assumes "owned_ok base (objs, w)" "i < length objs" "objs ! i = Some s"
  shows "\<exists>w'. socket_close A s w = (Inr (s\<lparr>so_ptr := 0\<rparr>), w') \<and> (held_ptr x = 0 \<longrightarrow> owned_ok base (objs[i := x], w'))"
proof (cases "so_ptr s = 0")
  case True
  then have "s\<lparr>so_ptr := 0\<rparr> = s" by (cases s) simp
  moreover have "0 \<notin># socket_owned objs" by (simp add: socket_owned_def)
  ultimately show ?thesis
    using assms True by (auto simp: socket_close_def owned_ok_def owned_update)
next
  case False
  let ?p = "so_ptr s"
  have mem: "?p \<in># socket_owned objs" using owned_member [OF assms(2)] assms(3) False by simp
  then have p: "?p \<in> open_in w" "?p \<notin> base" using assms(1) open_finite by (auto simp: owned_ok_def)
  obtain r w' where c: "c_close A ?p w = (r, w')" by force
  note closed = close_closes [OF p(1) c]
  have "open_in w' - base = (open_in w - base) - {?p}" using closed by blast
  moreover have "mset_set (open_in w - base - {?p}) = mset_set (open_in w - base) - {#?p#}"
    using p open_finite by (subst mset_set_Diff) auto
  ultimately show ?thesis
    using c closed False assms p by (auto simp: socket_close_def ZMQ_ASSERT_def owned_ok_def owned_update)
qed

lemma step_owned:
  assumes "owned_ok base st"
  shows "\<exists>st'. socket_op_step A garbage oper st = Inr st' \<and> owned_ok base st'"
proof -
  obtain objs w where st: "st = (objs, w)" by force
  show ?thesis
  proof (cases oper)
    case (OpNew ctx ty)
    obtain p w' where c: "c_socket A ctx ty w = (p, w')" by force
    from socket_opens [OF c] show ?thesis
    proof
      assume "p = 0 \<and> open_in w' = open_in w"
      then show ?thesis using assms c by (simp add: st OpNew socket_op_step_def socket_new_def socket_init_def owned_ok_def)
    next
      assume p: "p \<noteq> 0 \<and> p \<notin> open_in w \<and> open_in w' = insert p (open_in w)"
      then have "open_in w' - base = insert p (open_in w - base)" using assms by (auto simp: st owned_ok_def)
      moreover have "mset_set (insert p (open_in w - base)) = add_mset p (mset_set (open_in w - base))"
        using p open_finite by (intro mset_set.insert) auto
      ultimately show ?thesis
        using assms c p by (auto simp: st OpNew socket_op_step_def socket_new_def socket_init_def owned_ok_def)
    qed
  next
    case (OpMoveNew i)
    show ?thesis
    proof (cases "live_at objs i")
      case (Some s)
      from live_atD [OF this] have "socket_owned (objs[i := Some (s\<lparr>so_ptr := 0\<rparr>)] @ [Some \<lparr>so_ptr = so_ptr s, so_ctxptr = garbage\<rparr>]) = socket_owned objs"
        using owned_member [of i objs] by (auto simp: owned_update)
      then show ?thesis
        using assms Some by (simp add: st OpMoveNew socket_op_step_def socket_move_new_def owned_ok_def)
    qed (use assms in \<open>simp add: st OpMoveNew socket_op_step_def\<close>)
  next
    case (OpMoveAssign i j)
    show ?thesis
    proof (cases "\<exists>s rhs. live_at objs i = Some s \<and> live_at objs j = Some rhs \<and> i \<noteq> j")
      case True
      then obtain s rhs where *: "live_at objs i = Some s" "live_at objs j = Some rhs" "i \<noteq> j" by blast
      have "socket_owned (objs[i := Some (s\<lparr>so_ptr := so_ptr rhs\<rparr>), j := Some (rhs\<lparr>so_ptr := so_ptr s\<rparr>)]) = socket_owned objs"
        using live_atD [OF *(1)] live_atD [OF *(2)] *(3) by (intro owned_swap) simp_all
      then show ?thesis
        using assms * by (simp add: st OpMoveAssign socket_op_step_def socket_swap_def owned_ok_def)
    qed (use assms in \<open>auto simp: st OpMoveAssign socket_op_step_def split: option.split\<close>)
  next
    case (OpClose i)
    show ?thesis
    proof (cases "live_at objs i")
      case (Some s)
      with close_owned [OF assms [unfolded st], of i s "Some (s\<lparr>so_ptr := 0\<rparr>)"] live_atD [OF Some] show ?thesis
        by (auto simp: st OpClose socket_op_step_def)
    qed (use assms in \<open>simp add: st OpClose socket_op_step_def\<close>)
  next
    case (OpDestruct i)
    show ?thesis
    proof (cases "live_at objs i")
      case (Some s)
      with close_owned [OF assms [unfolded st], of i s None] live_atD [OF Some] show ?thesis
        by (auto simp: st OpDestruct socket_op_step_def socket_destruct_def)
    qed (use assms in \<open>simp add: st OpDestruct socket_op_step_def\<close>)
  qed
qed

lemma run_owned:
  assumes "owned_ok base st"
  shows "\<exists>st'. socket_ops_run A garbage opers st = Inr st' \<and> owned_ok base st'"
  using assms
proof (induction opers arbitrary: st)
  case (Cons oper opers)
  then show ?case using step_owned [OF Cons.prems, of garbage oper] by auto
qed simp

lemma run_start: "owned_ok (open_in w) ([], w)"
  by (simp add: owned_ok_def socket_owned_def)

end

section \<open>What ProtoSocket makes of it\<close>

text \<open>
  A part of a message as \<open>ProtoSocket::send\<close> sends it: a \<open>message_t\<close> of the data's size, the data copied into it, \<open>send\<close>, and
  the message's destructor. And a part as \<open>receive\<close> gets it: the data is read before the message is destroyed. The
  constructors of the messages stand in front of the \<open>try\<close> blocks.
\<close>

definition zmq_value :: "'a zres \<times> 'd world \<Rightarrow> 'a zmq_result \<times> 'd world" where
  "zmq_value =
     (\<lambda>(x, w). (case x of Inl (ErrorT e) \<Rightarrow> ZmqError (nat e) | Inl AssertFailed \<Rightarrow> ZmqEscaped | Inr y \<Rightarrow> ZmqOk y, w))"

definition part_send :: "('d, 'g) zmq_api \<Rightarrow> nat \<Rightarrow> byte list \<Rightarrow> int \<Rightarrow> 'd world \<Rightarrow> bool zmq_result \<times> 'd world" where
  "part_send A h data flags w =
     (case message_sized A (length data) w of (Inl f, w) \<Rightarrow> (ZmqEscaped, w)
      | (Inr g, w) \<Rightarrow>
          zmq_value (scoped A (socket_send A g flags \<lparr>so_ptr = h, so_ctxptr = 0\<rparr>
            (w\<lparr>lmem := mem_write (lmem w) (message_data A g) data\<rparr>))))"

definition part_recv :: "('d, 'g) zmq_api \<Rightarrow> nat \<Rightarrow> 'd world \<Rightarrow> byte list option zmq_result \<times> 'd world" where
  "part_recv A h w =
     (case message_new A w of (Inl f, w) \<Rightarrow> (ZmqEscaped, w)
      | (Inr g, w) \<Rightarrow>
          (case socket_recv A g 0 \<lparr>so_ptr = h, so_ctxptr = 0\<rparr> w of (x, g, w) \<Rightarrow>
             zmq_value (scoped A
               (map_sum id (\<lambda>b. if b then Some (mem_read (lmem w) (message_data A g) (message_size A g)) else None) x, g, w))))"

text \<open>The calls of \<open>net\<close> on libzmq.\<close>

definition on_libzmq :: "('d, 'g) zmq_api \<Rightarrow> 'd net \<Rightarrow> 'd net" where
  "on_libzmq A N = N\<lparr>
     zmq_bind := (\<lambda>h addr w. zmq_value (socket_bind A addr \<lparr>so_ptr = h, so_ctxptr = 0\<rparr> w)),
     zmq_connect := (\<lambda>h addr w. zmq_value
       (map_prod (map_sum id (\<lambda>_. socket_connected \<lparr>so_ptr = h, so_ctxptr = 0\<rparr>)) id (socket_connect A addr \<lparr>so_ptr = h, so_ctxptr = 0\<rparr> w))),
     zmq_send := (\<lambda>h data mor w. part_send A h data (if mor then int ZMQ_SNDMORE else 0) w),
     zmq_recv := (\<lambda>h w. part_recv A h w)\<rparr>"

text \<open>
  What the code relies on for messages: \<open>live w\<close> counts the messages that hold memory of libzmq's, \<open>valid\<close> structs are the
  initialised ones.
\<close>

locale zmq_messages =
  fixes A :: "('d, 'g) zmq_api" and live :: "'d world \<Rightarrow> int" and valid :: "'g \<Rightarrow> bool"
  assumes live_store: "live (w\<lparr>lmem := m\<rparr>) = live w"
    and init_live: "c_msg_init A w = ((r, g), w') \<Longrightarrow> if r = 0 then valid g \<and> live w' = live w + 1 else live w' = live w"
    and init_size_live: "c_msg_init_size A sz w = ((r, g), w') \<Longrightarrow> if r = 0 then valid g \<and> live w' = live w + 1 else live w' = live w"
    and close_live: "valid g \<Longrightarrow> c_msg_close A g w = ((r, g'), w') \<Longrightarrow> r = 0 \<and> live w = live w' + 1"
    and send_live: "valid g \<Longrightarrow> c_msg_send A g p fl w = ((n, g'), w') \<Longrightarrow> valid g' \<and> live w' = live w"
    and recv_live: "valid g \<Longrightarrow> c_msg_recv A g p fl w = ((n, g'), w') \<Longrightarrow> valid g' \<and> live w' = live w"
begin

lemma scoped_live:
  assumes "valid g" "scoped A (x, g, w) = (y, w')"
  shows "y = x \<and> live w = live w' + 1"
proof -
  obtain r g' w1 where c: "c_msg_close A g w = ((r, g'), w1)" by (metis surj_pair)
  with close_live [OF assms(1) c] assms(2) show ?thesis
    by (auto simp: scoped_def message_destruct_def ZMQ_ASSERT_def)
qed

lemma part_send_live:
  assumes "part_send A h data fl w = (x, w')"
  shows "live w' = live w \<and> (x = ZmqEscaped \<longrightarrow> fst (fst (c_msg_init_size A (length data) w)) \<noteq> 0)"
proof -
  obtain r g w1 where i: "c_msg_init_size A (length data) w = ((r, g), w1)" by (metis surj_pair)
  note init = init_size_live [OF i]
  show ?thesis
  proof (cases "r = 0")
    case False
    then show ?thesis
      using assms i init by (auto simp: part_send_def message_sized_def ctor_def z_check_def new_error_t_def)
  next
    case True
    let ?w = "w1\<lparr>lmem := mem_write (lmem w1) (c_msg_data A g) data\<rparr>"
    obtain n g2 w2 where s: "c_msg_send A g h fl ?w = ((n, g2), w2)" by (metis surj_pair)
    have g2: "valid g2" "live w2 = live w + 1" using send_live [OF _ s] init True live_store by auto
    obtain y w3 where y: "scoped A (socket_transfer A n True False w2, g2, w2) = (y, w3)" by force
    have "zmq_value (y, w3) = (x, w')"
      using assms i True s y by (simp add: part_send_def message_sized_def ctor_def z_check_def socket_send_def message_data_def)
    with scoped_live [OF g2(1) y] g2(2) show ?thesis
      by (auto simp: zmq_value_def socket_transfer_def new_error_t_def split: if_splits)
  qed
qed

lemma part_recv_live:
  assumes "part_recv A h w = (x, w')"
  shows "live w' = live w \<and> (x = ZmqEscaped \<longrightarrow> fst (fst (c_msg_init A w)) \<noteq> 0)"
proof -
  obtain r g w1 where i: "c_msg_init A w = ((r, g), w1)" by (metis surj_pair)
  note init = init_live [OF i]
  show ?thesis
  proof (cases "r = 0")
    case False
    then show ?thesis
      using assms i init by (auto simp: part_recv_def message_new_def ctor_def z_check_def new_error_t_def)
  next
    case True
    obtain n g2 w2 where s: "c_msg_recv A g h 0 w1 = ((n, g2), w2)" by (metis surj_pair)
    have g2: "valid g2" "live w2 = live w + 1" using recv_live [OF _ s] init True by auto
    let ?x = "map_sum id (\<lambda>b. if b then Some (mem_read (lmem w2) (c_msg_data A g2) (c_msg_size A g2)) else None)
      (socket_transfer A n True False w2)"
    obtain y w3 where y: "scoped A (?x, g2, w2) = (y, w3)" by force
    have "zmq_value (y, w3) = (x, w')"
      using assms i True s y
      by (simp add: part_recv_def message_new_def ctor_def z_check_def socket_recv_def message_data_def message_size_def cong: if_cong)
    with scoped_live [OF g2(1) y] g2(2) show ?thesis
      by (auto simp: zmq_value_def socket_transfer_def new_error_t_def split: if_splits)
  qed
qed

end

section \<open>A small libzmq\<close>

text \<open>
  One process that talks to itself: a message sent on a socket is received on any. A message is whether it is
  initialised, the address of its data and its size; pointers are counted up and not used again.
\<close>

record zlib =
  zl_last :: nat
  zl_open :: "nat list"
  zl_live :: int
  zl_inbox :: "byte list list"
  zl_errno :: int

type_synonym zstruct = "bool \<times> nat \<times> nat"

definition zl_upd :: "(zlib \<Rightarrow> zlib) \<Rightarrow> zlib world \<Rightarrow> zlib world" where
  "zl_upd f w = w\<lparr>dev := f (dev w)\<rparr>"

definition zl_fresh :: "nat \<Rightarrow> zlib world \<Rightarrow> (int \<times> zstruct) \<times> zlib world" where
  "zl_fresh n w = ((0, True, 65536, n), zl_upd (\<lambda>d. d\<lparr>zl_live := zl_live d + 1\<rparr>) w)"

definition zl_close_msg :: "zstruct \<Rightarrow> zlib world \<Rightarrow> (int \<times> zstruct) \<times> zlib world" where
  "zl_close_msg g w =
     (if fst g then ((0, False, snd g), zl_upd (\<lambda>d. d\<lparr>zl_live := zl_live d - 1\<rparr>) w)
      else ((-1, g), zl_upd (\<lambda>d. d\<lparr>zl_errno := 14\<rparr>) w))"

definition zl_send_msg :: "zstruct \<Rightarrow> nat \<Rightarrow> int \<Rightarrow> zlib world \<Rightarrow> (int \<times> zstruct) \<times> zlib world" where
  "zl_send_msg g h flags w =
     (if h \<notin> set (zl_open (dev w)) then ((-1, g), zl_upd (\<lambda>d. d\<lparr>zl_errno := 88\<rparr>) w)
      else case g of (v, a, n) \<Rightarrow>
        ((int n, v, a, 0), zl_upd (\<lambda>d. d\<lparr>zl_inbox := zl_inbox d @ [mem_read (lmem w) a n]\<rparr>) w))"

definition zl_recv_msg :: "zstruct \<Rightarrow> nat \<Rightarrow> int \<Rightarrow> zlib world \<Rightarrow> (int \<times> zstruct) \<times> zlib world" where
  "zl_recv_msg g h flags w =
     (case zl_inbox (dev w) of [] \<Rightarrow> ((-1, g), zl_upd (\<lambda>d. d\<lparr>zl_errno := EAGAIN\<rparr>) w)
      | x # xs \<Rightarrow>
          (case g of (v, a, n) \<Rightarrow>
             ((int (length x), v, a, length x), (zl_upd (\<lambda>d. d\<lparr>zl_inbox := xs\<rparr>) w)\<lparr>lmem := mem_write (lmem w) a x\<rparr>)))"

definition zl_socket :: "nat \<Rightarrow> int \<Rightarrow> zlib world \<Rightarrow> nat \<times> zlib world" where
  "zl_socket c ty w =
     (if c = 0 then (0, zl_upd (\<lambda>d. d\<lparr>zl_errno := 14\<rparr>) w)
      else let p = Suc (Max (insert (zl_last (dev w)) (set (zl_open (dev w))))) in
        (p, zl_upd (\<lambda>d. d\<lparr>zl_last := p, zl_open := p # zl_open d\<rparr>) w))"

definition zl_close :: "nat \<Rightarrow> zlib world \<Rightarrow> int \<times> zlib world" where
  "zl_close p w =
     (if p \<in> set (zl_open (dev w)) then (0, zl_upd (\<lambda>d. d\<lparr>zl_open := removeAll p (zl_open d)\<rparr>) w)
      else (-1, zl_upd (\<lambda>d. d\<lparr>zl_errno := 88\<rparr>) w))"

definition zl_api :: "(zlib, zstruct) zmq_api" where
  "zl_api =
     \<lparr>c_errno = (\<lambda>w. zl_errno (dev w)), c_strerror = (\<lambda>_. ''error''), c_version = (4, 1, 0), c_poll = (\<lambda>_ _ _ w. (0, w)),
      c_proxy = (\<lambda>_ _ _ w. (0, w)), c_proxy_steerable = (\<lambda>_ _ _ _ w. (0, w)), c_msg_init = zl_fresh 0,
      c_msg_init_size = zl_fresh, c_msg_init_data = (\<lambda>a n _ _. zl_fresh n), c_msg_close = zl_close_msg,
      c_msg_move = (\<lambda>g src w. ((0, src, g), w)), c_msg_copy = (\<lambda>g src w. ((0, src, src), w)), c_msg_more = (\<lambda>_. 0),
      c_msg_data = (\<lambda>g. fst (snd g)), c_msg_size = (\<lambda>g. snd (snd g)), c_msg_send = zl_send_msg, c_msg_recv = zl_recv_msg,
      c_recvmsg = (\<lambda>h g. zl_recv_msg g h), c_send = (\<lambda>_ _ n _ w. (int n, w)), c_recv = (\<lambda>_ _ _ _ w. (0, w)),
      c_ctx_new = (\<lambda>w. (1, w)), c_ctx_set = (\<lambda>_ _ _ w. (0, w)), c_ctx_destroy = (\<lambda>_ w. (0, w)), c_socket = zl_socket,
      c_close = zl_close, c_setsockopt = (\<lambda>_ _ _ _ w. (0, w)), c_getsockopt = (\<lambda>_ _ _ _ w. (0, w)),
      c_bind = (\<lambda>_ _ w. (0, w)), c_unbind = (\<lambda>_ _ w. (0, w)), c_connect = (\<lambda>_ _ w. (0, w)), c_disconnect = (\<lambda>_ _ w. (0, w)),
      c_socket_monitor = (\<lambda>_ _ _ w. (0, w))\<rparr>"

interpretation zl_sockets: zmq_sockets zl_api "\<lambda>w. set (zl_open (dev w)) - {0}"
proof
  fix c :: nat and ty :: int and w w' :: "zlib world" and p
  assume s: "c_socket zl_api c ty w = (p, w')"
  let ?m = "Max (insert (zl_last (dev w)) (set (zl_open (dev w))))"
  have "q \<le> ?m" if "q \<in> set (zl_open (dev w))" for q using that by simp
  then have "Suc ?m \<notin> set (zl_open (dev w))" by (metis not_less_eq_eq order_refl)
  then show "p = 0 \<and> set (zl_open (dev w')) - {0} = set (zl_open (dev w)) - {0} \<or>
      p \<noteq> 0 \<and> p \<notin> set (zl_open (dev w)) - {0} \<and> set (zl_open (dev w')) - {0} = insert p (set (zl_open (dev w)) - {0})"
    using s by (auto simp: zl_api_def zl_socket_def zl_upd_def Let_def split: if_splits)
qed (auto simp: zl_api_def zl_close_def zl_upd_def split: if_splits)

interpretation zl_messages: zmq_messages zl_api "\<lambda>w. zl_live (dev w)" fst
  by unfold_locales
    (auto simp: zl_api_def zl_fresh_def zl_close_msg_def zl_send_msg_def zl_recv_msg_def zl_upd_def split: if_splits list.splits)

definition zl_world :: "zlib world" where
  "zl_world = \<lparr>lmem = (\<lambda>_. 0), dev = \<lparr>zl_last = 0, zl_open = [5], zl_live = 0, zl_inbox = [], zl_errno = 0\<rparr>\<rparr>"

definition zl_proto :: proto_socket where
  "zl_proto = \<lparr>ps_conn = [], ps_sockType = ZMQ_REQ, ps_isOpen = True, ps_sock = Some 5\<rparr>"

section \<open>Properties\<close>

text \<open>
  Claim C29. Every socket is closed exactly once. In whatever order a program makes, moves, closes and destroys
  \<open>socket_t\<close> objects, no close fails, so that none of the assertions in the destructors stops the program; at
  every moment the sockets opened since the start and not yet closed are those that the live objects hold, each held by one
  object only, and the sockets that were open before are still open.
\<close>

theorem sockets_closed_once:
  assumes "zmq_sockets A open_in"
  shows "\<exists>objs w'. socket_ops_run A garbage opers ([], w) = Inr (objs, w') \<and> open_in w \<subseteq> open_in w' \<and>
    socket_owned objs = mset_set (open_in w' - open_in w)"
  using zmq_sockets.run_owned [OF assms zmq_sockets.run_start [OF assms], of garbage opers w]
  by (auto simp: zmq_sockets.owned_ok_def [OF assms])

theorem sockets_closed_once_witness:
  "\<exists>objs w'. socket_ops_run zl_api 77 [OpNew 1 3, OpNew 1 4, OpMoveNew 0, OpMoveAssign 1 2, OpClose 1, OpDestruct 0, OpClose 1]
      ([], zl_world) = Inr (objs, w') \<and> {5} \<subseteq> set (zl_open (dev w')) \<and>
    socket_owned objs = mset_set (set (zl_open (dev w')) - {0} - {5})"
  using sockets_closed_once [OF zl_sockets.zmq_sockets_axioms, of 77
      "[OpNew 1 3, OpNew 1 4, OpMoveNew 0, OpMoveAssign 1 2, OpClose 1, OpDestruct 0, OpClose 1]" zl_world]
  by (auto simp: zl_world_def simp del: socket_ops_run.simps)

text \<open>
  Claim C30. \<open>ProtoSocket\<close> releases its messages. On every path through \<open>send\<close> and \<open>receive\<close>, when libzmq takes or delivers
  the message, when it would have to wait and when it throws, the \<open>message_t\<close> that holds the data is destroyed again
  and libzmq holds exactly as many messages as before.
\<close>

theorem proto_messages_released:
  assumes "zmq_messages A live valid"
  shows "(\<forall>b w'. ProtoSocket_send (on_libzmq A N) s msg w = Inr (b, w') \<longrightarrow> live w' = live w) \<and>
    (\<forall>m s' w'. ProtoSocket_receive (on_libzmq A N) s w = Inr (m, s', w') \<longrightarrow> live w' = live w)"
proof (intro conjI allI impI)
  fix b w' assume s: "ProtoSocket_send (on_libzmq A N) s msg w = Inr (b, w')"
  show "live w' = live w"
  proof (cases "pb_serialize N msg")
    case None
    then show ?thesis using s by (simp add: ProtoSocket_send_def on_libzmq_def)
  next
    case (Some data)
    obtain h where h: "ps_sock s = Some h" using s Some by (auto simp: ProtoSocket_send_def on_libzmq_def split: option.splits)
    obtain x w1 where p: "part_send A h data 0 w = (x, w1)" by force
    then have "w' = w1"
      using s Some h by (auto simp: ProtoSocket_send_def on_libzmq_def split: zmq_result.splits)
    then show ?thesis using zmq_messages.part_send_live [OF assms p] by simp
  qed
next
  fix m s' w' assume s: "ProtoSocket_receive (on_libzmq A N) s w = Inr (m, s', w')"
  obtain h where h: "ps_sock s = Some h" using s by (auto simp: ProtoSocket_receive_def split: option.splits)
  obtain x w1 where p: "part_recv A h w = (x, w1)" by force
  then have "w' = w1"
    using s h by (auto simp: ProtoSocket_receive_def on_libzmq_def split: zmq_result.splits option.splits if_splits)
  then show "live w' = live w" using zmq_messages.part_recv_live [OF assms p] by simp
qed

theorem proto_messages_released_witness:
  "\<forall>N :: zlib net. \<exists>w' w''.
    ProtoSocket_send (on_libzmq zl_api (N\<lparr>pb_serialize := \<lambda>_. Some [7, 8, 9]\<rparr>)) zl_proto (ErrorMessage 0) zl_world = Inr (True, w') \<and>
    zl_live (dev w') = 0 \<and> zl_inbox (dev w') = [[7, 8, 9]] \<and>
    ProtoSocket_receive (on_libzmq zl_api (N\<lparr>pb_parse := \<lambda>_. Some (ErrorMessage 0)\<rparr>)) zl_proto w' =
      Inr (Some (ErrorMessage 0), zl_proto, w'') \<and> zl_live (dev w'') = 0"
proof
  fix N :: "zlib net"
  let ?N1 = "N\<lparr>pb_serialize := \<lambda>_. Some [7, 8, 9]\<rparr>" and ?N2 = "N\<lparr>pb_parse := \<lambda>_. Some (ErrorMessage 0)\<rparr>"
  let ?w1 = "zl_world\<lparr>lmem := mem_write (\<lambda>_. 0) 65536 [7, 8, 9], dev := (dev zl_world)\<lparr>zl_inbox := [[7, 8, 9]]\<rparr>\<rparr>"
  let ?w2 = "?w1\<lparr>lmem := mem_write (lmem ?w1) 65536 [7, 8, 9], dev := (dev zl_world)\<rparr>"
  note defs = on_libzmq_def zmq_value_def part_send_def part_recv_def message_sized_def message_new_def ctor_def z_check_def
    socket_send_def socket_recv_def socket_transfer_def scoped_def message_destruct_def ZMQ_ASSERT_def message_data_def
    message_size_def zl_api_def zl_fresh_def zl_send_msg_def zl_recv_msg_def zl_close_msg_def zl_upd_def zl_world_def zl_proto_def
  have read: "mem_read (mem_write m a [7, 8, 9]) a 3 = [7, 8, 9]" for m a
    by (simp add: mem_read_def upt_rec mem_write_def)
  have 1: "ProtoSocket_send (on_libzmq zl_api ?N1) zl_proto (ErrorMessage 0) zl_world = Inr (True, ?w1)"
    by (simp add: ProtoSocket_send_def defs read)
  have 2: "ProtoSocket_receive (on_libzmq zl_api ?N2) zl_proto ?w1 = Inr (Some (ErrorMessage 0), zl_proto, ?w2)"
    by (simp add: ProtoSocket_receive_def defs)
  have "zl_live (dev ?w1) = zl_live (dev zl_world)" "zl_live (dev ?w2) = zl_live (dev ?w1)"
    using proto_messages_released [OF zl_messages.zmq_messages_axioms, of ?N1 zl_proto "ErrorMessage 0" zl_world] 1
      proto_messages_released [OF zl_messages.zmq_messages_axioms, of ?N2 zl_proto "ErrorMessage 0" ?w1] 2 by blast+
  with 1 2 show "\<exists>w' w''. ProtoSocket_send (on_libzmq zl_api ?N1) zl_proto (ErrorMessage 0) zl_world = Inr (True, w') \<and>
      zl_live (dev w') = 0 \<and> zl_inbox (dev w') = [[7, 8, 9]] \<and>
      ProtoSocket_receive (on_libzmq zl_api ?N2) zl_proto w' = Inr (Some (ErrorMessage 0), zl_proto, w'') \<and> zl_live (dev w'') = 0"
    by (intro exI [of _ ?w1] exI [of _ ?w2]) (simp add: zl_world_def)
qed

end
