(* ===== verification/Spec2Isabelle.thy ===== *)
theory Spec2Isabelle
  imports Writer_Turns Free_List Main_Program Lat_Session Bench_Session Crowd_Session Zmq_Wrapper
begin

text \<open>
  \<^bold>\<open>The Data Processing Interface library\<close>

  The library lets programs on several machines share buffers over RDMA. A buffer lives in the registered
  memory of a node and consists of rings of segments, one ring per appender; a segment is a 24-byte header
  (byte counter, link to the next segment, flags) and a payload. The parts:

  \<^item> \<open>NodeServer\<close> (src/src/dpi/NodeServer.h) owns the memory and carves rings out of it on request; it is an
  \<open>RDMAServer\<close> (src/src/net/rdma/RDMAServer.cc), which also answers connection and memory requests.
  \<^item> \<open>RegistryServer\<close> and \<open>RegistryClient\<close> (src/src/dpi/Registry*.cc) keep the directory of buffers, have the
  rings created and hand one ring to every appender that joins.
  \<^item> \<open>BufferWriterBW\<close> and \<open>BufferWriterLat\<close> (src/src/dpi/BufferWriter.h) fill a ring with one-sided writes.
  \<^item> \<open>BufferIterator\<close> (src/src/dpi/local_iterators) consumes the rings on the node and gives segments back;
  \<open>BufferReader\<close> (src/src/dpi/BufferReader.h) fetches them from afar.
  \<^item> \<open>RDMAClient\<close>, \<open>RDMAManager\<close>, \<open>RDMAManagerRC\<close>, \<open>RDMAManagerUD\<close> (src/src/net/rdma) manage registered memory,
  queue pairs and transfers; \<open>ProtoSocket\<close>, \<open>ProtoClient\<close>, \<open>ProtoServer\<close> (src/src/net/proto) carry the
  request/reply messages of src/src/net/message, \<open>ProtoServer\<close> in a \<open>Thread\<close> (src/src/thread) of its own; \<open>Config\<close>,
  \<open>Logging\<close>, \<open>Timer\<close> and the helpers are in src/src/utils; the C-style interface is in src/src/memory-api; \<open>Main.cc\<close>,
  \<open>BenchmarkMain.cc\<close> and src/src/benchmark are the programs.

  \<^bold>\<open>Conventions.\<close> Every operation is a function of the state it reads and returns the state it leaves. A
  class is a record; \<open>world\<close> holds the process's byte memory and whatever state the device and the network
  have. A function that can throw, exit, follow a null pointer, index out of range or spin forever returns
  \<open>result\<close> (theory \<open>DPI_Prelude\<close>): an error value on the left, what the code returns on the right. Loops are
  \<open>loopR\<close>, built on \<open>while_option\<close>, so a loop that never ends is the error value \<open>Spin\<close>, and each theorem that
  says an operation returns something proves that its loops end. No fuel is involved, except in \<open>drain\<close>, the
  consuming program of the theorems, whose bound is the number of calls it makes, one per segment and one more, and is stated. A
  \<open>size_t\<close> or \<open>uint64_t\<close> is a natural number below \<open>2 ^ 64\<close> with wrapping \<open>add64\<close>, \<open>sub64\<close>, \<open>mul64\<close>; the flags of a
  header are a 64-bit word. Code that is not in the repository is a parameter: \<open>verbs\<close> and \<open>verbs_cm\<close> hold the
  calls of libibverbs, libnuma and librdmacm, \<open>net\<close> those of ZeroMQ and protobuf, \<open>zmq_api\<close> the C functions of libzmq.

  \<^bold>\<open>Theories.\<close>

  \<^item> \<open>DPI_Prelude\<close>: errors, sequencing, loops, machine integers, byte memory.
  \<^item> \<open>Segment_Header\<close>: \<open>Config::DPI_SEGMENT_HEADER_t\<close>, its flags, its layout in memory.
  \<^item> \<open>RDMA_Manager\<close>, \<open>Mem_Allocator\<close>: the data of \<open>RDMAManager\<close>, the first-fit allocator and the connection
  tables; the invariant of the allocator and its correctness, against the contract of \<open>Region_Interface\<close>
  (locales \<open>region_alloc\<close> and \<open>region_heap\<close>, interpreted on the manager as \<open>rdma_heap\<close>).
  \<^item> \<open>Verbs\<close>, \<open>RDMA_RC\<close>, \<open>RDMA_UD\<close>, \<open>Managers\<close>: the external calls, the two managers, and the virtual calls
  through the base class.
  \<^item> \<open>String_Utils\<close>, \<open>DPI_Config\<close>, \<open>Messages\<close>, \<open>Proto\<close>: strings, configuration, messages, request/reply.
  \<^item> \<open>Zmq_Wrapper\<close>: the C++ classes of src/src/net/proto/zmq.hpp over libzmq. The locales \<open>zmq_sockets\<close> and \<open>zmq_messages\<close>
  state what they rely on (interpreted on a small libzmq as \<open>zl_sockets\<close> and \<open>zl_messages\<close>); sockets are closed once,
  messages are released, and \<open>on_libzmq\<close> makes the calls of \<open>net\<close> out of the classes.
  \<^item> \<open>RDMA_Server\<close>, \<open>Node_Server\<close>, \<open>RDMA_Client\<close>, \<open>Registry\<close>: servers, client, directory.
  \<^item> \<open>Buffer_Writer\<close>, \<open>Iterators\<close>, \<open>Buffer_Reader\<close>: writers, iterators, reader and the interfaces on top.
  \<^item> \<open>RC_Fabric\<close>: what the code relies on from a connected reliable queue pair, as the locale \<open>rc_fabric\<close>, the
  transfers proved from it, and a device that defers all work until its completion queue is polled, which
  satisfies it.
  \<^item> \<open>Stream_Writer\<close>, \<open>Stream_Reader\<close>: locales \<open>ring_link\<close> and \<open>ring_stream\<close>, one ring in the peer's memory seen
  from a reader and a writer; the bytes in a ring as a stream. \<open>Many_Rings\<close>: the iterator over the rings of all appenders.
  \<^item> \<open>Lat_Writer\<close>, \<open>Lat_Consumer\<close>: the positions, messages and copies of \<open>BufferWriterLat\<close>, in the context \<open>ring_stream\<close>,
  and \<open>BufferIteratorLat\<close> on what it wrote.
  \<^item> \<open>Channel_Spec\<close>, \<open>Ring_Protocol\<close>, \<open>Writer_Turns\<close>: the specification, a bounded first-in first-out channel (locale
  \<open>channel\<close>); the ring with a writer and an iterator that work at the same time, as turns in any order, and its
  refinement of the channel (interpretation \<open>two_ring\<close>); the writer's functions as turns.
  \<^item> \<open>Crowd_Spec\<close>, \<open>Crowd_Protocol\<close>, \<open>Crowd_Session\<close>: the same for a buffer with many appenders. The specification is one
  channel per appender and a consumer that goes round them (locale \<open>channels\<close>); the rings with their writers and one
  \<open>BufferIterator\<close> refine it (interpretation \<open>two_appenders\<close>), also from the buffer's registration on.
  \<^item> \<open>Message_Spec\<close>, \<open>Lat_Protocol\<close>, \<open>Lat_Session\<close>: the same for low-latency rings. The specification is a channel of whole
  messages whose writer works on credit (locale \<open>message_channel\<close>); \<open>Lat_Protocol\<close> simulates it with a writer reduced to what
  the node's memory sees. \<open>Lat_Session\<close> runs the code itself: \<open>append\<close> of \<open>BufferWriterLat\<close> cut into its polls of the counter and
  its transfer, with internal buffer and adapter, against \<open>BufferIteratorLat\<close>, on a fabric that shows the node's memory when
  nothing is on its way (locale \<open>lat_link\<close>, interpretations \<open>fab_live\<close> and \<open>fab_channel\<close>); \<open>append\<close> is exactly these turns.
  \<^item> \<open>Cluster\<close>, \<open>Writer_Start\<close>, \<open>Lat_Start\<close>: servers behind connections. The locales \<open>rpc_link\<close>, \<open>node_link\<close> and
  \<open>registry_link\<close> say that a request is answered by the server's handler (interpreted on networks in which it is, as
  \<open>local_node\<close> and \<open>local_registry\<close>), \<open>writer_process\<close> adds a queue pair; registration, joining and the writers'
  constructors over them, and whole sessions.
  \<^item> \<open>Free_List\<close>: merging in \<open>internalFree\<close> against a reference that merges everywhere, and the allocator's reachable
  states.
  \<^item> \<open>Server_Thread\<close>, \<open>Logging_Timer\<close>, \<open>Lifecycle\<close>: \<open>Thread\<close> and the two threads of \<open>ProtoServer\<close> as a step relation, with
  \<open>inevitable\<close> for what every run comes to; log lines and time statistics; destructors and accessors.
  \<^item> \<open>Benchmarks\<close>, \<open>Main_Program\<close>: command lines, the benchmarks' threads and their common start, the main program.
  \<^item> \<open>Lat_Close\<close>, \<open>Bench_Session\<close>: closing a low-latency stream, what the iterator makes of it, and the latency benchmark from
  the client thread to the server's count; \<open>runServer\<close>, \<open>runClient\<close> and destructor of the benchmarks.

  \<^bold>\<open>What is proved.\<close> The stream theorems say that appending puts exactly the given bytes into the ring, that
  iterator and reader get exactly these bytes out, and, below, that handler, writer and iterator fit
  together. They hold for all sizes of chunks, segments and internal buffer, as long as the data fits into
  the ring, for a peer whose memory is changed by this connection only. The theorems of \<open>Ring_Protocol\<close> drop the
  limit on the data: writer and consumer go round the ring at the same time, and in every interleaving the
  consumer sees what the channel delivers, never sees a byte that was overwritten, and, when both get their turns,
  sees everything; a turn is one transfer of the writer or one round of the iterator, which \<open>Writer_Turns\<close> ties to the
  writer's functions. All this is about rings of at least two segments; on a ring of one segment the code loses data
  (\<open>single_segment_ring_loses\<close>). \<open>Lat_Session\<close> says the same of low-latency rings, message by message, for the code of both sides,
  where the writer learns of the free segments from the consumer's counter, if the appends are signaled: unsignaled
  writes may still be read from the internal buffer when the code starts it anew. It also asks for an internal buffer
  that holds a segment, with room for the 24 bytes that \<open>writeToSegment\<close> copies too many. The sequential theorems on messages
  (\<open>Lat_Writer\<close>, \<open>Lat_Start\<close>, \<open>Lat_Close\<close>) hold for signaled and unsignaled appends that together fit the internal buffer.
  \<open>Writer_Start\<close> and
  \<open>Lat_Start\<close> put registration, constructor, appends and consumer together. The \<open>Crowd_*\<close> theories say it for a
  buffer with many appenders, each on a ring of its own: they do not disturb one another, and from registration to the
  last byte the one iterator sees every appender's stream, under every schedule that gives all of them turns. The allocator
  theorems say that live regions stay disjoint and inside the buffer, when \<open>internalFree\<close> succeeds and that then the free
  regions are fully merged and no byte is lost; it fails and loses the region when a free region lies in front of it and none
  behind (\<open>internalFree_leaks\<close>), and also when the offsets of those in front add up to more than its own. A configuration
  file is read as it is written (\<open>config_file_roundtrip\<close>). The server and registry theorems say that
  rings are well formed, isolated and handed out once, and that a registration that fails leaves traces; the manager theorems that connections get fresh keys and are
  connected step by step; the thread theorems when \<open>stopServer\<close> returns and when it does not. Theorems whose names
  end in \<open>failure\<close>, \<open>leaks\<close>, \<open>loses\<close>, \<open>overruns\<close>, \<open>races\<close>, \<open>terminates\<close>, \<open>ends_service\<close>, \<open>reuses_rings\<close>,
  \<open>reports_success\<close>, \<open>remains\<close> and \<open>miscounts\<close> are about behaviour that the code has but hardly intends.

  \<^bold>\<open>Not modelled.\<close> The locks inside the server classes: each handler is one critical section. \<open>BufferConsumer.h\<close>, which
  is commented out; waiting for key presses, sleeping and the clocks in the benchmarks; the tests. That
  an adapter may place the bytes of one write in any order, so that a consumer can see a header before the data behind
  it, is not modelled: a write takes effect as a whole.
\<close>

section \<open>From the node's handler to the consumer\<close>

text \<open>
  A buffer works end to end. The ring that the node's handler creates for an allocation request,
  filled by a \<open>BufferWriterBW\<close> over a reliable connection with any chunks that fit and closed, is read on the
  node by \<open>BufferIterator\<close> as exactly the concatenation of the chunks: nothing fails, nothing waits, no byte is
  lost, duplicated or reordered.
\<close>

lemma buffer_end_to_end:
  assumes "srv_manager srv = ManagerRC m" and "mem_inv m" and "ring_request_ok req"
    and "asq_segments_size req = S + 24"
    and "node_handle N ncfg (DPIAllocSegmentsRequest req) srv nw = Inr (DPIAllocSegmentsResponse resp, srv', nw')"
    and "asr_return resp = 0"
    and "ring_stream V p cq lkey rkey lreg rreg slots up rmem due busy posted pend rank cfg (buffer_base m)
      (asr_offset resp) (asq_segments_count req) S h ptr cap"
    and "bw_fresh (cfg_RDMA_MAX_WR cfg) p cq lkey rkey (buffer_base m) (asr_offset resp) S h ptr cap s"
    and "up w" and "\<not> pend w" and "posted w \<le> cl_countWR (bw_client s)" and "busy w = {}"
    and "rmem w = lmem nw'" and "get_header (lmem w) h = get_header (rmem w) (buffer_base m + asr_offset resp)"
    and "sum_list (map snd chunks) \<le> asq_segments_count req * S" and "\<forall>(d, n) \<in> set chunks. {d..<d + n} \<inter> lreg = {}"
    and "bh_entrySegments hdl = [\<lparr>seg_offset = asr_offset resp, seg_size = S\<rparr>]"
  shows "\<exists>s1 w1 s2 w2 n parts b im.
    bw_appends V cfg chunks s w = Inr (True, s1, w1) \<and> bw_close V cfg s1 w1 = Inr (True, s2, w2) \<and>
    (case getIterator hdl (buffer_base m) (rmem w2) of (b0, im0) \<Rightarrow> drain n b0 im0) = Inr (parts, b, im) \<and>
    concat parts = stream_of (lmem w) chunks"
proof -
  have fresh: "ring_fresh (rmem w) (buffer_base m) (asr_offset resp) (asq_segments_count req) (S + 24)"
    using node_ring_fresh(2) [OF assms(1-3,5,6)] assms(4,13) by simp
  have pos: "0 < asq_segments_count req" using assms(3) by (simp add: ring_request_ok_def)
  obtain s1 w1 s2 w2 k u where w: "bw_appends V cfg chunks s w = Inr (True, s1, w1)"
    "bw_close V cfg s1 w1 = Inr (True, s2, w2)"
    "ring_closed (rmem w2) (buffer_base m) (asr_offset resp) (asq_segments_count req) S k u (stream_of (lmem w) chunks)"
    using stream_written [OF assms(7-12) fresh pos assms(14-16)] by blast
  then show ?thesis using drain_closed_ring [OF assms(17)] by fastforce
qed

text \<open>The world of a writer connected to the node \<open>node_server\<close>.\<close>

definition writer_world :: "mem \<Rightarrow> fab world" where
  "writer_world r = \<lparr>lmem = put_header (\<lambda>a. word_of_nat a) 4096 (get_header r 65536),
     dev = \<lparr>fab_mem = r, fab_queue = [], fab_delay = 0\<rparr>\<rparr>"

definition node_handle_result :: "(any_msg \<times> rdma_server \<times> unit world) result" where
  "node_handle_result = Inr (DPIAllocSegmentsResponse \<lparr>asr_offset = 0, asr_return = 0\<rparr>,
     node_server\<lparr>srv_manager := ManagerRC (snd (internalAlloc 160 node_manager))\<rparr>,
     blank_world\<lparr>lmem := write_ring 65536 0 4 40 (\<lambda>_. 0)\<rparr>)"

lemma four_segments_ok: "ring_request_ok (small_request 4 BW)" "ring_bytes (small_request 4 BW) = 160"
  "ring_front (small_request 4 BW) = 0"
  by (simp_all add: ring_request_ok_def ring_bytes_def ring_front_def small_request_def)

lemma node_handle_run:
  "node_handle (V :: unit verbs) config_default (DPIAllocSegmentsRequest (small_request 4 BW)) node_server blank_world =
     node_handle_result"
proof -
  have "srv_manager node_server = ManagerRC node_manager" by (simp add: node_server_def)
  from node_allocSegments_rc [OF this four_segments_ok(1), of "rdma_mem 160 False 0" "snd (internalAlloc 160 node_manager)" blank_world]
  show ?thesis
    using node_manager_ok(2,3) four_segments_ok(2,3)
    by (simp add: node_handle_def node_handle_result_def blank_world_def)
qed

interpretation fab_first: ring_stream fab_verbs fab_qp 3 1 2 fab_lreg fab_rreg fab_slots
  fab_up fab_rmem fab_due fab_busy fab_posted fab_pend "\<lambda>w. fab_delay (dev w)" fab_config 65536 0 4 16 4096 4120 10
  by unfold_locales (auto simp: fab_slots_def fab_rreg_def fab_lreg_def)

lemma buffer_end_to_end_instance:
  "\<forall>V :: unit verbs. \<exists>nw' s1 w1 s2 w2 n parts b im.
    node_handle V config_default (DPIAllocSegmentsRequest (small_request 4 BW)) node_server blank_world =
      Inr (DPIAllocSegmentsResponse \<lparr>asr_offset = 0, asr_return = 0\<rparr>,
        node_server\<lparr>srv_manager := ManagerRC (snd (internalAlloc 160 node_manager))\<rparr>, nw') \<and>
    bw_appends fab_verbs fab_config [(10, 33), (200, 1)]
      (fab_writer\<lparr>bw_localBufferSegment := Some \<lparr>seg_offset = 0, seg_size = 16\<rparr>\<rparr>) (writer_world (lmem nw')) = Inr (True, s1, w1) \<and>
    bw_close fab_verbs fab_config s1 w1 = Inr (True, s2, w2) \<and>
    (case getIterator ((newBufferHandle ''b'' 1 4 1 16 BW)\<lparr>bh_entrySegments := [\<lparr>seg_offset = 0, seg_size = 16\<rparr>]\<rparr>)
      65536 (fab_rmem w2) of (b0, im0) \<Rightarrow> drain n b0 im0) = Inr (parts, b, im) \<and>
    concat parts = map word_of_nat ([10..<43] @ [200])"
proof
  fix V :: "unit verbs"
  let ?nw = "blank_world\<lparr>lmem := write_ring 65536 0 4 40 (\<lambda>_. 0)\<rparr>"
  let ?w = "writer_world (lmem ?nw)"
  let ?s = "fab_writer\<lparr>bw_localBufferSegment := Some \<lparr>seg_offset = 0, seg_size = 16\<rparr>\<rparr>"
  let ?hdl = "(newBufferHandle ''b'' 1 4 1 16 BW)\<lparr>bh_entrySegments := [\<lparr>seg_offset = 0, seg_size = 16\<rparr>]\<rparr>"
  let ?srv = "node_server\<lparr>srv_manager := ManagerRC (snd (internalAlloc 160 node_manager))\<rparr>"
  have m: "srv_manager node_server = ManagerRC node_manager" by (simp add: node_server_def)
  have run: "node_handle V config_default (DPIAllocSegmentsRequest (small_request 4 BW)) node_server blank_world =
      Inr (DPIAllocSegmentsResponse \<lparr>asr_offset = 0, asr_return = 0\<rparr>, ?srv, ?nw)"
    by (simp add: node_handle_run node_handle_result_def)
  have w: "fab_up ?w" "\<not> fab_pend ?w" "fab_posted ?w = 0" "fab_busy ?w = {}" "fab_rmem ?w = lmem ?nw"
    "get_header (lmem ?w) 4096 = get_header (lmem ?nw) 65536"
    by (simp_all add: writer_world_def fab_up_def fab_pend_def fab_posted_def fab_busy_def fab_rmem_def fab_flush_def)
  have s: "bw_fresh 8 fab_qp 3 1 2 65536 0 16 4096 4120 10 ?s" using fab_writer_fresh by (simp add: bw_fresh_def)
  have read: "mem_read (lmem ?w) d n = map word_of_nat [d..<d + n]" if "d + n \<le> 4096" for d n
    using that by (intro nth_equalityI) (auto simp: writer_world_def put_header_outside)
  have "stream_of (lmem ?w) [(10, 33), (200, 1)] = map word_of_nat ([10..<43] @ [200])"
    using read [of 10 33] read [of 200 1] by (simp add: stream_of_def)
  with buffer_end_to_end [OF m node_manager_ok(1) four_segments_ok(1) _ run,
      where V = fab_verbs and p = fab_qp and cq = 3 and lkey = 1 and rkey = 2 and lreg = fab_lreg and rreg = fab_rreg
        and slots = fab_slots and up = fab_up and rmem = fab_rmem and due = fab_due and busy = fab_busy
        and posted = fab_posted and pend = fab_pend and rank = "\<lambda>w. fab_delay (dev w)" and cfg = fab_config
        and S = 16 and h = 4096 and ptr = 4120 and cap = 10 and s = ?s and w = ?w and hdl = ?hdl
        and chunks = "[(10, 33), (200, 1)]"]
    fab_first.ring_stream_axioms w s node_manager_ok(2)
  have "\<exists>s1 w1 s2 w2 n parts b im.
    bw_appends fab_verbs fab_config [(10, 33), (200, 1)] ?s ?w = Inr (True, s1, w1) \<and>
    bw_close fab_verbs fab_config s1 w1 = Inr (True, s2, w2) \<and>
    (case getIterator ?hdl 65536 (fab_rmem w2) of (b0, im0) \<Rightarrow> drain n b0 im0) = Inr (parts, b, im) \<and>
    concat parts = map word_of_nat ([10..<43] @ [200])"
    by (simp add: fab_lreg_def del: upt_Suc upt_rec_numeral)
  then show "\<exists>nw' s1 w1 s2 w2 n parts b im.
    node_handle V config_default (DPIAllocSegmentsRequest (small_request 4 BW)) node_server blank_world =
      Inr (DPIAllocSegmentsResponse \<lparr>asr_offset = 0, asr_return = 0\<rparr>, ?srv, nw') \<and>
    bw_appends fab_verbs fab_config [(10, 33), (200, 1)] ?s (writer_world (lmem nw')) = Inr (True, s1, w1) \<and>
    bw_close fab_verbs fab_config s1 w1 = Inr (True, s2, w2) \<and>
    (case getIterator ?hdl 65536 (fab_rmem w2) of (b0, im0) \<Rightarrow> drain n b0 im0) = Inr (parts, b, im) \<and>
    concat parts = map word_of_nat ([10..<43] @ [200])"
    using run by (intro exI [of _ ?nw]) blast
qed

end
